(* ===== verification/Prelude.thy ===== *)
theory Prelude
  imports Main "HOL-Library.Word" "HOL-Library.Product_Lexorder"
begin

text \<open>
  Shared vocabulary of the development: identifiers, instants and byte strings; the
  64-bit signed arithmetic of Go; actions with errors (a state transformer that returns an
  error or a value) and the rule set for invariants of actions; and the row lists that
  stand for SQL tables with the four statements the program uses on them.
\<close>

section \<open>Collections of facts\<close>

named_theorems keeps_intro \<open>rules that push an invariant through an action\<close>
named_theorems act_simps \<open>evaluation of actions on a given state\<close>
named_theorems sql_simps \<open>facts on updates, deletions and counts of row lists\<close>

section \<open>Basic types\<close>

text \<open>
  A \<open>uuid.UUID\<close> is an array of 16 bytes; as a big-endian number its order is the order of
  \<open>bytes.Compare\<close> and of the canonical strings. A \<open>time.Time\<close> is an instant in nanoseconds,
  a \<open>time.Duration\<close> a number of nanoseconds. Go strings and byte slices are lists of bytes.
\<close>

type_synonym uuid = "128 word"
type_synonym time = int
type_synonym duration = int
type_synonym bytes = string

abbreviation uuid_nil :: uuid where "uuid_nil \<equiv> 0"

abbreviation second :: duration where "second \<equiv> 1000000000"
abbreviation minute :: duration where "minute \<equiv> 60000000000"
abbreviation hour :: duration where "hour \<equiv> 3600000000000"

section \<open>64-bit signed arithmetic\<close>

text \<open>The zero value of \<^verbatim>\<open>time.Time\<close>, the beginning of the year 1.\<close>

definition zero_time :: time where "zero_time = - 62135596800 * second"

definition max_int64 :: int where "max_int64 = 9223372036854775807"

definition wrap64 :: "int \<Rightarrow> int" where
  "wrap64 x = (x + 9223372036854775808) mod 18446744073709551616 - 9223372036854775808"

definition in_int64 :: "int \<Rightarrow> bool" where
  "in_int64 x \<longleftrightarrow> - 9223372036854775808 \<le> x \<and> x \<le> 9223372036854775807"

text \<open>Go's integer division truncates towards zero; the remainder has the dividend's sign.\<close>

definition go_div :: "int \<Rightarrow> int \<Rightarrow> int" where
  "go_div a b = sgn a * sgn b * (\<bar>a\<bar> div \<bar>b\<bar>)"

definition go_mod :: "int \<Rightarrow> int \<Rightarrow> int" where
  "go_mod a b = a - b * go_div a b"

lemma wrap64_id [simp]: "in_int64 x \<Longrightarrow> wrap64 x = x"
  by (simp add: in_int64_def wrap64_def mod_pos_pos_trivial)

lemma wrap64_in_int64 [simp]: "in_int64 (wrap64 x)"
proof -
  have "0 \<le> (x + 9223372036854775808) mod 18446744073709551616"
    and "(x + 9223372036854775808) mod 18446744073709551616 < 18446744073709551616"
    by simp_all
  then show ?thesis by (simp add: in_int64_def wrap64_def)
qed

lemma in_int64_max: "in_int64 max_int64"
  by (simp add: in_int64_def max_int64_def)

lemma go_div_nonneg [simp]: "0 \<le> a \<Longrightarrow> 0 < b \<Longrightarrow> go_div a b = a div b"
  by (cases "a = 0") (simp_all add: go_div_def)

lemma go_mod_nonneg [simp]: "0 \<le> a \<Longrightarrow> 0 < b \<Longrightarrow> go_mod a b = a mod b"
  by (simp add: go_mod_def minus_mult_div_eq_mod)

section \<open>Actions: state, errors, early returns\<close>

text \<open>
  An action runs on a state and returns either an error (\<open>Inl\<close>) or a value (\<open>Inr\<close>)
  with the new state. The state survives an error: what an aborted transaction undoes is
  undone explicitly.
\<close>

type_synonym ('s, 'e, 'a) act = "'s \<Rightarrow> ('e + 'a) \<times> 's"

definition ret :: "'a \<Rightarrow> ('s, 'e, 'a) act" where
  "ret x = (\<lambda>s. (Inr x, s))"

definition throw :: "'e \<Rightarrow> ('s, 'e, 'a) act" where
  "throw e = (\<lambda>s. (Inl e, s))"

definition bindA :: "('s, 'e, 'a) act \<Rightarrow> ('a \<Rightarrow> ('s, 'e, 'b) act) \<Rightarrow> ('s, 'e, 'b) act" where
  "bindA m f = (\<lambda>s. case m s of (Inl e, s') \<Rightarrow> (Inl e, s') | (Inr x, s') \<Rightarrow> f x s')"

text \<open>\<open>tryA m\<close> hands the error of \<open>m\<close> to the code that follows, as \<open>x, err := m()\<close> does.\<close>

definition tryA :: "('s, 'e, 'a) act \<Rightarrow> ('s, 'f, 'e + 'a) act" where
  "tryA m = (\<lambda>s. case m s of (r, s') \<Rightarrow> (Inr r, s'))"

definition mapErr :: "('e \<Rightarrow> 'f) \<Rightarrow> ('s, 'e, 'a) act \<Rightarrow> ('s, 'f, 'a) act" where
  "mapErr g m = (\<lambda>s. case m s of (Inl e, s') \<Rightarrow> (Inl (g e), s') | (Inr x, s') \<Rightarrow> (Inr x, s'))"

definition gets :: "('s \<Rightarrow> 'a) \<Rightarrow> ('s, 'e, 'a) act" where
  "gets f = (\<lambda>s. (Inr (f s), s))"

definition modifyA :: "('s \<Rightarrow> 's) \<Rightarrow> ('s, 'e, unit) act" where
  "modifyA f = (\<lambda>s. (Inr (), f s))"

fun forA :: "'a list \<Rightarrow> ('a \<Rightarrow> ('s, 'e, unit) act) \<Rightarrow> ('s, 'e, unit) act" where
  "forA [] f = ret ()"
| "forA (x # xs) f = bindA (f x) (\<lambda>_. forA xs f)"

lemma ret_run [act_simps]: "ret x s = (Inr x, s)" by (simp add: ret_def)
lemma throw_run [act_simps]: "throw e s = (Inl e, s)" by (simp add: throw_def)
lemma gets_run [act_simps]: "gets f s = (Inr (f s), s)" by (simp add: gets_def)
lemma modifyA_run [act_simps]: "modifyA f s = (Inr (), f s)" by (simp add: modifyA_def)

lemma bindA_run [act_simps]:
  "bindA m f s = (case m s of (Inl e, s') \<Rightarrow> (Inl e, s') | (Inr x, s') \<Rightarrow> f x s')"
  by (simp add: bindA_def)

lemma tryA_run [act_simps]: "tryA m s = (Inr (fst (m s)), snd (m s))"
  by (simp add: tryA_def split_beta)

lemma mapErr_run [act_simps]:
  "mapErr g m s = (case m s of (Inl e, s') \<Rightarrow> (Inl (g e), s') | (Inr x, s') \<Rightarrow> (Inr x, s'))"
  by (simp add: mapErr_def)

lemma if_run [act_simps]: "(if b then m else n) s = (if b then m s else n s)"
  by simp

lemma option_run [act_simps]:
  "(case x of None \<Rightarrow> m | Some y \<Rightarrow> f y) s = (case x of None \<Rightarrow> m s | Some y \<Rightarrow> f y s)"
  by (simp split: option.split)

lemma let_run [act_simps]: "(let x = t in f x) s = (let x = t in f x s)"
  by simp

lemma bindA_Inr_iff:
  "bindA m f s = (Inr y, s'') \<longleftrightarrow> (\<exists>x s'. m s = (Inr x, s') \<and> f x s' = (Inr y, s''))"
  by (auto simp: bindA_run split: prod.splits sum.splits)

lemma bindA_InrE:
  assumes "bindA m f s = (Inr y, s'')"
  obtains x s' where "m s = (Inr x, s')" "f x s' = (Inr y, s'')"
  using assms by (auto simp: bindA_Inr_iff)

lemma bindA_Inr_run: "m s = (Inr x, s') \<Longrightarrow> bindA m f s = f x s'"
  by (simp add: bindA_run)

lemma forA_step: "f x s = (Inr (), s') \<Longrightarrow> forA (x # xs) f s = forA xs f s'"
  by (simp add: bindA_run)

subsection \<open>Invariants of actions\<close>

text \<open>\<open>keeps I m\<close>: whatever \<open>m\<close> returns, error or value, the state it leaves satisfies
  \<open>I\<close> when the state it started from does.\<close>

definition keeps :: "('s \<Rightarrow> bool) \<Rightarrow> ('s, 'e, 'a) act \<Rightarrow> bool" where
  "keeps I m \<longleftrightarrow> (\<forall>s. I s \<longrightarrow> I (snd (m s)))"

lemma keepsI: "(\<And>s. I s \<Longrightarrow> I (snd (m s))) \<Longrightarrow> keeps I m"
  by (simp add: keeps_def)

lemma keepsD: "keeps I m \<Longrightarrow> I s \<Longrightarrow> m s = (r, s') \<Longrightarrow> I s'"
  by (metis keeps_def snd_conv)

lemma keeps_ret [keeps_intro]: "keeps I (ret x)" by (simp add: keeps_def act_simps)
lemma keeps_throw [keeps_intro]: "keeps I (throw e)" by (simp add: keeps_def act_simps)
lemma keeps_gets [keeps_intro]: "keeps I (gets f)" by (simp add: keeps_def act_simps)

lemma keeps_modifyA [keeps_intro]: "(\<And>s. I s \<Longrightarrow> I (f s)) \<Longrightarrow> keeps I (modifyA f)"
  by (simp add: keeps_def act_simps)

lemma keeps_bindA [keeps_intro]:
  assumes "keeps I m" and "\<And>x. keeps I (f x)"
  shows "keeps I (bindA m f)"
  using assms by (force simp: keeps_def bindA_run split: prod.splits sum.splits)

lemma keeps_tryA [keeps_intro]: "keeps I m \<Longrightarrow> keeps I (tryA m)"
  by (simp add: keeps_def act_simps)

lemma keeps_mapErr [keeps_intro]: "keeps I m \<Longrightarrow> keeps I (mapErr g m)"
  by (force simp: keeps_def mapErr_run split: prod.splits sum.splits)

lemma keeps_if [keeps_intro]:
  "(b \<Longrightarrow> keeps I m) \<Longrightarrow> (\<not> b \<Longrightarrow> keeps I n) \<Longrightarrow> keeps I (if b then m else n)"
  by simp

lemma keeps_option [keeps_intro]:
  "(x = None \<Longrightarrow> keeps I m) \<Longrightarrow> (\<And>y. x = Some y \<Longrightarrow> keeps I (f y)) \<Longrightarrow>
   keeps I (case x of None \<Rightarrow> m | Some y \<Rightarrow> f y)"
  by (cases x) simp_all

lemma keeps_sum [keeps_intro]:
  "(\<And>e. x = Inl e \<Longrightarrow> keeps I (f e)) \<Longrightarrow> (\<And>y. x = Inr y \<Longrightarrow> keeps I (g y)) \<Longrightarrow>
   keeps I (case x of Inl e \<Rightarrow> f e | Inr y \<Rightarrow> g y)"
  by (cases x) simp_all

lemma keeps_prod [keeps_intro]:
  "(\<And>a b. p = (a, b) \<Longrightarrow> keeps I (f a b)) \<Longrightarrow> keeps I (case p of (a, b) \<Rightarrow> f a b)"
  by (cases p) simp

lemma keeps_let [keeps_intro]: "(\<And>x. x = t \<Longrightarrow> keeps I (f x)) \<Longrightarrow> keeps I (let x = t in f x)"
  by simp

lemma keeps_forA [keeps_intro]: "(\<And>x. keeps I (f x)) \<Longrightarrow> keeps I (forA xs f)"
  by (induction xs) (simp_all add: keeps_ret keeps_bindA)

subsection \<open>Pre- and postconditions of actions\<close>

text \<open>\<open>triple P m Q E\<close>: from a state satisfying \<open>P\<close>, a value \<open>x\<close> comes with a state satisfying
  \<open>Q x\<close>, and an error with a state satisfying \<open>E\<close>.\<close>

definition triple :: "('s \<Rightarrow> bool) \<Rightarrow> ('s, 'e, 'a) act \<Rightarrow> ('a \<Rightarrow> 's \<Rightarrow> bool) \<Rightarrow> ('s \<Rightarrow> bool) \<Rightarrow> bool" where
  "triple P m Q E \<longleftrightarrow> (\<forall>s. P s \<longrightarrow> (case m s of (Inr x, s') \<Rightarrow> Q x s' | (Inl e, s') \<Rightarrow> E s'))"

lemma tripleI:
  assumes "\<And>s x s'. P s \<Longrightarrow> m s = (Inr x, s') \<Longrightarrow> Q x s'" and "\<And>s e s'. P s \<Longrightarrow> m s = (Inl e, s') \<Longrightarrow> E s'"
  shows "triple P m Q E"
  using assms by (auto simp: triple_def split: prod.split sum.split)

lemma triple_Inr: "triple P m Q E \<Longrightarrow> P s \<Longrightarrow> m s = (Inr x, s') \<Longrightarrow> Q x s'"
  by (force simp: triple_def)

lemma triple_Inl: "triple P m Q E \<Longrightarrow> P s \<Longrightarrow> m s = (Inl e, s') \<Longrightarrow> E s'"
  by (force simp: triple_def)

lemma triple_any: "triple P m (\<lambda>_. I) I \<Longrightarrow> P s \<Longrightarrow> I (snd (m s))"
  by (cases "m s"; cases "fst (m s)") (auto dest: triple_Inr triple_Inl)

lemma triple_weaken:
  assumes "triple P' m Q' E'" "\<And>s. P s \<Longrightarrow> P' s" "\<And>x s. Q' x s \<Longrightarrow> Q x s" "\<And>s. E' s \<Longrightarrow> E s"
  shows "triple P m Q E"
  using assms by (intro tripleI) (blast dest: triple_Inr triple_Inl)+

lemma triple_pre: "triple P' m Q E \<Longrightarrow> (\<And>s. P s \<Longrightarrow> P' s) \<Longrightarrow> triple P m Q E"
  by (rule triple_weaken)

lemma triple_post: "triple P m Q' E \<Longrightarrow> (\<And>x s. Q' x s \<Longrightarrow> Q x s) \<Longrightarrow> triple P m Q E"
  by (rule triple_weaken)

lemma triple_bind:
  assumes "triple P m Q E" "\<And>x. triple (Q x) (f x) R E"
  shows "triple P (bindA m f) R E"
proof (rule tripleI)
  fix s x s' assume "P s" "bindA m f s = (Inr x, s')"
  then show "R x s'" using assms by (auto simp: bindA_Inr_iff dest: triple_Inr)
next
  fix s e s' assume p: "P s" "bindA m f s = (Inl e, s')"
  show "E s'"
  proof (cases "m s")
    case (Pair r s1)
    with p assms show ?thesis
      by (cases r) (auto simp: bindA_run dest: triple_Inr triple_Inl)
  qed
qed

lemma triple_ret: "(\<And>s. P s \<Longrightarrow> Q x s) \<Longrightarrow> triple P (ret x) Q E"
  by (simp add: triple_def ret_run)

lemma triple_throw: "(\<And>s. P s \<Longrightarrow> E s) \<Longrightarrow> triple P (throw e) Q E"
  by (simp add: triple_def throw_run)

lemma triple_try:
  assumes "triple P m (\<lambda>x. Q (Inr x)) F" "\<And>e s. F s \<Longrightarrow> Q (Inl e) s"
  shows "triple P (tryA m) Q E"
proof (rule tripleI)
  fix s x s' assume "P s" "tryA m s = (Inr x, s')"
  with assms show "Q x s'"
    by (cases "m s"; cases "fst (m s)") (auto simp: tryA_run dest: triple_Inr triple_Inl)
qed (simp add: tryA_run)

lemma triple_mapErr: "triple P m Q E \<Longrightarrow> triple P (mapErr g m) Q E"
  by (rule tripleI) (auto simp: mapErr_run dest: triple_Inr triple_Inl split: prod.splits sum.splits)

lemma triple_if: "(b \<Longrightarrow> triple P m Q E) \<Longrightarrow> (\<not> b \<Longrightarrow> triple P n Q E) \<Longrightarrow> triple P (if b then m else n) Q E"
  by simp

lemma triple_option:
  "(x = None \<Longrightarrow> triple P m Q E) \<Longrightarrow> (\<And>y. x = Some y \<Longrightarrow> triple P (f y) Q E) \<Longrightarrow>
   triple P (case x of None \<Rightarrow> m | Some y \<Rightarrow> f y) Q E"
  by (cases x) simp_all

lemma triple_sum:
  "(\<And>e. x = Inl e \<Longrightarrow> triple P (f e) Q E) \<Longrightarrow> (\<And>y. x = Inr y \<Longrightarrow> triple P (g y) Q E) \<Longrightarrow>
   triple P (case x of Inl e \<Rightarrow> f e | Inr y \<Rightarrow> g y) Q E"
  by (cases x) simp_all

lemma triple_prod: "(\<And>a b. p = (a, b) \<Longrightarrow> triple P (f a b) Q E) \<Longrightarrow> triple P (case p of (a, b) \<Rightarrow> f a b) Q E"
  by (cases p) simp

lemma triple_keeps: "keeps I m \<Longrightarrow> triple I m (\<lambda>_. I) I"
  by (rule tripleI) (blast dest: keepsD)+

lemma triple_conj:
  "triple P m Q E \<Longrightarrow> keeps I m \<Longrightarrow> triple (\<lambda>s. P s \<and> I s) m (\<lambda>x s. Q x s \<and> I s) (\<lambda>s. E s \<and> I s)"
  by (rule tripleI) (blast dest: keepsD triple_Inr triple_Inl)+

section \<open>Tables as row lists\<close>

text \<open>
  A table is the list of its rows. \<open>UPDATE t SET .. WHERE p\<close> maps the rows that satisfy
  \<open>p\<close>, \<open>DELETE FROM t WHERE p\<close> filters them out, and the number of rows affected is the
  number of rows that satisfied \<open>p\<close>.
\<close>

definition sql_update :: "('r \<Rightarrow> bool) \<Rightarrow> ('r \<Rightarrow> 'r) \<Rightarrow> 'r list \<Rightarrow> 'r list" where
  "sql_update p f rows = map (\<lambda>r. if p r then f r else r) rows"

definition sql_delete :: "('r \<Rightarrow> bool) \<Rightarrow> 'r list \<Rightarrow> 'r list" where
  "sql_delete p rows = filter (\<lambda>r. \<not> p r) rows"

definition sql_count :: "('r \<Rightarrow> bool) \<Rightarrow> 'r list \<Rightarrow> nat" where
  "sql_count p rows = length (filter p rows)"

definition sql_exists :: "('r \<Rightarrow> bool) \<Rightarrow> 'r list \<Rightarrow> bool" where
  "sql_exists p rows = list_ex p rows"

lemma sql_exists_iff [sql_simps]: "sql_exists p rows \<longleftrightarrow> (\<exists>r\<in>set rows. p r)"
  by (simp add: sql_exists_def list_ex_iff)

lemma set_sql_update: "set (sql_update p f rows) = (\<lambda>r. if p r then f r else r) ` set rows"
  by (simp add: sql_update_def)

lemma in_sql_updateE:
  assumes "r' \<in> set (sql_update p f rows)"
  obtains r where "r \<in> set rows" "r' = (if p r then f r else r)"
  using assms by (auto simp: set_sql_update)

lemma set_sql_delete [sql_simps]: "set (sql_delete p rows) = {r \<in> set rows. \<not> p r}"
  by (auto simp: sql_delete_def)

lemma sql_count_0 [sql_simps]: "sql_count p rows = 0 \<longleftrightarrow> (\<forall>r\<in>set rows. \<not> p r)"
  by (auto simp: sql_count_def filter_empty_conv)

lemma map_key_sql_update [sql_simps]:
  "(\<And>r. p r \<Longrightarrow> k (f r) = k r) \<Longrightarrow> map k (sql_update p f rows) = map k rows"
  by (simp add: sql_update_def)

lemma distinct_sql_delete [sql_simps]: "distinct (map k rows) \<Longrightarrow> distinct (map k (sql_delete p rows))"
  by (simp add: sql_delete_def distinct_map_filter)

lemma all_sql_update:
  assumes "\<forall>r\<in>set rows. P r" and "\<And>r. P r \<Longrightarrow> p r \<Longrightarrow> P (f r)"
  shows "\<forall>r\<in>set (sql_update p f rows). P r"
  using assms by (auto simp: set_sql_update)

lemma sql_update_id: "(\<And>r. r \<in> set rows \<Longrightarrow> \<not> p r) \<Longrightarrow> sql_update p f rows = rows"
  by (auto simp: sql_update_def intro: map_idI)

text \<open>Primary-key lookup: the first row with the key, the only one where keys are distinct.\<close>

definition by_key :: "('r \<Rightarrow> 'k) \<Rightarrow> 'k \<Rightarrow> 'r list \<Rightarrow> 'r option" where
  "by_key k i rows = find (\<lambda>r. k r = i) rows"

lemma by_key_SomeD: "by_key k i rows = Some r \<Longrightarrow> r \<in> set rows \<and> k r = i"
  by (auto simp: by_key_def find_Some_iff)

lemma by_key_None_iff: "by_key k i rows = None \<longleftrightarrow> i \<notin> k ` set rows"
  by (auto simp: by_key_def find_None_iff)

lemma by_key_eq_Some:
  assumes "distinct (map k rows)"
  shows "by_key k i rows = Some r \<longleftrightarrow> r \<in> set rows \<and> k r = i"
  using assms by (induction rows) (auto simp: by_key_def image_iff)

lemma by_key_sql_update:
  assumes "\<And>r. p r \<Longrightarrow> k (f r) = k r"
  shows "by_key k i (sql_update p f rows) = map_option (\<lambda>r. if p r then f r else r) (by_key k i rows)"
  using assms by (induction rows) (auto simp: by_key_def sql_update_def)

lemma sql_count_key:
  assumes "distinct (map k rows)"
  shows "sql_count (\<lambda>r. k r = i \<and> q r) rows
    = (case by_key k i rows of None \<Rightarrow> 0 | Some r \<Rightarrow> if q r then 1 else 0)"
  using assms
proof (induction rows)
  case Nil
  then show ?case by (simp add: sql_count_def by_key_def)
next
  case (Cons r rows)
  show ?case
  proof (cases "k r = i")
    case True
    with Cons.prems have "filter (\<lambda>r. k r = i \<and> q r) rows = []"
      by (auto simp: filter_empty_conv image_iff)
    with True show ?thesis by (simp add: sql_count_def by_key_def)
  next
    case False
    with Cons show ?thesis by (simp add: sql_count_def by_key_def)
  qed
qed

text \<open>Sums over a column, \<open>COALESCE(SUM(c),0)\<close>.\<close>

definition sql_sum :: "('r \<Rightarrow> int) \<Rightarrow> 'r list \<Rightarrow> int" where
  "sql_sum c rows = sum_list (map c rows)"

lemma sql_sum_nonneg: "(\<And>r. r \<in> set rows \<Longrightarrow> 0 \<le> c r) \<Longrightarrow> 0 \<le> sql_sum c rows"
  unfolding sql_sum_def by (rule sum_list_nonneg) auto

end
