(* ===== verification/RateLimit.thy ===== *)
theory RateLimit
  imports Prelude "HOL-Library.AList"
begin

text \<open>
  The limiter of sign-in attempts (\<^verbatim>\<open>internal/auth/ratelimit.go\<close>): a bounded map from keys (an address, a user
  name) to the failures counted under them, with a delay that doubles from the third failure on. The map is an
  association list; the order in which the code walks through its map is the order of the list. The clock is read
  once per call.
\<close>

section \<open>Entries\<close>

record limit_entry =
  le_failures :: int
  le_last :: time
  le_blocked :: time

type_synonym limits = "(string \<times> limit_entry) list"

abbreviation entry_ttl :: duration where "entry_ttl \<equiv> 30 * minute"

definition default_max_entries :: nat where "default_max_entries = 4096"

text \<open>\<^verbatim>\<open>Time.Sub\<close> saturates.\<close>

definition time_sub :: "time \<Rightarrow> time \<Rightarrow> duration" where
  "time_sub t u = max (- max_int64 - 1) (min max_int64 (t - u))"

definition zero_entry :: limit_entry where
  "zero_entry = \<lparr>le_failures = 0, le_last = zero_time, le_blocked = zero_time\<rparr>"

definition ip_key :: "string \<Rightarrow> string" where "ip_key ip = ''ip:'' @ ip"
definition user_key :: "string \<Rightarrow> string" where "user_key name = ''user:'' @ name"

lemma entry_keys [simp]:
  "ip_key ip \<noteq> user_key name" "user_key name \<noteq> ip_key ip" "user_key n = user_key n' \<longleftrightarrow> n = n'"
  "ip_key ip \<noteq> []" "user_key name \<noteq> []"
  by (simp_all add: ip_key_def user_key_def)

definition limiter_keys :: "string \<Rightarrow> string \<Rightarrow> string list" where
  "limiter_keys ip name = [ip_key ip, user_key name]"

definition stale :: "time \<Rightarrow> limit_entry \<Rightarrow> bool" where
  "stale now e \<longleftrightarrow> entry_ttl < time_sub now (le_last e)"

definition clean_limits :: "time \<Rightarrow> limits \<Rightarrow> limits" where
  "clean_limits now es = filter (\<lambda>(k, e). \<not> stale now e) es"

definition key_blocked :: "time \<Rightarrow> limits \<Rightarrow> string \<Rightarrow> bool" where
  "key_blocked now es k = (case map_of es k of None \<Rightarrow> False | Some e \<Rightarrow> now < le_blocked e)"

fun oldest_key :: "string \<Rightarrow> time \<Rightarrow> limits \<Rightarrow> string" where
  "oldest_key key oldest [] = key"
| "oldest_key key oldest ((k, e) # es) =
     (if key = [] \<or> le_last e < oldest then oldest_key k (le_last e) es else oldest_key key oldest es)"

definition evict_oldest :: "limits \<Rightarrow> limits" where
  "evict_oldest es = AList.delete (oldest_key [] zero_time es) es"

definition bump_entry :: "time \<Rightarrow> limit_entry \<Rightarrow> limit_entry" where
  "bump_entry now e =
     (let n = (if stale now e then 0 else le_failures e) + 1 in
      \<lparr>le_failures = n, le_last = now,
       le_blocked = (if 3 \<le> n then now + second * 2 ^ nat (min (n - 3) 8) else le_blocked e)\<rparr>)"

definition record_key :: "nat \<Rightarrow> time \<Rightarrow> string \<Rightarrow> limits \<Rightarrow> limits" where
  "record_key mx now k es =
     (let es' = (if mx \<le> length es then evict_oldest es else es) in
      AList.update k (bump_entry now (case map_of es' k of None \<Rightarrow> zero_entry | Some e \<Rightarrow> e)) es')"

definition record_pressure :: "nat \<Rightarrow> time \<Rightarrow> string \<Rightarrow> string \<Rightarrow> limits \<Rightarrow> limits" where
  "record_pressure mx now ip name es = fold (record_key mx now) (limiter_keys ip name) es"

section \<open>Operations\<close>

definition limiter_allow :: "time \<Rightarrow> string \<Rightarrow> string \<Rightarrow> limits \<Rightarrow> bool \<times> limits" where
  "limiter_allow now ip name es =
     (let es' = clean_limits now es in (\<not> list_ex (key_blocked now es') (limiter_keys ip name), es'))"

definition limiter_failure :: "nat \<Rightarrow> time \<Rightarrow> string \<Rightarrow> string \<Rightarrow> limits \<Rightarrow> limits" where
  "limiter_failure mx now ip name es = record_pressure mx now ip name (clean_limits now es)"

definition limiter_challenge :: "nat \<Rightarrow> time \<Rightarrow> string \<Rightarrow> string \<Rightarrow> limits \<Rightarrow> bool \<times> limits" where
  "limiter_challenge mx now ip name es =
     (let es' = clean_limits now es in
      if list_ex (key_blocked now es') (limiter_keys ip name) then (False, es')
      else (True, record_pressure mx now ip name es'))"

definition limiter_success :: "string \<Rightarrow> string \<Rightarrow> limits \<Rightarrow> limits" where
  "limiter_success ip name es = fold AList.delete (limiter_keys ip name) es"


text \<open>The calls in the order the mutex lets them in.\<close>

datatype limiter_op = AllowOp | FailureOp | ChallengeOp | SuccessOp

record limiter_call =
  lc_op :: limiter_op
  lc_time :: time
  lc_ip :: string
  lc_name :: string

definition limiter_step :: "nat \<Rightarrow> limiter_call \<Rightarrow> limits \<Rightarrow> limits" where
  "limiter_step mx c es = (case lc_op c of
       AllowOp \<Rightarrow> snd (limiter_allow (lc_time c) (lc_ip c) (lc_name c) es)
     | FailureOp \<Rightarrow> limiter_failure mx (lc_time c) (lc_ip c) (lc_name c) es
     | ChallengeOp \<Rightarrow> snd (limiter_challenge mx (lc_time c) (lc_ip c) (lc_name c) es)
     | SuccessOp \<Rightarrow> limiter_success (lc_ip c) (lc_name c) es)"

section \<open>The size of the map\<close>

definition limits_bounded :: "nat \<Rightarrow> limits \<Rightarrow> bool" where
  "limits_bounded mx es \<longleftrightarrow> distinct (map fst es) \<and> length es \<le> mx \<and> [] \<notin> fst ` set es"

lemma oldest_key_in: "es \<noteq> [] \<Longrightarrow> [] \<notin> fst ` set es \<Longrightarrow> oldest_key [] t es \<in> fst ` set es"
proof -
  have o: "key \<noteq> [] \<Longrightarrow> [] \<notin> fst ` set xs \<Longrightarrow> oldest_key key t xs = key \<or> oldest_key key t xs \<in> fst ` set xs" for key t xs
    by (induction key t xs rule: oldest_key.induct) auto
  assume "es \<noteq> []" "[] \<notin> fst ` set es"
  then obtain k e xs where "es = (k, e) # xs" "k \<noteq> []" "[] \<notin> fst ` set xs" by (cases es) auto
  then show ?thesis using o [of k xs "le_last e"] by auto
qed

lemma length_filter_shrinks: "x \<in> set xs \<Longrightarrow> \<not> p x \<Longrightarrow> length (filter p xs) < length xs"
  by (induction xs) (auto simp: less_Suc_eq_le)

lemma length_evict: "limits_bounded mx es \<Longrightarrow> es \<noteq> [] \<Longrightarrow> length (evict_oldest es) < length es"
  using oldest_key_in [of es zero_time]
  by (auto simp: limits_bounded_def evict_oldest_def AList.delete_eq intro: length_filter_shrinks)

lemma limits_bounded_delete: "limits_bounded mx es \<Longrightarrow> limits_bounded mx (AList.delete k es)"
  using AList.length_delete_le [of k es] AList.dom_delete_subset [of k es]
  by (auto simp: limits_bounded_def AList.distinct_delete)

lemma limits_bounded_clean: "limits_bounded mx es \<Longrightarrow> limits_bounded mx (clean_limits now es)"
  by (auto simp: limits_bounded_def clean_limits_def distinct_map_filter intro: le_trans [OF length_filter_le])

lemma length_update_le: "length (AList.update k v es) \<le> Suc (length es)"
  by (induction es) auto

lemma limits_bounded_record:
  assumes "limits_bounded mx es" "1 \<le> mx" "k \<noteq> []"
  shows "limits_bounded mx (record_key mx now k es)"
proof -
  let ?es = "if mx \<le> length es then evict_oldest es else es"
  have "limits_bounded mx ?es" using assms(1) by (simp add: evict_oldest_def limits_bounded_delete)
  moreover have "length ?es < mx"
    using assms(1,2) length_evict [of mx es] by (cases es) (auto simp: limits_bounded_def)
  ultimately have "limits_bounded mx (AList.update k v ?es)" for v
    using assms(3) le_trans [OF length_update_le [of k v ?es], of mx] AList.dom_update [of k v ?es]
    by (auto simp: limits_bounded_def AList.distinct_update)
  then show ?thesis unfolding record_key_def Let_def .
qed

lemma limits_bounded_pressure: "limits_bounded mx es \<Longrightarrow> 1 \<le> mx \<Longrightarrow> limits_bounded mx (record_pressure mx now ip name es)"
  by (simp add: record_pressure_def limiter_keys_def limits_bounded_record)

lemma limits_bounded_step: "limits_bounded mx es \<Longrightarrow> 1 \<le> mx \<Longrightarrow> limits_bounded mx (limiter_step mx c es)"
  by (cases "lc_op c")
    (simp_all add: limiter_step_def limiter_allow_def limiter_failure_def limiter_challenge_def limiter_success_def Let_def
      limiter_keys_def limits_bounded_clean limits_bounded_pressure limits_bounded_delete)

section \<open>Entries while the map has room\<close>

lemma map_of_filter_entries:
  "distinct (map fst es) \<Longrightarrow> map_of (filter (\<lambda>(k, e). p e) es) k
     = (case map_of es k of None \<Rightarrow> None | Some e \<Rightarrow> if p e then Some e else None)"
  by (induction es) (auto simp: image_iff split: option.splits dest: map_of_SomeD)

lemma map_of_clean:
  "limits_bounded mx es \<Longrightarrow> map_of (clean_limits now es) k
     = (case map_of es k of None \<Rightarrow> None | Some e \<Rightarrow> if stale now e then None else Some e)"
  by (auto simp: clean_limits_def limits_bounded_def map_of_filter_entries split: option.split)

lemma map_of_record:
  "length es < mx \<Longrightarrow> map_of (record_key mx now k es)
     = (map_of es)(k \<mapsto> bump_entry now (case map_of es k of None \<Rightarrow> zero_entry | Some e \<Rightarrow> e))"
  by (simp add: record_key_def AList.update_conv')

lemma length_record: "length es < mx \<Longrightarrow> length (record_key mx now k es) \<le> Suc (length es)"
  by (simp add: record_key_def length_update_le)

lemma map_of_pressure:
  assumes "Suc (length es) < mx"
  shows "map_of (record_pressure mx now ip name es) (user_key n)
     = (if n = name then Some (bump_entry now (case map_of es (user_key n) of None \<Rightarrow> zero_entry | Some e \<Rightarrow> e))
        else map_of es (user_key n))"
proof -
  let ?es = "record_key mx now (ip_key ip) es"
  have "length ?es < mx" using assms length_record [of es mx now "ip_key ip"] by simp
  then show ?thesis using assms by (auto simp: record_pressure_def limiter_keys_def map_of_record)
qed

lemma length_pressure: "Suc (length es) < mx \<Longrightarrow> length (record_pressure mx now ip name es) \<le> length es + 2"
  using length_record [of es mx now "ip_key ip"]
    length_record [of "record_key mx now (ip_key ip) es" mx now "user_key name"]
  by (simp add: record_pressure_def limiter_keys_def)

lemma length_step:
  assumes "Suc (length es) < mx"
  shows "length (limiter_step mx c es) \<le> length es + 2"
proof -
  have cl: "length (clean_limits t es) \<le> length es" for t by (simp add: clean_limits_def)
  then have "Suc (length (clean_limits t es)) < mx" for t using assms by (meson Suc_le_mono le_less_trans)
  from length_pressure [OF this] cl
  have "length (record_pressure mx t ip n (clean_limits t es)) \<le> length es + 2" for t ip n
    by (meson add_le_mono1 le_trans)
  moreover have "length (AList.delete k (AList.delete k' es)) \<le> length es + 2" for k k'
    by (meson AList.length_delete_le le_add1 le_trans)
  ultimately show ?thesis using cl [of "lc_time c"]
    by (cases "lc_op c")
      (auto simp: limiter_step_def limiter_allow_def limiter_failure_def limiter_challenge_def limiter_success_def Let_def limiter_keys_def)
qed

text \<open>What the entry of a user says after a number of failures, the last one at \<open>l\<close>.\<close>

definition counts :: "nat \<Rightarrow> time \<Rightarrow> limit_entry \<Rightarrow> bool" where
  "counts n l e \<longleftrightarrow> le_failures e = int n \<and> le_last e = l \<and> (3 \<le> n \<longrightarrow> le_blocked e = l + second * 2 ^ min (n - 3) 8)"

lemma counts_bump:
  assumes "counts n l e" "\<not> stale now e"
  shows "counts (Suc n) now (bump_entry now e)"
proof -
  have "nat (min (int (Suc n) - 3) 8) = min (Suc n - 3) 8" if "3 \<le> Suc n" using that by (auto simp: min_def)
  with assms show ?thesis by (auto simp: counts_def bump_entry_def Let_def)
qed

lemma counts_first: "counts (Suc 0) now (bump_entry now zero_entry)"
  by (simp add: counts_def bump_entry_def zero_entry_def)

abbreviation guess_of :: "string \<Rightarrow> limiter_call \<Rightarrow> bool" where
  "guess_of name c \<equiv> lc_op c = FailureOp \<and> lc_name c = name"

text \<open>The entry of \<open>name\<close> after calls in which only failures and questions name it.\<close>

definition tracks :: "string \<Rightarrow> limiter_call list \<Rightarrow> limits \<Rightarrow> bool" where
  "tracks name cs es \<longleftrightarrow> (let gs = filter (guess_of name) cs in
     if gs = [] then map_of es (user_key name) = None
     else (\<exists>e. map_of es (user_key name) = Some e \<and> counts (length gs) (lc_time (last gs)) e))"

lemma tracks_step:
  assumes ok: "limits_bounded mx es" "1 \<le> mx" and t: "tracks name cs es" and room: "Suc (length es) < mx"
    and only: "lc_name c = name \<longrightarrow> lc_op c = FailureOp \<or> lc_op c = AllowOp"
    and near: "\<forall>g\<in>set cs. lc_time c - lc_time g \<le> entry_ttl"
  shows "tracks name (cs @ [c]) (limiter_step mx c es)"
proof -
  let ?gs = "filter (guess_of name) cs" and ?k = "user_key name" and ?es = "clean_limits (lc_time c) es"
  have fresh: "\<not> stale (lc_time c) e" if "counts n (lc_time (last ?gs)) e" "?gs \<noteq> []" for e n
  proof -
    have "last ?gs \<in> set cs" using last_in_set [OF that(2)] by auto
    with near have "lc_time c - le_last e \<le> entry_ttl" using that(1) by (auto simp: counts_def)
    then show ?thesis by (simp add: stale_def time_sub_def max_int64_def)
  qed
  have cl: "tracks name cs ?es"
    using t fresh by (auto simp: tracks_def Let_def map_of_clean [OF ok(1)] split: if_splits)
  have room': "Suc (length ?es) < mx" using room by (simp add: clean_limits_def) (meson Suc_le_mono le_less_trans length_filter_le)
  have other: "tracks name (cs @ [c]) (record_pressure mx (lc_time c) (lc_ip c) (lc_name c) ?es)" if "lc_name c \<noteq> name"
    using cl that by (auto simp: tracks_def map_of_pressure [OF room'] Let_def)
  have del: "tracks name (cs @ [c]) (AList.delete (user_key (lc_name c)) (AList.delete (ip_key (lc_ip c)) es))" if "lc_name c \<noteq> name"
    using t that by (auto simp: tracks_def AList.delete_conv' Let_def)
  have guess: "tracks name (cs @ [c]) (record_pressure mx (lc_time c) (lc_ip c) name ?es)" if "guess_of name c"
  proof (cases "?gs = []")
    case True
    with cl that show ?thesis by (simp add: tracks_def map_of_pressure [OF room'] counts_first)
  next
    case False
    with cl obtain e where e: "map_of ?es ?k = Some e" "counts (length ?gs) (lc_time (last ?gs)) e"
      by (auto simp: tracks_def Let_def)
    from counts_bump [OF e(2) fresh [OF e(2) False]] e(1) False that show ?thesis
      by (simp add: tracks_def map_of_pressure [OF room'])
  qed
  have stay: "tracks name (cs @ [c]) ?es" if "lc_op c \<noteq> FailureOp"
    using cl that by (simp add: tracks_def)
  show ?thesis
  proof (cases "lc_op c")
    case AllowOp
    then show ?thesis using stay by (simp add: limiter_step_def limiter_allow_def Let_def)
  next
    case FailureOp
    then show ?thesis using guess other by (cases "lc_name c = name") (simp_all add: limiter_step_def limiter_failure_def)
  next
    case ChallengeOp
    then show ?thesis using stay other only by (auto simp: limiter_step_def limiter_challenge_def Let_def)
  next
    case SuccessOp
    then show ?thesis using del only by (simp add: limiter_step_def limiter_success_def limiter_keys_def)
  qed
qed

lemma tracks_run:
  assumes "limits_bounded mx es" "1 \<le> mx" "map_of es (user_key name) = None" "length es + 2 * length cs < mx"
    and "\<forall>c\<in>set cs. lc_name c = name \<longrightarrow> lc_op c = FailureOp \<or> lc_op c = AllowOp"
    and "\<forall>c\<in>set cs. \<forall>g\<in>set cs. lc_time c - lc_time g \<le> entry_ttl"
  shows "tracks name cs (fold (limiter_step mx) cs es) \<and> limits_bounded mx (fold (limiter_step mx) cs es)
     \<and> length (fold (limiter_step mx) cs es) \<le> length es + 2 * length cs"
  using assms(4-6)
proof (induction cs rule: rev_induct)
  case Nil
  with assms(1,3) show ?case by (simp add: tracks_def)
next
  case (snoc c cs)
  let ?es = "fold (limiter_step mx) cs es"
  have ih: "tracks name cs ?es" "limits_bounded mx ?es" "length ?es \<le> length es + 2 * length cs"
    using snoc by auto
  have "Suc (length ?es) < mx" using ih(3) snoc.prems(1) by simp
  with ih snoc.prems length_step [of ?es mx c] show ?case
    using tracks_step [OF ih(2) assms(2) ih(1), of c] limits_bounded_step [OF ih(2) assms(2), of c] by auto
qed

section \<open>Properties\<close>

text \<open>The limiter never remembers more than its maximal number of keys, and none twice, whatever calls come in.\<close>

theorem limiter_is_bounded:
  assumes "limits_bounded mx es" "1 \<le> mx"
  shows "limits_bounded mx (fold (limiter_step mx) cs es)"
  using assms(1) by (induction cs arbitrary: es) (auto simp: limits_bounded_step [OF _ assms(2)])

text \<open>C27: guessing is throttled: after \<open>n \<ge> 3\<close> failures to sign in to one account within half an hour, from any
  addresses and among any calls for other accounts, every further attempt on it, from any address, is refused
  for \<open>2 ^ min (n - 3) 8\<close> seconds after the last failure, as long as the map has room for the calls.\<close>

theorem guessing_is_throttled:
  assumes "limits_bounded mx es" "map_of es (user_key name) = None" "length es + 2 * length cs < mx"
    and "\<forall>c\<in>set cs. lc_name c = name \<longrightarrow> lc_op c = FailureOp \<or> lc_op c = AllowOp"
    and "\<forall>c\<in>set cs. t0 \<le> lc_time c \<and> lc_time c \<le> t" "t \<le> t0 + entry_ttl"
    and "gs = filter (guess_of name) cs" "3 \<le> length gs" "t < lc_time (last gs) + second * 2 ^ min (length gs - 3) 8"
  shows "\<not> fst (limiter_allow t ip name (fold (limiter_step mx) cs es))"
proof -
  let ?es = "fold (limiter_step mx) cs es"
  have "lc_time c - lc_time g \<le> entry_ttl" if "c \<in> set cs" "g \<in> set cs" for c g
    using assms(5,6) that by (smt (verit))
  with tracks_run [OF assms(1) _ assms(2-4)] assms(3) have tr: "tracks name cs ?es" "limits_bounded mx ?es" by auto
  have ne: "gs \<noteq> []" using assms(8) by auto
  with tr(1) assms(7) obtain e where e: "map_of ?es (user_key name) = Some e" "counts (length gs) (lc_time (last gs)) e"
    by (auto simp: tracks_def Let_def)
  have "last gs \<in> set cs" using last_in_set [OF ne] assms(7) by auto
  with assms(5,6) have "t - lc_time (last gs) \<le> entry_ttl" by (smt (verit))
  then have "\<not> stale t e" using e(2) by (simp add: counts_def stale_def time_sub_def max_int64_def)
  with e tr(2) assms(8,9) show ?thesis
    by (auto simp: limiter_allow_def Let_def limiter_keys_def key_blocked_def map_of_clean counts_def)
qed

definition three_failures :: "limiter_call list" where
  "three_failures = map (\<lambda>(t, ip, n). \<lparr>lc_op = FailureOp, lc_time = t * second, lc_ip = ip, lc_name = n\<rparr>)
     [(0, ''a'', ''u''), (1, ''b'', ''u''), (2, ''b'', ''v''), (3, ''c'', ''u'')]"

theorem limiter_is_bounded_witness: "limits_bounded 2 (fold (limiter_step 2) three_failures [])"
  by (rule limiter_is_bounded) (simp_all add: limits_bounded_def)

theorem guessing_is_throttled_witness:
  "\<not> fst (limiter_allow (3 * second) ''d'' ''u'' (fold (limiter_step 4096) three_failures []))"
proof -
  have "limits_bounded 4096 []" by (simp add: limits_bounded_def)
  from guessing_is_throttled [OF this, of "''u''" three_failures 0 "3 * second" "filter (guess_of ''u'') three_failures" "''d''"]
  show ?thesis by (simp add: three_failures_def)
qed

end
