(* ===== verification/Schema.thy ===== *)
theory Schema
  imports RateLimit
begin

text \<open>
  The state the components share: one record per SQL table (the columns the program reads
  or writes), the database, the staging directory, the object store, and the outcome
  scripts of the calls that leave the process. The column sets are those of
  \<^verbatim>\<open>migrations/*.sql\<close> and of the row structs of \<^verbatim>\<open>sql/generated/models.go\<close>.
\<close>

section \<open>Rows\<close>

datatype job_status = JobPending | JobRunning | JobCompleted | JobFailed
datatype derivative_status = DerivPending | DerivReady | DerivFailed | DerivDeleting
datatype object_status = ObjPending | ObjReady | ObjDeleting
datatype upload_status = Created | Uploading | Completing | Completed | Failed | Expired
datatype lifecycle = Temporary | Permanent
datatype user_status = Active | Disabled

text \<open>Object keys of the store; \<open>RawKey\<close> is any other text a row may hold.\<close>

datatype storage_key = ObjectKey uuid | DerivativeKey uuid | CommitTempKey uuid | RawKey string

record job =
  job_id :: uuid
  job_type :: string
  subject_type :: string
  subject_id :: "uuid option"
  job_status :: job_status
  attempts :: int
  next_run_at :: time
  started_at :: "time option"
  last_error_code :: "string option"
  last_error_summary :: "string option"
  job_created_at :: time
  job_updated_at :: time

record derivative =
  fd_id :: uuid
  source_file_id :: uuid
  fd_kind :: string
  fd_key :: storage_key
  fd_mime :: string
  fd_size :: int
  fd_status :: derivative_status
  fd_updated_at :: time

record file_object =
  fo_id :: uuid
  sha256 :: bytes
  size_bytes :: int
  detected_mime :: string
  storage_key :: storage_key
  fo_status :: object_status
  fo_created_at :: time
  fo_updated_at :: time
  ready_at :: "time option"

record upload =
  us_id :: uuid
  us_user :: uuid
  original_filename :: string
  expected_size :: int
  client_mime :: "string option"
  chunk_size :: int
  us_status :: upload_status
  us_expires_at :: time
  us_created_at :: time
  us_updated_at :: time
  file_object_id :: "uuid option"
  completed_at :: "time option"
  consumed_at :: "time option"
  consumed_message_id :: "uuid option"

record part =
  part_upload :: uuid
  part_number :: int
  part_size :: int
  part_completed_at :: time

record message =
  msg_id :: uuid
  owner_id :: uuid
  title :: "string option"
  body_plaintext :: "string option"
  body_ciphertext :: "bytes option"
  body_nonce :: "bytes option"
  body_encryption_version :: "int option"
  body_format :: string
  detected_type :: "string option"
  detected_language :: "string option"
  sensitive :: bool
  msg_lifecycle :: lifecycle
  favorite :: bool
  expires_at :: "time option"
  trashed_at :: "time option"
  purge_at :: "time option"
  source_user_id :: "uuid option"
  source_message_id :: "uuid option"
  created_device_id :: "uuid option"
  version :: int
  created_at :: time
  updated_at :: time

record attachment =
  ma_id :: uuid
  ma_message :: uuid
  ma_file :: uuid
  ma_filename :: string
  ma_client_mime :: "string option"
  display_order :: int

record tag =
  tag_id :: uuid
  tag_user :: uuid
  tag_name :: string
  normalized_name :: string
  tag_color :: string
  tag_created_at :: time
  tag_updated_at :: time

record idem_row =
  idem_id :: uuid
  idem_user :: uuid
  idem_operation :: string
  idem_key :: string
  request_hash :: bytes
  resource_id :: "uuid option"
  idem_receipt :: "(uuid \<times> time \<times> time \<times> int) option"
  idem_expires_at :: time

record user =
  usr_id :: uuid
  username :: string
  display_name :: string
  password_hash :: string
  is_admin :: bool
  usr_status :: user_status
  usr_created_at :: time
  usr_updated_at :: time

record device =
  dev_id :: uuid
  dev_user :: uuid
  dev_name :: string
  dev_user_agent :: string
  dev_first_seen :: time
  dev_last_seen :: time

record session =
  ses_id :: uuid
  ses_user :: uuid
  ses_device :: uuid
  token_hash :: bytes
  ses_expires_at :: time
  absolute_expires_at :: time
  last_seen_at :: time
  last_ip :: "string option"
  revoked_at :: "time option"
  ses_created_at :: time

record user_totp =
  totp_id :: uuid
  totp_user :: uuid
  secret_ciphertext :: bytes
  secret_nonce :: bytes
  secret_version :: int
  enabled_at :: "time option"
  last_used_step :: "int option"
  failed_attempts :: int
  locked_until :: "time option"

record totp_challenge =
  tc_id :: uuid
  tc_user :: uuid
  tc_device :: "uuid option"
  tc_token_hash :: bytes
  tc_expires_at :: time
  tc_attempts :: int
  tc_consumed_at :: "time option"
  tc_device_name :: string
  tc_user_agent :: string

record settings =
  temporary_ttl_hours :: int
  trash_ttl_hours :: int
  max_file_size_bytes :: int
  max_storage_bytes :: "int option"
  audit_retention_days :: int
  upload_retention_hours :: int
  settings_updated_at :: time
  settings_updated_by :: "uuid option"

text \<open>The JSON metadata of an audit event: texts, flags and lists of texts.\<close>

datatype meta_value = MetaText string | MetaFlag bool | MetaTexts "string list"

record audit_row =
  audit_id :: uuid
  audit_actor :: "uuid option"
  audit_event :: string
  audit_target_type :: "string option"
  audit_target :: "uuid option"
  audit_ip :: "string option"
  audit_user_agent :: "string option"
  audit_device :: "uuid option"
  audit_session :: "uuid option"
  audit_trace :: "string option"
  audit_metadata :: "(string \<times> meta_value) list"
  audit_created_at :: time

section \<open>The database and the world\<close>

record db =
  jobs :: "job list"
  derivatives :: "derivative list"
  file_objects :: "file_object list"
  uploads :: "upload list"
  parts :: "part list"
  messages :: "message list"
  attachments :: "attachment list"
  tags :: "tag list"
  message_tags :: "(uuid \<times> uuid) list"
  idem_keys :: "idem_row list"
  users :: "user list"
  devices :: "device list"
  sessions :: "session list"
  user_totps :: "user_totp list"
  totp_challenges :: "totp_challenge list"
  sys_settings :: settings
  audit_logs :: "audit_row list"

text \<open>
  Calls that leave the process (SQL statements, commits, file operations) can fail in two
  ways: before they take effect, or after it with the reply lost. The field \<open>faults\<close> is
  the script of what happens to the calls to come, \<open>NoFault\<close> when it has run out; a
  theorem about every script is a theorem about every pattern of failures. \<open>ids\<close> is the
  script of the identifier generator (\<open>None\<close>: the generator fails).
\<close>

datatype fault = NoFault | FailBefore | FailAfter

record world =
  wdb :: db
  staging :: "(uuid \<times> bytes) list"
  store :: "(storage_key \<times> bytes) list"
  ids :: "uuid option list"
  faults :: "fault list"
  wake :: bool
  rate_limits :: limits
  failure_audits :: "(string \<times> time) list"
  published :: "(uuid \<times> string \<times> uuid \<times> int option) list"

definition pop_fault :: "world \<Rightarrow> fault \<times> world" where
  "pop_fault w = (case faults w of [] \<Rightarrow> (NoFault, w) | f # fs \<Rightarrow> (f, w\<lparr>faults := fs\<rparr>))"

text \<open>A call with effect \<open>f\<close> that reports error \<open>e\<close> when it fails.\<close>

definition ext :: "'e \<Rightarrow> (world \<Rightarrow> 'a \<times> world) \<Rightarrow> (world, 'e, 'a) act" where
  "ext e f = (\<lambda>w. case pop_fault w of (ft, w1) \<Rightarrow>
     (case ft of
        NoFault \<Rightarrow> (case f w1 of (x, w2) \<Rightarrow> (Inr x, w2))
      | FailBefore \<Rightarrow> (Inl e, w1)
      | FailAfter \<Rightarrow> (case f w1 of (x, w2) \<Rightarrow> (Inl e, w2))))"

text \<open>A call that reads the database, and one that executes a statement on it.\<close>

definition query :: "'e \<Rightarrow> (db \<Rightarrow> 'a) \<Rightarrow> (world, 'e, 'a) act" where
  "query e q = ext e (\<lambda>w. (q (wdb w), w))"

definition exec :: "'e \<Rightarrow> (db \<Rightarrow> 'a \<times> db) \<Rightarrow> (world, 'e, 'a) act" where
  "exec e u = ext e (\<lambda>w. case u (wdb w) of (x, d) \<Rightarrow> (x, w\<lparr>wdb := d\<rparr>))"

definition new_id :: "'e \<Rightarrow> (world, 'e, uuid) act" where
  "new_id e = (\<lambda>w. case ids w of
       [] \<Rightarrow> (Inl e, w)
     | None # is \<Rightarrow> (Inl e, w\<lparr>ids := is\<rparr>)
     | Some i # is \<Rightarrow> (Inr i, w\<lparr>ids := is\<rparr>))"

text \<open>
  A transaction: the body ends with an error (rolled back), with a value after its commit
  (\<open>True\<close>), or with a value and no commit (\<open>False\<close>: the deferred rollback runs). A commit
  can itself fail, before or after the database applied it.
\<close>

definition in_tx_with :: "'e \<Rightarrow> 'e \<Rightarrow> (world, 'e, bool \<times> 'a) act \<Rightarrow> (world, 'e, 'a) act" where
  "in_tx_with eb ec body = bindA (ext eb (\<lambda>w. ((), w))) (\<lambda>_. \<lambda>w0.
     (case body w0 of
        (Inl err, w1) \<Rightarrow> (Inl err, w1\<lparr>wdb := wdb w0\<rparr>)
      | (Inr (commit, x), w1) \<Rightarrow>
          (if \<not> commit then (Inr x, w1\<lparr>wdb := wdb w0\<rparr>)
           else (case pop_fault w1 of (ft, w2) \<Rightarrow>
             (case ft of
                NoFault \<Rightarrow> (Inr x, w2)
              | FailBefore \<Rightarrow> (Inl ec, w2\<lparr>wdb := wdb w0\<rparr>)
              | FailAfter \<Rightarrow> (Inl ec, w2))))))"

text \<open>Mostly the caller does not tell a failed begin from a failed commit.\<close>

abbreviation in_tx :: "'e \<Rightarrow> (world, 'e, bool \<times> 'a) act \<Rightarrow> (world, 'e, 'a) act" where
  "in_tx e \<equiv> in_tx_with e e"

definition commit_tx :: "'a \<Rightarrow> (world, 'e, bool \<times> 'a) act" where
  "commit_tx x = ret (True, x)"

definition rollback_tx :: "'a \<Rightarrow> (world, 'e, bool \<times> 'a) act" where
  "rollback_tx x = ret (False, x)"

section \<open>Running calls\<close>

text \<open>\<open>quiet w\<close>: no failure is scripted; used by the functional theorems.\<close>

abbreviation quiet :: "world \<Rightarrow> bool" where "quiet w \<equiv> faults w = []"

lemma pop_fault_quiet [act_simps]: "quiet w \<Longrightarrow> pop_fault w = (NoFault, w)"
  by (simp add: pop_fault_def)

lemma pop_fault_wdb [simp]: "pop_fault w = (ft, w') \<Longrightarrow> wdb w' = wdb w"
  by (cases "faults w") (auto simp: pop_fault_def)

lemma pop_fault_snd:
  "wdb (snd (pop_fault w)) = wdb w" "staging (snd (pop_fault w)) = staging w"
  "store (snd (pop_fault w)) = store w" "ids (snd (pop_fault w)) = ids w"
  "published (snd (pop_fault w)) = published w"
  by (cases "faults w"; simp add: pop_fault_def)+

lemma ext_quiet [act_simps]: "quiet w \<Longrightarrow> ext e f w = (Inr (fst (f w)), snd (f w))"
  by (simp add: ext_def pop_fault_quiet split_beta)

lemma query_quiet [act_simps]: "quiet w \<Longrightarrow> query e q w = (Inr (q (wdb w)), w)"
  by (simp add: query_def ext_quiet)

lemma exec_quiet [act_simps]:
  "quiet w \<Longrightarrow> exec e u w = (Inr (fst (u (wdb w))), w\<lparr>wdb := snd (u (wdb w))\<rparr>)"
  by (simp add: exec_def ext_quiet split_beta)

lemma in_tx_quiet [act_simps]:
  "quiet w \<Longrightarrow> in_tx_with eb ec body w =
    (case body w of
       (Inl err, w1) \<Rightarrow> (Inl err, w1\<lparr>wdb := wdb w\<rparr>)
     | (Inr (commit, x), w1) \<Rightarrow>
         (if \<not> commit then (Inr x, w1\<lparr>wdb := wdb w\<rparr>)
          else (case pop_fault w1 of (ft, w2) \<Rightarrow>
            (case ft of
               NoFault \<Rightarrow> (Inr x, w2)
             | FailBefore \<Rightarrow> (Inl ec, w2\<lparr>wdb := wdb w\<rparr>)
             | FailAfter \<Rightarrow> (Inl ec, w2)))))"
  by (simp add: in_tx_with_def bindA_run ext_quiet)

section \<open>Invariants of the database across calls\<close>

text \<open>\<open>on_db J\<close>: the invariant \<open>J\<close> of the database part of the world.\<close>

definition on_db :: "(db \<Rightarrow> bool) \<Rightarrow> world \<Rightarrow> bool" where
  "on_db J w \<longleftrightarrow> J (wdb w)"

lemma ext_snd_cases:
  obtains "snd (ext e f w) = snd (pop_fault w)" | "snd (ext e f w) = snd (f (snd (pop_fault w)))"
  by (cases "fst (pop_fault w)") (auto simp: ext_def split_beta)

lemma keeps_ext:
  assumes f: "\<And>w. I w \<Longrightarrow> I (snd (f w))" and fs: "\<And>w fs. I w \<Longrightarrow> I (w\<lparr>faults := fs\<rparr>)"
  shows "keeps I (ext e f)"
proof (rule keepsI)
  fix w assume "I w"
  then have "I (snd (pop_fault w))"
    by (simp add: pop_fault_def fs split: list.split)
  then show "I (snd (ext e f w))"
    by (cases rule: ext_snd_cases [of e f w]) (simp_all add: f)
qed

lemma keeps_query [keeps_intro]: "keeps (on_db J) (query e q)"
  unfolding query_def by (rule keeps_ext) (simp_all add: on_db_def)

lemma keeps_exec [keeps_intro]:
  assumes "\<And>d. J d \<Longrightarrow> J (snd (u d))"
  shows "keeps (on_db J) (exec e u)"
  unfolding exec_def by (rule keeps_ext) (auto simp: on_db_def split_beta assms)

lemma keeps_new_id [keeps_intro]: "keeps (on_db J) (new_id e)"
  by (auto simp: keeps_def new_id_def on_db_def split: list.splits option.splits)

lemma keeps_commit [keeps_intro]: "keeps I (commit_tx x)" "keeps I (rollback_tx x)"
  by (simp_all add: commit_tx_def rollback_tx_def keeps_ret)

lemma keeps_in_tx [keeps_intro]:
  assumes "keeps (on_db J) body"
  shows "keeps (on_db J) (in_tx_with eb ec body)"
proof -
  have "keeps (on_db J) (\<lambda>w0.
     (case body w0 of
        (Inl err, w1) \<Rightarrow> (Inl err, w1\<lparr>wdb := wdb w0\<rparr>)
      | (Inr (commit, x), w1) \<Rightarrow>
          (if \<not> commit then (Inr x, w1\<lparr>wdb := wdb w0\<rparr>)
           else (case pop_fault w1 of (ft, w2) \<Rightarrow>
             (case ft of
                NoFault \<Rightarrow> (Inr x, w2)
              | FailBefore \<Rightarrow> (Inl ec, w2\<lparr>wdb := wdb w0\<rparr>)
              | FailAfter \<Rightarrow> (Inl ec, w2))))))" (is "keeps _ ?k")
  proof (rule keepsI)
    fix w0 assume w0: "on_db J w0"
    obtain r w1 where b: "body w0 = (r, w1)" by fastforce
    with assms w0 have "on_db J w1" by (rule keepsD)
    with b w0 show "on_db J (snd (?k w0))"
      by (auto simp: on_db_def split: sum.splits prod.splits fault.splits)
  qed
  then show ?thesis
    unfolding in_tx_with_def by (intro keeps_bindA keeps_ext) (simp_all add: on_db_def)
qed

text \<open>\<open>off_db K\<close>: an invariant of the directories only; the database calls cannot break it.\<close>

definition off_db :: "((uuid \<times> bytes) list \<Rightarrow> (storage_key \<times> bytes) list \<Rightarrow> bool) \<Rightarrow> world \<Rightarrow> bool" where
  "off_db K w \<longleftrightarrow> K (staging w) (store w)"

lemma keeps_off_db [keeps_intro]:
  "keeps (off_db K) (query e q)" "keeps (off_db K) (exec e u)" "keeps (off_db K) (new_id e)"
proof -
  show "keeps (off_db K) (query e q)"
    unfolding query_def by (rule keeps_ext) (simp_all add: off_db_def)
  show "keeps (off_db K) (exec e u)"
    unfolding exec_def by (rule keeps_ext) (simp_all add: off_db_def split_beta)
  show "keeps (off_db K) (new_id e)"
    by (auto simp: keeps_def new_id_def off_db_def split: list.splits option.splits)
qed

lemma keeps_off_db_tx [keeps_intro]:
  assumes "keeps (off_db K) body"
  shows "keeps (off_db K) (in_tx_with eb ec body)"
  unfolding in_tx_with_def
proof (intro keeps_bindA keeps_ext keepsI)
  fix w0 assume w0: "off_db K w0"
  obtain r w1 where b: "body w0 = (r, w1)" by fastforce
  with assms w0 have "off_db K w1" by (rule keepsD)
  with b w0 show "off_db K (snd (case body w0 of
        (Inl err, w1) \<Rightarrow> (Inl err, w1\<lparr>wdb := wdb w0\<rparr>)
      | (Inr (commit, x), w1) \<Rightarrow>
          (if \<not> commit then (Inr x, w1\<lparr>wdb := wdb w0\<rparr>)
           else (case pop_fault w1 of (ft, w2) \<Rightarrow>
             (case ft of
                NoFault \<Rightarrow> (Inr x, w2)
              | FailBefore \<Rightarrow> (Inl ec, w2\<lparr>wdb := wdb w0\<rparr>)
              | FailAfter \<Rightarrow> (Inl ec, w2))))))"
    using pop_fault_snd(2,3) [of w1]
    by (auto simp: off_db_def split: sum.splits prod.splits fault.splits)
qed (simp_all add: off_db_def)

text \<open>What a query returned is known to hold of the state the code goes on from.\<close>

lemma keeps_query_bind:
  assumes "\<And>w r w'. J (wdb w) \<Longrightarrow> f (q (wdb w)) w = (r, w') \<Longrightarrow> J (wdb w')"
  shows "keeps (on_db J) (bindA (query e q) f)"
proof (rule keepsI)
  fix w assume J: "on_db J w"
  show "on_db J (snd (bindA (query e q) f w))"
  proof (cases "fst (pop_fault w)")
    case NoFault
    let ?w = "snd (pop_fault w)"
    have "bindA (query e q) f w = f (q (wdb ?w)) ?w"
      using NoFault by (simp add: bindA_run query_def ext_def split_beta)
    then show ?thesis
      using assms [of ?w] J by (metis on_db_def pop_fault_snd(1) prod.collapse)
  qed (use J in \<open>simp_all add: bindA_run query_def ext_def split_beta on_db_def pop_fault_snd\<close>)
qed

lemma in_tx_unfold:
  "in_tx_with eb ec body w = (let (f, w0) = pop_fault w in
     if f \<noteq> NoFault then (Inl eb, w0)
     else (case body w0 of
        (Inl err, w1) \<Rightarrow> (Inl err, w1\<lparr>wdb := wdb w0\<rparr>)
      | (Inr cx, w1) \<Rightarrow>
          if \<not> fst cx then (Inr (snd cx), w1\<lparr>wdb := wdb w0\<rparr>)
          else (let (f', w2) = pop_fault w1 in
             if f' = NoFault then (Inr (snd cx), w2)
             else if f' = FailBefore then (Inl ec, w2\<lparr>wdb := wdb w0\<rparr>)
             else (Inl ec, w2))))"
  unfolding in_tx_with_def bindA_def ext_def
  by (cases "pop_fault w"; cases "fst (pop_fault w)")
    (auto simp: Let_def split: sum.split prod.split fault.split)

section \<open>Conditions on the database and the object store\<close>

text \<open>\<open>on_store P\<close>: the condition \<open>P\<close> on the database together with the object store. A
  transaction that does not touch the store keeps it when each of its statements does.\<close>

definition on_store :: "(db \<Rightarrow> (storage_key \<times> bytes) list \<Rightarrow> bool) \<Rightarrow> world \<Rightarrow> bool" where
  "on_store P w \<longleftrightarrow> P (wdb w) (store w)"

lemma on_store_faults [simp]: "on_store P (w\<lparr>faults := fs\<rparr>) = on_store P w"
  "on_store P (w\<lparr>ids := is\<rparr>) = on_store P w" "on_store P (w\<lparr>staging := s\<rparr>) = on_store P w"
  by (simp_all add: on_store_def)

lemma triple_ext:
  assumes "\<And>w fs. P w \<Longrightarrow> P (w\<lparr>faults := fs\<rparr>)"
    and "\<And>w. P w \<Longrightarrow> Q (fst (f w)) (snd (f w))" "\<And>w. P w \<Longrightarrow> E w" "\<And>w. P w \<Longrightarrow> E (snd (f w))"
  shows "triple P (ext e f) Q E"
proof (rule tripleI)
  have pop: "P w \<Longrightarrow> P (snd (pop_fault w))" for w
    using assms(1) by (simp add: pop_fault_def split: list.split)
  show "Q x s'" if "P w" "ext e f w = (Inr x, s')" for w x s'
    using that assms(2) [OF pop [OF that(1)]] by (auto simp: ext_def split_beta split: fault.splits)
  show "E s'" if "P w" "ext e f w = (Inl err, s')" for w err s'
    using that assms(3,4) [OF pop [OF that(1)]] by (auto simp: ext_def split_beta split: fault.splits)
qed

lemma triple_query:
  "triple (on_store P) (query e q) (\<lambda>x. on_store (\<lambda>d s. P d s \<and> x = q d)) (on_store P)"
  unfolding query_def by (rule triple_ext) (auto simp: on_store_def)

lemma triple_exec:
  assumes "\<And>d s. P d s \<Longrightarrow> Q (fst (u d)) (snd (u d)) s" "\<And>d s. P d s \<Longrightarrow> E d s" "\<And>d s. P d s \<Longrightarrow> E (snd (u d)) s"
  shows "triple (on_store P) (exec e u) (\<lambda>x. on_store (Q x)) (on_store E)"
  unfolding exec_def by (rule triple_ext) (use assms in \<open>auto simp: on_store_def split_beta\<close>)

lemma triple_new_id: "triple (on_store P) (new_id e) (\<lambda>_. on_store P) (on_store P)"
  by (rule tripleI) (auto simp: new_id_def on_store_def split: list.splits option.splits)

lemma keeps_on_store [keeps_intro]:
  "keeps (on_store P) (query e q)" "keeps (on_store P) (new_id e)"
  "(\<And>d s. P d s \<Longrightarrow> P (snd (u d)) s) \<Longrightarrow> keeps (on_store P) (exec e u)"
proof -
  show "keeps (on_store P) (query e q)"
    unfolding query_def by (rule keeps_ext) simp_all
  show "keeps (on_store P) (new_id e)"
    by (auto simp: keeps_def new_id_def on_store_def split: list.splits option.splits)
  show "keeps (on_store P) (exec e u)" if "\<And>d s. P d s \<Longrightarrow> P (snd (u d)) s"
    unfolding exec_def by (rule keeps_ext) (use that in \<open>auto simp: on_store_def split_beta\<close>)
qed

text \<open>\<open>db_only m\<close>: the action \<open>m\<close> leaves the directories alone.\<close>

definition db_only :: "(world, 'e, 'a) act \<Rightarrow> bool" where
  "db_only m \<longleftrightarrow> (\<forall>w. store (snd (m w)) = store w \<and> staging (snd (m w)) = staging w)"

lemma db_onlyI: "(\<And>K. keeps (off_db K) m) \<Longrightarrow> db_only m"
  unfolding db_only_def
proof
  fix w assume k: "\<And>K. keeps (off_db K) m"
  show "store (snd (m w)) = store w \<and> staging (snd (m w)) = staging w"
    using k [of "\<lambda>a b. b = store w \<and> a = staging w"] by (simp add: keeps_def off_db_def)
qed

lemma triple_in_tx:
  assumes body: "triple (on_store P) body (\<lambda>cx. on_store (if fst cx then Q (snd cx) else (\<lambda>_ _. True))) (\<lambda>_. True)"
    and only: "db_only body" and "\<And>d s. P d s \<Longrightarrow> E d s" "\<And>x d s. Q x d s \<Longrightarrow> E d s"
    and no: "\<And>w x w'. on_store P w \<Longrightarrow> body w = (Inr (False, x), w') \<Longrightarrow> Q x (wdb w) (store w)"
  shows "triple (on_store P) (in_tx_with eb ec body) (\<lambda>x. on_store (Q x)) (on_store E)"
proof -
  have s: "body w0 = (r, w1) \<Longrightarrow> store w1 = store w0" for w0 r w1
    using only by (metis db_only_def snd_conv)
  show ?thesis
  proof (rule tripleI)
    fix w x w' assume P: "on_store P w" and r: "in_tx_with eb ec body w = (Inr x, w')"
    let ?w0 = "snd (pop_fault w)"
    have P0: "on_store P ?w0" using P by (simp add: on_store_def pop_fault_snd)
    obtain br w1 where b: "body ?w0 = (br, w1)" by fastforce
    show "on_store (Q x) w'"
    proof (cases "fst (pop_fault w) = NoFault")
      case True
      with r b obtain c y where br: "br = Inr (c, y)"
        unfolding in_tx_unfold by (cases br) (auto simp: split_beta)
      show ?thesis
      proof (cases c)
        case True
        with triple_Inr [OF body P0 b [unfolded br]] have "on_store (Q y) w1" by simp
        with r b br True \<open>fst (pop_fault w) = NoFault\<close> show ?thesis
          unfolding in_tx_unfold
          by (auto simp: split_beta Let_def on_store_def pop_fault_snd split: if_splits)
      next
        case False
        with r b br \<open>fst (pop_fault w) = NoFault\<close> no [OF P0] s [OF b] show ?thesis
          unfolding in_tx_unfold by (auto simp: split_beta Let_def on_store_def)
      qed
    qed (use r in \<open>simp add: in_tx_unfold split_beta Let_def\<close>)
  next
    fix w err w' assume P: "on_store P w" and r: "in_tx_with eb ec body w = (Inl err, w')"
    let ?w0 = "snd (pop_fault w)"
    have P0: "on_store P ?w0" using P by (simp add: on_store_def pop_fault_snd)
    have E0: "on_store E ?w0" using P0 assms(3) by (simp add: on_store_def)
    obtain br w1 where b: "body ?w0 = (br, w1)" by fastforce
    show "on_store E w'"
    proof (cases "fst (pop_fault w) = NoFault")
      case True
      show ?thesis
      proof (cases br)
        case (Inl e)
        with r b True E0 s [OF b] show ?thesis
          unfolding in_tx_unfold by (auto simp: split_beta Let_def on_store_def)
      next
        case (Inr cx)
        then have "fst cx" using r b True unfolding in_tx_unfold
          by (auto simp: split_beta Let_def split: if_splits)
        with triple_Inr [OF body P0 b [unfolded Inr]] have "on_store (Q (snd cx)) w1" by simp
        then have "on_store E w1" using assms(4) by (auto simp: on_store_def)
        with r b Inr True E0 s [OF b] \<open>fst cx\<close> show ?thesis
          unfolding in_tx_unfold
          by (auto simp: split_beta Let_def on_store_def pop_fault_snd split: if_splits)
      qed
    qed (use r E0 in \<open>simp add: in_tx_unfold split_beta Let_def\<close>)
  qed
qed

lemma keeps_on_store_tx:
  assumes "keeps (on_store P) body" "db_only body"
  shows "keeps (on_store P) (in_tx_with eb ec body)"
proof (rule keepsI)
  fix w assume P: "on_store P w"
  have "triple (on_store P) (in_tx_with eb ec body) (\<lambda>_. on_store P) (on_store P)"
  proof (rule triple_in_tx)
    show "triple (on_store P) body (\<lambda>cx. on_store (if fst cx then (\<lambda>_. P) (snd cx) else (\<lambda>_ _. True))) (\<lambda>_. True)"
      by (rule triple_weaken [OF triple_keeps [OF assms(1)]]) (auto simp: on_store_def)
  qed (use assms(2) in \<open>auto simp: on_store_def\<close>)
  then show "on_store P (snd (in_tx_with eb ec body w))" using P by (rule triple_any)
qed

section \<open>What a call can end with\<close>

text \<open>A call that fails either changes nothing but the failure script, or has its effect;
  both use up an entry of the script.\<close>

lemma exec_result:
  "exec e u w = (r, w') \<Longrightarrow>
     (r = Inr (fst (u (wdb w))) \<and> wdb w' = snd (u (wdb w)) \<and> length (faults w') \<le> length (faults w))
   \<or> (r = Inl e \<and> length (faults w') < length (faults w)
        \<and> (wdb w' = wdb w \<or> wdb w' = snd (u (wdb w))))"
  by (cases "faults w"; cases "fst (pop_fault w)")
    (auto simp: exec_def ext_def pop_fault_def split_beta)

lemma query_result:
  "query e q w = (r, w') \<Longrightarrow> wdb w' = wdb w \<and>
     ((r = Inr (q (wdb w)) \<and> length (faults w') \<le> length (faults w))
    \<or> (r = Inl e \<and> length (faults w') < length (faults w)))"
  by (cases "faults w"; cases "fst (pop_fault w)")
    (auto simp: query_def ext_def pop_fault_def split_beta)

lemma pop_fault_length: "length (faults (snd (pop_fault w))) \<le> length (faults w)"
  "fst (pop_fault w) \<noteq> NoFault \<Longrightarrow> length (faults (snd (pop_fault w))) < length (faults w)"
  by (cases "faults w"; simp add: pop_fault_def)+

lemma in_tx_with_cases:
  assumes "in_tx_with eb ec body w = (r, w')"
  obtains
    (begin_failed) "r = Inl eb" "wdb w' = wdb w" "length (faults w') < length (faults w)"
  | (body_error) w0 w1 err where "wdb w0 = wdb w" "length (faults w0) \<le> length (faults w)"
      "body w0 = (Inl err, w1)" "r = Inl err" "wdb w' = wdb w" "faults w' = faults w1"
  | (no_commit) w0 w1 x where "wdb w0 = wdb w" "length (faults w0) \<le> length (faults w)"
      "body w0 = (Inr (False, x), w1)" "r = Inr x" "wdb w' = wdb w" "faults w' = faults w1"
  | (committed) w0 w1 x where "wdb w0 = wdb w" "length (faults w0) \<le> length (faults w)"
      "body w0 = (Inr (True, x), w1)" "r = Inr x" "wdb w' = wdb w1"
      "length (faults w') \<le> length (faults w1)"
  | (commit_failed) w0 w1 x where "wdb w0 = wdb w" "length (faults w0) \<le> length (faults w)"
      "body w0 = (Inr (True, x), w1)" "r = Inl ec" "wdb w' = wdb w \<or> wdb w' = wdb w1"
      "length (faults w') < length (faults w1)"
proof -
  let ?f = "fst (pop_fault w)" and ?w0 = "snd (pop_fault w)"
  note w0 = pop_fault_snd(1) [of w] pop_fault_length [of w]
  show thesis
  proof (cases "?f = NoFault")
    case False
    then have "r = Inl eb" "w' = ?w0"
      using assms unfolding in_tx_unfold by (simp_all add: split_beta)
    with w0 False show thesis by (intro begin_failed) simp_all
  next
    case ok: True
    obtain b w1 where b: "body ?w0 = (b, w1)" by fastforce
    let ?f' = "fst (pop_fault w1)" and ?w2 = "snd (pop_fault w1)"
    note w2 = pop_fault_snd(1) [of w1] pop_fault_length [of w1]
    show thesis
    proof (cases b)
      case (Inl err)
      have "r = Inl err" "w' = w1\<lparr>wdb := wdb ?w0\<rparr>"
        using assms unfolding in_tx_unfold by (simp_all add: split_beta Let_def ok b Inl)
      with Inl b w0 show thesis by (intro body_error [of ?w0 err w1]) simp_all
    next
      case (Inr cx)
      obtain c x where "cx = (c, x)" by fastforce
      with Inr b have b: "body ?w0 = (Inr (c, x), w1)" by simp
      consider "\<not> c" | "c" "?f' = NoFault" | "c" "?f' = FailBefore" | "c" "?f' = FailAfter"
        by (cases ?f') auto
      then show thesis
      proof cases
        case 1
        then have "r = Inr x" "w' = w1\<lparr>wdb := wdb ?w0\<rparr>"
          using assms unfolding in_tx_unfold by (simp_all add: split_beta Let_def ok b)
        with 1 b w0 show thesis by (intro no_commit [of ?w0 x w1]) simp_all
      next
        case 2
        then have "r = Inr x" "w' = ?w2"
          using assms unfolding in_tx_unfold by (simp_all add: split_beta Let_def ok b)
        with 2 b w0 w2 show thesis by (intro committed [of ?w0 x w1]) simp_all
      next
        case 3
        then have "r = Inl ec" "w' = ?w2\<lparr>wdb := wdb ?w0\<rparr>"
          using assms unfolding in_tx_unfold by (simp_all add: split_beta Let_def ok b)
        with 3 b w0 w2 show thesis by (intro commit_failed [of ?w0 x w1]) simp_all
      next
        case 4
        then have "r = Inl ec" "w' = ?w2"
          using assms unfolding in_tx_unfold by (simp_all add: split_beta Let_def ok b)
        with 4 b w0 w2 show thesis by (intro commit_failed [of ?w0 x w1]) simp_all
      qed
    qed
  qed
qed

lemmas in_tx_cases = in_tx_with_cases [of e e for e, consumes 1,
    case_names begin_failed body_error no_commit committed commit_failed]

text \<open>The successful runs of calls, and the database a transaction can leave.\<close>

lemma exec_Inr: "exec e u w = (Inr x, w') \<Longrightarrow> x = fst (u (wdb w)) \<and> wdb w' = snd (u (wdb w))"
  by (auto dest: exec_result)

lemma query_Inr: "query e q w = (Inr x, w') \<Longrightarrow> x = q (wdb w) \<and> wdb w' = wdb w"
  by (auto dest: query_result)

lemma new_id_Inr: "new_id e w = (Inr i, w') \<Longrightarrow> wdb w' = wdb w"
  by (auto simp: new_id_def split: list.splits option.splits)

lemma in_tx_effect:
  assumes "in_tx e body w = (r, w')"
  obtains (unchanged) "wdb w' = wdb w"
  | (effect) w0 w1 x where "wdb w0 = wdb w" "body w0 = (Inr (True, x), w1)" "wdb w' = wdb w1"
      "r = Inr x \<or> r = Inl e"
  using assms by (cases rule: in_tx_cases) auto

lemma in_tx_Inr:
  assumes "in_tx e body w = (Inr x, w')"
  obtains (unchanged) w0 w1 where "wdb w0 = wdb w" "body w0 = (Inr (False, x), w1)" "wdb w' = wdb w"
  | (committed) w0 w1 where "wdb w0 = wdb w" "body w0 = (Inr (True, x), w1)" "wdb w' = wdb w1"
  using assms by (cases rule: in_tx_cases) auto

lemma if_Inr: "(if b then m else n) w = (Inr x, w') \<longleftrightarrow> (b \<and> m w = (Inr x, w')) \<or> (\<not> b \<and> n w = (Inr x, w'))"
  by simp

lemmas act_Inr = bindA_Inr_iff ret_run throw_run commit_tx_def rollback_tx_def if_Inr

section \<open>Initial states\<close>

text \<open>The freshly migrated database (no rows, the default settings) and a process on a
  given database with empty directories and no scripted failure.\<close>

definition empty_db :: db where
  "empty_db = \<lparr>jobs = [], derivatives = [], file_objects = [], uploads = [], parts = [],
     messages = [], attachments = [], tags = [], message_tags = [], idem_keys = [], users = [],
     devices = [], sessions = [], user_totps = [], totp_challenges = [],
     sys_settings = \<lparr>temporary_ttl_hours = 72, trash_ttl_hours = 168, max_file_size_bytes = 2147483648,
        max_storage_bytes = None, audit_retention_days = 90, upload_retention_hours = 24,
        settings_updated_at = 0, settings_updated_by = None\<rparr>,
     audit_logs = []\<rparr>"

definition process_on :: "db \<Rightarrow> world" where
  "process_on d = \<lparr>wdb = d, staging = [], store = [], ids = [], faults = [], wake = False,
     rate_limits = [], failure_audits = [], published = []\<rparr>"

lemma process_on_simps [simp]:
  "wdb (process_on d) = d" "staging (process_on d) = []" "store (process_on d) = []"
  "ids (process_on d) = []" "faults (process_on d) = []" "published (process_on d) = []"
  by (simp_all add: process_on_def)

lemma empty_db_simps [simp]:
  "jobs empty_db = []" "derivatives empty_db = []" "file_objects empty_db = []"
  "uploads empty_db = []" "parts empty_db = []" "messages empty_db = []" "attachments empty_db = []"
  "tags empty_db = []" "message_tags empty_db = []" "idem_keys empty_db = []"
  "users empty_db = []" "devices empty_db = []" "sessions empty_db = []" "user_totps empty_db = []"
  "totp_challenges empty_db = []" "audit_logs empty_db = []"
  by (simp_all add: empty_db_def)

end
