(* ===== verification/Blobs.thy ===== *)
theory Blobs
  imports Schema
begin

text \<open>
  Files of a flat directory: a map from names to contents, writes at an offset, and the
  law that makes resumable uploads work: writes of disjoint slices of one file in any order,
  each as often as wanted, put the file together. The laws are stated for an interface
  (\<open>blob_dir\<close>) that the staging directory and the object store both provide.
\<close>

section \<open>Directories\<close>

definition blob_get :: "'k \<Rightarrow> ('k \<times> bytes) list \<Rightarrow> bytes option" where
  "blob_get k bs = map_of bs k"

definition blob_del :: "'k \<Rightarrow> ('k \<times> bytes) list \<Rightarrow> ('k \<times> bytes) list" where
  "blob_del k bs = filter (\<lambda>p. fst p \<noteq> k) bs"

definition blob_put :: "'k \<Rightarrow> bytes \<Rightarrow> ('k \<times> bytes) list \<Rightarrow> ('k \<times> bytes) list" where
  "blob_put k b bs = (k, b) # blob_del k bs"

lemma blob_get_del: "blob_get k (blob_del k' bs) = (if k = k' then None else blob_get k bs)"
  by (induction bs) (auto simp: blob_get_def blob_del_def)

lemma blob_get_put: "blob_get k (blob_put k' b bs) = (if k = k' then Some b else blob_get k bs)"
  using blob_get_del [of k k' bs] by (auto simp: blob_get_def blob_put_def)

lemma blob_get_Nil [simp]: "blob_get k [] = None"
  by (simp add: blob_get_def)

lemma blob_get_None_iff: "blob_get k bs = None \<longleftrightarrow> k \<notin> fst ` set bs"
  by (simp add: blob_get_def map_of_eq_None_iff)

section \<open>Writing at an offset\<close>

text \<open>A file is sparse: writing past its end, or truncating it to a larger size, fills the
  gap with zero bytes.\<close>

definition zeros :: "nat \<Rightarrow> bytes" where
  "zeros n = replicate n (CHR 0x00)"

definition write_at :: "nat \<Rightarrow> bytes \<Rightarrow> bytes \<Rightarrow> bytes" where
  "write_at off d f =
     (let f' = f @ zeros (off + length d - length f) in take off f' @ d @ drop (off + length d) f')"

definition slice :: "nat \<Rightarrow> nat \<Rightarrow> bytes \<Rightarrow> bytes" where
  "slice off n f = take n (drop off f)"

lemma length_zeros [simp]: "length (zeros n) = n"
  by (simp add: zeros_def)

lemma length_write_at: "length (write_at off d f) = max (length f) (off + length d)"
  by (simp add: write_at_def Let_def)

lemma length_write_at_inside [simp]: "off + length d \<le> length f \<Longrightarrow> length (write_at off d f) = length f"
  by (simp add: length_write_at)

lemma write_at_nth:
  assumes "off + length d \<le> length f" "i < length f"
  shows "write_at off d f ! i = (if off \<le> i \<and> i < off + length d then d ! (i - off) else f ! i)"
  using assms by (auto simp: write_at_def Let_def nth_append zeros_def min_def)

lemma length_slice [simp]: "off + n \<le> length f \<Longrightarrow> length (slice off n f) = n"
  by (simp add: slice_def)

lemma slice_nth: "off + n \<le> length f \<Longrightarrow> i < n \<Longrightarrow> slice off n f ! i = f ! (off + i)"
  by (simp add: slice_def)

lemma slice_write_same: "off + length d \<le> length f \<Longrightarrow> slice off (length d) (write_at off d f) = d"
  by (rule nth_equalityI) (simp_all add: slice_nth write_at_nth)

lemma slice_write_other:
  assumes "off + length d \<le> length f" "off' + n \<le> length f" "off' + n \<le> off \<or> off + length d \<le> off'"
  shows "slice off' n (write_at off d f) = slice off' n f"
  by (rule nth_equalityI) (use assms in \<open>auto simp: slice_nth write_at_nth\<close>)

text \<open>Consecutive writes are one write.\<close>

lemma write_at_append:
  assumes "off + length d + length e \<le> length f"
  shows "write_at (off + length d) e (write_at off d f) = write_at off (d @ e) f"
  by (rule nth_equalityI) (use assms in \<open>auto simp: write_at_nth nth_append\<close>)

lemma write_at_Nil: "off \<le> length f \<Longrightarrow> write_at off [] f = f"
  by (simp add: write_at_def Let_def zeros_def)

section \<open>Assembling a file from its parts\<close>

text \<open>Part \<open>p\<close> of a file of \<open>n\<close> bytes cut into chunks of \<open>c\<close> bytes.\<close>

definition part_len :: "nat \<Rightarrow> nat \<Rightarrow> nat \<Rightarrow> nat" where
  "part_len c n p = min c (n - p * c)"

definition part_of :: "nat \<Rightarrow> bytes \<Rightarrow> nat \<Rightarrow> bytes" where
  "part_of c d p = slice (p * c) (part_len c (length d) p) d"

definition same_part :: "nat \<Rightarrow> bytes \<Rightarrow> nat \<Rightarrow> bytes \<Rightarrow> bool" where
  "same_part c d p f \<longleftrightarrow> part_of c f p = part_of c d p"

lemma part_inside: "p * c < n \<Longrightarrow> p * c + part_len c n p \<le> n"
  by (simp add: part_len_def)

lemma length_part_of: "p * c < length d \<Longrightarrow> length (part_of c d p) = part_len c (length d) p"
  unfolding part_of_def by (rule length_slice) (rule part_inside)

lemma parts_disjoint:
  assumes "p \<noteq> q" "p * c < n" "q * c < n"
  shows "p * c + part_len c n p \<le> q * c \<or> q * c + part_len c n q \<le> p * c"
proof -
  consider "p + 1 \<le> q" | "q + 1 \<le> p" using assms(1) by linarith
  then show ?thesis
  proof cases
    case 1
    then have "p * c + c \<le> q * c" using mult_le_mono1 [of "p + 1" q c] by simp
    moreover have "part_len c n p \<le> c" by (simp add: part_len_def)
    ultimately show ?thesis by linarith
  next
    case 2
    then have "q * c + c \<le> p * c" using mult_le_mono1 [of "q + 1" p c] by simp
    moreover have "part_len c n q \<le> c" by (simp add: part_len_def)
    ultimately show ?thesis by linarith
  qed
qed

lemma write_part:
  assumes "length f = length d" "p * c < length d"
  shows "length (write_at (p * c) (part_of c d p) f) = length d"
    and "same_part c d p (write_at (p * c) (part_of c d p) f)"
    and "q * c < length d \<Longrightarrow> same_part c d q f \<Longrightarrow> same_part c d q (write_at (p * c) (part_of c d p) f)"
proof -
  have l: "length (part_of c d p) = part_len c (length d) p" by (rule length_part_of [OF assms(2)])
  have i: "p * c + part_len c (length d) p \<le> length f" using part_inside [OF assms(2)] assms(1) by simp
  show len: "length (write_at (p * c) (part_of c d p) f) = length d" using i l assms(1) by simp
  show s: "same_part c d p (write_at (p * c) (part_of c d p) f)"
    using slice_write_same [of "p * c" "part_of c d p" f] i l len
    by (simp add: same_part_def) (simp add: part_of_def)
  assume q: "q * c < length d" "same_part c d q f"
  show "same_part c d q (write_at (p * c) (part_of c d p) f)"
  proof (cases "q = p")
    case False
    have "slice (q * c) (part_len c (length d) q) (write_at (p * c) (part_of c d p) f)
        = slice (q * c) (part_len c (length d) q) f"
      by (rule slice_write_other)
        (use i l assms part_inside [OF q(1)] parts_disjoint [OF False q(1) assms(2)] in auto)
    with q(2) len assms(1) show ?thesis by (simp add: same_part_def part_of_def)
  qed (simp add: s)
qed

text \<open>A file that agrees with the data on every part is the data.\<close>

lemma assembled:
  assumes "0 < c" "length f = length d" "\<And>p. p * c < length d \<Longrightarrow> same_part c d p f"
  shows "f = d"
proof (rule nth_equalityI [OF assms(2)])
  fix i assume i: "i < length f"
  let ?p = "i div c" and ?j = "i mod c"
  have ij: "?p * c + ?j = i" by simp
  then have p: "?p * c < length d" using i assms(2) by linarith
  have j: "?j < part_len c (length d) ?p"
  proof -
    have "?j < c" using assms(1) by simp
    moreover have "?j < length d - ?p * c" using ij i assms(2) by linarith
    ultimately show ?thesis by (simp add: part_len_def)
  qed
  note in_d = part_inside [OF p]
  have "slice (?p * c) (part_len c (length d) ?p) f = slice (?p * c) (part_len c (length d) ?p) d"
    using assms(3) [OF p] assms(2) by (simp add: same_part_def part_of_def)
  with slice_nth [OF in_d j] slice_nth [of "?p * c" "part_len c (length d) ?p" f ?j] in_d j assms(2)
  show "f ! i = d ! i" by (simp add: ij)
qed

section \<open>The interface of a directory\<close>

locale blob_dir =
  fixes get :: "'k \<Rightarrow> 's \<Rightarrow> bytes option" and put :: "'k \<Rightarrow> bytes \<Rightarrow> 's \<Rightarrow> 's" and del :: "'k \<Rightarrow> 's \<Rightarrow> 's"
    and put_at :: "'k \<Rightarrow> nat \<Rightarrow> bytes \<Rightarrow> 's \<Rightarrow> 's"
  assumes get_put: "get k (put k' b s) = (if k = k' then Some b else get k s)"
    and get_del: "get k (del k' s) = (if k = k' then None else get k s)"
    and get_put_at: "get k (put_at k' off d s) = (if k = k' then map_option (write_at off d) (get k s) else get k s)"
begin

lemma get_put_at_parts:
  assumes "0 < c" "get k s = Some f" "length f = length d" "\<forall>p\<in>set ps. p * c < length d"
  shows "\<exists>f'. get k (fold (\<lambda>p. put_at k (p * c) (part_of c d p)) ps s) = Some f' \<and> length f' = length d
     \<and> (\<forall>p. p * c < length d \<longrightarrow> p \<in> set ps \<or> same_part c d p f \<longrightarrow> same_part c d p f')
     \<and> (\<forall>k'. k' \<noteq> k \<longrightarrow> get k' (fold (\<lambda>p. put_at k (p * c) (part_of c d p)) ps s) = get k' s)"
  using assms(2-4)
proof (induction ps arbitrary: s f)
  case (Cons p ps)
  let ?s = "put_at k (p * c) (part_of c d p) s" and ?f = "write_at (p * c) (part_of c d p) f"
  have p: "p * c < length d" using Cons.prems(3) by simp
  note w = write_part [OF Cons.prems(2) p]
  have g: "get k ?s = Some ?f" by (simp add: get_put_at Cons.prems(1))
  from Cons.IH [OF g w(1)] Cons.prems(3) obtain f' where
    "get k (fold (\<lambda>p. put_at k (p * c) (part_of c d p)) ps ?s) = Some f'" "length f' = length d"
    "\<forall>q. q * c < length d \<longrightarrow> q \<in> set ps \<or> same_part c d q ?f \<longrightarrow> same_part c d q f'"
    "\<forall>k'. k' \<noteq> k \<longrightarrow> get k' (fold (\<lambda>p. put_at k (p * c) (part_of c d p)) ps ?s) = get k' ?s"
    by auto
  then show ?case using w(2,3) by (auto simp: get_put_at)
qed auto

theorem parts_assemble:
  assumes "0 < c" "get k s = Some f" "length f = length d" "\<forall>p\<in>set ps. p * c < length d"
    and "\<forall>p. p * c < length d \<longrightarrow> p \<in> set ps"
  shows "get k (fold (\<lambda>p. put_at k (p * c) (part_of c d p)) ps s) = Some d"
  using get_put_at_parts [OF assms(1-4)] assms(5) assembled [OF assms(1), of _ d] by auto

end

text \<open>A write into an open file; a file that is gone stays gone.\<close>

definition blob_put_at :: "'k \<Rightarrow> nat \<Rightarrow> bytes \<Rightarrow> ('k \<times> bytes) list \<Rightarrow> ('k \<times> bytes) list" where
  "blob_put_at k off d s = (case blob_get k s of None \<Rightarrow> s | Some f \<Rightarrow> blob_put k (write_at off d f) s)"

interpretation blobs: blob_dir blob_get blob_put blob_del blob_put_at
  by unfold_locales (auto simp: blob_get_put blob_get_del blob_put_at_def split: option.split)

end
