(* ===== verification/Staging.thy ===== *)
theory Staging
  imports Blobs
begin

text \<open>
  The staging directory of resumable uploads (\<^verbatim>\<open>internal/platform/staging\<close>): one file per
  upload session, created at its final size, written at offsets, deleted idempotently. Each
  system call may fail before or after its effect.
\<close>

datatype staging_err = StgErrInvalidUploadID | StgErrUnavailable

definition stg_path :: "uuid \<Rightarrow> (world, staging_err, unit) act" where
  "stg_path i = (if i = uuid_nil then throw StgErrInvalidUploadID else ret ())"

definition open_excl :: "uuid \<Rightarrow> world \<Rightarrow> bool \<times> world" where
  "open_excl i w = (if blob_get i (staging w) \<noteq> None then (False, w)
     else (True, w\<lparr>staging := blob_put i [] (staging w)\<rparr>))"

definition stg_create :: "uuid \<Rightarrow> int \<Rightarrow> (world, staging_err, unit) act" where
  "stg_create i n =
     (if n < 0 then throw StgErrUnavailable
      else bindA (stg_path i) (\<lambda>_.
        bindA (ext StgErrUnavailable (open_excl i)) (\<lambda>fresh.
        if \<not> fresh then throw StgErrUnavailable
        else bindA (tryA (ext StgErrUnavailable (\<lambda>w. ((), w\<lparr>staging := blob_put i (zeros (nat n)) (staging w)\<rparr>)))) (\<lambda>r.
          (case r of
             Inr _ \<Rightarrow> ret ()
           | Inl _ \<Rightarrow> bindA (tryA (ext StgErrUnavailable (\<lambda>w. ((), w\<lparr>staging := blob_del i (staging w)\<rparr>)))) (\<lambda>(_ :: staging_err + unit).
               throw StgErrUnavailable))))))"

definition stg_open :: "uuid \<Rightarrow> (world, staging_err, unit) act" where
  "stg_open i = bindA (stg_path i) (\<lambda>_.
     bindA (ext StgErrUnavailable (\<lambda>w. (blob_get i (staging w) \<noteq> None, w))) (\<lambda>found.
     if found then ret () else throw StgErrUnavailable))"

text \<open>\<open>Stat\<close> yields the size; every file of the directory is regular.\<close>

definition stg_stat :: "uuid \<Rightarrow> (world, staging_err, int) act" where
  "stg_stat i = bindA (stg_path i) (\<lambda>_.
     bindA (ext StgErrUnavailable (\<lambda>w. (blob_get i (staging w), w))) (\<lambda>f.
     (case f of None \<Rightarrow> throw StgErrUnavailable | Some b \<Rightarrow> ret (int (length b)))))"

definition stg_sync :: "uuid \<Rightarrow> (world, staging_err, unit) act" where
  "stg_sync i = bindA (stg_open i) (\<lambda>_. ext StgErrUnavailable (\<lambda>w. ((), w)))"

definition stg_delete :: "uuid \<Rightarrow> (world, staging_err, unit) act" where
  "stg_delete i = bindA (stg_path i) (\<lambda>_.
     ext StgErrUnavailable (\<lambda>w. ((), w\<lparr>staging := blob_del i (staging w)\<rparr>)))"

text \<open>\<open>Exists\<close> turns an absent file into \<open>false\<close> and keeps every other error.\<close>

definition stg_exists :: "uuid \<Rightarrow> (world, staging_err, bool) act" where
  "stg_exists i = bindA (tryA (stg_stat i)) (\<lambda>(r :: staging_err + int).
     (case r of
        Inr _ \<Rightarrow> ret True
      | Inl e \<Rightarrow> bindA (stg_path i) (\<lambda>_.
          bindA (tryA (ext StgErrUnavailable (\<lambda>w. (blob_get i (staging w) = None, w)))) (\<lambda>(r' :: staging_err + bool).
          (case r' of Inr True \<Rightarrow> ret False | _ \<Rightarrow> throw e)))))"

text \<open>The directory is read in file-name order, which is the order of the identifiers.\<close>

definition owned_files :: "(world, staging_err, uuid list) act" where
  "owned_files = ext StgErrUnavailable (\<lambda>w. (sort (remdups (map fst (staging w))), w))"

text \<open>\<open>WriteAt\<close> and the read of a whole file through an open handle.\<close>

definition stg_write_at :: "uuid \<Rightarrow> int \<Rightarrow> bytes \<Rightarrow> (world, staging_err, unit) act" where
  "stg_write_at i off d =
     ext StgErrUnavailable (\<lambda>w. ((), w\<lparr>staging := blob_put_at i (nat off) d (staging w)\<rparr>))"

definition stg_read_all :: "uuid \<Rightarrow> (world, staging_err, bytes) act" where
  "stg_read_all i = ext StgErrUnavailable (\<lambda>w. (case blob_get i (staging w) of None \<Rightarrow> [] | Some b \<Rightarrow> b, w))"

definition stg_read :: "uuid \<Rightarrow> (world, staging_err, bytes) act" where
  "stg_read i = bindA (stg_open i) (\<lambda>_. stg_read_all i)"

section \<open>The database is not touched\<close>

lemma keeps_ext_files:
  "(\<And>w. wdb (snd (f w)) = wdb w) \<Longrightarrow> keeps (on_db J) (ext e f)"
  by (rule keeps_ext) (simp_all add: on_db_def)

lemma keeps_staging [keeps_intro]:
  "keeps (on_db J) (stg_path i)" "keeps (on_db J) (stg_open i)" "keeps (on_db J) (stg_stat i)"
  "keeps (on_db J) (stg_sync i)" "keeps (on_db J) (stg_delete i)" "keeps (on_db J) (stg_create i n)"
  "keeps (on_db J) owned_files" "keeps (on_db J) (stg_write_at i off d)" "keeps (on_db J) (stg_read i)"
proof -
  show p: "keeps (on_db J) (stg_path i)" for J unfolding stg_path_def by (intro keeps_intro)
  show o: "keeps (on_db J) (stg_open i)"
    unfolding stg_open_def by (intro keeps_intro p keeps_ext_files) simp
  show "keeps (on_db J) (stg_stat i)"
    unfolding stg_stat_def by (intro keeps_intro p keeps_ext_files) simp
  show "keeps (on_db J) (stg_sync i)"
    unfolding stg_sync_def by (intro keeps_intro o keeps_ext_files) simp
  show "keeps (on_db J) (stg_delete i)"
    unfolding stg_delete_def by (intro keeps_intro p keeps_ext_files) simp
  show "keeps (on_db J) (stg_create i n)"
    unfolding stg_create_def by (intro keeps_intro p keeps_ext_files) (simp_all add: open_excl_def)
  show "keeps (on_db J) owned_files"
    unfolding owned_files_def by (intro keeps_ext_files) simp
  show "keeps (on_db J) (stg_write_at i off d)"
    unfolding stg_write_at_def by (intro keeps_ext_files) simp
  show "keeps (on_db J) (stg_read i)"
    unfolding stg_read_def stg_read_all_def by (intro keeps_intro o keeps_ext_files) simp
qed

lemma staging_wdb:
  "stg_create i n w = (r, w') \<Longrightarrow> wdb w' = wdb w"
  "stg_open i w = (r1, w') \<Longrightarrow> wdb w' = wdb w"
  "stg_stat i w = (r2, w') \<Longrightarrow> wdb w' = wdb w"
  "stg_sync i w = (r1, w') \<Longrightarrow> wdb w' = wdb w"
  "stg_delete i w = (r1, w') \<Longrightarrow> wdb w' = wdb w"
  "stg_write_at i off d w = (r1, w') \<Longrightarrow> wdb w' = wdb w"
  "stg_read i w = (r3, w') \<Longrightarrow> wdb w' = wdb w"
  by (rule keepsD [where I = "on_db (\<lambda>d. d = wdb w)", unfolded on_db_def, OF _ refl];
      assumption?; rule keeps_staging [unfolded on_db_def])+

section \<open>Without failures\<close>

lemma staging_quiet [act_simps]:
  assumes "quiet w" "i \<noteq> uuid_nil"
  shows "stg_open i w = (if blob_get i (staging w) = None then (Inl StgErrUnavailable, w) else (Inr (), w))"
    and "stg_stat i w = (case blob_get i (staging w) of None \<Rightarrow> (Inl StgErrUnavailable, w)
           | Some b \<Rightarrow> (Inr (int (length b)), w))"
    and "stg_sync i w = (if blob_get i (staging w) = None then (Inl StgErrUnavailable, w) else (Inr (), w))"
    and "stg_delete i w = (Inr (), w\<lparr>staging := blob_del i (staging w)\<rparr>)"
    and "stg_write_at i off d w = (Inr (), w\<lparr>staging := blob_put_at i (nat off) d (staging w)\<rparr>)"
    and "0 \<le> n \<Longrightarrow> blob_get i (staging w) = None \<Longrightarrow>
           stg_create i n w = (Inr (), w\<lparr>staging := blob_put i (zeros (nat n)) (blob_put i [] (staging w))\<rparr>)"
    and "stg_read i w = (case blob_get i (staging w) of None \<Rightarrow> (Inl StgErrUnavailable, w) | Some b \<Rightarrow> (Inr b, w))"
  using assms
  by (auto simp: stg_open_def stg_stat_def stg_sync_def stg_delete_def stg_write_at_def stg_create_def
      stg_read_def stg_read_all_def stg_path_def bindA_run ret_run throw_run tryA_run ext_quiet open_excl_def split: option.split)

lemma owned_files_quiet [act_simps]:
  "quiet w \<Longrightarrow> owned_files w = (Inr (sort (remdups (map fst (staging w)))), w)"
  by (simp add: owned_files_def ext_quiet)

end
