(* ===== verification/Utf8.thy ===== *)
theory Utf8
  imports Prelude "HOL-Library.Sublist"
begin

text \<open>
  The parts of Go's \<^verbatim>\<open>unicode/utf8\<close> the program uses, on byte strings: the size of the
  rune at the front (\<^verbatim>\<open>DecodeRuneInString\<close>), \<^verbatim>\<open>ValidString\<close>, \<^verbatim>\<open>RuneCountInString\<close>,
  \<^verbatim>\<open>RuneStart\<close>, the size of the rune at the end (\<^verbatim>\<open>DecodeLastRuneInString\<close>), and the
  loop that cuts a string down to a byte limit at a rune boundary, which the program has in
  three places. The facts are the ones the components need: the loop stops, keeps a
  prefix, respects the limit and never splits a rune.
\<close>

definition byte_of :: "char \<Rightarrow> nat" where
  "byte_of c = of_char c"

definition cont_byte :: "char \<Rightarrow> bool" where
  "cont_byte c \<longleftrightarrow> 128 \<le> byte_of c \<and> byte_of c < 192"

text \<open>Length of the well-formed sequence at the front, 0 when there is none.\<close>

definition lead_size :: "char \<Rightarrow> nat" where
  "lead_size c = (let a = byte_of c in
     if a < 128 then 1
     else if 194 \<le> a \<and> a \<le> 223 then 2
     else if 224 \<le> a \<and> a \<le> 239 then 3
     else if 240 \<le> a \<and> a \<le> 244 then 4
     else 0)"

definition second_ok :: "char \<Rightarrow> char \<Rightarrow> bool" where
  "second_ok c d = (let a = byte_of c; b = byte_of d in
     if a = 224 then 160 \<le> b \<and> b < 192
     else if a = 237 then 128 \<le> b \<and> b < 160
     else if a = 240 then 144 \<le> b \<and> b < 192
     else if a = 244 then 128 \<le> b \<and> b < 144
     else 128 \<le> b \<and> b < 192)"

fun seq_size :: "string \<Rightarrow> nat" where
  "seq_size [] = 0"
| "seq_size (c # s) =
     (if lead_size c = 1 then 1
      else if lead_size c = 0 then 0
      else if lead_size c \<le> Suc (length s) \<and> second_ok c (hd s)
              \<and> list_all cont_byte (take (lead_size c - 2) (tl s))
      then lead_size c else 0)"

text \<open>\<^verbatim>\<open>DecodeRuneInString\<close> consumes one byte of an invalid sequence.\<close>

definition rune_size :: "string \<Rightarrow> nat" where
  "rune_size s = (if s = [] then 0 else if seq_size s = 0 then 1 else seq_size s)"

lemma lead_size_le: "lead_size c \<le> 4"
  by (simp add: lead_size_def Let_def)

lemma seq_size_le: "seq_size s \<le> length s"
  by (cases s) simp_all

lemma seq_size_le4: "seq_size s \<le> 4"
  by (cases s) (simp_all add: lead_size_le)

lemma rune_size_pos: "s \<noteq> [] \<Longrightarrow> 0 < rune_size s"
  by (simp add: rune_size_def)

lemma rune_size_le: "rune_size s \<le> length s"
  by (cases s) (simp_all add: rune_size_def)

function utf8_valid :: "string \<Rightarrow> bool" where
  "utf8_valid s = (if s = [] then True
     else if seq_size s = 0 then False
     else utf8_valid (drop (seq_size s) s))"
  by pat_completeness auto
termination by (relation "measure length") auto

declare utf8_valid.simps [simp del]

lemma utf8_valid_Nil [simp]: "utf8_valid []"
  by (simp add: utf8_valid.simps)

function rune_count :: "string \<Rightarrow> nat" where
  "rune_count s = (if s = [] then 0 else Suc (rune_count (drop (rune_size s) s)))"
  by pat_completeness auto
termination
proof (relation "measure length")
  fix s :: string assume "s \<noteq> []"
  then have "0 < rune_size s" "0 < length s" by (simp_all add: rune_size_pos)
  then show "(drop (rune_size s) s, s) \<in> measure length"
    unfolding in_measure length_drop by (intro diff_less)
qed simp

declare rune_count.simps [simp del]

lemma rune_count_le: "rune_count s \<le> length s"
proof (induction s rule: rune_count.induct)
  case (1 s)
  show ?case
  proof (cases "s = []")
    case False
    with 1 have "rune_count (drop (rune_size s) s) \<le> length s - rune_size s" by simp
    moreover from False have "0 < rune_size s" by (rule rune_size_pos)
    moreover have "rune_size s \<le> length s" by (rule rune_size_le)
    ultimately show ?thesis using False by (simp add: rune_count.simps [of s])
  qed (simp add: rune_count.simps)
qed

definition rune_start :: "char \<Rightarrow> bool" where
  "rune_start c \<longleftrightarrow> \<not> cont_byte c"

definition last_rune_size :: "string \<Rightarrow> nat" where
  "last_rune_size s =
     (if s = [] then 0
      else if byte_of (last s) < 128 then 1
      else (case find (\<lambda>k. k \<le> length s \<and> rune_start (s ! (length s - k))) [2, 3, 4] of
              None \<Rightarrow> 1
            | Some k \<Rightarrow> if rune_size (drop (length s - k) s) = k then k else 1))"

lemma last_rune_size_pos: "s \<noteq> [] \<Longrightarrow> 0 < last_rune_size s"
  by (auto simp: last_rune_size_def find_Some_iff split: option.splits)

section \<open>One rune, and strings of runes\<close>

definition is_seq :: "string \<Rightarrow> bool" where
  "is_seq r \<longleftrightarrow> r \<noteq> [] \<and> seq_size r = length r"

lemma seq_size_append:
  assumes "seq_size s \<noteq> 0"
  shows "seq_size (s @ t) = seq_size s"
proof (cases s)
  case (Cons c u)
  show ?thesis
  proof (cases "lead_size c = 1")
    case False
    with assms Cons have l: "lead_size c \<noteq> 0" "lead_size c \<le> Suc (length u)"
      by (auto split: if_splits)
    with False have "u \<noteq> []" by auto
    with l have "hd (u @ t) = hd u" "take (lead_size c - 2) (tl (u @ t)) = take (lead_size c - 2) (tl u)"
      by (auto simp: tl_append2)
    with Cons l assms show ?thesis by (auto split: if_splits)
  qed (simp add: Cons)
qed (use assms in simp)

lemma seq_size_take:
  assumes "seq_size s \<noteq> 0"
  shows "seq_size (take (seq_size s) s) = seq_size s"
proof (cases s)
  case (Cons c u)
  show ?thesis
  proof (cases "lead_size c = 1")
    case False
    with assms Cons have l: "seq_size s = lead_size c" "lead_size c \<noteq> 0"
        "lead_size c \<le> Suc (length u)"
      by (auto split: if_splits)
    with False have 2: "2 \<le> lead_size c" and "u \<noteq> []" by auto
    from 2 l have t: "take (lead_size c) s = c # take (lead_size c - 1) u"
      by (cases "lead_size c") (auto simp: Cons)
    from 2 \<open>u \<noteq> []\<close> have "hd (take (lead_size c - 1) u) = hd u"
      by (simp add: hd_take)
    moreover have "take (lead_size c - 2) (tl (take (lead_size c - 1) u)) = take (lead_size c - 2) (tl u)"
      by (simp add: tl_take)
    ultimately show ?thesis
      using l t assms Cons by (auto split: if_splits)
  qed (simp add: Cons)
qed (use assms in simp)

lemma is_seq_take: "seq_size s \<noteq> 0 \<Longrightarrow> is_seq (take (seq_size s) s)"
  using seq_size_take [of s] seq_size_le [of s] by (auto simp: is_seq_def)

lemma utf8_valid_Cons_seq: "is_seq r \<Longrightarrow> utf8_valid (r @ s) \<longleftrightarrow> utf8_valid s"
  using seq_size_append [of r s] by (subst utf8_valid.simps) (auto simp: is_seq_def)

lemma utf8_valid_runes: "utf8_valid s \<longleftrightarrow> (\<exists>rs. s = concat rs \<and> (\<forall>r\<in>set rs. is_seq r))"
proof
  show "utf8_valid s \<Longrightarrow> \<exists>rs. s = concat rs \<and> (\<forall>r\<in>set rs. is_seq r)"
  proof (induction s rule: utf8_valid.induct)
    case (1 s)
    show ?case
    proof (cases "s = []")
      case True
      then show ?thesis by (intro exI [of _ "[]"]) simp
    next
      case False
      with "1.prems" have sz: "seq_size s \<noteq> 0" and "utf8_valid (drop (seq_size s) s)"
        by (auto simp: utf8_valid.simps [of s] split: if_splits)
      with 1 False obtain rs where "drop (seq_size s) s = concat rs" "\<forall>r\<in>set rs. is_seq r"
        by auto
      with is_seq_take [OF sz] show ?thesis
        by (intro exI [of _ "take (seq_size s) s # rs"])
          (auto simp flip: \<open>drop (seq_size s) s = concat rs\<close>)
    qed
  qed
next
  assume "\<exists>rs. s = concat rs \<and> (\<forall>r\<in>set rs. is_seq r)"
  then obtain rs where "s = concat rs" "\<forall>r\<in>set rs. is_seq r" by blast
  then show "utf8_valid s"
    by (induction rs arbitrary: s) (auto simp: utf8_valid_Cons_seq)
qed

lemma utf8_valid_append: "utf8_valid s \<Longrightarrow> utf8_valid t \<Longrightarrow> utf8_valid (s @ t)"
proof -
  assume "utf8_valid s" "utf8_valid t"
  then obtain rs qs where "s = concat rs" "\<forall>r\<in>set rs. is_seq r" "t = concat qs" "\<forall>r\<in>set qs. is_seq r"
    by (auto simp: utf8_valid_runes)
  then show ?thesis
    unfolding utf8_valid_runes by (intro exI [of _ "rs @ qs"]) auto
qed

text \<open>The bytes after the first of a sequence are continuation bytes, the first is not.\<close>

lemma lead_not_cont: "lead_size c \<noteq> 0 \<Longrightarrow> \<not> cont_byte c"
  by (auto simp: lead_size_def cont_byte_def Let_def split: if_splits)

lemma second_ok_cont: "second_ok c d \<Longrightarrow> cont_byte d"
  by (auto simp: second_ok_def cont_byte_def Let_def split: if_splits)

lemma seq_shapes:
  assumes "is_seq r"
  obtains a where "r = [a]" "byte_of a < 128"
  | a b where "r = [a, b]" "rune_start a" "cont_byte b"
  | a b c where "r = [a, b, c]" "rune_start a" "cont_byte b" "cont_byte c"
  | a b c d where "r = [a, b, c, d]" "rune_start a" "cont_byte b" "cont_byte c" "cont_byte d"
proof -
  from assms obtain a s where r: "r = a # s" and sz: "seq_size (a # s) = Suc (length s)"
    by (cases r) (auto simp: is_seq_def)
  show thesis
  proof (cases "lead_size a = 1")
    case True
    with sz have "s = []" by simp
    moreover from True have "byte_of a < 128"
      by (auto simp: lead_size_def Let_def split: if_splits)
    ultimately show thesis using r that(1) by simp
  next
    case False
    with sz have l: "lead_size a = Suc (length s)" "second_ok a (hd s)"
        "list_all cont_byte (take (lead_size a - 2) (tl s))" and st: "rune_start a"
      using lead_not_cont [of a] by (auto simp: rune_start_def split: if_splits)
    from l(1) lead_size_le [of a] have "length s \<le> 3" by simp
    with False l(1) consider b where "s = [b]" | b c where "s = [b, c]" | b c d where "s = [b, c, d]"
      by (cases s; cases "tl s"; cases "tl (tl s)"; cases "tl (tl (tl s))") auto
    then show thesis
      using l st r that(2-4) by cases (auto dest: second_ok_cont)
  qed
qed

lemma cont_not_ascii: "cont_byte c \<Longrightarrow> \<not> byte_of c < 128"
  by (simp add: cont_byte_def)

lemma last_rune_size_seq:
  assumes "is_seq r"
  shows "last_rune_size (s @ r) = length r"
proof -
  have rs: "rune_size r = length r"
    using assms by (auto simp: is_seq_def rune_size_def)
  from assms show ?thesis
  proof (cases rule: seq_shapes)
    case (2 a b)
    with rs show ?thesis
      by (simp add: last_rune_size_def cont_not_ascii nth_append)
  next
    case (3 a b c)
    with rs show ?thesis
      by (simp add: last_rune_size_def cont_not_ascii nth_append rune_start_def numeral_2_eq_2)
  next
    case (4 a b c d)
    with rs show ?thesis
      by (simp add: last_rune_size_def cont_not_ascii nth_append rune_start_def
          numeral_2_eq_2 numeral_3_eq_3)
  qed (simp add: last_rune_size_def)
qed

lemma utf8_valid_drop_last:
  assumes "utf8_valid s" "s \<noteq> []"
  shows "utf8_valid (take (length s - last_rune_size s) s)"
proof -
  from assms obtain rs where rs: "s = concat rs" "\<forall>r\<in>set rs. is_seq r"
    by (auto simp: utf8_valid_runes)
  with assms(2) have "rs \<noteq> []" by auto
  then obtain qs q where "rs = qs @ [q]" by (cases rs rule: rev_cases) auto
  with rs have s: "s = concat qs @ q" and q: "is_seq q" and "\<forall>r\<in>set qs. is_seq r" by auto
  then have "utf8_valid (concat qs)" by (auto simp: utf8_valid_runes)
  with last_rune_size_seq [OF q, of "concat qs"] s show ?thesis by simp
qed

section \<open>Cutting a string at a rune boundary\<close>

text \<open>\<^verbatim>\<open>for len(value) > max { _, size := DecodeLastRuneInString(value); value = value[:len(value)-size] }\<close>\<close>

function cut_runes :: "nat \<Rightarrow> string \<Rightarrow> string" where
  "cut_runes mx s =
     (if mx < length s then cut_runes mx (take (length s - last_rune_size s) s) else s)"
  by pat_completeness auto
termination
proof (relation "measure (length \<circ> snd)")
  fix mx and s :: string assume "mx < length s"
  then have "0 < length s" "0 < last_rune_size s" by (auto intro: last_rune_size_pos)
  then show "((mx, take (length s - last_rune_size s) s), mx, s) \<in> measure (length \<circ> snd)"
    by simp
qed simp

declare cut_runes.simps [simp del]

lemma cut_runes_length: "length (cut_runes mx s) \<le> mx"
proof (induction mx s rule: cut_runes.induct)
  case (1 mx s)
  then show ?case by (cases "mx < length s") (simp_all add: cut_runes.simps [of mx s])
qed

lemma cut_runes_prefix: "prefix (cut_runes mx s) s"
proof (induction mx s rule: cut_runes.induct)
  case (1 mx s)
  then show ?case
    by (cases "mx < length s")
      (auto simp: cut_runes.simps [of mx s] intro: prefix_order.trans take_is_prefix)
qed

lemma cut_runes_valid: "utf8_valid s \<Longrightarrow> utf8_valid (cut_runes mx s)"
proof (induction mx s rule: cut_runes.induct)
  case (1 mx s)
  show ?case
  proof (cases "mx < length s")
    case True
    then have "s \<noteq> []" by auto
    with "1.prems" have "utf8_valid (take (length s - last_rune_size s) s)"
      by (rule utf8_valid_drop_last)
    with 1 True show ?thesis by (simp add: cut_runes.simps [of mx s])
  qed (use "1.prems" in \<open>simp add: cut_runes.simps\<close>)
qed

lemma cut_runes_id: "length s \<le> mx \<Longrightarrow> cut_runes mx s = s"
  by (simp add: cut_runes.simps)

text \<open>Nothing more than necessary is cut: at most three bytes below the limit.\<close>

lemma last_rune_size_le: "last_rune_size s \<le> 4"
  by (auto simp: last_rune_size_def find_Some_iff split: option.splits)

lemma cut_runes_tight: "mx < length s \<Longrightarrow> mx < length (cut_runes mx s) + 4"
proof (induction mx s rule: cut_runes.induct)
  case (1 mx s)
  let ?t = "take (length s - last_rune_size s) s"
  show ?case
  proof (cases "mx < length ?t")
    case True
    with 1 show ?thesis by (simp add: cut_runes.simps [of mx s])
  next
    case False
    with "1.prems" last_rune_size_le [of s] show ?thesis
      by (simp add: cut_runes.simps [of mx s] cut_runes_id)
  qed
qed

end
