(* ===== verification/Settings.thy ===== *)
theory Settings
  imports Schema Utf8
begin

text \<open>
  Runtime settings (\<^verbatim>\<open>internal/settings\<close>) and the audit log (\<^verbatim>\<open>internal/audit\<close>): the bounds
  every stored settings row satisfies, the update with its audit event, the event
  constructors that are the only source of audit metadata, and the retention of audit rows.
\<close>

section \<open>Audit events\<close>

record actor =
  act_user :: uuid
  act_device :: uuid
  act_session :: uuid
  act_ip :: "string option"
  act_agent :: string
  act_trace :: string

record event =
  ev_type :: string
  ev_target_type :: string
  ev_target :: uuid
  ev_actor :: actor
  ev_metadata :: "(string \<times> meta_value) list"
  ev_created_at :: "time option"

definition no_actor :: actor where
  "no_actor = \<lparr>act_user = uuid_nil, act_device = uuid_nil, act_session = uuid_nil, act_ip = None,
     act_agent = [], act_trace = []\<rparr>"

definition user_event :: "string \<Rightarrow> actor \<Rightarrow> uuid \<Rightarrow> (string \<times> meta_value) list \<Rightarrow> event" where
  "user_event t a target md = \<lparr>ev_type = t, ev_target_type = ''USER'', ev_target = target,
     ev_actor = a, ev_metadata = md, ev_created_at = None\<rparr>"

definition runtime_settings_updated :: "actor \<Rightarrow> string list \<Rightarrow> event" where
  "runtime_settings_updated a changed = \<lparr>ev_type = ''RUNTIME_SETTINGS_UPDATED'',
     ev_target_type = ''SYSTEM_SETTINGS'', ev_target = uuid_nil, ev_actor = a,
     ev_metadata = [(''changedFields'', MetaTexts changed)], ev_created_at = None\<rparr>"

definition user_created :: "actor \<Rightarrow> uuid \<Rightarrow> string \<Rightarrow> bool \<Rightarrow> event" where
  "user_created a target name admin =
     user_event ''USER_CREATED'' a target [(''username'', MetaText name), (''isAdmin'', MetaFlag admin)]"

definition initial_admin_bootstrapped :: "uuid \<Rightarrow> string \<Rightarrow> event" where
  "initial_admin_bootstrapped target name = user_event ''INITIAL_ADMIN_BOOTSTRAPPED'' no_actor target
     [(''username'', MetaText name), (''isAdmin'', MetaFlag True)]"

definition user_disabled :: "actor \<Rightarrow> uuid \<Rightarrow> event" where
  "user_disabled a target = user_event ''USER_DISABLED'' a target []"

definition user_password_reset :: "actor \<Rightarrow> uuid \<Rightarrow> event" where
  "user_password_reset a target = user_event ''USER_PASSWORD_RESET'' a target []"

definition user_deleted :: "actor \<Rightarrow> uuid \<Rightarrow> string \<Rightarrow> event" where
  "user_deleted a target name = user_event ''USER_DELETED'' a target [(''username'', MetaText name)]"

definition totp_event :: "string \<Rightarrow> actor \<Rightarrow> uuid \<Rightarrow> event" where
  "totp_event t a target = user_event t a target []"

section \<open>Recording\<close>

definition nullable :: "string \<Rightarrow> string option" where
  "nullable v = (if v = [] then None else Some v)"

definition non_nil :: "uuid \<Rightarrow> uuid option" where
  "non_nil i = (if i = uuid_nil then None else Some i)"

definition audit_row_of :: "uuid \<Rightarrow> event \<Rightarrow> time \<Rightarrow> audit_row" where
  "audit_row_of i ev now = \<lparr>audit_id = i, audit_actor = non_nil (act_user (ev_actor ev)),
     audit_event = ev_type ev, audit_target_type = nullable (ev_target_type ev),
     audit_target = non_nil (ev_target ev), audit_ip = act_ip (ev_actor ev),
     audit_user_agent = nullable (cut_runes 512 (act_agent (ev_actor ev))),
     audit_device = non_nil (act_device (ev_actor ev)), audit_session = non_nil (act_session (ev_actor ev)),
     audit_trace = nullable (cut_runes 128 (act_trace (ev_actor ev))),
     audit_metadata = ev_metadata ev,
     audit_created_at = (case ev_created_at ev of None \<Rightarrow> now | Some t \<Rightarrow> t)\<rparr>"

definition insert_audit :: "audit_row \<Rightarrow> db \<Rightarrow> bool \<times> db" where
  "insert_audit r d = (if sql_exists (\<lambda>x. audit_id x = audit_id r) (audit_logs d) then (False, d)
     else (True, d\<lparr>audit_logs := audit_logs d @ [r]\<rparr>))"

definition record_event :: "'e \<Rightarrow> event \<Rightarrow> time \<Rightarrow> (world, 'e, unit) act" where
  "record_event e ev now =
     bindA (new_id e) (\<lambda>i.
     bindA (exec e (insert_audit (audit_row_of i ev now))) (\<lambda>ok.
     if ok then ret () else throw e))"

definition day :: duration where "day = 24 * hour"

definition cleanup_due :: "time \<Rightarrow> nat \<Rightarrow> db \<Rightarrow> audit_row list" where
  "cleanup_due now batch d = take batch (sort_key (\<lambda>r. (audit_created_at r, audit_id r))
     (filter (\<lambda>r. audit_created_at r < now - audit_retention_days (sys_settings d) * day) (audit_logs d)))"

definition audit_cleanup :: "'e \<Rightarrow> time \<Rightarrow> int \<Rightarrow> (world, 'e, nat) act" where
  "audit_cleanup e now batch =
     (if batch \<le> 0 then ret 0
      else exec e (\<lambda>d. (let due = cleanup_due now (nat batch) d in
        (length due, d\<lparr>audit_logs := sql_delete (\<lambda>r. audit_id r \<in> set (map audit_id due)) (audit_logs d)\<rparr>))))"

section \<open>Settings\<close>

definition settings_validate :: "settings \<Rightarrow> bool" where
  "settings_validate s \<longleftrightarrow> \<not> (temporary_ttl_hours s < 1 \<or> temporary_ttl_hours s > 8760
     \<or> trash_ttl_hours s < 1 \<or> trash_ttl_hours s > 8760
     \<or> max_file_size_bytes s < 1 \<or> max_file_size_bytes s > 2199023255552
     \<or> audit_retention_days s < 1 \<or> audit_retention_days s > 3650
     \<or> upload_retention_hours s < 1 \<or> upload_retention_hours s > 168
     \<or> (case max_storage_bytes s of None \<Rightarrow> False | Some m \<Rightarrow> m < 1))"

definition changed_fields :: "settings \<Rightarrow> settings \<Rightarrow> string list" where
  "changed_fields a b =
     (if temporary_ttl_hours a \<noteq> temporary_ttl_hours b then [''temporaryTtlHours''] else [])
   @ (if trash_ttl_hours a \<noteq> trash_ttl_hours b then [''trashTtlHours''] else [])
   @ (if max_file_size_bytes a \<noteq> max_file_size_bytes b then [''maxFileSizeBytes''] else [])
   @ (if max_storage_bytes a \<noteq> max_storage_bytes b then [''maxStorageBytes''] else [])
   @ (if audit_retention_days a \<noteq> audit_retention_days b then [''auditRetentionDays''] else [])
   @ (if upload_retention_hours a \<noteq> upload_retention_hours b then [''uploadRetentionHours''] else [])"

datatype settings_err = SettingsErrValidation | SettingsIO

definition settings_get :: "(world, settings_err, settings) act" where
  "settings_get = query SettingsIO sys_settings"

definition stored_settings :: "settings \<Rightarrow> time \<Rightarrow> uuid \<Rightarrow> settings" where
  "stored_settings s now u = s\<lparr>settings_updated_at := now, settings_updated_by := Some u\<rparr>"

definition settings_update_tx :: "actor \<Rightarrow> settings \<Rightarrow> time \<Rightarrow> (world, settings_err, bool \<times> settings) act" where
  "settings_update_tx a s now =
     bindA (query SettingsIO sys_settings) (\<lambda>before.
     bindA (exec SettingsIO (\<lambda>d. (stored_settings s now (act_user a),
              d\<lparr>sys_settings := stored_settings s now (act_user a)\<rparr>))) (\<lambda>updated.
     bindA (if changed_fields before s \<noteq> []
            then record_event SettingsIO (runtime_settings_updated a (changed_fields before s)) now
            else ret ()) (\<lambda>_.
     commit_tx updated)))"

definition settings_update :: "actor \<Rightarrow> settings \<Rightarrow> time \<Rightarrow> (world, settings_err, settings) act" where
  "settings_update a s now =
     (if \<not> settings_validate s then throw SettingsErrValidation
      else in_tx SettingsIO (settings_update_tx a s now))"

section \<open>Lemmas\<close>

definition settings_ok :: "db \<Rightarrow> bool" where
  "settings_ok d \<longleftrightarrow> settings_validate (sys_settings d)"

definition same_limits :: "settings \<Rightarrow> settings \<Rightarrow> bool" where
  "same_limits a b \<longleftrightarrow> temporary_ttl_hours a = temporary_ttl_hours b \<and> trash_ttl_hours a = trash_ttl_hours b
     \<and> max_file_size_bytes a = max_file_size_bytes b \<and> max_storage_bytes a = max_storage_bytes b
     \<and> audit_retention_days a = audit_retention_days b \<and> upload_retention_hours a = upload_retention_hours b"

lemma changed_fields_empty: "changed_fields a b = [] \<longleftrightarrow> same_limits a b"
  by (simp add: changed_fields_def same_limits_def)

lemma stored_settings_valid [simp]: "settings_validate (stored_settings s now u) = settings_validate s"
  by (simp add: settings_validate_def stored_settings_def)

lemma settings_ok_audit [simp]: "settings_ok (snd (insert_audit r d)) = settings_ok d"
  by (simp add: insert_audit_def settings_ok_def)

lemma keeps_record_event [keeps_intro]:
  "(\<And>d x. J d \<Longrightarrow> J (d\<lparr>audit_logs := x\<rparr>)) \<Longrightarrow> keeps (on_db J) (record_event e ev now)"
  unfolding record_event_def by (intro keeps_intro) (simp_all add: insert_audit_def)

lemma keeps_settings_update:
  "keeps (on_db settings_ok) (settings_update a s now)"
  unfolding settings_update_def settings_update_tx_def
  by (intro keeps_intro) (simp_all add: settings_ok_def)

lemma settings_ok_empty: "settings_ok empty_db"
  by (simp add: settings_ok_def settings_validate_def empty_db_def)

definition audit_ok :: "db \<Rightarrow> bool" where
  "audit_ok d \<longleftrightarrow> distinct (map audit_id (audit_logs d))"

lemma keeps_audit_record: "keeps (on_db audit_ok) (record_event e ev now)"
  unfolding record_event_def
  by (intro keeps_intro) (auto simp: insert_audit_def audit_ok_def sql_exists_iff)

lemma cleanup_due_subset:
  "set (cleanup_due now batch d) \<subseteq> {r \<in> set (audit_logs d). audit_created_at r < now - audit_retention_days (sys_settings d) * day}"
  by (auto simp: cleanup_due_def dest!: in_set_takeD)

lemma cleanup_deletes_due:
  assumes "audit_ok d"
  shows "set (sql_delete (\<lambda>r. audit_id r \<in> set (map audit_id (cleanup_due now batch d))) (audit_logs d))
     = set (audit_logs d) - set (cleanup_due now batch d)"
  using assms cleanup_due_subset [of now batch d]
  by (auto simp: set_sql_delete audit_ok_def distinct_map inj_on_def)

lemma cleanup_rows:
  assumes "quiet w" "audit_ok (wdb w)" "0 < batch"
  shows "case audit_cleanup e now batch w of (r, w') \<Rightarrow>
     r = Inr (length (audit_logs (wdb w)) - length (audit_logs (wdb w')))
   \<and> set (audit_logs (wdb w')) \<subseteq> set (audit_logs (wdb w))
   \<and> (\<forall>x\<in>set (audit_logs (wdb w)) - set (audit_logs (wdb w')).
        audit_created_at x < now - audit_retention_days (sys_settings (wdb w)) * day)"
proof -
  let ?d = "wdb w" and ?due = "cleanup_due now (nat batch) (wdb w)"
  let ?rest = "sql_delete (\<lambda>r. audit_id r \<in> set (map audit_id ?due)) (audit_logs ?d)"
  have dist: "distinct ?due" "distinct (audit_logs ?d)"
    using assms(2) by (auto simp: audit_ok_def cleanup_due_def distinct_map)
  have "length ?rest + length ?due = length (audit_logs ?d)"
  proof -
    have "set ?rest = set (audit_logs ?d) - set ?due" by (rule cleanup_deletes_due [OF assms(2)])
    moreover have "distinct ?rest" using dist(2) by (simp add: sql_delete_def)
    moreover have "set ?due \<subseteq> set (audit_logs ?d)" using cleanup_due_subset [of now "nat batch" ?d] by blast
    ultimately show ?thesis
      using dist by (metis List.finite_set card_Diff_subset card_mono distinct_card le_add_diff_inverse2)
  qed
  then show ?thesis
    using cleanup_deletes_due [OF assms(2)] cleanup_due_subset [of now "nat batch" ?d] assms(1,3)
    by (auto simp: audit_cleanup_def exec_quiet Let_def)
qed


lemma record_event_Inr:
  assumes "record_event e ev now w = (Inr u, w')"
  shows "\<exists>i. wdb w' = (wdb w)\<lparr>audit_logs := audit_logs (wdb w) @ [audit_row_of i ev now]\<rparr>"
proof -
  from assms obtain i w1 ok where n: "new_id e w = (Inr i, w1)"
    and x: "exec e (insert_audit (audit_row_of i ev now)) w1 = (Inr ok, w')" and ok: "ok"
    unfolding record_event_def act_Inr by blast
  from ok exec_Inr [OF x] new_id_Inr [OF n]
  have "fst (insert_audit (audit_row_of i ev now) (wdb w))"
    "wdb w' = snd (insert_audit (audit_row_of i ev now) (wdb w))" by simp_all
  then have "wdb w' = (wdb w)\<lparr>audit_logs := audit_logs (wdb w) @ [audit_row_of i ev now]\<rparr>"
    by (simp add: insert_audit_def split: if_splits)
  then show ?thesis ..
qed

lemma settings_update_tx_Inr:
  assumes "settings_update_tx a s now w = (Inr (c, x), w')"
  defines "st \<equiv> stored_settings s now (act_user a)"
  shows "(same_limits (sys_settings (wdb w)) s \<and> wdb w' = (wdb w)\<lparr>sys_settings := st\<rparr>)
   \<or> (\<not> same_limits (sys_settings (wdb w)) s \<and> (\<exists>i. wdb w' = (wdb w)\<lparr>sys_settings := st,
        audit_logs := audit_logs (wdb w)
         @ [audit_row_of i (runtime_settings_updated a (changed_fields (sys_settings (wdb w)) s)) now]\<rparr>))"
proof -
  from assms(1) obtain before wa wb u where
    q: "query SettingsIO sys_settings w = (Inr before, wa)" and
    x: "exec SettingsIO (\<lambda>d. (st, d\<lparr>sys_settings := st\<rparr>)) wa = (Inr u, wb)" and
    c: "(changed_fields before s \<noteq> [] \<and>
          record_event SettingsIO (runtime_settings_updated a (changed_fields before s)) now wb = (Inr (), w'))
        \<or> (changed_fields before s = [] \<and> w' = wb)"
    unfolding settings_update_tx_def act_Inr st_def by auto
  have "before = sys_settings (wdb w)" "wdb wb = (wdb w)\<lparr>sys_settings := st\<rparr>"
    using query_Inr [OF q] exec_Inr [OF x] by auto
  with c show ?thesis
    unfolding changed_fields_empty
    using record_event_Inr [of SettingsIO "runtime_settings_updated a (changed_fields (sys_settings (wdb w)) s)" now wb "()" w']
    by auto
qed

section \<open>Properties\<close>

text \<open>An update of the runtime settings and its audit event are one: whatever fails on the
  way (statements, identifier generation, the commit, the reply), the database is either
  untouched or holds the new limits together with one new audit event that names exactly the
  limits that differ (no event when none does); invalid input changes nothing.\<close>

theorem settings_update_audited:
  "let d = wdb w; d' = wdb (snd (settings_update a s now w)); st = stored_settings s now (act_user a) in
     d' = d
   \<or> (settings_validate s \<and> same_limits (sys_settings d) s \<and> d' = d\<lparr>sys_settings := st\<rparr>)
   \<or> (settings_validate s \<and> \<not> same_limits (sys_settings d) s \<and>
      (\<exists>i. d' = d\<lparr>sys_settings := st, audit_logs := audit_logs d
         @ [audit_row_of i (runtime_settings_updated a (changed_fields (sys_settings d) s)) now]\<rparr>))"
proof (cases "settings_validate s")
  case True
  obtain r w' where r: "settings_update a s now w = (r, w')" by fastforce
  with True have "in_tx SettingsIO (settings_update_tx a s now) w = (r, w')"
    by (simp add: settings_update_def)
  then show ?thesis
  proof (cases rule: in_tx_effect)
    case (effect w0 w1 x)
    with settings_update_tx_Inr [OF effect(2)] True r show ?thesis by (simp add: Let_def)
  qed (simp add: r)
qed (simp add: settings_update_def throw_run Let_def)

text \<open>Audit retention deletes only rows older than the configured number of days, reports
  how many it deleted, and never touches a younger row.\<close>

theorem audit_cleanup_deletes_only_expired:
  assumes "quiet w" "audit_ok (wdb w)" "0 < batch"
  shows "case audit_cleanup e now batch w of (r, w') \<Rightarrow>
     r = Inr (length (audit_logs (wdb w)) - length (audit_logs (wdb w')))
   \<and> set (audit_logs (wdb w')) \<subseteq> set (audit_logs (wdb w))
   \<and> (\<forall>x\<in>set (audit_logs (wdb w)) - set (audit_logs (wdb w')).
        audit_created_at x < now - audit_retention_days (sys_settings (wdb w)) * day)"
  using cleanup_rows [OF assms] .

theorem audit_cleanup_deletes_only_expired_witness:
  "case audit_cleanup (0::nat) (100 * day) 10 (process_on (empty_db\<lparr>audit_logs := [
      audit_row_of 7 (user_disabled no_actor 3) day, audit_row_of 8 (user_disabled no_actor 4) (20 * day)]\<rparr>)) of
    (r, w') \<Rightarrow> set (audit_logs (wdb w')) \<subseteq> {audit_row_of 7 (user_disabled no_actor 3) day,
        audit_row_of 8 (user_disabled no_actor 4) (20 * day)}"
proof -
  let ?w = "process_on (empty_db\<lparr>audit_logs := [
      audit_row_of 7 (user_disabled no_actor 3) day, audit_row_of 8 (user_disabled no_actor 4) (20 * day)]\<rparr>)"
  have "audit_ok (wdb ?w)" by (simp add: audit_ok_def audit_row_of_def)
  from audit_cleanup_deletes_only_expired [where w = ?w and batch = 10 and e = "0::nat" and now = "100 * day", OF _ this]  show ?thesis
    by (auto split: prod.splits)
qed

end
