(* ===== verification/Uploads.thy ===== *)
theory Uploads
  imports Staging Settings
begin

text \<open>
  Resumable uploads (\<^verbatim>\<open>internal/uploads\<close>): the arithmetic of parts, admission of a new upload
  against the file limit, the staging quota and the free space, writing of parts, completion,
  expiry and the cleanup of staging files. The repository's statements are those of
  \<^verbatim>\<open>sql/generated/uploads.sql.go\<close>.
\<close>

section \<open>Model\<close>

datatype upload_err = UpErrNotFound | UpErrFileTooLarge | UpErrStagingFull | UpErrStagingUnavailable
  | UpErrExpired | UpErrInvalidState | UpErrPartOutOfRange | UpErrPartSizeMismatch | UpErrIncomplete
  | UpErrStagingCorrupt | UpErrValidation | UpErrFinalizeRetryable | UpErrStorageQuota | UpIO

definition default_chunk_size :: int where "default_chunk_size = 8 * 2 ^ 20"

definition part_count :: "upload \<Rightarrow> int" where
  "part_count s = (if expected_size s = 0 then 0
     else go_div (wrap64 (wrap64 (expected_size s + chunk_size s) - 1)) (chunk_size s))"

definition part_size_of :: "upload \<Rightarrow> int \<Rightarrow> int" where
  "part_size_of s p =
     (if p < 0 \<or> p \<ge> part_count s then - 1
      else if p = part_count s - 1 then wrap64 (expected_size s - wrap64 (p * chunk_size s))
      else chunk_size s)"

record create_command =
  cmd_filename :: string
  cmd_size :: int
  cmd_mime :: "string option"

definition valid_filename :: "string \<Rightarrow> bool" where
  "valid_filename v \<longleftrightarrow> utf8_valid v \<and> 0 < length v \<and> length v \<le> 255
     \<and> \<not> list_ex (\<lambda>c. c = CHR 0x00 \<or> c = CHR ''/'' \<or> c = CHR 0x5C) v"

definition valid_mime :: "string option \<Rightarrow> bool" where
  "valid_mime v = (case v of None \<Rightarrow> True
     | Some m \<Rightarrow> utf8_valid m \<and> length m \<le> 255 \<and> \<not> list_ex (\<lambda>c. c = CHR 0x00) m)"

text \<open>Part numbers are stored as 32-bit integers.\<close>

definition to_int32 :: "int \<Rightarrow> int" where
  "to_int32 x = (x + 2147483648) mod 4294967296 - 2147483648"

section \<open>Repository\<close>

definition occupies_staging :: "upload_status \<Rightarrow> bool" where
  "occupies_staging st \<longleftrightarrow> st = Created \<or> st = Uploading \<or> st = Completing \<or> st = Failed"

definition active_upload_reservation :: "db \<Rightarrow> int" where
  "active_upload_reservation d =
     sql_sum expected_size (filter (\<lambda>u. occupies_staging (us_status u)) (uploads d))"

definition completed_bytes :: "db \<Rightarrow> uuid \<Rightarrow> int" where
  "completed_bytes d i = sql_sum part_size (filter (\<lambda>p. part_upload p = i) (parts d))"

definition active_upload_remaining :: "db \<Rightarrow> int" where
  "active_upload_remaining d =
     sql_sum (\<lambda>u. max (expected_size u - completed_bytes d (us_id u)) 0)
       (filter (\<lambda>u. occupies_staging (us_status u)) (uploads d))"

record reservation =
  res_max_file :: int
  res_retention_hours :: int
  active_bytes :: int
  active_remaining :: int

definition create_upload_session :: "upload \<Rightarrow> db \<Rightarrow> bool \<times> db" where
  "create_upload_session u d =
     (if sql_exists (\<lambda>x. us_id x = us_id u) (uploads d) \<or> expected_size u < 0 \<or> chunk_size u \<le> 0 then (False, d)
      else (True, d\<lparr>uploads := uploads d @ [u\<lparr>us_status := Created, us_updated_at := us_created_at u,
              file_object_id := None, completed_at := None, consumed_at := None, consumed_message_id := None\<rparr>]\<rparr>))"

definition insert_session :: "upload \<Rightarrow> (world, upload_err, unit) act" where
  "insert_session u = bindA (exec UpIO (create_upload_session u)) (\<lambda>ok. if ok then ret () else throw UpIO)"

text \<open>
  The error type is the caller's: \<open>eb\<close> reports a failure before the callback has run, \<open>ec\<close> a
  failed commit after it.
\<close>

definition with_create_reservation ::
    "'e \<Rightarrow> 'e \<Rightarrow> (reservation \<Rightarrow> (world, 'e, 'a) act) \<Rightarrow> (world, 'e, 'a) act" where
  "with_create_reservation eb ec f = in_tx_with eb ec
     (bindA (exec eb (\<lambda>d. ((), d))) (\<lambda>_.
      bindA (query eb (\<lambda>d. (max_file_size_bytes (sys_settings d), upload_retention_hours (sys_settings d)))) (\<lambda>st.
      bindA (query eb active_upload_reservation) (\<lambda>active.
      bindA (query eb active_upload_remaining) (\<lambda>remaining.
      bindA (f \<lparr>res_max_file = fst st, res_retention_hours = snd st,
                active_bytes = active, active_remaining = remaining\<rparr>) (\<lambda>x.
      commit_tx x))))))"

definition owned_upload :: "uuid \<Rightarrow> uuid \<Rightarrow> db \<Rightarrow> upload option" where
  "owned_upload owner i d = (case by_key us_id i (uploads d) of None \<Rightarrow> None
     | Some u \<Rightarrow> if us_user u = owner then Some u else None)"

definition list_completed_parts :: "uuid \<Rightarrow> db \<Rightarrow> part list" where
  "list_completed_parts i d = sort_key part_number (filter (\<lambda>p. part_upload p = i) (parts d))"

definition repo_get :: "uuid \<Rightarrow> uuid \<Rightarrow> (world, upload_err, upload) act" where
  "repo_get owner i = bindA (query UpIO (owned_upload owner i)) (\<lambda>r.
     (case r of None \<Rightarrow> throw UpErrNotFound | Some u \<Rightarrow> ret u))"

definition repo_list_parts :: "uuid \<Rightarrow> (world, upload_err, part list) act" where
  "repo_list_parts i = query UpIO (list_completed_parts i)"

definition invalidate_part :: "uuid \<Rightarrow> int \<Rightarrow> (world, upload_err, unit) act" where
  "invalidate_part i n = exec UpIO (\<lambda>d. ((),
     d\<lparr>parts := sql_delete (\<lambda>p. part_upload p = i \<and> part_number p = to_int32 n) (parts d)\<rparr>))"

definition upsert_completed_part :: "uuid \<Rightarrow> int \<Rightarrow> int \<Rightarrow> time \<Rightarrow> db \<Rightarrow> bool \<times> db" where
  "upsert_completed_part i n sz now d =
     (if n < 0 \<or> sz < 0 then (False, d)
      else if sql_exists (\<lambda>p. part_upload p = i \<and> part_number p = n) (parts d)
      then (True, d\<lparr>parts := sql_update (\<lambda>p. part_upload p = i \<and> part_number p = n)
              (\<lambda>p. p\<lparr>part_size := sz, part_completed_at := now\<rparr>) (parts d)\<rparr>)
      else (True, d\<lparr>parts := parts d
              @ [\<lparr>part_upload = i, part_number = n, part_size = sz, part_completed_at = now\<rparr>]\<rparr>))"

definition writable :: "upload_status \<Rightarrow> bool" where
  "writable st \<longleftrightarrow> st = Created \<or> st = Uploading"

definition transition_upload :: "(upload \<Rightarrow> bool) \<Rightarrow> upload_status \<Rightarrow> time \<Rightarrow> db \<Rightarrow> nat \<times> db" where
  "transition_upload p st now d = (sql_count p (uploads d),
     d\<lparr>uploads := sql_update p (\<lambda>u. u\<lparr>us_status := st, us_updated_at := now\<rparr>) (uploads d)\<rparr>)"

definition commit_part_tx :: "uuid \<Rightarrow> uuid \<Rightarrow> int \<Rightarrow> int \<Rightarrow> time \<Rightarrow> (world, upload_err, bool \<times> unit) act" where
  "commit_part_tx owner i n sz now =
     bindA (query UpIO (owned_upload owner i)) (\<lambda>r.
     (case r of None \<Rightarrow> throw UpErrNotFound
      | Some s \<Rightarrow>
         if us_expires_at s \<le> now \<or> us_status s = Expired then throw UpErrExpired
         else if us_status s \<noteq> Created \<and> us_status s \<noteq> Uploading then throw UpErrInvalidState
         else bindA (exec UpIO (upsert_completed_part i (to_int32 n) sz now)) (\<lambda>ok.
           if \<not> ok then throw UpIO
           else bindA (exec UpIO (transition_upload
                  (\<lambda>u. us_id u = i \<and> us_user u = owner \<and> writable (us_status u)) Uploading now)) (\<lambda>_.
             commit_tx ()))))"

definition commit_part :: "uuid \<Rightarrow> uuid \<Rightarrow> int \<Rightarrow> int \<Rightarrow> time \<Rightarrow> (world, upload_err, unit) act" where
  "commit_part owner i n sz now = in_tx UpIO (commit_part_tx owner i n sz now)"

definition repo_complete_tx ::
    "uuid \<Rightarrow> uuid \<Rightarrow> time \<Rightarrow> (upload \<Rightarrow> part list \<Rightarrow> (world, upload_err, unit) act)
     \<Rightarrow> (world, upload_err, bool \<times> upload) act" where
  "repo_complete_tx owner i now validate =
     bindA (query UpIO (owned_upload owner i)) (\<lambda>r.
     (case r of None \<Rightarrow> throw UpErrNotFound
      | Some s \<Rightarrow>
         if us_status s = Expired \<or> (us_expires_at s \<le> now \<and> us_status s \<noteq> Completing \<and> us_status s \<noteq> Completed)
         then throw UpErrExpired
         else if us_status s = Completing \<or> us_status s = Completed then commit_tx s
         else if us_status s \<noteq> Created \<and> us_status s \<noteq> Uploading then throw UpErrInvalidState
         else bindA (query UpIO (list_completed_parts i)) (\<lambda>ps.
           bindA (validate s ps) (\<lambda>_.
           bindA (exec UpIO (transition_upload
                  (\<lambda>u. us_id u = i \<and> us_user u = owner \<and> writable (us_status u)) Completing now)) (\<lambda>n.
           if n \<noteq> 1 then throw UpErrInvalidState
           else commit_tx (s\<lparr>us_status := Completing, us_updated_at := now\<rparr>))))))"

definition repo_complete ::
    "uuid \<Rightarrow> uuid \<Rightarrow> time \<Rightarrow> (upload \<Rightarrow> part list \<Rightarrow> (world, upload_err, unit) act)
     \<Rightarrow> (world, upload_err, upload) act" where
  "repo_complete owner i now validate = in_tx UpIO (repo_complete_tx owner i now validate)"

definition expirable :: "upload_status \<Rightarrow> bool" where
  "expirable st \<longleftrightarrow> st = Created \<or> st = Uploading \<or> st = Failed"

definition find_due_active_uploads :: "time \<Rightarrow> nat \<Rightarrow> (world, upload_err, uuid list) act" where
  "find_due_active_uploads now batch = query UpIO (\<lambda>d. map us_id (take batch
     (sort_key (\<lambda>u. (us_expires_at u, us_id u))
       (filter (\<lambda>u. expirable (us_status u) \<and> us_expires_at u \<le> now) (uploads d)))))"

definition expired_with_parts :: "db \<Rightarrow> upload \<Rightarrow> bool" where
  "expired_with_parts d u \<longleftrightarrow> us_status u = Expired \<and> sql_exists (\<lambda>p. part_upload p = us_id u) (parts d)"

definition find_expired_cleanup_candidates :: "(world, upload_err, uuid list) act" where
  "find_expired_cleanup_candidates = query UpIO (\<lambda>d. map us_id
     (sort_key (\<lambda>u. (us_expires_at u, us_id u)) (filter (expired_with_parts d) (uploads d))))"

definition mark_expired_tx :: "uuid \<Rightarrow> time \<Rightarrow> (world, upload_err, bool \<times> bool) act" where
  "mark_expired_tx i now =
     bindA (query UpIO (\<lambda>d. by_key us_id i (uploads d))) (\<lambda>r.
     (case r of None \<Rightarrow> rollback_tx False
      | Some s \<Rightarrow>
         if us_status s = Expired then commit_tx True
         else if \<not> expirable (us_status s) \<or> us_expires_at s > now then commit_tx False
         else bindA (exec UpIO (transition_upload
                (\<lambda>u. us_id u = i \<and> expirable (us_status u) \<and> us_expires_at u \<le> now) Expired now)) (\<lambda>n.
           if n \<noteq> 1 then throw UpErrInvalidState else commit_tx True)))"

definition mark_expired :: "uuid \<Rightarrow> time \<Rightarrow> (world, upload_err, bool) act" where
  "mark_expired i now = in_tx UpIO (mark_expired_tx i now)"

definition delete_parts :: "uuid \<Rightarrow> (world, upload_err, unit) act" where
  "delete_parts i = exec UpIO (\<lambda>d. ((), d\<lparr>parts := sql_delete (\<lambda>p. part_upload p = i) (parts d)\<rparr>))"

definition active_upload_ids :: "uuid list \<Rightarrow> (world, upload_err, uuid list) act" where
  "active_upload_ids is = (if is = [] then ret []
     else query UpIO (\<lambda>d. map us_id
       (filter (\<lambda>u. us_id u \<in> set is \<and> occupies_staging (us_status u)) (uploads d))))"

section \<open>Service\<close>

text \<open>
  The staging quota, the reserve of free bytes and the reserve of free percent a service is
  configured with; what the space probe answers is an argument of the operation.
\<close>

record upload_limits =
  max_staging :: int
  min_free_bytes :: int
  min_free_percent :: int

record space =
  available_bytes :: int
  total_bytes :: int

definition minimum_percent_bytes :: "upload_limits \<Rightarrow> int \<Rightarrow> int" where
  "minimum_percent_bytes l tot =
     wrap64 (wrap64 (go_div tot 100 * min_free_percent l)
       + go_div (wrap64 (wrap64 (go_mod tot 100 * min_free_percent l) + 99)) 100)"

definition admit :: "upload_limits \<Rightarrow> space option \<Rightarrow> reservation \<Rightarrow> int \<Rightarrow> upload_err option" where
  "admit l probe res sz =
     (if sz > res_max_file res then Some UpErrFileTooLarge
      else if sz > max_staging l \<or> active_bytes res > wrap64 (max_staging l - sz) then Some UpErrStagingFull
      else (case probe of
          None \<Rightarrow> Some UpErrStagingUnavailable
        | Some sp \<Rightarrow>
            if available_bytes sp < 0 \<or> total_bytes sp \<le> 0 then Some UpErrStagingUnavailable
            else if active_remaining res > wrap64 (max_int64 - sz) then Some UpErrStagingFull
            else (let projected = wrap64 (wrap64 (available_bytes sp - active_remaining res) - sz) in
              if projected < min_free_bytes l \<or> projected < 0
                 \<or> projected < minimum_percent_bytes l (total_bytes sp)
              then Some UpErrStagingFull else None)))"

definition new_session :: "uuid \<Rightarrow> uuid \<Rightarrow> create_command \<Rightarrow> int \<Rightarrow> time \<Rightarrow> upload" where
  "new_session i owner cmd hours now = \<lparr>us_id = i, us_user = owner, original_filename = cmd_filename cmd,
     expected_size = cmd_size cmd, client_mime = cmd_mime cmd, chunk_size = default_chunk_size,
     us_status = Created, us_expires_at = now + wrap64 (hours * hour), us_created_at = now,
     us_updated_at = now, file_object_id = None, completed_at = None, consumed_at = None,
     consumed_message_id = None\<rparr>"

text \<open>Loops over sessions that collect errors and go on.\<close>

fun collect_each :: "'x list \<Rightarrow> ('x \<Rightarrow> (world, 'e, 'a) act) \<Rightarrow> (world, 'e, 'e list) act" where
  "collect_each [] f = ret []"
| "collect_each (x # xs) f =
     bindA (tryA (f x)) (\<lambda>(r :: 'e + 'a). bindA (collect_each xs f) (\<lambda>es.
       ret (case r of Inl e \<Rightarrow> e # es | Inr _ \<Rightarrow> es)))"

fun reconcile_each :: "uuid list \<Rightarrow> uuid list \<Rightarrow> int \<Rightarrow> nat \<Rightarrow> (world, upload_err, upload_err list) act" where
  "reconcile_each [] active limit cleaned = ret []"
| "reconcile_each (i # is) active limit cleaned =
     (if i \<in> set active then reconcile_each is active limit cleaned
      else if limit > 0 \<and> int cleaned \<ge> limit then ret []
      else bindA (tryA (stg_delete i)) (\<lambda>(r :: staging_err + unit).
        (case r of
           Inl _ \<Rightarrow> bindA (reconcile_each is active limit cleaned) (\<lambda>es. ret (UpErrStagingUnavailable # es))
         | Inr _ \<Rightarrow> reconcile_each is active limit (Suc cleaned))))"

definition reconcile_staging :: "int \<Rightarrow> (world, upload_err, upload_err list) act" where
  "reconcile_staging limit =
     bindA (mapErr (\<lambda>_. UpErrStagingUnavailable) owned_files) (\<lambda>is.
     bindA (active_upload_ids is) (\<lambda>active.
     reconcile_each is active limit 0))"

definition expire_due_uploads :: "int \<Rightarrow> time \<Rightarrow> (world, upload_err, upload_err list) act" where
  "expire_due_uploads batch now =
     (if batch \<le> 0 then ret []
      else
        bindA (tryA (bindA (find_due_active_uploads now (nat batch)) (\<lambda>due.
          collect_each due (\<lambda>i. mark_expired i now)))) (\<lambda>(r1 :: upload_err + upload_err list).
        bindA (tryA (bindA find_expired_cleanup_candidates (\<lambda>cs.
          collect_each cs (\<lambda>i. bindA (mapErr (\<lambda>_. UpErrStagingUnavailable) (stg_delete i)) (\<lambda>_. delete_parts i))))) (\<lambda>(r2 :: upload_err + upload_err list).
        bindA (tryA (reconcile_staging batch)) (\<lambda>(r3 :: upload_err + upload_err list).
        ret (concat (map (case_sum (\<lambda>e. [e]) id) [r1, r2, r3]))))))"

text \<open>
  The callback of \<open>Create\<close>. An error carries the value of the local variable \<open>created\<close>: whether
  the staging file had been created when it occurred.
\<close>

definition create_body ::
    "upload_limits \<Rightarrow> space option \<Rightarrow> uuid \<Rightarrow> uuid \<Rightarrow> create_command \<Rightarrow> time \<Rightarrow> reservation
     \<Rightarrow> (world, upload_err \<times> bool, upload) act" where
  "create_body l probe i owner cmd now res =
     (case admit l probe res (cmd_size cmd) of
        Some e \<Rightarrow> throw (e, False)
      | None \<Rightarrow>
          bindA (mapErr (\<lambda>_. (UpErrStagingUnavailable, False)) (stg_create i (cmd_size cmd))) (\<lambda>_.
          bindA (mapErr (\<lambda>e. (e, True)) (insert_session (new_session i owner cmd (res_retention_hours res) now))) (\<lambda>_.
          ret (new_session i owner cmd (res_retention_hours res) now))))"

definition create_upload ::
    "upload_limits \<Rightarrow> space option \<Rightarrow> uuid \<Rightarrow> create_command \<Rightarrow> time \<Rightarrow> (world, upload_err, upload) act" where
  "create_upload l probe owner cmd now =
     (if owner = uuid_nil \<or> \<not> valid_filename (cmd_filename cmd) \<or> \<not> valid_mime (cmd_mime cmd) \<or> cmd_size cmd < 0
      then throw UpErrValidation
      else bindA (tryA (expire_due_uploads 8 now)) (\<lambda>(_ :: upload_err + upload_err list).
        bindA (new_id UpIO) (\<lambda>i.
        bindA (tryA (with_create_reservation (UpIO, False) (UpIO, True) (create_body l probe i owner cmd now)))
          (\<lambda>(r :: (upload_err \<times> bool) + upload).
          (case r of
             Inr u \<Rightarrow> ret u
           | Inl (e, created) \<Rightarrow>
               if created then bindA (tryA (stg_delete i)) (\<lambda>(_ :: staging_err + unit). throw e) else throw e)))))"

definition get_upload :: "uuid \<Rightarrow> uuid \<Rightarrow> (world, upload_err, upload \<times> int list) act" where
  "get_upload owner i =
     bindA (repo_get owner i) (\<lambda>row.
     bindA (repo_list_parts i) (\<lambda>ps.
     ret (row, map part_number ps)))"

subsection \<open>Writing a part\<close>

text \<open>
  A request body delivers \<open>body_data\<close> and then ends, or fails. \<open>io.CopyBuffer\<close> moves it to the
  staging file in pieces of at most 32 KiB, each one \<open>WriteAt\<close>.
\<close>

record body =
  body_data :: bytes
  body_fails :: bool

definition copy_buffer_size :: nat where "copy_buffer_size = 32 * 1024"

function write_pieces :: "uuid \<Rightarrow> int \<Rightarrow> bytes \<Rightarrow> (world, upload_err, unit) act" where
  "write_pieces i off d =
     (if d = [] then ret ()
      else bindA (mapErr (\<lambda>_. UpErrStagingUnavailable) (stg_write_at i off (take copy_buffer_size d))) (\<lambda>_.
        write_pieces i (wrap64 (off + int (length (take copy_buffer_size d)))) (drop copy_buffer_size d)))"
  by pat_completeness auto
termination by (relation "measure (\<lambda>(i, off, d). length d)") (auto simp: copy_buffer_size_def)

declare write_pieces.simps [simp del]

definition copy_part :: "uuid \<Rightarrow> int \<Rightarrow> int \<Rightarrow> body \<Rightarrow> (world, upload_err, int) act" where
  "copy_part i off expected b =
     bindA (write_pieces i off (take (nat expected) (body_data b))) (\<lambda>_.
     if length (body_data b) < nat expected \<and> body_fails b then throw UpIO
     else ret (int (length (take (nat expected) (body_data b)))))"

text \<open>\<open>acquired\<close> says whether the write semaphore was entered before the request was cancelled;
  \<open>now\<close> and \<open>later\<close> are the two readings of the clock.\<close>

definition put_part ::
    "uuid \<Rightarrow> uuid \<Rightarrow> int \<Rightarrow> int \<Rightarrow> body \<Rightarrow> bool \<Rightarrow> time \<Rightarrow> time \<Rightarrow> (world, upload_err, unit) act" where
  "put_part owner i n content_length b acquired now later =
     bindA (repo_get owner i) (\<lambda>row.
     if us_expires_at row \<le> now \<or> us_status row = Expired then throw UpErrExpired
     else if us_status row \<noteq> Created \<and> us_status row \<noteq> Uploading then throw UpErrInvalidState
     else if part_size_of row n < 0 then throw UpErrPartOutOfRange
     else if 0 \<le> content_length \<and> content_length \<noteq> part_size_of row n then throw UpErrPartSizeMismatch
     else bindA (invalidate_part i n) (\<lambda>_.
       if \<not> acquired then throw UpErrStagingUnavailable
       else bindA (mapErr (\<lambda>_. UpErrStagingUnavailable) (stg_open i)) (\<lambda>_.
         bindA (copy_part i (wrap64 (n * chunk_size row)) (part_size_of row n) b) (\<lambda>written.
         if written \<noteq> part_size_of row n then throw UpErrPartSizeMismatch
         else if nat (part_size_of row n) < length (body_data b) then throw UpErrPartSizeMismatch
         else if body_fails b then throw UpIO
         else bindA (ext UpErrStagingUnavailable (\<lambda>w. ((), w))) (\<lambda>_.
           bindA (ext UpErrStagingUnavailable (\<lambda>w. ((), w))) (\<lambda>_.
           commit_part owner i n written later))))))"

subsection \<open>Completing\<close>

fun check_parts :: "upload \<Rightarrow> int \<Rightarrow> int \<Rightarrow> part list \<Rightarrow> int option" where
  "check_parts row k tot [] = Some tot"
| "check_parts row k tot (p # ps) =
     (if part_number p \<noteq> k \<or> part_size p \<noteq> part_size_of row k then None
      else if tot > wrap64 (max_int64 - part_size p) then None
      else check_parts row (k + 1) (wrap64 (tot + part_size p)) ps)"

definition validate_complete :: "uuid \<Rightarrow> upload \<Rightarrow> part list \<Rightarrow> (world, upload_err, unit) act" where
  "validate_complete i row ps =
     bindA (mapErr (\<lambda>_. UpErrStagingCorrupt) (stg_stat i)) (\<lambda>sz.
     if sz \<noteq> expected_size row then throw UpErrStagingCorrupt
     else bindA (mapErr (\<lambda>_. UpErrStagingCorrupt) (stg_sync i)) (\<lambda>_.
       if int (length ps) \<noteq> part_count row then throw UpErrIncomplete
       else (case check_parts row 0 0 ps of
           None \<Rightarrow> throw UpErrIncomplete
         | Some tot \<Rightarrow> if tot \<noteq> expected_size row then throw UpErrIncomplete else ret ())))"

text \<open>\<open>finalizer\<close> is the optional collaborator that moves a COMPLETING upload to the store.\<close>

definition complete_upload ::
    "bool \<Rightarrow> (upload \<Rightarrow> (world, upload_err, upload) act) option \<Rightarrow> uuid \<Rightarrow> uuid \<Rightarrow> time
     \<Rightarrow> (world, upload_err, upload \<times> int list) act" where
  "complete_upload healthy finalizer owner i now =
     (if \<not> healthy then throw UpErrFinalizeRetryable
      else bindA (repo_complete owner i now (validate_complete i)) (\<lambda>row.
        bindA (case finalizer of
            Some fin \<Rightarrow> if us_status row = Completing then fin row else ret row
          | None \<Rightarrow> ret row) (\<lambda>res.
        get_upload owner (us_id res))))"


section \<open>The arithmetic of parts\<close>

text \<open>Bounds of every stored session: no intermediate result leaves 64 bits, and part numbers
  fit the 32 bits of their column.\<close>

definition upload_ok :: "upload \<Rightarrow> bool" where
  "upload_ok u \<longleftrightarrow> 0 \<le> expected_size u \<and> expected_size u \<le> 2199023255552
     \<and> 0 < chunk_size u \<and> chunk_size u \<le> 2199023255552 \<and> expected_size u < 2147483648 * chunk_size u"

lemma part_count_eq:
  assumes "upload_ok u"
  shows "part_count u = (expected_size u + chunk_size u - 1) div chunk_size u"
proof -
  have "in_int64 (expected_size u + chunk_size u)" "in_int64 (expected_size u + chunk_size u - 1)"
    using assms by (simp_all add: upload_ok_def in_int64_def)
  moreover have "0 \<le> expected_size u + chunk_size u - 1" "0 < chunk_size u"
    using assms by (simp_all add: upload_ok_def)
  ultimately show ?thesis by (simp add: part_count_def)
qed

lemma le_div_iff_mult_le: "0 < (c::int) \<Longrightarrow> k \<le> n div c \<longleftrightarrow> k * c \<le> n"
proof
  assume c: "0 < c" and "k \<le> n div c"
  then have "k * c \<le> (n div c) * c" by (simp add: mult_right_mono)
  also have "\<dots> \<le> n" using c div_mult_mod_eq [of n c] pos_mod_sign [of c n] by linarith
  finally show "k * c \<le> n" .
next
  assume c: "0 < c" and "k * c \<le> n"
  then have "k * c div c \<le> n div c" by (intro zdiv_mono1)
  with c show "k \<le> n div c" by simp
qed

lemma less_part_count:
  assumes "upload_ok u"
  shows "p < part_count u \<longleftrightarrow> p * chunk_size u < expected_size u"
proof -
  have c: "0 < chunk_size u" using assms by (simp add: upload_ok_def)
  have "p < part_count u \<longleftrightarrow> (p + 1) * chunk_size u \<le> expected_size u + chunk_size u - 1"
    unfolding part_count_eq [OF assms] le_div_iff_mult_le [OF c, symmetric] by linarith
  then show ?thesis by (simp add: distrib_right)
qed

lemma part_count_nonneg: "upload_ok u \<Longrightarrow> 0 \<le> part_count u"
  by (simp add: part_count_eq) (simp add: upload_ok_def pos_imp_zdiv_nonneg_iff)

lemma part_count_bound:
  assumes "upload_ok u"
  shows "part_count u \<le> 2147483648"
proof -
  have "\<not> 2147483648 < part_count u"
    using assms unfolding less_part_count [OF assms] by (simp add: upload_ok_def)
  then show ?thesis by simp
qed

lemma part_size_eq:
  assumes "upload_ok u"
  shows "part_size_of u p = (if 0 \<le> p \<and> p * chunk_size u < expected_size u
     then min (chunk_size u) (expected_size u - p * chunk_size u) else - 1)"
proof (cases "0 \<le> p \<and> p * chunk_size u < expected_size u")
  case True
  let ?e = "expected_size u" and ?c = "chunk_size u"
  have i: "in_int64 (p * ?c)" "in_int64 (?e - p * ?c)"
  proof -
    have "0 \<le> p * ?c" using True assms by (simp add: upload_ok_def)
    moreover have "p * ?c < ?e" "?e \<le> 2199023255552" using True assms by (simp_all add: upload_ok_def)
    ultimately show "in_int64 (p * ?c)" "in_int64 (?e - p * ?c)"
      unfolding in_int64_def by linarith+
  qed
  have "p = part_count u - 1 \<longleftrightarrow> \<not> (p + 1) * ?c < ?e"
    using less_part_count [OF assms, of p] less_part_count [OF assms, of "p + 1"] True by auto
  then show ?thesis
    using True i less_part_count [OF assms, of p] by (auto simp: part_size_of_def algebra_simps)
next
  case False
  then show ?thesis using less_part_count [OF assms, of p] by (auto simp: part_size_of_def)
qed

lemma part_size_pos: "upload_ok u \<Longrightarrow> 0 \<le> part_size_of u p \<Longrightarrow> 0 < part_size_of u p"
  by (auto simp: part_size_eq upload_ok_def split: if_splits)

lemma part_size_in_range: "upload_ok u \<Longrightarrow> 0 \<le> part_size_of u p \<longleftrightarrow> 0 \<le> p \<and> p < part_count u"
  by (auto simp: part_size_eq less_part_count upload_ok_def)

lemma to_int32_id: "- 2147483648 \<le> x \<Longrightarrow> x < 2147483648 \<Longrightarrow> to_int32 x = x"
  by (simp add: to_int32_def)

lemma to_int32_part: "upload_ok u \<Longrightarrow> 0 \<le> part_size_of u p \<Longrightarrow> to_int32 p = p"
  using part_count_bound [of u] by (auto simp: part_size_in_range intro!: to_int32_id)

text \<open>The parts of a session tile its file: their sizes add up.\<close>

lemma sum_parts:
  assumes "upload_ok u" "int n \<le> part_count u"
  shows "(\<Sum>k<n. part_size_of u (int k)) = min (int n * chunk_size u) (expected_size u)"
  using assms(2)
proof (induction n)
  case (Suc n)
  then have "int n < part_count u" by simp
  then have "int n * chunk_size u < expected_size u" using less_part_count [OF assms(1)] by simp
  with Suc show ?case by (auto simp: part_size_eq [OF assms(1)] algebra_simps)
qed (use assms(1) in \<open>simp add: upload_ok_def\<close>)

lemma sum_all_parts:
  assumes "upload_ok u"
  shows "(\<Sum>k<nat (part_count u). part_size_of u (int k)) = expected_size u"
proof -
  have "\<not> part_count u * chunk_size u < expected_size u"
    using less_part_count [OF assms, of "part_count u"] by simp
  then show ?thesis
    using sum_parts [OF assms, of "nat (part_count u)"] part_count_nonneg [OF assms] by simp
qed

section \<open>Validation of the parts\<close>

lemma check_parts_iff:
  assumes "upload_ok u" "tot = (\<Sum>j<nat k. part_size_of u (int j))" "0 \<le> k" "k + int (length ps) = part_count u"
  shows "check_parts u k tot ps = Some t \<longleftrightarrow>
    t = expected_size u \<and> (\<forall>i<length ps. part_number (ps ! i) = k + int i \<and> part_size (ps ! i) = part_size_of u (k + int i))"
  using assms(2-4)
proof (induction ps arbitrary: k tot)
  case Nil
  then show ?case using sum_all_parts [OF assms(1)] by auto
next
  case (Cons p ps)
  let ?s = "part_size_of u k"
  have k: "k < part_count u" "0 \<le> k" using Cons.prems by auto
  then have s: "0 \<le> ?s" using part_size_in_range [OF assms(1)] by simp
  have tot: "tot = min (k * chunk_size u) (expected_size u)"
    using sum_parts [OF assms(1), of "nat k"] Cons.prems by simp
  have s_le: "?s \<le> 2199023255552"
    using assms(1) s by (auto simp: part_size_eq upload_ok_def split: if_splits)
  have b: "0 \<le> tot" "tot \<le> 2199023255552"
    using tot k assms(1) by (auto simp: upload_ok_def)
  have w: "wrap64 (max_int64 - ?s) = max_int64 - ?s" "wrap64 (tot + ?s) = tot + ?s" "\<not> max_int64 - ?s < tot"
    using b s s_le by (simp_all add: in_int64_def max_int64_def)
  have next_tot: "tot + ?s = (\<Sum>j<nat (k + 1). part_size_of u (int j))"
    using k Cons.prems(1) by (simp add: nat_add_distrib)
  have IH: "check_parts u (k + 1) (tot + ?s) ps = Some t \<longleftrightarrow> t = expected_size u
     \<and> (\<forall>i<length ps. part_number (ps ! i) = k + 1 + int i \<and> part_size (ps ! i) = part_size_of u (k + 1 + int i))"
    using Cons.IH [OF next_tot] Cons.prems(2,3) by simp
  show ?case
  proof (cases "part_number p = k \<and> part_size p = ?s")
    case True
    then have "check_parts u k tot (p # ps) = check_parts u (k + 1) (tot + ?s) ps" using w by simp
    with IH True show ?thesis by (auto simp: nth_Cons add.assoc split: nat.split)
  qed (auto simp: nth_Cons)
qed


section \<open>Admission\<close>

definition limits_ok :: "upload_limits \<Rightarrow> bool" where
  "limits_ok l \<longleftrightarrow> in_int64 (max_staging l) \<and> in_int64 (min_free_bytes l)
     \<and> 0 \<le> min_free_percent l \<and> min_free_percent l \<le> 100"

definition reservation_ok :: "reservation \<Rightarrow> bool" where
  "reservation_ok r \<longleftrightarrow> 0 \<le> active_bytes r \<and> 0 \<le> active_remaining r
     \<and> in_int64 (active_bytes r) \<and> in_int64 (active_remaining r)"

lemma minimum_percent_bytes_eq:
  assumes "0 < tot" "in_int64 tot" "0 \<le> min_free_percent l" "min_free_percent l \<le> 100"
  shows "minimum_percent_bytes l tot = tot div 100 * min_free_percent l + (tot mod 100 * min_free_percent l + 99) div 100"
proof -
  let ?p = "min_free_percent l" and ?q = "tot div 100" and ?r = "tot mod 100"
  have q: "0 \<le> ?q" "100 * ?q \<le> tot" using assms(1) by simp_all
  have r: "0 \<le> ?r" "?r \<le> 99" by simp_all
  have qp: "0 \<le> ?q * ?p" "?q * ?p \<le> ?q * 100"
    using q assms(3,4) by (simp_all add: mult_left_mono)
  have rp: "0 \<le> ?r * ?p" "?r * ?p \<le> 99 * 100"
    using r assms(3,4) by (simp, intro mult_mono) simp_all
  have t: "tot \<le> 9223372036854775807" using assms(2) by (simp add: in_int64_def)
  have d: "0 \<le> (?r * ?p + 99) div 100" "(?r * ?p + 99) div 100 \<le> 100"
    using rp by (simp_all add: pos_imp_zdiv_nonneg_iff)
  have s: "?q * ?p + (?r * ?p + 99) div 100 \<le> 9223372036854775807"
  proof (cases "?p = 100")
    case True
    then have "(?r * ?p + 99) div 100 = ?r" by simp
    moreover have "?q * 100 + ?r = tot" by simp
    ultimately show ?thesis using True t by simp
  next
    case False
    with assms(4) have "?p \<le> 99" by simp
    then have "?q * ?p \<le> ?q * 99" using q by (simp add: mult_left_mono)
    moreover have "?q \<le> 92233720368547758" using q t by simp
    ultimately show ?thesis using d by linarith
  qed
  have i: "in_int64 (?q * ?p)" "in_int64 (?r * ?p)" "in_int64 (?r * ?p + 99)"
    "in_int64 (?q * ?p + (?r * ?p + 99) div 100)"
    using qp rp q t d s unfolding in_int64_def by linarith+
  show ?thesis using assms(1) rp i by (simp add: minimum_percent_bytes_def)
qed

lemma minimum_percent_iff:
  assumes "0 < tot" "in_int64 tot" "0 \<le> min_free_percent l" "min_free_percent l \<le> 100"
  shows "minimum_percent_bytes l tot \<le> x \<longleftrightarrow> tot * min_free_percent l \<le> 100 * x"
proof -
  let ?p = "min_free_percent l" and ?q = "tot div 100" and ?r = "tot mod 100"
  have "tot * ?p = 100 * (?q * ?p) + ?r * ?p"
    by (metis div_mult_mod_eq distrib_right mult.assoc mult.commute)
  moreover have "minimum_percent_bytes l tot = ?q * ?p + (?r * ?p + 99) div 100"
    by (rule minimum_percent_bytes_eq [OF assms])
  moreover have "(R + 99) div 100 \<le> y \<longleftrightarrow> R \<le> 100 * y" for R y :: int by linarith
  from this [of "?r * ?p" "x - ?q * ?p"]
  have "(?r * ?p + 99) div 100 \<le> x - ?q * ?p \<longleftrightarrow> ?r * ?p \<le> 100 * (x - ?q * ?p)" .
  ultimately show ?thesis by (simp only: right_diff_distrib) linarith
qed

lemma admit_iff:
  assumes "limits_ok l" "reservation_ok res" "0 \<le> n" "in_int64 n"
    and "in_int64 (available_bytes sp)" "in_int64 (total_bytes sp)"
  shows "admit l (Some sp) res n = None \<longleftrightarrow>
     n \<le> res_max_file res \<and> active_bytes res + n \<le> max_staging l
   \<and> 0 \<le> available_bytes sp \<and> 0 < total_bytes sp
   \<and> (let left = available_bytes sp - active_remaining res - n in
        0 \<le> left \<and> min_free_bytes l \<le> left \<and> total_bytes sp * min_free_percent l \<le> 100 * left)"
proof -
  note d = limits_ok_def reservation_ok_def in_int64_def max_int64_def
  let ?left = "available_bytes sp - active_remaining res - n"
  have 1: "wrap64 (max_staging l - n) = max_staging l - n" if "n \<le> max_staging l"
    using assms(1,3) that by (intro wrap64_id) (auto simp: d)
  have 2: "wrap64 (max_int64 - n) = max_int64 - n"
    using assms(3,4) by (intro wrap64_id) (auto simp: d)
  have 3: "wrap64 (wrap64 (available_bytes sp - active_remaining res) - n) = ?left"
    if "active_remaining res \<le> max_int64 - n" "0 \<le> available_bytes sp"
  proof -
    have "in_int64 (available_bytes sp - active_remaining res)" "in_int64 ?left"
      using assms(2-5) that by (auto simp: d)
    then show ?thesis by simp
  qed
  have 4: "active_remaining res \<le> max_int64 - n" if "0 \<le> ?left"
    using assms(5) that by (simp add: d)
  have 5: "0 < total_bytes sp \<Longrightarrow> minimum_percent_bytes l (total_bytes sp) \<le> ?left
      \<longleftrightarrow> total_bytes sp * min_free_percent l \<le> 100 * ?left"
    using assms(1,6) by (intro minimum_percent_iff) (simp_all add: limits_ok_def)
  have ab: "0 \<le> active_bytes res" using assms(2) by (simp add: reservation_ok_def)
  show ?thesis
  proof (cases "n \<le> max_staging l \<and> 0 \<le> available_bytes sp \<and> 0 < total_bytes sp \<and> active_remaining res \<le> max_int64 - n")
    case True
    with 1 2 3 5 show ?thesis
      by (auto simp: admit_def Let_def not_less not_le)
  next
    case False
    with ab 2 4 show ?thesis
      by (auto simp: admit_def Let_def not_less not_le)
  qed
qed


section \<open>The invariant of the upload tables\<close>

definition part_fits :: "db \<Rightarrow> part \<Rightarrow> bool" where
  "part_fits d p \<longleftrightarrow> (\<exists>u\<in>set (uploads d). us_id u = part_upload p
     \<and> 0 \<le> part_number p \<and> part_number p < part_count u \<and> part_size p = part_size_of u (part_number p))"

definition uploads_ok :: "db \<Rightarrow> bool" where
  "uploads_ok d \<longleftrightarrow> settings_ok d \<and> distinct (map us_id (uploads d)) \<and> (\<forall>u\<in>set (uploads d). upload_ok u)
     \<and> distinct (map (\<lambda>p. (part_upload p, part_number p)) (parts d)) \<and> (\<forall>p\<in>set (parts d). part_fits d p)"

text \<open>What the statements never change of a session.\<close>

definition same_shape :: "upload \<Rightarrow> upload \<Rightarrow> bool" where
  "same_shape u v \<longleftrightarrow> us_id v = us_id u \<and> us_user v = us_user u \<and> original_filename v = original_filename u
     \<and> expected_size v = expected_size u \<and> chunk_size v = chunk_size u"

lemma same_shape_refl [simp]: "same_shape u u" by (simp add: same_shape_def)

lemma same_shape_parts:
  "same_shape u v \<Longrightarrow> part_count v = part_count u \<and> part_size_of v = part_size_of u \<and> upload_ok v = upload_ok u"
  by (auto simp: same_shape_def part_count_def part_size_of_def upload_ok_def fun_eq_iff)

lemma same_shape_status [simp]:
  "same_shape u (u\<lparr>us_status := s, us_updated_at := t\<rparr>)" by (simp add: same_shape_def)

lemma uploads_ok_map:
  assumes "uploads_ok d" "\<And>u. same_shape u (f u)"
  shows "uploads_ok (d\<lparr>uploads := sql_update p f (uploads d)\<rparr>)"
proof -
  let ?us = "sql_update p f (uploads d)"
  have s: "same_shape u (if p u then f u else u)" for u using assms(2) by simp
  have "map us_id ?us = map us_id (uploads d)"
    using assms(2) by (intro map_key_sql_update) (simp add: same_shape_def)
  moreover have "\<forall>u\<in>set ?us. upload_ok u"
    using assms(1) same_shape_parts [OF assms(2)] by (auto simp: set_sql_update uploads_ok_def)
  moreover have "part_fits (d\<lparr>uploads := ?us\<rparr>) q" if "part_fits d q" for q
  proof -
    from that obtain u where u: "u \<in> set (uploads d)" "us_id u = part_upload q"
      "0 \<le> part_number q \<and> part_number q < part_count u \<and> part_size q = part_size_of u (part_number q)"
      by (auto simp: part_fits_def)
    let ?v = "if p u then f u else u"
    have "?v \<in> set ?us" using u(1) by (auto simp: set_sql_update)
    moreover have "us_id ?v = us_id u" using s [of u] by (simp add: same_shape_def)
    ultimately show ?thesis
      using u same_shape_parts [OF s [of u]] unfolding part_fits_def by (intro bexI [of _ ?v]) auto
  qed
  ultimately show ?thesis using assms(1) by (simp add: uploads_ok_def settings_ok_def)
qed

lemma uploads_ok_transition: "uploads_ok d \<Longrightarrow> uploads_ok (snd (transition_upload p s now d))"
  by (simp add: transition_upload_def uploads_ok_map)

lemma part_fits_parts [simp]: "part_fits (d\<lparr>parts := ps\<rparr>) p = part_fits d p"
  by (simp add: part_fits_def)

lemma uploads_ok_delete_parts:
  "uploads_ok d \<Longrightarrow> uploads_ok (d\<lparr>parts := sql_delete q (parts d)\<rparr>)"
  by (auto simp: uploads_ok_def set_sql_delete distinct_sql_delete settings_ok_def)

text \<open>A session that is known to exist with the shape of \<open>u\<close>.\<close>

definition has_session :: "upload \<Rightarrow> db \<Rightarrow> bool" where
  "has_session u d \<longleftrightarrow> uploads_ok d \<and> (\<exists>v\<in>set (uploads d). same_shape u v)"

lemma has_session_transition:
  assumes "has_session u d"
  shows "has_session u (snd (transition_upload p s now d))"
proof -
  from assms obtain v where v: "uploads_ok d" "v \<in> set (uploads d)" "same_shape u v" by (auto simp: has_session_def)
  let ?v = "if p v then v\<lparr>us_status := s, us_updated_at := now\<rparr> else v"
  have "?v \<in> set (uploads (snd (transition_upload p s now d)))"
    using v(2) by (auto simp: transition_upload_def set_sql_update)
  moreover have "same_shape u ?v" using v(3) by (simp add: same_shape_def)
  ultimately show ?thesis using uploads_ok_transition [OF v(1)] by (auto simp: has_session_def)
qed

lemma has_session_parts: "has_session u d \<Longrightarrow> uploads_ok (d\<lparr>parts := ps\<rparr>) \<Longrightarrow> has_session u (d\<lparr>parts := ps\<rparr>)"
  by (simp add: has_session_def)

lemma uploads_ok_upsert:
  assumes "has_session u d" "0 \<le> part_size_of u n" "sz = part_size_of u n"
  shows "has_session u (snd (upsert_completed_part (us_id u) n sz now d))"
proof -
  let ?k = "\<lambda>p. (part_upload p, part_number p)" and ?i = "us_id u"
  from assms(1) obtain v where v: "uploads_ok d" "v \<in> set (uploads d)" "same_shape u v" by (auto simp: has_session_def)
  have ok: "upload_ok u" using v same_shape_parts [OF v(3)] by (auto simp: uploads_ok_def)
  have fit: "part_fits d p" if "part_upload p = ?i" "part_number p = n" "part_size p = sz" for p
    using that v(2) same_shape_parts [OF v(3)] v(3) part_size_in_range [OF ok, of n] assms(2,3)
    unfolding part_fits_def by (intro bexI [of _ v]) (auto simp: same_shape_def)
  have "uploads_ok (snd (upsert_completed_part ?i n sz now d))"
  proof (cases "n < 0 \<or> sz < 0")
    case False
    show ?thesis
    proof (cases "sql_exists (\<lambda>p. part_upload p = ?i \<and> part_number p = n) (parts d)")
      case True
      have "map ?k (sql_update (\<lambda>p. part_upload p = ?i \<and> part_number p = n)
          (\<lambda>p. p\<lparr>part_size := sz, part_completed_at := now\<rparr>) (parts d)) = map ?k (parts d)"
        by (rule map_key_sql_update) simp
      then show ?thesis
        using v(1) fit False True
        by (auto simp: upsert_completed_part_def uploads_ok_def settings_ok_def set_sql_update)
    next
      case F: False
      then show ?thesis
        using v(1) fit False
        by (auto simp: upsert_completed_part_def uploads_ok_def settings_ok_def sql_exists_iff)
    qed
  qed (simp add: upsert_completed_part_def v(1))
  moreover have "uploads (snd (upsert_completed_part ?i n sz now d)) = uploads d"
    by (simp add: upsert_completed_part_def)
  ultimately show ?thesis using assms(1) by (simp add: has_session_def)
qed

lemma uploads_ok_create:
  assumes "uploads_ok d" "expected_size u \<le> 2199023255552" "chunk_size u = default_chunk_size"
  shows "uploads_ok (snd (create_upload_session u d))"
proof -
  have *: "part_fits d p \<Longrightarrow> part_fits (d\<lparr>uploads := uploads d @ [x]\<rparr>) p" for x p
    by (auto simp: part_fits_def)
  have "upload_ok (u\<lparr>us_status := s, us_updated_at := t, file_object_id := None, completed_at := None,
      consumed_at := None, consumed_message_id := None\<rparr>)" if "0 \<le> expected_size u" for s t
    using assms(2,3) that by (simp add: upload_ok_def default_chunk_size_def)
  with assms(1) * show ?thesis
    by (auto simp: create_upload_session_def uploads_ok_def sql_exists_iff settings_ok_def)
qed

section \<open>Every operation keeps the invariant\<close>

lemma owned_upload_SomeD: "owned_upload owner i d = Some u \<Longrightarrow> u \<in> set (uploads d) \<and> us_id u = i \<and> us_user u = owner"
  by (auto simp: owned_upload_def split: option.splits if_splits dest!: by_key_SomeD)

lemma keeps_repo_get [keeps_intro]: "keeps (on_db J) (repo_get owner i)"
  unfolding repo_get_def by (intro keeps_intro)

lemma keeps_commit_part_tx:
  assumes "0 \<le> part_size_of u n" "us_id u = i" "upload_ok u"
  shows "keeps (on_db (has_session u)) (commit_part_tx owner i n (part_size_of u n) now)"
  unfolding commit_part_tx_def to_int32_part [OF assms(3,1)] assms(2) [symmetric]
  by (intro keeps_intro uploads_ok_upsert has_session_transition) (simp_all add: assms)

lemma keeps_write_pieces [keeps_intro]: "keeps (on_db J) (write_pieces i off d)"
proof (induction i off d rule: write_pieces.induct)
  case (1 i off d)
  then show ?case
    by (subst write_pieces.simps) (intro keeps_intro; simp)
qed

lemma keeps_copy_part [keeps_intro]: "keeps (on_db J) (copy_part i off n b)"
  unfolding copy_part_def by (intro keeps_intro)

lemma keeps_invalidate: "keeps (on_db (has_session u)) (invalidate_part i n)"
  unfolding invalidate_part_def
  by (intro keeps_exec) (auto simp: has_session_def uploads_ok_delete_parts)

lemma repo_get_result:
  "repo_get owner i w = (r, w') \<Longrightarrow> wdb w' = wdb w \<and> (\<forall>u. r = Inr u \<longrightarrow> owned_upload owner i (wdb w) = Some u)"
  by (auto simp: repo_get_def bindA_run ret_run throw_run dest: query_result
      split: sum.splits prod.splits option.splits)

lemma owned_has_session:
  "uploads_ok d \<Longrightarrow> owned_upload owner i d = Some u \<Longrightarrow> has_session u d \<and> upload_ok u \<and> us_id u = i"
  by (auto simp: has_session_def uploads_ok_def dest!: owned_upload_SomeD intro: same_shape_refl)

lemma keeps_collect_each [keeps_intro]: "(\<And>x. keeps I (f x)) \<Longrightarrow> keeps I (collect_each xs f)"
  by (induction xs) (auto intro!: keeps_intro)

lemma keeps_reconcile_each [keeps_intro]: "keeps (on_db J) (reconcile_each is active limit k)"
  by (induction "is" active limit k rule: reconcile_each.induct) (auto intro!: keeps_intro)

lemma keeps_put_part: "keeps (on_db uploads_ok) (put_part owner i n cl b acq now later)"
proof (rule keepsI)
  fix w assume w: "on_db uploads_ok w"
  obtain r w1 where g: "repo_get owner i w = (r, w1)" by fastforce
  note g' = repo_get_result [OF g]
  show "on_db uploads_ok (snd (put_part owner i n cl b acq now later w))"
  proof (cases r)
    case (Inl e)
    then show ?thesis using g g' w by (simp add: put_part_def bindA_run on_db_def)
  next
    case (Inr row)
    with g' w owned_has_session [of "wdb w" owner i row]
    have row: "on_db (has_session row) w1" "upload_ok row" "us_id row = i" by (simp_all add: on_db_def)
    let ?rest = "if us_expires_at row \<le> now \<or> us_status row = Expired then throw UpErrExpired
     else if us_status row \<noteq> Created \<and> us_status row \<noteq> Uploading then throw UpErrInvalidState
     else if part_size_of row n < 0 then throw UpErrPartOutOfRange
     else if 0 \<le> cl \<and> cl \<noteq> part_size_of row n then throw UpErrPartSizeMismatch
     else bindA (invalidate_part i n) (\<lambda>_.
       if \<not> acq then throw UpErrStagingUnavailable
       else bindA (mapErr (\<lambda>_. UpErrStagingUnavailable) (stg_open i)) (\<lambda>_.
         bindA (copy_part i (wrap64 (n * chunk_size row)) (part_size_of row n) b) (\<lambda>written.
         if written \<noteq> part_size_of row n then throw UpErrPartSizeMismatch
         else if nat (part_size_of row n) < length (body_data b) then throw UpErrPartSizeMismatch
         else if body_fails b then throw UpIO
         else bindA (ext UpErrStagingUnavailable (\<lambda>w. ((), w))) (\<lambda>_.
           bindA (ext UpErrStagingUnavailable (\<lambda>w. ((), w))) (\<lambda>_.
           commit_part owner i n written later)))))"
    have "keeps (on_db (has_session row)) ?rest"
      by (intro keeps_intro keeps_invalidate keeps_ext_files)
        (auto simp: commit_part_def row intro!: keeps_in_tx keeps_commit_part_tx)
    moreover have "put_part owner i n cl b acq now later w = ?rest w1"
      using g Inr by (simp add: put_part_def bindA_run)
    ultimately show ?thesis
      using row(1) by (auto simp: keeps_def on_db_def has_session_def)
  qed
qed

lemma keeps_expire: "keeps (on_db uploads_ok) (expire_due_uploads batch now)"
proof -
  show ?thesis
    unfolding expire_due_uploads_def find_due_active_uploads_def find_expired_cleanup_candidates_def
      reconcile_staging_def active_upload_ids_def delete_parts_def mark_expired_def mark_expired_tx_def
    by (intro keeps_intro uploads_ok_transition)
      (auto simp: uploads_ok_delete_parts)
qed

lemma keeps_create_body:
  assumes "res_max_file res \<le> 2199023255552"
  shows "keeps (on_db uploads_ok) (create_body l probe i owner cmd now res)"
proof (cases "admit l probe res (cmd_size cmd)")
  case None
  then have "cmd_size cmd \<le> 2199023255552"
    using assms by (auto simp: admit_def split: if_splits)
  then have "keeps (on_db uploads_ok) (insert_session (new_session i owner cmd h now))" for h
    unfolding insert_session_def
    by (intro keeps_intro uploads_ok_create) (simp_all add: new_session_def)
  then show ?thesis
    using None unfolding create_body_def by (simp, intro keeps_intro)
qed (simp add: create_body_def keeps_intro)

lemma keeps_create_upload: "keeps (on_db uploads_ok) (create_upload l probe owner cmd now)"
proof -
  have lim: "uploads_ok d \<Longrightarrow> max_file_size_bytes (sys_settings d) \<le> 2199023255552" for d
    by (auto simp: uploads_ok_def settings_ok_def settings_validate_def)
  have "keeps (on_db uploads_ok) (with_create_reservation eb ec (create_body l probe i owner cmd now))" for eb ec i
    unfolding with_create_reservation_def
  proof (intro keeps_in_tx keeps_bindA [OF keeps_exec] keeps_query_bind)
    fix w r w' assume J: "uploads_ok (wdb w)" and
      run: "bindA (query eb active_upload_reservation) (\<lambda>active. bindA (query eb active_upload_remaining)
         (\<lambda>remaining. bindA (create_body l probe i owner cmd now
            \<lparr>res_max_file = fst (max_file_size_bytes (sys_settings (wdb w)), upload_retention_hours (sys_settings (wdb w))),
             res_retention_hours = snd (max_file_size_bytes (sys_settings (wdb w)), upload_retention_hours (sys_settings (wdb w))),
             active_bytes = active, active_remaining = remaining\<rparr>) commit_tx)) w = (r, w')"
    have "keeps (on_db uploads_ok) (bindA (query eb active_upload_reservation) (\<lambda>active. bindA (query eb active_upload_remaining)
         (\<lambda>remaining. bindA (create_body l probe i owner cmd now
            \<lparr>res_max_file = fst (max_file_size_bytes (sys_settings (wdb w)), upload_retention_hours (sys_settings (wdb w))),
             res_retention_hours = snd (max_file_size_bytes (sys_settings (wdb w)), upload_retention_hours (sys_settings (wdb w))),
             active_bytes = active, active_remaining = remaining\<rparr>) commit_tx)))"
      by (intro keeps_intro keeps_create_body) (simp add: lim J)
    from keepsD [OF this _ run] J show "uploads_ok (wdb w')" by (simp add: on_db_def)
  qed simp
  then show ?thesis
    unfolding create_upload_def by (intro keeps_intro keeps_expire)
qed

lemma keeps_validate [keeps_intro]: "keeps (on_db J) (validate_complete i row ps)"
  unfolding validate_complete_def by (intro keeps_intro)

lemma keeps_get_upload [keeps_intro]: "keeps (on_db J) (get_upload owner i)"
  unfolding get_upload_def repo_list_parts_def by (intro keeps_intro)

lemma keeps_complete_upload:
  assumes "\<And>fin row. finalizer = Some fin \<Longrightarrow> keeps (on_db uploads_ok) (fin row)"
  shows "keeps (on_db uploads_ok) (complete_upload healthy finalizer owner i now)"
  unfolding complete_upload_def repo_complete_def repo_complete_tx_def
  by (intro keeps_intro uploads_ok_transition assms)


section \<open>The life cycle of a session\<close>

inductive upload_step :: "upload_status \<Rightarrow> upload_status \<Rightarrow> bool" where
  first_part: "upload_step Created Uploading"
| next_part: "upload_step Uploading Uploading"
| completing: "writable st \<Longrightarrow> upload_step st Completing"
| completed: "upload_step Completing Completed"
| failed: "upload_step Completing Failed"
| expired: "expirable st \<Longrightarrow> upload_step st Expired"

inductive_cases stepE: "upload_step st st'"
inductive_simps step_from: "upload_step Completed st'" "upload_step Expired st'"

lemma terminal: "upload_step\<^sup>*\<^sup>* st st' \<Longrightarrow> st \<in> {Completed, Expired} \<Longrightarrow> st' = st"
  by (induction rule: rtranclp_induct) (auto elim!: stepE simp: writable_def expirable_def)

text \<open>\<open>evolves d0 d\<close>: every session of \<open>d0\<close> is still there, with its shape, and its status has
  only moved along the life cycle.\<close>

definition evolves :: "db \<Rightarrow> db \<Rightarrow> bool" where
  "evolves d0 d \<longleftrightarrow> (\<forall>u\<in>set (uploads d0). \<exists>v\<in>set (uploads d). same_shape u v \<and> upload_step\<^sup>*\<^sup>* (us_status u) (us_status v))"

lemma evolves_refl: "evolves d d" by (force simp: evolves_def)

lemma evolves_cong [simp]:
  "evolves d0 (d\<lparr>parts := x\<rparr>) = evolves d0 d" "evolves d0 (d\<lparr>file_objects := y\<rparr>) = evolves d0 d"
  "evolves d0 (d\<lparr>sys_settings := z\<rparr>) = evolves d0 d"
  by (simp_all add: evolves_def)

lemma evolves_map:
  assumes "evolves d0 d"
    and "\<And>u. p u \<Longrightarrow> same_shape u (f u) \<and> upload_step (us_status u) (us_status (f u))"
  shows "evolves d0 (d\<lparr>uploads := sql_update p f (uploads d)\<rparr>)"
  unfolding evolves_def
proof
  fix u assume "u \<in> set (uploads d0)"
  with assms(1) obtain v where v: "v \<in> set (uploads d)" "same_shape u v" "upload_step\<^sup>*\<^sup>* (us_status u) (us_status v)"
    by (auto simp: evolves_def)
  let ?v = "if p v then f v else v"
  have "?v \<in> set (sql_update p f (uploads d))" using v(1) by (auto simp: set_sql_update)
  moreover have "same_shape u ?v" using v(2) assms(2) [of v] by (auto simp: same_shape_def)
  moreover have "upload_step\<^sup>*\<^sup>* (us_status u) (us_status ?v)"
    using v(3) assms(2) [of v] by (auto intro: rtranclp.rtrancl_into_rtrancl)
  ultimately show "\<exists>v\<in>set (uploads (d\<lparr>uploads := sql_update p f (uploads d)\<rparr>)).
      same_shape u v \<and> upload_step\<^sup>*\<^sup>* (us_status u) (us_status v)" by auto
qed

lemma evolves_transition:
  "evolves d0 d \<Longrightarrow> (\<And>u. p u \<Longrightarrow> upload_step (us_status u) s) \<Longrightarrow> evolves d0 (snd (transition_upload p s now d))"
  by (simp add: transition_upload_def evolves_map)

lemma to_uploading: "writable st \<Longrightarrow> upload_step st Uploading"
  by (auto simp: writable_def intro: upload_step.intros)

lemma evolves_create: "evolves d0 d \<Longrightarrow> evolves d0 (snd (create_upload_session u d))"
  by (auto simp: evolves_def create_upload_session_def)

lemma evolves_upsert [simp]: "evolves d0 (snd (upsert_completed_part i n sz now d)) = evolves d0 d"
  by (simp add: upsert_completed_part_def)

lemma evolves_ops:
  shows "keeps (on_db (evolves d0)) (put_part owner i n cl b acq now later)"
    and "keeps (on_db (evolves d0)) (expire_due_uploads batch now)"
    and "keeps (on_db (evolves d0)) (create_upload l probe owner cmd now)"
    and "(\<And>fin row. finalizer = Some fin \<Longrightarrow> keeps (on_db (evolves d0)) (fin row)) \<Longrightarrow>
       keeps (on_db (evolves d0)) (complete_upload healthy finalizer owner i now)"
proof -
  show "keeps (on_db (evolves d0)) (put_part owner i n cl b acq now later)"
    unfolding put_part_def invalidate_part_def commit_part_def commit_part_tx_def
    by (intro keeps_intro keeps_ext_files evolves_transition) (auto intro: to_uploading)
  show ex: "keeps (on_db (evolves d0)) (expire_due_uploads batch now)" for batch now
    unfolding expire_due_uploads_def find_due_active_uploads_def find_expired_cleanup_candidates_def
      reconcile_staging_def active_upload_ids_def delete_parts_def mark_expired_def mark_expired_tx_def
    by (intro keeps_intro evolves_transition) (auto intro: upload_step.intros)
  show "keeps (on_db (evolves d0)) (create_upload l probe owner cmd now)"
    unfolding create_upload_def with_create_reservation_def create_body_def insert_session_def
    by (intro keeps_intro ex evolves_create) simp
  show "keeps (on_db (evolves d0)) (complete_upload healthy finalizer owner i now)"
    if "\<And>fin row. finalizer = Some fin \<Longrightarrow> keeps (on_db (evolves d0)) (fin row)"
    unfolding complete_upload_def repo_complete_def repo_complete_tx_def
    by (intro keeps_intro evolves_transition that) (auto intro: upload_step.intros)
qed

section \<open>Cleanup never touches a live upload\<close>

definition live :: "upload list \<Rightarrow> uuid \<Rightarrow> bool" where
  "live us i \<longleftrightarrow> (\<exists>u\<in>set us. us_id u = i \<and> occupies_staging (us_status u))"

text \<open>The files of sessions that are live in \<open>us\<close> are as in \<open>g\<close>, and the sessions are \<open>us\<close>.\<close>

definition files_kept :: "upload list \<Rightarrow> (uuid \<Rightarrow> bytes option) \<Rightarrow> world \<Rightarrow> bool" where
  "files_kept us g w \<longleftrightarrow> uploads (wdb w) = us \<and> (\<forall>i. live us i \<longrightarrow> blob_get i (staging w) = g i)"

lemma files_kept_query [keeps_intro]: "keeps (files_kept us g) (query e q)"
  unfolding query_def by (rule keeps_ext) (simp_all add: files_kept_def)

lemma files_kept_delete: "\<not> live us i \<Longrightarrow> keeps (files_kept us g) (stg_delete i)"
  unfolding stg_delete_def stg_path_def
  by (intro keeps_intro keeps_ext) (auto simp: files_kept_def blob_get_del)

lemma files_kept_delete_parts: "keeps (files_kept us g) (delete_parts i)"
  unfolding delete_parts_def exec_def by (rule keeps_ext) (simp_all add: files_kept_def)

lemma files_kept_owned: "keeps (files_kept us g) owned_files"
  unfolding owned_files_def by (rule keeps_ext) (simp_all add: files_kept_def)

lemma files_kept_query_bind:
  assumes "\<And>d. uploads d = us \<Longrightarrow> keeps (files_kept us g) (f (q d))"
  shows "keeps (files_kept us g) (bindA (query e q) f)"
proof (rule keepsI)
  fix w assume k: "files_kept us g w"
  obtain r w1 where q: "query e q w = (r, w1)" by fastforce
  from keepsD [OF files_kept_query k q] have k1: "files_kept us g w1" .
  show "files_kept us g (snd (bindA (query e q) f w))"
  proof (cases r)
    case (Inr x)
    with query_result [OF q] k assms [of "wdb w"] have "keeps (files_kept us g) (f x)"
      by (auto simp: files_kept_def)
    with k1 q Inr show ?thesis by (auto simp: bindA_run keeps_def)
  qed (use k1 q in \<open>simp add: bindA_run\<close>)
qed

lemma files_kept_collect:
  "\<forall>x\<in>set xs. keeps (files_kept us g) (f x) \<Longrightarrow> keeps (files_kept us g) (collect_each xs f)"
  by (induction xs) (auto intro!: keeps_intro)

lemma files_kept_reconcile_each:
  "\<forall>i\<in>set is. i \<notin> set active \<longrightarrow> \<not> live us i \<Longrightarrow> keeps (files_kept us g) (reconcile_each is active limit k)"
  by (induction "is" active limit k rule: reconcile_each.induct)
    (auto intro!: keeps_intro files_kept_delete)

lemma files_kept_reconcile: "keeps (files_kept us g) (reconcile_staging limit)"
proof -
  have "keeps (files_kept us g) (bindA (active_upload_ids is) (\<lambda>active. reconcile_each is active limit 0))" for "is"
  proof (cases "is = []")
    case False
    then show ?thesis
      unfolding active_upload_ids_def
      by (simp, intro files_kept_query_bind files_kept_reconcile_each) (auto simp: live_def)
  qed (auto simp: active_upload_ids_def intro!: keeps_intro)
  note step = this
  show ?thesis
    unfolding reconcile_staging_def by (rule keeps_bindA [OF _ step]) (intro keeps_mapErr files_kept_owned)
qed

lemma files_kept_cleanup:
  assumes "distinct (map us_id us)"
  shows "keeps (files_kept us g) (bindA find_expired_cleanup_candidates (\<lambda>cs.
    collect_each cs (\<lambda>i. bindA (mapErr (\<lambda>_. UpErrStagingUnavailable) (stg_delete i)) (\<lambda>_. delete_parts i))))"
  unfolding find_expired_cleanup_candidates_def
proof (rule files_kept_query_bind, rule files_kept_collect, rule ballI)
  fix d i assume us: "uploads d = us"
    and i: "i \<in> set (map us_id (sort_key (\<lambda>u. (us_expires_at u, us_id u)) (filter (expired_with_parts d) (uploads d))))"
  from i us obtain u where u: "u \<in> set us" "us_id u = i" "us_status u = Expired"
    by (auto simp: expired_with_parts_def)
  have "\<not> live us i"
  proof
    assume "live us i"
    then obtain v where "v \<in> set us" "us_id v = i" "occupies_staging (us_status v)" by (auto simp: live_def)
    with u assms have "v = u" by (auto simp: distinct_map inj_on_def)
    with u(3) \<open>occupies_staging (us_status v)\<close> show False by (simp add: occupies_staging_def)
  qed
  then show "keeps (files_kept us g) (bindA (mapErr (\<lambda>_. UpErrStagingUnavailable) (stg_delete i)) (\<lambda>_. delete_parts i))"
    by (intro keeps_intro files_kept_delete files_kept_delete_parts)
qed

lemma off_db_mark: "keeps (off_db K) (bindA (find_due_active_uploads now n) (\<lambda>due. collect_each due (\<lambda>i. mark_expired i now)))"
  unfolding find_due_active_uploads_def mark_expired_def mark_expired_tx_def
  by (intro keeps_intro)

lemma expire_spares_live:
  assumes "uploads_ok (wdb w)" "expire_due_uploads batch now w = (r, w')" "live (uploads (wdb w')) i"
  shows "blob_get i (staging w') = blob_get i (staging w)"
proof (cases "batch \<le> 0")
  case True
  with assms show ?thesis by (simp add: expire_due_uploads_def ret_run)
next
  case False
  let ?m1 = "bindA (find_due_active_uploads now (nat batch)) (\<lambda>due. collect_each due (\<lambda>i. mark_expired i now))"
  let ?m2 = "bindA find_expired_cleanup_candidates (\<lambda>cs.
    collect_each cs (\<lambda>i. bindA (mapErr (\<lambda>_. UpErrStagingUnavailable) (stg_delete i)) (\<lambda>_. delete_parts i)))"
  obtain r1 w1 where m1: "?m1 w = (r1, w1)" by fastforce
  obtain r2 w2 where m2: "?m2 w1 = (r2, w2)" by fastforce
  obtain r3 w3 where m3: "reconcile_staging batch w2 = (r3, w3)" by fastforce
  have w': "w' = w3"
    using assms(2) False m1 m2 m3 by (simp add: expire_due_uploads_def bindA_run tryA_run ret_run)
  have s1: "staging w1 = staging w"
    using keepsD [OF off_db_mark [where K = "\<lambda>s _. s = staging w"] _ m1] by (simp add: off_db_def)
  have ok1: "uploads_ok (wdb w1)"
  proof -
    have "keeps (on_db uploads_ok) ?m1"
      unfolding find_due_active_uploads_def mark_expired_def mark_expired_tx_def
      by (intro keeps_intro uploads_ok_transition)
    from keepsD [OF this _ m1] assms(1) show ?thesis by (simp add: on_db_def)
  qed
  let ?us = "uploads (wdb w1)" and ?g = "\<lambda>i. blob_get i (staging w)"
  have "files_kept ?us ?g w1" by (simp add: files_kept_def s1)
  then have "files_kept ?us ?g w2"
    using files_kept_cleanup m2 ok1 by (auto simp: uploads_ok_def intro: keepsD)
  with keepsD [OF files_kept_reconcile _ m3] have "files_kept ?us ?g w3" by blast
  with assms(3) w' show ?thesis by (simp add: files_kept_def)
qed


section \<open>Uploading a file part by part\<close>

lemma owned_upload_iff: "owned_upload owner i d = Some u \<longleftrightarrow> by_key us_id i (uploads d) = Some u \<and> us_user u = owner"
  by (auto simp: owned_upload_def split: option.split)

lemma write_pieces_quiet:
  assumes "quiet w" "blob_get i (staging w) = Some f" "0 \<le> off" "nat off + length d \<le> length f"
    and "int (length f) \<le> 2199023255552" "i \<noteq> uuid_nil"
  shows "\<exists>s. write_pieces i off d w = (Inr (), w\<lparr>staging := s\<rparr>)
     \<and> (\<forall>k. blob_get k s = (if k = i then Some (write_at (nat off) d f) else blob_get k (staging w)))"
  using assms(1-5)
proof (induction i off d arbitrary: w f rule: write_pieces.induct)
  case (1 i off d)
  note prems = "1.prems"
  show ?case
  proof (cases "d = []")
    case True
    then have "write_pieces i off d w = (Inr (), w\<lparr>staging := staging w\<rparr>)"
      by (subst write_pieces.simps) (simp add: ret_run)
    then show ?thesis
      using prems(2,4) True by (intro exI [of _ "staging w"]) (auto simp: write_at_Nil)
  next
    case False
    let ?h = "take copy_buffer_size d" and ?t = "drop copy_buffer_size d"
    let ?w = "w\<lparr>staging := blob_put_at i (nat off) ?h (staging w)\<rparr>"
    let ?off = "off + int (length ?h)" and ?f = "write_at (nat off) ?h f"
    have h: "length ?h + length ?t = length d" by simp
    have off: "wrap64 ?off = ?off"
      using prems(3-5) h by (intro wrap64_id) (auto simp: in_int64_def)
    have lf: "length ?f = length f" using prems(4) h by (intro length_write_at_inside) simp
    have w: "stg_write_at i off ?h w = (Inr (), ?w)"
      by (simp add: stg_write_at_def ext_quiet prems(1))
    have g: "blob_get i (staging ?w) = Some ?f"
      by (simp add: blobs.get_put_at prems(2))
    have step: "write_pieces i off d w = write_pieces i ?off ?t ?w"
      by (subst write_pieces.simps) (simp add: False bindA_run mapErr_run w off [simplified])
    have "\<exists>s. write_pieces i (wrap64 ?off) ?t ?w = (Inr (), ?w\<lparr>staging := s\<rparr>)
       \<and> (\<forall>k. blob_get k s = (if k = i then Some (write_at (nat (wrap64 ?off)) ?t ?f) else blob_get k (staging ?w)))"
      by (rule "1.IH" [OF False]) (use prems lf h off g in \<open>simp_all add: nat_add_distrib\<close>)
    then obtain s where s: "write_pieces i ?off ?t ?w = (Inr (), ?w\<lparr>staging := s\<rparr>)"
      "\<forall>k. blob_get k s = (if k = i then Some (write_at (nat ?off) ?t ?f) else blob_get k (staging ?w))"
      using off by auto
    have "write_at (nat ?off) ?t ?f = write_at (nat off) d f"
      using write_at_append [of "nat off" ?h ?t f] prems(3,4) h by (simp add: nat_add_distrib)
    then show ?thesis
      using s step by (intro exI [of _ s]) (auto simp: blobs.get_put_at)
  qed
qed

lemma commit_part_quiet:
  assumes "quiet w" "owned_upload owner i (wdb w) = Some v" "writable (us_status v)" "now < us_expires_at v"
    and "0 \<le> n" "n < 2147483648" "0 \<le> sz"
  shows "commit_part owner i n sz now w = (Inr (), w\<lparr>wdb := snd (transition_upload
     (\<lambda>u. us_id u = i \<and> us_user u = owner \<and> writable (us_status u)) Uploading now
     (snd (upsert_completed_part i n sz now (wdb w))))\<rparr>)"
proof -
  have "us_status v \<noteq> Expired" "us_status v = Created \<or> us_status v = Uploading"
    using assms(3) by (auto simp: writable_def)
  moreover have "to_int32 n = n" using assms(5,6) by (intro to_int32_id) simp_all
  moreover have "fst (upsert_completed_part i n sz now (wdb w))"
    using assms(5,7) by (simp add: upsert_completed_part_def)
  ultimately show ?thesis
    using assms(1,2,4)
    by (auto simp: commit_part_def commit_part_tx_def in_tx_quiet bindA_run query_quiet exec_quiet
        commit_tx_def ret_run pop_fault_quiet)
qed

text \<open>An upload of \<open>data\<close> of which the parts \<open>S\<close> have been written.\<close>

definition progress :: "upload \<Rightarrow> bytes \<Rightarrow> nat set \<Rightarrow> world \<Rightarrow> bool" where
  "progress u data S w \<longleftrightarrow> quiet w \<and> uploads_ok (wdb w) \<and> us_id u \<noteq> uuid_nil \<and> upload_ok u
     \<and> expected_size u = int (length data)
     \<and> (\<exists>v. owned_upload (us_user u) (us_id u) (wdb w) = Some v \<and> same_shape u v
          \<and> us_expires_at v = us_expires_at u \<and> writable (us_status v))
     \<and> (\<exists>f. blob_get (us_id u) (staging w) = Some f \<and> length f = length data
          \<and> (\<forall>p\<in>S. same_part (nat (chunk_size u)) data p f))
     \<and> part_number ` {p \<in> set (parts (wdb w)). part_upload p = us_id u} = int ` S
     \<and> (\<forall>p\<in>S. int p * chunk_size u < expected_size u)"

lemma part_bounds:
  assumes "upload_ok u" "expected_size u = int (length data)" "int p * chunk_size u < expected_size u"
  shows "p * nat (chunk_size u) < length data"
    and "part_size_of u (int p) = int (part_len (nat (chunk_size u)) (length data) p)"
    and "length (part_of (nat (chunk_size u)) data p) = part_len (nat (chunk_size u)) (length data) p"
    and "part_len (nat (chunk_size u)) (length data) p > 0"
    and "int p < 2147483648"
proof -
  let ?c = "nat (chunk_size u)"
  have c: "chunk_size u = int ?c" "0 < ?c" using assms(1) by (simp_all add: upload_ok_def)
  have "int (p * ?c) < int (length data)" using assms(2,3) c by simp
  then show p: "p * ?c < length data" by linarith
  then show "0 < part_len ?c (length data) p" using c by (simp add: part_len_def)
  show "length (part_of ?c data p) = part_len ?c (length data) p" by (rule length_part_of [OF p])
  have "int (length data) - int p * int ?c = int (length data - p * ?c)" using p by (simp add: of_nat_diff)
  moreover have "part_size_of u (int p) = min (int ?c) (int (length data) - int p * int ?c)"
    using assms(2,3) c(1) by (simp add: part_size_eq [OF assms(1)])
  ultimately show "part_size_of u (int p) = int (part_len ?c (length data) p)"
    by (simp add: part_len_def of_nat_min)
  show "int p < 2147483648"
    using less_part_count [OF assms(1), of "int p"] part_count_bound [OF assms(1)] assms(3) by simp
qed

lemma put_part_progress:
  assumes pr: "progress u data S w" and p: "int p * chunk_size u < expected_size u"
    and now: "now < us_expires_at u" "later < us_expires_at u"
    and cl: "cl < 0 \<or> cl = part_size_of u (int p)"
    and b: "body_data b = part_of (nat (chunk_size u)) data p" "\<not> body_fails b"
  shows "\<exists>w'. put_part (us_user u) (us_id u) (int p) cl b True now later w = (Inr (), w') \<and> progress u data (insert p S) w'"
proof -
  let ?i = "us_id u" and ?o = "us_user u" and ?c = "nat (chunk_size u)" and ?n = "int p"
  from pr obtain v f where q: "quiet w" "uploads_ok (wdb w)" "?i \<noteq> uuid_nil" "upload_ok u"
      "expected_size u = int (length data)"
    and v: "owned_upload ?o ?i (wdb w) = Some v" "same_shape u v" "us_expires_at v = us_expires_at u"
      "writable (us_status v)"
    and f: "blob_get ?i (staging w) = Some f" "length f = length data" "\<forall>p\<in>S. same_part ?c data p f"
    and ps: "part_number ` {p \<in> set (parts (wdb w)). part_upload p = ?i} = int ` S"
    and S: "\<forall>p\<in>S. int p * chunk_size u < expected_size u"
    by (auto simp: progress_def)
  note pb = part_bounds [OF q(4,5) p]
  note shape = same_shape_parts [OF v(2)]
  have c: "chunk_size v = chunk_size u" "int ?c = chunk_size u" using v(2) q(4) by (simp_all add: same_shape_def upload_ok_def)
  have st: "us_status v \<noteq> Expired" "us_status v = Created \<or> us_status v = Uploading"
    using v(4) by (auto simp: writable_def)
  let ?d1 = "(wdb w)\<lparr>parts := sql_delete (\<lambda>q. part_upload q = ?i \<and> part_number q = ?n) (parts (wdb w))\<rparr>"
  let ?w1 = "w\<lparr>wdb := ?d1\<rparr>"
  have n32: "to_int32 ?n = ?n" using pb(5) by (intro to_int32_id) simp_all
  have off: "wrap64 (?n * chunk_size v) = ?n * chunk_size u"
  proof -
    have "0 \<le> ?n * chunk_size u" "?n * chunk_size u \<le> 2199023255552" using p q(4) by (auto simp: upload_ok_def)
    then have "in_int64 (?n * chunk_size u)" by (simp add: in_int64_def)
    then show ?thesis using c(1) by simp
  qed
  have nat_off: "nat (?n * chunk_size u) = p * ?c" using c by (metis nat_int of_nat_mult)
  have lenf: "int (length f) \<le> 2199023255552" using q(4,5) f(2) by (simp add: upload_ok_def)
  have fit: "nat (?n * chunk_size u) + length (body_data b) \<le> length f"
    unfolding nat_off b(1) pb(3) f(2) by (rule part_inside [OF pb(1)])
  have "0 \<le> ?n * chunk_size u" using q(4) by (simp add: upload_ok_def)
  from write_pieces_quiet [of ?w1 ?i f "?n * chunk_size u" "body_data b"] this fit lenf q(1,3) f(1)
  obtain s where s: "write_pieces ?i (?n * chunk_size u) (body_data b) ?w1 = (Inr (), ?w1\<lparr>staging := s\<rparr>)"
    "\<forall>k. blob_get k s = (if k = ?i then Some (write_at (nat (?n * chunk_size u)) (body_data b) f) else blob_get k (staging ?w1))"
    by auto
  let ?sz = "part_size_of u ?n"
  have sz: "?sz = int (length (body_data b))" "0 < ?sz" using b(1) pb by simp_all
  have copy: "copy_part ?i (?n * chunk_size u) ?sz b ?w1 = (Inr ?sz, ?w1\<lparr>staging := s\<rparr>)"
    using s(1) b(2) sz by (simp add: copy_part_def bindA_run ret_run)
  let ?w2 = "?w1\<lparr>staging := s\<rparr>"
  have ow: "owned_upload ?o ?i ?d1 = Some v" using v(1) by (simp add: owned_upload_def)
  let ?d2 = "snd (upsert_completed_part ?i ?n ?sz later ?d1)"
  let ?P = "\<lambda>x. us_id x = ?i \<and> us_user x = ?o \<and> writable (us_status x)"
  let ?d3 = "snd (transition_upload ?P Uploading later ?d2)"
  have com: "commit_part ?o ?i ?n ?sz later ?w2 = (Inr (), ?w2\<lparr>wdb := ?d3\<rparr>)"
    using commit_part_quiet [of ?w2 ?o ?i v later ?n ?sz] q(1) ow v now pb(5) sz by simp
  let ?w3 = "?w2\<lparr>wdb := ?d3\<rparr>"
  have run: "put_part ?o ?i ?n cl b True now later w = (Inr (), ?w3)"
  proof -
    have g: "repo_get ?o ?i w = (Inr v, w)"
      by (simp add: repo_get_def bindA_run query_quiet q(1) v(1) ret_run)
    have inv: "invalidate_part ?i ?n w = (Inr (), ?w1)"
      by (simp add: invalidate_part_def exec_quiet q(1) n32)
    have op: "stg_open ?i ?w1 = (Inr (), ?w1)"
      using staging_quiet(1) [of ?w1 ?i] q(1,3) f(1) by simp
    have conds: "(us_expires_at v \<le> now \<or> us_status v = Expired) = False"
      "(us_status v \<noteq> Created \<and> us_status v \<noteq> Uploading) = False"
      "(part_size_of v ?n < 0) = False" "(0 \<le> cl \<and> cl \<noteq> part_size_of v ?n) = False"
      "(nat (part_size_of v ?n) < length (body_data b)) = False"
      using now v(3) st cl sz shape by auto
    have copy': "copy_part ?i (wrap64 (?n * chunk_size v)) (part_size_of v ?n) b ?w1 = (Inr (part_size_of v ?n), ?w2)"
      using copy off shape by simp
    have com': "commit_part ?o ?i ?n (part_size_of v ?n) later ?w2 = (Inr (), ?w2\<lparr>wdb := ?d3\<rparr>)"
      using com shape by simp
    have close: "ext UpErrStagingUnavailable (\<lambda>w. ((), w)) ?w2 = (Inr (), ?w2)"
      using q(1) by (simp add: ext_quiet)
    have "put_part ?o ?i ?n cl b True now later w
        = bindA (copy_part ?i (wrap64 (?n * chunk_size v)) (part_size_of v ?n) b) (\<lambda>written.
         if written \<noteq> part_size_of v ?n then throw UpErrPartSizeMismatch
         else if nat (part_size_of v ?n) < length (body_data b) then throw UpErrPartSizeMismatch
         else if body_fails b then throw UpIO
         else bindA (ext UpErrStagingUnavailable (\<lambda>w. ((), w))) (\<lambda>_.
           bindA (ext UpErrStagingUnavailable (\<lambda>w. ((), w))) (\<lambda>_.
           commit_part ?o ?i ?n written later))) ?w1"
      by (simp only: put_part_def bindA_run [of "repo_get ?o ?i"] bindA_run [of "invalidate_part ?i ?n"]
          bindA_run [of "mapErr (\<lambda>_. UpErrStagingUnavailable) (stg_open ?i)"] g inv op mapErr_run
          prod.case sum.case conds(1-4) if_False not_True_eq_False)
    also have "\<dots> = (Inr (), ?w3)"
      using conds(5) b(2) by (simp add: bindA_run copy' close com')
    finally show ?thesis .
  qed
  have upl: "uploads ?d2 = uploads (wdb w)"
    by (simp add: upsert_completed_part_def)
  have parts3: "parts ?d3 = parts ?d2" by (simp add: transition_upload_def)
  have "\<not> sql_exists (\<lambda>q. part_upload q = ?i \<and> part_number q = ?n) (parts ?d1)"
    by (simp add: sql_exists_iff set_sql_delete)
  then have "parts ?d2 = parts ?d1 @ [\<lparr>part_upload = ?i, part_number = ?n, part_size = ?sz, part_completed_at = later\<rparr>]"
    using sz by (simp add: upsert_completed_part_def)
  then have "{q \<in> set (parts ?d3). part_upload q = ?i}
      = insert \<lparr>part_upload = ?i, part_number = ?n, part_size = ?sz, part_completed_at = later\<rparr>
          {q \<in> set (parts (wdb w)). part_upload q = ?i \<and> part_number q \<noteq> ?n}"
    unfolding parts3 by (auto simp: set_sql_delete)
  moreover have "part_number ` {q \<in> set (parts (wdb w)). part_upload q = ?i \<and> part_number q \<noteq> ?n}
      = part_number ` {q \<in> set (parts (wdb w)). part_upload q = ?i} - {?n}" by auto
  ultimately have nums: "part_number ` {q \<in> set (parts ?d3). part_upload q = ?i} = int ` insert p S"
    using ps by auto
  have ok: "uploads_ok ?d3"
    using keepsD [OF keeps_put_part _ run] q(2) by (simp add: on_db_def)
  have ow3: "\<exists>v'. owned_upload ?o ?i ?d3 = Some v' \<and> same_shape u v' \<and> us_expires_at v' = us_expires_at u \<and> writable (us_status v')"
  proof -
    have "owned_upload ?o ?i ?d2 = Some v" using v(1) upl by (simp add: owned_upload_def)
    then have "by_key us_id ?i (uploads ?d2) = Some v" "us_user v = ?o" "us_id v = ?i"
      using owned_upload_SomeD [of ?o ?i ?d2 v] by (simp_all add: owned_upload_iff)
    then have "by_key us_id ?i (uploads ?d3) = Some (v\<lparr>us_status := Uploading, us_updated_at := later\<rparr>)"
      using v(4) by (simp add: transition_upload_def by_key_sql_update)
    then show ?thesis
      using v(2,3) \<open>us_user v = ?o\<close> by (auto simp: owned_upload_iff same_shape_def writable_def)
  qed
  let ?f = "write_at (p * ?c) (part_of ?c data p) f"
  note wp = write_part [OF f(2) pb(1)]
  have S': "q * ?c < length data" if "q \<in> S" for q using part_bounds(1) [OF q(4,5)] S that by blast
  have "blob_get ?i (staging ?w3) = Some ?f" using s(2) b(1) nat_off by simp
  moreover have "\<forall>q\<in>insert p S. same_part ?c data q ?f" using wp(2,3) S' f(3) by blast
  ultimately have "progress u data (insert p S) ?w3"
    using q ow3 ok nums wp(1) p S by (auto simp: progress_def)
  with run show ?thesis by blast
qed

text \<open>Parts may be sent in any order and any number of times.\<close>

fun put_parts :: "upload \<Rightarrow> bytes \<Rightarrow> time \<Rightarrow> nat list \<Rightarrow> (world, upload_err, unit) act" where
  "put_parts u data now [] = ret ()"
| "put_parts u data now (p # ps) =
     bindA (put_part (us_user u) (us_id u) (int p) (part_size_of u (int p))
        \<lparr>body_data = part_of (nat (chunk_size u)) data p, body_fails = False\<rparr> True now now) (\<lambda>_.
     put_parts u data now ps)"

lemma put_parts_progress:
  assumes "progress u data S w" "now < us_expires_at u" "\<forall>p\<in>set ps. int p * chunk_size u < expected_size u"
  shows "\<exists>w'. put_parts u data now ps w = (Inr (), w') \<and> progress u data (S \<union> set ps) w'"
  using assms(1,3)
proof (induction ps arbitrary: S w)
  case (Cons p ps)
  from put_part_progress [OF Cons.prems(1) _ assms(2,2), of p "part_size_of u (int p)"
      "\<lparr>body_data = part_of (nat (chunk_size u)) data p, body_fails = False\<rparr>"] Cons.prems(2)
  obtain w1 where w1: "put_part (us_user u) (us_id u) (int p) (part_size_of u (int p))
      \<lparr>body_data = part_of (nat (chunk_size u)) data p, body_fails = False\<rparr> True now now w = (Inr (), w1)"
    "progress u data (insert p S) w1" by auto
  from Cons.IH [OF w1(2)] Cons.prems(2) obtain w' where
    "put_parts u data now ps w1 = (Inr (), w')" "progress u data (insert p S \<union> set ps) w'" by auto
  with w1(1) show ?case by (auto simp: bindA_run)
qed (auto simp: ret_run)

section \<open>Completion\<close>

lemma completed_parts_list:
  assumes "uploads_ok d"
  shows "set (list_completed_parts i d) = {p \<in> set (parts d). part_upload p = i}"
    and "sorted (map part_number (list_completed_parts i d))"
    and "distinct (map part_number (list_completed_parts i d))"
proof -
  let ?ps = "filter (\<lambda>p. part_upload p = i) (parts d)"
  show "set (list_completed_parts i d) = {p \<in> set (parts d). part_upload p = i}"
    by (auto simp: list_completed_parts_def)
  show "sorted (map part_number (list_completed_parts i d))"
    by (simp add: list_completed_parts_def)
  have "distinct (map part_number ?ps)"
    using assms by (auto simp: uploads_ok_def distinct_map inj_on_def)
  then have "distinct ?ps" "inj_on part_number (set ?ps)" by (simp_all add: distinct_map)
  then show "distinct (map part_number (list_completed_parts i d))"
    by (simp add: list_completed_parts_def distinct_map)
qed

lemma sorted_distinct_upto:
  assumes "sorted xs" "distinct xs" "set xs = int ` {..<n}"
  shows "xs = map int [0..<n]"
proof -
  have "sorted (map int [0..<n])" by (simp add: sorted_map sorted_wrt_upt sorted_iff_nth_mono)
  moreover have "distinct (map int [0..<n])" by (simp add: distinct_map)
  moreover have "set xs = set (map int [0..<n])" using assms(3) by (simp add: atLeast0LessThan)
  ultimately show ?thesis using assms(1,2) by (intro sorted_distinct_set_unique)
qed

text \<open>The parts pass the check exactly when every part of the session is recorded.\<close>

lemma check_complete_iff:
  assumes "uploads_ok d" "owned_upload owner i d = Some v"
  shows "int (length (list_completed_parts i d)) = part_count v
      \<and> check_parts v 0 0 (list_completed_parts i d) = Some (expected_size v)
    \<longleftrightarrow> part_number ` {p \<in> set (parts d). part_upload p = i} = {0..<part_count v}"
proof -
  let ?ps = "list_completed_parts i d" and ?n = "nat (part_count v)"
  note l = completed_parts_list [OF assms(1)]
  from owned_upload_SomeD [OF assms(2)] have v: "v \<in> set (uploads d)" "us_id v = i" by simp_all
  have ok: "upload_ok v" using assms(1) v(1) by (simp add: uploads_ok_def)
  note nn = part_count_nonneg [OF ok]
  have rng: "{0..<part_count v} = int ` {..<?n}"
    using nn image_int_atLeastLessThan [of 0 "nat (part_count v)"] by (simp add: atLeast0LessThan)
  have sizes: "part_size p = part_size_of v (part_number p)" if "p \<in> set ?ps" for p
  proof -
    from that l(1) have p: "p \<in> set (parts d)" "part_upload p = i" by auto
    with assms(1) obtain u where "u \<in> set (uploads d)" "us_id u = i" "part_size p = part_size_of u (part_number p)"
      by (auto simp: uploads_ok_def part_fits_def)
    moreover from this v assms(1) have "u = v" by (auto simp: uploads_ok_def distinct_map inj_on_def)
    ultimately show ?thesis by simp
  qed
  have eq: "int (length ?ps) = part_count v \<Longrightarrow> check_parts v 0 0 ?ps = Some (expected_size v)
      \<longleftrightarrow> (\<forall>j<length ?ps. part_number (?ps ! j) = int j)"
    using check_parts_iff [OF ok, of 0 0 ?ps "expected_size v"] sizes by (auto simp: nth_mem)
  show ?thesis
  proof
    assume A: "int (length ?ps) = part_count v \<and> check_parts v 0 0 ?ps = Some (expected_size v)"
    then have "map part_number ?ps = map int [0..<?n]"
      using eq by (intro nth_equalityI) auto
    then have "set (map part_number ?ps) = int ` {..<?n}" by (simp add: atLeast0LessThan)
    then show "part_number ` {p \<in> set (parts d). part_upload p = i} = {0..<part_count v}"
      unfolding rng l(1) [symmetric] by simp
  next
    assume "part_number ` {p \<in> set (parts d). part_upload p = i} = {0..<part_count v}"
    then have "set (map part_number ?ps) = int ` {..<?n}" unfolding rng l(1) [symmetric] by simp
    then have m: "map part_number ?ps = map int [0..<?n]" by (rule sorted_distinct_upto [OF l(2,3)])
    then have len: "length ?ps = ?n" by (metis length_map length_upt diff_zero)
    have "part_number (?ps ! j) = int j" if "j < length ?ps" for j
      using arg_cong [OF m, of "\<lambda>xs. xs ! j"] that len by simp
    with len eq nn show "int (length ?ps) = part_count v \<and> check_parts v 0 0 ?ps = Some (expected_size v)"
      by simp
  qed
qed


lemma validate_quiet:
  assumes "quiet w" "i \<noteq> uuid_nil" "blob_get i (staging w) = Some f" "int (length f) = expected_size v"
  shows "validate_complete i v ps w =
    (if int (length ps) = part_count v \<and> check_parts v 0 0 ps = Some (expected_size v)
     then Inr () else Inl UpErrIncomplete, w)"
  using assms
  by (auto simp: validate_complete_def bindA_run mapErr_run staging_quiet ret_run throw_run split: option.split)

lemma complete_quiet:
  assumes "quiet w" "uploads_ok (wdb w)" "owned_upload owner i (wdb w) = Some v" "writable (us_status v)"
    and "now < us_expires_at v" "i \<noteq> uuid_nil" "blob_get i (staging w) = Some f"
    and "int (length f) = expected_size v"
  defines "w' \<equiv> w\<lparr>wdb := snd (transition_upload (\<lambda>u. us_id u = i \<and> us_user u = owner \<and> writable (us_status u)) Completing now (wdb w))\<rparr>"
  shows "repo_complete owner i now (validate_complete i) w =
    (if part_number ` {p \<in> set (parts (wdb w)). part_upload p = i} = {0..<part_count v}
     then (Inr (v\<lparr>us_status := Completing, us_updated_at := now\<rparr>), w') else (Inl UpErrIncomplete, w))"
    and "owned_upload owner i (wdb w') = Some (v\<lparr>us_status := Completing, us_updated_at := now\<rparr>)"
proof -
  let ?P = "\<lambda>u. us_id u = i \<and> us_user u = owner \<and> writable (us_status u)"
  have st: "us_status v \<noteq> Expired" "us_status v \<noteq> Completing" "us_status v \<noteq> Completed"
    "us_status v = Created \<or> us_status v = Uploading"
    using assms(4) by (auto simp: writable_def)
  have bk: "by_key us_id i (uploads (wdb w)) = Some v" "us_user v = owner"
    using assms(3) by (simp_all add: owned_upload_iff)
  have id: "us_id v = i" using by_key_SomeD [OF bk(1)] by simp
  have one: "fst (transition_upload ?P Completing now (wdb w)) = 1"
    using sql_count_key [of us_id "uploads (wdb w)" i "\<lambda>u. us_user u = owner \<and> writable (us_status u)"]
      assms(2,4) bk by (simp add: transition_upload_def uploads_ok_def)
  note V = validate_quiet [OF assms(1,6,7,8), of "list_completed_parts i (wdb w)", unfolded check_complete_iff [OF assms(2,3)]]
  have body: "repo_complete_tx owner i now (validate_complete i) w =
    (if part_number ` {p \<in> set (parts (wdb w)). part_upload p = i} = {0..<part_count v}
     then (Inr (True, v\<lparr>us_status := Completing, us_updated_at := now\<rparr>), w') else (Inl UpErrIncomplete, w))"
    using st assms(1,3,5) one V unfolding w'_def
    by (simp add: repo_complete_tx_def bindA_run query_quiet exec_quiet ret_run throw_run commit_tx_def)
  show "repo_complete owner i now (validate_complete i) w =
    (if part_number ` {p \<in> set (parts (wdb w)). part_upload p = i} = {0..<part_count v}
     then (Inr (v\<lparr>us_status := Completing, us_updated_at := now\<rparr>), w') else (Inl UpErrIncomplete, w))"
    using assms(1) by (simp add: repo_complete_def in_tx_quiet body pop_fault_quiet w'_def)
  have "by_key us_id i (uploads (wdb w')) = Some (v\<lparr>us_status := Completing, us_updated_at := now\<rparr>)"
    using bk id assms(4) unfolding w'_def by (simp add: transition_upload_def by_key_sql_update)
  then show "owned_upload owner i (wdb w') = Some (v\<lparr>us_status := Completing, us_updated_at := now\<rparr>)"
    using bk by (simp add: owned_upload_iff)
qed

lemma complete_progress:
  assumes "progress u data S w" "now < us_expires_at u"
  shows "case complete_upload True None (us_user u) (us_id u) now w of (r, w') \<Rightarrow>
    (if int ` S = {0..<part_count u}
     then (\<exists>v ps. r = Inr (v, ps) \<and> us_id v = us_id u \<and> us_status v = Completing \<and> set ps = {0..<part_count u})
       \<and> blob_get (us_id u) (staging w') = Some data
     else r = Inl UpErrIncomplete \<and> w' = w)"
proof -
  let ?i = "us_id u" and ?o = "us_user u" and ?c = "nat (chunk_size u)"
  from assms(1) obtain v f where q: "quiet w" "uploads_ok (wdb w)" "?i \<noteq> uuid_nil" "upload_ok u"
      "expected_size u = int (length data)"
    and v: "owned_upload ?o ?i (wdb w) = Some v" "same_shape u v" "us_expires_at v = us_expires_at u"
      "writable (us_status v)"
    and f: "blob_get ?i (staging w) = Some f" "length f = length data" "\<forall>p\<in>S. same_part ?c data p f"
    and ps: "part_number ` {p \<in> set (parts (wdb w)). part_upload p = ?i} = int ` S"
    by (auto simp: progress_def)
  let ?w = "w\<lparr>wdb := snd (transition_upload (\<lambda>x. us_id x = ?i \<and> us_user x = ?o \<and> writable (us_status x)) Completing now (wdb w))\<rparr>"
  let ?v = "v\<lparr>us_status := Completing, us_updated_at := now\<rparr>"
  have shape: "part_count v = part_count u" "us_id v = ?i" "expected_size v = expected_size u"
    using same_shape_parts [OF v(2)] v(2) by (simp_all add: same_shape_def)
  have nw: "now < us_expires_at v" "int (length f) = expected_size v" using v(3) assms(2) f(2) q(5) shape by simp_all
  note C = complete_quiet [OF q(1,2) v(1) v(4) nw(1) q(3) f(1) nw(2)]
  show ?thesis
  proof (cases "int ` S = {0..<part_count u}")
    case True
    have "p \<in> S" if "p * ?c < length data" for p
    proof -
      have "int p * chunk_size u < expected_size u"
        using that q(4,5) by (simp add: upload_ok_def) (metis int_nat_eq less_le of_nat_less_iff of_nat_mult)
      then have "int p \<in> int ` S" unfolding True using less_part_count [OF q(4)] by simp
      then show ?thesis by auto
    qed
    then have "f = data"
      using f(2,3) q(4) by (intro assembled [of ?c]) (auto simp: upload_ok_def)
    moreover have "complete_upload True None ?o ?i now w
        = (Inr (?v, map part_number (list_completed_parts ?i (wdb ?w))), ?w)"
      using C(1) C(2) True ps shape q(1)
      by (simp add: complete_upload_def bindA_run get_upload_def repo_get_def repo_list_parts_def query_quiet ret_run)
    moreover have "set (map part_number (list_completed_parts ?i (wdb ?w))) = {0..<part_count u}"
      using True ps by (simp add: completed_parts_list(1) [OF q(2)] list_completed_parts_def transition_upload_def)
    ultimately show ?thesis using True f(1) shape by simp
  next
    case False
    then show ?thesis
      using C(1) ps shape by (simp add: complete_upload_def bindA_run)
  qed
qed

section \<open>Creating a session\<close>

lemma keeps_quiet [keeps_intro]:
  "keeps quiet (query e q)" "keeps quiet (exec e u)" "keeps quiet (new_id e')"
  "keeps quiet (stg_delete i)" "keeps quiet owned_files"
  by (simp_all add: keeps_def query_quiet exec_quiet owned_files_quiet)
    (simp_all add: new_id_def stg_delete_def stg_path_def bindA_run ret_run throw_run ext_quiet split: list.split option.split)

lemma keeps_quiet_tx [keeps_intro]: "keeps quiet body \<Longrightarrow> keeps quiet (in_tx_with eb ec body)"
  by (rule keepsI) (auto simp: in_tx_quiet pop_fault_quiet dest: keepsD split: sum.split prod.split)

lemma keeps_quiet_reconcile [keeps_intro]: "keeps quiet (reconcile_each is active limit k)"
  by (induction "is" active limit k rule: reconcile_each.induct) (auto intro!: keeps_intro)

lemma keeps_quiet_expire: "keeps quiet (expire_due_uploads batch now)"
  unfolding expire_due_uploads_def find_due_active_uploads_def find_expired_cleanup_candidates_def
    reconcile_staging_def active_upload_ids_def delete_parts_def mark_expired_def mark_expired_tx_def
  by (intro keeps_intro)

lemma stg_create_Inr:
  assumes "quiet w" "stg_create i n w = (Inr (), w')"
  shows "i \<noteq> uuid_nil \<and> blob_get i (staging w') = Some (zeros (nat n)) \<and> wdb w' = wdb w \<and> quiet w'"
proof -
  have ok: "0 \<le> n" "i \<noteq> uuid_nil" "blob_get i (staging w) = None"
    using assms by (auto simp: stg_create_def stg_path_def bindA_run ret_run throw_run ext_quiet open_excl_def
        split: if_splits)
  with staging_quiet(6) [OF assms(1) ok(2) ok(1) ok(3)] assms(2) show ?thesis
    by (auto simp: blob_get_put assms(1))
qed

lemma keeps_quiet_ext: "(\<And>w. faults (snd (f w)) = faults w) \<Longrightarrow> keeps quiet (ext e f)"
  by (simp add: keeps_def ext_quiet)

lemma keeps_quiet_create_body: "keeps quiet (create_body l probe i owner cmd now res)"
  unfolding create_body_def insert_session_def stg_create_def stg_path_def
  by (intro keeps_intro keeps_quiet_ext) (simp_all add: open_excl_def)

lemma with_create_reservation_Inr:
  assumes "quiet w" "with_create_reservation eb ec f w = (Inr u, w')" "\<And>res. keeps quiet (f res)"
  shows "\<exists>res. f res w = (Inr u, w')"
proof -
  let ?res = "\<lparr>res_max_file = max_file_size_bytes (sys_settings (wdb w)),
     res_retention_hours = upload_retention_hours (sys_settings (wdb w)),
     active_bytes = active_upload_reservation (wdb w), active_remaining = active_upload_remaining (wdb w)\<rparr>"
  obtain r w1 where f: "f ?res w = (r, w1)" by fastforce
  have q: "quiet w1" using keepsD [OF assms(3) assms(1) f] .
  show ?thesis
    using assms(1,2) f q
    by (cases r) (auto simp: with_create_reservation_def in_tx_quiet bindA_run query_quiet exec_quiet
        commit_tx_def ret_run pop_fault_quiet)
qed

lemma create_upload_progress:
  assumes "quiet w" "uploads_ok (wdb w)" "create_upload l probe owner cmd now w = (Inr u, w')"
    and "cmd_size cmd = int (length data)"
  shows "progress u data {} w' \<and> us_user u = owner \<and> chunk_size u = default_chunk_size
    \<and> expected_size u = int (length data)"
proof -
  obtain r0 w0 where e: "expire_due_uploads 8 now w = (r0, w0)" by fastforce
  have w0: "quiet w0" "uploads_ok (wdb w0)"
    using keepsD [OF keeps_quiet_expire assms(1) e] keepsD [OF keeps_expire _ e] assms(2)
    by (simp_all add: on_db_def)
  let ?tx = "\<lambda>i. with_create_reservation (UpIO, False) (UpIO, True) (create_body l probe i owner cmd now)"
  have guard: "(owner = uuid_nil \<or> \<not> valid_filename (cmd_filename cmd) \<or> \<not> valid_mime (cmd_mime cmd) \<or> cmd_size cmd < 0) = False"
    using assms(3) by (simp add: create_upload_def throw_run split: if_splits)
  obtain ri w1 where n: "new_id UpIO w0 = (ri, w1)" by fastforce
  have run: "create_upload l probe owner cmd now w = bindA (new_id UpIO) (\<lambda>i. bindA (tryA (?tx i))
      (\<lambda>r. case r of Inr u \<Rightarrow> ret u | Inl (x, c) \<Rightarrow>
         if c then bindA (tryA (stg_delete i)) (\<lambda>(_ :: staging_err + unit). throw x) else throw x)) w0"
    unfolding create_upload_def guard if_False by (simp add: bindA_run tryA_run e)
  have "\<exists>i. ri = Inr i \<and> fst (?tx i w1) = Inr u \<and> snd (?tx i w1) = w'"
  proof (cases ri)
    case (Inr i)
    show ?thesis
    proof (cases "fst (?tx i w1)")
      case (Inl xc)
      obtain x c where "xc = (x, c)" by fastforce
      with assms(3) run n Inr Inl show ?thesis
        by (cases c) (simp_all add: bindA_run tryA_run throw_run)
    next
      case (Inr u')
      with assms(3) run n \<open>ri = Inr i\<close> show ?thesis by (simp add: bindA_run tryA_run ret_run)
    qed
  qed (use assms(3) run n in \<open>simp add: bindA_run\<close>)
  then obtain i where "ri = Inr i" "fst (?tx i w1) = Inr u" "snd (?tx i w1) = w'" by blast
  with n have i: "new_id UpIO w0 = (Inr i, w1)" and c: "?tx i w1 = (Inr u, w')"
    by (simp, metis prod.collapse)
  have w1: "quiet w1" "wdb w1 = wdb w0"
    using keepsD [OF keeps_quiet(3) w0(1) i] new_id_Inr [OF i] by simp_all
  obtain res where b: "create_body l probe i owner cmd now res w1 = (Inr u, w')"
    using with_create_reservation_Inr [OF w1(1) c keeps_quiet_create_body] by blast
  let ?u = "new_session i owner cmd (res_retention_hours res) now"
  obtain rs w2 where rs: "stg_create i (cmd_size cmd) w1 = (rs, w2)" by fastforce
  obtain ri' w3 where ri': "insert_session ?u w2 = (ri', w3)" by fastforce
  have "rs = Inr ()" "ri' = Inr ()" "w' = w3" and u: "u = ?u"
    using b rs ri'
    by (cases "admit l probe res (cmd_size cmd)"; cases rs; cases ri';
        simp add: create_body_def bindA_run mapErr_run ret_run throw_run)+
  with rs ri' have s: "stg_create i (cmd_size cmd) w1 = (Inr (), w2)" and ins: "insert_session ?u w2 = (Inr (), w')"
    by simp_all
  note w2 = stg_create_Inr [OF w1(1) s]
  have ins': "w' = w2\<lparr>wdb := snd (create_upload_session u (wdb w2))\<rparr>" "fst (create_upload_session u (wdb w2))"
    using ins w2 by (auto simp: insert_session_def u bindA_run exec_quiet ret_run throw_run split: if_splits)
  have d2: "uploads_ok (wdb w2)" using w0(2) w1(2) w2 by simp
  have fresh: "us_id u \<notin> us_id ` set (uploads (wdb w2))"
    using ins'(2) by (auto simp: create_upload_session_def sql_exists_iff split: if_splits)
  have uid: "us_id u = i" "us_user u = owner" "expected_size u = cmd_size cmd" "chunk_size u = default_chunk_size"
    "us_status u = Created" by (simp_all add: u new_session_def)
  let ?u = "u\<lparr>us_status := Created, us_updated_at := us_created_at u, file_object_id := None, completed_at := None,
      consumed_at := None, consumed_message_id := None\<rparr>"
  have d': "uploads (wdb w') = uploads (wdb w2) @ [?u]" "parts (wdb w') = parts (wdb w2)"
    using ins' by (auto simp: create_upload_session_def split: if_splits)
  have ok': "uploads_ok (wdb w')"
    using keepsD [OF keeps_create_upload _ assms(3)] assms(2) by (simp add: on_db_def)
  have "?u \<in> set (uploads (wdb w'))" using d' by simp
  with ok' have uok: "upload_ok ?u" by (simp add: uploads_ok_def)
  have "by_key us_id i (uploads (wdb w')) = Some ?u"
    using ok' d' uid(1) by (subst by_key_eq_Some) (simp_all add: uploads_ok_def)
  moreover have "{p \<in> set (parts (wdb w')). part_upload p = i} = {}"
    using d2 fresh uid(1) d' by (auto simp: uploads_ok_def part_fits_def image_iff) (metis (no_types))
  moreover have "quiet w'" "blob_get i (staging w') = Some (zeros (length data))"
    using ins' w2 assms(4) by simp_all
  ultimately show ?thesis
    using ok' uid assms(4) w2 uok
    by (auto simp: progress_def owned_upload_iff same_shape_def writable_def upload_ok_def)
qed


lemma reservation_ok_db:
  assumes "uploads_ok d" "in_int64 (active_upload_reservation d)" "in_int64 (active_upload_remaining d)"
  shows "reservation_ok \<lparr>res_max_file = m, res_retention_hours = h,
     active_bytes = active_upload_reservation d, active_remaining = active_upload_remaining d\<rparr>"
proof -
  have "0 \<le> active_upload_reservation d"
    unfolding active_upload_reservation_def
    by (rule sql_sum_nonneg) (use assms(1) in \<open>auto simp: uploads_ok_def upload_ok_def\<close>)
  moreover have "0 \<le> active_upload_remaining d"
    unfolding active_upload_remaining_def by (rule sql_sum_nonneg) simp
  ultimately show ?thesis using assms(2,3) by (simp add: reservation_ok_def)
qed

section \<open>Properties\<close>

text \<open>The parts of a session tile its file: there are as many as the size needs, every one
  has between 1 byte and the chunk size, their sizes add up to the expected size, no other part
  number is accepted, and every part number fits the 32-bit column that stores it.\<close>

theorem parts_tile_the_file:
  assumes "upload_ok u"
  shows "(\<Sum>k<nat (part_count u). part_size_of u (int k)) = expected_size u
     \<and> (\<forall>p. (0 \<le> part_size_of u p) = (0 \<le> p \<and> p < part_count u))
     \<and> (\<forall>p. 0 \<le> part_size_of u p \<longrightarrow> 0 < part_size_of u p \<and> part_size_of u p \<le> chunk_size u \<and> to_int32 p = p)"
proof -
  have "part_size_of u p \<le> chunk_size u" for p
    using assms by (simp add: part_size_eq [OF assms]) (simp add: upload_ok_def)
  with sum_all_parts [OF assms] part_size_in_range [OF assms] part_size_pos [OF assms] to_int32_part [OF assms]
  show ?thesis by blast
qed

definition sample_session :: upload where
  "sample_session = new_session 5 3 \<lparr>cmd_filename = ''a.bin'', cmd_size = 20000000, cmd_mime = None\<rparr> 24 0"

theorem parts_tile_the_file_witness:
  "(\<Sum>k<nat (part_count sample_session). part_size_of sample_session (int k)) = 20000000"
proof -
  have "upload_ok sample_session"
    by (simp add: upload_ok_def sample_session_def new_session_def default_chunk_size_def)
  from parts_tile_the_file [OF this] show ?thesis
    by (simp add: sample_session_def new_session_def)
qed

text \<open>C40: a new upload is admitted exactly when, over the integers and with no wrap-around, its
  size is within the file limit, the staging quota has room for it next to all active uploads,
  and the free space that would be left once every active upload and this one are written in
  full is not below the configured bytes nor below the configured percentage of the disk.\<close>

theorem admission_exact:
  assumes "limits_ok l" "reservation_ok res" "0 \<le> n" "in_int64 n"
    and "in_int64 (available_bytes sp)" "in_int64 (total_bytes sp)"
  shows "(admit l (Some sp) res n = None) =
    (n \<le> res_max_file res \<and> active_bytes res + n \<le> max_staging l
     \<and> 0 \<le> available_bytes sp \<and> 0 < total_bytes sp
     \<and> (let left = available_bytes sp - active_remaining res - n in
          0 \<le> left \<and> min_free_bytes l \<le> left \<and> total_bytes sp * min_free_percent l \<le> 100 * left))"
  by (rule admit_iff [OF assms])

definition sample_limits :: upload_limits where
  "sample_limits = \<lparr>max_staging = 1000, min_free_bytes = 100, min_free_percent = 10\<rparr>"

theorem admission_exact_witness:
  "admit sample_limits (Some \<lparr>available_bytes = 700, total_bytes = 5000\<rparr>)
     \<lparr>res_max_file = 500, res_retention_hours = 24, active_bytes = 300, active_remaining = 100\<rparr> 100 = None"
proof -
  have "limits_ok sample_limits" "reservation_ok \<lparr>res_max_file = 500, res_retention_hours = 24, active_bytes = 300, active_remaining = 100\<rparr>"
    by (simp_all add: sample_limits_def limits_ok_def reservation_ok_def in_int64_def)
  from admission_exact [OF this, of 100 "\<lparr>available_bytes = 700, total_bytes = 5000\<rparr>"] show ?thesis
    by (simp add: sample_limits_def in_int64_def Let_def)
qed

definition one_session :: world where
  "one_session = (process_on (empty_db\<lparr>uploads := [sample_session]\<rparr>))\<lparr>faults := [NoFault, FailAfter]\<rparr>"

text \<open>The expiry pass, with its cleanup of expired sessions and orphaned files, never touches
  the staging file of a session that is still live afterwards, whatever fails on the way.\<close>

theorem cleanup_spares_live_uploads:
  assumes "uploads_ok (wdb w)" "expire_due_uploads batch now w = (r, w')" "live (uploads (wdb w')) i"
  shows "blob_get i (staging w') = blob_get i (staging w)"
  by (rule expire_spares_live [OF assms])

lemma one_session_ok: "uploads_ok (wdb one_session)"
  by (simp add: one_session_def uploads_ok_def settings_ok_def settings_validate_def empty_db_def
      upload_ok_def sample_session_def new_session_def default_chunk_size_def)

theorem cleanup_spares_live_uploads_witness:
  "blob_get 5 (staging (snd (expire_due_uploads 8 0 one_session))) = blob_get 5 (staging one_session)"
proof -
  have "live (uploads (wdb (snd (expire_due_uploads 8 0 one_session)))) 5" by code_simp
  from cleanup_spares_live_uploads [OF one_session_ok surjective_pairing this] show ?thesis .
qed

text \<open>C8: uploading works: after a session for \<open>data\<close> was created, its parts can be sent in any
  order and any number of times; completion then succeeds exactly when every part has been sent
  (else it reports an incomplete upload and changes nothing), lists every part, moves the session
  to COMPLETING, and the staging file holds exactly \<open>data\<close>.\<close>

theorem upload_roundtrip:
  assumes "quiet w" "uploads_ok (wdb w)" "create_upload l probe owner cmd now w = (Inr u, w1)"
    and "cmd_size cmd = int (length data)" "later < us_expires_at u"
    and "\<forall>p\<in>set ps. int p * default_chunk_size < int (length data)"
  shows "\<exists>w2. put_parts u data later ps w1 = (Inr (), w2) \<and>
    (case complete_upload True None owner (us_id u) later w2 of (r, w3) \<Rightarrow>
      if int ` set ps = {0..<part_count u}
      then (\<exists>v nums. r = Inr (v, nums) \<and> us_id v = us_id u \<and> us_status v = Completing \<and> set nums = {0..<part_count u})
        \<and> blob_get (us_id u) (staging w3) = Some data
      else r = Inl UpErrIncomplete \<and> w3 = w2)"
proof -
  from create_upload_progress [OF assms(1-4)] have p: "progress u data {} w1" "us_user u = owner"
    "chunk_size u = default_chunk_size" "expected_size u = int (length data)" by simp_all
  from put_parts_progress [OF p(1) assms(5)] assms(6) p(3,4) obtain w2 where
    w2: "put_parts u data later ps w1 = (Inr (), w2)" "progress u data (set ps) w2" by auto
  from complete_progress [OF w2(2) assms(5)]
  have "case complete_upload True None owner (us_id u) later w2 of (r, w3) \<Rightarrow>
      if int ` set ps = {0..<part_count u}
      then (\<exists>v nums. r = Inr (v, nums) \<and> us_id v = us_id u \<and> us_status v = Completing \<and> set nums = {0..<part_count u})
        \<and> blob_get (us_id u) (staging w3) = Some data
      else r = Inl UpErrIncomplete \<and> w3 = w2"
    by (simp only: p(2))
  with w2(1) show ?thesis by (intro exI conjI)
qed

definition small_disk :: space where
  "small_disk = \<lparr>available_bytes = 700, total_bytes = 5000\<rparr>"

definition fresh_process :: world where
  "fresh_process = (process_on empty_db)\<lparr>ids := [Some 5]\<rparr>"

abbreviation small_upload :: "(upload_err + upload) \<times> world" where
  "small_upload \<equiv> create_upload sample_limits (Some small_disk) 3
     \<lparr>cmd_filename = ''a'', cmd_size = 2, cmd_mime = None\<rparr> 0 fresh_process"

lemma small_upload_created:
  "case small_upload of (Inr u, w1) \<Rightarrow> us_expires_at u = 24 * hour | (Inl e, w1) \<Rightarrow> False"
  by code_simp

theorem upload_roundtrip_witness:
  "case small_upload of (Inr u, w1) \<Rightarrow> (\<exists>w2. put_parts u ''hi'' 1 [0, 0] w1 = (Inr (), w2)) | (Inl e, w1) \<Rightarrow> False"
proof -
  from small_upload_created obtain u w1 where u: "small_upload = (Inr u, w1)" "us_expires_at u = 24 * hour"
    by (auto split: prod.splits sum.splits)
  have "uploads_ok (wdb fresh_process)"
    by (simp add: fresh_process_def uploads_ok_def settings_ok_def settings_validate_def empty_db_def)
  from upload_roundtrip [OF _ this u(1), of "''hi''" 1 "[0, 0]"] u(2) have
    "\<exists>w2. put_parts u ''hi'' 1 [0, 0] w1 = (Inr (), w2)"
    by (auto simp: fresh_process_def)
  with u(1) show ?thesis by simp
qed

end
