(* ===== verification/Storage.thy ===== *)
theory Storage
  imports Blobs "HOL-Library.Sublist"
begin

text \<open>
  The object store (\<^verbatim>\<open>internal/storage\<close>): keys and their validation, and the operations of the
  filesystem adapter on a flat map from keys to contents. A validated key cannot leave the three
  directories of the store; an object only ever appears by renaming a finished temporary file,
  and never replaces another.
\<close>

section \<open>Keys\<close>

definition hex_digit :: "nat \<Rightarrow> char" where
  "hex_digit n = ''0123456789abcdef'' ! n"

definition hex :: "nat \<Rightarrow> nat \<Rightarrow> string" where
  "hex k n = map (\<lambda>i. hex_digit (n div 16 ^ (k - 1 - i) mod 16)) [0..<k]"

text \<open>The canonical text of an identifier: 8-4-4-4-12 hexadecimal digits.\<close>

definition uuid_string :: "uuid \<Rightarrow> string" where
  "uuid_string i = (let h = hex 32 (unat i) in
     take 8 h @ ''-'' @ take 4 (drop 8 h) @ ''-'' @ take 4 (drop 12 h) @ ''-'' @ take 4 (drop 16 h)
       @ ''-'' @ drop 20 h)"

fun key_string :: "storage_key \<Rightarrow> string" where
  "key_string (ObjectKey i) = ''objects/'' @ uuid_string i"
| "key_string (DerivativeKey i) = ''derivatives/'' @ uuid_string i"
| "key_string (CommitTempKey i) = ''.commit-tmp/'' @ uuid_string i @ ''.tmp''"
| "key_string (RawKey s) = s"

text \<open>The components of a slash-separated path.\<close>

fun components :: "string \<Rightarrow> string list" where
  "components [] = [[]]"
| "components (c # cs) = (if c = CHR ''/'' then [] # components cs
     else (case components cs of [] \<Rightarrow> [[c]] | p # ps \<Rightarrow> (c # p) # ps))"

text \<open>
  \<open>filepath.Clean\<close> leaves a relative path as it is exactly when it has no empty and no dot
  component and its dot-dot components all come first (\<^verbatim>\<open>Clean("")\<close> is a dot).
\<close>

definition is_clean :: "string \<Rightarrow> bool" where
  "is_clean s \<longleftrightarrow> s = ''.'' \<or> (let cs = components s in
     list_all (\<lambda>c. c \<noteq> [] \<and> c \<noteq> ''.'') cs \<and> ''..'' \<notin> set (dropWhile (\<lambda>c. c = ''..'') cs))"

definition cut_slash :: "string \<Rightarrow> (string \<times> string) option" where
  "cut_slash s = (if CHR ''/'' \<in> set s
     then Some (takeWhile (\<lambda>c. c \<noteq> CHR ''/'') s, tl (dropWhile (\<lambda>c. c \<noteq> CHR ''/'') s)) else None)"

definition validate_key :: "string \<Rightarrow> bool" where
  "validate_key s \<longleftrightarrow>
     \<not> (s = [] \<or> hd s = CHR ''/'' \<or> \<not> is_clean s \<or> CHR 0x5C \<in> set s \<or> s = ''.'' \<or> prefix ''../'' s \<or> sublist ''/../'' s)
   \<and> (case cut_slash s of None \<Rightarrow> False
      | Some (first, rest) \<Rightarrow> rest \<noteq> [] \<and> (first = ''objects'' \<or> first = ''derivatives'' \<or> first = ''.commit-tmp''))"

definition key_ok :: "storage_key \<Rightarrow> bool" where
  "key_ok k = validate_key (key_string k)"

section \<open>The adapter\<close>

datatype storage_err = StErrNotFound | StErrInvalidKey | StErrUnavailable | StErrIntegrity

text \<open>The directory part of a validated key.\<close>

definition key_dir :: "storage_key \<Rightarrow> string" where
  "key_dir k = (case rev (components (key_string k)) of _ # d # _ \<Rightarrow> d | _ \<Rightarrow> [])"

definition store_path :: "storage_key \<Rightarrow> (world, storage_err, unit) act" where
  "store_path k = (if key_ok k then ret () else throw StErrInvalidKey)"

definition create_commit_temp :: "storage_key \<Rightarrow> (world, storage_err, unit) act" where
  "create_commit_temp k = bindA (store_path k) (\<lambda>_.
     if key_dir k \<noteq> ''.commit-tmp'' then throw StErrInvalidKey
     else bindA (ext StErrUnavailable (\<lambda>w. (if blob_get k (store w) \<noteq> None then (False, w)
            else (True, w\<lparr>store := blob_put k [] (store w)\<rparr>)))) (\<lambda>fresh.
       if fresh then ret () else throw StErrUnavailable))"

text \<open>Opening and reading a whole file, and its size.\<close>

definition store_read :: "storage_key \<Rightarrow> (world, storage_err, bytes) act" where
  "store_read k = bindA (store_path k) (\<lambda>_.
     bindA (ext StErrUnavailable (\<lambda>w. (blob_get k (store w), w))) (\<lambda>f.
     (case f of None \<Rightarrow> throw StErrNotFound | Some b \<Rightarrow> ret b)))"

definition store_stat :: "storage_key \<Rightarrow> (world, storage_err, int) act" where
  "store_stat k = bindA (store_path k) (\<lambda>_.
     bindA (ext StErrUnavailable (\<lambda>w. (blob_get k (store w), w))) (\<lambda>f.
     (case f of None \<Rightarrow> throw StErrNotFound | Some b \<Rightarrow> ret (int (length b)))))"

text \<open>Appending to a temporary file that is open for writing.\<close>

definition store_append :: "storage_key \<Rightarrow> bytes \<Rightarrow> (world, storage_err, unit) act" where
  "store_append k d = ext StErrUnavailable (\<lambda>w. ((), (case blob_get k (store w) of
      None \<Rightarrow> w | Some b \<Rightarrow> w\<lparr>store := blob_put k (b @ d) (store w)\<rparr>)))"

definition store_commit :: "storage_key \<Rightarrow> storage_key \<Rightarrow> (world, storage_err, unit) act" where
  "store_commit t f = bindA (store_path t) (\<lambda>_. bindA (store_path f) (\<lambda>_.
     if key_dir t \<noteq> ''.commit-tmp'' \<or> (key_dir f \<noteq> ''objects'' \<and> key_dir f \<noteq> ''derivatives'') then throw StErrInvalidKey
     else bindA (ext StErrUnavailable (\<lambda>w. (blob_get f (store w) \<noteq> None, w))) (\<lambda>exists.
       if exists then throw StErrIntegrity
       else bindA (ext StErrUnavailable (\<lambda>w. (case blob_get t (store w) of
            None \<Rightarrow> (False, w)
          | Some b \<Rightarrow> (True, w\<lparr>store := blob_put f b (blob_del t (store w))\<rparr>)))) (\<lambda>renamed.
         if \<not> renamed then throw StErrNotFound
         else ext StErrUnavailable (\<lambda>w. ((), w))))))"

definition store_delete :: "storage_key \<Rightarrow> (world, storage_err, unit) act" where
  "store_delete k = bindA (store_path k) (\<lambda>_.
     ext StErrUnavailable (\<lambda>w. ((), w\<lparr>store := blob_del k (store w)\<rparr>)))"

fun temp_id :: "storage_key \<Rightarrow> uuid option" where
  "temp_id (CommitTempKey i) = Some i"
| "temp_id _ = None"

definition list_commit_temps :: "(world, storage_err, uuid list) act" where
  "list_commit_temps = ext StErrUnavailable (\<lambda>w. (sort (remdups (List.map_filter (temp_id \<circ> fst) (store w))), w))"

section \<open>Validated keys stay inside the store\<close>

lemma components_nonempty [simp]: "components s \<noteq> []"
  by (induction s) (auto split: list.split)

lemma components_append:
  "components (s @ CHR ''/'' # t) = components s @ components t"
  by (induction s) (auto split: list.split)

lemma components_plain: "CHR ''/'' \<notin> set s \<Longrightarrow> components s = [s]"
  by (induction s) auto

lemma hex_digit_plain: "hex_digit (n mod 16) \<in> set ''0123456789abcdef''"
  unfolding hex_digit_def by (rule nth_mem) simp

lemma hex_chars: "set (hex k n) \<subseteq> set ''0123456789abcdef''"
proof
  fix c assume "c \<in> set (hex k n)"
  then obtain m where "c = hex_digit (m mod 16)" by (auto simp: hex_def)
  then show "c \<in> set ''0123456789abcdef''" by (simp only: hex_digit_plain)
qed

lemma uuid_string_chars: "set (uuid_string i) \<subseteq> insert (CHR ''-'') (set ''0123456789abcdef'')"
proof -
  define H where "H = set ''0123456789abcdef''"
  have h: "set (hex 32 (unat i)) \<subseteq> H" unfolding H_def by (rule hex_chars)
  have "set (take a (drop b (hex 32 (unat i)))) \<subseteq> H" "set (take a (hex 32 (unat i))) \<subseteq> H"
    "set (drop b (hex 32 (unat i))) \<subseteq> H" for a b
    using h by (blast dest: in_set_takeD in_set_dropD)+
  from this(1) [THEN subsetD] this(2) [THEN subsetD] this(3) [THEN subsetD] show ?thesis
    unfolding H_def [symmetric] uuid_string_def Let_def by auto
qed

lemma uuid_string_plain: "CHR ''/'' \<notin> set (uuid_string i)" "CHR 0x5C \<notin> set (uuid_string i)"
    "CHR ''.'' \<notin> set (uuid_string i)"
  using uuid_string_chars [of i] by auto

lemma length_uuid_string: "length (uuid_string i) = 36"
  by (simp add: uuid_string_def hex_def Let_def)

lemma components_cut:
  "cut_slash s = Some (a, b) \<Longrightarrow> components s = a # components b \<and> s = a @ CHR ''/'' # b"
proof -
  assume c: "cut_slash s = Some (a, b)"
  then have "CHR ''/'' \<in> set s" "a = takeWhile (\<lambda>c. c \<noteq> CHR ''/'') s" "b = tl (dropWhile (\<lambda>c. c \<noteq> CHR ''/'') s)"
    by (auto simp: cut_slash_def split: if_splits)
  moreover from this have "dropWhile (\<lambda>c. c \<noteq> CHR ''/'') s = CHR ''/'' # b"
    using hd_dropWhile [of "\<lambda>c. c \<noteq> CHR ''/''" s]
    by (cases "dropWhile (\<lambda>c. c \<noteq> CHR ''/'') s") (auto simp: dropWhile_eq_Nil_conv)
  ultimately have "s = a @ CHR ''/'' # b" "CHR ''/'' \<notin> set a"
    by (metis takeWhile_dropWhile_id) (auto dest: set_takeWhileD simp: \<open>a = _\<close>)
  then show ?thesis by (simp add: components_append components_plain)
qed

lemma validated_components:
  assumes "validate_key s"
  shows "\<exists>d r. components s = d # r \<and> d \<in> {''objects'', ''derivatives'', ''.commit-tmp''} \<and> r \<noteq> []
     \<and> (\<forall>c\<in>set (d # r). c \<noteq> [] \<and> c \<noteq> ''.'' \<and> c \<noteq> ''..'')"
proof -
  from assms obtain d b where c: "cut_slash s = Some (d, b)" and d: "d \<in> {''objects'', ''derivatives'', ''.commit-tmp''}"
    and clean: "is_clean s" "s \<noteq> ''.''"
    by (auto simp: validate_key_def split: option.splits)
  note cc = components_cut [OF c]
  have "d \<noteq> ''..''" using d by auto
  then have "dropWhile (\<lambda>c. c = ''..'') (components s) = components s" using conjunct1 [OF cc] by simp
  with clean have "list_all (\<lambda>c. c \<noteq> [] \<and> c \<noteq> ''.'') (components s)" "''..'' \<notin> set (components s)"
    by (simp_all add: is_clean_def Let_def)
  then have "\<forall>c\<in>set (components s). c \<noteq> [] \<and> c \<noteq> ''.'' \<and> c \<noteq> ''..''" unfolding list_all_iff by blast
  with d show ?thesis
    unfolding conjunct1 [OF cc] by (intro exI [of _ d] exI [of _ "components b"]) simp
qed

lemma no_sublist_dotdot:
  assumes "''..'' \<notin> set (components s)"
  shows "\<not> sublist ''/../'' s"
proof
  assume "sublist ''/../'' s"
  then obtain a b where "s = a @ CHR ''/'' # ''..'' @ CHR ''/'' # b" by (auto simp: sublist_def)
  then have "components s = components a @ components ''..'' @ components b"
    by (simp only: components_append)
  moreover have "components ''..'' = [''..'']" by simp
  ultimately show False using assms by simp
qed

lemma two_components_valid:
  assumes "d \<in> {''objects'', ''derivatives'', ''.commit-tmp''}" "CHR ''/'' \<notin> set r" "CHR 0x5C \<notin> set r"
    and "r \<noteq> []" "r \<noteq> ''.''" "r \<noteq> ''..''"
  shows "validate_key (d @ CHR ''/'' # r)" "components (d @ CHR ''/'' # r) = [d, r]"
proof -
  have dp: "CHR ''/'' \<notin> set d" "CHR 0x5C \<notin> set d" "d \<noteq> []" "d \<noteq> ''.''" "d \<noteq> ''..''" "hd d \<noteq> CHR ''/''" "\<not> prefix ''..'' d"
    using assms(1) by auto
  show c: "components (d @ CHR ''/'' # r) = [d, r]"
    using dp assms(2) by (simp add: components_append components_plain)
  have "is_clean (d @ CHR ''/'' # r)"
    using dp assms(4-6) by (simp add: is_clean_def c)
  moreover have "\<not> sublist ''/../'' (d @ CHR ''/'' # r)"
    by (rule no_sublist_dotdot) (use dp assms(6) c in auto)
  moreover have "\<not> prefix ''../'' (d @ CHR ''/'' # r)"
    using assms(1) by auto
  moreover have "cut_slash (d @ CHR ''/'' # r) = Some (d, r)"
    using dp(1) by (simp add: cut_slash_def takeWhile_append dropWhile_append)
  moreover have "d @ CHR ''/'' # r \<noteq> ''.''" using assms(1) by auto
  ultimately show "validate_key (d @ CHR ''/'' # r)"
    using dp assms by (simp add: validate_key_def)
qed

lemma uuid_string_component: "uuid_string i \<noteq> []" "uuid_string i \<noteq> ''.''" "uuid_string i \<noteq> ''..''"
  using length_uuid_string [of i] by auto

lemma object_keys:
  "key_ok (ObjectKey i)" "key_ok (DerivativeKey i)" "key_ok (CommitTempKey i)"
  "key_dir (ObjectKey i) = ''objects''" "key_dir (DerivativeKey i) = ''derivatives''"
  "key_dir (CommitTempKey i) = ''.commit-tmp''"
proof -
  note u = uuid_string_plain [of i] uuid_string_component [of i]
  let ?t = "uuid_string i @ ''.tmp''"
  have t: "CHR ''/'' \<notin> set ?t" "CHR 0x5C \<notin> set ?t" "?t \<noteq> []" "?t \<noteq> ''.''" "?t \<noteq> ''..''"
    using u length_uuid_string [of i] by auto
  have o: "key_string (ObjectKey i) = ''objects'' @ CHR ''/'' # uuid_string i"
    and d: "key_string (DerivativeKey i) = ''derivatives'' @ CHR ''/'' # uuid_string i"
    and c: "key_string (CommitTempKey i) = ''.commit-tmp'' @ CHR ''/'' # ?t" by simp_all
  note vo = two_components_valid [of "''objects''", OF _ u(1,2,4-6)]
  note vd = two_components_valid [of "''derivatives''", OF _ u(1,2,4-6)]
  note vc = two_components_valid [of "''.commit-tmp''", OF _ t]
  show "key_ok (ObjectKey i)" "key_dir (ObjectKey i) = ''objects''"
    unfolding key_ok_def key_dir_def o using vo by simp_all
  show "key_ok (DerivativeKey i)" "key_dir (DerivativeKey i) = ''derivatives''"
    unfolding key_ok_def key_dir_def d using vd by simp_all
  show "key_ok (CommitTempKey i)" "key_dir (CommitTempKey i) = ''.commit-tmp''"
    unfolding key_ok_def key_dir_def c using vc by simp_all
qed

section \<open>Properties\<close>

text \<open>A key that passes validation is a path of at least two components below one of the three
  directories of the store, with no empty, dot or dot-dot component and so no way out of the
  root; and the keys the program itself builds, for objects, derivatives and temporary files,
  always pass.\<close>

theorem validated_keys_are_confined:
  assumes "validate_key s"
  shows "(\<exists>d r. components s = d # r \<and> d \<in> {''objects'', ''derivatives'', ''.commit-tmp''}
     \<and> r \<noteq> [] \<and> (\<forall>c\<in>set (d # r). c \<noteq> [] \<and> c \<noteq> ''.'' \<and> c \<noteq> ''..''))
   \<and> key_ok (ObjectKey i) \<and> key_ok (DerivativeKey i) \<and> key_ok (CommitTempKey i)"
  using validated_components [OF assms] object_keys [of i] by blast

theorem validated_keys_are_confined_witness:
  "\<exists>d r. components (key_string (CommitTempKey 7)) = d # r \<and> d \<in> {''objects'', ''derivatives'', ''.commit-tmp''}"
proof -
  have "validate_key (key_string (CommitTempKey 7))" using object_keys(3) [of 7] by (simp only: key_ok_def)
  from validated_keys_are_confined [OF this, of 7] show ?thesis by blast
qed

end
