(* ===== verification/Finalize.thy ===== *)
theory Finalize
  imports Uploads Storage
begin

text \<open>
  Finalization of a completed upload (\<^verbatim>\<open>internal/uploads/finalize.go\<close>): hashing the staging file,
  deduplication against the stored objects by hash and size, the reservation of a PENDING object
  under the storage quota, the copy to the object store with an atomic rename, and the transaction
  that makes the object READY and the session COMPLETED together. The hash and the content type
  detector of the Go library are the arguments \<open>sha\<close> and \<open>detect\<close>.
\<close>

section \<open>Statements\<close>

definition find_object :: "bytes \<Rightarrow> int \<Rightarrow> db \<Rightarrow> file_object option" where
  "find_object h n d = find (\<lambda>o'. sha256 o' = h \<and> size_bytes o' = n) (file_objects d)"

definition mark_failed :: "uuid \<Rightarrow> time \<Rightarrow> (world, upload_err, unit) act" where
  "mark_failed i now = exec UpIO (\<lambda>d. ((), snd (transition_upload (\<lambda>u. us_id u = i \<and> us_status u = Completing) Failed now d)))"

definition complete_session :: "uuid \<Rightarrow> uuid \<Rightarrow> uuid \<Rightarrow> time \<Rightarrow> db \<Rightarrow> nat \<times> db" where
  "complete_session i owner f now d =
     (let p = (\<lambda>u. us_id u = i \<and> us_user u = owner \<and> us_status u = Completing) in
      (sql_count p (uploads d), d\<lparr>uploads := sql_update p
        (\<lambda>u. u\<lparr>file_object_id := Some f, us_status := Completed, completed_at := Some now, us_updated_at := now\<rparr>)
        (uploads d)\<rparr>))"

definition ready_object :: "file_object \<Rightarrow> time \<Rightarrow> db \<Rightarrow> nat \<times> db" where
  "ready_object ob now d =
     (let p = (\<lambda>x. fo_id x = fo_id ob \<and> fo_status x = ObjPending \<and> sha256 x = sha256 ob \<and> size_bytes x = size_bytes ob) in
      (sql_count p (file_objects d), d\<lparr>file_objects := sql_update p
        (\<lambda>x. x\<lparr>fo_status := ObjReady, ready_at := Some now, fo_updated_at := now\<rparr>) (file_objects d)\<rparr>))"

definition referenced :: "uuid \<Rightarrow> db \<Rightarrow> bool" where
  "referenced f d \<longleftrightarrow> sql_exists (\<lambda>a. ma_file a = f) (attachments d)
     \<or> sql_exists (\<lambda>u. file_object_id u = Some f) (uploads d)"

definition delete_unreferenced_pending :: "uuid \<Rightarrow> db \<Rightarrow> nat \<times> db" where
  "delete_unreferenced_pending f d =
     (let p = (\<lambda>x. fo_id x = f \<and> fo_status x = ObjPending \<and> \<not> referenced f d) in
      (sql_count p (file_objects d), d\<lparr>file_objects := sql_delete p (file_objects d)\<rparr>))"

definition delete_pending :: "uuid \<Rightarrow> db \<Rightarrow> unit \<times> db" where
  "delete_pending f d =
     ((), d\<lparr>file_objects := sql_delete (\<lambda>x. fo_id x = f \<and> fo_status x = ObjPending) (file_objects d)\<rparr>)"

text \<open>\<open>INSERT ... ON CONFLICT (sha256, size_bytes) DO NOTHING\<close>; another conflict is an error.\<close>

definition insert_pending :: "file_object \<Rightarrow> db \<Rightarrow> bool \<times> db" where
  "insert_pending ob d =
     (if find_object (sha256 ob) (size_bytes ob) d \<noteq> None then (True, d)
      else if sql_exists (\<lambda>x. fo_id x = fo_id ob) (file_objects d) \<or> size_bytes ob < 0 then (False, d)
      else (True, d\<lparr>file_objects := file_objects d @ [ob]\<rparr>))"

section \<open>Steps\<close>

definition final_exists :: "file_object \<Rightarrow> (world, storage_err, bool) act" where
  "final_exists ob = bindA (tryA (store_stat (ObjectKey (fo_id ob)))) (\<lambda>(r :: storage_err + int).
     (case r of Inr _ \<Rightarrow> ret True | Inl e \<Rightarrow> if e = StErrNotFound then ret False else throw e))"

text \<open>The result is the object and whether it still exists.\<close>

definition reconcile_pending ::
    "(bytes \<Rightarrow> bytes) \<Rightarrow> file_object \<Rightarrow> time \<Rightarrow> (world, upload_err, file_object \<times> bool) act" where
  "reconcile_pending sha ob now =
     bindA (tryA (store_stat (ObjectKey (fo_id ob)))) (\<lambda>(r :: storage_err + int).
     (case r of
        Inl e \<Rightarrow>
          if e = StErrNotFound then
            bindA (mapErr (\<lambda>_. UpIO) (store_delete (CommitTempKey (fo_id ob)))) (\<lambda>_.
            bindA (exec UpIO (delete_unreferenced_pending (fo_id ob))) (\<lambda>n.
            ret (ob, n = 0)))
          else throw UpIO
      | Inr n \<Rightarrow>
          if n \<noteq> size_bytes ob then throw UpIO
          else bindA (mapErr (\<lambda>_. UpIO) (store_read (ObjectKey (fo_id ob)))) (\<lambda>b.
            if sha b \<noteq> sha256 ob then throw UpIO
            else bindA (exec UpIO (ready_object ob now)) (\<lambda>k.
              if k \<noteq> 1 then throw UpIO else ret (ob\<lparr>fo_status := ObjReady\<rparr>, True)))))"

definition new_object :: "uuid \<Rightarrow> bytes \<Rightarrow> int \<Rightarrow> string \<Rightarrow> time \<Rightarrow> file_object" where
  "new_object i h n mime now = \<lparr>fo_id = i, sha256 = h, size_bytes = n, detected_mime = mime,
     storage_key = ObjectKey i, fo_status = ObjPending, fo_created_at = now, fo_updated_at = now, ready_at = None\<rparr>"

definition over_quota :: "int \<Rightarrow> int option \<Rightarrow> int \<Rightarrow> bool" where
  "over_quota n mx used = (case mx of None \<Rightarrow> False | Some m \<Rightarrow> n > m \<or> used > wrap64 (m - n))"

definition reserve_pending_tx ::
    "bytes \<Rightarrow> int \<Rightarrow> string \<Rightarrow> time \<Rightarrow> (world, upload_err, bool \<times> (file_object \<times> bool)) act" where
  "reserve_pending_tx h n mime now =
     bindA (exec UpIO (\<lambda>d. ((), d))) (\<lambda>_.
     bindA (query UpIO (find_object h n)) (\<lambda>existing.
     (case existing of
        Some ob \<Rightarrow> commit_tx (ob, False)
      | None \<Rightarrow>
          bindA (query UpIO (\<lambda>d. max_storage_bytes (sys_settings d))) (\<lambda>mx.
          bindA (query UpIO (\<lambda>d. sql_sum size_bytes (file_objects d))) (\<lambda>used.
          if over_quota n mx used then throw UpErrStorageQuota
          else bindA (new_id UpIO) (\<lambda>i.
            bindA (exec UpIO (insert_pending (new_object i h n mime now))) (\<lambda>ok.
            if \<not> ok then throw UpIO
            else bindA (query UpIO (find_object h n)) (\<lambda>actual.
              (case actual of None \<Rightarrow> throw UpIO
               | Some ob \<Rightarrow> commit_tx (ob, fo_id ob = i))))))))))"

definition reserve_pending ::
    "bytes \<Rightarrow> int \<Rightarrow> string \<Rightarrow> time \<Rightarrow> (world, upload_err, file_object \<times> bool) act" where
  "reserve_pending h n mime now = in_tx UpIO (reserve_pending_tx h n mime now)"

definition upload_status_is :: "uuid \<Rightarrow> uuid \<Rightarrow> upload_status \<Rightarrow> db \<Rightarrow> bool" where
  "upload_status_is i owner st d = (map_option us_status (owned_upload owner i d) = Some st)"

definition object_status_is :: "uuid \<Rightarrow> object_status \<Rightarrow> db \<Rightarrow> bool" where
  "object_status_is f st d = (map_option fo_status (by_key fo_id f (file_objects d)) = Some st)"

definition complete_with_tx :: "upload \<Rightarrow> uuid \<Rightarrow> time \<Rightarrow> (world, upload_err, bool \<times> unit) act" where
  "complete_with_tx u f now =
     bindA (query UpIO (upload_status_is (us_id u) (us_user u) Completing)) (\<lambda>ok.
     if \<not> ok then throw UpIO
     else bindA (query UpIO (object_status_is f ObjReady)) (\<lambda>ready.
       if \<not> ready then throw UpIO
       else bindA (exec UpIO (complete_session (us_id u) (us_user u) f now)) (\<lambda>n.
         if n \<noteq> 1 then throw UpIO else commit_tx ())))"

definition complete_with :: "upload \<Rightarrow> uuid \<Rightarrow> time \<Rightarrow> (world, upload_err, unit) act" where
  "complete_with u f now = in_tx UpIO (complete_with_tx u f now)"

definition ready_and_complete_tx :: "upload \<Rightarrow> file_object \<Rightarrow> time \<Rightarrow> (world, upload_err, bool \<times> unit) act" where
  "ready_and_complete_tx u ob now =
     bindA (query UpIO (upload_status_is (us_id u) (us_user u) Completing)) (\<lambda>ok.
     if \<not> ok then throw UpIO
     else bindA (query UpIO (object_status_is (fo_id ob) ObjPending)) (\<lambda>pending.
       if \<not> pending then throw UpIO
       else bindA (exec UpIO (ready_object ob now)) (\<lambda>k.
         if k \<noteq> 1 then throw UpIO
         else bindA (exec UpIO (complete_session (us_id u) (us_user u) (fo_id ob) now)) (\<lambda>n.
           if n \<noteq> 1 then throw UpIO else commit_tx ()))))"

definition ready_and_complete :: "upload \<Rightarrow> file_object \<Rightarrow> time \<Rightarrow> (world, upload_err, unit) act" where
  "ready_and_complete u ob now = in_tx UpIO (ready_and_complete_tx u ob now)"

definition completed_session :: "upload \<Rightarrow> uuid \<Rightarrow> time \<Rightarrow> upload" where
  "completed_session u f now =
     u\<lparr>us_status := Completed, file_object_id := Some f, completed_at := Some now, us_updated_at := now\<rparr>"

definition delete_staging :: "uuid \<Rightarrow> (world, upload_err, unit) act" where
  "delete_staging i = bindA (tryA (stg_delete i)) (\<lambda>(_ :: staging_err + unit). ret ())"

text \<open>Hash and detected type of a staging file of the expected size; the type is detected from its
  first 512 bytes.\<close>

definition hash_staging ::
    "(bytes \<Rightarrow> bytes) \<Rightarrow> (bytes \<Rightarrow> string) \<Rightarrow> uuid \<Rightarrow> int \<Rightarrow> (world, upload_err, bytes \<times> string) act" where
  "hash_staging sha detect i expected =
     bindA (mapErr (\<lambda>_. UpErrStagingCorrupt) (stg_read i)) (\<lambda>b.
     if int (length b) \<noteq> expected then throw UpErrStagingCorrupt
     else ret (sha b, if b = [] then ''application/octet-stream'' else detect (take 512 b)))"

section \<open>The copy to the store\<close>

text \<open>
  An error carries the value of the local variable \<open>keepPending\<close>; \<open>release_pending\<close> is the
  deferred clean-up that runs when it is still false.
\<close>

definition copy_to_store :: "upload \<Rightarrow> file_object \<Rightarrow> time \<Rightarrow> (world, upload_err \<times> bool, upload) act" where
  "copy_to_store u ob now =
     bindA (tryA (store_delete (CommitTempKey (fo_id ob)))) (\<lambda>(_ :: storage_err + unit).
     bindA (mapErr (\<lambda>_. (UpErrFinalizeRetryable, False)) (create_commit_temp (CommitTempKey (fo_id ob)))) (\<lambda>_.
     bindA (mapErr (\<lambda>_. (UpErrStagingCorrupt, False)) (stg_open (us_id u))) (\<lambda>_.
     bindA (mapErr (\<lambda>_. (UpErrFinalizeRetryable, False)) (stg_read_all (us_id u))) (\<lambda>b.
     bindA (mapErr (\<lambda>_. (UpErrFinalizeRetryable, False)) (store_append (CommitTempKey (fo_id ob)) b)) (\<lambda>_.
     if int (length b) \<noteq> expected_size u then throw (UpErrFinalizeRetryable, False)
     else bindA (ext (UpErrFinalizeRetryable, False) (\<lambda>w. ((), w))) (\<lambda>_.
       bindA (ext (UpErrFinalizeRetryable, False) (\<lambda>w. ((), w))) (\<lambda>_.
       bindA (tryA (store_commit (CommitTempKey (fo_id ob)) (ObjectKey (fo_id ob)))) (\<lambda>(c :: storage_err + unit).
       (case c of
          Inl _ \<Rightarrow> bindA (tryA (final_exists ob)) (\<lambda>(x :: storage_err + bool).
            throw (UpErrFinalizeRetryable, x \<noteq> Inr False))
        | Inr _ \<Rightarrow>
            bindA (mapErr (\<lambda>_. (UpErrFinalizeRetryable, True)) (store_stat (ObjectKey (fo_id ob)))) (\<lambda>n.
            if n \<noteq> expected_size u then throw (UpErrFinalizeRetryable, True)
            else bindA (mapErr (\<lambda>_. (UpErrFinalizeRetryable, True)) (ready_and_complete u ob now)) (\<lambda>_.
              bindA (mapErr (\<lambda>e. (e, True)) (delete_staging (us_id u))) (\<lambda>_.
              ret (completed_session u (fo_id ob) now)))))))))))))"

definition release_pending :: "file_object \<Rightarrow> (world, upload_err, unit) act" where
  "release_pending ob =
     bindA (tryA (store_delete (CommitTempKey (fo_id ob)))) (\<lambda>(_ :: storage_err + unit).
     bindA (tryA (exec UpIO (delete_pending (fo_id ob)))) (\<lambda>(_ :: upload_err + unit). ret ()))"

definition write_object :: "upload \<Rightarrow> file_object \<Rightarrow> time \<Rightarrow> (world, upload_err, upload) act" where
  "write_object u ob now =
     bindA (tryA (copy_to_store u ob now)) (\<lambda>(r :: (upload_err \<times> bool) + upload).
     (case r of
        Inr v \<Rightarrow> ret v
      | Inl (e, keep) \<Rightarrow> if keep then throw e else bindA (release_pending ob) (\<lambda>_. throw e)))"

definition retryable_err :: "(world, upload_err, 'a) act \<Rightarrow> (world, upload_err, 'a) act" where
  "retryable_err m = mapErr (\<lambda>_. UpErrFinalizeRetryable) m"

definition finish_with :: "upload \<Rightarrow> file_object \<Rightarrow> time \<Rightarrow> (world, upload_err, upload) act" where
  "finish_with u ob now =
     bindA (retryable_err (complete_with u (fo_id ob) now)) (\<lambda>_.
     bindA (delete_staging (us_id u)) (\<lambda>_.
     ret (completed_session u (fo_id ob) now)))"

text \<open>
  After the reservation: the object was created here, or existed. An existing PENDING object is
  reconciled; if that removed it, a second reservation must create it.
\<close>

definition settle_reservation ::
    "(bytes \<Rightarrow> bytes) \<Rightarrow> bytes \<Rightarrow> int \<Rightarrow> string \<Rightarrow> file_object \<times> bool \<Rightarrow> time \<Rightarrow> (world, upload_err, file_object \<times> bool) act" where
  "settle_reservation sha h n mime res now =
     (if \<not> snd res \<and> fo_status (fst res) = ObjPending then
        bindA (retryable_err (reconcile_pending sha (fst res) now)) (\<lambda>(ob, found).
        if found then ret (ob, False)
        else bindA (retryable_err (reserve_pending h n mime now)) (\<lambda>(ob', created).
          if created then ret (ob', True) else throw UpErrFinalizeRetryable))
      else ret res)"

definition finalize_new ::
    "(bytes \<Rightarrow> bytes) \<Rightarrow> nat option \<Rightarrow> upload \<Rightarrow> bytes \<Rightarrow> string \<Rightarrow> time \<Rightarrow> (world, upload_err, upload) act" where
  "finalize_new sha space u h mime now =
     (if (case space of None \<Rightarrow> True | Some avail \<Rightarrow> expected_size u > int avail) then throw UpErrFinalizeRetryable
      else bindA (tryA (reserve_pending h (expected_size u) mime now)) (\<lambda>(r :: upload_err + file_object \<times> bool).
        (case r of
           Inl e \<Rightarrow> throw (if e = UpErrStorageQuota then e else UpErrFinalizeRetryable)
         | Inr res \<Rightarrow>
             bindA (settle_reservation sha h (expected_size u) mime res now) (\<lambda>res2.
             if \<not> snd res \<and> fo_status (fst res2) = ObjReady then
               bindA (tryA (complete_with u (fo_id (fst res2)) now)) (\<lambda>(c :: upload_err + unit).
               (case c of
                  Inr _ \<Rightarrow> bindA (delete_staging (us_id u)) (\<lambda>_. ret (completed_session u (fo_id (fst res2)) now))
                | Inl _ \<Rightarrow> if snd res2 then write_object u (fst res2) now else throw UpErrFinalizeRetryable))
             else if \<not> snd res2 then throw UpErrFinalizeRetryable
             else write_object u (fst res2) now))))"

text \<open>The stored object of the same hash and size decides: none, PENDING, DELETING or READY.\<close>

definition finalize_found ::
    "(bytes \<Rightarrow> bytes) \<Rightarrow> nat option \<Rightarrow> upload \<Rightarrow> bytes \<Rightarrow> string \<Rightarrow> file_object option \<Rightarrow> time \<Rightarrow> (world, upload_err, upload) act" where
  "finalize_found sha space u h mime found now =
     (case found of
        None \<Rightarrow> finalize_new sha space u h mime now
      | Some ob \<Rightarrow>
          if fo_status ob = ObjPending then
            bindA (retryable_err (reconcile_pending sha ob now)) (\<lambda>(ob', still).
            if \<not> still then finalize_new sha space u h mime now
            else if fo_status ob' \<noteq> ObjReady then throw UpErrFinalizeRetryable
            else finish_with u ob' now)
          else if fo_status ob = ObjDeleting then throw UpErrFinalizeRetryable
          else finish_with u ob now)"

definition fail_corrupt :: "upload \<Rightarrow> time \<Rightarrow> (world, upload_err, upload) act" where
  "fail_corrupt u now = bindA (tryA (mark_failed (us_id u) now)) (\<lambda>(_ :: upload_err + unit). throw UpErrStagingCorrupt)"

definition finalize ::
    "(bytes \<Rightarrow> bytes) \<Rightarrow> (bytes \<Rightarrow> string) \<Rightarrow> bool \<Rightarrow> nat option \<Rightarrow> time \<Rightarrow> upload \<Rightarrow> (world, upload_err, upload) act" where
  "finalize sha detect acquired space now u =
     (if \<not> acquired then throw UpErrFinalizeRetryable
      else bindA (tryA (stg_stat (us_id u))) (\<lambda>(st :: staging_err + int).
        if st \<noteq> Inr (expected_size u) then fail_corrupt u now
        else bindA (tryA (hash_staging sha detect (us_id u) (expected_size u))) (\<lambda>(hr :: upload_err + bytes \<times> string).
          (case hr of
             Inl _ \<Rightarrow> fail_corrupt u now
           | Inr (h, mime) \<Rightarrow>
               bindA (retryable_err (query UpIO (find_object h (expected_size u)))) (\<lambda>found.
               finalize_found sha space u h mime found now)))))"

section \<open>The invariant of stored objects\<close>

definition objects_ok :: "db \<Rightarrow> bool" where
  "objects_ok d \<longleftrightarrow> distinct (map fo_id (file_objects d))
     \<and> distinct (map (\<lambda>x. (sha256 x, size_bytes x)) (file_objects d))
     \<and> (\<forall>x\<in>set (file_objects d). 0 \<le> size_bytes x)"

definition content_ok :: "(bytes \<Rightarrow> bytes) \<Rightarrow> db \<Rightarrow> (storage_key \<times> bytes) list \<Rightarrow> bool" where
  "content_ok sha d s \<longleftrightarrow> (\<forall>x\<in>set (file_objects d). fo_status x = ObjReady \<longrightarrow>
     (\<exists>b. blob_get (ObjectKey (fo_id x)) s = Some b \<and> sha b = sha256 x \<and> int (length b) = size_bytes x))"

definition stored_ok :: "(bytes \<Rightarrow> bytes) \<Rightarrow> db \<Rightarrow> (storage_key \<times> bytes) list \<Rightarrow> bool" where
  "stored_ok sha d s \<longleftrightarrow> uploads_ok d \<and> objects_ok d \<and> content_ok sha d s"

text \<open>The object \<open>i\<close> is in the store with contents of hash \<open>h\<close> and size \<open>n\<close>.\<close>

definition holds_object :: "(bytes \<Rightarrow> bytes) \<Rightarrow> uuid \<Rightarrow> bytes \<Rightarrow> int \<Rightarrow> (storage_key \<times> bytes) list \<Rightarrow> bool" where
  "holds_object sha i h n s \<longleftrightarrow> (\<exists>b. blob_get (ObjectKey i) s = Some b \<and> sha b = h \<and> int (length b) = n)"

lemma content_ok_holds:
  "content_ok sha d s \<longleftrightarrow> (\<forall>x\<in>set (file_objects d). fo_status x = ObjReady \<longrightarrow> holds_object sha (fo_id x) (sha256 x) (size_bytes x) s)"
  by (simp add: content_ok_def holds_object_def)

lemma find_object_SomeD: "find_object h n d = Some x \<Longrightarrow> x \<in> set (file_objects d) \<and> sha256 x = h \<and> size_bytes x = n"
  by (auto simp: find_object_def find_Some_iff)

lemma find_object_None: "find_object h n d = None \<Longrightarrow> x \<in> set (file_objects d) \<Longrightarrow> (sha256 x, size_bytes x) \<noteq> (h, n)"
  by (auto simp: find_object_def find_None_iff)

lemma stored_ok_uploads:
  "stored_ok sha d s \<Longrightarrow> uploads_ok d' \<Longrightarrow> file_objects d' = file_objects d \<Longrightarrow> stored_ok sha d' s"
  by (simp add: stored_ok_def objects_ok_def content_ok_def)

lemma uploads_ok_cong:
  "uploads d' = uploads d \<Longrightarrow> parts d' = parts d \<Longrightarrow> sys_settings d' = sys_settings d \<Longrightarrow> uploads_ok d' = uploads_ok d"
  by (simp add: uploads_ok_def settings_ok_def part_fits_def)

lemma uploads_ok_files [simp]: "uploads_ok (d\<lparr>file_objects := x\<rparr>) = uploads_ok d"
  by (rule uploads_ok_cong) simp_all

lemma stored_transition: "stored_ok sha d s \<Longrightarrow> stored_ok sha (snd (transition_upload p st now d)) s"
  by (rule stored_ok_uploads [of sha d])
    (simp_all add: stored_ok_def uploads_ok_transition, simp_all add: transition_upload_def)

lemma stored_complete_session: "stored_ok sha d s \<Longrightarrow> stored_ok sha (snd (complete_session i owner f now d)) s"
  by (rule stored_ok_uploads)
    (auto simp: stored_ok_def complete_session_def Let_def same_shape_def intro!: uploads_ok_map)

lemma stored_delete:
  "stored_ok sha d s \<Longrightarrow> stored_ok sha (d\<lparr>file_objects := sql_delete p (file_objects d)\<rparr>) s"
  by (auto simp: stored_ok_def objects_ok_def content_ok_def set_sql_delete distinct_sql_delete)

lemma stored_insert: "stored_ok sha d s \<Longrightarrow> stored_ok sha (snd (insert_pending (new_object i h n mime now) d)) s"
  by (auto simp: stored_ok_def objects_ok_def content_ok_def insert_pending_def new_object_def sql_exists_iff
      dest: find_object_None)

lemma stored_ready:
  assumes "stored_ok sha d s" "holds_object sha (fo_id ob) (sha256 ob) (size_bytes ob) s"
  shows "stored_ok sha (snd (ready_object ob now d)) s"
proof -
  let ?p = "\<lambda>x. fo_id x = fo_id ob \<and> fo_status x = ObjPending \<and> sha256 x = sha256 ob \<and> size_bytes x = size_bytes ob"
  let ?f = "\<lambda>x. x\<lparr>fo_status := ObjReady, ready_at := Some now, fo_updated_at := now\<rparr>"
  have d: "snd (ready_object ob now d) = d\<lparr>file_objects := sql_update ?p ?f (file_objects d)\<rparr>"
    by (simp add: ready_object_def Let_def)
  have "map fo_id (sql_update ?p ?f (file_objects d)) = map fo_id (file_objects d)"
    "map (\<lambda>x. (sha256 x, size_bytes x)) (sql_update ?p ?f (file_objects d)) = map (\<lambda>x. (sha256 x, size_bytes x)) (file_objects d)"
    by (intro map_key_sql_update; simp)+
  with assms(1) have "objects_ok (snd (ready_object ob now d))"
    by (auto simp: d stored_ok_def objects_ok_def set_sql_update)
  moreover have "content_ok sha (snd (ready_object ob now d)) s"
    using assms by (auto simp: d stored_ok_def content_ok_holds set_sql_update)
  ultimately show ?thesis using assms(1) by (simp add: stored_ok_def d)
qed

section \<open>Steps that keep the invariant\<close>

lemma keeps_store_staging [keeps_intro]:
  "keeps (on_store P) (stg_path i)" "keeps (on_store P) (stg_open i)" "keeps (on_store P) (stg_stat i)"
  "keeps (on_store P) (stg_delete i)" "keeps (on_store P) (stg_read_all i)" "keeps (on_store P) (stg_read i)"
proof -
  show p: "keeps (on_store P) (stg_path i)" unfolding stg_path_def by (intro keeps_intro)
  show o: "keeps (on_store P) (stg_open i)"
    unfolding stg_open_def by (intro keeps_intro p keeps_ext) simp_all
  show "keeps (on_store P) (stg_stat i)"
    unfolding stg_stat_def by (intro keeps_intro p keeps_ext) simp_all
  show "keeps (on_store P) (stg_delete i)"
    unfolding stg_delete_def by (intro keeps_intro p keeps_ext) simp_all
  show r: "keeps (on_store P) (stg_read_all i)"
    unfolding stg_read_all_def by (intro keeps_ext) simp_all
  show "keeps (on_store P) (stg_read i)"
    unfolding stg_read_def by (intro keeps_intro o r)
qed

lemma keeps_mark_failed: "keeps (on_store (stored_ok sha)) (mark_failed i now)"
  unfolding mark_failed_def by (intro keeps_intro) (simp add: stored_transition)

lemma keeps_complete_with: "keeps (on_store (stored_ok sha)) (complete_with u f now)"
  unfolding complete_with_def
proof (rule keeps_on_store_tx)
  show "keeps (on_store (stored_ok sha)) (complete_with_tx u f now)"
    unfolding complete_with_tx_def by (intro keeps_intro stored_complete_session)
  show "db_only (complete_with_tx u f now)"
    by (rule db_onlyI) (unfold complete_with_tx_def, intro keeps_intro)
qed

lemma db_only_reserve: "db_only (reserve_pending_tx h n mime now)"
  by (rule db_onlyI) (unfold reserve_pending_tx_def, intro keeps_intro)

lemma keeps_store_path [keeps_intro]: "keeps I (store_path k)"
  unfolding store_path_def by (intro keeps_intro)

lemma keeps_store_delete:
  assumes "\<And>d s. P d s \<Longrightarrow> P d (blob_del k s)"
  shows "keeps (on_store P) (store_delete k)"
  unfolding store_delete_def by (intro keeps_intro keeps_ext) (use assms in \<open>auto simp: on_store_def\<close>)

lemma stored_temp:
  "stored_ok sha d s \<Longrightarrow> stored_ok sha d (blob_del (CommitTempKey i) s)"
  "stored_ok sha d s \<Longrightarrow> stored_ok sha d (blob_put (CommitTempKey i) b s)"
  by (simp_all add: stored_ok_def content_ok_def blob_get_del blob_get_put)

lemma keeps_release: "keeps (on_store (stored_ok sha)) (release_pending ob)"
  unfolding release_pending_def
  by (intro keeps_intro keeps_store_delete) (auto simp: stored_temp delete_pending_def stored_delete)

lemma triple_in_tx_commit:
  assumes "triple (on_store P) body (\<lambda>cx. on_store (\<lambda>d s. fst cx \<and> Q (snd cx) d s)) (\<lambda>_. True)" "db_only body"
    and "\<And>d s. P d s \<Longrightarrow> E d s" "\<And>x d s. Q x d s \<Longrightarrow> E d s"
  shows "triple (on_store P) (in_tx_with eb ec body) (\<lambda>x. on_store (Q x)) (on_store E)"
proof (rule triple_in_tx [OF _ assms(2-4)])
  show "triple (on_store P) body (\<lambda>cx. on_store (if fst cx then Q (snd cx) else (\<lambda>_ _. True))) (\<lambda>_. True)"
    using assms(1) by (rule triple_post) (auto simp: on_store_def)
  fix w x w' assume "on_store P w" "body w = (Inr (False, x), w')"
  with triple_Inr [OF assms(1)] show "Q x (wdb w) (store w)" by (force simp: on_store_def)
qed

lemma triple_query_any: "(\<And>d s. P d s \<Longrightarrow> Q (q d) d s) \<Longrightarrow> triple (on_store P) (query e q) (\<lambda>x. on_store (Q x)) (\<lambda>_. True)"
  by (rule triple_weaken [OF triple_query]) (auto simp: on_store_def)

lemma triple_exec_any: "(\<And>d s. P d s \<Longrightarrow> Q (fst (u d)) (snd (u d)) s) \<Longrightarrow> triple (on_store P) (exec e u) (\<lambda>x. on_store (Q x)) (\<lambda>_. True)"
  by (rule triple_weaken [OF triple_exec [where E = "\<lambda>_ _. True"]]) auto

text \<open>A reservation returns an object of the requested hash and size that is in the table.\<close>

lemma triple_reserve:
  "triple (on_store (stored_ok sha)) (reserve_pending h n mime now)
     (\<lambda>r. on_store (\<lambda>d s. stored_ok sha d s \<and> fst r \<in> set (file_objects d) \<and> sha256 (fst r) = h \<and> size_bytes (fst r) = n))
     (on_store (stored_ok sha))"
  unfolding reserve_pending_def
proof (rule triple_in_tx_commit [OF _ db_only_reserve])
  let ?P = "on_store (stored_ok sha)"
  show "triple ?P (reserve_pending_tx h n mime now) (\<lambda>cx. on_store (\<lambda>d s. fst cx \<and> stored_ok sha d s
      \<and> fst (snd cx) \<in> set (file_objects d) \<and> sha256 (fst (snd cx)) = h \<and> size_bytes (fst (snd cx)) = n)) (\<lambda>_. True)"
    unfolding reserve_pending_tx_def
  proof (rule triple_bind [where Q = "\<lambda>_. ?P"])
    show "triple ?P (exec UpIO (\<lambda>d. ((), d))) (\<lambda>_. ?P) (\<lambda>_. True)" by (rule triple_exec_any) simp
  next
    fix x :: unit
    show "triple ?P (bindA (query UpIO (find_object h n)) (\<lambda>existing.
     (case existing of
        Some ob \<Rightarrow> commit_tx (ob, False)
      | None \<Rightarrow>
          bindA (query UpIO (\<lambda>d. max_storage_bytes (sys_settings d))) (\<lambda>mx.
          bindA (query UpIO (\<lambda>d. sql_sum size_bytes (file_objects d))) (\<lambda>used.
          if over_quota n mx used then throw UpErrStorageQuota
          else bindA (new_id UpIO) (\<lambda>i.
            bindA (exec UpIO (insert_pending (new_object i h n mime now))) (\<lambda>ok.
            if \<not> ok then throw UpIO
            else bindA (query UpIO (find_object h n)) (\<lambda>actual.
              (case actual of None \<Rightarrow> throw UpIO
               | Some ob \<Rightarrow> commit_tx (ob, fo_id ob = i)))))))))) (\<lambda>cx. on_store (\<lambda>d s. fst cx \<and> stored_ok sha d s
      \<and> fst (snd cx) \<in> set (file_objects d) \<and> sha256 (fst (snd cx)) = h \<and> size_bytes (fst (snd cx)) = n)) (\<lambda>_. True)"
      unfolding commit_tx_def
      by (intro triple_bind [where Q = "\<lambda>x. on_store (\<lambda>d s. stored_ok sha d s \<and> find_object h n d = x)"]
            triple_bind [where Q = "\<lambda>_. ?P"] triple_query_any triple_exec_any triple_option triple_if triple_ret triple_throw
            triple_weaken [OF triple_new_id])
        (auto simp: on_store_def stored_insert dest: find_object_SomeD)
  qed
qed auto

section \<open>Reconciliation\<close>

abbreviation stored :: "(bytes \<Rightarrow> bytes) \<Rightarrow> world \<Rightarrow> bool" where
  "stored sha \<equiv> on_store (stored_ok sha)"

lemma keeps_store_read [keeps_intro]: "keeps (on_store P) (store_read k)" "keeps (on_store P) (store_stat k)"
  unfolding store_read_def store_stat_def by (intro keeps_intro keeps_ext; simp)+

lemma store_read_result:
  "triple (on_store P) (store_read k) (\<lambda>b. on_store (\<lambda>d s. P d s \<and> blob_get k s = Some b)) (on_store P)"
  "triple (on_store P) (store_stat k) (\<lambda>n. on_store (\<lambda>d s. P d s \<and> (\<exists>b. blob_get k s = Some b \<and> int (length b) = n))) (on_store P)"
proof -
  have e: "triple (on_store P) (ext StErrUnavailable (\<lambda>w. (blob_get k (store w), w)))
      (\<lambda>f. on_store (\<lambda>d s. P d s \<and> blob_get k s = f)) (on_store P)"
    by (rule triple_ext) (auto simp: on_store_def)
  have p: "triple (on_store P) (store_path k) (\<lambda>_. on_store P) (on_store P)"
    by (rule triple_keeps) (rule keeps_store_path)
  show "triple (on_store P) (store_read k) (\<lambda>b. on_store (\<lambda>d s. P d s \<and> blob_get k s = Some b)) (on_store P)"
    unfolding store_read_def
    by (intro triple_bind [OF p] triple_bind [OF e] triple_option triple_throw triple_ret) (auto simp: on_store_def)
  show "triple (on_store P) (store_stat k) (\<lambda>n. on_store (\<lambda>d s. P d s \<and> (\<exists>b. blob_get k s = Some b \<and> int (length b) = n))) (on_store P)"
    unfolding store_stat_def
    by (intro triple_bind [OF p] triple_bind [OF e] triple_option triple_throw triple_ret) (auto simp: on_store_def)
qed

text \<open>A READY row for the object \<open>f\<close> with hash \<open>h\<close> and size \<open>n\<close>.\<close>

definition ready_row :: "uuid \<Rightarrow> bytes \<Rightarrow> int \<Rightarrow> db \<Rightarrow> bool" where
  "ready_row f h n d \<longleftrightarrow> (\<exists>x\<in>set (file_objects d). fo_id x = f \<and> fo_status x = ObjReady \<and> sha256 x = h \<and> size_bytes x = n)"

lemma ready_object_row:
  assumes "fst (ready_object ob now d) = 1"
  shows "ready_row (fo_id ob) (sha256 ob) (size_bytes ob) (snd (ready_object ob now d))"
proof -
  let ?p = "\<lambda>x. fo_id x = fo_id ob \<and> fo_status x = ObjPending \<and> sha256 x = sha256 ob \<and> size_bytes x = size_bytes ob"
  have "sql_count ?p (file_objects d) \<noteq> 0" using assms by (simp add: ready_object_def Let_def)
  then obtain x where x: "x \<in> set (file_objects d)" "?p x" by (auto simp: sql_count_0)
  let ?x = "x\<lparr>fo_status := ObjReady, ready_at := Some now, fo_updated_at := now\<rparr>"
  have "?x \<in> set (file_objects (snd (ready_object ob now d)))"
    using x by (auto simp: ready_object_def Let_def set_sql_update image_iff intro!: bexI [of _ x])
  then show ?thesis unfolding ready_row_def by (rule bexI [rotated]) (use x in simp)
qed

lemma triple_ready:
  assumes "\<And>d s. P d s \<Longrightarrow> stored_ok sha d s \<and> holds_object sha (fo_id ob) (sha256 ob) (size_bytes ob) s"
  shows "triple (on_store P) (exec UpIO (ready_object ob now))
     (\<lambda>k. on_store (\<lambda>d s. stored_ok sha d s \<and> (k = 1 \<longrightarrow> ready_row (fo_id ob) (sha256 ob) (size_bytes ob) d))) (stored sha)"
  by (rule triple_exec) (use assms stored_ready ready_object_row in blast)+

text \<open>Whatever becomes READY in a reconciliation has its content in the store.\<close>

lemma triple_reconcile:
  assumes pending: "fo_status ob = ObjPending"
  shows "triple (stored sha) (reconcile_pending sha ob now)
     (\<lambda>r. on_store (\<lambda>d s. stored_ok sha d s \<and> (fo_status (fst r) = ObjReady
        \<longrightarrow> ready_row (fo_id (fst r)) (sha256 ob) (size_bytes ob) d))) (stored sha)"
  unfolding reconcile_pending_def
proof (rule triple_bind)
  let ?k = "ObjectKey (fo_id ob)"
  let ?Q = "\<lambda>r. on_store (\<lambda>d s. stored_ok sha d s \<and> (\<forall>n. r = Inr n \<longrightarrow> (\<exists>b. blob_get ?k s = Some b \<and> int (length b) = n)))"
  show "triple (stored sha) (tryA (store_stat ?k)) ?Q (stored sha)"
    by (rule triple_try [where F = "stored sha"], rule triple_weaken [OF store_read_result(2)]) (auto simp: on_store_def)
  fix r :: "storage_err + int"
  show "triple (?Q r) (case r of
        Inl e \<Rightarrow>
          if e = StErrNotFound then
            bindA (mapErr (\<lambda>_. UpIO) (store_delete (CommitTempKey (fo_id ob)))) (\<lambda>_.
            bindA (exec UpIO (delete_unreferenced_pending (fo_id ob))) (\<lambda>n.
            ret (ob, n = 0)))
          else throw UpIO
      | Inr n \<Rightarrow>
          if n \<noteq> size_bytes ob then throw UpIO
          else bindA (mapErr (\<lambda>_. UpIO) (store_read ?k)) (\<lambda>b.
            if sha b \<noteq> sha256 ob then throw UpIO
            else bindA (exec UpIO (ready_object ob now)) (\<lambda>k.
              if k \<noteq> 1 then throw UpIO else ret (ob\<lparr>fo_status := ObjReady\<rparr>, True))))
     (\<lambda>r. on_store (\<lambda>d s. stored_ok sha d s \<and> (fo_status (fst r) = ObjReady
        \<longrightarrow> ready_row (fo_id (fst r)) (sha256 ob) (size_bytes ob) d))) (stored sha)"
  proof (cases r)
    case (Inl e)
    have d: "triple (?Q r) (store_delete (CommitTempKey (fo_id ob))) (\<lambda>_. stored sha) (stored sha)"
      by (rule triple_pre [OF triple_keeps [OF keeps_store_delete]]) (auto simp: stored_temp on_store_def)
    have x: "triple (stored sha) (exec UpIO (delete_unreferenced_pending (fo_id ob))) (\<lambda>_. stored sha) (stored sha)"
      by (rule triple_keeps [OF keeps_on_store(3)]) (simp add: delete_unreferenced_pending_def Let_def stored_delete)
    show ?thesis
      unfolding Inl sum.case
      by (intro triple_if triple_bind [OF triple_mapErr [OF d [unfolded Inl]]] triple_bind [OF x] triple_ret triple_throw)
        (auto simp: on_store_def pending)
  next
    case (Inr n)
    let ?R = "\<lambda>b. on_store (\<lambda>d s. (stored_ok sha d s \<and> (\<exists>b. blob_get ?k s = Some b \<and> int (length b) = n)) \<and> blob_get ?k s = Some b)"
    have q: "?Q r = on_store (\<lambda>d s. stored_ok sha d s \<and> (\<exists>b. blob_get ?k s = Some b \<and> int (length b) = n))"
      by (simp add: Inr)
    have rd: "triple (?Q r) (mapErr (\<lambda>_. UpIO) (store_read ?k)) ?R (stored sha)"
      unfolding q
      by (rule triple_mapErr, rule triple_weaken [OF store_read_result(1) [where P = "\<lambda>d s. stored_ok sha d s
          \<and> (\<exists>b. blob_get ?k s = Some b \<and> int (length b) = n)"]]) (auto simp: on_store_def)
    have up: "triple (?R b) (exec UpIO (ready_object ob now))
        (\<lambda>k. on_store (\<lambda>d s. stored_ok sha d s \<and> (k = 1 \<longrightarrow> ready_row (fo_id ob) (sha256 ob) (size_bytes ob) d))) (stored sha)"
      if "n = size_bytes ob" "sha b = sha256 ob" for b
      by (rule triple_ready) (use that in \<open>auto simp: holds_object_def\<close>)
    show ?thesis
      unfolding Inr sum.case
      by (intro triple_if triple_bind [OF rd [unfolded Inr]] triple_bind [OF up] triple_ret triple_throw)
        (auto simp: on_store_def)
  qed
qed

section \<open>The copy\<close>

definition finished :: "(bytes \<Rightarrow> bytes) \<Rightarrow> upload \<Rightarrow> bytes \<Rightarrow> db \<Rightarrow> bool" where
  "finished sha u b d \<longleftrightarrow> (\<exists>x\<in>set (file_objects d). fo_status x = ObjReady \<and> sha256 x = sha b \<and> size_bytes x = expected_size u
     \<and> (\<exists>v\<in>set (uploads d). us_id v = us_id u \<and> us_status v = Completed \<and> file_object_id v = Some (fo_id x)))"

lemma complete_session_finishes:
  assumes "fst (complete_session (us_id u) (us_user u) f now d) = 1"
    and "x \<in> set (file_objects d)" "fo_id x = f" "fo_status x = ObjReady" "sha256 x = sha b" "size_bytes x = expected_size u"
  shows "finished sha u b (snd (complete_session (us_id u) (us_user u) f now d))"
proof -
  let ?p = "\<lambda>v. us_id v = us_id u \<and> us_user v = us_user u \<and> us_status v = Completing"
  from assms(1) have "sql_count ?p (uploads d) \<noteq> 0" by (simp add: complete_session_def Let_def)
  then obtain v where v: "v \<in> set (uploads d)" "?p v" by (auto simp: sql_count_0)
  let ?v = "v\<lparr>file_object_id := Some f, us_status := Completed, completed_at := Some now, us_updated_at := now\<rparr>"
  have "?v \<in> set (uploads (snd (complete_session (us_id u) (us_user u) f now d)))"
    unfolding complete_session_def Let_def using v by (auto simp: set_sql_update intro!: image_eqI [of _ _ v])
  moreover have "us_id ?v = us_id u" "us_status ?v = Completed" "file_object_id ?v = Some (fo_id x)"
    using v assms(3) by simp_all
  ultimately show ?thesis
    using assms(2-6) unfolding finished_def by (intro bexI [of _ x] conjI bexI [of _ ?v])
      (simp_all add: complete_session_def Let_def)
qed

lemma triple_complete_session:
  "triple (on_store (\<lambda>d s. stored_ok sha d s \<and> ready_row f (sha b) (expected_size u) d))
     (exec UpIO (complete_session (us_id u) (us_user u) f now))
     (\<lambda>n. on_store (\<lambda>d s. n = 1 \<longrightarrow> stored_ok sha d s \<and> finished sha u b d)) (\<lambda>_. True)"
  by (rule triple_exec_any) (auto simp: ready_row_def intro: stored_complete_session complete_session_finishes)

lemma triple_complete_with:
  "triple (on_store (\<lambda>d s. stored_ok sha d s \<and> ready_row f (sha b) (expected_size u) d)) (complete_with u f now)
     (\<lambda>_. on_store (\<lambda>d s. stored_ok sha d s \<and> finished sha u b d)) (stored sha)"
  unfolding complete_with_def
proof (rule triple_in_tx_commit)
  let ?P = "\<lambda>d s. stored_ok sha d s \<and> ready_row f (sha b) (expected_size u) d"
  show "db_only (complete_with_tx u f now)"
    by (rule db_onlyI) (unfold complete_with_tx_def, intro keeps_intro)
  show "triple (on_store ?P) (complete_with_tx u f now)
      (\<lambda>cx. on_store (\<lambda>d s. fst cx \<and> stored_ok sha d s \<and> finished sha u b d)) (\<lambda>_. True)"
    unfolding complete_with_tx_def commit_tx_def
    by (intro triple_bind [where Q = "\<lambda>_. on_store ?P"] triple_query_any triple_if triple_bind [OF triple_complete_session]
          triple_throw triple_ret)
      (auto simp: on_store_def)
qed auto

lemma triple_ready_and_complete:
  assumes "sha256 ob = sha b" "size_bytes ob = expected_size u"
  shows "triple (on_store (\<lambda>d s. stored_ok sha d s \<and> holds_object sha (fo_id ob) (sha256 ob) (size_bytes ob) s))
     (ready_and_complete u ob now) (\<lambda>_. on_store (\<lambda>d s. stored_ok sha d s \<and> finished sha u b d)) (stored sha)"
  unfolding ready_and_complete_def
proof (rule triple_in_tx_commit)
  let ?P = "\<lambda>d s. stored_ok sha d s \<and> holds_object sha (fo_id ob) (sha256 ob) (size_bytes ob) s"
  have r: "triple (on_store ?P) (exec UpIO (ready_object ob now))
      (\<lambda>k. on_store (\<lambda>d s. stored_ok sha d s \<and> (k = 1 \<longrightarrow> ready_row (fo_id ob) (sha256 ob) (size_bytes ob) d))) (\<lambda>_. True)"
    by (rule triple_weaken [OF triple_ready [where P = ?P]]) auto
  show "db_only (ready_and_complete_tx u ob now)"
    by (rule db_onlyI) (unfold ready_and_complete_tx_def, intro keeps_intro)
  show "triple (on_store ?P) (ready_and_complete_tx u ob now)
      (\<lambda>cx. on_store (\<lambda>d s. fst cx \<and> stored_ok sha d s \<and> finished sha u b d)) (\<lambda>_. True)"
    unfolding ready_and_complete_tx_def commit_tx_def
    by (intro triple_bind [where Q = "\<lambda>_. on_store ?P"] triple_query_any triple_if triple_bind [OF r]
          triple_bind [OF triple_pre [OF triple_complete_session [where b = b]]] triple_throw triple_ret)
      (auto simp: on_store_def assms)
qed auto

text \<open>The store operations of the copy, with the temporary file followed through them.\<close>

definition copying :: "(bytes \<Rightarrow> bytes) \<Rightarrow> uuid \<Rightarrow> bytes \<Rightarrow> uuid \<Rightarrow> bytes \<Rightarrow> world \<Rightarrow> bool" where
  "copying sha i b f t w \<longleftrightarrow> stored sha w \<and> blob_get i (staging w) = Some b \<and> blob_get (CommitTempKey f) (store w) = Some t"

definition staged :: "(bytes \<Rightarrow> bytes) \<Rightarrow> uuid \<Rightarrow> bytes \<Rightarrow> world \<Rightarrow> bool" where
  "staged sha i b w \<longleftrightarrow> stored sha w \<and> blob_get i (staging w) = Some b"

lemma staged_simps [simp]:
  "staged sha i b (w\<lparr>faults := fs\<rparr>) = staged sha i b w" "copying sha i b f t (w\<lparr>faults := fs\<rparr>) = copying sha i b f t w"
  by (simp_all add: staged_def copying_def)

lemma copying_staged: "copying sha i b f t w \<Longrightarrow> staged sha i b w" "staged sha i b w \<Longrightarrow> stored sha w"
  by (simp_all add: staged_def copying_def)

lemma triple_delete_temp: "triple (staged sha i b) (store_delete (CommitTempKey f)) (\<lambda>_. staged sha i b) (staged sha i b)"
proof (rule triple_keeps)
  show "keeps (staged sha i b) (store_delete (CommitTempKey f))"
    unfolding store_delete_def
    by (intro keeps_bindA keeps_store_path keeps_ext) (auto simp: staged_def on_store_def stored_temp)
qed

lemma triple_path: "triple P (store_path k) (\<lambda>_. P) P"
  by (rule triple_keeps) (rule keeps_store_path)

lemma triple_create_temp:
  "triple (staged sha i b) (create_commit_temp (CommitTempKey f)) (\<lambda>_. copying sha i b f []) (staged sha i b)"
  unfolding create_commit_temp_def object_keys
proof (simp, rule triple_bind [OF triple_path], rule triple_bind)
  show "triple (staged sha i b) (ext StErrUnavailable (\<lambda>w. if \<exists>y. blob_get (CommitTempKey f) (store w) = Some y then (False, w)
            else (True, w\<lparr>store := blob_put (CommitTempKey f) [] (store w)\<rparr>)))
      (\<lambda>fresh w. staged sha i b w \<and> (fresh \<longrightarrow> copying sha i b f [] w)) (staged sha i b)"
    by (rule triple_ext) (auto simp: staged_def copying_def on_store_def stored_temp blob_get_put)
qed (auto intro!: triple_if triple_ret triple_throw)

lemma triple_open: "triple (copying sha i b f t) (stg_open i) (\<lambda>_. copying sha i b f t) (copying sha i b f t)"
proof (rule triple_keeps)
  show "keeps (copying sha i b f t) (stg_open i)"
    unfolding stg_open_def stg_path_def by (intro keeps_intro keeps_ext) simp_all
qed

lemma triple_read_staged:
  "triple (copying sha i b f t) (stg_read_all i) (\<lambda>x w. copying sha i b f t w \<and> x = b) (copying sha i b f t)"
  unfolding stg_read_all_def by (rule triple_ext) (auto simp: copying_def)

lemma triple_append:
  "triple (copying sha i b f []) (store_append (CommitTempKey f) x) (\<lambda>_. copying sha i b f x) (stored sha)"
  unfolding store_append_def
  by (rule triple_ext) (auto simp: copying_def on_store_def stored_temp blob_get_put)

lemma triple_nop: "(\<And>w fs. P (w\<lparr>faults := fs\<rparr>) = P w) \<Longrightarrow> triple P (ext e (\<lambda>w. ((), w))) (\<lambda>_. P) P"
  by (rule triple_ext) auto

lemma stored_rename:
  assumes "stored_ok sha d s" "blob_get (ObjectKey f) s = None"
  shows "stored_ok sha d (blob_put (ObjectKey f) x (blob_del (CommitTempKey g) s))"
  using assms by (fastforce simp: stored_ok_def content_ok_def blob_get_put blob_get_del)

lemma triple_commit:
  "triple (copying sha i b f t) (store_commit (CommitTempKey f) (ObjectKey f))
     (\<lambda>_ w. staged sha i b w \<and> blob_get (ObjectKey f) (store w) = Some t) (stored sha)"
proof -
  let ?C = "copying sha i b f t"
  have p: "triple ?C (store_path k) (\<lambda>_. ?C) (stored sha)" for k
    by (rule triple_weaken [OF triple_path [of ?C]]) (auto dest: copying_staged)
  let ?N = "\<lambda>x w. ?C w \<and> (\<not> x \<longrightarrow> blob_get (ObjectKey f) (store w) = None)"
  have q: "triple ?C (ext StErrUnavailable (\<lambda>w. (blob_get (ObjectKey f) (store w) \<noteq> None, w))) ?N (stored sha)"
    by (rule triple_ext) (auto dest: copying_staged)
  let ?D = "\<lambda>w. staged sha i b w \<and> blob_get (ObjectKey f) (store w) = Some t"
  let ?ren = "\<lambda>w. case blob_get (CommitTempKey f) (store w) of None \<Rightarrow> (False, w)
          | Some b \<Rightarrow> (True, w\<lparr>store := blob_put (ObjectKey f) b (blob_del (CommitTempKey f) (store w))\<rparr>)"
  have r: "triple (?N False) (ext StErrUnavailable ?ren) (\<lambda>x w. ?D w) (stored sha)"
    by (rule triple_ext) (auto simp: copying_def staged_def on_store_def stored_rename blob_get_put)
  have n: "triple ?D (ext StErrUnavailable (\<lambda>w. ((), w))) (\<lambda>_. ?D) (stored sha)"
    by (rule triple_ext) (auto simp: staged_def)
  show ?thesis
    unfolding store_commit_def object_keys
    by (intro triple_bind [OF p] triple_bind [OF q] triple_if triple_throw triple_bind [OF triple_pre [OF r]] n)
      (auto dest: copying_staged)
qed

section \<open>Finalization as a whole\<close>

text \<open>\<open>target\<close>: the object row stands for the staged data \<open>b\<close> of the session.\<close>

definition target :: "(bytes \<Rightarrow> bytes) \<Rightarrow> upload \<Rightarrow> bytes \<Rightarrow> file_object \<Rightarrow> bool" where
  "target sha u b ob \<longleftrightarrow> sha256 ob = sha b \<and> size_bytes ob = int (length b) \<and> expected_size u = int (length b)"

abbreviation finished_world :: "(bytes \<Rightarrow> bytes) \<Rightarrow> upload \<Rightarrow> bytes \<Rightarrow> world \<Rightarrow> bool" where
  "finished_world sha u b \<equiv> on_store (\<lambda>d s. stored_ok sha d s \<and> finished sha u b d)"

lemma finished_stored: "finished_world sha u b w \<Longrightarrow> stored sha w"
  by (simp add: on_store_def)

lemma triple_delete_staging: "triple (on_store P) (delete_staging i) (\<lambda>_. on_store P) (on_store P)"
  unfolding delete_staging_def by (rule triple_keeps) (intro keeps_intro)

lemma triple_final_exists: "triple (stored sha) (final_exists ob) (\<lambda>_. stored sha) (stored sha)"
  unfolding final_exists_def by (rule triple_keeps) (intro keeps_intro)

lemma triple_try_ignore: "triple P m (\<lambda>_. P) P \<Longrightarrow> triple P (tryA m) (\<lambda>_. P) E"
  by (rule triple_try)

lemma triple_copy:
  assumes t: "target sha u b ob"
  shows "triple (staged sha (us_id u) b) (copy_to_store u ob now) (\<lambda>_. finished_world sha u b) (stored sha)"
proof -
  let ?i = "us_id u" and ?f = "fo_id ob"
  let ?S = "staged sha ?i b" and ?C = "copying sha ?i b ?f"
  let ?R = "\<lambda>x w. ?C [] w \<and> x = b"
  let ?D = "\<lambda>w. ?S w \<and> blob_get (ObjectKey ?f) (store w) = Some b"
  let ?H = "on_store (\<lambda>d s. stored_ok sha d s \<and> holds_object sha (fo_id ob) (sha256 ob) (size_bytes ob) s)"
  have DH: "?D w \<Longrightarrow> ?H w" for w
    using t by (auto simp: staged_def on_store_def holds_object_def target_def)
  have s1: "triple ?S (tryA (store_delete (CommitTempKey ?f))) (\<lambda>_. ?S) (stored sha)"
    by (rule triple_try_ignore) (rule triple_delete_temp)
  have s2: "triple ?S (mapErr g (create_commit_temp (CommitTempKey ?f))) (\<lambda>_. ?C []) (stored sha)"
    for g :: "storage_err \<Rightarrow> upload_err \<times> bool"
    by (rule triple_mapErr, rule triple_weaken [OF triple_create_temp]) (auto dest: copying_staged)
  have s3: "triple (?C []) (mapErr g (stg_open ?i)) (\<lambda>_. ?C []) (stored sha)"
    for g :: "staging_err \<Rightarrow> upload_err \<times> bool"
    by (rule triple_mapErr, rule triple_weaken [OF triple_open]) (auto dest!: copying_staged)
  have s4: "triple (?C []) (mapErr g (stg_read_all ?i)) ?R (stored sha)"
    for g :: "staging_err \<Rightarrow> upload_err \<times> bool"
    by (rule triple_mapErr, rule triple_weaken [OF triple_read_staged]) (auto dest!: copying_staged)
  have s5: "triple (?R x) (mapErr g (store_append (CommitTempKey ?f) x)) (\<lambda>_. ?C b) (stored sha)"
    for x and g :: "storage_err \<Rightarrow> upload_err \<times> bool"
    by (rule triple_mapErr, cases "x = b", rule triple_weaken [OF triple_append]) (auto simp: triple_def)
  have s6: "triple (?C b) (ext e (\<lambda>w. ((), w))) (\<lambda>_. ?C b) (stored sha)" for e :: "upload_err \<times> bool"
    by (rule triple_weaken [OF triple_nop [where P = "?C b"]]) (simp_all, auto dest!: copying_staged)
  let ?K = "\<lambda>c w. (case c of Inl _ \<Rightarrow> stored sha w | Inr _ \<Rightarrow> ?D w)"
  have s7: "triple (?C b) (tryA (store_commit (CommitTempKey ?f) (ObjectKey ?f))) ?K (stored sha)"
    by (rule triple_try [where F = "stored sha"]) (simp_all add: triple_commit)
  have s8: "triple (stored sha) (tryA (final_exists ob)) (\<lambda>_. stored sha) (stored sha)"
    by (rule triple_try_ignore) (rule triple_final_exists)
  have s9: "triple ?D (mapErr g (store_stat (ObjectKey ?f))) (\<lambda>_. ?H) (stored sha)"
    for g :: "storage_err \<Rightarrow> upload_err \<times> bool"
  proof (rule triple_mapErr, rule triple_weaken [OF triple_keeps])
    show "keeps ?H (store_stat (ObjectKey ?f))" by (rule keeps_store_read)
  qed (use DH in \<open>auto simp: on_store_def\<close>)
  have s10: "triple ?H (mapErr g (ready_and_complete u ob now)) (\<lambda>_. finished_world sha u b) (stored sha)"
    for g :: "upload_err \<Rightarrow> upload_err \<times> bool"
    using t by (intro triple_mapErr triple_ready_and_complete) (simp_all add: target_def)
  have s11: "triple (finished_world sha u b) (mapErr g (delete_staging ?i)) (\<lambda>_. finished_world sha u b) (stored sha)"
    for g :: "upload_err \<Rightarrow> upload_err \<times> bool"
    by (rule triple_mapErr, rule triple_weaken [OF triple_delete_staging [where P = "\<lambda>d s. stored_ok sha d s \<and> finished sha u b d"]])
      (auto simp: on_store_def)
  have tail: "triple (?K c) (case c of
          Inl _ \<Rightarrow> bindA (tryA (final_exists ob)) (\<lambda>(x :: storage_err + bool).
            throw (UpErrFinalizeRetryable, x \<noteq> Inr False))
        | Inr _ \<Rightarrow>
            bindA (mapErr (\<lambda>_. (UpErrFinalizeRetryable, True)) (store_stat (ObjectKey (fo_id ob)))) (\<lambda>n.
            if n \<noteq> expected_size u then throw (UpErrFinalizeRetryable, True)
            else bindA (mapErr (\<lambda>_. (UpErrFinalizeRetryable, True)) (ready_and_complete u ob now)) (\<lambda>_.
              bindA (mapErr (\<lambda>e. (e, True)) (delete_staging (us_id u))) (\<lambda>_.
              ret (completed_session u (fo_id ob) now))))) (\<lambda>_. finished_world sha u b) (stored sha)"
    for c :: "storage_err + unit"
    by (cases c; simp only: sum.case)
      (intro triple_bind [OF s8] triple_bind [OF s9] triple_bind [OF s10] triple_bind [OF s11] triple_if triple_throw triple_ret;
        auto simp: on_store_def)+
  show ?thesis
    unfolding copy_to_store_def
    by (intro triple_bind [OF s1] triple_bind [OF s2] triple_bind [OF s3] triple_bind [OF s4] triple_bind [OF s5]
        triple_if triple_bind [OF s6] triple_bind [OF s7] tail triple_throw)
      (auto dest!: copying_staged)
qed

lemma triple_release: "triple (stored sha) (release_pending ob) (\<lambda>_. stored sha) (stored sha)"
  by (rule triple_keeps) (rule keeps_release)

lemma triple_write_object:
  assumes "target sha u b ob"
  shows "triple (staged sha (us_id u) b) (write_object u ob now) (\<lambda>_. finished_world sha u b) (stored sha)"
proof -
  let ?K = "\<lambda>(r :: (upload_err \<times> bool) + upload) w. (case r of Inl _ \<Rightarrow> stored sha w | Inr _ \<Rightarrow> finished_world sha u b w)"
  have s: "triple (staged sha (us_id u) b) (tryA (copy_to_store u ob now)) ?K (stored sha)"
    by (rule triple_try [where F = "stored sha"]) (simp_all add: triple_copy [OF assms])
  have "triple (?K r) (case r of Inr v \<Rightarrow> ret v
      | Inl (e, keep) \<Rightarrow> if keep then throw e else bindA (release_pending ob) (\<lambda>_. throw e))
      (\<lambda>_. finished_world sha u b) (stored sha)" for r
    by (cases r; simp add: case_prod_beta; intro conjI impI triple_ret triple_throw triple_bind [OF triple_release])
  then show ?thesis
    unfolding write_object_def by (intro triple_bind [OF s])
qed

lemma off_db_store [keeps_intro]:
  "keeps (off_db (\<lambda>s _. P s)) (store_delete k)" "keeps (off_db (\<lambda>s _. P s)) (store_stat k)" "keeps (off_db (\<lambda>s _. P s)) (store_read k)"
  unfolding store_delete_def store_stat_def store_read_def
  by (intro keeps_bindA keeps_store_path keeps_ext keeps_option keeps_throw keeps_ret; simp add: off_db_def)+

lemma triple_staged_store:
  assumes "triple (stored sha) m (\<lambda>x w. stored sha w \<and> Q x w) (stored sha)" "\<And>P. keeps (off_db (\<lambda>s _. P s)) m"
  shows "triple (staged sha i b) m (\<lambda>x w. staged sha i b w \<and> Q x w) (stored sha)"
proof -
  have s: "staged sha i b = (\<lambda>w. stored sha w \<and> off_db (\<lambda>s _. blob_get i s = Some b) w)"
    by (simp add: staged_def off_db_def fun_eq_iff)
  show ?thesis
    unfolding s by (rule triple_weaken [OF triple_conj [OF assms(1) assms(2)]]) auto
qed

text \<open>A row for the staged data, READY in the table when its record says so.\<close>

definition candidate :: "(bytes \<Rightarrow> bytes) \<Rightarrow> upload \<Rightarrow> bytes \<Rightarrow> file_object \<Rightarrow> world \<Rightarrow> bool" where
  "candidate sha u b ob w \<longleftrightarrow> target sha u b ob \<and> (fo_status ob = ObjReady \<longrightarrow> ready_row (fo_id ob) (sha b) (expected_size u) (wdb w))"

lemma staged_reserve:
  assumes "expected_size u = int (length b)"
  shows "triple (staged sha i b) (reserve_pending (sha b) (expected_size u) mime now)
     (\<lambda>r w. staged sha i b w \<and> candidate sha u b (fst r) w) (stored sha)"
proof (rule triple_staged_store)
  show "triple (stored sha) (reserve_pending (sha b) (expected_size u) mime now)
      (\<lambda>r w. stored sha w \<and> candidate sha u b (fst r) w) (stored sha)"
    by (rule triple_weaken [OF triple_reserve])
      (use assms in \<open>auto simp: on_store_def candidate_def target_def ready_row_def\<close>)
  show "keeps (off_db (\<lambda>s _. K s)) (reserve_pending (sha b) (expected_size u) mime now)" for K
    unfolding reserve_pending_def reserve_pending_tx_def by (intro keeps_intro)
qed

lemma reconcile_identity:
  "reconcile_pending sha ob now w = (Inr r, w') \<Longrightarrow> fo_id (fst r) = fo_id ob \<and> sha256 (fst r) = sha256 ob \<and> size_bytes (fst r) = size_bytes ob"
proof -
  have "triple (\<lambda>_. True) (reconcile_pending sha ob now)
      (\<lambda>r _. fo_id (fst r) = fo_id ob \<and> sha256 (fst r) = sha256 ob \<and> size_bytes (fst r) = size_bytes ob) (\<lambda>_. True)"
    unfolding reconcile_pending_def
    by (intro triple_bind [where Q = "\<lambda>_ _. True"] triple_sum triple_if triple_ret triple_throw) (auto simp: triple_def split: prod.split sum.split)
  from triple_Inr [OF this] show "reconcile_pending sha ob now w = (Inr r, w') \<Longrightarrow> ?thesis" by blast
qed

lemma staged_reconcile:
  assumes t: "target sha u b ob" and p: "fo_status ob = ObjPending"
  shows "triple (staged sha i b) (reconcile_pending sha ob now)
     (\<lambda>r w. staged sha i b w \<and> candidate sha u b (fst r) w) (stored sha)"
proof (rule triple_staged_store)
  show "triple (stored sha) (reconcile_pending sha ob now)
      (\<lambda>r w. stored sha w \<and> candidate sha u b (fst r) w) (stored sha)"
  proof (rule tripleI)
    fix w r w' assume w: "stored sha w" "reconcile_pending sha ob now w = (Inr r, w')"
    from triple_Inr [OF triple_reconcile [OF p] w] reconcile_identity [OF w(2)] t
    show "stored sha w' \<and> candidate sha u b (fst r) w'"
      by (simp add: on_store_def candidate_def target_def)
  qed (rule triple_Inl [OF triple_reconcile [OF p]])
  show "keeps (off_db (\<lambda>s _. K s)) (reconcile_pending sha ob now)" for K
    unfolding reconcile_pending_def by (intro keeps_intro)
qed

lemma staged_settle:
  assumes "expected_size u = int (length b)"
  shows "triple (\<lambda>w. staged sha i b w \<and> candidate sha u b (fst res) w)
     (settle_reservation sha (sha b) (expected_size u) mime res now)
     (\<lambda>r w. staged sha i b w \<and> candidate sha u b (fst r) w) (stored sha)"
proof (cases "\<not> snd res \<and> fo_status (fst res) = ObjPending")
  case True
  let ?S = "\<lambda>r w. staged sha i b w \<and> candidate sha u b (fst r) w"
  show ?thesis
  proof (cases "target sha u b (fst res)")
    case t: True
    have 1: "triple (?S res) (retryable_err (reconcile_pending sha (fst res) now)) ?S (stored sha)"
      unfolding retryable_err_def
      by (rule triple_mapErr, rule triple_pre [OF staged_reconcile [OF t]]) (use True in auto)
    have 2: "triple (?S r) (retryable_err (reserve_pending (sha b) (expected_size u) mime now)) ?S (stored sha)"
      for r :: "file_object \<times> bool"
      unfolding retryable_err_def
      by (rule triple_mapErr, rule triple_pre [OF staged_reserve [OF assms]]) auto
    show ?thesis
      using True unfolding settle_reservation_def
      by (simp, intro triple_bind [OF 1] triple_prod triple_if triple_ret triple_bind [OF 2] triple_throw)
        (auto dest: copying_staged)
  qed (simp add: candidate_def triple_def)
qed (auto simp: settle_reservation_def intro!: triple_ret)

lemma staged_finish:
  assumes "fo_status ob = ObjReady"
  shows "triple (\<lambda>w. staged sha i b w \<and> candidate sha u b ob w) (complete_with u (fo_id ob) now)
     (\<lambda>_. finished_world sha u b) (stored sha)"
  by (rule triple_pre [OF triple_complete_with])
    (use assms in \<open>auto simp: candidate_def staged_def on_store_def\<close>)

lemma staged_finish_with:
  assumes "fo_status ob = ObjReady"
  shows "triple (\<lambda>w. staged sha i b w \<and> candidate sha u b ob w) (finish_with u ob now)
     (\<lambda>_. finished_world sha u b) (stored sha)"
proof -
  have d: "triple (finished_world sha u b) (delete_staging (us_id u)) (\<lambda>_. finished_world sha u b) (stored sha)"
    by (rule triple_weaken [OF triple_delete_staging [where P = "\<lambda>d s. stored_ok sha d s \<and> finished sha u b d"]])
      (auto simp: on_store_def)
  show ?thesis
    unfolding finish_with_def retryable_err_def
    by (intro triple_bind [OF triple_mapErr [OF staged_finish [OF assms]]] triple_bind [OF d] triple_ret)
qed

lemma staged_write:
  assumes "us_id u = i"
  shows "triple (\<lambda>w. staged sha i b w \<and> candidate sha u b ob w) (write_object u ob now)
     (\<lambda>_. finished_world sha u b) (stored sha)"
proof (cases "target sha u b ob")
  case True
  from triple_write_object [OF this] show ?thesis by (rule triple_pre) (simp add: assms)
qed (simp add: candidate_def triple_def)

lemma keeps_complete_with_staged:
  "keeps (off_db K) (complete_with u f now)"
  unfolding complete_with_def complete_with_tx_def by (intro keeps_intro)


lemma staged_finalize_new:
  assumes e: "expected_size u = int (length b)" and i: "us_id u = i"
  shows "triple (staged sha i b) (finalize_new sha space u (sha b) mime now) (\<lambda>_. finished_world sha u b) (stored sha)"
proof -
  let ?S = "\<lambda>r w. staged sha i b w \<and> candidate sha u b (fst r) w"
  let ?A = "\<lambda>r w. stored sha w \<and> off_db (\<lambda>s _. blob_get i s = Some b) w \<and> target sha u b (fst r)"
  let ?K = "\<lambda>(r :: upload_err + file_object \<times> bool) w. (case r of Inl _ \<Rightarrow> stored sha w | Inr x \<Rightarrow> ?S x w)"
  have 1: "triple (staged sha i b) (tryA (reserve_pending (sha b) (expected_size u) mime now)) ?K (stored sha)"
    by (rule triple_try [where F = "stored sha"]) (simp_all add: staged_reserve [OF e])
  have d: "triple (finished_world sha u b) (delete_staging (us_id u)) (\<lambda>_. finished_world sha u b) (stored sha)"
    by (rule triple_weaken [OF triple_delete_staging [where P = "\<lambda>d s. stored_ok sha d s \<and> finished sha u b d"]])
      (auto simp: on_store_def)
  have wr: "triple (?A r) (write_object u (fst r) now) (\<lambda>_. finished_world sha u b) (stored sha)"
    for r :: "file_object \<times> bool"
  proof (cases "target sha u b (fst r)")
    case True
    from triple_write_object [OF this] show ?thesis
      by (rule triple_pre) (simp add: i staged_def off_db_def)
  qed (simp add: triple_def)
  have ready: "triple (?S r) (bindA (tryA (complete_with u (fo_id (fst r)) now)) (\<lambda>(c :: upload_err + unit).
               (case c of
                  Inr _ \<Rightarrow> bindA (delete_staging (us_id u)) (\<lambda>_. ret (completed_session u (fo_id (fst r)) now))
                | Inl _ \<Rightarrow> if snd r then write_object u (fst r) now else throw UpErrFinalizeRetryable)))
       (\<lambda>_. finished_world sha u b) (stored sha)"
    if r: "fo_status (fst r) = ObjReady" for r :: "file_object \<times> bool"
  proof -
    let ?C = "\<lambda>(c :: upload_err + unit) w. (case c of Inl _ \<Rightarrow> ?A r w | Inr _ \<Rightarrow> finished_world sha u b w)"
    let ?F = "\<lambda>w. stored sha w \<and> off_db (\<lambda>s _. target sha u b (fst r) \<and> blob_get i s = Some b) w"
    have c0: "triple (\<lambda>w. ?S r w \<and> off_db (\<lambda>s _. target sha u b (fst r) \<and> blob_get i s = Some b) w)
        (complete_with u (fo_id (fst r)) now)
        (\<lambda>_ w. finished_world sha u b w \<and> off_db (\<lambda>s _. target sha u b (fst r) \<and> blob_get i s = Some b) w) ?F"
      by (rule triple_conj [OF staged_finish [OF r] keeps_complete_with_staged])
    have c1: "triple (?S r) (complete_with u (fo_id (fst r)) now) (\<lambda>_. finished_world sha u b) ?F"
      by (rule triple_weaken [OF c0]) (auto simp: off_db_def staged_def candidate_def)
    have c: "triple (?S r) (tryA (complete_with u (fo_id (fst r)) now)) ?C (stored sha)"
      by (rule triple_try [where F = ?F]) (use c1 in \<open>auto simp: off_db_def\<close>)
    have rest: "triple (?C c) (case c of
                  Inr _ \<Rightarrow> bindA (delete_staging (us_id u)) (\<lambda>_. ret (completed_session u (fo_id (fst r)) now))
                | Inl _ \<Rightarrow> if snd r then write_object u (fst r) now else throw UpErrFinalizeRetryable)
        (\<lambda>_. finished_world sha u b) (stored sha)" for c
    proof (cases c)
      case (Inl a)
      show ?thesis unfolding Inl sum.case by (intro triple_if wr triple_throw) simp
    next
      case (Inr a)
      show ?thesis unfolding Inr sum.case by (intro triple_bind [OF d] triple_ret)
    qed
    show ?thesis by (rule triple_bind [OF c rest])
  qed
  have fin: "triple (?S r) (if \<not> snd res \<and> fo_status (fst r) = ObjReady then
               bindA (tryA (complete_with u (fo_id (fst r)) now)) (\<lambda>(c :: upload_err + unit).
               (case c of
                  Inr _ \<Rightarrow> bindA (delete_staging (us_id u)) (\<lambda>_. ret (completed_session u (fo_id (fst r)) now))
                | Inl _ \<Rightarrow> if snd r then write_object u (fst r) now else throw UpErrFinalizeRetryable))
             else if \<not> snd r then throw UpErrFinalizeRetryable
             else write_object u (fst r) now) (\<lambda>_. finished_world sha u b) (stored sha)"
    for r res :: "file_object \<times> bool"
    by (intro triple_if ready triple_throw staged_write [OF i]) (auto dest: copying_staged)
  have tail: "triple (?K r) (case r of
           Inl e \<Rightarrow> throw (if e = UpErrStorageQuota then e else UpErrFinalizeRetryable)
         | Inr res \<Rightarrow>
             bindA (settle_reservation sha (sha b) (expected_size u) mime res now) (\<lambda>res2.
             if \<not> snd res \<and> fo_status (fst res2) = ObjReady then
               bindA (tryA (complete_with u (fo_id (fst res2)) now)) (\<lambda>(c :: upload_err + unit).
               (case c of
                  Inr _ \<Rightarrow> bindA (delete_staging (us_id u)) (\<lambda>_. ret (completed_session u (fo_id (fst res2)) now))
                | Inl _ \<Rightarrow> if snd res2 then write_object u (fst res2) now else throw UpErrFinalizeRetryable))
             else if \<not> snd res2 then throw UpErrFinalizeRetryable
             else write_object u (fst res2) now)) (\<lambda>_. finished_world sha u b) (stored sha)" for r
  proof (cases r)
    case (Inl a)
    show ?thesis unfolding Inl sum.case by (rule triple_throw) simp
  next
    case (Inr res)
    show ?thesis unfolding Inr sum.case by (rule triple_bind [OF staged_settle [OF e] fin])
  qed
  show ?thesis
    unfolding finalize_new_def
    by (intro triple_if triple_throw triple_bind [OF 1 tail]) (auto dest: copying_staged)
qed

text \<open>Without staged data of the expected size the finalizer only fails.\<close>

lemma triple_stg_open: "triple (staged sha i b) (stg_open i) (\<lambda>_. staged sha i b) (staged sha i b)"
proof (rule triple_keeps)
  show "keeps (staged sha i b) (stg_open i)"
    unfolding stg_open_def stg_path_def by (intro keeps_intro keeps_ext) simp_all
qed

lemma triple_stg_stat:
  "triple (staged sha i b) (stg_stat i) (\<lambda>n w. staged sha i b w \<and> n = int (length b)) (staged sha i b)"
proof -
  have p: "triple (staged sha i b) (stg_path i) (\<lambda>_. staged sha i b) (staged sha i b)"
    by (rule triple_keeps) (unfold stg_path_def, intro keeps_intro)
  have f: "triple (staged sha i b) (ext StgErrUnavailable (\<lambda>w. (blob_get i (staging w), w)))
      (\<lambda>f w. staged sha i b w \<and> f = Some b) (staged sha i b)"
    by (rule triple_ext) (simp_all, simp_all add: staged_def)
  show ?thesis
    unfolding stg_stat_def by (intro triple_bind [OF p] triple_bind [OF f] triple_option triple_throw triple_ret) auto
qed

lemma triple_stg_read:
  "triple (staged sha i b) (stg_read i) (\<lambda>x w. staged sha i b w \<and> x = b) (staged sha i b)"
  unfolding stg_read_def
proof (rule triple_bind [OF triple_stg_open])
  show "triple (staged sha i b) (stg_read_all i) (\<lambda>x w. staged sha i b w \<and> x = b) (staged sha i b)"
    unfolding stg_read_all_def by (rule triple_ext) (simp_all, simp_all add: staged_def)
qed

lemma triple_hash_staging:
  "triple (staged sha i b) (hash_staging sha detect i n) (\<lambda>hr w. staged sha i b w \<and> fst hr = sha b) (staged sha i b)"
proof -
  have r: "triple (staged sha i b) (mapErr g (stg_read i)) (\<lambda>x w. staged sha i b w \<and> x = b) (staged sha i b)"
    for g :: "staging_err \<Rightarrow> upload_err" by (rule triple_mapErr) (rule triple_stg_read)
  show ?thesis unfolding hash_staging_def
    by (intro triple_bind [OF r] triple_if triple_throw triple_ret) auto
qed

lemma triple_mark_failed: "triple (stored sha) (mark_failed i now) (\<lambda>_. stored sha) (stored sha)"
  by (rule triple_keeps) (rule keeps_mark_failed)

lemma triple_fail_corrupt:
  "triple (staged sha i b) (fail_corrupt u now) (\<lambda>_. finished_world sha u b) (stored sha)"
proof -
  have "triple (staged sha i b) (tryA (mark_failed (us_id u) now)) (\<lambda>_. stored sha) (stored sha)"
    by (rule triple_pre [OF triple_try_ignore [OF triple_mark_failed]]) (rule copying_staged)
  then show ?thesis unfolding fail_corrupt_def by (rule triple_bind) (rule triple_throw)
qed

lemma staged_find:
  assumes e: "expected_size u = int (length b)"
  shows "triple (staged sha i b) (retryable_err (query UpIO (find_object (sha b) (expected_size u))))
     (\<lambda>found w. staged sha i b w \<and> (\<forall>ob. found = Some ob \<longrightarrow> candidate sha u b ob w)) (stored sha)"
proof -
  have "triple (stored sha) (query UpIO (find_object (sha b) (expected_size u)))
      (\<lambda>f w. stored sha w \<and> (\<forall>ob. f = Some ob \<longrightarrow> candidate sha u b ob w)) (stored sha)"
    by (rule triple_weaken [OF triple_query [where P = "stored_ok sha"]])
      (auto simp: on_store_def candidate_def target_def ready_row_def e dest!: find_object_SomeD)
  then show ?thesis unfolding retryable_err_def
    by (intro triple_mapErr triple_staged_store) (simp_all add: keeps_off_db)
qed

lemma staged_found:
  assumes e: "expected_size u = int (length b)" and i: "us_id u = i"
  shows "triple (\<lambda>w. staged sha i b w \<and> (\<forall>ob. found = Some ob \<longrightarrow> candidate sha u b ob w))
     (finalize_found sha space u (sha b) mime found now) (\<lambda>_. finished_world sha u b) (stored sha)"
proof (cases found)
  case None
  show ?thesis unfolding None finalize_found_def option.case by (rule triple_pre [OF staged_finalize_new [OF e i]]) simp
next
  case (Some ob)
  let ?S = "\<lambda>ob w. staged sha i b w \<and> candidate sha u b ob w"
  have rec: "triple (?S ob) (retryable_err (reconcile_pending sha ob now)) (\<lambda>r. ?S (fst r)) (stored sha)"
    if "fo_status ob = ObjPending"
  proof (cases "target sha u b ob")
    case True
    show ?thesis unfolding retryable_err_def
      by (rule triple_mapErr, rule triple_pre [OF staged_reconcile [OF True that]]) simp
  qed (simp add: candidate_def triple_def)
  have new: "triple (?S ob') (finalize_new sha space u (sha b) mime now) (\<lambda>_. finished_world sha u b) (stored sha)" for ob'
    by (rule triple_pre [OF staged_finalize_new [OF e i]]) simp
  have st: "?S ob' w \<Longrightarrow> stored sha w" for ob' w by (blast dest: copying_staged)
  have k: "triple (\<lambda>w. ?S (fst r) w) (case r of (ob', still) \<Rightarrow>
      if \<not> still then finalize_new sha space u (sha b) mime now
      else if fo_status ob' \<noteq> ObjReady then throw UpErrFinalizeRetryable
      else finish_with u ob' now) (\<lambda>_. finished_world sha u b) (stored sha)" for r
    by (cases r; simp; intro conjI impI new staged_finish_with triple_throw; blast dest: copying_staged)
  have "triple (?S ob) (finalize_found sha space u (sha b) mime (Some ob) now) (\<lambda>_. finished_world sha u b) (stored sha)"
    unfolding finalize_found_def option.case
    by (intro triple_if triple_bind [OF rec k] triple_throw st [where ob' = ob] staged_finish_with; (cases "fo_status ob")?; simp)
  then show ?thesis unfolding Some by (rule triple_pre) simp
qed

text \<open>Finalizing a session whose staging file holds \<open>b\<close>.\<close>

lemma staged_finalize:
  "triple (staged sha (us_id u) b) (finalize sha detect acquired space now u) (\<lambda>_. finished_world sha u b) (stored sha)"
proof -
  let ?i = "us_id u" and ?Q = "\<lambda>_ :: upload. finished_world sha u b"
  let ?S = "staged sha ?i b"
  have st: "triple ?S (tryA (stg_stat ?i)) (\<lambda>r w. ?S w \<and> (\<forall>n. r = Inr n \<longrightarrow> n = int (length b))) (stored sha)"
    by (rule triple_try [where F = "?S"]) (simp_all add: triple_stg_stat)
  have fail: "triple (\<lambda>w. ?S w \<and> K) (fail_corrupt u now) ?Q (stored sha)" for K
    by (rule triple_pre [OF triple_fail_corrupt [where i = ?i]]) simp
  let ?H = "\<lambda>(hr :: upload_err + bytes \<times> string) w. ?S w \<and> (\<forall>p. hr = Inr p \<longrightarrow> fst p = sha b)"
  have hs: "triple ?S (tryA (hash_staging sha detect ?i n)) ?H (stored sha)" for n
    by (rule triple_try [where F = "?S"]) (simp_all add: triple_hash_staging)
  have hash: "triple (?H hr) (case hr of
      Inl _ \<Rightarrow> fail_corrupt u now
    | Inr (h, mime) \<Rightarrow> bindA (retryable_err (query UpIO (find_object h (expected_size u)))) (\<lambda>found.
        finalize_found sha space u h mime found now)) ?Q (stored sha)" if e: "expected_size u = int (length b)" for hr
  proof (cases hr)
    case (Inl a)
    show ?thesis unfolding Inl sum.case by (rule fail)
  next
    case (Inr p)
    obtain h mime where p: "p = (h, mime)" by fastforce
    show ?thesis
    proof (cases "h = sha b")
      case True
      show ?thesis unfolding Inr p sum.case prod.case True
        by (rule triple_pre [OF triple_bind [OF staged_find [OF e] staged_found [OF e refl]]]) simp
    qed (simp add: Inr p triple_def)
  qed
  have rest: "triple (\<lambda>w. ?S w \<and> (\<forall>n. x = Inr n \<longrightarrow> n = int (length b))) (if x \<noteq> Inr (expected_size u) then fail_corrupt u now
      else bindA (tryA (hash_staging sha detect ?i (expected_size u))) (\<lambda>(hr :: upload_err + bytes \<times> string).
        (case hr of
           Inl _ \<Rightarrow> fail_corrupt u now
         | Inr (h, mime) \<Rightarrow> bindA (retryable_err (query UpIO (find_object h (expected_size u)))) (\<lambda>found.
             finalize_found sha space u h mime found now)))) ?Q (stored sha)" for x :: "staging_err + int"
  proof (cases "x = Inr (int (length b))")
    case True
    then have e: "\<not> x \<noteq> Inr (expected_size u) \<Longrightarrow> expected_size u = int (length b)" by simp
    show ?thesis
    proof (rule triple_if [OF fail], rule triple_pre)
      assume "\<not> x \<noteq> Inr (expected_size u)"
      from triple_bind [OF hs hash [OF e [OF this]]]
      show "triple ?S (bindA (tryA (hash_staging sha detect ?i (expected_size u))) (\<lambda>(hr :: upload_err + bytes \<times> string).
        (case hr of
           Inl _ \<Rightarrow> fail_corrupt u now
         | Inr (h, mime) \<Rightarrow> bindA (retryable_err (query UpIO (find_object h (expected_size u)))) (\<lambda>found.
             finalize_found sha space u h mime found now)))) ?Q (stored sha)" by simp
    qed simp
  next
    case False
    show ?thesis
    proof (rule triple_if [OF fail])
      assume x: "\<not> x \<noteq> Inr (expected_size u)"
      show "triple (\<lambda>w. ?S w \<and> (\<forall>n. x = Inr n \<longrightarrow> n = int (length b))) m ?Q (stored sha)" for m
        using False x by (cases x) (simp_all add: triple_def)
    qed
  qed
  show ?thesis unfolding finalize_def
    by (intro triple_if triple_throw triple_bind [OF st rest]) (rule copying_staged)
qed

text \<open>Without a staging file the finalizer cannot succeed, and keeps the invariant.\<close>

definition unstaged :: "(bytes \<Rightarrow> bytes) \<Rightarrow> uuid \<Rightarrow> world \<Rightarrow> bool" where
  "unstaged sha i w \<longleftrightarrow> stored sha w \<and> blob_get i (staging w) = None"

lemma triple_stg_stat_none: "triple (unstaged sha i) (stg_stat i) (\<lambda>_ _. False) (stored sha)"
proof -
  have p: "triple (unstaged sha i) (stg_path i) (\<lambda>_. unstaged sha i) (stored sha)"
    unfolding stg_path_def by (intro triple_if triple_ret triple_throw) (simp_all add: unstaged_def)
  have f: "triple (unstaged sha i) (ext StgErrUnavailable (\<lambda>w. (blob_get i (staging w), w)))
      (\<lambda>f w. stored sha w \<and> f = None) (stored sha)"
    by (rule triple_ext) (simp_all add: unstaged_def)
  show ?thesis
    unfolding stg_stat_def by (intro triple_bind [OF p] triple_bind [OF f] triple_option triple_throw triple_ret) auto
qed

lemma unstaged_finalize:
  "triple (unstaged sha (us_id u)) (finalize sha detect acquired space now u) (\<lambda>_ _. False) (stored sha)"
proof -
  let ?i = "us_id u"
  have st: "triple (unstaged sha ?i) (tryA (stg_stat ?i)) (\<lambda>r w. stored sha w \<and> (\<exists>e. r = Inl e)) (stored sha)"
    by (rule triple_try [where F = "stored sha"], rule triple_weaken [OF triple_stg_stat_none]) auto
  have fail: "triple (stored sha) (fail_corrupt u now) (\<lambda>_ _. False) (stored sha)"
    unfolding fail_corrupt_def
    by (rule triple_bind [OF triple_try_ignore [OF triple_mark_failed]]) (rule triple_throw)
  have rest: "triple (\<lambda>w. stored sha w \<and> (\<exists>e. x = Inl e)) (if x \<noteq> Inr (expected_size u) then fail_corrupt u now else m)
      (\<lambda>_ _. False) (stored sha)" for x :: "staging_err + int" and m
  proof (rule triple_if)
    show "triple (\<lambda>w. stored sha w \<and> (\<exists>e. x = Inl e)) (fail_corrupt u now) (\<lambda>_ _. False) (stored sha)"
      by (rule triple_pre [OF fail]) simp
  qed (cases x; simp add: triple_def)
  show ?thesis unfolding finalize_def
    by (intro triple_if triple_throw triple_bind [OF st rest]) (simp add: unstaged_def)
qed

lemma keeps_finalize: "keeps (stored sha) (finalize sha detect acquired space now u)"
proof (rule keepsI)
  fix w assume s: "stored sha w"
  let ?m = "finalize sha detect acquired space now u"
  show "stored sha (snd (?m w))"
  proof (cases "blob_get (us_id u) (staging w)")
    case None
    then have "unstaged sha (us_id u) w" using s by (simp add: unstaged_def)
    moreover have "triple (unstaged sha (us_id u)) ?m (\<lambda>_. stored sha) (stored sha)"
      by (rule triple_post [OF unstaged_finalize]) simp
    ultimately show ?thesis by (rule triple_any [rotated])
  next
    case (Some b)
    then have "staged sha (us_id u) b w" using s by (simp add: staged_def)
    moreover have "triple (staged sha (us_id u) b) ?m (\<lambda>_. stored sha) (stored sha)"
      by (rule triple_post [OF staged_finalize]) (rule finished_stored)
    ultimately show ?thesis by (rule triple_any [rotated])
  qed
qed

section \<open>Finalization and the upload tables\<close>

lemma keeps_db_store [keeps_intro]:
  "keeps (on_db J) (store_delete k)" "keeps (on_db J) (store_stat k)" "keeps (on_db J) (store_read k)"
  "keeps (on_db J) (create_commit_temp k)" "keeps (on_db J) (store_append k b)" "keeps (on_db J) (store_commit k k')"
  unfolding store_delete_def store_stat_def store_read_def create_commit_temp_def store_append_def store_commit_def
  by (intro keeps_intro keeps_ext_files; simp split: option.split)+

lemma keeps_db_staging [keeps_intro]: "keeps (on_db J) (stg_read_all i)"
  unfolding stg_read_all_def by (intro keeps_ext_files) simp

text \<open>What finalization does to the database: object rows change, and the session goes from
  COMPLETING to COMPLETED or FAILED.\<close>

lemma keeps_db_finalize_rows:
  assumes ready: "\<And>d ob. J d \<Longrightarrow> J (snd (ready_object ob now d))" and ins: "\<And>d i h n mime. J d \<Longrightarrow> J (snd (insert_pending (new_object i h n mime now) d))"
    and del: "\<And>d i. J d \<Longrightarrow> J (snd (delete_unreferenced_pending i d))" "\<And>d i. J d \<Longrightarrow> J (snd (delete_pending i d))"
    and failed: "\<And>d i. J d \<Longrightarrow> J (snd (transition_upload (\<lambda>u. us_id u = i \<and> us_status u = Completing) Failed now d))"
    and compl: "\<And>d i owner f. J d \<Longrightarrow> J (snd (complete_session i owner f now d))"
  shows "keeps (on_db J) (finalize sha detect acquired space now u)"
proof -
  have rsv: "keeps (on_db J) (reserve_pending h n mime now)" for h n mime
    unfolding reserve_pending_def reserve_pending_tx_def by (intro keeps_intro ins) simp
  have rec: "keeps (on_db J) (reconcile_pending sha ob now)" for ob
    unfolding reconcile_pending_def by (intro keeps_intro ready del)
  have cw: "keeps (on_db J) (complete_with u f now)" for f
    unfolding complete_with_def complete_with_tx_def by (intro keeps_intro compl)
  have rc: "keeps (on_db J) (ready_and_complete u ob now)" for ob
    unfolding ready_and_complete_def ready_and_complete_tx_def by (intro keeps_intro compl ready)
  have ds: "keeps (on_db J) (delete_staging i)" for i
    unfolding delete_staging_def by (intro keeps_intro)
  have wr: "keeps (on_db J) (write_object u ob now)" for ob
    unfolding write_object_def copy_to_store_def release_pending_def final_exists_def
    by (intro keeps_intro rc ds keeps_ext_files del) simp_all
  have new: "keeps (on_db J) (finalize_new sha space u h mime now)" for h mime
    unfolding finalize_new_def settle_reservation_def retryable_err_def by (intro keeps_intro rsv rec cw ds wr)
  have mf: "keeps (on_db J) (fail_corrupt u now)"
    unfolding fail_corrupt_def mark_failed_def by (intro keeps_intro) (simp add: failed)
  show ?thesis
    unfolding finalize_def finalize_found_def finish_with_def retryable_err_def hash_staging_def
    by (intro keeps_intro mf new rec cw ds)
qed

lemma keeps_db_finalize:
  assumes files: "\<And>d x. J d \<Longrightarrow> J (d\<lparr>file_objects := x\<rparr>)"
    and failed: "\<And>d i. J d \<Longrightarrow> J (snd (transition_upload (\<lambda>u. us_id u = i \<and> us_status u = Completing) Failed now d))"
    and compl: "\<And>d i owner f. J d \<Longrightarrow> J (snd (complete_session i owner f now d))"
  shows "keeps (on_db J) (finalize sha detect acquired space now u)"
  by (rule keeps_db_finalize_rows [OF _ _ _ _ failed compl])
    (simp_all add: files ready_object_def delete_unreferenced_pending_def delete_pending_def insert_pending_def Let_def)

lemma uploads_ok_complete_session: "uploads_ok d \<Longrightarrow> uploads_ok (snd (complete_session i owner f now d))"
  by (auto simp: complete_session_def Let_def same_shape_def intro!: uploads_ok_map)


lemma find_append: "find p (xs @ ys) = (case find p xs of None \<Rightarrow> find p ys | Some x \<Rightarrow> Some x)"
  by (induction xs) auto

lemma find_object_snoc:
  "find_object h n (d\<lparr>file_objects := xs @ [x]\<rparr>) = (case find_object h n (d\<lparr>file_objects := xs\<rparr>) of
     None \<Rightarrow> if sha256 x = h \<and> size_bytes x = n then Some x else None | Some y \<Rightarrow> Some y)"
  by (simp add: find_object_def find_append split: option.split)

section \<open>Properties\<close>

text \<open>C3: whatever calls fail while a session is finalized, the tables and the object store keep
  their invariant: object ids and (hash, size) pairs are unique, and every READY object has its
  content in the store, with the recorded hash and size. When finalization succeeds there was
  staged data, the session is COMPLETED, and the object it names is READY and holds content with
  the hash of the staged data and the expected size.\<close>

theorem finalize_stores_the_upload:
  assumes "stored_ok sha (wdb w) (store w)" "finalize sha detect acquired space now u w = (r, w')"
  shows "stored_ok sha (wdb w') (store w') \<and> (\<forall>v. r = Inr v \<longrightarrow>
    (\<exists>b x c s. blob_get (us_id u) (staging w) = Some b \<and> x \<in> set (file_objects (wdb w')) \<and> fo_status x = ObjReady
       \<and> blob_get (ObjectKey (fo_id x)) (store w') = Some c \<and> sha c = sha b \<and> int (length c) = expected_size u
       \<and> s \<in> set (uploads (wdb w')) \<and> us_id s = us_id u \<and> us_status s = Completed \<and> file_object_id s = Some (fo_id x)))"
proof -
  have w: "stored sha w" using assms(1) by (simp add: on_store_def)
  have inv: "stored_ok sha (wdb w') (store w')"
    using keepsD [OF keeps_finalize w assms(2)] by (simp add: on_store_def)
  have "\<exists>b. blob_get (us_id u) (staging w) = Some b \<and> finished sha u b (wdb w')" if r: "r = Inr v" for v
  proof (cases "blob_get (us_id u) (staging w)")
    case None
    then have "unstaged sha (us_id u) w" using w by (simp add: unstaged_def)
    from triple_Inr [OF unstaged_finalize this assms(2) [unfolded r]] show ?thesis ..
  next
    case (Some b)
    then have "staged sha (us_id u) b w" using w by (simp add: staged_def)
    from triple_Inr [OF staged_finalize this assms(2) [unfolded r]] Some show ?thesis
      by (simp add: on_store_def)
  qed
  moreover have "\<exists>c. blob_get (ObjectKey (fo_id x)) (store w') = Some c \<and> sha c = sha256 x \<and> int (length c) = size_bytes x"
    if "x \<in> set (file_objects (wdb w'))" "fo_status x = ObjReady" for x
    using inv that by (auto simp: stored_ok_def content_ok_def)
  ultimately show ?thesis using inv by (simp add: finished_def) metis
qed

text \<open>C39: a reservation keeps the storage quota. When it creates an object, the sizes of all
  stored objects, the new one included, add up to at most the configured maximum; when it does
  not, the tables are as before and the object returned has the requested hash and size. The test cannot be defeated by wrap-around.\<close>

theorem reservations_respect_the_quota:
  assumes "0 \<le> n" "reserve_pending h n mime now w = (Inr (ob, created), w')"
  shows "sha256 ob = h \<and> size_bytes ob = n \<and> ob \<in> set (file_objects (wdb w'))
    \<and> (if wdb w' = wdb w then \<not> created
       else created \<and> (\<forall>m. max_storage_bytes (sys_settings (wdb w)) = Some m \<and> in_int64 m \<longrightarrow> sql_sum size_bytes (file_objects (wdb w')) \<le> m))"
proof -
  from assms(2) obtain w0 w1 where w0: "wdb w0 = wdb w" "wdb w' = wdb w1"
    and b: "reserve_pending_tx h n mime now w0 = (Inr (True, (ob, created)), w1)"
    unfolding reserve_pending_def
    by (cases rule: in_tx_Inr) (auto simp: reserve_pending_tx_def act_Inr split: option.splits)
  let ?d = "wdb w"
  show ?thesis
  proof (cases "find_object h n ?d")
    case (Some x)
    with b have "ob = x" "\<not> created" "wdb w1 = ?d"
      by (auto simp: reserve_pending_tx_def act_Inr w0 dest!: exec_Inr query_Inr)
    with Some w0 show ?thesis by (auto dest: find_object_SomeD)
  next
    case None
    with b obtain i where ok: "fst (insert_pending (new_object i h n mime now) ?d)"
        "wdb w1 = snd (insert_pending (new_object i h n mime now) ?d)" "find_object h n (wdb w1) = Some ob" "created \<longleftrightarrow> fo_id ob = i"
      and q: "\<not> over_quota n (max_storage_bytes (sys_settings ?d)) (sql_sum size_bytes (file_objects ?d))"
      by (auto simp: reserve_pending_tx_def act_Inr w0 split: option.splits dest!: exec_Inr query_Inr new_id_Inr)
    let ?o = "new_object i h n mime now"
    have d1: "wdb w1 = ?d\<lparr>file_objects := file_objects ?d @ [?o]\<rparr>"
      using ok(1,2) None by (simp add: insert_pending_def new_object_def split: if_splits)
    then have ob: "ob = ?o"
      using ok(3) None by (simp add: find_object_snoc new_object_def)
    have m: "sql_sum size_bytes (file_objects ?d) + n \<le> m" if "max_storage_bytes (sys_settings ?d) = Some m" "in_int64 m" for m
    proof -
      have "\<not> m < n" using q that(1) by (simp add: over_quota_def)
      with that(2) assms(1) have "wrap64 (m - n) = m - n" by (intro wrap64_id) (simp add: in_int64_def)
      with q that(1) show ?thesis by (simp add: over_quota_def)
    qed
    have ne: "wdb w' \<noteq> ?d"
    proof
      assume "wdb w' = ?d"
      then have "file_objects (wdb w1) = file_objects ?d" using w0(2) by simp
      then show False using d1 by simp
    qed
    have fo: "file_objects (wdb w') = file_objects ?d @ [?o]" using d1 w0(2) by simp
    have "sql_sum size_bytes (file_objects (wdb w')) = sql_sum size_bytes (file_objects ?d) + n"
      unfolding fo by (simp add: sql_sum_def new_object_def)
    moreover have "ob \<in> set (file_objects (wdb w'))" unfolding fo ob by simp
    moreover have "sha256 ob = h" "size_bytes ob = n" "created" using ok(4) by (simp_all add: ob new_object_def)
    ultimately show ?thesis using ne m by simp
  qed
qed

text \<open>Every service operation on uploads, the completion with its finalizer included, keeps the
  invariant of the upload tables under every script of failures (statements, commits, lost
  replies, file operations): session ids are distinct, sizes stay within the limits that rule out
  overflow, and every recorded part belongs to an existing session, is in its range, has exactly
  its size, and is recorded once.\<close>

theorem upload_tables_invariant:
  "keeps (on_db uploads_ok) (create_upload l probe owner cmd now)
   \<and> keeps (on_db uploads_ok) (put_part owner i n cl b acq now later)
   \<and> keeps (on_db uploads_ok) (complete_upload healthy (Some (finalize sha detect acquired space now)) owner i now)
   \<and> keeps (on_db uploads_ok) (expire_due_uploads batch now)"
proof -
  have "keeps (on_db uploads_ok) (finalize sha detect acquired space now u)" for u
    by (rule keeps_db_finalize) (simp_all add: uploads_ok_transition uploads_ok_complete_session)
  then show ?thesis
    by (auto intro!: keeps_create_upload keeps_put_part keeps_expire keeps_complete_upload)
qed

text \<open>C34: a session's status only ever moves along the life cycle (CREATED, UPLOADING, COMPLETING,
  then COMPLETED or FAILED; CREATED, UPLOADING and FAILED may expire), whatever operation runs and
  whatever fails, and its owner, name, size and chunk size never change. COMPLETED and EXPIRED
  are final.\<close>

theorem upload_life_cycle:
  assumes "w' \<in> {snd (create_upload l probe owner cmd now w), snd (put_part owner i n cl b acq now later w),
       snd (complete_upload healthy (Some (finalize sha detect acquired space now)) owner i now w),
       snd (expire_due_uploads batch now w)}"
    and "u \<in> set (uploads (wdb w))"
  shows "\<exists>v\<in>set (uploads (wdb w')). same_shape u v \<and> upload_step\<^sup>*\<^sup>* (us_status u) (us_status v)
     \<and> (us_status u \<in> {Completed, Expired} \<longrightarrow> us_status v = us_status u)"
proof -
  let ?d = "wdb w"
  have k: "keeps (on_db (evolves ?d)) m \<Longrightarrow> evolves ?d (wdb (snd (m w)))" for m :: "(world, upload_err, 'c) act"
    using evolves_refl by (simp add: keeps_def on_db_def)
  have "evolves ?d (snd (complete_session j o' f now d))" if "evolves ?d d" for j o' f d
    using that by (auto simp: complete_session_def Let_def same_shape_def intro!: evolves_map upload_step.intros)
  then have "keeps (on_db (evolves ?d)) (finalize sha detect acquired space now v)" for v
    by (intro keeps_db_finalize) (auto intro!: evolves_transition upload_step.intros)
  then have c: "keeps (on_db (evolves ?d)) (complete_upload healthy (Some (finalize sha detect acquired space now)) owner i now)"
    by (intro evolves_ops(4)) auto
  have "evolves ?d (wdb w')"
    using assms(1) k [OF evolves_ops(3)] k [OF evolves_ops(1)] k [OF evolves_ops(2)] k [OF c] by auto
  with assms(2) obtain v where v: "v \<in> set (uploads (wdb w'))" "same_shape u v"
    "upload_step\<^sup>*\<^sup>* (us_status u) (us_status v)" by (auto simp: evolves_def)
  with terminal [OF v(3)] show ?thesis by blast
qed

theorem upload_life_cycle_witness:
  "\<exists>v\<in>set (uploads (wdb (snd (expire_due_uploads 8 (100 * hour) one_session)))). same_shape sample_session v"
  using upload_life_cycle [of "snd (expire_due_uploads 8 (100 * hour) one_session)" sample_limits None
      3 undefined "100 * hour" one_session 5 0 0 undefined True 0 True id "\<lambda>_. []" True None 8 sample_session]
  by (auto simp: one_session_def)

section \<open>Finalization without failures\<close>

lemma store_quiet [act_simps]:
  assumes "quiet w"
  shows "store_delete (CommitTempKey f) w = (Inr (), w\<lparr>store := blob_del (CommitTempKey f) (store w)\<rparr>)"
    and "create_commit_temp (CommitTempKey f) w = (if blob_get (CommitTempKey f) (store w) = None
       then (Inr (), w\<lparr>store := blob_put (CommitTempKey f) [] (store w)\<rparr>) else (Inl StErrUnavailable, w))"
    and "store_append k b w = (Inr (), case blob_get k (store w) of None \<Rightarrow> w | Some a \<Rightarrow> w\<lparr>store := blob_put k (a @ b) (store w)\<rparr>)"
    and "store_stat (ObjectKey f) w = (case blob_get (ObjectKey f) (store w) of None \<Rightarrow> (Inl StErrNotFound, w) | Some b \<Rightarrow> (Inr (int (length b)), w))"
    and "blob_get (ObjectKey f) (store w) = None \<Longrightarrow> blob_get (CommitTempKey g) (store w) = Some b \<Longrightarrow>
       store_commit (CommitTempKey g) (ObjectKey f) w = (Inr (), w\<lparr>store := blob_put (ObjectKey f) b (blob_del (CommitTempKey g) (store w))\<rparr>)"
    and "stg_read_all i w = (Inr (case blob_get i (staging w) of None \<Rightarrow> [] | Some b \<Rightarrow> b), w)"
  using assms
  by (auto simp: store_delete_def create_commit_temp_def store_append_def store_stat_def store_commit_def stg_read_all_def
      store_path_def object_keys act_simps split: option.split)

lemma ready_and_complete_quiet:
  assumes "quiet w" "owned_upload (us_user u) (us_id u) (wdb w) = Some u" "us_status u = Completing"
    and "distinct (map us_id (uploads (wdb w)))" "distinct (map fo_id (file_objects (wdb w)))"
    and "ob \<in> set (file_objects (wdb w))" "fo_status ob = ObjPending"
    and d: "d = snd (complete_session (us_id u) (us_user u) (fo_id ob) now (snd (ready_object ob now (wdb w))))"
  shows "ready_and_complete u ob now w = (Inr (), w\<lparr>wdb := d\<rparr>)"
    and "object_status_is (fo_id ob) ObjReady d" "upload_status_is (us_id u) (us_user u) Completed d"
    and "map_option file_object_id (owned_upload (us_user u) (us_id u) d) = Some (Some (fo_id ob))"
proof -
  let ?d = "wdb w" and ?d1 = "snd (ready_object ob now (wdb w))"
  have bu: "by_key us_id (us_id u) (uploads ?d) = Some u"
    using assms(2) by (auto simp: owned_upload_def dest: by_key_SomeD split: option.splits if_splits)
  have bo: "by_key fo_id (fo_id ob) (file_objects ?d) = Some ob"
    using by_key_eq_Some [OF assms(5)] assms(6) by simp
  have k: "fst (ready_object ob now ?d) = 1"
    using sql_count_key [OF assms(5), of "fo_id ob"] bo assms(7) by (simp add: ready_object_def Let_def)
  have n: "fst (complete_session (us_id u) (us_user u) (fo_id ob) now ?d1) = 1"
    using sql_count_key [OF assms(4), of "us_id u"] bu assms(3)
    by (simp add: complete_session_def Let_def ready_object_def)
  have s: "upload_status_is (us_id u) (us_user u) Completing ?d" "object_status_is (fo_id ob) ObjPending ?d"
    using assms(2,3,7) bo by (simp_all add: upload_status_is_def object_status_is_def)
  show "ready_and_complete u ob now w = (Inr (), w\<lparr>wdb := d\<rparr>)"
    using assms(1) s k n
    by (simp add: ready_and_complete_def ready_and_complete_tx_def in_tx_quiet bindA_run query_quiet exec_quiet
        commit_tx_def ret_run pop_fault_quiet d)
  show "object_status_is (fo_id ob) ObjReady d"
    using bo assms(7)
    by (simp add: object_status_is_def d complete_session_def ready_object_def Let_def by_key_sql_update)
  show "upload_status_is (us_id u) (us_user u) Completed d"
    "map_option file_object_id (owned_upload (us_user u) (us_id u) d) = Some (Some (fo_id ob))"
    using bu assms(3)
    by (simp_all add: upload_status_is_def owned_upload_def d complete_session_def ready_object_def Let_def by_key_sql_update)
qed

lemma write_object_quiet:
  assumes "quiet w" "us_id u \<noteq> uuid_nil" "blob_get (us_id u) (staging w) = Some b" "int (length b) = expected_size u"
    and "owned_upload (us_user u) (us_id u) (wdb w) = Some u" "us_status u = Completing"
    and "distinct (map us_id (uploads (wdb w)))" "distinct (map fo_id (file_objects (wdb w)))"
    and "ob \<in> set (file_objects (wdb w))" "fo_status ob = ObjPending" "blob_get (ObjectKey (fo_id ob)) (store w) = None"
  shows "case write_object u ob now w of (r, w') \<Rightarrow>
    r = Inr (completed_session u (fo_id ob) now) \<and> blob_get (ObjectKey (fo_id ob)) (store w') = Some b
    \<and> object_status_is (fo_id ob) ObjReady (wdb w') \<and> upload_status_is (us_id u) (us_user u) Completed (wdb w')
    \<and> map_option file_object_id (owned_upload (us_user u) (us_id u) (wdb w')) = Some (Some (fo_id ob))
    \<and> blob_get (us_id u) (staging w') = None \<and> blob_get (CommitTempKey (fo_id ob)) (store w') = None"
proof -
  let ?T = "CommitTempKey (fo_id ob)" and ?O = "ObjectKey (fo_id ob)"
  let ?s = "blob_put ?O b (blob_del ?T (blob_put ?T b (blob_put ?T [] (blob_del ?T (store w)))))"
  let ?w1 = "w\<lparr>store := ?s\<rparr>"
  obtain d where d: "d = snd (complete_session (us_id u) (us_user u) (fo_id ob) now (snd (ready_object ob now (wdb ?w1))))"
    by blast
  note rc = ready_and_complete_quiet [of ?w1 u ob d now, OF _ _ assms(6) _ _ _ assms(10) d]
  have "copy_to_store u ob now w
      = (Inr (completed_session u (fo_id ob) now), ?w1\<lparr>wdb := d, staging := blob_del (us_id u) (staging w)\<rparr>)"
    using assms rc(1)
    by (simp add: copy_to_store_def bindA_run tryA_run mapErr_run store_quiet staging_quiet blob_get_put blob_get_del
        ext_quiet delete_staging_def ret_run)
  then show ?thesis
    using rc(2-4) assms by (simp add: write_object_def bindA_run tryA_run ret_run blob_get_put blob_get_del)
qed

text \<open>How a finalization that succeeds leaves the session, the object \<open>f\<close> it is linked to, and the files.\<close>

definition finished_as :: "upload \<Rightarrow> time \<Rightarrow> uuid \<Rightarrow> bytes \<Rightarrow> (upload_err + upload) \<times> world \<Rightarrow> bool" where
  "finished_as u now f c res \<longleftrightarrow> fst res = Inr (completed_session u f now)
     \<and> blob_get (ObjectKey f) (store (snd res)) = Some c \<and> object_status_is f ObjReady (wdb (snd res))
     \<and> upload_status_is (us_id u) (us_user u) Completed (wdb (snd res))
     \<and> map_option file_object_id (owned_upload (us_user u) (us_id u) (wdb (snd res))) = Some (Some f)
     \<and> blob_get (us_id u) (staging (snd res)) = None"

lemma complete_session_quiet:
  assumes "owned_upload (us_user u) (us_id u) d = Some u" "us_status u = Completing" "distinct (map us_id (uploads d))"
  shows "fst (complete_session (us_id u) (us_user u) f now d) = 1"
    and "upload_status_is (us_id u) (us_user u) Completed (snd (complete_session (us_id u) (us_user u) f now d))"
    and "map_option file_object_id (owned_upload (us_user u) (us_id u) (snd (complete_session (us_id u) (us_user u) f now d))) = Some (Some f)"
proof -
  have b: "by_key us_id (us_id u) (uploads d) = Some u"
    using assms(1) by (auto simp: owned_upload_def dest: by_key_SomeD split: option.splits if_splits)
  show "fst (complete_session (us_id u) (us_user u) f now d) = 1"
    using sql_count_key [OF assms(3), of "us_id u"] b assms(2) by (simp add: complete_session_def Let_def)
  show "upload_status_is (us_id u) (us_user u) Completed (snd (complete_session (us_id u) (us_user u) f now d))"
    "map_option file_object_id (owned_upload (us_user u) (us_id u) (snd (complete_session (us_id u) (us_user u) f now d))) = Some (Some f)"
    using b assms(2) by (simp_all add: upload_status_is_def owned_upload_def complete_session_def Let_def by_key_sql_update)
qed

lemma ready_object_quiet:
  assumes "distinct (map fo_id (file_objects d))" "ob \<in> set (file_objects d)" "fo_status ob = ObjPending"
  shows "fst (ready_object ob now d) = 1" "object_status_is (fo_id ob) ObjReady (snd (ready_object ob now d))"
proof -
  have b: "by_key fo_id (fo_id ob) (file_objects d) = Some ob" using by_key_eq_Some [OF assms(1)] assms(2) by simp
  show "fst (ready_object ob now d) = 1"
    using sql_count_key [OF assms(1), of "fo_id ob"] b assms(3) by (simp add: ready_object_def Let_def)
  show "object_status_is (fo_id ob) ObjReady (snd (ready_object ob now d))"
    using b assms(3) by (simp add: object_status_is_def ready_object_def Let_def by_key_sql_update)
qed

lemma finish_with_quiet:
  assumes "quiet w" "us_id u \<noteq> uuid_nil" "owned_upload (us_user u) (us_id u) (wdb w) = Some u" "us_status u = Completing"
    and "distinct (map us_id (uploads (wdb w)))" "object_status_is (fo_id ob) ObjReady (wdb w)"
    and "blob_get (ObjectKey (fo_id ob)) (store w) = Some c"
  shows "finished_as u now (fo_id ob) c (finish_with u ob now w)"
proof -
  let ?d = "snd (complete_session (us_id u) (us_user u) (fo_id ob) now (wdb w))"
  note c = complete_session_quiet [OF assms(3-5), of "fo_id ob" now]
  have "upload_status_is (us_id u) (us_user u) Completing (wdb w)" using assms(3,4) by (simp add: upload_status_is_def)
  then have "complete_with u (fo_id ob) now w = (Inr (), w\<lparr>wdb := ?d\<rparr>)"
    using assms(1,6) c(1)
    by (simp add: complete_with_def complete_with_tx_def in_tx_quiet bindA_run query_quiet exec_quiet commit_tx_def ret_run pop_fault_quiet)
  then have "finish_with u ob now w = (Inr (completed_session u (fo_id ob) now), w\<lparr>wdb := ?d, staging := blob_del (us_id u) (staging w)\<rparr>)"
    using assms(1,2) by (simp add: finish_with_def retryable_err_def bindA_run mapErr_run delete_staging_def tryA_run staging_quiet ret_run)
  moreover have "object_status_is (fo_id ob) ObjReady ?d" using assms(6) by (simp add: object_status_is_def complete_session_def Let_def)
  ultimately show ?thesis using c(2,3) assms(7) by (simp add: finished_as_def blob_get_del)
qed

text \<open>A PENDING object is made READY when the store holds its content, and removed when the store has nothing.\<close>

lemma reconcile_pending_quiet:
  assumes "quiet w" "distinct (map fo_id (file_objects (wdb w)))" "ob \<in> set (file_objects (wdb w))" "fo_status ob = ObjPending"
  shows "blob_get (ObjectKey (fo_id ob)) (store w) = Some c \<Longrightarrow> sha c = sha256 ob \<Longrightarrow> int (length c) = size_bytes ob \<Longrightarrow>
      reconcile_pending sha ob now w = (Inr (ob\<lparr>fo_status := ObjReady\<rparr>, True), w\<lparr>wdb := snd (ready_object ob now (wdb w))\<rparr>)"
    and "blob_get (ObjectKey (fo_id ob)) (store w) = None \<Longrightarrow> \<not> referenced (fo_id ob) (wdb w) \<Longrightarrow>
      reconcile_pending sha ob now w = (Inr (ob, False), w\<lparr>store := blob_del (CommitTempKey (fo_id ob)) (store w),
        wdb := (wdb w)\<lparr>file_objects := sql_delete (\<lambda>x. fo_id x = fo_id ob \<and> fo_status x = ObjPending) (file_objects (wdb w))\<rparr>\<rparr>)"
proof -
  have r: "store_read (ObjectKey f) w = (case blob_get (ObjectKey f) (store w) of None \<Rightarrow> (Inl StErrNotFound, w) | Some b \<Rightarrow> (Inr b, w))" for f
    using assms(1) by (simp add: store_read_def store_path_def object_keys bindA_run ret_run throw_run ext_quiet split: option.split)
  show "reconcile_pending sha ob now w = (Inr (ob\<lparr>fo_status := ObjReady\<rparr>, True), w\<lparr>wdb := snd (ready_object ob now (wdb w))\<rparr>)"
    if "blob_get (ObjectKey (fo_id ob)) (store w) = Some c" "sha c = sha256 ob" "int (length c) = size_bytes ob"
    using that ready_object_quiet(1) [OF assms(2-4), of now] assms(1)
    by (simp add: reconcile_pending_def bindA_run tryA_run mapErr_run store_quiet r exec_quiet ret_run)
  have "by_key fo_id (fo_id ob) (file_objects (wdb w)) = Some ob" using by_key_eq_Some [OF assms(2)] assms(3) by simp
  then have n: "sql_count (\<lambda>x. fo_id x = fo_id ob \<and> fo_status x = ObjPending) (file_objects (wdb w)) = 1"
    using sql_count_key [OF assms(2), of "fo_id ob"] assms(4) by simp
  show "reconcile_pending sha ob now w = (Inr (ob, False), w\<lparr>store := blob_del (CommitTempKey (fo_id ob)) (store w),
        wdb := (wdb w)\<lparr>file_objects := sql_delete (\<lambda>x. fo_id x = fo_id ob \<and> fo_status x = ObjPending) (file_objects (wdb w))\<rparr>\<rparr>)"
    if "blob_get (ObjectKey (fo_id ob)) (store w) = None" "\<not> referenced (fo_id ob) (wdb w)"
    using that n assms(1)
    by (simp add: reconcile_pending_def bindA_run tryA_run mapErr_run store_quiet exec_quiet ret_run delete_unreferenced_pending_def Let_def)
qed

text \<open>The quota has room for \<open>n\<close> more bytes.\<close>

definition fits_quota :: "int \<Rightarrow> db \<Rightarrow> bool" where
  "fits_quota n d \<longleftrightarrow> (case max_storage_bytes (sys_settings d) of None \<Rightarrow> True
     | Some mx \<Rightarrow> in_int64 mx \<and> sql_sum size_bytes (file_objects d) + n \<le> mx)"

lemma fits_quota_not_over:
  assumes "fits_quota n d" "0 \<le> n" "\<forall>x\<in>set (file_objects d). 0 \<le> size_bytes x"
  shows "\<not> over_quota n (max_storage_bytes (sys_settings d)) (sql_sum size_bytes (file_objects d))"
proof (cases "max_storage_bytes (sys_settings d)")
  case (Some mx)
  have "0 \<le> sql_sum size_bytes (file_objects d)" using assms(3) by (intro sql_sum_nonneg) simp
  moreover from this Some assms(1,2) have "in_int64 (mx - n)" by (simp add: fits_quota_def in_int64_def)
  ultimately show ?thesis using Some assms(1) by (simp add: over_quota_def fits_quota_def)
qed (simp add: over_quota_def)

lemma sql_sum_delete: "(\<And>r. r \<in> set rows \<Longrightarrow> 0 \<le> c r) \<Longrightarrow> sql_sum c (sql_delete p rows) \<le> sql_sum c rows"
  by (induction rows) (auto simp: sql_sum_def sql_delete_def intro: add_increasing)

lemma finalize_new_quiet:
  assumes "quiet w" "us_id u \<noteq> uuid_nil" "blob_get (us_id u) (staging w) = Some b" "int (length b) = expected_size u"
    and "owned_upload (us_user u) (us_id u) (wdb w) = Some u" "us_status u = Completing"
    and "distinct (map us_id (uploads (wdb w)))" "objects_ok (wdb w)"
    and "find_object h (expected_size u) (wdb w) = None" "expected_size u \<le> int avail" "fits_quota (expected_size u) (wdb w)"
    and "ids w = Some i # rest" "i \<notin> fo_id ` set (file_objects (wdb w))" "blob_get (ObjectKey i) (store w) = None"
  shows "finished_as u now i b (finalize_new sha (Some avail) u h mime now w)"
proof -
  let ?n = "expected_size u"
  let ?o = "new_object i h ?n mime now"
  let ?w1 = "w\<lparr>ids := rest, wdb := (wdb w)\<lparr>file_objects := file_objects (wdb w) @ [?o]\<rparr>\<rparr>"
  have n0: "0 \<le> ?n" using assms(4) by (metis of_nat_0_le_iff)
  have q: "\<not> over_quota ?n (max_storage_bytes (sys_settings (wdb w))) (sql_sum size_bytes (file_objects (wdb w)))"
    using fits_quota_not_over [OF assms(11) n0] assms(8) by (simp add: objects_ok_def)
  have r1: "reserve_pending h ?n mime now w = (Inr (?o, True), ?w1)"
    using assms(1,9,12,13) q n0
    by (auto simp: reserve_pending_def reserve_pending_tx_def in_tx_quiet bindA_run exec_quiet query_quiet
        new_id_def insert_pending_def sql_exists_iff find_object_snoc commit_tx_def ret_run pop_fault_quiet new_object_def)
  have o: "fo_id ?o = i" "fo_status ?o = ObjPending" by (simp_all add: new_object_def)
  have e: "finalize_new sha (Some avail) u h mime now w = write_object u ?o now ?w1"
    using assms(10) r1 by (simp add: finalize_new_def bindA_run tryA_run settle_reservation_def ret_run if_run split del: if_split)
  have own: "owned_upload (us_user u) (us_id u) (wdb ?w1) = Some u" using assms(5) by (simp add: owned_upload_def)
  have dist: "distinct (map fo_id (file_objects (wdb ?w1)))" using assms(8,13) by (auto simp: objects_ok_def o)
  have "case write_object u ?o now ?w1 of (r, w') \<Rightarrow>
    r = Inr (completed_session u (fo_id ?o) now) \<and> blob_get (ObjectKey (fo_id ?o)) (store w') = Some b
    \<and> object_status_is (fo_id ?o) ObjReady (wdb w') \<and> upload_status_is (us_id u) (us_user u) Completed (wdb w')
    \<and> map_option file_object_id (owned_upload (us_user u) (us_id u) (wdb w')) = Some (Some (fo_id ?o))
    \<and> blob_get (us_id u) (staging w') = None \<and> blob_get (CommitTempKey (fo_id ?o)) (store w') = None"
    by (rule write_object_quiet [OF _ _ _ _ own _ _ dist]) (use assms o in simp_all)
  then show ?thesis unfolding e finished_as_def o by (simp add: split_beta)
qed

text \<open>What allows a finalization with content of hash \<open>h\<close> and size \<open>n\<close>: a stored object of the same hash and
  size is not being deleted, and when it is PENDING, left behind by a crash, its content is complete in the store, or absent.\<close>

definition no_obstacle :: "(bytes \<Rightarrow> bytes) \<Rightarrow> bytes \<Rightarrow> int \<Rightarrow> db \<Rightarrow> (storage_key \<times> bytes) list \<Rightarrow> bool" where
  "no_obstacle sha h n d s \<longleftrightarrow> (case find_object h n d of None \<Rightarrow> True | Some x \<Rightarrow>
     fo_status x \<noteq> ObjDeleting \<and> (fo_status x = ObjPending \<longrightarrow> holds_object sha (fo_id x) h n s
       \<or> (blob_get (ObjectKey (fo_id x)) s = None \<and> \<not> referenced (fo_id x) d)))"

lemma no_obstacleD:
  assumes "no_obstacle sha h n d s" "find_object h n d = Some x" "fo_status x = ObjPending"
  shows "holds_object sha (fo_id x) h n s \<or> (blob_get (ObjectKey (fo_id x)) s = None \<and> \<not> referenced (fo_id x) d)"
  using assms by (simp add: no_obstacle_def)


text \<open>A COMPLETING session of three bytes in a process whose next identifier is 9.\<close>

definition small_session :: upload where
  "small_session = (new_session 5 3 \<lparr>cmd_filename = ''a.bin'', cmd_size = 3, cmd_mime = None\<rparr> 24 0)\<lparr>us_status := Completing\<rparr>"

definition finalizing :: world where
  "finalizing = (process_on (empty_db\<lparr>uploads := [small_session]\<rparr>))\<lparr>staging := [(5, ''abc'')], ids := [Some 9]\<rparr>"

lemma small_session_simps [simp]:
  "us_id small_session = 5" "us_user small_session = 3" "expected_size small_session = 3" "us_status small_session = Completing"
  "file_object_id small_session = None"
  by (simp_all add: small_session_def new_session_def)

lemma finalizing_ok:
  "uploads_ok (wdb finalizing)" "objects_ok (wdb finalizing)" "stored_ok sha (wdb finalizing) (store finalizing)"
proof -
  show u: "uploads_ok (wdb finalizing)"
    using settings_ok_empty
    by (simp add: uploads_ok_def finalizing_def settings_ok_def upload_ok_def, simp add: small_session_def new_session_def default_chunk_size_def)
  show o: "objects_ok (wdb finalizing)" by (simp add: objects_ok_def finalizing_def)
  show "stored_ok sha (wdb finalizing) (store finalizing)"
    using u o by (simp add: stored_ok_def content_ok_def finalizing_def)
qed

theorem finalize_stores_the_upload_witness:
  "case finalize id (\<lambda>_. ''text/plain'') True None 0 small_session (finalizing\<lparr>faults := [NoFault, NoFault, FailAfter]\<rparr>) of (r, w') \<Rightarrow>
     stored_ok id (wdb w') (store w')"
proof -
  let ?w = "finalizing\<lparr>faults := [NoFault, NoFault, FailAfter]\<rparr>"
  have "stored_ok id (wdb ?w) (store ?w)" using finalizing_ok(3) by simp
  from finalize_stores_the_upload [OF this surjective_pairing] show ?thesis by (simp add: split_beta)
qed

text \<open>The same session under a quota, next to a PENDING object of its content that a crash left without data.\<close>

definition half_finished :: world where
  "half_finished = finalizing\<lparr>wdb := (wdb finalizing)\<lparr>file_objects := [new_object 4 ''abc'' 3 ''text/plain'' 0],
     sys_settings := (sys_settings empty_db)\<lparr>max_storage_bytes := Some 6\<rparr>\<rparr>\<rparr>"

lemma half_finished_ok: "stored_ok id (wdb half_finished) (store half_finished)"
proof -
  have "upload_ok small_session" using finalizing_ok(1) by (simp add: uploads_ok_def finalizing_def)
  then have "uploads_ok (wdb half_finished)"
    by (simp add: half_finished_def finalizing_def uploads_ok_def settings_ok_def settings_validate_def empty_db_def)
  then show ?thesis by (simp add: stored_ok_def half_finished_def objects_ok_def content_ok_def new_object_def)
qed


theorem reservations_respect_the_quota_witness:
  "case reserve_pending ''h'' 3 ''text/plain'' 0 (process_on (empty_db\<lparr>sys_settings := (sys_settings empty_db)\<lparr>max_storage_bytes := Some 5\<rparr>\<rparr>)\<lparr>ids := [Some 9]\<rparr>) of (r, w') \<Rightarrow>
     r = Inr (new_object 9 ''h'' 3 ''text/plain'' 0, True) \<and> sql_sum size_bytes (file_objects (wdb w')) \<le> 5"
proof -
  let ?w = "process_on (empty_db\<lparr>sys_settings := (sys_settings empty_db)\<lparr>max_storage_bytes := Some 5\<rparr>\<rparr>)\<lparr>ids := [Some 9]\<rparr>"
  obtain w' where r: "reserve_pending ''h'' 3 ''text/plain'' 0 ?w = (Inr (new_object 9 ''h'' 3 ''text/plain'' 0, True), w')"
    by (simp add: reserve_pending_def reserve_pending_tx_def in_tx_quiet bindA_run exec_quiet query_quiet over_quota_def wrap64_def
        new_id_def insert_pending_def sql_exists_iff find_object_def new_object_def commit_tx_def ret_run pop_fault_quiet sql_sum_def)
  from reservations_respect_the_quota [OF _ this] show ?thesis
    by (simp add: r in_int64_def split: if_splits)
qed

end
