(* ===== verification/Jobs.thy ===== *)
theory Jobs
  imports Schema Utf8
begin

text \<open>
  Background jobs (\<^verbatim>\<open>internal/jobs\<close>): the retry delay, the sanitising of error codes and
  summaries, the job table's operations (claim, complete, fail, recovery of stuck jobs,
  thumbnail jobs) and the worker that drains due jobs and persists their outcome. The facts:
  closed form of the delay, the table invariant under every failure script, exclusiveness of
  claims in every sequence of calls, exactness of claims and of retried transitions whose reply was
  lost, and termination of the worker's retry loop.
\<close>

section \<open>Retry delay\<close>

function backoff_loop :: "int \<Rightarrow> int \<Rightarrow> duration \<Rightarrow> duration" where
  "backoff_loop attempt i delay =
     (if i < attempt \<and> delay < 30 * minute
      then backoff_loop attempt (i + 1)
             (let d = delay * 2 in if d > 30 * minute then 30 * minute else d)
      else delay)"
  by pat_completeness auto
termination by (relation "measure (\<lambda>(a, i, d). nat (a - i))") auto

declare backoff_loop.simps [simp del]

definition backoff :: "int \<Rightarrow> duration" where
  "backoff attempt = backoff_loop (if attempt < 1 then 1 else attempt) 1 (30 * second)"

section \<open>Errors\<close>

definition safe_code_char :: "char \<Rightarrow> bool" where
  "safe_code_char c \<longleftrightarrow> c = CHR ''_'' \<or> (65 \<le> byte_of c \<and> byte_of c \<le> 90) \<or> (48 \<le> byte_of c \<and> byte_of c \<le> 57)"

definition safe_code :: "string \<Rightarrow> string" where
  "safe_code value =
     (if value = [] \<or> length value > 64 then ''JOB_HANDLER_FAILED''
      else if \<not> list_all safe_code_char value then ''JOB_HANDLER_FAILED''
      else value)"

definition safe_summary :: "string \<Rightarrow> string" where
  "safe_summary value =
     (if \<not> utf8_valid value \<or> value = [] then ''job handler failed'' else cut_runes 512 value)"

text \<open>What a handler ends with: success, a \<^verbatim>\<open>HandlerError\<close>, another error, or a panic.\<close>

datatype handler_outcome = HandlerOk | HandlerError string string bool | OtherError | HandlerPanic

definition retryable :: "string \<Rightarrow> string \<Rightarrow> handler_outcome" where
  "retryable code summary = HandlerError (safe_code code) (safe_summary summary) False"

definition permanent_err :: "string \<Rightarrow> string \<Rightarrow> handler_outcome" where
  "permanent_err code summary = HandlerError (safe_code code) (safe_summary summary) True"

fun classify_error :: "handler_outcome \<Rightarrow> string \<times> string \<times> bool" where
  "classify_error (HandlerError code summary perm) = (safe_code code, safe_summary summary, perm)"
| "classify_error _ = (''JOB_HANDLER_FAILED'', ''job handler failed'', False)"

datatype job_err = ErrStateTransition
  | ErrJobClaimLost uuid job_status "job_status option"
  | JobIO

section \<open>The job table\<close>

abbreviation type_thumbnail :: string where "type_thumbnail \<equiv> ''GENERATE_THUMBNAIL''"
abbreviation subject_file :: string where "subject_file \<equiv> ''FILE_OBJECT''"
abbreviation kind_thumbnail :: string where "kind_thumbnail \<equiv> ''THUMBNAIL_SMALL''"

definition default_max_attempts :: int where "default_max_attempts = 8"
definition default_stuck_timeout :: duration where "default_stuck_timeout = 15 * minute"
definition default_drain_limit :: nat where "default_drain_limit = 32"

definition mark_running :: "time \<Rightarrow> job \<Rightarrow> job" where
  "mark_running now j = j\<lparr>job_status := JobRunning, attempts := attempts j + 1,
     started_at := Some now, job_updated_at := now\<rparr>"

definition claim_candidate :: "time \<Rightarrow> job list \<Rightarrow> job option" where
  "claim_candidate now rows =
     (case sort_key (\<lambda>j. (next_run_at j, job_created_at j, job_id j))
             (filter (\<lambda>j. job_status j = JobPending \<and> next_run_at j \<le> now) rows) of
        [] \<Rightarrow> None
      | j # _ \<Rightarrow> Some j)"

definition claim :: "time \<Rightarrow> (world, job_err, job option) act" where
  "claim now = exec JobIO (\<lambda>d.
     (case claim_candidate now (jobs d) of
        None \<Rightarrow> (None, d)
      | Some c \<Rightarrow> (Some (mark_running now c),
          d\<lparr>jobs := sql_update (\<lambda>j. job_id j = job_id c) (mark_running now) (jobs d)\<rparr>)))"

definition update_jobs :: "(job \<Rightarrow> bool) \<Rightarrow> (job \<Rightarrow> job) \<Rightarrow> db \<Rightarrow> nat \<times> db" where
  "update_jobs p f d = (sql_count p (jobs d), d\<lparr>jobs := sql_update p f (jobs d)\<rparr>)"

definition running_job :: "uuid \<Rightarrow> job \<Rightarrow> bool" where
  "running_job i j \<longleftrightarrow> job_id j = i \<and> job_status j = JobRunning"

definition reconcile_complete :: "uuid \<Rightarrow> (world, job_err, unit) act" where
  "reconcile_complete i =
     bindA (query JobIO (\<lambda>d. map_option job_status (by_key job_id i (jobs d)))) (\<lambda>st.
     (case st of
        None \<Rightarrow> throw (ErrJobClaimLost i JobCompleted None)
      | Some st \<Rightarrow>
          if st = JobCompleted then ret ()
          else if st = JobRunning then throw ErrStateTransition
          else throw (ErrJobClaimLost i JobCompleted (Some st))))"

definition complete_row :: "time \<Rightarrow> job \<Rightarrow> job" where
  "complete_row now j = j\<lparr>job_status := JobCompleted, started_at := None,
     last_error_code := None, last_error_summary := None, job_updated_at := now\<rparr>"

definition complete_job :: "uuid \<Rightarrow> time \<Rightarrow> (world, job_err, unit) act" where
  "complete_job i now =
     bindA (exec JobIO (update_jobs (running_job i) (complete_row now))) (\<lambda>n.
     if n = 1 then ret () else reconcile_complete i)"

definition fail_intended :: "job \<Rightarrow> string \<Rightarrow> string \<Rightarrow> job_status \<Rightarrow> time \<Rightarrow> job \<Rightarrow> bool" where
  "fail_intended j code summary desired next r \<longleftrightarrow>
     attempts r = attempts j \<and> last_error_code r = Some code \<and> last_error_summary r = Some summary
     \<and> (desired \<noteq> JobPending \<or> next_run_at r = next)"

definition reconcile_fail ::
    "job \<Rightarrow> string \<Rightarrow> string \<Rightarrow> job_status \<Rightarrow> time \<Rightarrow> (world, job_err, unit) act" where
  "reconcile_fail j code summary desired now =
     bindA (query JobIO (\<lambda>d. map_option
        (\<lambda>r. (job_status r, fail_intended j code summary desired (now + backoff (attempts j)) r))
        (by_key job_id (job_id j) (jobs d)))) (\<lambda>res.
     (case res of
        None \<Rightarrow> throw (ErrJobClaimLost (job_id j) desired None)
      | Some (st, intended) \<Rightarrow>
          if st = desired \<and> intended then ret ()
          else if st = JobRunning then throw ErrStateTransition
          else throw (ErrJobClaimLost (job_id j) desired (Some st))))"

definition failed_row :: "string \<Rightarrow> string \<Rightarrow> time \<Rightarrow> job \<Rightarrow> job" where
  "failed_row code summary now r = r\<lparr>job_status := JobFailed, started_at := None,
     last_error_code := Some code, last_error_summary := Some summary, job_updated_at := now\<rparr>"

definition retry_row :: "time \<Rightarrow> string \<Rightarrow> string \<Rightarrow> time \<Rightarrow> job \<Rightarrow> job" where
  "retry_row next code summary now r = r\<lparr>job_status := JobPending, started_at := None,
     next_run_at := next, last_error_code := Some code, last_error_summary := Some summary,
     job_updated_at := now\<rparr>"

definition fail_derivatives :: "uuid list \<Rightarrow> time \<Rightarrow> db \<Rightarrow> unit \<times> db" where
  "fail_derivatives fs now d = ((), d\<lparr>derivatives := sql_update
     (\<lambda>r. source_file_id r \<in> set fs \<and> fd_kind r = kind_thumbnail \<and> fd_status r = DerivPending)
     (\<lambda>r. r\<lparr>fd_status := DerivFailed, fd_updated_at := now\<rparr>) (derivatives d)\<rparr>)"

definition fail_job ::
    "job \<Rightarrow> string \<Rightarrow> string \<Rightarrow> bool \<Rightarrow> time \<Rightarrow> int \<Rightarrow> (world, job_err, unit) act" where
  "fail_job j code summary perm now max_attempts =
     (if perm \<or> max_attempts \<le> attempts j then
        in_tx JobIO
          (bindA (exec JobIO (update_jobs (running_job (job_id j)) (failed_row code summary now))) (\<lambda>n.
           if n \<noteq> 1 then
             bindA (reconcile_fail j code summary JobFailed now) (\<lambda>_. rollback_tx ())
           else
             bindA (case subject_id j of
                 Some f \<Rightarrow> if job_type j = type_thumbnail then exec JobIO (fail_derivatives [f] now) else ret ()
               | None \<Rightarrow> ret ()) (\<lambda>_. commit_tx ())))
      else
        bindA (exec JobIO (update_jobs (running_job (job_id j))
                 (retry_row (now + backoff (attempts j)) code summary now))) (\<lambda>n.
        if n = 1 then ret () else reconcile_fail j code summary JobPending now))"

subsection \<open>Recovery of stuck jobs\<close>

definition stuck_jobs :: "time \<Rightarrow> nat \<Rightarrow> job list \<Rightarrow> job list" where
  "stuck_jobs cutoff batch rows = take batch (sort_key (\<lambda>j. (the (started_at j), job_id j))
     (filter (\<lambda>j. job_status j = JobRunning \<and>
        (case started_at j of None \<Rightarrow> False | Some t \<Rightarrow> t < cutoff)) rows))"

definition recover_row :: "time \<Rightarrow> int \<Rightarrow> job \<Rightarrow> job" where
  "recover_row now max_attempts j =
     j\<lparr>job_status := (if max_attempts \<le> attempts j then JobFailed else JobPending),
       started_at := None,
       next_run_at := (if max_attempts \<le> attempts j then next_run_at j else now),
       last_error_code := Some (if max_attempts \<le> attempts j then ''JOB_STUCK_MAX_ATTEMPTS''
                                else ''JOB_STUCK_RECOVERED''),
       last_error_summary := Some (if max_attempts \<le> attempts j then ''stuck job reached maximum attempts''
                                   else ''stuck job recovered''),
       job_updated_at := now\<rparr>"

definition recover_update :: "time \<Rightarrow> duration \<Rightarrow> int \<Rightarrow> nat \<Rightarrow> db \<Rightarrow> job list \<times> db" where
  "recover_update now timeout max_attempts batch d =
     (let stuck = stuck_jobs (now - timeout) batch (jobs d)
      in (map (recover_row now max_attempts) stuck,
          d\<lparr>jobs := sql_update (\<lambda>j. job_id j \<in> set (map job_id stuck)) (recover_row now max_attempts) (jobs d)\<rparr>))"

definition failed_thumbnails :: "job list \<Rightarrow> uuid list" where
  "failed_thumbnails js = map (the \<circ> subject_id)
     (filter (\<lambda>j. job_type j = type_thumbnail \<and> subject_id j \<noteq> None \<and> job_status j = JobFailed) js)"

definition recover_stuck :: "time \<Rightarrow> duration \<Rightarrow> int \<Rightarrow> int \<Rightarrow> (world, job_err, nat) act" where
  "recover_stuck now timeout max_attempts batch =
     (if batch \<le> 0 then ret 0
      else in_tx JobIO
        (bindA (exec JobIO (recover_update now timeout max_attempts (nat batch))) (\<lambda>rows.
         bindA (if failed_thumbnails rows \<noteq> []
                then exec JobIO (fail_derivatives (failed_thumbnails rows) now) else ret ()) (\<lambda>_.
         commit_tx (length rows)))))"

subsection \<open>Thumbnail jobs\<close>

definition is_thumbnail_mime :: "string \<Rightarrow> bool" where
  "is_thumbnail_mime m \<longleftrightarrow> m \<in> set [''image/jpeg'', ''image/png'', ''image/gif'', ''image/webp'']"

definition thumbnail_ready :: "uuid \<Rightarrow> db \<Rightarrow> bool" where
  "thumbnail_ready f d = sql_exists
     (\<lambda>r. source_file_id r = f \<and> fd_kind r = kind_thumbnail \<and> fd_status r = DerivReady) (derivatives d)"

definition thumbnail_job_of :: "uuid \<Rightarrow> job \<Rightarrow> bool" where
  "thumbnail_job_of f j \<longleftrightarrow> job_type j = type_thumbnail \<and> subject_type j = subject_file \<and> subject_id j = Some f"

definition new_thumbnail_job :: "uuid \<Rightarrow> uuid \<Rightarrow> time \<Rightarrow> job" where
  "new_thumbnail_job i f now = \<lparr>job_id = i, job_type = type_thumbnail, subject_type = subject_file,
     subject_id = Some f, job_status = JobPending, attempts = 0, next_run_at = now,
     started_at = None, last_error_code = None, last_error_summary = None,
     job_created_at = now, job_updated_at = now\<rparr>"

text \<open>\<^verbatim>\<open>ON CONFLICT DO NOTHING\<close>: the primary key, or the unique index on the subject of
  thumbnail jobs.\<close>

definition insert_thumbnail_job :: "uuid \<Rightarrow> uuid \<Rightarrow> time \<Rightarrow> db \<Rightarrow> bool \<times> db" where
  "insert_thumbnail_job i f now d =
     (if sql_exists (\<lambda>j. job_id j = i \<or> thumbnail_job_of f j) (jobs d) then (False, d)
      else (True, d\<lparr>jobs := jobs d @ [new_thumbnail_job i f now]\<rparr>))"

definition ensure_thumbnail_job_tx :: "uuid \<Rightarrow> string \<Rightarrow> time \<Rightarrow> (world, job_err, bool) act" where
  "ensure_thumbnail_job_tx f mime now =
     (if \<not> is_thumbnail_mime mime then ret False
      else bindA (query JobIO (thumbnail_ready f)) (\<lambda>ready.
           if ready then ret False
           else bindA (new_id JobIO) (\<lambda>i. exec JobIO (insert_thumbnail_job i f now))))"

definition missing_thumbnails :: "nat \<Rightarrow> db \<Rightarrow> (uuid \<times> string) list" where
  "missing_thumbnails batch d = map (\<lambda>fo. (fo_id fo, detected_mime fo))
     (take batch (sort_key (\<lambda>fo. (fo_created_at fo, fo_id fo))
       (filter (\<lambda>fo. fo_status fo = ObjReady \<and> is_thumbnail_mime (detected_mime fo)
           \<and> sql_exists (\<lambda>a. ma_file a = fo_id fo) (attachments d)
           \<and> \<not> thumbnail_ready (fo_id fo) d
           \<and> \<not> sql_exists (thumbnail_job_of (fo_id fo)) (jobs d)) (file_objects d))))"

fun ensure_all :: "(uuid \<times> string) list \<Rightarrow> time \<Rightarrow> (world, job_err, nat) act" where
  "ensure_all [] now = ret 0"
| "ensure_all ((f, mime) # rest) now =
     bindA (ensure_thumbnail_job_tx f mime now) (\<lambda>inserted.
     bindA (ensure_all rest now) (\<lambda>n. ret (if inserted then Suc n else n)))"

definition enqueue_missing_thumbnail_jobs :: "time \<Rightarrow> int \<Rightarrow> (world, job_err, nat) act" where
  "enqueue_missing_thumbnail_jobs now batch =
     (if batch \<le> 0 then ret 0
      else in_tx JobIO
        (bindA (query JobIO (missing_thumbnails (nat batch))) (\<lambda>sources.
         bindA (ensure_all sources now) commit_tx)))"

section \<open>The worker\<close>

text \<open>
  \<open>ctx i\<close> says whether the context is cancelled at the \<open>i\<close>-th look at it. A handler is
  an argument of the worker: it changes the world and ends with an outcome.
\<close>

type_synonym handler = "job \<Rightarrow> world \<Rightarrow> handler_outcome \<times> world"

fun is_claim_lost :: "job_err \<Rightarrow> bool" where
  "is_claim_lost (ErrJobClaimLost _ _ _) = True"
| "is_claim_lost _ = False"

fun persist :: "nat \<Rightarrow> (nat \<Rightarrow> bool) \<Rightarrow> nat \<Rightarrow> (world, job_err, unit) act \<Rightarrow> world \<Rightarrow> unit option \<times> world" where
  "persist 0 ctx i fn w = (None, w)"
| "persist (Suc fuel) ctx i fn w =
     (case fn w of
        (Inr _, w') \<Rightarrow> (Some (), w')
      | (Inl e, w') \<Rightarrow>
          if ctx i then (Some (), w')
          else if is_claim_lost e then (Some (), w')
          else if ctx (Suc i) then (Some (), w')
          else persist fuel ctx (i + 2) fn w')"

definition run_handler :: "(string \<Rightarrow> handler option) \<Rightarrow> job \<Rightarrow> world \<Rightarrow> handler_outcome \<times> world" where
  "run_handler handlers j w =
     (case handlers (job_type j) of
        None \<Rightarrow> (permanent_err ''JOB_TYPE_UNSUPPORTED'' ''job type is unsupported'', w)
      | Some h \<Rightarrow> (case h j w of
            (HandlerPanic, w') \<Rightarrow> (retryable ''JOB_HANDLER_PANIC'' ''job handler panicked'', w')
          | (out, w') \<Rightarrow> (out, w')))"

text \<open>
  The worker reaches the job table through the interface \<^verbatim>\<open>workerRepository\<close>; its methods
  are the arguments \<open>complete\<close>, \<open>fail\<close> and \<open>clm\<close> of the worker's definitions.
\<close>

type_synonym claim_op = "time \<Rightarrow> (world, job_err, job option) act"
type_synonym complete_op = "uuid \<Rightarrow> time \<Rightarrow> (world, job_err, unit) act"
type_synonym fail_op = "job \<Rightarrow> string \<Rightarrow> string \<Rightarrow> bool \<Rightarrow> time \<Rightarrow> int \<Rightarrow> (world, job_err, unit) act"

definition outcome_action ::
    "complete_op \<Rightarrow> fail_op \<Rightarrow> handler_outcome \<Rightarrow> job \<Rightarrow> time \<Rightarrow> int \<Rightarrow> (world, job_err, unit) act" where
  "outcome_action complete fail out j now mx =
     (if out = HandlerOk then complete (job_id j) now
      else (case classify_error out of (code, summary, perm) \<Rightarrow> fail j code summary perm now mx))"

definition execute ::
    "complete_op \<Rightarrow> fail_op \<Rightarrow> nat \<Rightarrow> (nat \<Rightarrow> bool) \<Rightarrow> (string \<Rightarrow> handler option) \<Rightarrow> time \<Rightarrow> int
     \<Rightarrow> job \<Rightarrow> world \<Rightarrow> unit option \<times> world" where
  "execute complete fail fuel ctx handlers now mx j w =
     (case run_handler handlers j w of (out, w1) \<Rightarrow>
        persist fuel ctx 0 (outcome_action complete fail out j now mx) w1)"

text \<open>
  The number of jobs a drain may still run; the result says whether the limit was hit.
  \<open>clk n\<close> and \<open>fin n\<close> are what the clock says before the claim and after the handler.
\<close>

fun drain_due ::
    "claim_op \<Rightarrow> complete_op \<Rightarrow> fail_op \<Rightarrow> nat \<Rightarrow> nat \<Rightarrow> (nat \<Rightarrow> bool) \<Rightarrow> (string \<Rightarrow> handler option)
     \<Rightarrow> (nat \<Rightarrow> time) \<Rightarrow> (nat \<Rightarrow> time) \<Rightarrow> int \<Rightarrow> world \<Rightarrow> ((job_err + bool) option) \<times> world" where
  "drain_due clm complete fail 0 fuel ctx handlers clk fin mx w = (Some (Inr True), w)"
| "drain_due clm complete fail (Suc n) fuel ctx handlers clk fin mx w =
     (if ctx 0 then (Some (Inr False), w)
      else (case clm (clk n) w of
          (Inl e, w1) \<Rightarrow> (Some (Inl e), w1)
        | (Inr None, w1) \<Rightarrow> (Some (Inr False), w1)
        | (Inr (Some j), w1) \<Rightarrow>
            (case execute complete fail fuel ctx handlers (fin n) mx j w1 of
               (None, w2) \<Rightarrow> (None, w2)
             | (Some _, w2) \<Rightarrow> drain_due clm complete fail n fuel ctx handlers clk fin mx w2)))"


section \<open>The delay in closed form\<close>

lemma backoff_loop_capped: "backoff_loop a i 1800000000000 = 1800000000000"
  by (simp add: backoff_loop.simps)

lemma backoff_loop_closed:
  assumes "0 < d" "d \<le> 30 * minute" "i \<le> a"
  shows "backoff_loop a i d = min (d * 2 ^ nat (a - i)) (30 * minute)"
  using assms
proof (induction a i d rule: backoff_loop.induct)
  case (1 a i d)
  show ?case
  proof (cases "i < a \<and> d < 30 * minute")
    case True
    then have n: "nat (a - i) = Suc (nat (a - (i + 1)))"
      by (subst Suc_nat_eq_nat_zadd1) auto
    show ?thesis
    proof (cases "2 * d > 30 * minute")
      case True
      with n \<open>i < a \<and> d < 30 * minute\<close> have "backoff_loop a i d = 30 * minute"
        by (simp add: backoff_loop.simps [of a i d] backoff_loop_capped)
      moreover have "30 * minute \<le> d * 2 ^ nat (a - i)"
      proof -
        have "(1::int) \<le> 2 ^ nat (a - (i + 1))" by simp
        with \<open>0 < d\<close> have "d * 1 \<le> d * 2 ^ nat (a - (i + 1))"
          by (intro mult_left_mono) auto
        with True have "900000000000 \<le> d * 2 ^ nat (a - (i + 1))" by linarith
        with n show ?thesis by simp
      qed
      ultimately show ?thesis by simp
    next
      case False
      with 1 True n show ?thesis
        by (simp add: backoff_loop.simps [of a i d] mult.assoc mult.commute [of 2])
    qed
  next
    case False
    with "1.prems" consider "a = i" | "d = 1800000000000" "i < a" by linarith
    then show ?thesis
    proof cases
      case 2
      have "(1::int) \<le> 2 ^ nat (a - i)" by simp
      then have "1800000000000 \<le> 1800000000000 * (2::int) ^ nat (a - i)" by linarith
      with 2 show ?thesis by (simp add: backoff_loop_capped)
    qed (use "1.prems" in \<open>simp add: backoff_loop.simps\<close>)
  qed
qed

lemma backoff_closed:
  "backoff a = min (30 * second * 2 ^ nat (max a 1 - 1)) (30 * minute)"
  unfolding backoff_def by (subst backoff_loop_closed) (auto simp: max_def)

section \<open>The invariant of the job table\<close>

definition job_row_ok :: "job \<Rightarrow> bool" where
  "job_row_ok j \<longleftrightarrow> 0 \<le> attempts j
     \<and> (job_status j = JobRunning \<longleftrightarrow> started_at j \<noteq> None)
     \<and> (job_type j = type_thumbnail \<longrightarrow> subject_type j = subject_file \<and> subject_id j \<noteq> None)"

definition jobs_ok :: "db \<Rightarrow> bool" where
  "jobs_ok d \<longleftrightarrow> distinct (map job_id (jobs d)) \<and> (\<forall>j\<in>set (jobs d). job_row_ok j)
     \<and> distinct (map subject_id (filter (\<lambda>j. job_type j = type_thumbnail) (jobs d)))"

definition keeps_identity :: "(job \<Rightarrow> job) \<Rightarrow> bool" where
  "keeps_identity f \<longleftrightarrow> (\<forall>j. job_id (f j) = job_id j \<and> job_type (f j) = job_type j
     \<and> subject_type (f j) = subject_type j \<and> subject_id (f j) = subject_id j)"

lemma filter_sql_update:
  "(\<And>r. q (f r) = q r) \<Longrightarrow> filter q (sql_update p f rows) = sql_update p f (filter q rows)"
  by (induction rows) (auto simp: sql_update_def)

lemma jobs_ok_update:
  assumes "jobs_ok d" "keeps_identity f" "\<And>j. job_row_ok j \<Longrightarrow> p j \<Longrightarrow> job_row_ok (f j)"
  shows "jobs_ok (d\<lparr>jobs := sql_update p f (jobs d)\<rparr>)"
  using assms
  by (auto simp: jobs_ok_def keeps_identity_def filter_sql_update map_key_sql_update set_sql_update)

lemma row_changes [simp]:
  "keeps_identity (mark_running now)" "keeps_identity (complete_row now)"
  "keeps_identity (failed_row code summary now)" "keeps_identity (retry_row next code summary now)"
  "keeps_identity (recover_row now mx)"
  by (simp_all add: keeps_identity_def mark_running_def complete_row_def failed_row_def
      retry_row_def recover_row_def)

lemma row_changes_ok [simp]:
  "job_row_ok j \<Longrightarrow> job_row_ok (mark_running now j)"
  "job_row_ok j \<Longrightarrow> job_row_ok (complete_row now j)"
  "job_row_ok j \<Longrightarrow> job_row_ok (failed_row code summary now j)"
  "job_row_ok j \<Longrightarrow> job_row_ok (retry_row next code summary now j)"
  "job_row_ok j \<Longrightarrow> job_row_ok (recover_row now mx j)"
  by (auto simp: job_row_ok_def mark_running_def complete_row_def failed_row_def
      retry_row_def recover_row_def)

lemma jobs_ok_update_jobs:
  assumes "jobs_ok d" "keeps_identity f" "\<And>j. job_row_ok j \<Longrightarrow> job_row_ok (f j)"
  shows "jobs_ok (snd (update_jobs p f d))"
  using assms by (simp add: update_jobs_def jobs_ok_update)

lemma jobs_ok_other_tables [simp]:
  "jobs_ok (d\<lparr>derivatives := x\<rparr>) = jobs_ok d"
  by (simp add: jobs_ok_def)

lemma keeps_claim: "keeps (on_db jobs_ok) (claim now)"
  unfolding claim_def
  by (intro keeps_exec) (auto intro!: jobs_ok_update split: option.splits)

lemma keeps_complete_job: "keeps (on_db jobs_ok) (complete_job i now)"
  unfolding complete_job_def reconcile_complete_def
  by (intro keeps_intro jobs_ok_update_jobs) simp_all

lemma keeps_reconcile_fail: "keeps (on_db J) (reconcile_fail j code summary desired now)"
  unfolding reconcile_fail_def by (intro keeps_intro)

lemma keeps_fail_derivatives: "keeps (on_db jobs_ok) (exec JobIO (fail_derivatives fs now))"
  by (intro keeps_exec) (simp add: fail_derivatives_def)

lemma keeps_fail_job: "keeps (on_db jobs_ok) (fail_job j code summary perm now mx)"
  unfolding fail_job_def
  by (intro keeps_intro keeps_reconcile_fail keeps_fail_derivatives jobs_ok_update_jobs) simp_all

lemma jobs_ok_recover: "jobs_ok d \<Longrightarrow> jobs_ok (snd (recover_update now timeout mx batch d))"
  unfolding recover_update_def Let_def snd_conv by (rule jobs_ok_update) simp_all

lemma keeps_recover_stuck: "keeps (on_db jobs_ok) (recover_stuck now timeout mx batch)"
  unfolding recover_stuck_def by (intro keeps_intro keeps_fail_derivatives jobs_ok_recover)

lemma jobs_ok_insert: "jobs_ok d \<Longrightarrow> jobs_ok (snd (insert_thumbnail_job i f now d))"
  by (auto simp: insert_thumbnail_job_def jobs_ok_def sql_exists_iff new_thumbnail_job_def
      job_row_ok_def thumbnail_job_of_def)

lemma keeps_ensure: "keeps (on_db jobs_ok) (ensure_thumbnail_job_tx f mime now)"
  unfolding ensure_thumbnail_job_tx_def by (intro keeps_intro jobs_ok_insert)

lemma keeps_ensure_all: "keeps (on_db jobs_ok) (ensure_all fs now)"
  by (induction fs now rule: ensure_all.induct) (simp_all add: keeps_intro keeps_ensure)

lemma keeps_enqueue: "keeps (on_db jobs_ok) (enqueue_missing_thumbnail_jobs now batch)"
  unfolding enqueue_missing_thumbnail_jobs_def by (intro keeps_intro keeps_ensure_all)


section \<open>Claims, lost replies, the retry loop\<close>

lemma claim_candidateD:
  assumes "claim_candidate now rows = Some c"
  shows "c \<in> set rows" "job_status c = JobPending" "next_run_at c \<le> now"
    "\<And>r. r \<in> set rows \<Longrightarrow> job_status r = JobPending \<Longrightarrow> next_run_at r \<le> now \<Longrightarrow>
       (next_run_at c, job_created_at c, job_id c) \<le> (next_run_at r, job_created_at r, job_id r)"
proof -
  let ?k = "\<lambda>j. (next_run_at j, job_created_at j, job_id j)"
  let ?due = "filter (\<lambda>j. job_status j = JobPending \<and> next_run_at j \<le> now) rows"
  from assms obtain cs where cs: "sort_key ?k ?due = c # cs"
    by (auto simp: claim_candidate_def split: list.splits)
  then have set_cs: "set (c # cs) = set ?due" unfolding cs [symmetric] by simp
  then have "c \<in> set ?due" by (metis list.set_intros(1))
  then show "c \<in> set rows" "job_status c = JobPending" "next_run_at c \<le> now" by simp_all
  have "sorted (map ?k (c # cs))" unfolding cs [symmetric] by (rule sorted_sort_key)
  then have *: "\<forall>x\<in>set cs. ?k c \<le> ?k x" by (simp del: less_eq_prod_simp)
  fix r assume "r \<in> set rows" "job_status r = JobPending" "next_run_at r \<le> now"
  then have "r \<in> set (c # cs)" unfolding set_cs by simp
  with * show "?k c \<le> ?k r" by (cases "r = c") (simp_all del: less_eq_prod_simp)
qed

lemma job_by_key_update:
  "keeps_identity f \<Longrightarrow> by_key job_id i (sql_update p f rows)
     = map_option (\<lambda>r. if p r then f r else r) (by_key job_id i rows)"
  by (rule by_key_sql_update) (simp add: keeps_identity_def)

lemma update_running_count:
  assumes "jobs_ok d" "by_key job_id i (jobs d) = Some r"
  shows "sql_count (running_job i) (jobs d) = (if job_status r = JobRunning then 1 else 0)"
  using assms sql_count_key [of job_id "jobs d" i "\<lambda>r. job_status r = JobRunning"]
  by (simp add: jobs_ok_def running_job_def [abs_def])


definition completing :: "uuid \<Rightarrow> db \<Rightarrow> bool" where
  "completing i d \<longleftrightarrow> jobs_ok d \<and>
     (\<exists>r. by_key job_id i (jobs d) = Some r \<and> job_status r \<in> {JobRunning, JobCompleted})"

definition job_is :: "uuid \<Rightarrow> job_status \<Rightarrow> db \<Rightarrow> bool" where
  "job_is i st d \<longleftrightarrow> map_option job_status (by_key job_id i (jobs d)) = Some st"

lemma complete_update_effect:
  assumes "completing i d"
  shows "completing i (snd (update_jobs (running_job i) (complete_row now) d))" (is ?C)
    and "job_is i JobCompleted (snd (update_jobs (running_job i) (complete_row now) d))" (is ?J)
proof -
  from assms obtain r where r: "jobs_ok d" "by_key job_id i (jobs d) = Some r"
      "job_status r \<in> {JobRunning, JobCompleted}"
    by (auto simp: completing_def)
  then have "job_id r = i" by (blast dest: by_key_SomeD)
  with r(3) have "job_status (if running_job i r then complete_row now r else r) = JobCompleted"
    by (auto simp: running_job_def complete_row_def)
  moreover have "by_key job_id i (jobs (snd (update_jobs (running_job i) (complete_row now) d)))
      = Some (if running_job i r then complete_row now r else r)"
    by (simp add: update_jobs_def job_by_key_update r(2))
  moreover have "jobs_ok (snd (update_jobs (running_job i) (complete_row now) d))"
    by (rule jobs_ok_update_jobs) (simp_all add: r(1))
  ultimately show ?C ?J by (simp_all add: completing_def job_is_def)
qed

lemma complete_job_result:
  assumes "completing i (wdb w)" "complete_job i now w = (r, w')"
  shows "completing i (wdb w') \<and>
     ((r = Inr () \<and> job_is i JobCompleted (wdb w'))
      \<or> (r = Inl JobIO \<and> length (faults w') < length (faults w)))"
proof -
  let ?u = "update_jobs (running_job i) (complete_row now)"
  obtain r1 w1 where 1: "exec JobIO ?u w = (r1, w1)" by fastforce
  note e = exec_result [OF 1] and eff = complete_update_effect [OF assms(1), of now]
  show ?thesis
  proof (cases r1)
    case (Inl err)
    with 1 assms(2) have "r = Inl err" "w' = w1"
      by (simp_all add: complete_job_def bindA_run)
    with e Inl eff(1) assms(1) show ?thesis by auto
  next
    case (Inr n)
    with e have w1: "wdb w1 = snd (?u (wdb w))" "length (faults w1) \<le> length (faults w)"
      and n: "n = sql_count (running_job i) (jobs (wdb w))"
      by (auto simp: update_jobs_def)
    show ?thesis
    proof (cases "n = 1")
      case True
      with Inr 1 assms(2) w1 eff show ?thesis
        by (simp add: complete_job_def bindA_run ret_run)
    next
      case False
      obtain r2 w2 where 2: "query JobIO (\<lambda>d. map_option job_status (by_key job_id i (jobs d))) w1 = (r2, w2)"
        by fastforce
      from False Inr 1 assms(2)
      have "reconcile_complete i w1 = (r, w')"
        by (simp add: complete_job_def bindA_run)
      with 2 have r: "(r, w') = (case r2 of Inl e \<Rightarrow> (Inl e, w2)
          | Inr st \<Rightarrow> (case st of None \<Rightarrow> throw (ErrJobClaimLost i JobCompleted None)
              | Some st \<Rightarrow> if st = JobCompleted then ret ()
                  else if st = JobRunning then throw ErrStateTransition
                  else throw (ErrJobClaimLost i JobCompleted (Some st))) w2)"
        by (simp add: reconcile_complete_def bindA_run)
      from query_result [OF 2] w1 eff(2)
      have q: "wdb w2 = snd (?u (wdb w))"
        "r2 = Inr (Some JobCompleted) \<or> (r2 = Inl JobIO \<and> length (faults w2) < length (faults w))"
        by (auto simp: job_is_def)
      from q(2) show ?thesis
      proof
        assume "r2 = Inr (Some JobCompleted)"
        with r q(1) eff show ?thesis by (simp add: ret_run)
      next
        assume "r2 = Inl JobIO \<and> length (faults w2) < length (faults w)"
        with r q(1) eff show ?thesis by simp
      qed
    qed
  qed
qed

lemma persist_complete:
  assumes "completing i (wdb w)" "length (faults w) < fuel" and ctx: "\<forall>k. \<not> ctx k"
  shows "\<exists>w'. persist fuel ctx k (complete_job i now) w = (Some (), w') \<and> job_is i JobCompleted (wdb w')"
  using assms(1,2)
proof (induction fuel arbitrary: w k)
  case (Suc fuel)
  obtain r w' where r: "complete_job i now w = (r, w')" by fastforce
  from complete_job_result [OF Suc.prems(1) r]
  consider "r = Inr ()" "job_is i JobCompleted (wdb w')"
    | "r = Inl JobIO" "completing i (wdb w')" "length (faults w') < length (faults w)"
    by blast
  then show ?case
  proof cases
    case 2
    from 2(3) Suc.prems(2) have "length (faults w') < fuel" by simp
    from Suc.IH [OF 2(2) this, of "k + 2"] show ?thesis
      using ctx by (simp add: r 2(1))
  qed (simp add: r)
next
  case 0
  from 0(2) have False by simp
  then show ?case ..
qed


subsection \<open>Failing a job\<close>

definition fail_settled ::
    "job \<Rightarrow> string \<Rightarrow> string \<Rightarrow> bool \<Rightarrow> time \<Rightarrow> int \<Rightarrow> job \<Rightarrow> bool" where
  "fail_settled j code summary perm now mx r \<longleftrightarrow>
     (if perm \<or> mx \<le> attempts j
      then job_status r = JobFailed \<and> fail_intended j code summary JobFailed (now + backoff (attempts j)) r
      else job_status r = JobPending \<and> fail_intended j code summary JobPending (now + backoff (attempts j)) r)"

definition failing ::
    "job \<Rightarrow> string \<Rightarrow> string \<Rightarrow> bool \<Rightarrow> time \<Rightarrow> int \<Rightarrow> db \<Rightarrow> bool" where
  "failing j code summary perm now mx d \<longleftrightarrow> jobs_ok d \<and>
     (\<exists>r. by_key job_id (job_id j) (jobs d) = Some r \<and> attempts r = attempts j
        \<and> (job_status r = JobRunning \<or> fail_settled j code summary perm now mx r))"

definition has_failed ::
    "job \<Rightarrow> string \<Rightarrow> string \<Rightarrow> bool \<Rightarrow> time \<Rightarrow> int \<Rightarrow> db \<Rightarrow> bool" where
  "has_failed j code summary perm now mx d \<longleftrightarrow>
     (\<exists>r. by_key job_id (job_id j) (jobs d) = Some r \<and> fail_settled j code summary perm now mx r)"

lemma fail_update_effect:
  assumes "failing j code summary perm now mx d"
    and f: "f = (if perm \<or> mx \<le> attempts j then failed_row code summary now
                 else retry_row (now + backoff (attempts j)) code summary now)"
  shows "failing j code summary perm now mx (snd (update_jobs (running_job (job_id j)) f d))" (is ?F)
    and "has_failed j code summary perm now mx (snd (update_jobs (running_job (job_id j)) f d))" (is ?S)
    and "fst (update_jobs (running_job (job_id j)) f d) \<noteq> 1 \<Longrightarrow> has_failed j code summary perm now mx d"
proof -
  from assms(1) obtain r where r: "jobs_ok d" "by_key job_id (job_id j) (jobs d) = Some r"
      "attempts r = attempts j" "job_status r = JobRunning \<or> fail_settled j code summary perm now mx r"
    by (auto simp: failing_def)
  let ?d = "snd (update_jobs (running_job (job_id j)) f d)"
  let ?r = "if running_job (job_id j) r then f r else r"
  have id: "job_id r = job_id j" using r(2) by (blast dest: by_key_SomeD)
  have ki: "keeps_identity f" by (simp add: f)
  have "by_key job_id (job_id j) (jobs ?d) = Some ?r"
    by (simp add: update_jobs_def job_by_key_update ki r(2))
  moreover have "fail_settled j code summary perm now mx ?r"
    using r(3,4) id by (auto simp: fail_settled_def f running_job_def failed_row_def retry_row_def fail_intended_def)
  moreover have "attempts ?r = attempts j"
    using r(3) by (simp add: f failed_row_def retry_row_def)
  moreover have "jobs_ok ?d"
    by (rule jobs_ok_update_jobs) (simp_all add: r(1) ki, simp add: f)
  ultimately show ?F ?S by (simp_all add: failing_def has_failed_def)
  assume "fst (update_jobs (running_job (job_id j)) f d) \<noteq> 1"
  then have "job_status r \<noteq> JobRunning"
    by (simp add: update_jobs_def update_running_count [OF r(1,2)] split: if_splits)
  with r show "has_failed j code summary perm now mx d" by (auto simp: has_failed_def)
qed

lemma reconcile_fail_result:
  assumes "has_failed j code summary perm now mx (wdb w)"
    and "desired = (if perm \<or> mx \<le> attempts j then JobFailed else JobPending)"
    and "reconcile_fail j code summary desired now w = (r, w')"
  shows "wdb w' = wdb w" (is ?d)
    and "(r = Inr () \<and> length (faults w') \<le> length (faults w))
       \<or> (r = Inl JobIO \<and> length (faults w') < length (faults w))" (is ?r)
proof -
  let ?q = "\<lambda>d. map_option
     (\<lambda>r. (job_status r, fail_intended j code summary desired (now + backoff (attempts j)) r))
     (by_key job_id (job_id j) (jobs d))"
  obtain q w1 where q: "query JobIO ?q w = (q, w1)" by fastforce
  have "?q (wdb w) = Some (desired, True)"
    using assms(1,2) by (auto simp: has_failed_def fail_settled_def split: if_splits)
  with query_result [OF q] have w1: "wdb w1 = wdb w"
      "(q = Inr (Some (desired, True)) \<and> length (faults w1) \<le> length (faults w))
     \<or> (q = Inl JobIO \<and> length (faults w1) < length (faults w))"
    by auto
  have "(r, w') = (case q of Inl e \<Rightarrow> (Inl e, w1) | Inr res \<Rightarrow> (case res of
        None \<Rightarrow> throw (ErrJobClaimLost (job_id j) desired None)
      | Some (st, intended) \<Rightarrow>
          if st = desired \<and> intended then ret ()
          else if st = JobRunning then throw ErrStateTransition
          else throw (ErrJobClaimLost (job_id j) desired (Some st))) w1)"
    using assms(3) by (simp add: reconcile_fail_def bindA_run q)
  with w1 show ?d ?r by (auto simp: ret_run)
qed


lemma fail_derivatives_exec:
  assumes "exec JobIO (fail_derivatives fs now) w = (r, w')"
  shows "jobs (wdb w') = jobs (wdb w)"
    and "(r = Inr () \<and> length (faults w') \<le> length (faults w))
       \<or> (r = Inl JobIO \<and> length (faults w') < length (faults w))"
  using exec_result [OF assms] by (auto simp: fail_derivatives_def)

lemma failing_jobs_cong: "jobs d' = jobs d \<Longrightarrow> failing j code summary perm now mx d' = failing j code summary perm now mx d"
  by (simp add: failing_def jobs_ok_def)

lemma has_failed_jobs_cong: "jobs d' = jobs d \<Longrightarrow> has_failed j code summary perm now mx d' = has_failed j code summary perm now mx d"
  by (simp add: has_failed_def)

lemma fail_tx_body:
  assumes F: "failing j code summary perm now mx (wdb w)" and p: "perm \<or> mx \<le> attempts j"
    and b: "bindA (exec JobIO (update_jobs (running_job (job_id j)) (failed_row code summary now))) (\<lambda>n.
           if n \<noteq> 1 then
             bindA (reconcile_fail j code summary JobFailed now) (\<lambda>_. rollback_tx ())
           else
             bindA (case subject_id j of
                 Some f \<Rightarrow> if job_type j = type_thumbnail then exec JobIO (fail_derivatives [f] now) else ret ()
               | None \<Rightarrow> ret ()) (\<lambda>_. commit_tx ())) w = (r, w')"
  shows "(r = Inl JobIO \<and> length (faults w') < length (faults w))
    \<or> (r = Inr (False, ()) \<and> has_failed j code summary perm now mx (wdb w) \<and> length (faults w') \<le> length (faults w))
    \<or> (r = Inr (True, ()) \<and> failing j code summary perm now mx (wdb w')
         \<and> has_failed j code summary perm now mx (wdb w') \<and> length (faults w') \<le> length (faults w))"
proof -
  let ?u = "update_jobs (running_job (job_id j)) (failed_row code summary now)"
  have f: "failed_row code summary now = (if perm \<or> mx \<le> attempts j then failed_row code summary now
                 else retry_row (now + backoff (attempts j)) code summary now)"
    using p by simp
  note eff = fail_update_effect [OF F f]
  obtain r1 w1 where 1: "exec JobIO ?u w = (r1, w1)" by fastforce
  show ?thesis
  proof (cases r1)
    case (Inl err)
    with b 1 exec_result [OF 1] show ?thesis by (auto simp: bindA_run)
  next
    case (Inr n)
    with exec_result [OF 1] have w1: "wdb w1 = snd (?u (wdb w))" "n = fst (?u (wdb w))"
        "length (faults w1) \<le> length (faults w)" by auto
    have F1: "failing j code summary perm now mx (wdb w1)" "has_failed j code summary perm now mx (wdb w1)"
      using eff(1,2) by (simp_all add: w1(1))
    show ?thesis
    proof (cases "n = 1")
      case False
      then have hf: "has_failed j code summary perm now mx (wdb w)" using eff(3) w1(2) by blast
      obtain r2 w2 where 2: "reconcile_fail j code summary JobFailed now w1 = (r2, w2)" by fastforce
      note r2 = reconcile_fail_result(2) [OF F1(2) _ 2]
      have "(r, w') = (case r2 of Inl e \<Rightarrow> (Inl e, w2) | Inr _ \<Rightarrow> (Inr (False, ()), w2))"
        using b False by (simp add: bindA_run 1 Inr 2 rollback_tx_def ret_run split: sum.splits)
      with r2 p w1(3) hf show ?thesis by auto
    next
      case True
      obtain r2 w2 where 2: "(case subject_id j of
                 Some f \<Rightarrow> if job_type j = type_thumbnail then exec JobIO (fail_derivatives [f] now) else ret ()
               | None \<Rightarrow> ret ()) w1 = (r2, w2)" by fastforce
      have r2: "jobs (wdb w2) = jobs (wdb w1)" "(r2 = Inr () \<and> length (faults w2) \<le> length (faults w1))
           \<or> (r2 = Inl JobIO \<and> length (faults w2) < length (faults w1))"
        using 2 fail_derivatives_exec [of _ now w1 r2 w2]
        by (auto simp: ret_run split: option.splits if_splits)
      have "(r, w') = (case r2 of Inl e \<Rightarrow> (Inl e, w2) | Inr _ \<Rightarrow> (Inr (True, ()), w2))"
        using b True by (simp add: bindA_run 1 Inr 2 commit_tx_def ret_run split: sum.splits)
      with r2 w1(3) F1 show ?thesis
        by (auto simp: failing_jobs_cong [OF r2(1)] has_failed_jobs_cong [OF r2(1)])
    qed
  qed
qed

lemma fail_job_result:
  assumes F: "failing j code summary perm now mx (wdb w)"
    and r: "fail_job j code summary perm now mx w = (r, w')"
  shows "failing j code summary perm now mx (wdb w') \<and>
    ((r = Inr () \<and> has_failed j code summary perm now mx (wdb w'))
     \<or> (r = Inl JobIO \<and> length (faults w') < length (faults w)))"
proof (cases "perm \<or> mx \<le> attempts j")
  case p: True
  from r p have "in_tx JobIO (bindA (exec JobIO (update_jobs (running_job (job_id j)) (failed_row code summary now))) (\<lambda>n.
           if n \<noteq> 1 then
             bindA (reconcile_fail j code summary JobFailed now) (\<lambda>_. rollback_tx ())
           else
             bindA (case subject_id j of
                 Some f \<Rightarrow> if job_type j = type_thumbnail then exec JobIO (fail_derivatives [f] now) else ret ()
               | None \<Rightarrow> ret ()) (\<lambda>_. commit_tx ()))) w = (r, w')"
    by (simp add: fail_job_def)
  then show ?thesis
  proof (cases rule: in_tx_cases)
    case (body_error w0 w1 err)
    from F body_error(1) have "failing j code summary perm now mx (wdb w0)" by simp
    from fail_tx_body [OF this p body_error(3)] body_error F show ?thesis by auto
  next
    case (no_commit w0 w1 x)
    from F no_commit(1) have "failing j code summary perm now mx (wdb w0)" by simp
    from fail_tx_body [OF this p no_commit(3)] no_commit F show ?thesis by auto
  next
    case (committed w0 w1 x)
    from F committed(1) have "failing j code summary perm now mx (wdb w0)" by simp
    from fail_tx_body [OF this p committed(3)] committed F show ?thesis by auto
  next
    case (commit_failed w0 w1 x)
    from F commit_failed(1) have "failing j code summary perm now mx (wdb w0)" by simp
    from fail_tx_body [OF this p commit_failed(3)] commit_failed F show ?thesis by auto
  qed (use F in auto)
next
  case p: False
  let ?f = "retry_row (now + backoff (attempts j)) code summary now"
  let ?u = "update_jobs (running_job (job_id j)) ?f"
  have f: "?f = (if perm \<or> mx \<le> attempts j then failed_row code summary now else ?f)" using p by simp
  note eff = fail_update_effect [OF F f]
  obtain r1 w1 where 1: "exec JobIO ?u w = (r1, w1)" by fastforce
  show ?thesis
  proof (cases r1)
    case (Inl err)
    have "r = Inl err" "w' = w1" using r p by (simp_all add: fail_job_def bindA_run 1 Inl)
    with Inl exec_result [OF 1] eff(1) F show ?thesis by auto
  next
    case (Inr n)
    with exec_result [OF 1] have w1: "wdb w1 = snd (?u (wdb w))" "length (faults w1) \<le> length (faults w)"
      by auto
    have F1: "failing j code summary perm now mx (wdb w1)" "has_failed j code summary perm now mx (wdb w1)"
      using eff(1,2) by (simp_all add: w1(1))
    show ?thesis
    proof (cases "n = 1")
      case True
      then show ?thesis using r p F1 by (simp add: fail_job_def bindA_run 1 Inr ret_run)
    next
      case False
      have 2: "reconcile_fail j code summary JobPending now w1 = (r, w')"
        using r p False by (simp add: fail_job_def bindA_run 1 Inr)
      have d: "JobPending = (if perm \<or> mx \<le> attempts j then JobFailed else JobPending)"
        using p by simp
      from reconcile_fail_result [OF F1(2) d 2] F1 w1(2) show ?thesis by auto
    qed
  qed
qed

lemma persist_fail:
  assumes "failing j code summary perm now mx (wdb w)" "length (faults w) < fuel"
    and ctx: "\<forall>k. \<not> ctx k"
  shows "\<exists>w'. persist fuel ctx k (fail_job j code summary perm now mx) w = (Some (), w')
            \<and> has_failed j code summary perm now mx (wdb w')"
  using assms(1,2)
proof (induction fuel arbitrary: w k)
  case (Suc fuel)
  obtain r w' where r: "fail_job j code summary perm now mx w = (r, w')" by fastforce
  from fail_job_result [OF Suc.prems(1) r]
  consider "r = Inr ()" "has_failed j code summary perm now mx (wdb w')"
    | "r = Inl JobIO" "failing j code summary perm now mx (wdb w')" "length (faults w') < length (faults w)"
    by blast
  then show ?case
  proof cases
    case 2
    from 2(3) Suc.prems(2) have "length (faults w') < fuel" by simp
    from Suc.IH [OF 2(2) this, of "k + 2"] show ?thesis using ctx by (simp add: r 2(1))
  qed (simp add: r)
next
  case 0
  from 0(2) have False by simp
  then show ?case ..
qed


section \<open>The worker against the interface of its repository\<close>

lemma persist_keeps: "keeps I fn \<Longrightarrow> I w \<Longrightarrow> I (snd (persist fuel ctx k fn w))"
proof (induction fuel arbitrary: k w)
  case (Suc fuel)
  obtain r w' where r: "fn w = (r, w')" by fastforce
  with Suc.prems have "I w'" by (rule keepsD)
  with Suc show ?case by (simp add: r split: sum.split)
qed simp

text \<open>
  What a worker relies on: claims keep the invariant and hand out jobs that are held; while
  a job is held, persisting its outcome keeps it held in the sense of \<open>held\<close> (the row runs
  with the attempt number that was handed out, or has left the running state).
\<close>

locale worker_repository =
  fixes clm :: claim_op and complete :: complete_op and fail :: fail_op
    and inv :: "db \<Rightarrow> bool" and held :: "job \<Rightarrow> db \<Rightarrow> bool" and mx :: int
  assumes claim_keeps: "keeps (on_db inv) (clm now)"
    and claim_held: "inv (wdb w) \<Longrightarrow> clm now w = (Inr (Some j), w') \<Longrightarrow> held j (wdb w')"
    and held_inv: "held j d \<Longrightarrow> inv d"
    and complete_keeps: "keeps (on_db (held j)) (complete (job_id j) now)"
    and fail_keeps: "keeps (on_db (held j)) (fail j code summary perm now mx)"
begin

lemma outcome_keeps: "keeps (on_db (held j)) (outcome_action complete fail out j now mx)"
  by (auto simp: outcome_action_def complete_keeps fail_keeps intro: keeps_intro)

lemma drain_keeps:
  assumes handlers: "\<And>t h j w. handlers t = Some h \<Longrightarrow> held j (wdb w) \<Longrightarrow> held j (wdb (snd (h j w)))"
    and "inv (wdb w)" and "drain_due clm complete fail n fuel ctx handlers clk fin mx w = (r, w')"
  shows "inv (wdb w')"
  using assms(2,3)
proof (induction n arbitrary: w)
  case (Suc n)
  obtain c w1 where c: "clm (clk n) w = (c, w1)" by fastforce
  have inv1: "inv (wdb w1)"
    using keepsD [OF claim_keeps _ c] Suc.prems(1) by (simp add: on_db_def)
  show ?case
  proof (cases "ctx 0 \<or> (\<nexists>j. c = Inr (Some j))")
    case True
    with Suc.prems inv1 c show ?thesis
      by (auto split: if_splits sum.splits option.splits)
  next
    case False
    then obtain j where j: "c = Inr (Some j)" "\<not> ctx 0" by blast
    with c Suc.prems(1) have "held j (wdb w1)" by (auto intro: claim_held)
    then have "held j (wdb (snd (run_handler handlers j w1)))"
      by (auto simp: run_handler_def split: option.split prod.split handler_outcome.split)
        (metis handlers snd_conv)+
    moreover obtain out w2 where h: "run_handler handlers j w1 = (out, w2)" by fastforce
    ultimately have "on_db (held j) w2" by (simp add: on_db_def)
    then have "on_db (held j) (snd (persist fuel ctx 0 (outcome_action complete fail out j (fin n) mx) w2))"
      by (rule persist_keeps [OF outcome_keeps])
    moreover obtain q w3 where e: "execute complete fail fuel ctx handlers (fin n) mx j w1 = (q, w3)" by fastforce
    ultimately have "inv (wdb w3)"
      by (simp add: execute_def h on_db_def) (metis held_inv snd_conv)
    with Suc.IH Suc.prems(2) c e j show ?thesis
      by (cases q) auto
  qed
qed simp

end

definition attempts_bounded :: "int \<Rightarrow> db \<Rightarrow> bool" where
  "attempts_bounded mx d \<longleftrightarrow>
     (\<forall>j\<in>set (jobs d). attempts j \<le> mx \<and> (job_status j = JobPending \<longrightarrow> attempts j < mx))"

definition jobs_bounded :: "int \<Rightarrow> db \<Rightarrow> bool" where
  "jobs_bounded mx d \<longleftrightarrow> jobs_ok d \<and> attempts_bounded mx d"

definition job_held :: "int \<Rightarrow> job \<Rightarrow> db \<Rightarrow> bool" where
  "job_held mx j d \<longleftrightarrow> jobs_bounded mx d
     \<and> (\<forall>r\<in>set (jobs d). running_job (job_id j) r \<longrightarrow> attempts r = attempts j)"

lemma claimed_row:
  assumes "jobs_ok d" "claim_candidate now (jobs d) = Some c"
  shows "\<forall>r\<in>set (jobs d). job_id r = job_id c \<longrightarrow> r = c"
  using assms claim_candidateD(1) [OF assms(2)]
  by (auto simp: jobs_ok_def distinct_map inj_on_def)

lemma jobs_bounded_claim:
  assumes "jobs_bounded mx d" "claim_candidate now (jobs d) = Some c"
  shows "jobs_bounded mx (d\<lparr>jobs := sql_update (\<lambda>j. job_id j = job_id c) (mark_running now) (jobs d)\<rparr>)"
proof -
  let ?d = "d\<lparr>jobs := sql_update (\<lambda>j. job_id j = job_id c) (mark_running now) (jobs d)\<rparr>"
  note c = claim_candidateD(1,2) [OF assms(2)]
  have u: "\<forall>r\<in>set (jobs d). job_id r = job_id c \<longrightarrow> r = c"
    using assms by (intro claimed_row) (auto simp: jobs_bounded_def)
  have "jobs_ok ?d"
    using assms(1) by (intro jobs_ok_update) (auto simp: jobs_bounded_def row_changes row_changes_ok)
  moreover have "attempts_bounded mx ?d"
    using assms(1) u c
    by (auto simp: jobs_bounded_def attempts_bounded_def set_sql_update) (auto simp: mark_running_def)
  ultimately show ?thesis by (simp add: jobs_bounded_def)
qed

lemma row_columns:
  "job_status (complete_row now r) = JobCompleted" "attempts (complete_row now r) = attempts r"
  "job_status (failed_row c s now r) = JobFailed" "attempts (failed_row c s now r) = attempts r"
  "job_status (retry_row t c s now r) = JobPending" "attempts (retry_row t c s now r) = attempts r"
  by (simp_all add: complete_row_def failed_row_def retry_row_def)

lemma job_held_update:
  assumes "job_held mx j d" "keeps_identity f" "\<And>r. job_row_ok r \<Longrightarrow> job_row_ok (f r)"
    and "\<And>r. attempts (f r) = attempts r" "\<And>r. job_status (f r) \<noteq> JobRunning"
    and "\<And>r. running_job (job_id j) r \<Longrightarrow> attempts r = attempts j \<Longrightarrow> job_status (f r) = JobPending \<Longrightarrow> attempts r < mx"
  shows "job_held mx j (snd (update_jobs (running_job (job_id j)) f d))"
proof -
  have "jobs_ok (snd (update_jobs (running_job (job_id j)) f d))"
    using assms by (intro jobs_ok_update_jobs) (auto simp: job_held_def jobs_bounded_def)
  with assms show ?thesis
    by (auto simp: job_held_def jobs_bounded_def attempts_bounded_def update_jobs_def
        set_sql_update running_job_def)
qed

lemma job_held_cong: "job_held mx j (d\<lparr>derivatives := x\<rparr>) = job_held mx j d"
  by (simp add: job_held_def jobs_bounded_def attempts_bounded_def)

interpretation jobs_repo: worker_repository claim complete_job fail_job "jobs_bounded mx" "job_held mx" mx
  for mx
proof
  fix now show "keeps (on_db (jobs_bounded mx)) (claim now)"
    unfolding claim_def by (intro keeps_exec) (auto intro!: jobs_bounded_claim split: option.split)
next
  fix w now j w' assume inv: "jobs_bounded mx (wdb w)" and c: "claim now w = (Inr (Some j), w')"
  then obtain c where cc: "claim_candidate now (jobs (wdb w)) = Some c" "j = mark_running now c"
      "wdb w' = (wdb w)\<lparr>jobs := sql_update (\<lambda>j. job_id j = job_id c) (mark_running now) (jobs (wdb w))\<rparr>"
    unfolding claim_def by (auto dest!: exec_result split: option.splits)
  note c = claim_candidateD(1,2) [OF cc(1)]
  have "\<forall>r\<in>set (jobs (wdb w)). job_id r = job_id c \<longrightarrow> r = c"
    using inv cc(1) by (intro claimed_row) (auto simp: jobs_bounded_def)
  with jobs_bounded_claim [OF inv cc(1)] show "job_held mx j (wdb w')"
    unfolding job_held_def cc(2,3)
    by (auto simp: set_sql_update running_job_def) (auto simp: mark_running_def)
next
  show "\<And>j d. job_held mx j d \<Longrightarrow> jobs_bounded mx d" by (simp add: job_held_def)
next
  fix j now show "keeps (on_db (job_held mx j)) (complete_job (job_id j) now)"
    unfolding complete_job_def reconcile_complete_def
    by (intro keeps_intro job_held_update) (simp_all add: row_columns)
next
  fix j code summary perm now
  have d: "keeps (on_db (job_held mx j)) (exec JobIO (fail_derivatives fs now))" for fs
    by (intro keeps_exec) (simp add: fail_derivatives_def job_held_cong)
  show "keeps (on_db (job_held mx j)) (fail_job j code summary perm now mx)"
    unfolding fail_job_def
    by (intro keeps_intro keeps_reconcile_fail d job_held_update)
      (simp_all add: row_columns)
qed


section \<open>Successive claims\<close>

text \<open>The calls that the workers, the scheduler and the services make on the job table, in any order.\<close>

datatype job_call = ClaimCall time | CompleteCall uuid time | FailCall job string string bool time int
  | RecoverCall time duration int int | EnsureCall uuid string time | EnqueueCall time int

fun call_job :: "job_call \<Rightarrow> world \<Rightarrow> job option \<times> world" where
  "call_job (ClaimCall now) w = (case claim now w of (Inr x, w') \<Rightarrow> (x, w') | (Inl e, w') \<Rightarrow> (None, w'))"
| "call_job (CompleteCall i now) w = (None, snd (complete_job i now w))"
| "call_job (FailCall j code summary perm now mx) w = (None, snd (fail_job j code summary perm now mx w))"
| "call_job (RecoverCall now timeout mx batch) w = (None, snd (recover_stuck now timeout mx batch w))"
| "call_job (EnsureCall f mime now) w = (None, snd (ensure_thumbnail_job_tx f mime now w))"
| "call_job (EnqueueCall now batch) w = (None, snd (enqueue_missing_thumbnail_jobs now batch w))"

text \<open>What each call of a sequence hands out to its caller.\<close>

fun handed_out :: "job_call list \<Rightarrow> world \<Rightarrow> job option list" where
  "handed_out [] w = []"
| "handed_out (c # cs) w = (case call_job c w of (x, w') \<Rightarrow> x # handed_out cs w')"

text \<open>The calls that may end the claim of the job \<open>i\<close> made at \<open>t\<close>: those that complete or fail this job, and a
  recovery of the jobs that have been running for longer than its timeout.\<close>

fun ends :: "uuid \<Rightarrow> time \<Rightarrow> job_call \<Rightarrow> bool" where
  "ends i t (CompleteCall j now) \<longleftrightarrow> j = i"
| "ends i t (FailCall j code summary perm now mx) \<longleftrightarrow> job_id j = i"
| "ends i t (RecoverCall now timeout mx batch) \<longleftrightarrow> 0 < batch \<and> t < now - timeout"
| "ends i t _ \<longleftrightarrow> False"

definition held :: "uuid \<Rightarrow> time \<Rightarrow> db \<Rightarrow> bool" where
  "held i t d \<longleftrightarrow> jobs_ok d \<and> (\<exists>r\<in>set (jobs d). job_id r = i \<and> job_status r = JobRunning \<and> started_at r = Some t)"

lemma held_cong: "jobs d' = jobs d \<Longrightarrow> held i t d' = held i t d"
  by (simp add: held_def jobs_ok_def)

lemma held_update:
  assumes "held i t d" "keeps_identity f" "\<And>j. job_row_ok j \<Longrightarrow> p j \<Longrightarrow> job_row_ok (f j)"
    and "\<And>r. r \<in> set (jobs d) \<Longrightarrow> job_id r = i \<Longrightarrow> job_status r = JobRunning \<Longrightarrow> started_at r = Some t \<Longrightarrow> \<not> p r"
  shows "held i t (d\<lparr>jobs := sql_update p f (jobs d)\<rparr>)"
  using assms(1,4) jobs_ok_update [OF _ assms(2,3)] by (auto simp: held_def set_sql_update)

lemma held_update_jobs:
  assumes "held i t d" "keeps_identity f" "\<And>j. job_row_ok j \<Longrightarrow> p j \<Longrightarrow> job_row_ok (f j)" "\<And>r. job_id r = i \<Longrightarrow> \<not> p r"
  shows "held i t (snd (update_jobs p f d))"
  using held_update [OF assms(1-3)] assms(4) by (simp add: update_jobs_def)

lemma held_fail_derivatives: "held i t d \<Longrightarrow> held i t (snd (fail_derivatives fs now d))"
  using held_cong [of "snd (fail_derivatives fs now d)" d] by (simp add: fail_derivatives_def)

lemma held_recover:
  assumes "held i t d" "\<not> t < now - timeout"
  shows "held i t (snd (recover_update now timeout mx batch d))"
proof -
  let ?s = "stuck_jobs (now - timeout) batch (jobs d)"
  have "job_id r \<notin> set (map job_id ?s)" if r: "r \<in> set (jobs d)" "job_id r = i" "started_at r = Some t" for r
  proof
    assume "job_id r \<in> set (map job_id ?s)"
    then obtain s where "s \<in> set ?s" "job_id s = job_id r" by auto
    moreover from this(1) have "s \<in> set (jobs d)" "\<exists>u. started_at s = Some u \<and> u < now - timeout"
      by (auto simp: stuck_jobs_def dest!: in_set_takeD split: option.splits)
    ultimately show False using r assms by (auto simp: held_def jobs_ok_def distinct_map inj_on_def)
  qed
  then show ?thesis unfolding recover_update_def Let_def snd_conv
    by (intro held_update [OF assms(1)]) auto
qed

lemma held_insert: "held i t d \<Longrightarrow> held i t (snd (insert_thumbnail_job k f now d))"
  using jobs_ok_insert [of d k f now] by (auto simp: held_def insert_thumbnail_job_def)

lemma keeps_held_ensure: "keeps (on_db (held i t)) (ensure_thumbnail_job_tx f mime now)"
  unfolding ensure_thumbnail_job_tx_def by (intro keeps_intro held_insert)

lemma keeps_held_ensure_all: "keeps (on_db (held i t)) (ensure_all fs now)"
  by (induction fs now rule: ensure_all.induct) (simp_all add: keeps_intro keeps_held_ensure)

lemma keeps_held:
  "\<not> ends i t (CompleteCall j now) \<Longrightarrow> keeps (on_db (held i t)) (complete_job j now)"
  "\<not> ends i t (FailCall r code summary perm now mx) \<Longrightarrow> keeps (on_db (held i t)) (fail_job r code summary perm now mx)"
  "\<not> ends i t (RecoverCall now timeout mx batch) \<Longrightarrow> keeps (on_db (held i t)) (recover_stuck now timeout mx batch)"
  "keeps (on_db (held i t)) (enqueue_missing_thumbnail_jobs now batch)"
proof -
  show "keeps (on_db (held i t)) (complete_job j now)" if "\<not> ends i t (CompleteCall j now)"
    unfolding complete_job_def reconcile_complete_def
    by (intro keeps_intro held_update_jobs) (use that in \<open>auto simp: running_job_def\<close>)
  show "keeps (on_db (held i t)) (fail_job r code summary perm now mx)" if "\<not> ends i t (FailCall r code summary perm now mx)"
    unfolding fail_job_def
    by (intro keeps_intro keeps_reconcile_fail held_update_jobs held_fail_derivatives) (use that in \<open>auto simp: running_job_def\<close>)
  show "keeps (on_db (held i t)) (recover_stuck now timeout mx batch)" if "\<not> ends i t (RecoverCall now timeout mx batch)"
  proof (cases "0 < batch")
    case True
    with that show ?thesis unfolding recover_stuck_def by (intro keeps_intro held_recover held_fail_derivatives) simp_all
  qed (simp add: recover_stuck_def keeps_ret)
  show "keeps (on_db (held i t)) (enqueue_missing_thumbnail_jobs now batch)"
    unfolding enqueue_missing_thumbnail_jobs_def by (intro keeps_intro keeps_held_ensure_all)
qed

lemma claim_result:
  assumes "claim now w = (Inr (Some j), w')"
  obtains c where "claim_candidate now (jobs (wdb w)) = Some c" "j = mark_running now c"
    "wdb w' = (wdb w)\<lparr>jobs := sql_update (\<lambda>j. job_id j = job_id c) (mark_running now) (jobs (wdb w))\<rparr>"
  using assms unfolding claim_def by (auto dest!: exec_result split: option.splits)

lemma claim_effect:
  assumes "claim now w = (r, w')"
  shows "(wdb w' = wdb w \<and> (\<forall>j. r \<noteq> Inr (Some j))) \<or> (\<exists>c. claim_candidate now (jobs (wdb w)) = Some c
    \<and> wdb w' = (wdb w)\<lparr>jobs := sql_update (\<lambda>j. job_id j = job_id c) (mark_running now) (jobs (wdb w))\<rparr>
    \<and> (\<forall>j. r = Inr (Some j) \<longrightarrow> j = mark_running now c))"
proof (cases "claim_candidate now (jobs (wdb w))")
  case None
  with assms show ?thesis unfolding claim_def by (auto dest!: exec_result)
next
  case (Some c)
  with exec_result [OF assms [unfolded claim_def]] show ?thesis by auto
qed

lemma held_claim:
  assumes h: "held i t (wdb w)" and r: "claim now w = (r, w')"
  shows "held i t (wdb w') \<and> (\<forall>j. r = Inr (Some j) \<longrightarrow> job_id j \<noteq> i)"
  using claim_effect [OF r]
proof (elim disjE exE conjE)
  fix c
  assume c: "claim_candidate now (jobs (wdb w)) = Some c"
    "wdb w' = (wdb w)\<lparr>jobs := sql_update (\<lambda>j. job_id j = job_id c) (mark_running now) (jobs (wdb w))\<rparr>"
    "\<forall>j. r = Inr (Some j) \<longrightarrow> j = mark_running now c"
  note d = claim_candidateD(1,2) [OF c(1)]
  have ne: "job_id c \<noteq> i" if "job_id x = i" "x \<in> set (jobs (wdb w))" "job_status x = JobRunning" for x
    using that d h by (auto simp: held_def jobs_ok_def distinct_map inj_on_def)
  have "held i t (wdb w')"
    unfolding c(2) by (rule held_update [OF h]) (simp, simp, metis ne)
  moreover have "job_id c \<noteq> i" using h ne by (auto simp: held_def)
  then have "job_id (mark_running now c) \<noteq> i" by (simp add: mark_running_def)
  ultimately show ?thesis using c(3) by blast
qed (use h in simp)

lemma claim_holds:
  assumes "jobs_ok (wdb w)" "claim t w = (Inr (Some j), w')"
  shows "held (job_id j) t (wdb w')"
proof -
  from claim_result [OF assms(2)] obtain c where c: "claim_candidate t (jobs (wdb w)) = Some c" "j = mark_running t c"
    "wdb w' = (wdb w)\<lparr>jobs := sql_update (\<lambda>j. job_id j = job_id c) (mark_running t) (jobs (wdb w))\<rparr>" by blast
  have "jobs_ok (wdb w')" using keepsD [OF keeps_claim _ assms(2)] assms(1) by (simp add: on_db_def)
  moreover have "j \<in> set (jobs (wdb w'))" using c claim_candidateD(1) [OF c(1)] by (auto simp: set_sql_update)
  moreover have "job_status j = JobRunning" "started_at j = Some t" using c(2) by (simp_all add: mark_running_def)
  ultimately show ?thesis unfolding held_def by blast
qed

lemma held_call:
  assumes "held i t (wdb w)" "\<not> ends i t c" "call_job c w = (x, w')"
  shows "held i t (wdb w') \<and> (\<forall>j. x = Some j \<longrightarrow> job_id j \<noteq> i)"
proof (cases c)
  case (ClaimCall now)
  obtain r w1 where "claim now w = (r, w1)" by fastforce
  with held_claim [OF assms(1) this] ClaimCall assms(3) show ?thesis by (cases r) auto
qed (use assms keeps_held keeps_held_ensure in \<open>auto simp: keeps_def on_db_def\<close>)

lemma jobs_ok_call:
  assumes "jobs_ok (wdb w)" "call_job c w = (x, w')"
  shows "jobs_ok (wdb w')"
proof (cases c)
  case (ClaimCall now)
  obtain r w1 where "claim now w = (r, w1)" by fastforce
  with keepsD [OF keeps_claim _ this] ClaimCall assms show ?thesis by (cases r) (auto simp: on_db_def)
qed (use assms keeps_complete_job keeps_fail_job keeps_recover_stuck keeps_ensure keeps_enqueue in \<open>auto simp: keeps_def on_db_def\<close>)

lemma held_not_handed_out:
  assumes "held i t (wdb w)" "n < length cs" "\<forall>k<n. \<not> ends i t (cs ! k)" "handed_out cs w ! n = Some j"
  shows "job_id j \<noteq> i"
  using assms
proof (induction cs arbitrary: w n)
  case (Cons c cs)
  obtain x w' where c: "call_job c w = (x, w')" by fastforce
  show ?case
  proof (cases n)
    case 0
    with Cons.prems(4) c have "x = Some j" by simp
    moreover from this c have "\<not> ends i t c" by (cases c) (auto split: prod.splits sum.splits)
    ultimately show ?thesis using held_call [OF Cons.prems(1) _ c] by simp
  next
    case (Suc k)
    then have "\<not> ends i t c" using Cons.prems(3) by force
    with held_call [OF Cons.prems(1) _ c] have "held i t (wdb w')" by simp
    then show ?thesis using Cons.prems c Suc by (intro Cons.IH [of w' k]) auto
  qed
qed simp

lemma handed_out_once:
  assumes "jobs_ok (wdb w)" "m < n" "n < length cs" "cs ! m = ClaimCall t"
    and "handed_out cs w ! m = Some j" "handed_out cs w ! n = Some j'" "job_id j' = job_id j"
  shows "\<exists>k. m < k \<and> k < n \<and> ends (job_id j) t (cs ! k)"
  using assms
proof (induction cs arbitrary: w m n)
  case (Cons c cs)
  obtain x w' where c: "call_job c w = (x, w')" by fastforce
  obtain n' where n: "n = Suc n'" using Cons.prems(2) by (cases n) auto
  show ?case
  proof (cases m)
    case 0
    then have "c = ClaimCall t" "x = Some j" using Cons.prems(4,5) c by auto
    then have "claim t w = (Inr (Some j), w')" using c by (auto split: prod.splits sum.splits)
    note h = claim_holds [OF Cons.prems(1) this]
    have "\<exists>k<n'. ends (job_id j) t (cs ! k)"
      using held_not_handed_out [OF h, of n' cs j'] Cons.prems(3,6,7) c n by auto
    then obtain k where "k < n'" "ends (job_id j) t (cs ! k)" by blast
    then show ?thesis using 0 n by (intro exI [of _ "Suc k"]) simp
  next
    case (Suc m')
    then obtain k where "m' < k" "k < n'" "ends (job_id j) t (cs ! k)"
      using Cons.IH [OF jobs_ok_call [OF Cons.prems(1) c], of m' n'] Cons.prems c n by auto
    then show ?thesis using Suc n by (intro exI [of _ "Suc k"]) simp
  qed
qed simp

lemma claim_candidate_None:
  "claim_candidate now rows = None \<longleftrightarrow> (\<forall>r\<in>set rows. job_status r = JobPending \<longrightarrow> now < next_run_at r)"
proof -
  let ?due = "filter (\<lambda>j. job_status j = JobPending \<and> next_run_at j \<le> now) rows"
  have "claim_candidate now rows = None \<longleftrightarrow> sort_key (\<lambda>j. (next_run_at j, job_created_at j, job_id j)) ?due = []"
    by (cases "sort_key (\<lambda>j. (next_run_at j, job_created_at j, job_id j)) ?due") (simp_all add: claim_candidate_def)
  also have "\<dots> \<longleftrightarrow> set ?due = {}" by (simp only: set_empty [symmetric] set_sort)
  finally show ?thesis by (auto simp: filter_empty_conv not_le [symmetric])
qed

lemma claim_rows:
  assumes "quiet w" "jobs_ok (wdb w)"
  shows "case claim now w of
      (Inr (Some j), w') \<Rightarrow> (\<exists>c\<in>set (jobs (wdb w)). j = mark_running now c
         \<and> job_status c = JobPending \<and> next_run_at c \<le> now
         \<and> (\<forall>r\<in>set (jobs (wdb w)). job_status r = JobPending \<longrightarrow> next_run_at c \<le> next_run_at r)
         \<and> jobs (wdb w') = map (\<lambda>r. if r = c then j else r) (jobs (wdb w)))
    | (Inr None, w') \<Rightarrow> w' = w \<and> (\<forall>r\<in>set (jobs (wdb w)). job_status r = JobPending \<longrightarrow> now < next_run_at r)
    | (Inl e, w') \<Rightarrow> False"
proof (cases "claim_candidate now (jobs (wdb w))")
  case None
  moreover from None have "\<forall>r\<in>set (jobs (wdb w)). job_status r = JobPending \<longrightarrow> now < next_run_at r"
    by (simp only: claim_candidate_None)
  ultimately show ?thesis by (simp add: claim_def exec_quiet assms(1))
next
  case (Some c)
  note u = claimed_row [OF assms(2) Some]
  note c = claim_candidateD [OF Some]
  have "next_run_at c \<le> next_run_at r" if "r \<in> set (jobs (wdb w))" "job_status r = JobPending" for r
  proof (cases "next_run_at r \<le> now")
    case True
    from c(4) [OF that True] show ?thesis by auto
  qed (use c(3) in simp)
  moreover have "sql_update (\<lambda>j. job_id j = job_id c) (mark_running now) (jobs (wdb w))
      = map (\<lambda>r. if r = c then mark_running now c else r) (jobs (wdb w))"
    using u by (auto simp: sql_update_def)
  ultimately show ?thesis
    using c(1-3) Some by (simp add: claim_def exec_quiet assms(1)) blast
qed

section \<open>Recovery\<close>

lemma stuck_jobs_set:
  "set (stuck_jobs cutoff batch rows) \<subseteq> {j \<in> set rows. job_status j = JobRunning \<and> (\<exists>t. started_at j = Some t \<and> t < cutoff)}"
  by (auto simp: stuck_jobs_def dest!: in_set_takeD split: option.splits)

lemma stuck_jobs_batch: "length (stuck_jobs cutoff batch rows) \<le> batch"
  by (simp add: stuck_jobs_def)

lemma recover_update_rows:
  assumes "jobs_ok d" "recover_update now timeout mx batch d = (rows, d')" "r \<in> set (jobs d)"
  shows "\<exists>r'\<in>set (jobs d'). job_id r' = job_id r \<and>
     (if \<exists>x\<in>set rows. job_id x = job_id r
      then job_status r = JobRunning \<and> (\<exists>t. started_at r = Some t \<and> t < now - timeout)
        \<and> attempts r' = attempts r \<and> started_at r' = None
        \<and> job_status r' = (if mx \<le> attempts r then JobFailed else JobPending)
      else r' = r)"
proof -
  let ?s = "stuck_jobs (now - timeout) batch (jobs d)"
  from assms(2) have d': "d' = d\<lparr>jobs := sql_update (\<lambda>j. job_id j \<in> set (map job_id ?s)) (recover_row now mx) (jobs d)\<rparr>"
    and rows: "rows = map (recover_row now mx) ?s"
    by (simp_all add: recover_update_def Let_def)
  have hit: "(\<exists>x\<in>set rows. job_id x = job_id r) \<longleftrightarrow> job_id r \<in> set (map job_id ?s)"
  proof -
    have "map job_id rows = map job_id ?s" by (simp add: rows recover_row_def comp_def)
    then have "job_id r \<in> set (map job_id ?s) \<longleftrightarrow> job_id r \<in> job_id ` set rows" by (metis set_map)
    then show ?thesis unfolding image_iff by metis
  qed
  show ?thesis
  proof (cases "job_id r \<in> set (map job_id ?s)")
    case True
    then obtain s where s: "s \<in> set ?s" "job_id s = job_id r" by auto
    with stuck_jobs_set have "s \<in> set (jobs d)" by blast
    with s(2) assms(1,3) have "s = r" by (auto simp: jobs_ok_def distinct_map inj_on_def)
    with s(1) subsetD [OF stuck_jobs_set, of s "now - timeout" batch "jobs d"]
    have "job_status r = JobRunning \<and> (\<exists>t. started_at r = Some t \<and> t < now - timeout)"
      by auto
    moreover have "recover_row now mx r \<in> set (jobs d')"
      using True assms(3) by (auto simp: d' set_sql_update)
    ultimately show ?thesis
      using True by (intro bexI [of _ "recover_row now mx r"]) (simp_all add: hit, simp add: recover_row_def)
  next
    case False
    then have "r \<in> set (jobs d')" using assms(3) by (auto simp: d' set_sql_update)
    with False show ?thesis by (intro bexI [of _ r]) (simp_all add: hit)
  qed
qed

section \<open>Sanitised errors\<close>

lemma safe_code_ok:
  "0 < length (safe_code c) \<and> length (safe_code c) \<le> 64 \<and> list_all safe_code_char (safe_code c)"
  by (simp add: safe_code_def) (simp add: safe_code_char_def byte_of_def)

lemma safe_summary_ok:
  "0 < length (safe_summary s) \<and> length (safe_summary s) \<le> 512 \<and> utf8_valid (safe_summary s)"
proof (cases "utf8_valid s \<and> s \<noteq> []")
  case True
  then have "0 < length (cut_runes 512 s)"
    using cut_runes_tight [of 512 s] cut_runes_id [of s 512] by (cases "512 < length s") auto
  with True show ?thesis
    by (simp add: safe_summary_def cut_runes_length cut_runes_valid)
next
  case False
  have "utf8_valid ''job handler failed''" by code_simp
  with False show ?thesis by (auto simp: safe_summary_def)
qed

section \<open>Properties\<close>

text \<open>The delay before a retry is 30 seconds doubled once per attempt after the first,
  and never more than 30 minutes, for every attempt number.\<close>

theorem backoff_is_capped_doubling:
  "backoff a = min (30 * second * 2 ^ nat (max a 1 - 1)) (30 * minute)
   \<and> 30 * second \<le> backoff a \<and> backoff a \<le> 30 * minute"
proof -
  have "(1::int) \<le> 2 ^ nat (max a 1 - 1)" by simp
  then show ?thesis unfolding backoff_closed by linarith
qed

text \<open>Whatever a handler fails with (or panics), the code and summary that reach the
  table are non-empty, bounded, and of the alphabet the columns expect: the code has at most
  64 characters of A-Z, 0-9 and underscore, the summary at most 512 bytes of valid UTF-8.\<close>

theorem stored_error_is_safe:
  "case classify_error out of (code, summary, perm) \<Rightarrow>
      0 < length code \<and> length code \<le> 64 \<and> list_all safe_code_char code
    \<and> 0 < length summary \<and> length summary \<le> 512 \<and> utf8_valid summary"
proof -
  have "utf8_valid ''job handler failed''" "list_all safe_code_char ''JOB_HANDLER_FAILED''"
    by code_simp+
  then show ?thesis
    by (cases out) (simp_all add: safe_code_ok [simplified] safe_summary_ok [simplified])
qed

text \<open>Every operation on the job table keeps its invariant under every script of failed
  statements, failed commits and lost replies: ids are distinct, a row has a start time exactly
  while it is running, attempts are not negative, and a file has at most one thumbnail job.\<close>

theorem job_table_invariant:
  "keeps (on_db jobs_ok) (claim now) \<and> keeps (on_db jobs_ok) (complete_job i now)
   \<and> keeps (on_db jobs_ok) (fail_job j code summary perm now mx)
   \<and> keeps (on_db jobs_ok) (recover_stuck now timeout mx batch)
   \<and> keeps (on_db jobs_ok) (ensure_thumbnail_job_tx f mime now)
   \<and> keeps (on_db jobs_ok) (enqueue_missing_thumbnail_jobs now batch)"
  by (simp add: keeps_claim keeps_complete_job keeps_fail_job keeps_recover_stuck keeps_ensure keeps_enqueue)

text \<open>C9: claims are exclusive: whatever sequence of claims, completions, failures, recoveries and insertions runs on
  the job table, at whatever times and under whatever failures, when one job is handed out twice, then between the two
  claims this job was completed or failed, or a recovery ran whose timeout had passed since the first claim. A claim that
  meets no failure takes the earliest due job, marks exactly that row as running with one more attempt, and returns nothing
  only when nothing is due.\<close>

theorem claims_are_exclusive:
  assumes "jobs_ok (wdb w)"
  shows "(\<forall>m n t j j'. m < n \<and> n < length cs \<and> cs ! m = ClaimCall t \<and> handed_out cs w ! m = Some j
      \<and> handed_out cs w ! n = Some j' \<and> job_id j' = job_id j \<longrightarrow> (\<exists>k. m < k \<and> k < n \<and> ends (job_id j) t (cs ! k)))
    \<and> (quiet w \<longrightarrow> (case claim now w of
      (Inr (Some j), w') \<Rightarrow> (\<exists>c\<in>set (jobs (wdb w)). j = mark_running now c
         \<and> job_status c = JobPending \<and> next_run_at c \<le> now
         \<and> (\<forall>r\<in>set (jobs (wdb w)). job_status r = JobPending \<longrightarrow> next_run_at c \<le> next_run_at r)
         \<and> jobs (wdb w') = map (\<lambda>r. if r = c then j else r) (jobs (wdb w)))
    | (Inr None, w') \<Rightarrow> w' = w \<and> (\<forall>r\<in>set (jobs (wdb w)). job_status r = JobPending \<longrightarrow> now < next_run_at r)
    | (Inl e, w') \<Rightarrow> False))"
proof (intro conjI allI impI)
  show "\<exists>k>m. k < n \<and> ends (job_id j) t (cs ! k)"
    if "m < n \<and> n < length cs \<and> cs ! m = ClaimCall t \<and> handed_out cs w ! m = Some j
      \<and> handed_out cs w ! n = Some j' \<and> job_id j' = job_id j" for m n t j j'
    using handed_out_once [OF assms] that by meson
qed (rule claim_rows [OF _ assms])

definition two_jobs :: db where
  "two_jobs = empty_db\<lparr>jobs := [new_thumbnail_job 1 11 5, new_thumbnail_job 2 22 3]\<rparr>"

lemma jobs_ok_two_jobs: "jobs_ok two_jobs"
  by (simp add: jobs_ok_def two_jobs_def new_thumbnail_job_def job_row_ok_def)

text \<open>A completion of another job does not set the claimed one free: the next claim gets the other job.\<close>

definition two_claims :: "job_call list" where
  "two_claims = [ClaimCall 7, CompleteCall 5 8, RecoverCall 9 10 8 100, ClaimCall 9]"

lemma two_claims_out: "map (map_option job_id) (handed_out two_claims (process_on two_jobs)) = [Some 2, None, None, Some 1]"
  by code_simp

lemma first_claim_out: "(case fst (claim 7 (process_on two_jobs)) of Inl e \<Rightarrow> None | Inr x \<Rightarrow> map_option job_id x) = Some 2"
  by code_simp

theorem claims_are_exclusive_witness:
  "(\<exists>j j'. handed_out two_claims (process_on two_jobs) ! 0 = Some j \<and> handed_out two_claims (process_on two_jobs) ! 3 = Some j'
      \<and> job_id j' \<noteq> job_id j)
   \<and> (\<exists>j c. fst (claim 7 (process_on two_jobs)) = Inr (Some j) \<and> c \<in> set (jobs two_jobs) \<and> j = mark_running 7 c
      \<and> job_status c = JobPending)"
proof -
  have ok: "jobs_ok (wdb (process_on two_jobs))" and q: "quiet (process_on two_jobs)" by (simp_all add: jobs_ok_two_jobs)
  have l: "length two_claims = 4" "two_claims ! 0 = ClaimCall 7" by (simp_all add: two_claims_def)
  let ?h = "handed_out two_claims (process_on two_jobs)"
  have n: "length ?h = 4" using arg_cong [OF two_claims_out, of length] by simp
  have h: "map_option job_id (?h ! 0) = Some 2" "map_option job_id (?h ! 3) = Some 1"
    using arg_cong [OF two_claims_out, of "\<lambda>xs. xs ! 0"] arg_cong [OF two_claims_out, of "\<lambda>xs. xs ! 3"] n by simp_all
  then obtain j j' where o: "?h ! 0 = Some j" "?h ! 3 = Some j'" and i: "job_id j = 2" by blast
  have "\<not> (\<exists>k. 0 < k \<and> k < 3 \<and> ends (job_id j) 7 (two_claims ! k))"
  proof (rule notI, elim exE conjE)
    fix k :: nat assume "0 < k" "k < 3" and e: "ends (job_id j) 7 (two_claims ! k)"
    then have "k = 1 \<or> k = 2" by linarith
    then show False using e i by (auto simp: two_claims_def)
  qed
  with claims_are_exclusive [OF ok, of two_claims 7, THEN conjunct1, THEN spec, THEN spec, THEN spec, THEN spec, THEN spec,
      of 0 3 7 j j'] o l
  have d: "job_id j' \<noteq> job_id j" by simp
  obtain x w' where c: "claim 7 (process_on two_jobs) = (Inr (Some x), w')"
    using first_claim_out by (cases "claim 7 (process_on two_jobs)") (auto split: sum.splits)
  with claims_are_exclusive [OF ok, of two_claims 7, THEN conjunct2, THEN mp, OF q]
  have "\<exists>c\<in>set (jobs two_jobs). x = mark_running 7 c \<and> job_status c = JobPending" by auto
  with c o d show ?thesis by auto
qed

text \<open>Persisting a success ends, and the job is then COMPLETED, however many of the
  statements involved fail or lose their reply: the worker's retry loop returns for every fuel
  beyond the number of scripted failures, because a retried transition recognises its own
  earlier effect.\<close>

theorem persist_complete_settles:
  assumes "jobs_ok (wdb w)" "running_job i r" "r \<in> set (jobs (wdb w))"
    and "length (faults w) < fuel" "\<forall>k. \<not> ctx k"
  shows "\<exists>w'. persist fuel ctx 0 (complete_job i now) w = (Some (), w') \<and> jobs_ok (wdb w')
     \<and> map_option job_status (by_key job_id i (jobs (wdb w'))) = Some JobCompleted"
proof -
  have "by_key job_id i (jobs (wdb w)) = Some r"
    using assms(1-3) by (simp add: by_key_eq_Some jobs_ok_def running_job_def)
  with assms(1,2) have "completing i (wdb w)" by (auto simp: completing_def running_job_def)
  from persist_complete [OF this assms(4,5), of 0] obtain w' where
    w': "persist fuel ctx 0 (complete_job i now) w = (Some (), w')" "job_is i JobCompleted (wdb w')"
    by blast
  from persist_keeps [OF keeps_complete_job, of w fuel ctx 0 i now] w'(1) assms(1)
  have "jobs_ok (wdb w')" by (simp add: on_db_def)
  with w' show ?thesis by (auto simp: job_is_def)
qed

definition a_running_job :: world where
  "a_running_job = (process_on (empty_db\<lparr>jobs := [mark_running 9 (new_thumbnail_job 1 11 5)]\<rparr>))
     \<lparr>faults := [FailAfter, FailBefore, FailAfter]\<rparr>"

lemma a_running_job_ok:
  "jobs_ok (wdb a_running_job)" "running_job 1 (mark_running 9 (new_thumbnail_job 1 11 5))"
  "mark_running 9 (new_thumbnail_job 1 11 5) \<in> set (jobs (wdb a_running_job))"
  "length (faults a_running_job) < 4"
  by (simp_all add: a_running_job_def jobs_ok_def mark_running_def new_thumbnail_job_def job_row_ok_def
      running_job_def)

theorem persist_complete_settles_witness:
  "\<exists>w'. persist 4 (\<lambda>_. False) 0 (complete_job 1 10) a_running_job = (Some (), w') \<and> jobs_ok (wdb w')
     \<and> map_option job_status (by_key job_id 1 (jobs (wdb w'))) = Some JobCompleted"
  by (rule persist_complete_settles [OF a_running_job_ok]) simp

text \<open>Persisting a failure ends and settles the job, under the same failures: at the last
  attempt (or for a permanent error) it is FAILED, else PENDING with its next run after the
  delay of this attempt, in both cases with the error's code and summary.\<close>

theorem persist_fail_settles:
  assumes "jobs_ok (wdb w)" "running_job (job_id j) r" "attempts r = attempts j" "r \<in> set (jobs (wdb w))"
    and "length (faults w) < fuel" "\<forall>k. \<not> ctx k"
  shows "\<exists>w' r'. persist fuel ctx 0 (fail_job j code summary perm now mx) w = (Some (), w')
     \<and> by_key job_id (job_id j) (jobs (wdb w')) = Some r'
     \<and> attempts r' = attempts j \<and> last_error_code r' = Some code \<and> last_error_summary r' = Some summary
     \<and> (if perm \<or> mx \<le> attempts j then job_status r' = JobFailed
        else job_status r' = JobPending \<and> next_run_at r' = now + backoff (attempts j))"
proof -
  have "by_key job_id (job_id j) (jobs (wdb w)) = Some r"
    using assms(1-4) by (simp add: by_key_eq_Some jobs_ok_def running_job_def)
  with assms(1-3) have "failing j code summary perm now mx (wdb w)"
    by (auto simp: failing_def running_job_def)
  from persist_fail [OF this assms(5,6), of 0] show ?thesis
    by (auto simp: has_failed_def fail_settled_def fail_intended_def split: if_splits)
qed

theorem persist_fail_settles_witness:
  "\<exists>w' r'. persist 4 (\<lambda>_. False) 0
        (fail_job (mark_running 9 (new_thumbnail_job 1 11 5)) ''E'' ''e'' True 10 8) a_running_job = (Some (), w')
     \<and> by_key job_id 1 (jobs (wdb w')) = Some r' \<and> job_status r' = JobFailed"
proof -
  let ?j = "mark_running 9 (new_thumbnail_job 1 11 5)"
  have id: "job_id ?j = 1" by (simp add: mark_running_def new_thumbnail_job_def)
  have "\<exists>w' r'. persist 4 (\<lambda>_. False) 0 (fail_job ?j ''E'' ''e'' True 10 8) a_running_job = (Some (), w')
     \<and> by_key job_id (job_id ?j) (jobs (wdb w')) = Some r'
     \<and> attempts r' = attempts ?j \<and> last_error_code r' = Some ''E'' \<and> last_error_summary r' = Some ''e''
     \<and> (if True \<or> 8 \<le> attempts ?j then job_status r' = JobFailed
        else job_status r' = JobPending \<and> next_run_at r' = 10 + backoff (attempts ?j))"
    by (rule persist_fail_settles) (use a_running_job_ok in \<open>simp_all add: id\<close>)
  then show ?thesis unfolding id by auto
qed

text \<open>Draining due jobs never runs a job more often than the maximum number of attempts:
  if every row has at most that many attempts, and a pending row fewer, this is so after the
  drain, for every handler that does not rewrite the job table, every drain limit and every
  failure script.\<close>

theorem drain_bounds_attempts:
  assumes "\<And>t h j w. handlers t = Some h \<Longrightarrow> jobs (wdb (snd (h j w))) = jobs (wdb w)"
    and "jobs_bounded mx (wdb w)"
    and "drain_due claim complete_job fail_job n fuel ctx handlers clk fin mx w = (r, w')"
  shows "jobs_bounded mx (wdb w')"
proof (rule jobs_repo.drain_keeps [OF _ assms(2,3)])
  fix t and h :: handler and j and w0 :: world assume "handlers t = Some h" "job_held mx j (wdb w0)"
  with assms(1) [of t h j w0] show "job_held mx j (wdb (snd (h j w0)))"
    by (simp add: job_held_def jobs_bounded_def jobs_ok_def attempts_bounded_def)
qed

theorem drain_bounds_attempts_witness:
  "jobs_bounded 8 (wdb (snd (drain_due claim complete_job fail_job 3 5 (\<lambda>_. False)
     (\<lambda>t. if t = type_thumbnail then Some (\<lambda>j w. (HandlerPanic, w)) else None) (\<lambda>_. 7) (\<lambda>_. 8) 8
     (process_on two_jobs))))"
proof -
  obtain r w' where d: "drain_due claim complete_job fail_job 3 5 (\<lambda>_. False)
     (\<lambda>t. if t = type_thumbnail then Some (\<lambda>j w. (HandlerPanic, w)) else None) (\<lambda>_. 7) (\<lambda>_. 8) 8
     (process_on two_jobs) = (r, w')" by fastforce
  have "jobs_bounded 8 (wdb w')"
  proof (rule drain_bounds_attempts [OF _ _ d])
    have "attempts_bounded 8 two_jobs"
      by (simp add: attempts_bounded_def two_jobs_def new_thumbnail_job_def)
    then show "jobs_bounded 8 (wdb (process_on two_jobs))"
      by (simp add: jobs_bounded_def jobs_ok_two_jobs)
  qed (auto split: if_splits)
  then show ?thesis by (simp add: d)
qed

text \<open>Recovery touches only jobs that have been running since before the timeout, at most
  a batch of them; it releases each of them with its attempts unchanged, to FAILED when the
  attempts are used up and to PENDING otherwise, and leaves every other row as it was.\<close>

theorem recovery_releases_stuck_jobs:
  assumes "jobs_ok d" "recover_update now timeout mx batch d = (rows, d')"
  shows "length rows \<le> batch \<and> (\<forall>r\<in>set (jobs d). \<exists>r'\<in>set (jobs d'). job_id r' = job_id r \<and>
     (if \<exists>x\<in>set rows. job_id x = job_id r
      then job_status r = JobRunning \<and> (\<exists>t. started_at r = Some t \<and> t < now - timeout)
        \<and> attempts r' = attempts r \<and> started_at r' = None
        \<and> job_status r' = (if mx \<le> attempts r then JobFailed else JobPending)
      else r' = r))"
  using recover_update_rows [OF assms] assms(2)
  by (auto simp: recover_update_def Let_def stuck_jobs_batch)

theorem recovery_releases_stuck_jobs_witness:
  "length (fst (recover_update hour default_stuck_timeout 8 200 (wdb a_running_job))) \<le> 200"
  using recovery_releases_stuck_jobs [OF a_running_job_ok(1) surjective_pairing] by blast

end
