(* ===== verification/MessageModel.thy ===== *)
theory MessageModel
  imports Settings Jobs "HOL-Library.Sublist" "HOL-Library.Multiset" "HOL-Library.Char_ord" "HOL-Library.List_Lexorder"
begin

text \<open>
  Messages (\<^verbatim>\<open>internal/messages\<close>), first part: validation of titles and bodies, the encryption of
  sensitive bodies, the statements on messages, tags and attachments, and the invariant of the
  message tables. The statements are those of \<^verbatim>\<open>sql/generated/messages.sql.go\<close>; the constraints
  of the message table are conditions of the statements that write it. \<open>map_error\<close> is the answer of the handlers to
  an error (\<^verbatim>\<open>handler.go\<close>).
\<close>

section \<open>Errors and limits\<close>

datatype msg_err = MsgErrNotFound | MsgErrValidation | MsgErrVersionConflict | MsgErrFavoriteRequiresPermanent
  | MsgErrNotTemporary | MsgErrNotSensitive | MsgErrTrashed | MsgErrNotTrashed | MsgErrIdempotencyKeyReused
  | MsgErrRecipientUnavailable | MsgErrCrypto | MsgErrContentRequired | MsgErrUploadAlreadyConsumed | MsgIO

text \<open>The status and code with which the handlers answer an error.\<close>

fun map_error :: "msg_err \<Rightarrow> int \<times> string" where
  "map_error MsgErrNotFound = (404, ''NOT_FOUND'')"
| "map_error MsgErrVersionConflict = (409, ''MESSAGE_VERSION_CONFLICT'')"
| "map_error MsgErrFavoriteRequiresPermanent = (422, ''MESSAGE_FAVORITE_REQUIRES_PERMANENT'')"
| "map_error MsgErrNotTemporary = (409, ''MESSAGE_NOT_TEMPORARY'')"
| "map_error MsgErrNotSensitive = (409, ''MESSAGE_NOT_SENSITIVE'')"
| "map_error MsgErrTrashed = (409, ''MESSAGE_TRASHED'')"
| "map_error MsgErrNotTrashed = (409, ''MESSAGE_NOT_TRASHED'')"
| "map_error MsgErrIdempotencyKeyReused = (409, ''IDEMPOTENCY_KEY_REUSED'')"
| "map_error MsgErrRecipientUnavailable = (422, ''RECIPIENT_UNAVAILABLE'')"
| "map_error MsgErrValidation = (422, ''VALIDATION_ERROR'')"
| "map_error MsgErrContentRequired = (422, ''MESSAGE_CONTENT_REQUIRED'')"
| "map_error MsgErrUploadAlreadyConsumed = (409, ''UPLOAD_ALREADY_CONSUMED'')"
| "map_error MsgErrCrypto = (500, ''INTERNAL_ERROR'')"
| "map_error MsgIO = (500, ''INTERNAL_ERROR'')"

definition max_body_bytes :: nat where "max_body_bytes = 2 ^ 20"
definition max_preview_bytes :: nat where "max_preview_bytes = 16 * 2 ^ 10"
definition default_limit :: int where "default_limit = 30"
definition max_limit :: int where "max_limit = 100"

section \<open>Validation\<close>

definition valid_body :: "string \<Rightarrow> bool" where
  "valid_body b \<longleftrightarrow> 0 < length b \<and> length b \<le> max_body_bytes \<and> utf8_valid b"

text \<open>The limit as a binary number, for evaluation.\<close>

lemma valid_body_code [code]:
  "valid_body b \<longleftrightarrow> b \<noteq> [] \<and> int (length b) \<le> 1048576 \<and> utf8_valid b"
  by (auto simp: valid_body_def max_body_bytes_def)

text \<open>The encodings of the white space of Unicode, which \<^verbatim>\<open>strings.TrimSpace\<close> removes.\<close>

definition white_runes :: "string list" where
  "white_runes = [[CHR 0x09], [CHR 0x0A], [CHR 0x0B], [CHR 0x0C], [CHR 0x0D], [CHR 0x20],
     [CHR 0xC2, CHR 0x85], [CHR 0xC2, CHR 0xA0], [CHR 0xE1, CHR 0x9A, CHR 0x80],
     [CHR 0xE2, CHR 0x80, CHR 0x80], [CHR 0xE2, CHR 0x80, CHR 0x81], [CHR 0xE2, CHR 0x80, CHR 0x82],
     [CHR 0xE2, CHR 0x80, CHR 0x83], [CHR 0xE2, CHR 0x80, CHR 0x84], [CHR 0xE2, CHR 0x80, CHR 0x85],
     [CHR 0xE2, CHR 0x80, CHR 0x86], [CHR 0xE2, CHR 0x80, CHR 0x87], [CHR 0xE2, CHR 0x80, CHR 0x88],
     [CHR 0xE2, CHR 0x80, CHR 0x89], [CHR 0xE2, CHR 0x80, CHR 0x8A], [CHR 0xE2, CHR 0x80, CHR 0xA8],
     [CHR 0xE2, CHR 0x80, CHR 0xA9], [CHR 0xE2, CHR 0x80, CHR 0xAF], [CHR 0xE2, CHR 0x81, CHR 0x9F],
     [CHR 0xE3, CHR 0x80, CHR 0x80]]"

definition starts_white :: "string \<Rightarrow> string option" where
  "starts_white s = find (\<lambda>r. prefix r s) white_runes"

definition ends_white :: "string \<Rightarrow> string option" where
  "ends_white s = find (\<lambda>r. suffix r s) white_runes"

lemma white_runes_nonempty: "r \<in> set white_runes \<Longrightarrow> r \<noteq> []"
  by (auto simp: white_runes_def)

lemma starts_white_SomeD: "starts_white s = Some r \<Longrightarrow> r \<noteq> [] \<and> prefix r s"
  by (auto simp: starts_white_def find_Some_iff white_runes_nonempty)

lemma ends_white_SomeD: "ends_white s = Some r \<Longrightarrow> r \<noteq> [] \<and> suffix r s"
  by (auto simp: ends_white_def find_Some_iff white_runes_nonempty)

function trim_left :: "string \<Rightarrow> string" where
  "trim_left s = (case starts_white s of None \<Rightarrow> s | Some r \<Rightarrow> trim_left (drop (length r) s))"
  by pat_completeness auto
termination
  by (relation "measure length") (auto dest!: starts_white_SomeD simp: prefix_def)

function trim_right :: "string \<Rightarrow> string" where
  "trim_right s = (case ends_white s of None \<Rightarrow> s | Some r \<Rightarrow> trim_right (take (length s - length r) s))"
  by pat_completeness auto
termination
  by (relation "measure length") (auto dest!: ends_white_SomeD simp: suffix_def)

declare trim_left.simps [simp del] trim_right.simps [simp del]

definition trim_space :: "string \<Rightarrow> string" where
  "trim_space s = trim_right (trim_left s)"

definition normalize_title :: "string option \<Rightarrow> msg_err + string option" where
  "normalize_title t = (case t of None \<Rightarrow> Inr None
     | Some s \<Rightarrow> (let v = trim_space s in
         if v = [] then Inr None
         else if \<not> utf8_valid v \<or> 200 < rune_count v then Inl MsgErrValidation
         else Inr (Some v)))"

definition valid_format :: "string \<Rightarrow> bool" where
  "valid_format f \<longleftrightarrow> f = ''TEXT'' \<or> f = ''MARKDOWN''"

text \<open>The lifecycle texts of a request, and the stored value they stand for.\<close>

definition lifecycle_of :: "string \<Rightarrow> lifecycle option" where
  "lifecycle_of s = (if s = ''TEMPORARY'' then Some Temporary else if s = ''PERMANENT'' then Some Permanent else None)"

definition valid_lifecycle :: "string \<Rightarrow> bool" where
  "valid_lifecycle s \<longleftrightarrow> lifecycle_of s \<noteq> None"

fun preview_cut :: "string \<Rightarrow> nat \<Rightarrow> nat" where
  "preview_cut body 0 = 0"
| "preview_cut body (Suc n) = (if cont_byte (body ! Suc n) then preview_cut body n else Suc n)"

lemma preview_cut_le: "preview_cut body n \<le> n"
  by (induction n) auto

definition preview :: "string \<Rightarrow> string \<times> bool" where
  "preview body = (if length body \<le> max_preview_bytes then (body, False)
     else (take (preview_cut body max_preview_bytes) body, True))"

section \<open>Encryption of sensitive bodies\<close>

text \<open>The authenticated encryption of the Go library: \<open>seal\<close> takes the nonce, the plaintext and the
  additional data, \<open>unseal\<close> the nonce, the ciphertext and the additional data.\<close>

record body_cipher =
  seal :: "bytes \<Rightarrow> bytes \<Rightarrow> bytes \<Rightarrow> bytes"
  unseal :: "bytes \<Rightarrow> bytes \<Rightarrow> bytes \<Rightarrow> bytes option"

definition cipher_ok :: "body_cipher \<Rightarrow> bool" where
  "cipher_ok c \<longleftrightarrow> (\<forall>n p a. unseal c n (seal c n p a) a = Some p)"

definition encryption_version1 :: int where "encryption_version1 = 1"

text \<open>The \<open>k\<close> low bytes of a number, most significant first.\<close>

fun be_bytes :: "nat \<Rightarrow> nat \<Rightarrow> bytes" where
  "be_bytes 0 n = []"
| "be_bytes (Suc k) n = be_bytes k (n div 256) @ [char_of (n mod 256)]"

definition uuid_bytes :: "uuid \<Rightarrow> bytes" where
  "uuid_bytes i = be_bytes 16 (unat i)"

definition aad :: "int \<Rightarrow> uuid \<Rightarrow> uuid \<Rightarrow> bytes" where
  "aad v m owner = ''relayshelf-message-body-v1'' @ be_bytes 2 (nat v) @ uuid_bytes m @ uuid_bytes owner"

text \<open>\<open>rnd\<close> is what the random source delivers for the nonce; \<open>None\<close>: it fails.\<close>

definition encrypt :: "body_cipher \<Rightarrow> bytes option \<Rightarrow> uuid \<Rightarrow> uuid \<Rightarrow> bytes \<Rightarrow> msg_err + (bytes \<times> bytes \<times> int)" where
  "encrypt c rnd m owner p = (case rnd of None \<Rightarrow> Inl MsgErrCrypto
     | Some n \<Rightarrow> Inr (seal c n p (aad encryption_version1 m owner), n, encryption_version1))"

definition decrypt :: "body_cipher \<Rightarrow> message \<Rightarrow> msg_err + bytes" where
  "decrypt c m =
     (if \<not> sensitive m \<or> body_encryption_version m \<noteq> Some encryption_version1 then Inl MsgErrCrypto
      else if length (case body_nonce m of None \<Rightarrow> [] | Some n \<Rightarrow> n) \<noteq> 12 then Inl MsgErrCrypto
      else (case unseal c (case body_nonce m of None \<Rightarrow> [] | Some n \<Rightarrow> n)
               (case body_ciphertext m of None \<Rightarrow> [] | Some t \<Rightarrow> t)
               (aad encryption_version1 (msg_id m) (owner_id m)) of
              None \<Rightarrow> Inl MsgErrCrypto | Some p \<Rightarrow> Inr p))"

lemma decrypt_sealed:
  assumes "cipher_ok c" "length n = 12" "encrypt c (Some n) (msg_id m) (owner_id m) b = Inr cnv"
    and "sensitive m' " "msg_id m' = msg_id m" "owner_id m' = owner_id m"
    and "(body_ciphertext m', body_nonce m', body_encryption_version m') =
      (case cnv of (ct, n, v) \<Rightarrow> (Some ct, Some n, Some v))"
  shows "decrypt c m' = Inr b"
  using assms by (auto simp: encrypt_def decrypt_def cipher_ok_def)

section \<open>The message table\<close>

text \<open>What PostgreSQL accepts in a text column.\<close>

definition pg_text :: "string \<Rightarrow> bool" where
  "pg_text s \<longleftrightarrow> utf8_valid s \<and> \<not> list_ex (\<lambda>c. c = CHR 0x00) s"

definition opt_text :: "string option \<Rightarrow> bool" where
  "opt_text t = (case t of None \<Rightarrow> True | Some s \<Rightarrow> pg_text s)"

definition title_ok :: "string option \<Rightarrow> bool" where
  "title_ok t = (case t of None \<Rightarrow> True
     | Some s \<Rightarrow> 1 \<le> rune_count s \<and> rune_count s \<le> 200 \<and> hd s \<noteq> CHR 0x20 \<and> last s \<noteq> CHR 0x20)"

definition body_columns_ok :: "message \<Rightarrow> bool" where
  "body_columns_ok m =
     (if sensitive m
      then body_plaintext m = None \<and> body_ciphertext m \<noteq> None \<and> map_option length (body_nonce m) = Some 12
        \<and> body_encryption_version m \<noteq> None
      else body_ciphertext m = None \<and> body_nonce m = None \<and> body_encryption_version m = None)"

definition message_checks :: "message \<Rightarrow> bool" where
  "message_checks m \<longleftrightarrow> body_columns_ok m
     \<and> (msg_lifecycle m = Temporary) = (expires_at m \<noteq> None)
     \<and> (favorite m \<longrightarrow> msg_lifecycle m = Permanent)
     \<and> (trashed_at m = None) = (purge_at m = None)
     \<and> 1 \<le> version m \<and> in_int64 (version m) \<and> title_ok (title m)
     \<and> opt_text (title m) \<and> opt_text (body_plaintext m) \<and> pg_text (body_format m)
     \<and> opt_text (detected_type m) \<and> opt_text (detected_language m)"

definition owned_message :: "uuid \<Rightarrow> uuid \<Rightarrow> db \<Rightarrow> message option" where
  "owned_message owner i d = (case by_key msg_id i (messages d) of None \<Rightarrow> None
     | Some m \<Rightarrow> if owner_id m = owner then Some m else None)"

definition insert_message_row :: "message \<Rightarrow> db \<Rightarrow> bool \<times> db" where
  "insert_message_row m d =
     (if sql_exists (\<lambda>r. msg_id r = msg_id m) (messages d) \<or> \<not> message_checks m then (False, d)
      else (True, d\<lparr>messages := messages d @ [m]\<rparr>))"

text \<open>The columns \<open>SaveMessage\<close> writes.\<close>

definition saved_row :: "message \<Rightarrow> message \<Rightarrow> message" where
  "saved_row m r = r\<lparr>title := title m, body_plaintext := body_plaintext m, body_ciphertext := body_ciphertext m,
     body_nonce := body_nonce m, body_encryption_version := body_encryption_version m, body_format := body_format m,
     detected_type := detected_type m, detected_language := detected_language m, sensitive := sensitive m,
     msg_lifecycle := msg_lifecycle m, favorite := favorite m, expires_at := expires_at m,
     trashed_at := trashed_at m, purge_at := purge_at m, version := version m, updated_at := updated_at m\<rparr>"

text \<open>\<open>None\<close>: a constraint is violated.\<close>

definition save_message_row :: "message \<Rightarrow> db \<Rightarrow> nat option \<times> db" where
  "save_message_row m d =
     (let p = (\<lambda>r. msg_id r = msg_id m \<and> owner_id r = owner_id m) in
      if sql_count p (messages d) \<noteq> 0 \<and> \<not> message_checks m then (None, d)
      else (Some (sql_count p (messages d)), d\<lparr>messages := sql_update p (saved_row m) (messages d)\<rparr>))"

text \<open>Deleting messages: their tags and attachments go with them, references to them become null.\<close>

definition delete_messages :: "(message \<Rightarrow> bool) \<Rightarrow> db \<Rightarrow> db" where
  "delete_messages p d =
     (let gone = map msg_id (filter p (messages d)) in
      d\<lparr>messages := map (\<lambda>m. if (case source_message_id m of None \<Rightarrow> False | Some s \<Rightarrow> s \<in> set gone)
                              then m\<lparr>source_message_id := None\<rparr> else m) (sql_delete p (messages d)),
        attachments := sql_delete (\<lambda>a. ma_message a \<in> set gone) (attachments d),
        message_tags := sql_delete (\<lambda>t. fst t \<in> set gone) (message_tags d),
        uploads := sql_update (\<lambda>u. case consumed_message_id u of None \<Rightarrow> False | Some s \<Rightarrow> s \<in> set gone)
                     (\<lambda>u. u\<lparr>consumed_message_id := None\<rparr>) (uploads d)\<rparr>)"

definition delete_trashed_message :: "uuid \<Rightarrow> uuid \<Rightarrow> db \<Rightarrow> nat \<times> db" where
  "delete_trashed_message i owner d =
     (let p = (\<lambda>m. msg_id m = i \<and> owner_id m = owner \<and> trashed_at m \<noteq> None) in
      (sql_count p (messages d), delete_messages p d))"

definition due_temporary :: "time \<Rightarrow> nat \<Rightarrow> db \<Rightarrow> message list" where
  "due_temporary now lim d = take lim (sort_key (\<lambda>m. (the (expires_at m), msg_id m))
     (filter (\<lambda>m. msg_lifecycle m = Temporary \<and> trashed_at m = None
        \<and> (case expires_at m of None \<Rightarrow> False | Some t \<Rightarrow> t \<le> now)) (messages d)))"

text \<open>\<open>version+1\<close> out of the 64 bits of the column is an error (\<open>None\<close>).\<close>

definition expire_rows :: "time \<Rightarrow> time \<Rightarrow> nat \<Rightarrow> db \<Rightarrow> nat option \<times> db" where
  "expire_rows now purge lim d =
     (let due = due_temporary now lim d in
      if list_ex (\<lambda>m. \<not> in_int64 (version m + 1)) due then (None, d)
      else (Some (length due), d\<lparr>messages := sql_update (\<lambda>m. msg_id m \<in> set (map msg_id due))
         (\<lambda>m. m\<lparr>trashed_at := Some now, purge_at := Some purge, version := version m + 1, updated_at := now\<rparr>)
         (messages d)\<rparr>))"

section \<open>Repository\<close>

text \<open>\<open>withTx\<close>: the body in a transaction that is committed when it returns no error.\<close>

definition with_tx :: "(world, msg_err, 'a) act \<Rightarrow> (world, msg_err, 'a) act" where
  "with_tx body = in_tx MsgIO (bindA body commit_tx)"

definition load_owned :: "uuid \<Rightarrow> uuid \<Rightarrow> (world, msg_err, message) act" where
  "load_owned owner i = bindA (query MsgIO (owned_message owner i)) (\<lambda>r.
     (case r of None \<Rightarrow> throw MsgErrNotFound | Some m \<Rightarrow> ret m))"

definition insert_message :: "message \<Rightarrow> (world, msg_err, unit) act" where
  "insert_message m = bindA (exec MsgIO (insert_message_row m)) (\<lambda>ok. if ok then ret () else throw MsgIO)"

definition save_message :: "message \<Rightarrow> (world, msg_err, unit) act" where
  "save_message m = bindA (exec MsgIO (save_message_row m)) (\<lambda>r.
     (case r of None \<Rightarrow> throw MsgIO | Some n \<Rightarrow> if n \<noteq> 1 then throw MsgErrNotFound else ret ()))"

text \<open>The lifetimes of temporary and of trashed messages, as durations.\<close>

definition temporary_ttl :: "db \<Rightarrow> duration" where
  "temporary_ttl d = wrap64 (temporary_ttl_hours (sys_settings d) * hour)"

definition trash_ttl :: "db \<Rightarrow> duration" where
  "trash_ttl d = wrap64 (trash_ttl_hours (sys_settings d) * hour)"

definition message_settings :: "(world, msg_err, duration \<times> duration) act" where
  "message_settings = query MsgIO (\<lambda>d. (temporary_ttl d, trash_ttl d))"

definition tag_list :: "uuid \<Rightarrow> db \<Rightarrow> tag list" where
  "tag_list i d = sort_key (\<lambda>t. (normalized_name t, tag_id t))
     (concat (map (\<lambda>t. map (\<lambda>_. t) (filter (\<lambda>mt. mt = (i, tag_id t)) (message_tags d))) (tags d)))"

definition load_tags :: "uuid \<Rightarrow> (world, msg_err, tag list) act" where
  "load_tags i = query MsgIO (tag_list i)"

definition count_owned_tags :: "uuid \<Rightarrow> uuid list \<Rightarrow> db \<Rightarrow> nat" where
  "count_owned_tags owner is d = sql_count (\<lambda>t. tag_user t = owner \<and> tag_id t \<in> set is) (tags d)"

definition validate_tags :: "uuid \<Rightarrow> uuid list \<Rightarrow> (world, msg_err, unit) act" where
  "validate_tags owner is =
     (if uuid_nil \<in> set is \<or> card (set is) \<noteq> length is then throw MsgErrValidation
      else if is = [] then ret ()
      else bindA (query MsgIO (count_owned_tags owner is)) (\<lambda>n.
        if n \<noteq> length is then throw MsgErrValidation else ret ()))"

definition insert_message_tag :: "uuid \<Rightarrow> uuid \<Rightarrow> db \<Rightarrow> bool \<times> db" where
  "insert_message_tag i t d =
     (if (i, t) \<in> set (message_tags d) then (False, d) else (True, d\<lparr>message_tags := message_tags d @ [(i, t)]\<rparr>))"

definition delete_message_tags :: "uuid \<Rightarrow> db \<Rightarrow> unit \<times> db" where
  "delete_message_tags i d = ((), d\<lparr>message_tags := sql_delete (\<lambda>mt. fst mt = i) (message_tags d)\<rparr>)"

definition replace_message_tags :: "uuid \<Rightarrow> uuid list \<Rightarrow> (world, msg_err, unit) act" where
  "replace_message_tags i is =
     bindA (exec MsgIO (delete_message_tags i)) (\<lambda>_.
     forA is (\<lambda>t. bindA (exec MsgIO (insert_message_tag i t)) (\<lambda>ok. if ok then ret () else throw MsgIO)))"

definition current_tag_ids :: "uuid \<Rightarrow> (world, msg_err, uuid list) act" where
  "current_tag_ids i = query MsgIO (\<lambda>d. map snd (filter (\<lambda>mt. fst mt = i) (message_tags d)))"

fun uncount :: "(uuid \<Rightarrow> int) \<Rightarrow> uuid list \<Rightarrow> bool" where
  "uncount m [] = True"
| "uncount m (v # vs) = (if m v - 1 < 0 then False else uncount (m(v := m v - 1)) vs)"

definition same_uuid_set :: "uuid list \<Rightarrow> uuid list \<Rightarrow> bool" where
  "same_uuid_set a b = (if length a \<noteq> length b then False else uncount (\<lambda>v. int (count_list a v)) b)"

definition attachment_count :: "uuid \<Rightarrow> db \<Rightarrow> nat" where
  "attachment_count i d = sql_count (\<lambda>a. ma_message a = i) (attachments d)"

text \<open>The attachments of a message with their files; a limit of 0 is no limit.\<close>

definition attachment_list :: "uuid \<Rightarrow> db \<Rightarrow> (attachment \<times> file_object) list" where
  "attachment_list i d = sort_key (\<lambda>(a, f). (display_order a, ma_id a))
     (concat (map (\<lambda>a. map (\<lambda>f. (a, f)) (filter (\<lambda>f. fo_id f = ma_file a) (file_objects d)))
       (filter (\<lambda>a. ma_message a = i) (attachments d))))"

definition load_attachments :: "uuid \<Rightarrow> nat \<Rightarrow> (world, msg_err, (attachment \<times> file_object) list) act" where
  "load_attachments i lim = query MsgIO (\<lambda>d.
     if 0 < lim then take lim (attachment_list i d) else attachment_list i d)"

definition recipient_status :: "uuid \<Rightarrow> db \<Rightarrow> user_status option" where
  "recipient_status u d = map_option usr_status (by_key usr_id u (users d))"

text \<open>A message with its tags and attachments, as the service returns it.\<close>

record message_view =
  view_row :: message
  view_tags :: "tag list"
  view_attachments :: "(attachment \<times> file_object) list"

definition repo_get_message :: "uuid \<Rightarrow> uuid \<Rightarrow> (world, msg_err, message_view) act" where
  "repo_get_message owner i =
     bindA (load_owned owner i) (\<lambda>m.
     bindA (load_tags i) (\<lambda>ts.
     bindA (load_attachments i 0) (\<lambda>as.
     ret \<lparr>view_row = m, view_tags = ts, view_attachments = as\<rparr>)))"


section \<open>Trimming of white space\<close>

lemma trim_left_no_white: "starts_white (trim_left s) = None"
  by (induction s rule: trim_left.induct) (subst trim_left.simps, simp split: option.split)

lemma trim_right_no_white: "ends_white (trim_right s) = None"
  by (induction s rule: trim_right.induct) (subst trim_right.simps, simp split: option.split)

lemma trim_right_prefix: "prefix (trim_right s) s"
proof (induction s rule: trim_right.induct)
  case (1 s)
  show ?case
  proof (cases "ends_white s")
    case (Some r)
    have "prefix (trim_right (take (length s - length r) s)) (take (length s - length r) s)"
      using 1 [OF Some] .
    then have "prefix (trim_right (take (length s - length r) s)) s"
      using take_is_prefix prefix_order.trans by blast
    with Some show ?thesis by (simp add: trim_right.simps [of s])
  qed (simp add: trim_right.simps [of s])
qed

lemma trim_left_suffix: "suffix (trim_left s) s"
proof (induction s rule: trim_left.induct)
  case (1 s)
  show ?case
  proof (cases "starts_white s")
    case (Some r)
    have "suffix (trim_left (drop (length r) s)) (drop (length r) s)" using 1 [OF Some] .
    then have "suffix (trim_left (drop (length r) s)) s"
      using suffix_drop suffix_order.trans by blast
    with Some show ?thesis by (simp add: trim_left.simps [of s])
  qed (simp add: trim_left.simps [of s])
qed

end
