(* ===== verification/Messages.thy ===== *)
theory Messages
  imports MessageModel
begin

text \<open>
  The operations that change one message of its owner (\<^verbatim>\<open>internal/messages/service.go\<close>): edits,
  tags, lifecycle, favorites, trash, and the sensitive flag. They share one transaction: load the
  owner's row, compare its version with the expected one, apply a change, and save the row with
  the next version. The change is the argument of \<open>mutate\<close>; its contract is the locale
  \<open>message_change\<close>.
\<close>

section \<open>The shared transaction\<close>

type_synonym change = "message \<Rightarrow> (world, msg_err, bool \<times> message) act"

text \<open>The plaintext column of a sensitive message never leaves the service.\<close>

definition hide :: "message \<Rightarrow> message" where
  "hide m = (if sensitive m then m\<lparr>body_plaintext := None\<rparr> else m)"

definition next_version :: "time \<Rightarrow> message \<Rightarrow> message" where
  "next_version now m = m\<lparr>version := wrap64 (version m + 1), updated_at := now\<rparr>"

definition mutate_tx :: "uuid \<Rightarrow> uuid \<Rightarrow> int \<Rightarrow> time \<Rightarrow> change \<Rightarrow> (world, msg_err, message) act" where
  "mutate_tx owner i expected now fn =
     bindA (load_owned owner i) (\<lambda>m.
     if version m \<noteq> expected then throw MsgErrVersionConflict
     else bindA (fn m) (\<lambda>(changed, m').
       if changed then bindA (save_message (next_version now m')) (\<lambda>_. ret (next_version now m'))
       else ret m'))"

definition mutate :: "uuid \<Rightarrow> uuid \<Rightarrow> int \<Rightarrow> time \<Rightarrow> change \<Rightarrow> (world, msg_err, message \<times> tag list) act" where
  "mutate owner i expected now fn =
     (if expected < 1 then throw MsgErrValidation
      else bindA (with_tx (mutate_tx owner i expected now fn)) (\<lambda>m.
        bindA (load_tags (msg_id m)) (\<lambda>ts. ret (hide m, ts))))"

definition mutate_with_settings ::
    "uuid \<Rightarrow> uuid \<Rightarrow> int \<Rightarrow> time \<Rightarrow> (message \<Rightarrow> duration \<Rightarrow> duration \<Rightarrow> time \<Rightarrow> (world, msg_err, bool \<times> message) act)
     \<Rightarrow> (world, msg_err, message \<times> tag list) act" where
  "mutate_with_settings owner i expected now fn =
     mutate owner i expected now (\<lambda>m. bindA message_settings (\<lambda>(temp, trash). fn m temp trash now))"

section \<open>The changes\<close>

text \<open>An optional value of a request: absent, or set to a value that may be null.\<close>

type_synonym opt_string = "string option option"

record edit_command =
  edit_expected :: int
  edit_title :: opt_string
  edit_body :: "string option"
  edit_format :: "string option"
  edit_clear :: bool
  edit_type :: opt_string
  edit_language :: opt_string

definition set_when :: "bool \<Rightarrow> (message \<Rightarrow> message) \<Rightarrow> bool \<times> message \<Rightarrow> bool \<times> message" where
  "set_when b f r = (if b then (True, f (snd r)) else r)"

definition differs :: "opt_string \<Rightarrow> string option \<Rightarrow> bool" where
  "differs v cur = (case v of None \<Rightarrow> False | Some new \<Rightarrow> cur \<noteq> new)"

definition clear_body :: "bool \<times> message \<Rightarrow> (world, msg_err, bool \<times> message) act" where
  "clear_body r =
     bindA (query MsgIO (attachment_count (msg_id (snd r)))) (\<lambda>n.
     if n = 0 then throw MsgErrContentRequired
     else ret (set_when (body_plaintext (snd r) \<noteq> None) (\<lambda>m. m\<lparr>body_plaintext := None\<rparr>) r))"

definition edit_body_fields :: "edit_command \<Rightarrow> bool \<times> message \<Rightarrow> bool \<times> message" where
  "edit_body_fields c r =
     (let r1 = (case edit_body c of None \<Rightarrow> r
                | Some b \<Rightarrow> set_when (body_plaintext (snd r) \<noteq> None \<and> body_plaintext (snd r) \<noteq> Some b)
                              (\<lambda>m. m\<lparr>body_plaintext := Some b\<rparr>) r);
          r2 = (case edit_format c of None \<Rightarrow> r1
                | Some f \<Rightarrow> set_when (f \<noteq> body_format (snd r1)) (\<lambda>m. m\<lparr>body_format := f\<rparr>) r1);
          r3 = set_when (differs (edit_type c) (detected_type (snd r2))) (\<lambda>m. m\<lparr>detected_type := the (edit_type c)\<rparr>) r2
      in set_when (differs (edit_language c) (detected_language (snd r3)))
           (\<lambda>m. m\<lparr>detected_language := the (edit_language c)\<rparr>) r3)"

definition edit_change :: "edit_command \<Rightarrow> change" where
  "edit_change c m =
     (if trashed_at m \<noteq> None then throw MsgErrTrashed
      else if sensitive m \<and> edit_body c \<noteq> None then throw MsgErrValidation
      else if sensitive m \<and> edit_clear c then throw MsgErrValidation
      else bindA (let r = set_when (differs (edit_title c) (title m)) (\<lambda>m. m\<lparr>title := the (edit_title c)\<rparr>) (False, m)
                  in if edit_clear c then clear_body r else ret r) (\<lambda>r.
        ret (edit_body_fields c r)))"

definition too_long :: "opt_string \<Rightarrow> bool" where
  "too_long v = (case v of Some (Some s) \<Rightarrow> 64 < rune_count s | _ \<Rightarrow> False)"

definition normalized :: "opt_string \<Rightarrow> msg_err + opt_string" where
  "normalized v = (case v of None \<Rightarrow> Inr None
     | Some t \<Rightarrow> (case normalize_title t of Inl e \<Rightarrow> Inl e | Inr t' \<Rightarrow> Inr (Some t')))"

definition edit_message :: "uuid \<Rightarrow> uuid \<Rightarrow> edit_command \<Rightarrow> time \<Rightarrow> (world, msg_err, message \<times> tag list) act" where
  "edit_message owner i c now =
     (if edit_body c = None \<and> \<not> edit_clear c \<and> edit_format c = None \<and> edit_title c = None
         \<and> edit_type c = None \<and> edit_language c = None then throw MsgErrValidation
      else if (case edit_body c of None \<Rightarrow> False | Some b \<Rightarrow> \<not> valid_body b) then throw MsgErrValidation
      else if (case edit_format c of None \<Rightarrow> False | Some f \<Rightarrow> \<not> valid_format f) then throw MsgErrValidation
      else (case normalized (edit_title c) of
          Inl e \<Rightarrow> throw e
        | Inr t \<Rightarrow>
            if too_long (edit_type c) \<or> too_long (edit_language c) then throw MsgErrValidation
            else mutate owner i (edit_expected c) now (edit_change (c\<lparr>edit_title := t\<rparr>))))"

definition make_permanent_change :: change where
  "make_permanent_change m =
     (if trashed_at m \<noteq> None then throw MsgErrTrashed
      else if msg_lifecycle m = Permanent then ret (False, m)
      else ret (True, m\<lparr>msg_lifecycle := Permanent, expires_at := None\<rparr>))"

definition make_permanent :: "uuid \<Rightarrow> uuid \<Rightarrow> int \<Rightarrow> time \<Rightarrow> (world, msg_err, message \<times> tag list) act" where
  "make_permanent owner i expected now = mutate owner i expected now make_permanent_change"

definition extend_change :: "int \<Rightarrow> change" where
  "extend_change days m =
     (if trashed_at m \<noteq> None then throw MsgErrTrashed
      else if msg_lifecycle m \<noteq> Temporary then throw MsgErrNotTemporary
      else (case expires_at m of None \<Rightarrow> throw MsgErrNotTemporary
        | Some t \<Rightarrow> ret (True, m\<lparr>expires_at := Some (t + wrap64 (wrap64 (days * 24) * hour))\<rparr>)))"

definition extend_expiry :: "uuid \<Rightarrow> uuid \<Rightarrow> int \<Rightarrow> int \<Rightarrow> time \<Rightarrow> (world, msg_err, message \<times> tag list) act" where
  "extend_expiry owner i expected days now =
     (if days \<noteq> 1 \<and> days \<noteq> 3 \<and> days \<noteq> 7 then throw MsgErrValidation
      else mutate owner i expected now (extend_change days))"

definition favorite_change :: "bool \<Rightarrow> change" where
  "favorite_change fav m =
     (if trashed_at m \<noteq> None then throw MsgErrTrashed
      else if fav \<and> msg_lifecycle m \<noteq> Permanent then throw MsgErrFavoriteRequiresPermanent
      else if favorite m = fav then ret (False, m)
      else ret (True, m\<lparr>favorite := fav\<rparr>))"

definition set_favorite :: "uuid \<Rightarrow> uuid \<Rightarrow> int \<Rightarrow> bool \<Rightarrow> time \<Rightarrow> (world, msg_err, message \<times> tag list) act" where
  "set_favorite owner i expected fav now = mutate owner i expected now (favorite_change fav)"

definition trash_change :: "message \<Rightarrow> duration \<Rightarrow> duration \<Rightarrow> time \<Rightarrow> (world, msg_err, bool \<times> message) act" where
  "trash_change m temp trash now =
     (if trashed_at m \<noteq> None then ret (False, m)
      else ret (True, m\<lparr>trashed_at := Some now, purge_at := Some (now + trash)\<rparr>))"

definition trash_message :: "uuid \<Rightarrow> uuid \<Rightarrow> int \<Rightarrow> time \<Rightarrow> (world, msg_err, message \<times> tag list) act" where
  "trash_message owner i expected now = mutate_with_settings owner i expected now trash_change"

definition restore_change :: "message \<Rightarrow> duration \<Rightarrow> duration \<Rightarrow> time \<Rightarrow> (world, msg_err, bool \<times> message) act" where
  "restore_change m temp trash now =
     (if trashed_at m = None then throw MsgErrNotTrashed
      else ret (True, (let m1 = m\<lparr>trashed_at := None, purge_at := None\<rparr> in
        if msg_lifecycle m = Permanent then m1\<lparr>expires_at := None\<rparr>
        else if (case expires_at m of None \<Rightarrow> True | Some t \<Rightarrow> t \<le> now) then m1\<lparr>expires_at := Some (now + temp)\<rparr>
        else m1)))"

definition restore_message :: "uuid \<Rightarrow> uuid \<Rightarrow> int \<Rightarrow> time \<Rightarrow> (world, msg_err, message \<times> tag list) act" where
  "restore_message owner i expected now = mutate_with_settings owner i expected now restore_change"

definition sealed :: "message \<Rightarrow> bytes \<times> bytes \<times> int \<Rightarrow> message" where
  "sealed m cnv = (case cnv of (ct, nonce, v) \<Rightarrow>
     m\<lparr>body_ciphertext := Some ct, body_nonce := Some nonce, body_encryption_version := Some v\<rparr>)"

definition sensitive_change :: "body_cipher \<Rightarrow> bytes option \<Rightarrow> bool \<Rightarrow> change" where
  "sensitive_change c rnd flag m =
     (if trashed_at m \<noteq> None then throw MsgErrTrashed
      else if sensitive m = flag then ret (False, m)
      else if flag then
        (case body_plaintext m of None \<Rightarrow> throw MsgErrValidation
         | Some b \<Rightarrow>
             if \<not> valid_body b then throw MsgErrValidation
             else (case encrypt c rnd (msg_id m) (owner_id m) b of
                 Inl e \<Rightarrow> throw e
               | Inr cnv \<Rightarrow> ret (True, sealed (m\<lparr>body_plaintext := None, sensitive := True\<rparr>) cnv)))
      else (case decrypt c m of
          Inl e \<Rightarrow> throw e
        | Inr p \<Rightarrow> ret (True, m\<lparr>body_plaintext := Some p, body_ciphertext := None, body_nonce := None,
                       body_encryption_version := None, sensitive := False\<rparr>)))"

definition set_sensitive ::
    "body_cipher \<Rightarrow> bytes option \<Rightarrow> uuid \<Rightarrow> uuid \<Rightarrow> int \<Rightarrow> bool \<Rightarrow> time \<Rightarrow> (world, msg_err, message \<times> tag list) act" where
  "set_sensitive c rnd owner i expected flag now = mutate owner i expected now (sensitive_change c rnd flag)"

definition reveal :: "body_cipher \<Rightarrow> uuid \<Rightarrow> uuid \<Rightarrow> (world, msg_err, bytes \<times> int) act" where
  "reveal c owner i =
     bindA (repo_get_message owner i) (\<lambda>v.
     if \<not> sensitive (view_row v) then throw MsgErrNotSensitive
     else (case decrypt c (view_row v) of Inl e \<Rightarrow> throw e | Inr p \<Rightarrow> ret (p, version (view_row v))))"

definition edit_sensitive_change :: "body_cipher \<Rightarrow> bytes option \<Rightarrow> opt_string \<Rightarrow> string \<Rightarrow> change" where
  "edit_sensitive_change c rnd t b m =
     (if trashed_at m \<noteq> None then throw MsgErrTrashed
      else if \<not> sensitive m then throw MsgErrNotSensitive
      else (case encrypt c rnd (msg_id m) (owner_id m) b of
          Inl e \<Rightarrow> throw e
        | Inr cnv \<Rightarrow> ret (True, (case t of None \<Rightarrow> sealed m cnv | Some v \<Rightarrow> (sealed m cnv)\<lparr>title := v\<rparr>))))"

definition edit_sensitive ::
    "body_cipher \<Rightarrow> bytes option \<Rightarrow> uuid \<Rightarrow> uuid \<Rightarrow> int \<Rightarrow> opt_string \<Rightarrow> string \<Rightarrow> time \<Rightarrow> (world, msg_err, message \<times> tag list) act" where
  "edit_sensitive c rnd owner i expected t b now =
     (if \<not> valid_body b then throw MsgErrValidation
      else (case normalized t of
          Inl e \<Rightarrow> throw e
        | Inr t' \<Rightarrow> mutate owner i expected now (edit_sensitive_change c rnd t' b)))"

definition replace_tags_tx :: "uuid \<Rightarrow> uuid \<Rightarrow> int \<Rightarrow> uuid list \<Rightarrow> time \<Rightarrow> (world, msg_err, message) act" where
  "replace_tags_tx owner i expected is now =
     bindA (load_owned owner i) (\<lambda>m.
     if version m \<noteq> expected then throw MsgErrVersionConflict
     else if trashed_at m \<noteq> None then throw MsgErrTrashed
     else bindA (validate_tags owner is) (\<lambda>_.
       bindA (current_tag_ids i) (\<lambda>cur.
       if \<not> same_uuid_set cur is then
         bindA (replace_message_tags i is) (\<lambda>_.
         bindA (save_message (next_version now m)) (\<lambda>_. ret (next_version now m)))
       else ret m)))"

definition replace_tags :: "uuid \<Rightarrow> uuid \<Rightarrow> int \<Rightarrow> uuid list \<Rightarrow> time \<Rightarrow> (world, msg_err, message \<times> tag list) act" where
  "replace_tags owner i expected is now =
     (if expected < 1 then throw MsgErrValidation
      else bindA (with_tx (replace_tags_tx owner i expected is now)) (\<lambda>m.
        bindA (load_tags i) (\<lambda>ts. ret (hide m, ts))))"

definition detail :: "uuid \<Rightarrow> uuid \<Rightarrow> (world, msg_err, message_view) act" where
  "detail owner i = bindA (repo_get_message owner i) (\<lambda>v. ret (v\<lparr>view_row := hide (view_row v)\<rparr>))"

section \<open>Deletion and expiry\<close>

record audit_context =
  ac_device :: uuid
  ac_session :: uuid
  ac_trace :: string
  ac_ip :: string
  ac_agent :: string

definition delete_audit_row :: "uuid \<Rightarrow> uuid \<Rightarrow> message \<Rightarrow> audit_context \<Rightarrow> time \<Rightarrow> audit_row" where
  "delete_audit_row a owner m ac now = \<lparr>audit_id = a, audit_actor = Some owner,
     audit_event = ''MESSAGE_PERMANENTLY_DELETED'', audit_target_type = Some ''MESSAGE'', audit_target = Some (msg_id m),
     audit_ip = nullable (ac_ip ac), audit_user_agent = Some (ac_agent ac), audit_device = non_nil (ac_device ac),
     audit_session = non_nil (ac_session ac), audit_trace = Some (ac_trace ac),
     audit_metadata = [(''lifecycle'', MetaText (if msg_lifecycle m = Temporary then ''TEMPORARY'' else ''PERMANENT''))],
     audit_created_at = now\<rparr>"

definition permanently_delete_tx :: "uuid \<Rightarrow> uuid \<Rightarrow> audit_context \<Rightarrow> time \<Rightarrow> (world, msg_err, unit) act" where
  "permanently_delete_tx owner i ac now =
     bindA (load_owned owner i) (\<lambda>m.
     if trashed_at m = None then throw MsgErrNotTrashed
     else bindA (new_id MsgIO) (\<lambda>a.
       bindA (exec MsgIO (insert_audit (delete_audit_row a owner m ac now))) (\<lambda>ok.
       if \<not> ok then throw MsgIO
       else bindA (exec MsgIO (delete_trashed_message i owner)) (\<lambda>n.
         if n \<noteq> 1 then throw MsgErrNotFound else ret ()))))"

definition permanently_delete :: "uuid \<Rightarrow> uuid \<Rightarrow> audit_context \<Rightarrow> time \<Rightarrow> (world, msg_err, unit) act" where
  "permanently_delete owner i ac now = with_tx (permanently_delete_tx owner i ac now)"

definition expire_due_temporary :: "int \<Rightarrow> time \<Rightarrow> (world, msg_err, nat) act" where
  "expire_due_temporary batch now =
     (if batch < 1 \<or> 500 < batch then throw MsgErrValidation
      else with_tx (bindA message_settings (\<lambda>(temp, trash).
        bindA (exec MsgIO (expire_rows now (now + trash) (nat batch))) (\<lambda>r.
        (case r of None \<Rightarrow> throw MsgIO | Some n \<Rightarrow> ret n)))))"


section \<open>The invariant of the message tables\<close>

definition messages_ok :: "db \<Rightarrow> bool" where
  "messages_ok d \<longleftrightarrow> distinct (map msg_id (messages d)) \<and> (\<forall>m\<in>set (messages d). message_checks m)
     \<and> distinct (message_tags d)"

lemma messages_ok_cong:
  "messages d' = messages d \<Longrightarrow> message_tags d' = message_tags d \<Longrightarrow> messages_ok d' = messages_ok d"
  by (simp add: messages_ok_def)

lemma saved_row_keys [simp]: "msg_id (saved_row m r) = msg_id r" "owner_id (saved_row m r) = owner_id r"
  by (simp_all add: saved_row_def)

lemma checks_saved_row [simp]: "message_checks (saved_row m r) = message_checks m"
  by (simp add: message_checks_def saved_row_def body_columns_ok_def)

lemma owned_message_SomeD:
  "owned_message owner i d = Some m \<Longrightarrow> m \<in> set (messages d) \<and> msg_id m = i \<and> owner_id m = owner
     \<and> by_key msg_id i (messages d) = Some m"
  by (auto simp: owned_message_def dest: by_key_SomeD split: option.splits if_splits)

lemma messages_ok_save: "messages_ok d \<Longrightarrow> messages_ok (snd (save_message_row m d))"
  by (auto simp: save_message_row_def Let_def messages_ok_def set_sql_update map_key_sql_update sql_count_0)

lemma messages_ok_insert: "messages_ok d \<Longrightarrow> messages_ok (snd (insert_message_row m d))"
  by (auto simp: insert_message_row_def messages_ok_def sql_exists_iff)

lemma messages_ok_tags:
  "messages_ok d \<Longrightarrow> messages_ok (snd (insert_message_tag i t d))"
  "messages_ok d \<Longrightarrow> messages_ok (snd (delete_message_tags i d))"
  by (auto simp: insert_message_tag_def delete_message_tags_def messages_ok_def sql_delete_def)

lemma messages_ok_delete:
  assumes "messages_ok d"
  shows "messages_ok (delete_messages p d)"
proof -
  have c: "message_checks (m\<lparr>source_message_id := None\<rparr>) = message_checks m" for m
    by (simp add: message_checks_def body_columns_ok_def)
  have k: "map msg_id (map (\<lambda>m. if b m then m\<lparr>source_message_id := None\<rparr> else m) ms) = map msg_id ms" for b ms
    by simp
  show ?thesis
    using assms unfolding delete_messages_def Let_def messages_ok_def
    by (simp add: k distinct_sql_delete del: map_map)
      (auto simp: c set_sql_delete sql_delete_def)
qed

lemma by_key_distinct: "distinct (map k rows) \<Longrightarrow> r \<in> set rows \<Longrightarrow> r' \<in> set rows \<Longrightarrow> k r = k r' \<Longrightarrow> r = r'"
  by (induction rows) (auto simp: image_iff)

lemma checks_trash:
  "message_checks m \<Longrightarrow> in_int64 (version m + 1) \<Longrightarrow>
   message_checks (m\<lparr>trashed_at := Some t, purge_at := Some p, version := version m + 1, updated_at := u\<rparr>)"
  by (simp add: message_checks_def body_columns_ok_def)

lemma due_temporary_sub: "set (due_temporary now lim d) \<subseteq> set (messages d)"
  by (auto simp: due_temporary_def dest: in_set_takeD)

lemma messages_ok_expire:
  assumes "messages_ok d"
  shows "messages_ok (snd (expire_rows now purge lim d))"
proof (cases "list_ex (\<lambda>m. \<not> in_int64 (version m + 1)) (due_temporary now lim d)")
  case True
  then show ?thesis using assms by (simp add: expire_rows_def Let_def)
next
  case False
  have "in_int64 (version m + 1)" if "m \<in> set (messages d)" "msg_id m \<in> msg_id ` set (due_temporary now lim d)" for m
  proof -
    from that(2) obtain x where x: "x \<in> set (due_temporary now lim d)" "msg_id x = msg_id m" by auto
    have "x \<in> set (messages d)" using x(1) due_temporary_sub by blast
    then have "x = m"
      using by_key_distinct [of msg_id "messages d" x m] assms that(1) x(2) by (simp add: messages_ok_def)
    then show ?thesis using False x(1) by (auto simp: list_ex_iff)
  qed
  then have "\<forall>m\<in>set (sql_update (\<lambda>m. msg_id m \<in> msg_id ` set (due_temporary now lim d))
      (\<lambda>m. m\<lparr>trashed_at := Some now, purge_at := Some purge, version := version m + 1, updated_at := now\<rparr>) (messages d)).
      message_checks m"
    using assms checks_trash by (auto simp: set_sql_update messages_ok_def)
  then show ?thesis
    using assms False by (simp add: expire_rows_def Let_def messages_ok_def map_key_sql_update)
qed

section \<open>The contract of a change\<close>

text \<open>A change keeps the identity of the row: its key, owner, version and origin.\<close>

definition same_identity :: "message \<Rightarrow> message \<Rightarrow> bool" where
  "same_identity m m' \<longleftrightarrow> msg_id m' = msg_id m \<and> owner_id m' = owner_id m \<and> version m' = version m
     \<and> source_user_id m' = source_user_id m \<and> source_message_id m' = source_message_id m
     \<and> created_device_id m' = created_device_id m \<and> created_at m' = created_at m"

lemma same_identity_refl [simp]: "same_identity m m"
  by (simp add: same_identity_def)

text \<open>The database after a change was saved.\<close>

definition changed_db :: "time \<Rightarrow> message \<Rightarrow> db \<Rightarrow> db" where
  "changed_db now m' d = d\<lparr>messages := sql_update (\<lambda>r. msg_id r = msg_id m' \<and> owner_id r = owner_id m')
     (saved_row (next_version now m')) (messages d)\<rparr>"

lemma save_message_Inr:
  assumes "save_message m w = (Inr u, w')"
  shows "message_checks m \<and> wdb w' = (wdb w)\<lparr>messages := sql_update (\<lambda>r. msg_id r = msg_id m \<and> owner_id r = owner_id m)
      (saved_row m) (messages (wdb w))\<rparr>"
proof -
  from assms obtain r w1 where e: "exec MsgIO (save_message_row m) w = (Inr r, w1)"
    and c: "(case r of None \<Rightarrow> throw MsgIO | Some n \<Rightarrow> if n \<noteq> 1 then throw MsgErrNotFound else ret ()) w1 = (Inr u, w')"
    unfolding save_message_def bindA_Inr_iff by blast
  from c obtain n where "r = Some n" "n \<noteq> 0" "w' = w1"
    by (cases r) (simp_all add: throw_run ret_run split: if_splits)
  with exec_Inr [OF e] show ?thesis
    by (auto simp: save_message_row_def Let_def split: if_splits)
qed

lemma load_owned_Inr:
  assumes "load_owned owner i w = (Inr m, w')"
  shows "owned_message owner i (wdb w) = Some m" "wdb w' = wdb w"
proof -
  from assms obtain r w1 where q: "query MsgIO (owned_message owner i) w = (Inr r, w1)"
    and c: "(case r of None \<Rightarrow> throw MsgErrNotFound | Some m \<Rightarrow> ret m) w1 = (Inr m, w')"
    unfolding load_owned_def bindA_Inr_iff by blast
  from c have "r = Some m" "w' = w1" by (cases r; simp add: throw_run ret_run)+
  with query_Inr [OF q] show "owned_message owner i (wdb w) = Some m" "wdb w' = wdb w" by simp_all
qed

locale message_change =
  fixes change :: change
  assumes same: "change m w = (Inr (c, m'), w') \<Longrightarrow> same_identity m m' \<and> wdb w' = wdb w"
    and idle: "change m w = (Inr (False, m'), w') \<Longrightarrow> m' = m"
begin

lemma mutate_tx_Inr:
  assumes "mutate_tx owner i expected now change w = (Inr x, w')"
  obtains (unchanged) "owned_message owner i (wdb w) = Some x" "version x = expected" "wdb w' = wdb w"
  | (changed) m m' where "owned_message owner i (wdb w) = Some m" "version m = expected" "same_identity m m'"
      "x = next_version now m'" "message_checks x" "wdb w' = changed_db now m' (wdb w)"
proof -
  from assms obtain m w1 where l: "load_owned owner i w = (Inr m, w1)"
    and b: "(if version m \<noteq> expected then throw MsgErrVersionConflict
     else bindA (change m) (\<lambda>(changed, m').
       if changed then bindA (save_message (next_version now m')) (\<lambda>_. ret (next_version now m'))
       else ret m')) w1 = (Inr x, w')"
    unfolding mutate_tx_def bindA_Inr_iff by blast
  note m = load_owned_Inr [OF l]
  from b have v: "version m = expected" by (cases "version m = expected") (simp_all add: throw_run)
  from b v obtain p w2 where p: "change m w1 = (Inr p, w2)"
    and k: "(case p of (changed, m') \<Rightarrow>
       if changed then bindA (save_message (next_version now m')) (\<lambda>_. ret (next_version now m'))
       else ret m') w2 = (Inr x, w')"
    by (auto simp only: bindA_Inr_iff if_False simp_thms)
  obtain c m' where "p = (c, m')" by fastforce
  with p k have ch: "change m w1 = (Inr (c, m'), w2)"
    and s: "(if c then bindA (save_message (next_version now m')) (\<lambda>_. ret (next_version now m')) else ret m') w2 = (Inr x, w')"
    by (simp_all only: prod.case)
  from same [OF ch] have i: "same_identity m m'" "wdb w2 = wdb w" using m by simp_all
  show thesis
  proof (cases c)
    case True
    then have "bindA (save_message (next_version now m')) (\<lambda>_. ret (next_version now m')) w2 = (Inr x, w')"
      using s by (simp only: if_True simp_thms)
    then obtain u w3 where sv: "save_message (next_version now m') w2 = (Inr u, w3)" "x = next_version now m'" "w' = w3"
      by (rule bindA_InrE) (simp add: ret_run)
    from save_message_Inr [OF sv(1)] have "message_checks x" "wdb w' = changed_db now m' (wdb w)"
      using i(2) sv(2,3) by (simp_all add: changed_db_def next_version_def)
    with m(1) v i(1) sv(2) show thesis by (intro changed) simp_all
  next
    case False
    with s ch have "x = m'" "w' = w2" "m' = m" by (auto simp: ret_run dest: idle)
    with m v i(2) show thesis by (intro that(1)) simp_all
  qed
qed

lemma mutate_effect:
  assumes "mutate owner i expected now change w = (r, w')"
  obtains (unchanged) "wdb w' = wdb w"
  | (changed) m m' where "owned_message owner i (wdb w) = Some m" "version m = expected" "same_identity m m'"
      "message_checks (next_version now m')" "wdb w' = changed_db now m' (wdb w)"
proof (cases "expected < 1")
  case True
  then show thesis using assms that(1) by (simp add: mutate_def throw_run)
next
  case False
  obtain r1 w1 where t: "with_tx (mutate_tx owner i expected now change) w = (r1, w1)" by fastforce
  have w': "wdb w' = wdb w1"
  proof (cases r1)
    case (Inr m)
    obtain r2 w2 where l: "load_tags (msg_id m) w1 = (r2, w2)" by fastforce
    then have "wdb w2 = wdb w1" by (auto simp: load_tags_def dest: query_result)
    then show ?thesis using assms False t Inr l
      by (auto simp: mutate_def bindA_run ret_run split: sum.splits)
  qed (use assms False t in \<open>simp add: mutate_def bindA_run\<close>)
  from t show thesis unfolding with_tx_def
  proof (cases rule: in_tx_effect)
    case unchanged
    then show thesis using w' by (intro that(1)) simp
  next
    case (effect wa wb x)
    then have b: "mutate_tx owner i expected now change wa = (Inr x, wb)" by (auto simp: act_Inr)
    then show thesis
    proof (cases rule: mutate_tx_Inr)
      case (changed m m')
      with effect w' show thesis by (intro that(2) [of m m']) simp_all
    qed (use effect w' that(1) in simp)
  qed
qed

end


section \<open>Every change meets the contract\<close>

lemma set_when_idle:
  "(fst r \<or> snd r = m) \<Longrightarrow> fst (set_when b f r) \<or> snd (set_when b f r) = m"
  by (simp add: set_when_def)

lemma set_when_same:
  "same_identity m (snd r) \<Longrightarrow> (\<And>x. same_identity x (f x)) \<Longrightarrow> same_identity m (snd (set_when b f r))"
  by (auto simp: set_when_def same_identity_def)

lemma edit_body_fields_rule:
  assumes "P r"
    and "\<And>r b t. P r \<Longrightarrow> edit_body c = Some t \<Longrightarrow>
      P (set_when (body_plaintext (snd r) \<noteq> None \<and> b) (\<lambda>m. m\<lparr>body_plaintext := Some t\<rparr>) r)"
    and "\<And>r b f. P r \<Longrightarrow> edit_format c = Some f \<Longrightarrow> P (set_when b (\<lambda>m. m\<lparr>body_format := f\<rparr>) r)"
    and "\<And>r. P r \<Longrightarrow> P (set_when (differs (edit_type c) (detected_type (snd r)))
      (\<lambda>m. m\<lparr>detected_type := the (edit_type c)\<rparr>) r)"
    and "\<And>r. P r \<Longrightarrow> P (set_when (differs (edit_language c) (detected_language (snd r)))
      (\<lambda>m. m\<lparr>detected_language := the (edit_language c)\<rparr>) r)"
  shows "P (edit_body_fields c r)"
  unfolding edit_body_fields_def Let_def
  by (intro assms(4,5)) (cases "edit_body c"; cases "edit_format c"; simp only: option.case; intro assms(1-3))

lemma edit_body_fields_idle: "(fst r \<or> snd r = m) \<Longrightarrow> fst (edit_body_fields c r) \<or> snd (edit_body_fields c r) = m"
  by (rule edit_body_fields_rule) (assumption | rule set_when_idle)+

lemma edit_body_fields_same: "same_identity m (snd r) \<Longrightarrow> same_identity m (snd (edit_body_fields c r))"
  by (rule edit_body_fields_rule) (assumption | rule set_when_same | simp add: same_identity_def)+

lemma clear_body_Inr:
  assumes "clear_body r w = (Inr r', w')"
  shows "wdb w' = wdb w \<and> attachment_count (msg_id (snd r)) (wdb w) \<noteq> 0 \<and>
    r' = set_when (body_plaintext (snd r) \<noteq> None) (\<lambda>m. m\<lparr>body_plaintext := None\<rparr>) r"
  using assms unfolding clear_body_def
  by (elim bindA_InrE) (auto simp: if_Inr ret_run throw_run dest: query_Inr)

text \<open>The first half of an edit: title, then the removal of the body.\<close>

definition edit_start :: "edit_command \<Rightarrow> change" where
  "edit_start c m = (let r = set_when (differs (edit_title c) (title m)) (\<lambda>m. m\<lparr>title := the (edit_title c)\<rparr>) (False, m)
     in if edit_clear c then clear_body r else ret r)"

lemma edit_start_Inr:
  assumes "edit_start c m w = (Inr r, w')"
  shows "same_identity m (snd r) \<and> wdb w' = wdb w \<and> (fst r \<or> snd r = m)"
proof -
  let ?r = "set_when (differs (edit_title c) (title m)) (\<lambda>m. m\<lparr>title := the (edit_title c)\<rparr>) (False, m)"
  have r: "same_identity m (snd ?r)" "fst ?r \<or> snd ?r = m"
    by (intro set_when_same set_when_idle; simp add: same_identity_def)+
  show ?thesis
  proof (cases "edit_clear c")
    case True
    then have "clear_body ?r w = (Inr r, w')" using assms by (simp only: edit_start_def Let_def if_True)
    from clear_body_Inr [OF this] r show ?thesis
      by (auto simp: set_when_def same_identity_def)
  next
    case False
    then have "r = ?r" "w' = w" using assms by (simp_all add: edit_start_def Let_def ret_run)
    with r show ?thesis by simp
  qed
qed

lemma edit_change_Inr:
  assumes "edit_change c m w = (Inr p, w')"
  obtains r where "edit_start c m w = (Inr r, w')" "p = edit_body_fields c r" "trashed_at m = None"
proof -
  from assms have t: "trashed_at m = None" "\<not> (sensitive m \<and> edit_body c \<noteq> None)" "\<not> (sensitive m \<and> edit_clear c)"
    unfolding edit_change_def by (auto simp: throw_run split: if_splits)
  then have "edit_change c m w = bindA (edit_start c m) (\<lambda>r. ret (edit_body_fields c r)) w"
    unfolding edit_change_def edit_start_def by (simp only: t if_False simp_thms)
  with assms have "bindA (edit_start c m) (\<lambda>r. ret (edit_body_fields c r)) w = (Inr p, w')" by simp
  then show thesis by (rule bindA_InrE) (use t(1) in \<open>auto simp: ret_run intro: that\<close>)
qed

interpretation edit: message_change "edit_change c" for c
proof
  fix m w ch m' w' assume "edit_change c m w = (Inr (ch, m'), w')"
  then obtain r where "edit_start c m w = (Inr r, w')" "(ch, m') = edit_body_fields c r"
    by (rule edit_change_Inr)
  then show "same_identity m m' \<and> wdb w' = wdb w"
    by (metis edit_start_Inr edit_body_fields_same snd_conv)
next
  fix m w m' w' assume "edit_change c m w = (Inr (False, m'), w')"
  then obtain r where "edit_start c m w = (Inr r, w')" "(False, m') = edit_body_fields c r"
    by (rule edit_change_Inr)
  then show "m' = m" by (metis edit_start_Inr edit_body_fields_idle fst_conv snd_conv)
qed

interpretation permanent: message_change make_permanent_change
  by unfold_locales (auto simp: make_permanent_change_def act_Inr same_identity_def split: if_splits)

interpretation extend: message_change "extend_change days" for days
  by unfold_locales (auto simp: extend_change_def act_Inr same_identity_def split: if_splits option.splits)

interpretation favorite: message_change "favorite_change fav" for fav
  by unfold_locales (auto simp: favorite_change_def act_Inr same_identity_def split: if_splits)

interpretation sensitive: message_change "sensitive_change c rnd flag" for c rnd flag
  by unfold_locales (auto simp: sensitive_change_def act_Inr same_identity_def sealed_def encrypt_def
    split: if_splits option.splits sum.splits)

interpretation edit_sensitive: message_change "edit_sensitive_change c rnd t b" for c rnd t b
  by unfold_locales (auto simp: edit_sensitive_change_def act_Inr same_identity_def sealed_def encrypt_def
    split: if_splits option.splits sum.splits)

text \<open>The changes that read the system settings first.\<close>

definition with_settings ::
    "(message \<Rightarrow> duration \<Rightarrow> duration \<Rightarrow> time \<Rightarrow> (world, msg_err, bool \<times> message) act) \<Rightarrow> time \<Rightarrow> change" where
  "with_settings fn now m = bindA message_settings (\<lambda>(temp, trash). fn m temp trash now)"

lemma mutate_with_settings_eq: "mutate_with_settings owner i e now fn = mutate owner i e now (with_settings fn now)"
  by (simp add: mutate_with_settings_def with_settings_def [abs_def])

lemma with_settings_Inr:
  assumes "with_settings fn now m w = (Inr p, w')"
  obtains w1 temp trash where "wdb w1 = wdb w" "fn m temp trash now w1 = (Inr p, w')"
  using assms unfolding with_settings_def message_settings_def
  by (elim bindA_InrE) (auto dest: query_Inr)

interpretation trash: message_change "with_settings trash_change now" for now
  by unfold_locales (auto elim!: with_settings_Inr simp: trash_change_def act_Inr same_identity_def split: if_splits)

interpretation restore: message_change "with_settings restore_change now" for now
  by unfold_locales (auto elim!: with_settings_Inr simp: restore_change_def act_Inr same_identity_def Let_def
    split: if_splits)


section \<open>Effect of an operation\<close>

lemma changed_db_by_key:
  "by_key msg_id j (messages (changed_db now m' d)) = map_option (\<lambda>r. if msg_id r = msg_id m' \<and> owner_id r = owner_id m'
     then saved_row (next_version now m') r else r) (by_key msg_id j (messages d))"
  unfolding changed_db_def by (simp add: by_key_sql_update)

lemma changed_db_simps [simp]:
  "message_tags (changed_db now m' d) = message_tags d" "tags (changed_db now m' d) = tags d"
  "attachments (changed_db now m' d) = attachments d" "sys_settings (changed_db now m' d) = sys_settings d"
  by (simp_all add: changed_db_def)

lemma owned_changed_db:
  assumes "owned_message owner i d = Some m" "same_identity m m'"
  shows "owned_message owner i (changed_db now m' d) = Some (saved_row (next_version now m') m)"
  using assms unfolding owned_message_def changed_db_by_key
  by (auto simp: same_identity_def split: option.splits if_splits dest: by_key_SomeD)

lemma saved_same_identity: "same_identity m m' \<Longrightarrow> saved_row (next_version now m') m = next_version now m'"
  by (simp add: saved_row_def next_version_def same_identity_def)

definition only_message :: "uuid \<Rightarrow> db \<Rightarrow> db \<Rightarrow> bool" where
  "only_message i d d' \<longleftrightarrow> (\<exists>ms ts. d' = d\<lparr>messages := ms, message_tags := ts\<rparr>
     \<and> map msg_id ms = map msg_id (messages d)
     \<and> (\<forall>j. j \<noteq> i \<longrightarrow> by_key msg_id j ms = by_key msg_id j (messages d))
     \<and> filter (\<lambda>t. fst t \<noteq> i) ts = filter (\<lambda>t. fst t \<noteq> i) (message_tags d))"

lemma only_message_refl [simp]: "only_message i d d"
  unfolding only_message_def by (rule exI [of _ "messages d"], rule exI [of _ "message_tags d"]) simp

lemma only_message_tags:
  assumes "only_message i d d'" "filter (\<lambda>t. fst t \<noteq> i) ts = filter (\<lambda>t. fst t \<noteq> i) (message_tags d)"
  shows "only_message i d (d'\<lparr>message_tags := ts\<rparr>)"
proof -
  from assms(1) obtain ms ts0 where "d' = d\<lparr>messages := ms, message_tags := ts0\<rparr>"
    "map msg_id ms = map msg_id (messages d)" "\<forall>j. j \<noteq> i \<longrightarrow> by_key msg_id j ms = by_key msg_id j (messages d)"
    unfolding only_message_def by blast
  with assms(2) show ?thesis
    unfolding only_message_def by (intro exI [of _ ms] exI [of _ ts]) simp
qed

definition advanced :: "uuid \<Rightarrow> uuid \<Rightarrow> int \<Rightarrow> time \<Rightarrow> db \<Rightarrow> db \<Rightarrow> bool" where
  "advanced owner i e now d d' \<longleftrightarrow> only_message i d d' \<and> (\<exists>m m'.
     owned_message owner i d = Some m \<and> version m = e \<and> owned_message owner i d' = Some m'
     \<and> version m' = e + 1 \<and> updated_at m' = now \<and> message_checks m'
     \<and> same_identity m (m'\<lparr>version := version m\<rparr>))"

lemma wrap64_succ: "in_int64 e \<Longrightarrow> 1 \<le> wrap64 (e + 1) \<Longrightarrow> 1 \<le> e \<Longrightarrow> wrap64 (e + 1) = e + 1"
proof -
  assume e: "in_int64 e" "1 \<le> e" and w: "1 \<le> wrap64 (e + 1)"
  have "e \<noteq> 9223372036854775807" using w by (auto simp: wrap64_def)
  with e show ?thesis by (simp add: in_int64_def)
qed

lemma owned_message_ok: "messages_ok d \<Longrightarrow> owned_message owner i d = Some m \<Longrightarrow> message_checks m"
  by (auto simp: messages_ok_def dest: owned_message_SomeD)

lemma advancedI:
  assumes "messages_ok d" "owned_message owner i d = Some m" "version m = e" "same_identity m m'"
    and c: "message_checks (next_version now m')"
    and only: "only_message i d d'" and o: "owned_message owner i d' = Some (next_version now m')"
  shows "advanced owner i e now d d'"
proof -
  have "message_checks m" using assms(1,2) by (rule owned_message_ok)
  then have "in_int64 e" "1 \<le> e" using assms(3) by (auto simp: message_checks_def)
  moreover have "1 \<le> wrap64 (e + 1)" using c assms(3,4)
    by (simp add: message_checks_def next_version_def same_identity_def)
  ultimately have "wrap64 (e + 1) = e + 1" by (intro wrap64_succ)
  then have "version (next_version now m') = e + 1" "updated_at (next_version now m') = now"
    "same_identity m ((next_version now m')\<lparr>version := version m\<rparr>)"
    using assms(3,4) by (simp_all add: next_version_def same_identity_def)
  with only o assms(2,3) c show ?thesis unfolding advanced_def by blast
qed

lemma only_changed_db:
  assumes "msg_id m' = i"
  shows "only_message i d (changed_db now m' d)"
proof -
  have "map msg_id (messages (changed_db now m' d)) = map msg_id (messages d)"
    unfolding changed_db_def by (simp add: map_key_sql_update)
  moreover have "by_key msg_id j (messages (changed_db now m' d)) = by_key msg_id j (messages d)" if "j \<noteq> i" for j
    unfolding changed_db_by_key using that assms
    by (cases "by_key msg_id j (messages d)") (auto dest: by_key_SomeD)
  ultimately show ?thesis unfolding only_message_def
    by (intro exI [of _ "messages (changed_db now m' d)"] exI [of _ "message_tags d"]) (simp add: changed_db_def)
qed

context message_change
begin

lemma mutate_advanced:
  assumes "messages_ok (wdb w)" "mutate owner i e now change w = (r, w')"
  shows "wdb w' = wdb w \<or> advanced owner i e now (wdb w) (wdb w')"
  using assms(2)
proof (cases rule: mutate_effect)
  case (changed m m')
  have i: "msg_id m' = i" "owner_id m' = owner"
    using changed(1,3) by (auto simp: same_identity_def dest: owned_message_SomeD)
  have "advanced owner i e now (wdb w) (wdb w')"
  proof (rule advancedI [OF assms(1) changed(1-4)])
    show "only_message i (wdb w) (wdb w')" using only_changed_db [OF i(1)] changed(5) by simp
    show "owned_message owner i (wdb w') = Some (next_version now m')"
      using owned_changed_db [OF changed(1,3)] changed(3,5) by (simp add: saved_same_identity)
  qed
  then show ?thesis by simp
qed simp

end

section \<open>Replacing the tags\<close>

definition tags_of_others :: "uuid \<Rightarrow> db \<Rightarrow> db \<Rightarrow> bool" where
  "tags_of_others i d d' \<longleftrightarrow> (\<exists>ts. d' = d\<lparr>message_tags := ts\<rparr>
     \<and> filter (\<lambda>t. fst t \<noteq> i) ts = filter (\<lambda>t. fst t \<noteq> i) (message_tags d))"

lemma tags_of_others_refl [simp]: "tags_of_others i d d"
  unfolding tags_of_others_def by (rule exI [of _ "message_tags d"]) simp

lemma tags_of_others_steps:
  "tags_of_others i d d' \<Longrightarrow> tags_of_others i d (snd (delete_message_tags i d'))"
  "tags_of_others i d d' \<Longrightarrow> tags_of_others i d (snd (insert_message_tag i t d'))"
  by (auto simp: tags_of_others_def delete_message_tags_def insert_message_tag_def sql_delete_def)

lemma replace_message_tags_others: "keeps (on_db (tags_of_others i d)) (replace_message_tags i is)"
  unfolding replace_message_tags_def
  by (intro keeps_intro tags_of_others_steps)

lemma validate_tags_Inr: "validate_tags owner is w = (Inr u, w') \<Longrightarrow> wdb w' = wdb w"
  unfolding validate_tags_def
  by (auto simp: if_Inr throw_run ret_run elim!: bindA_InrE dest: query_Inr)

lemma replace_tags_tx_Inr:
  assumes ok: "messages_ok (wdb w)" and "replace_tags_tx owner i e is now w = (Inr x, w')"
  shows "wdb w' = wdb w \<or> advanced owner i e now (wdb w) (wdb w')"
proof -
  from assms(2) obtain m w1 where l: "load_owned owner i w = (Inr m, w1)"
    and b: "(if version m \<noteq> e then throw MsgErrVersionConflict
     else if trashed_at m \<noteq> None then throw MsgErrTrashed
     else bindA (validate_tags owner is) (\<lambda>_.
       bindA (current_tag_ids i) (\<lambda>cur.
       if \<not> same_uuid_set cur is then
         bindA (replace_message_tags i is) (\<lambda>_.
         bindA (save_message (next_version now m)) (\<lambda>_. ret (next_version now m)))
       else ret m))) w1 = (Inr x, w')"
    unfolding replace_tags_tx_def by (rule bindA_InrE)
  note m = load_owned_Inr [OF l]
  from b have v: "version m = e" "trashed_at m = None" by (auto simp: throw_run split: if_splits)
  from b v obtain u w2 where "validate_tags owner is w1 = (Inr u, w2)"
    and b2: "bindA (current_tag_ids i) (\<lambda>cur.
       if \<not> same_uuid_set cur is then
         bindA (replace_message_tags i is) (\<lambda>_.
         bindA (save_message (next_version now m)) (\<lambda>_. ret (next_version now m)))
       else ret m) w2 = (Inr x, w')"
    by (simp only: simp_thms if_False) (erule bindA_InrE)
  then have w2: "wdb w2 = wdb w" using m(2) by (simp add: validate_tags_Inr)
  from b2 obtain cur w3 where c: "current_tag_ids i w2 = (Inr cur, w3)"
    and b3: "(if \<not> same_uuid_set cur is then
         bindA (replace_message_tags i is) (\<lambda>_.
         bindA (save_message (next_version now m)) (\<lambda>_. ret (next_version now m)))
       else ret m) w3 = (Inr x, w')"
    by (rule bindA_InrE)
  have w3: "wdb w3 = wdb w" using c w2 by (auto simp: current_tag_ids_def dest: query_Inr)
  show ?thesis
  proof (cases "same_uuid_set cur is")
    case True
    with b3 w3 show ?thesis by (simp add: ret_run)
  next
    case False
    with b3 obtain u w4 where r: "replace_message_tags i is w3 = (Inr u, w4)"
      and "bindA (save_message (next_version now m)) (\<lambda>_. ret (next_version now m)) w4 = (Inr x, w')"
      by (simp only: simp_thms if_True) (erule bindA_InrE)
    then obtain u' where s: "save_message (next_version now m) w4 = (Inr u', w')"
      by (elim bindA_InrE) (simp add: ret_run)
    have "tags_of_others i (wdb w) (wdb w4)"
      using keepsD [OF replace_message_tags_others [of i "wdb w" "is"] _ r] w3 by (simp add: on_db_def)
    then obtain ts where w4: "wdb w4 = (wdb w)\<lparr>message_tags := ts\<rparr>"
      and ts: "filter (\<lambda>t. fst t \<noteq> i) ts = filter (\<lambda>t. fst t \<noteq> i) (message_tags (wdb w))"
      unfolding tags_of_others_def by blast
    from save_message_Inr [OF s] have ck: "message_checks (next_version now m)"
      and w': "wdb w' = (changed_db now m (wdb w))\<lparr>message_tags := ts\<rparr>"
      by (simp_all add: w4 changed_db_def next_version_def)
    have i: "msg_id m = i" using m(1) by (auto dest: owned_message_SomeD)
    have "advanced owner i e now (wdb w) (wdb w')"
    proof (rule advancedI [OF ok m(1) v(1) same_identity_refl ck])
      show "only_message i (wdb w) (wdb w')"
        unfolding w' by (intro only_message_tags only_changed_db i ts)
      show "owned_message owner i (wdb w') = Some (next_version now m)"
        using owned_changed_db [OF m(1) same_identity_refl, of now]
        by (simp add: w' owned_message_def saved_same_identity)
    qed
    then show ?thesis by simp
  qed
qed

lemma replace_tags_advanced:
  assumes "messages_ok (wdb w)" "replace_tags owner i e is now w = (r, w')"
  shows "wdb w' = wdb w \<or> advanced owner i e now (wdb w) (wdb w')"
proof (cases "e < 1")
  case True
  then show ?thesis using assms by (simp add: replace_tags_def throw_run)
next
  case False
  obtain r1 w1 where t: "with_tx (replace_tags_tx owner i e is now) w = (r1, w1)" by fastforce
  have w': "wdb w' = wdb w1"
  proof (cases r1)
    case (Inr m)
    obtain r2 w2 where l: "load_tags i w1 = (r2, w2)" by fastforce
    then have "wdb w2 = wdb w1" by (auto simp: load_tags_def dest: query_result)
    then show ?thesis using assms False t Inr l
      by (auto simp: replace_tags_def bindA_run ret_run split: sum.splits)
  qed (use assms False t in \<open>simp add: replace_tags_def bindA_run\<close>)
  from t show ?thesis unfolding with_tx_def
  proof (cases rule: in_tx_effect)
    case (effect wa wb x)
    then have "replace_tags_tx owner i e is now wa = (Inr x, wb)" by (auto simp: act_Inr)
    then show ?thesis using replace_tags_tx_Inr [of wa owner i e "is" now x wb] assms(1) effect w' by simp
  qed (use w' in simp)
qed

section \<open>All operations together\<close>

text \<open>The operations on one message with an expected version, as the service offers them.\<close>

datatype message_op = EditOp edit_command | TagsOp "uuid list" | PermanentOp | ExtendOp int | FavoriteOp bool
  | TrashOp | RestoreOp | SensitiveOp bool | EditSensitiveOp opt_string string

fun run_op :: "body_cipher \<Rightarrow> bytes option \<Rightarrow> uuid \<Rightarrow> uuid \<Rightarrow> int \<Rightarrow> time \<Rightarrow> message_op
    \<Rightarrow> (world, msg_err, message \<times> tag list) act" where
  "run_op c rnd owner i e now (EditOp cmd) = edit_message owner i (cmd\<lparr>edit_expected := e\<rparr>) now"
| "run_op c rnd owner i e now (TagsOp is) = replace_tags owner i e is now"
| "run_op c rnd owner i e now PermanentOp = make_permanent owner i e now"
| "run_op c rnd owner i e now (ExtendOp days) = extend_expiry owner i e days now"
| "run_op c rnd owner i e now (FavoriteOp fav) = set_favorite owner i e fav now"
| "run_op c rnd owner i e now TrashOp = trash_message owner i e now"
| "run_op c rnd owner i e now RestoreOp = restore_message owner i e now"
| "run_op c rnd owner i e now (SensitiveOp flag) = set_sensitive c rnd owner i e flag now"
| "run_op c rnd owner i e now (EditSensitiveOp t b) = edit_sensitive c rnd owner i e t b now"

lemma edit_message_effect:
  assumes "edit_message owner i cmd now w = (r, w')"
  obtains "wdb w' = wdb w" | c where "mutate owner i (edit_expected cmd) now (edit_change c) w = (r, w')"
  using assms unfolding edit_message_def
  by (auto simp: throw_run normalized_def split: if_splits sum.splits option.splits)

lemma edit_sensitive_effect:
  assumes "edit_sensitive c rnd owner i e t b now w = (r, w')"
  obtains "wdb w' = wdb w" | t' where "mutate owner i e now (edit_sensitive_change c rnd t' b) w = (r, w')"
  using assms unfolding edit_sensitive_def
  by (auto simp: throw_run normalized_def split: if_splits sum.splits option.splits)

lemma run_op_effect:
  assumes ok: "messages_ok (wdb w)" and r: "run_op c rnd owner i e now opr w = (r, w')"
  shows "wdb w' = wdb w \<or> advanced owner i e now (wdb w) (wdb w')"
proof (cases opr)
  case (EditOp cmd)
  with r have "edit_message owner i (cmd\<lparr>edit_expected := e\<rparr>) now w = (r, w')" by simp
  then show ?thesis by (cases rule: edit_message_effect) (auto dest: edit.mutate_advanced [OF ok])
next
  case (EditSensitiveOp t b)
  with r have "edit_sensitive c rnd owner i e t b now w = (r, w')" by simp
  then show ?thesis by (cases rule: edit_sensitive_effect) (auto dest: edit_sensitive.mutate_advanced [OF ok])
next
  case (ExtendOp days)
  show ?thesis
  proof (cases "days \<noteq> 1 \<and> days \<noteq> 3 \<and> days \<noteq> 7")
    case True
    then show ?thesis using r ExtendOp by (simp add: extend_expiry_def throw_run)
  next
    case False
    then have "mutate owner i e now (extend_change days) w = (r, w')"
      using r ExtendOp by (auto simp: extend_expiry_def split: if_splits)
    then show ?thesis by (rule extend.mutate_advanced [OF ok])
  qed
qed (use r in \<open>auto simp: make_permanent_def set_favorite_def trash_message_def restore_message_def set_sensitive_def
       mutate_with_settings_eq dest: replace_tags_advanced [OF ok] permanent.mutate_advanced [OF ok]
       favorite.mutate_advanced [OF ok] trash.mutate_advanced [OF ok] restore.mutate_advanced [OF ok]
       sensitive.mutate_advanced [OF ok]\<close>)


section \<open>A successful operation saw the version it expected\<close>

definition expected_seen :: "uuid \<Rightarrow> uuid \<Rightarrow> int \<Rightarrow> db \<Rightarrow> bool" where
  "expected_seen owner i e d \<longleftrightarrow> (case owned_message owner i d of None \<Rightarrow> False | Some m \<Rightarrow> version m = e)"

lemma with_tx_Inr:
  assumes "with_tx body w = (Inr x, w')"
  obtains w0 w1 where "wdb w0 = wdb w" "body w0 = (Inr x, w1)" "wdb w' = wdb w1"
  using assms unfolding with_tx_def
  by (cases rule: in_tx_Inr) (auto elim!: bindA_InrE simp: commit_tx_def ret_run)

lemma mutate_tx_seen:
  assumes "mutate_tx owner i e now change w = (Inr x, w')"
  shows "expected_seen owner i e (wdb w)"
proof -
  from assms obtain m w1 where l: "load_owned owner i w = (Inr m, w1)"
    and b: "(if version m \<noteq> e then throw MsgErrVersionConflict
     else bindA (change m) (\<lambda>(changed, m').
       if changed then bindA (save_message (next_version now m')) (\<lambda>_. ret (next_version now m'))
       else ret m')) w1 = (Inr x, w')"
    unfolding mutate_tx_def by (rule bindA_InrE)
  from b have "version m = e" by (cases "version m = e") (simp_all add: throw_run)
  with load_owned_Inr [OF l] show ?thesis by (simp add: expected_seen_def)
qed

lemma mutate_seen:
  assumes "mutate owner i e now change w = (Inr x, w')"
  shows "expected_seen owner i e (wdb w)"
proof (cases "e < 1")
  case True
  then show ?thesis using assms by (simp add: mutate_def throw_run)
next
  case False
  with assms obtain m w1 where "with_tx (mutate_tx owner i e now change) w = (Inr m, w1)"
    unfolding mutate_def by (simp only: if_False) (erule bindA_InrE)
  then obtain w0 w2 where "wdb w0 = wdb w" "mutate_tx owner i e now change w0 = (Inr m, w2)"
    by (rule with_tx_Inr)
  then show ?thesis using mutate_tx_seen by metis
qed

lemma replace_tags_seen:
  assumes "replace_tags owner i e is now w = (Inr x, w')"
  shows "expected_seen owner i e (wdb w)"
proof (cases "e < 1")
  case True
  then show ?thesis using assms by (simp add: replace_tags_def throw_run)
next
  case False
  with assms obtain m w1 where "with_tx (replace_tags_tx owner i e is now) w = (Inr m, w1)"
    unfolding replace_tags_def by (simp only: if_False) (erule bindA_InrE)
  then obtain w0 w2 where w0: "wdb w0 = wdb w" and t: "replace_tags_tx owner i e is now w0 = (Inr m, w2)"
    by (rule with_tx_Inr)
  from t obtain m' w3 where l: "load_owned owner i w0 = (Inr m', w3)" and v: "version m' = e"
    unfolding replace_tags_tx_def by (rule bindA_InrE) (auto simp: throw_run split: if_splits)
  from load_owned_Inr [OF l] w0 v show ?thesis by (simp add: expected_seen_def)
qed

lemma run_op_seen:
  assumes "run_op c rnd owner i e now opr w = (Inr x, w')"
  shows "expected_seen owner i e (wdb w)"
proof (cases opr)
  case (EditOp cmd)
  with assms have "edit_message owner i (cmd\<lparr>edit_expected := e\<rparr>) now w = (Inr x, w')" by simp
  then have "\<exists>c. mutate owner i e now (edit_change c) w = (Inr x, w')"
    unfolding edit_message_def normalized_def
    by (auto simp: throw_run split: if_splits sum.splits option.splits)
  then show ?thesis using mutate_seen by metis
next
  case (EditSensitiveOp t b)
  with assms have "edit_sensitive c rnd owner i e t b now w = (Inr x, w')" by simp
  then have "\<exists>t'. mutate owner i e now (edit_sensitive_change c rnd t' b) w = (Inr x, w')"
    unfolding edit_sensitive_def normalized_def
    by (auto simp: throw_run split: if_splits sum.splits option.splits)
  then show ?thesis using mutate_seen by metis
qed (use assms in \<open>auto simp: make_permanent_def extend_expiry_def set_favorite_def trash_message_def
       restore_message_def set_sensitive_def mutate_with_settings_eq throw_run
       intro: mutate_seen replace_tags_seen split: if_splits\<close>)

lemma advanced_not_seen: "advanced owner i e now d d' \<Longrightarrow> \<not> expected_seen owner i e d'"
  by (auto simp: advanced_def expected_seen_def)

lemma advanced_seen: "advanced owner i e now d d' \<Longrightarrow> expected_seen owner i e d"
  by (auto simp: advanced_def expected_seen_def)

section \<open>The invariant is kept\<close>

context message_change
begin

lemma mutate_ok:
  assumes "messages_ok (wdb w)" "mutate owner i e now change w = (r, w')"
  shows "messages_ok (wdb w')"
  using assms(2)
proof (cases rule: mutate_effect)
  case (changed m m')
  have "messages_ok (snd (save_message_row (next_version now m') (wdb w)))"
    using assms(1) by (rule messages_ok_save)
  moreover have "snd (save_message_row (next_version now m') (wdb w)) = changed_db now m' (wdb w)"
    using changed(4) by (simp add: save_message_row_def Let_def changed_db_def next_version_def)
  ultimately show ?thesis using changed(5) by simp
qed (use assms(1) in simp)

end

lemma messages_ok_load [keeps_intro]:
  "keeps (on_db J) (load_owned owner i)" "keeps (on_db J) (load_tags i)" "keeps (on_db J) (current_tag_ids i)"
  "keeps (on_db J) (validate_tags owner is)" "keeps (on_db J) message_settings" "keeps (on_db J) (load_attachments i lim)"
  unfolding load_owned_def load_tags_def current_tag_ids_def validate_tags_def message_settings_def load_attachments_def
  by (intro keeps_intro)+

lemma keeps_with_tx [keeps_intro]: "keeps (on_db J) body \<Longrightarrow> keeps (on_db J) (with_tx body)"
  unfolding with_tx_def by (intro keeps_intro)

lemma messages_ok_statements [keeps_intro]:
  "keeps (on_db messages_ok) (save_message m)" "keeps (on_db messages_ok) (insert_message m)"
  "keeps (on_db messages_ok) (replace_message_tags i is)"
proof -
  show "keeps (on_db messages_ok) (save_message m)"
    unfolding save_message_def by (intro keeps_intro messages_ok_save)
  show "keeps (on_db messages_ok) (insert_message m)"
    unfolding insert_message_def by (intro keeps_intro messages_ok_insert)
  show "keeps (on_db messages_ok) (replace_message_tags i is)"
    unfolding replace_message_tags_def by (intro keeps_intro messages_ok_tags)
qed

lemma replace_tags_ok: "keeps (on_db messages_ok) (replace_tags owner i e is now)"
  unfolding replace_tags_def replace_tags_tx_def by (intro keeps_intro)

lemma run_op_ok: "keeps (on_db messages_ok) (run_op c rnd owner i e now opr)"
proof (rule keepsI)
  fix w assume ok: "on_db messages_ok w"
  obtain r w' where r: "run_op c rnd owner i e now opr w = (r, w')" by fastforce
  have "messages_ok (wdb w')"
  proof (cases opr)
    case (EditOp cmd)
    with r have "edit_message owner i (cmd\<lparr>edit_expected := e\<rparr>) now w = (r, w')" by simp
    then show ?thesis using ok by (cases rule: edit_message_effect) (auto simp: on_db_def intro: edit.mutate_ok)
  next
    case (EditSensitiveOp t b)
    with r have "edit_sensitive c rnd owner i e t b now w = (r, w')" by simp
    then show ?thesis using ok
      by (cases rule: edit_sensitive_effect) (auto simp: on_db_def intro: edit_sensitive.mutate_ok)
  next
    case (TagsOp "is")
    with r keepsD [OF replace_tags_ok ok] show ?thesis by (simp add: on_db_def)
  qed (use r ok in \<open>auto simp: on_db_def extend_expiry_def throw_run make_permanent_def set_favorite_def trash_message_def
       restore_message_def set_sensitive_def mutate_with_settings_eq split: if_splits
       dest: permanent.mutate_ok extend.mutate_ok favorite.mutate_ok trash.mutate_ok restore.mutate_ok
         sensitive.mutate_ok\<close>)
  with r show "on_db messages_ok (snd (run_op c rnd owner i e now opr w))" by (simp add: on_db_def)
qed

lemma insert_audit_messages: "messages (snd (insert_audit a d)) = messages d"
  "message_tags (snd (insert_audit a d)) = message_tags d"
  by (simp_all add: insert_audit_def)

lemma messages_ok_audit: "messages_ok d \<Longrightarrow> messages_ok (snd (insert_audit a d))"
  by (simp add: messages_ok_def insert_audit_messages)

lemma messages_ok_delete_trashed: "messages_ok d \<Longrightarrow> messages_ok (snd (delete_trashed_message i owner d))"
  by (simp add: delete_trashed_message_def Let_def messages_ok_delete)

lemma permanently_delete_ok: "keeps (on_db messages_ok) (permanently_delete owner i ac now)"
  unfolding permanently_delete_def permanently_delete_tx_def
  by (intro keeps_intro messages_ok_audit messages_ok_delete_trashed)

lemma expire_due_temporary_ok: "keeps (on_db messages_ok) (expire_due_temporary batch now)"
  unfolding expire_due_temporary_def
  by (intro keeps_intro messages_ok_expire)


section \<open>Trimmed titles satisfy the constraint of the title column\<close>

lemma trim_space_set: "set (trim_space s) \<subseteq> set s"
  unfolding trim_space_def
  using set_mono_prefix [OF trim_right_prefix] set_mono_suffix [OF trim_left_suffix] by blast

lemma no_white_hd: "starts_white s = None \<Longrightarrow> s \<noteq> [] \<Longrightarrow> hd s \<noteq> CHR 0x20"
  by (cases s) (auto simp: starts_white_def find_None_iff white_runes_def)

lemma no_white_last: "ends_white s = None \<Longrightarrow> s \<noteq> [] \<Longrightarrow> last s \<noteq> CHR 0x20"
  by (cases s rule: rev_cases) (auto simp: ends_white_def find_None_iff white_runes_def)

lemma trim_space_ends:
  assumes "trim_space s \<noteq> []"
  shows "hd (trim_space s) \<noteq> CHR 0x20" "last (trim_space s) \<noteq> CHR 0x20"
proof -
  have "trim_left s \<noteq> []" using assms unfolding trim_space_def
    by (metis trim_right_prefix prefix_Nil)
  moreover from this have "hd (trim_space s) = hd (trim_left s)"
    using assms trim_right_prefix [of "trim_left s"] unfolding trim_space_def prefix_def by (metis hd_append2)
  ultimately show "hd (trim_space s) \<noteq> CHR 0x20"
    using no_white_hd [OF trim_left_no_white] by simp
  show "last (trim_space s) \<noteq> CHR 0x20"
    using assms no_white_last [OF trim_right_no_white] unfolding trim_space_def by blast
qed

lemma rune_count_pos: "s \<noteq> [] \<Longrightarrow> 1 \<le> rune_count s"
  by (simp add: rune_count.simps [of s])

lemma normalize_title_ok:
  assumes "normalize_title t = Inr t'" "opt_text t"
  shows "title_ok t' \<and> opt_text t'"
proof (cases t')
  case (Some v)
  with assms obtain s where s: "t = Some s" "v = trim_space s" "v \<noteq> []" "utf8_valid v" "rune_count v \<le> 200"
    by (auto simp: normalize_title_def Let_def split: option.splits if_splits)
  have "\<not> list_ex (\<lambda>c. c = CHR 0x00) v"
    using assms(2) s(1,2) trim_space_set [of s] by (auto simp: opt_text_def pg_text_def list_ex_iff)
  with s Some trim_space_ends [of s] rune_count_pos [of v] show ?thesis
    by (simp add: title_ok_def opt_text_def pg_text_def)
qed (simp add: title_ok_def opt_text_def)

section \<open>Changes that respect the constraints\<close>

text \<open>\<open>clean m\<close>: the texts the change puts into the row \<open>m\<close> can be stored.\<close>

locale valid_change = message_change +
  fixes clean :: "message \<Rightarrow> bool"
  assumes valid: "clean m \<Longrightarrow> message_checks m \<Longrightarrow> change m w = (Inr (True, m'), w') \<Longrightarrow> message_checks m'"
    and calm: "quiet w \<Longrightarrow> change m w = (r, w') \<Longrightarrow> w' = w \<and> r \<noteq> Inl MsgIO"
begin

lemma next_version_checks:
  "message_checks m \<Longrightarrow> in_int64 (version m + 1) \<Longrightarrow> message_checks (next_version now m)"
  by (simp add: message_checks_def next_version_def body_columns_ok_def)

text \<open>Without failures of the database, the transaction runs as if it were the change alone.\<close>

lemma mutate_tx_quiet:
  assumes q: "quiet w" and ok: "messages_ok (wdb w)" and o: "owned_message owner i (wdb w) = Some m"
    and v: "version m = e" and r: "in_int64 (e + 1)" and cl: "clean m"
  shows "mutate_tx owner i e now change w = (case fst (change m w) of Inl err \<Rightarrow> (Inl err, w)
    | Inr (c, m') \<Rightarrow> if c then (Inr (next_version now m'), w\<lparr>wdb := changed_db now m' (wdb w)\<rparr>) else (Inr m, w))"
proof -
  have l: "load_owned owner i w = (Inr m, w)"
    using q o by (simp add: load_owned_def bindA_run query_quiet ret_run)
  obtain cr w1 where c: "change m w = (cr, w1)" by fastforce
  from calm [OF q c] have w1: "w1 = w" by simp
  have "mutate_tx owner i e now change w = (case change m w of (Inl err, w1) \<Rightarrow> (Inl err, w1) | (Inr p, w1) \<Rightarrow>
     (case p of (changed, m') \<Rightarrow> if changed then bindA (save_message (next_version now m')) (\<lambda>_. ret (next_version now m'))
       else ret m') w1)"
    unfolding mutate_tx_def bindA_run [of "load_owned owner i"] l using v by (simp add: bindA_run)
  also have "\<dots> = (case cr of Inl err \<Rightarrow> (Inl err, w) | Inr (c, m') \<Rightarrow>
       (if c then bindA (save_message (next_version now m')) (\<lambda>_. ret (next_version now m')) w else (Inr m', w)))"
    unfolding c w1 by (simp split: sum.split prod.split add: ret_run)
  also have "\<dots> = (case cr of Inl err \<Rightarrow> (Inl err, w) | Inr (c, m') \<Rightarrow>
       (if c then (Inr (next_version now m'), w\<lparr>wdb := changed_db now m' (wdb w)\<rparr>) else (Inr m, w)))"
  proof (cases cr)
    case (Inr p)
    obtain ch m' where p: "p = (ch, m')" by fastforce
    show ?thesis
    proof (cases ch)
      case True
      with c Inr p have ch: "change m w = (Inr (True, m'), w1)" by simp
      from same [OF ch] have i: "same_identity m m'" by simp
      have "message_checks m'" using valid [OF cl owned_message_ok [OF ok o] ch] .
      then have ck: "message_checks (next_version now m')"
        using r v i by (intro next_version_checks) (simp_all add: same_identity_def)
      from owned_message_SomeD [OF o] i have "by_key msg_id (msg_id m') (messages (wdb w)) = Some m" "owner_id m = owner_id m'"
        by (simp_all add: same_identity_def)
      then have "sql_count (\<lambda>r. msg_id r = msg_id m' \<and> owner_id r = owner_id m') (messages (wdb w)) = 1"
        using ok by (simp add: messages_ok_def sql_count_key)
      then have "save_message_row (next_version now m') (wdb w) = (Some 1, changed_db now m' (wdb w))"
        using ck by (simp add: save_message_row_def Let_def changed_db_def next_version_def)
      then have "save_message (next_version now m') w = (Inr (), w\<lparr>wdb := changed_db now m' (wdb w)\<rparr>)"
        using q by (simp add: save_message_def bindA_run exec_quiet ret_run)
      then show ?thesis by (simp add: Inr p True bindA_run ret_run)
    next
      case False
      with c Inr p w1 have "m' = m" using idle [of m w m' w1] by simp
      with Inr p False show ?thesis by simp
    qed
  qed simp
  finally show ?thesis by (simp add: c)
qed

lemma mutate_quiet:
  assumes "quiet w" "messages_ok (wdb w)" "owned_message owner i (wdb w) = Some m"
    "version m = e" "in_int64 (e + 1)" "1 \<le> e" "clean m"
  shows "mutate owner i e now change w = (case fst (change m w) of Inl err \<Rightarrow> (Inl err, w)
    | Inr (c, m') \<Rightarrow> if c
        then (Inr (hide (next_version now m'), tag_list i (wdb w)), w\<lparr>wdb := changed_db now m' (wdb w)\<rparr>)
        else (Inr (hide m, tag_list i (wdb w)), w))"
proof -
  note tx = mutate_tx_quiet [OF assms(1-5,7)]
  obtain cr w1 where c: "change m w = (cr, w1)" by fastforce
  have tl: "tag_list j (changed_db now m' d) = tag_list j d" for j m' d by (simp add: tag_list_def)
  have i: "msg_id m = i" using assms(3) by (auto dest: owned_message_SomeD)
  show ?thesis
  proof (cases cr)
    case (Inl err)
    with c tx assms(1,6) show ?thesis
      by (simp add: mutate_def with_tx_def bindA_run in_tx_quiet)
  next
    case (Inr p)
    obtain ch m' where p: "p = (ch, m')" by fastforce
    show ?thesis
    proof (cases ch)
      case True
      with c Inr p have "change m w = (Inr (True, m'), w1)" by simp
      from same [OF this] i have "msg_id (next_version now m') = i" by (simp add: same_identity_def next_version_def)
      with c tx assms(1,6) Inr p True show ?thesis
        by (simp add: mutate_def with_tx_def bindA_run in_tx_quiet commit_tx_def ret_run pop_fault_def load_tags_def query_quiet tl)
    next
      case False
      with c tx assms(1,6) Inr p i show ?thesis
        by (simp add: mutate_def with_tx_def bindA_run in_tx_quiet commit_tx_def ret_run pop_fault_def load_tags_def query_quiet)
    qed
  qed
qed

lemma mutate_no_io:
  assumes q: "quiet w" and ok: "messages_ok (wdb w)" and r: "in_int64 (e + 1)"
    and cl: "\<And>m. owned_message owner i (wdb w) = Some m \<Longrightarrow> clean m"
  shows "fst (mutate owner i e now change w) \<noteq> Inl MsgIO"
proof (cases "e < 1")
  case True
  then show ?thesis by (simp add: mutate_def throw_run)
next
  case False
  show ?thesis
  proof (cases "owned_message owner i (wdb w)")
    case None
    with q False show ?thesis
      by (simp add: mutate_def with_tx_def in_tx_quiet mutate_tx_def load_owned_def bindA_run query_quiet throw_run)
  next
    case (Some m)
    show ?thesis
    proof (cases "version m = e")
      case True
      have "fst (change m w) \<noteq> Inl MsgIO" using calm [OF q prod.collapse [symmetric]] by simp
      with mutate_quiet [OF q ok Some True r _ cl [OF Some]] False show ?thesis
        by (auto split: sum.split prod.split)
    next
      case neq: False
      with q False Some show ?thesis
        by (simp add: mutate_def with_tx_def in_tx_quiet mutate_tx_def load_owned_def bindA_run query_quiet throw_run ret_run)
    qed
  qed
qed

end

section \<open>Which texts each change needs\<close>

definition opt_set :: "('a \<Rightarrow> bool) \<Rightarrow> 'a option \<Rightarrow> bool" where
  "opt_set P v = (case v of None \<Rightarrow> True | Some x \<Rightarrow> P x)"

definition clean_edit :: "edit_command \<Rightarrow> bool" where
  "clean_edit c \<longleftrightarrow> opt_set (\<lambda>t. title_ok t \<and> opt_text t) (edit_title c) \<and> opt_set pg_text (edit_body c)
     \<and> opt_set pg_text (edit_format c) \<and> opt_set opt_text (edit_type c) \<and> opt_set opt_text (edit_language c)"

lemma checks_fields:
  assumes "message_checks m"
  shows "title_ok t \<Longrightarrow> opt_text t \<Longrightarrow> message_checks (m\<lparr>title := t\<rparr>)"
    and "message_checks (m\<lparr>body_plaintext := None\<rparr>)"
    and "body_plaintext m \<noteq> None \<Longrightarrow> pg_text b \<Longrightarrow> message_checks (m\<lparr>body_plaintext := Some b\<rparr>)"
    and "pg_text f \<Longrightarrow> message_checks (m\<lparr>body_format := f\<rparr>)"
    and "opt_text v \<Longrightarrow> message_checks (m\<lparr>detected_type := v\<rparr>)"
    and "opt_text v \<Longrightarrow> message_checks (m\<lparr>detected_language := v\<rparr>)"
  using assms by (simp_all add: message_checks_def body_columns_ok_def opt_text_def split: if_splits)

lemma set_when_checks:
  "message_checks (snd r) \<Longrightarrow> (b \<Longrightarrow> message_checks (snd r) \<Longrightarrow> message_checks (f (snd r))) \<Longrightarrow>
   message_checks (snd (set_when b f r))"
  by (simp add: set_when_def)

lemma opt_set_the: "opt_set P v \<Longrightarrow> differs v cur \<Longrightarrow> P (the v)"
  by (cases v) (simp_all add: opt_set_def differs_def)

lemma opt_set_Some: "opt_set P v \<Longrightarrow> v = Some x \<Longrightarrow> P x"
  by (simp add: opt_set_def)

lemma edit_start_checks:
  assumes "clean_edit c" "message_checks m" "edit_start c m w = (Inr r, w')"
  shows "message_checks (snd r)"
proof -
  let ?r = "set_when (differs (edit_title c) (title m)) (\<lambda>m. m\<lparr>title := the (edit_title c)\<rparr>) (False, m)"
  have t: "opt_set (\<lambda>t. title_ok t \<and> opt_text t) (edit_title c)" using assms(1) by (simp add: clean_edit_def)
  have r: "message_checks (snd ?r)"
    using assms(2) by (intro set_when_checks checks_fields(1)) (use opt_set_the [OF t] in simp_all)
  show ?thesis
  proof (cases "edit_clear c")
    case True
    then have "clear_body ?r w = (Inr r, w')" using assms(3) by (simp only: edit_start_def Let_def if_True)
    from clear_body_Inr [OF this] have "r = set_when (body_plaintext (snd ?r) \<noteq> None) (\<lambda>m. m\<lparr>body_plaintext := None\<rparr>) ?r"
      by blast
    then show ?thesis using set_when_checks [OF r, of "body_plaintext (snd ?r) \<noteq> None" "\<lambda>m. m\<lparr>body_plaintext := None\<rparr>"]
      checks_fields(2) by (simp only:)
  next
    case False
    then have "r = ?r" using assms(3) by (simp add: edit_start_def Let_def ret_run)
    with r show ?thesis by (simp only:)
  qed
qed

lemma edit_body_fields_checks:
  assumes cl: "clean_edit c" and "message_checks (snd r)"
  shows "message_checks (snd (edit_body_fields c r))"
proof (rule edit_body_fields_rule [of "\<lambda>r. message_checks (snd r)"])
  from cl have c: "opt_set pg_text (edit_body c)" "opt_set pg_text (edit_format c)"
    "opt_set opt_text (edit_type c)" "opt_set opt_text (edit_language c)" by (simp_all add: clean_edit_def)
  fix r :: "bool \<times> message" and b assume r: "message_checks (snd r)"
  show "message_checks (snd (set_when (body_plaintext (snd r) \<noteq> None \<and> b) (\<lambda>m. m\<lparr>body_plaintext := Some t\<rparr>) r))"
    if "edit_body c = Some t" for t
    using r opt_set_Some [OF c(1) that] by (intro set_when_checks checks_fields(3)) simp_all
  show "message_checks (snd (set_when b (\<lambda>m. m\<lparr>body_format := f\<rparr>) r))" if "edit_format c = Some f" for f
    using r opt_set_Some [OF c(2) that] by (intro set_when_checks checks_fields(4)) simp_all
  show "message_checks (snd (set_when (differs (edit_type c) (detected_type (snd r)))
      (\<lambda>m. m\<lparr>detected_type := the (edit_type c)\<rparr>) r))"
    using r by (intro set_when_checks checks_fields(5) opt_set_the [OF c(3)]) simp_all
  show "message_checks (snd (set_when (differs (edit_language c) (detected_language (snd r)))
      (\<lambda>m. m\<lparr>detected_language := the (edit_language c)\<rparr>) r))"
    using r by (intro set_when_checks checks_fields(6) opt_set_the [OF c(4)]) simp_all
qed fact

lemma set_when_calm: "quiet w \<Longrightarrow> clear_body r w = (r', w') \<Longrightarrow> w' = w \<and> r' \<noteq> Inl MsgIO"
  by (auto simp: clear_body_def bindA_run query_quiet ret_run throw_run split: if_splits)

lemma edit_calm: "quiet w \<Longrightarrow> edit_change c m w = (r, w') \<Longrightarrow> w' = w \<and> r \<noteq> Inl MsgIO"
  unfolding edit_change_def Let_def
  by (auto simp: throw_run ret_run bindA_run dest: set_when_calm split: if_splits prod.splits sum.splits)

interpretation edit: valid_change "edit_change c" "\<lambda>_. clean_edit c" for c
proof
  fix m w m' w'
  assume cl: "clean_edit c" and ck: "message_checks m" and r: "edit_change c m w = (Inr (True, m'), w')"
  from r obtain r1 where "edit_start c m w = (Inr r1, w')" "(True, m') = edit_body_fields c r1"
    by (rule edit_change_Inr)
  with cl ck show "message_checks m'" by (metis edit_start_checks edit_body_fields_checks snd_conv)
qed (rule edit_calm)

lemma checks_sealed:
  assumes "message_checks m" "length n = 12" "body_plaintext m = None \<or> \<not> sensitive m"
  shows "message_checks (sealed (m\<lparr>body_plaintext := None, sensitive := True\<rparr>) (ct, n, v))"
  using assms by (simp add: message_checks_def body_columns_ok_def sealed_def opt_text_def)

lemma checks_opened:
  assumes "message_checks m" "pg_text p"
  shows "message_checks (m\<lparr>body_plaintext := Some p, body_ciphertext := None, body_nonce := None,
    body_encryption_version := None, sensitive := False\<rparr>)"
  using assms by (simp add: message_checks_def body_columns_ok_def opt_text_def)

lemma checks_lifecycle:
  assumes "message_checks m"
  shows "message_checks (m\<lparr>msg_lifecycle := Permanent, expires_at := None\<rparr>)"
    and "msg_lifecycle m = Temporary \<Longrightarrow> message_checks (m\<lparr>expires_at := Some t\<rparr>)"
    and "\<not> fav \<or> msg_lifecycle m = Permanent \<Longrightarrow> message_checks (m\<lparr>favorite := fav\<rparr>)"
    and "message_checks (m\<lparr>trashed_at := Some t, purge_at := Some p\<rparr>)"
    and "message_checks (m\<lparr>trashed_at := None, purge_at := None\<rparr>)"
    and "msg_lifecycle m = Permanent \<Longrightarrow> message_checks (m\<lparr>expires_at := None\<rparr>)"
  using assms by (simp_all add: message_checks_def body_columns_ok_def)

lemma permanent_valid:
  assumes "message_checks m" "make_permanent_change m w = (Inr (True, m'), w')"
  shows "message_checks m'"
proof -
  from assms(2) have "m' = m\<lparr>msg_lifecycle := Permanent, expires_at := None\<rparr>"
    by (simp add: make_permanent_change_def throw_run ret_run split: if_splits)
  with checks_lifecycle(1) [OF assms(1)] show ?thesis by simp
qed

interpretation permanent: valid_change make_permanent_change "\<lambda>_. True"
  by unfold_locales
    (rule permanent_valid, assumption+, auto simp: make_permanent_change_def throw_run ret_run split: if_splits)

lemma extend_valid:
  assumes "message_checks m" "extend_change days m w = (Inr (True, m'), w')"
  shows "message_checks m'"
proof -
  from assms(2) obtain t where "m' = m\<lparr>expires_at := Some t\<rparr>" "msg_lifecycle m = Temporary"
    by (auto simp: extend_change_def throw_run ret_run split: if_splits option.splits)
  with checks_lifecycle(2) [OF assms(1)] show ?thesis by simp
qed

interpretation extend: valid_change "extend_change days" "\<lambda>_. True" for days
  by unfold_locales
    (rule extend_valid, assumption+, auto simp: extend_change_def throw_run ret_run split: if_splits option.splits)

lemma favorite_valid:
  assumes "message_checks m" "favorite_change fav m w = (Inr (True, m'), w')"
  shows "message_checks m'"
proof -
  from assms(2) have "m' = m\<lparr>favorite := fav\<rparr>" "\<not> fav \<or> msg_lifecycle m = Permanent"
    by (simp_all add: favorite_change_def throw_run ret_run split: if_splits)
  with checks_lifecycle(3) [OF assms(1)] show ?thesis by simp
qed

interpretation favorite: valid_change "favorite_change fav" "\<lambda>_. True" for fav
  by unfold_locales
    (rule favorite_valid, assumption+, auto simp: favorite_change_def throw_run ret_run split: if_splits)

definition clean_sensitive :: "body_cipher \<Rightarrow> bytes option \<Rightarrow> bool \<Rightarrow> message \<Rightarrow> bool" where
  "clean_sensitive c rnd flag m \<longleftrightarrow>
     (if flag then opt_set (\<lambda>n. length n = 12) rnd
      else (case decrypt c m of Inl e \<Rightarrow> True | Inr p \<Rightarrow> pg_text p))"

lemma encrypt_Inr: "encrypt c rnd i o' p = Inr cnv \<Longrightarrow> \<exists>n ct. rnd = Some n \<and> cnv = (ct, n, encryption_version1)"
  by (auto simp: encrypt_def split: option.splits)

lemma sensitive_change_Inr:
  assumes "sensitive_change c rnd flag m w = (Inr (True, m'), w')"
  obtains (seal) cnv where "flag" "\<not> sensitive m" "encrypt c rnd (msg_id m) (owner_id m) (the (body_plaintext m)) = Inr cnv"
      "m' = sealed (m\<lparr>body_plaintext := None, sensitive := True\<rparr>) cnv"
  | (unseal) p where "\<not> flag" "decrypt c m = Inr p" "m' = m\<lparr>body_plaintext := Some p, body_ciphertext := None,
      body_nonce := None, body_encryption_version := None, sensitive := False\<rparr>"
proof (cases flag)
  case True
  with assms that(1) show thesis
    by (simp add: sensitive_change_def throw_run ret_run split: if_splits option.splits sum.splits)
next
  case False
  with assms that(2) show thesis
    by (simp add: sensitive_change_def throw_run ret_run split: if_splits sum.splits)
qed

lemma sensitive_valid:
  assumes "clean_sensitive c rnd flag m" "message_checks m" "sensitive_change c rnd flag m w = (Inr (True, m'), w')"
  shows "message_checks m'"
  using assms(3)
proof (cases rule: sensitive_change_Inr)
  case (seal cnv)
  from encrypt_Inr [OF seal(3)] obtain n ct where "rnd = Some n" "cnv = (ct, n, encryption_version1)" by blast
  with seal assms(1,2) show ?thesis by (simp add: clean_sensitive_def opt_set_def checks_sealed)
next
  case (unseal p)
  with assms(1,2) show ?thesis by (simp add: clean_sensitive_def checks_opened)
qed

lemma sensitive_calm: "sensitive_change c rnd flag m w = (r, w') \<Longrightarrow> w' = w \<and> r \<noteq> Inl MsgIO"
  unfolding sensitive_change_def
  by (auto simp: throw_run ret_run encrypt_def decrypt_def Let_def split: if_splits option.splits)

interpretation sensitive: valid_change "sensitive_change c rnd flag" "clean_sensitive c rnd flag" for c rnd flag
  by unfold_locales (fact sensitive_valid, rule sensitive_calm)

lemma edit_sensitive_valid:
  assumes "opt_set (\<lambda>n. length n = 12) rnd" "opt_set (\<lambda>t. title_ok t \<and> opt_text t) t" "message_checks m"
    "edit_sensitive_change c rnd t b m w = (Inr (True, m'), w')"
  shows "message_checks m'"
proof -
  from assms(4) obtain cnv where s: "sensitive m" and e: "encrypt c rnd (msg_id m) (owner_id m) b = Inr cnv"
    and m': "m' = (case t of None \<Rightarrow> sealed m cnv | Some v \<Rightarrow> (sealed m cnv)\<lparr>title := v\<rparr>)"
    unfolding edit_sensitive_change_def by (auto simp: throw_run ret_run split: if_splits sum.splits)
  from encrypt_Inr [OF e] obtain n ct where n: "rnd = Some n" "cnv = (ct, n, encryption_version1)" by blast
  have b: "body_plaintext m = None" using s assms(3) by (simp add: message_checks_def body_columns_ok_def)
  with s have "m\<lparr>body_plaintext := None, sensitive := True\<rparr> = m" by simp
  with checks_sealed [OF assms(3), of n ct encryption_version1] n b assms(1)
  have "message_checks (sealed m cnv)" by (simp add: opt_set_def)
  with m' assms(2) show ?thesis by (cases t) (simp_all add: opt_set_def checks_fields(1))
qed

lemma edit_sensitive_calm: "edit_sensitive_change c rnd t b m w = (r, w') \<Longrightarrow> w' = w \<and> r \<noteq> Inl MsgIO"
  unfolding edit_sensitive_change_def
  by (auto simp: throw_run ret_run encrypt_def Let_def split: if_splits option.splits)

interpretation edit_sensitive: valid_change "edit_sensitive_change c rnd t b"
  "\<lambda>_. opt_set (\<lambda>n. length n = 12) rnd \<and> opt_set (\<lambda>t. title_ok t \<and> opt_text t) t" for c rnd t b
  by unfold_locales (blast intro: edit_sensitive_valid, rule edit_sensitive_calm)

lemma with_settings_calm:
  assumes "\<And>temp trash w r w'. fn m temp trash now w = (r, w') \<Longrightarrow> w' = w \<and> r \<noteq> Inl MsgIO"
    and "quiet w" "with_settings fn now m w = (r, w')"
  shows "w' = w \<and> r \<noteq> Inl MsgIO"
proof -
  from assms(3) obtain temp trash where "fn m temp trash now w = (r, w')"
    unfolding with_settings_def message_settings_def by (simp add: bindA_run query_quiet assms(2))
  then show ?thesis by (rule assms(1))
qed

lemma trash_valid:
  assumes "message_checks m" "with_settings trash_change now m w = (Inr (True, m'), w')"
  shows "message_checks m'"
proof -
  from assms(2) obtain w1 temp trash where "trash_change m temp trash now w1 = (Inr (True, m'), w')"
    by (rule with_settings_Inr)
  then have "m' = m\<lparr>trashed_at := Some now, purge_at := Some (now + trash)\<rparr>"
    by (simp add: trash_change_def ret_run split: if_splits)
  with checks_lifecycle(4) [OF assms(1)] show ?thesis by simp
qed

lemma trash_calm: "trash_change m temp trash now w = (r, w') \<Longrightarrow> w' = w \<and> r \<noteq> Inl MsgIO"
  by (auto simp: trash_change_def ret_run split: if_splits)

interpretation trash: valid_change "with_settings trash_change now" "\<lambda>_. True" for now
  by unfold_locales (rule trash_valid, assumption+, rule with_settings_calm [where fn = trash_change], rule trash_calm)

definition restored :: "message \<Rightarrow> duration \<Rightarrow> time \<Rightarrow> message" where
  "restored m temp now = (let m1 = m\<lparr>trashed_at := None, purge_at := None\<rparr> in
     if msg_lifecycle m = Permanent then m1\<lparr>expires_at := None\<rparr>
     else if (case expires_at m of None \<Rightarrow> True | Some t \<Rightarrow> t \<le> now) then m1\<lparr>expires_at := Some (now + temp)\<rparr>
     else m1)"

lemma restore_change_eq: "restore_change m temp trash now =
  (if trashed_at m = None then throw MsgErrNotTrashed else ret (True, restored m temp now))"
  by (simp add: restore_change_def restored_def)

lemma restored_checks: "message_checks m \<Longrightarrow> message_checks (restored m temp now)"
  unfolding restored_def Let_def
  using checks_lifecycle(2,6) [OF checks_lifecycle(5), of m] checks_lifecycle(5) [of m]
  by (cases "msg_lifecycle m") (simp_all del: message.update_convs)

lemma restore_valid:
  assumes "message_checks m" "with_settings restore_change now m w = (Inr (True, m'), w')"
  shows "message_checks m'"
proof -
  from assms(2) obtain w1 temp trash where "restore_change m temp trash now w1 = (Inr (True, m'), w')"
    by (rule with_settings_Inr)
  then have "m' = restored m temp now"
    by (simp add: restore_change_eq ret_run throw_run split: if_splits)
  with restored_checks [OF assms(1)] show ?thesis by simp
qed

lemma restore_calm: "restore_change m temp trash now w = (r, w') \<Longrightarrow> w' = w \<and> r \<noteq> Inl MsgIO"
  by (auto simp: restore_change_eq ret_run throw_run split: if_splits)

interpretation restore: valid_change "with_settings restore_change now" "\<lambda>_. True" for now
  by unfold_locales (rule restore_valid, assumption+, rule with_settings_calm [where fn = restore_change], rule restore_calm)

end
