(* ===== verification/MessageLaws.thy ===== *)
theory MessageLaws
  imports Messages
begin

text \<open>
  What the operations on one message promise: no lost update, no effect on other messages, no
  constraint violation, no internal error but from the cipher, tags, the trash, the sensitive flag, expiry and deletion.
\<close>


section \<open>Replacing the tags without failures\<close>

lemma uncount_iff:
  "uncount (\<lambda>v. int (f v)) b \<longleftrightarrow> (\<forall>v. count_list b v \<le> f v)"
proof (induction b arbitrary: f)
  case (Cons v b)
  show ?case
  proof (cases "f v = 0")
    case True
    then have "\<not> count_list (v # b) v \<le> f v" by simp
    with True show ?thesis by auto
  next
    case False
    have eq: "(\<lambda>x. int (f x))(v := int (f v) - 1) = (\<lambda>x. int ((f(v := f v - 1)) x))"
      using False by (auto simp: fun_eq_iff of_nat_diff)
    have "uncount (\<lambda>x. int (f x)) (v # b) = uncount (\<lambda>x. int ((f(v := f v - 1)) x)) b"
      using False by (simp only: uncount.simps eq) simp
    also have "\<dots> \<longleftrightarrow> (\<forall>x. count_list b x \<le> (f(v := f v - 1)) x)" by (rule Cons.IH)
    also have "\<dots> \<longleftrightarrow> (\<forall>x. count_list (v # b) x \<le> f x)"
    proof (rule iff_allI)
      fix x
      show "(count_list b x \<le> (f(v := f v - 1)) x) = (count_list (v # b) x \<le> f x)"
        using False by (cases "x = v") auto
    qed
    finally show ?thesis .
  qed
qed simp

lemma count_list_mset: "count (mset xs) v = count_list xs v"
  by (induction xs) auto

lemma same_uuid_set_iff: "same_uuid_set a b \<longleftrightarrow> mset a = mset b"
proof
  assume s: "same_uuid_set a b"
  then have l: "length a = length b" and c: "\<forall>v. count_list b v \<le> count_list a v"
    by (simp_all add: same_uuid_set_def uncount_iff split: if_splits)
  then have "mset b \<subseteq># mset a" by (simp add: subseteq_mset_def count_list_mset)
  with l show "mset a = mset b" by (metis mset_subset_size size_mset subset_mset.le_neq_trans less_irrefl)
next
  assume m: "mset a = mset b"
  then have "count_list a v = count_list b v" for v by (metis count_list_mset)
  moreover have "length a = length b" using m by (metis size_mset)
  ultimately show "same_uuid_set a b" by (simp add: same_uuid_set_def uncount_iff)
qed

lemma insert_tags_quiet:
  assumes "quiet w" "distinct is" "\<And>t. t \<in> set is \<Longrightarrow> (i, t) \<notin> set (message_tags (wdb w))"
  shows "forA is (\<lambda>t. bindA (exec MsgIO (insert_message_tag i t)) (\<lambda>ok. if ok then ret () else throw MsgIO)) w
    = (Inr (), w\<lparr>wdb := (wdb w)\<lparr>message_tags := message_tags (wdb w) @ map (Pair i) is\<rparr>\<rparr>)"
  using assms
proof (induction "is" arbitrary: w)
  case (Cons t ts)
  have t: "(i, t) \<notin> set (message_tags (wdb w))" using Cons.prems(3) by simp
  let ?w = "w\<lparr>wdb := (wdb w)\<lparr>message_tags := message_tags (wdb w) @ [(i, t)]\<rparr>\<rparr>"
  have "forA ts (\<lambda>t. bindA (exec MsgIO (insert_message_tag i t)) (\<lambda>ok. if ok then ret () else throw MsgIO)) ?w
    = (Inr (), ?w\<lparr>wdb := (wdb ?w)\<lparr>message_tags := message_tags (wdb ?w) @ map (Pair i) ts\<rparr>\<rparr>)"
    using Cons.prems by (intro Cons.IH) auto
  moreover have "bindA (exec MsgIO (insert_message_tag i t)) (\<lambda>ok. if ok then ret () else throw MsgIO) w = (Inr (), ?w)"
    using t Cons.prems(1) by (simp add: bindA_run exec_quiet insert_message_tag_def ret_run)
  ultimately show ?case by (simp only: forA_step) simp
qed (simp add: ret_run)

lemma replace_message_tags_quiet:
  assumes "quiet w" "distinct is"
  shows "replace_message_tags i is w = (Inr (), w\<lparr>wdb := (wdb w)\<lparr>message_tags :=
    sql_delete (\<lambda>mt. fst mt = i) (message_tags (wdb w)) @ map (Pair i) is\<rparr>\<rparr>)"
proof -
  let ?d = "(wdb w)\<lparr>message_tags := sql_delete (\<lambda>mt. fst mt = i) (message_tags (wdb w))\<rparr>"
  have "replace_message_tags i is w =
    forA is (\<lambda>t. bindA (exec MsgIO (insert_message_tag i t)) (\<lambda>ok. if ok then ret () else throw MsgIO)) (w\<lparr>wdb := ?d\<rparr>)"
    unfolding replace_message_tags_def bindA_run [of "exec MsgIO (delete_message_tags i)"]
    using assms(1) by (simp add: exec_quiet delete_message_tags_def)
  also have "\<dots> = (Inr (), w\<lparr>wdb := ?d\<lparr>message_tags := message_tags ?d @ map (Pair i) is\<rparr>\<rparr>)"
    using insert_tags_quiet [of "w\<lparr>wdb := ?d\<rparr>" "is" i] assms by (simp add: set_sql_delete)
  finally show ?thesis by simp
qed

lemma save_message_quiet:
  assumes "quiet w" "distinct (map msg_id (messages (wdb w)))" "owned_message owner i (wdb w) = Some m"
    "same_identity m m'" "message_checks (next_version now m')"
  shows "save_message (next_version now m') w = (Inr (), w\<lparr>wdb := changed_db now m' (wdb w)\<rparr>)"
proof -
  from owned_message_SomeD [OF assms(3)] assms(4)
  have "by_key msg_id (msg_id m') (messages (wdb w)) = Some m" "owner_id m = owner_id m'"
    by (simp_all add: same_identity_def)
  then have "sql_count (\<lambda>r. msg_id r = msg_id m' \<and> owner_id r = owner_id m') (messages (wdb w)) = 1"
    using assms(2) by (simp add: sql_count_key)
  then have "save_message_row (next_version now m') (wdb w) = (Some 1, changed_db now m' (wdb w))"
    using assms(5) by (simp add: save_message_row_def Let_def changed_db_def next_version_def)
  then show ?thesis using assms(1) by (simp add: save_message_def bindA_run exec_quiet ret_run)
qed

lemma advanced_row_checks:
  "message_checks m \<Longrightarrow> in_int64 (version m + 1) \<Longrightarrow> message_checks (next_version now m)"
  by (simp add: message_checks_def next_version_def body_columns_ok_def)

definition tags_valid :: "uuid \<Rightarrow> uuid list \<Rightarrow> db \<Rightarrow> bool" where
  "tags_valid owner is d \<longleftrightarrow> uuid_nil \<notin> set is \<and> distinct is \<and> count_owned_tags owner is d = length is"

lemma count_owned_tags_Nil: "count_owned_tags owner [] d = 0"
  by (simp add: count_owned_tags_def sql_count_def)

lemma validate_tags_quiet:
  assumes "quiet w"
  shows "validate_tags owner is w = (if tags_valid owner is (wdb w) then Inr () else Inl MsgErrValidation, w)"
  using assms unfolding validate_tags_def tags_valid_def
  by (auto simp: bindA_run query_quiet ret_run throw_run count_owned_tags_Nil distinct_card card_distinct)

definition retagged :: "time \<Rightarrow> message \<Rightarrow> uuid list \<Rightarrow> db \<Rightarrow> db" where
  "retagged now m is d = (changed_db now m d)\<lparr>message_tags :=
     sql_delete (\<lambda>mt. fst mt = msg_id m) (message_tags d) @ map (Pair (msg_id m)) is\<rparr>"

lemma replace_tags_quiet:
  assumes q: "quiet w" and ok: "messages_ok (wdb w)" and o: "owned_message owner i (wdb w) = Some m"
    and v: "version m = e" "1 \<le> e" "in_int64 (e + 1)"
  shows "replace_tags owner i e is now w =
    (if trashed_at m \<noteq> None then (Inl MsgErrTrashed, w)
     else if \<not> tags_valid owner is (wdb w) then (Inl MsgErrValidation, w)
     else if mset (map snd (filter (\<lambda>mt. fst mt = i) (message_tags (wdb w)))) = mset is
       then (Inr (hide m, tag_list i (wdb w)), w)
     else (Inr (hide (next_version now m), tag_list i (retagged now m is (wdb w))), w\<lparr>wdb := retagged now m is (wdb w)\<rparr>))"
proof -
  have i: "msg_id m = i" using o by (auto dest: owned_message_SomeD)
  have l: "load_owned owner i w = (Inr m, w)"
    using q o by (simp add: load_owned_def bindA_run query_quiet ret_run)
  let ?cur = "map snd (filter (\<lambda>mt. fst mt = i) (message_tags (wdb w)))"
  have c: "current_tag_ids i w = (Inr ?cur, w)" using q by (simp add: current_tag_ids_def query_quiet)
  let ?d = "(wdb w)\<lparr>message_tags := sql_delete (\<lambda>mt. fst mt = i) (message_tags (wdb w)) @ map (Pair i) is\<rparr>"
  have s: "save_message (next_version now m) (w\<lparr>wdb := ?d\<rparr>) = (Inr (), w\<lparr>wdb := retagged now m is (wdb w)\<rparr>)"
  proof -
    have "message_checks (next_version now m)"
      using owned_message_ok [OF ok o] v by (intro advanced_row_checks) simp_all
    then have "save_message (next_version now m) (w\<lparr>wdb := ?d\<rparr>)
      = (Inr (), (w\<lparr>wdb := ?d\<rparr>)\<lparr>wdb := changed_db now m (wdb (w\<lparr>wdb := ?d\<rparr>))\<rparr>)"
      using q ok o by (intro save_message_quiet [of _ owner i m]) (simp_all add: messages_ok_def owned_message_def)
    then show ?thesis by (simp add: retagged_def changed_db_def i)
  qed
  have tx: "replace_tags_tx owner i e is now w =
    (if trashed_at m \<noteq> None then (Inl MsgErrTrashed, w)
     else if \<not> tags_valid owner is (wdb w) then (Inl MsgErrValidation, w)
     else if same_uuid_set ?cur is then (Inr m, w)
     else (Inr (next_version now m), w\<lparr>wdb := retagged now m is (wdb w)\<rparr>))"
  proof (cases "tags_valid owner is (wdb w)")
    case True
    then have "distinct is" by (simp add: tags_valid_def)
    from replace_message_tags_quiet [OF q this, of i] show ?thesis
      unfolding replace_tags_tx_def using True v
      by (simp add: bindA_run l c s validate_tags_quiet [OF q] throw_run ret_run)
  next
    case False
    then show ?thesis
      unfolding replace_tags_tx_def using v
      by (simp add: bindA_run l validate_tags_quiet [OF q] throw_run)
  qed
  show ?thesis
    unfolding replace_tags_def same_uuid_set_iff [symmetric] using v q
    by (simp add: bindA_run with_tx_def in_tx_quiet tx commit_tx_def ret_run pop_fault_def load_tags_def query_quiet)
qed

lemma replace_tags_no_io:
  assumes q: "quiet w" and ok: "messages_ok (wdb w)" and r: "in_int64 (e + 1)"
  shows "fst (replace_tags owner i e is now w) \<noteq> Inl MsgIO"
proof (cases "e < 1")
  case True
  then show ?thesis by (simp add: replace_tags_def throw_run)
next
  case False
  show ?thesis
  proof (cases "owned_message owner i (wdb w)")
    case None
    with q False show ?thesis
      by (simp add: replace_tags_def with_tx_def in_tx_quiet replace_tags_tx_def load_owned_def bindA_run query_quiet throw_run)
  next
    case (Some m)
    show ?thesis
    proof (cases "version m = e")
      case True
      with replace_tags_quiet [OF q ok Some True _ r] False show ?thesis by simp
    next
      case neq: False
      with q False Some show ?thesis
        by (simp add: replace_tags_def with_tx_def in_tx_quiet replace_tags_tx_def load_owned_def bindA_run query_quiet
          throw_run ret_run)
    qed
  qed
qed


section \<open>Optimistic concurrency\<close>

text \<open>C26: An operation with an expected version either leaves the database alone, or it found the
  caller's message with exactly that version, changed only that message's row and tags, kept its owner, key and
  origin, stored the present as its update time, and raised its version by one. This holds for every pattern
  of failing and of succeeding but unanswered database calls.\<close>

theorem operation_advances_one_message:
  assumes "messages_ok (wdb w)" "run_op c rnd owner i e now opr w = (r, w')"
  shows "wdb w' = wdb w \<or> (only_message i (wdb w) (wdb w') \<and> (\<exists>m m'.
     owned_message owner i (wdb w) = Some m \<and> version m = e
     \<and> owned_message owner i (wdb w') = Some m' \<and> version m' = e + 1 \<and> updated_at m' = now
     \<and> same_identity m (m'\<lparr>version := version m\<rparr>)))"
  using run_op_effect [OF assms] unfolding advanced_def by blast

text \<open>C7: No update is lost: once an operation that expected version \<open>e\<close> has changed a message, every other
  operation that expects \<open>e\<close>, whatever it is and whoever retries it, fails and changes nothing.\<close>

theorem no_lost_update:
  assumes ok: "messages_ok (wdb w)"
    and a: "run_op c rnd owner i e now a w = (r, w1)" "wdb w1 \<noteq> wdb w"
    and b: "wdb w2 = wdb w1" "run_op c' rnd' owner i e now' b w2 = (r', w3)"
  shows "wdb w3 = wdb w2 \<and> (\<exists>err. r' = Inl err)"
proof -
  have adv: "advanced owner i e now (wdb w) (wdb w1)" using run_op_effect [OF ok a(1)] a(2) by simp
  then have ns: "\<not> expected_seen owner i e (wdb w2)" using b(1) by (simp add: advanced_not_seen)
  have "messages_ok (wdb w2)"
    using keepsD [OF run_op_ok _ a(1)] ok b(1) by (simp add: on_db_def)
  from run_op_effect [OF this b(2)] ns have "wdb w3 = wdb w2" by (auto dest: advanced_seen)
  moreover have "\<exists>err. r' = Inl err"
  proof (cases r')
    case (Inr x)
    with b(2) run_op_seen ns show ?thesis by metis
  qed simp
  ultimately show ?thesis by simp
qed

section \<open>Constraints never fire\<close>

text \<open>The texts of an operation can be stored; the cipher's nonces have their fixed length.\<close>

fun clean_op :: "body_cipher \<Rightarrow> bytes option \<Rightarrow> message_op \<Rightarrow> message option \<Rightarrow> bool" where
  "clean_op c rnd (EditOp cmd) m \<longleftrightarrow> opt_set opt_text (edit_title cmd) \<and> opt_set pg_text (edit_body cmd)
     \<and> opt_set opt_text (edit_type cmd) \<and> opt_set opt_text (edit_language cmd)"
| "clean_op c rnd (SensitiveOp flag) m \<longleftrightarrow> opt_set (clean_sensitive c rnd flag) m"
| "clean_op c rnd (EditSensitiveOp t b) m \<longleftrightarrow> opt_set (\<lambda>n. length n = 12) rnd \<and> opt_set opt_text t"
| "clean_op c rnd _ m \<longleftrightarrow> True"

lemma normalized_clean:
  assumes "normalized t = Inr t'" "opt_set opt_text t"
  shows "opt_set (\<lambda>t. title_ok t \<and> opt_text t) t'"
  using assms by (cases t) (auto simp: normalized_def opt_set_def dest: normalize_title_ok split: sum.splits)

lemma valid_format_text: "valid_format f \<Longrightarrow> pg_text f"
proof -
  have "pg_text ''TEXT''" "pg_text ''MARKDOWN''" by code_simp+
  then show "valid_format f \<Longrightarrow> pg_text f" by (auto simp only: valid_format_def)
qed

lemma normalized_error: "normalized t = Inl err \<Longrightarrow> err = MsgErrValidation"
  by (auto simp: normalized_def normalize_title_def Let_def split: option.splits sum.splits if_splits)

lemma edit_no_io:
  assumes q: "quiet w" and ok: "messages_ok (wdb w)" and r: "in_int64 (edit_expected cmd + 1)"
    and cl: "clean_op c rnd (EditOp cmd) m"
  shows "fst (edit_message owner i cmd now w) \<noteq> Inl MsgIO"
proof (cases "\<exists>t. normalized (edit_title cmd) = Inr t")
  case True
  then obtain t where t: "normalized (edit_title cmd) = Inr t" ..
  show ?thesis
  proof (cases "opt_set valid_format (edit_format cmd)")
    case fmt: True
    have "clean_edit (cmd\<lparr>edit_title := t\<rparr>)"
      using cl fmt normalized_clean [OF t] by (auto simp: clean_edit_def opt_set_def valid_format_text split: option.splits)
    then have "fst (mutate owner i (edit_expected cmd) now (edit_change (cmd\<lparr>edit_title := t\<rparr>)) w) \<noteq> Inl MsgIO"
      by (rule edit.mutate_no_io [OF q ok r])
    then show ?thesis using t by (simp add: edit_message_def throw_run split: option.split)
  qed (auto simp: edit_message_def throw_run opt_set_def split: option.splits sum.splits)
next
  case False
  then obtain err where "normalized (edit_title cmd) = Inl err" by (cases "normalized (edit_title cmd)") auto
  moreover from this have "err = MsgErrValidation" by (rule normalized_error)
  ultimately show ?thesis by (simp add: edit_message_def throw_run split: option.split)
qed

lemma edit_sensitive_no_io:
  assumes q: "quiet w" and ok: "messages_ok (wdb w)" and r: "in_int64 (e + 1)"
    and cl: "opt_set (\<lambda>n. length n = 12) rnd" "opt_set opt_text t"
  shows "fst (edit_sensitive c rnd owner i e t b now w) \<noteq> Inl MsgIO"
proof (cases "normalized t")
  case (Inl err)
  then have "err = MsgErrValidation" by (rule normalized_error)
  with Inl show ?thesis by (simp add: edit_sensitive_def throw_run)
next
  case (Inr t')
  have "fst (mutate owner i e now (edit_sensitive_change c rnd t' b) w) \<noteq> Inl MsgIO"
    using normalized_clean [OF Inr cl(2)] cl(1) by (intro edit_sensitive.mutate_no_io [OF q ok r]) simp_all
  with Inr show ?thesis by (simp add: edit_sensitive_def throw_run)
qed

lemma run_op_no_io:
  assumes q: "quiet w" and ok: "messages_ok (wdb w)" and r: "in_int64 (e + 1)"
    and cl: "clean_op c rnd opr (owned_message owner i (wdb w))"
  shows "fst (run_op c rnd owner i e now opr w) \<noteq> Inl MsgIO"
proof (cases opr)
  case (EditOp cmd)
  then show ?thesis using edit_no_io [OF q ok, of "cmd\<lparr>edit_expected := e\<rparr>" c rnd] r cl by simp
next
  case (SensitiveOp flag)
  have "fst (mutate owner i e now (sensitive_change c rnd flag) w) \<noteq> Inl MsgIO"
    by (rule sensitive.mutate_no_io [OF q ok r]) (use cl SensitiveOp in \<open>simp add: opt_set_def\<close>)
  then show ?thesis using SensitiveOp by (simp add: set_sensitive_def)
next
  case (ExtendOp days)
  then show ?thesis using extend.mutate_no_io [OF q ok r] by (simp add: extend_expiry_def throw_run)
qed (use cl in \<open>simp_all add: make_permanent_def set_favorite_def trash_message_def restore_message_def mutate_with_settings_eq
  edit_sensitive_no_io [OF q ok r] replace_tags_no_io [OF q ok r] permanent.mutate_no_io [OF q ok r]
   favorite.mutate_no_io [OF q ok r] trash.mutate_no_io [OF q ok r] restore.mutate_no_io [OF q ok r]\<close>)

subsection \<open>Errors of the cipher\<close>

text \<open>An action that never ends with the error \<open>e\<close>, whatever fails.\<close>

definition never :: "'e \<Rightarrow> ('s, 'e, 'a) act \<Rightarrow> bool" where
  "never e m \<longleftrightarrow> (\<forall>w. fst (m w) \<noteq> Inl e)"

lemma bindA_Inl: "fst (bindA m f w) = Inl e \<Longrightarrow> fst (m w) = Inl e \<or> (\<exists>x w1. m w = (Inr x, w1) \<and> fst (f x w1) = Inl e)"
  by (auto simp: bindA_run split: prod.splits sum.splits)

lemma in_tx_Inl:
  assumes "fst (in_tx e b w) = Inl e'" "e' \<noteq> e"
  shows "\<exists>w0. wdb w0 = wdb w \<and> fst (b w0) = Inl e'"
proof -
  obtain w' where "in_tx e b w = (Inl e', w')" using assms(1) by (cases "in_tx e b w") auto
  then show ?thesis by (cases rule: in_tx_cases) (use assms(2) in auto)
qed

lemma never_ret: "never e (ret x)" by (simp add: never_def ret_run)
lemma never_throw: "e' \<noteq> e \<Longrightarrow> never e (throw e')" by (simp add: never_def throw_run)
lemma never_bind: "never e m \<Longrightarrow> (\<And>x. never e (f x)) \<Longrightarrow> never e (bindA m f)"
  unfolding never_def by (meson bindA_Inl)
lemma never_if: "(b \<Longrightarrow> never e m) \<Longrightarrow> (\<not> b \<Longrightarrow> never e n) \<Longrightarrow> never e (if b then m else n)" by simp
lemma never_option: "never e m \<Longrightarrow> (\<And>x. never e (f x)) \<Longrightarrow> never e (case v of None \<Rightarrow> m | Some x \<Rightarrow> f x)"
  by (cases v) simp_all
lemma never_prod: "(\<And>a b. never e (f a b)) \<Longrightarrow> never e (case p of (a, b) \<Rightarrow> f a b)" by (cases p) simp
lemma never_ext: "e' \<noteq> e \<Longrightarrow> never e (ext e' f)"
  by (auto simp: never_def ext_def split: prod.splits fault.splits)
lemma never_query: "e' \<noteq> e \<Longrightarrow> never e (query e' q)" unfolding query_def by (rule never_ext)
lemma never_exec: "e' \<noteq> e \<Longrightarrow> never e (exec e' u)" unfolding exec_def by (rule never_ext)
lemma never_tx: "e' \<noteq> e \<Longrightarrow> never e b \<Longrightarrow> never e (in_tx e' b)"
  unfolding never_def by (metis in_tx_Inl)
lemma never_commit: "never e (commit_tx x)" by (simp add: never_def commit_tx_def ret_run)
lemma never_forA: "(\<And>x. never e (f x)) \<Longrightarrow> never e (forA xs f)"
  by (induction xs) (simp_all add: never_ret never_bind del: bindA_def)

lemmas never_intro = never_ret never_throw never_bind never_if never_option never_prod never_query never_exec never_tx
  never_commit never_forA

lemma never_crypto:
  "never MsgErrCrypto (load_owned owner i)" "never MsgErrCrypto (save_message m)" "never MsgErrCrypto (load_tags i)"
  "never MsgErrCrypto message_settings" "never MsgErrCrypto (replace_tags owner i e is now)"
  unfolding load_owned_def save_message_def load_tags_def message_settings_def replace_tags_def replace_tags_tx_def with_tx_def
    validate_tags_def current_tag_ids_def replace_message_tags_def
  by (intro never_intro; simp)+

lemma mutate_crypto:
  assumes "fst (mutate owner i e now change w) = Inl MsgErrCrypto"
  shows "\<exists>m w1. owned_message owner i (wdb w) = Some m \<and> fst (change m w1) = Inl MsgErrCrypto"
proof -
  have "\<not> e < 1" using assms by (auto simp: mutate_def throw_run)
  with assms have "fst (with_tx (mutate_tx owner i e now change) w) = Inl MsgErrCrypto
      \<or> (\<exists>m w1. fst (bindA (load_tags (msg_id m)) (\<lambda>ts. ret (hide m, ts)) w1) = Inl MsgErrCrypto)"
    by (auto simp: mutate_def dest: bindA_Inl)
  moreover have "never MsgErrCrypto (bindA (load_tags (msg_id m)) (\<lambda>ts. ret (hide m, ts)))" for m
    by (intro never_intro never_crypto)
  ultimately have "fst (with_tx (mutate_tx owner i e now change) w) = Inl MsgErrCrypto" by (auto simp: never_def)
  from in_tx_Inl [OF this [unfolded with_tx_def]] obtain w0 where w0: "wdb w0 = wdb w"
    "fst (bindA (mutate_tx owner i e now change) commit_tx w0) = Inl MsgErrCrypto" by auto
  from bindA_Inl [OF w0(2)] have "fst (mutate_tx owner i e now change w0) = Inl MsgErrCrypto"
    by (auto simp: commit_tx_def ret_run)
  from bindA_Inl [OF this [unfolded mutate_tx_def]] never_crypto(1) obtain m w1 where
    l: "load_owned owner i w0 = (Inr m, w1)" and r: "fst ((if version m \<noteq> e then throw MsgErrVersionConflict
     else bindA (change m) (\<lambda>(changed, m').
       if changed then bindA (save_message (next_version now m')) (\<lambda>_. ret (next_version now m'))
       else ret m')) w1) = Inl MsgErrCrypto" unfolding never_def by blast
  let ?k = "\<lambda>(changed, m'). if changed then bindA (save_message (next_version now m')) (\<lambda>_. ret (next_version now m')) else ret m'"
  have k: "never MsgErrCrypto (?k p)" for p
    by (intro never_intro never_crypto)
  have "fst (bindA (change m) ?k w1) = Inl MsgErrCrypto" using r by (cases "version m = e") (simp_all add: throw_run)
  from bindA_Inl [OF this] have "fst (change m w1) = Inl MsgErrCrypto"
    using k unfolding never_def by metis
  with load_owned_Inr(1) [OF l] w0(1) show ?thesis by auto
qed

text \<open>When the cipher lets an operation down: the random source fails, or the stored ciphertext does not open.\<close>

fun cipher_fails :: "body_cipher \<Rightarrow> bytes option \<Rightarrow> message_op \<Rightarrow> message option \<Rightarrow> bool" where
  "cipher_fails c rnd (SensitiveOp flag) m \<longleftrightarrow>
     (if flag then rnd = None else (case m of None \<Rightarrow> False | Some m \<Rightarrow> isl (decrypt c m)))"
| "cipher_fails c rnd (EditSensitiveOp t b) m \<longleftrightarrow> rnd = None"
| "cipher_fails c rnd _ m \<longleftrightarrow> False"

lemma mutate_never: "(\<And>m. never MsgErrCrypto (change m)) \<Longrightarrow> fst (mutate owner i e now change w) \<noteq> Inl MsgErrCrypto"
  using mutate_crypto unfolding never_def by metis

lemma never_crypto_changes:
  "never MsgErrCrypto (edit_change cmd m)" "never MsgErrCrypto (make_permanent_change m)" "never MsgErrCrypto (extend_change days m)"
  "never MsgErrCrypto (favorite_change fav m)" "never MsgErrCrypto (with_settings trash_change now m)"
  "never MsgErrCrypto (with_settings restore_change now m)"
  unfolding edit_change_def Let_def clear_body_def make_permanent_change_def extend_change_def favorite_change_def with_settings_def
    trash_change_def restore_change_def
  by (intro never_intro never_crypto(4); simp)+

lemma run_op_crypto:
  assumes "fst (run_op c rnd owner i e now opr w) = Inl MsgErrCrypto"
  shows "cipher_fails c rnd opr (owned_message owner i (wdb w))"
proof (cases opr)
  case (EditOp cmd)
  have "fst (mutate owner i e' now (edit_change cmd') w) \<noteq> Inl MsgErrCrypto" for e' cmd'
    by (rule mutate_never) (rule never_crypto_changes)
  with assms EditOp show ?thesis
    by (auto simp: edit_message_def throw_run dest: normalized_error split: if_splits option.splits sum.splits)
next
  case (SensitiveOp flag)
  with assms obtain m w1 where m: "owned_message owner i (wdb w) = Some m" "fst (sensitive_change c rnd flag m w1) = Inl MsgErrCrypto"
    using mutate_crypto [of owner i e now "sensitive_change c rnd flag" w] by (auto simp: set_sensitive_def)
  from m(2) have "if flag then rnd = None else isl (decrypt c m)"
    by (cases rnd) (auto simp: sensitive_change_def throw_run ret_run encrypt_def split: if_splits option.splits sum.splits)
  with m(1) SensitiveOp show ?thesis by simp
next
  case (EditSensitiveOp t b)
  have "fst (mutate owner i e now (edit_sensitive_change c (Some n) t' b) w) \<noteq> Inl MsgErrCrypto" for n t'
    by (rule mutate_never) (auto simp: never_def edit_sensitive_change_def encrypt_def throw_run ret_run)
  with assms EditSensitiveOp show ?thesis
    by (cases rnd) (auto simp: edit_sensitive_def throw_run dest: normalized_error split: if_splits sum.splits)
next
  case (ExtendOp days)
  with assms mutate_never [OF never_crypto_changes(3)] show ?thesis by (auto simp: extend_expiry_def throw_run split: if_splits)
qed (use assms mutate_never [OF never_crypto_changes(2)] mutate_never [OF never_crypto_changes(4)]
    mutate_never [OF never_crypto_changes(5)] mutate_never [OF never_crypto_changes(6)] never_crypto(5)
    in \<open>auto simp: make_permanent_def set_favorite_def trash_message_def restore_message_def mutate_with_settings_eq never_def\<close>)



context valid_change
begin

lemma mutate_changes:
  assumes "quiet w" "messages_ok (wdb w)" "owned_message owner i (wdb w) = Some m" "version m = e"
    "in_int64 (e + 1)" "clean m" and ch: "change m w = (Inr (True, m'), w)"
  shows "mutate owner i e now change w =
      (Inr (hide (next_version now m'), tag_list i (wdb w)), w\<lparr>wdb := changed_db now m' (wdb w)\<rparr>)"
    and "owned_message owner i (changed_db now m' (wdb w)) = Some (next_version now m')"
    and "messages_ok (changed_db now m' (wdb w))"
proof -
  from same [OF ch] have s: "same_identity m m'" by simp
  have "1 \<le> e" using owned_message_ok [OF assms(2,3)] assms(4) by (simp add: message_checks_def)
  from mutate_quiet [OF assms(1-5) this assms(6)] ch
  show m: "mutate owner i e now change w =
      (Inr (hide (next_version now m'), tag_list i (wdb w)), w\<lparr>wdb := changed_db now m' (wdb w)\<rparr>)"
    by simp
  from mutate_ok [OF assms(2) m] show "messages_ok (changed_db now m' (wdb w))" by simp
  show "owned_message owner i (changed_db now m' (wdb w)) = Some (next_version now m')"
    using owned_changed_db [OF assms(3) s, of now] s by (simp add: saved_same_identity)
qed

end

section \<open>The sensitive flag\<close>

lemma repo_get_message_quiet:
  "quiet w \<Longrightarrow> owned_message owner i (wdb w) = Some m \<Longrightarrow>
   repo_get_message owner i w = (Inr \<lparr>view_row = m, view_tags = tag_list i (wdb w),
     view_attachments = attachment_list i (wdb w)\<rparr>, w)"
  by (simp add: repo_get_message_def load_owned_def load_tags_def load_attachments_def bindA_run query_quiet ret_run)

text \<open>C36: Marking a message sensitive removes its plaintext from the row, and the owner still gets exactly
  the body back: by revealing it, and by removing the flag, after which the row is the original one but for its version and
  update time. The cipher is only assumed to open what it sealed.\<close>

theorem sensitive_round_trip:
  assumes c: "cipher_ok c" and n: "length n = 12" and q: "quiet w" and ok: "messages_ok (wdb w)"
    and o: "owned_message owner i (wdb w) = Some m" and s: "\<not> sensitive m" "trashed_at m = None"
    and b: "body_plaintext m = Some b" "valid_body b" and r: "in_int64 (version m + 2)"
  shows "\<exists>w1 x1 w2 x2 m1. run_op c (Some n) owner i (version m) now (SensitiveOp True) w = (Inr x1, w1)
    \<and> owned_message owner i (wdb w1) = Some m1 \<and> sensitive m1 \<and> body_plaintext m1 = None
    \<and> reveal c owner i w1 = (Inr (b, version m + 1), w1)
    \<and> run_op c rnd owner i (version m + 1) later (SensitiveOp False) w1 = (Inr x2, w2)
    \<and> owned_message owner i (wdb w2) = Some (m\<lparr>version := version m + 2, updated_at := later\<rparr>)"
proof -
  have ck: "message_checks m" using ok o by (rule owned_message_ok)
  then have r1: "in_int64 (version m + 1)" using r by (simp add: message_checks_def in_int64_def)
  let ?cnv = "(seal c n b (aad encryption_version1 (msg_id m) (owner_id m)), n, encryption_version1)"
  let ?m = "sealed (m\<lparr>body_plaintext := None, sensitive := True\<rparr>) ?cnv"
  let ?m1 = "next_version now ?m"
  have e: "encrypt c (Some n) (msg_id m) (owner_id m) b = Inr ?cnv" by (simp add: encrypt_def)
  have "sensitive_change c (Some n) True m w = (Inr (True, ?m), w)"
    using s b e by (simp add: sensitive_change_def ret_run)
  note ch = sensitive.mutate_changes [OF q ok o refl r1 _ this, of now]
  have cl: "clean_sensitive c (Some n) True m" using n by (simp add: clean_sensitive_def opt_set_def)
  note run1 = ch(1) [OF cl] and o1 = ch(2) [OF cl] and ok1 = ch(3) [OF cl]
  let ?w1 = "w\<lparr>wdb := changed_db now ?m (wdb w)\<rparr>"
  have v1: "version ?m1 = version m + 1" using r1 by (simp add: next_version_def sealed_def)
  have d: "decrypt c ?m1 = Inr b"
    by (rule decrypt_sealed [OF c n e]) (simp_all add: next_version_def sealed_def)
  have rev: "reveal c owner i ?w1 = (Inr (b, version m + 1), ?w1)"
    using q o1 d v1 by (simp add: reveal_def bindA_run repo_get_message_quiet ret_run) (simp add: next_version_def sealed_def)
  let ?m2 = "?m1\<lparr>body_plaintext := Some b, body_ciphertext := None, body_nonce := None,
    body_encryption_version := None, sensitive := False\<rparr>"
  have "sensitive_change c rnd False ?m1 ?w1 = (Inr (True, ?m2), ?w1)"
    using s d by (simp add: sensitive_change_def ret_run) (simp add: next_version_def sealed_def)
  note ch2 = sensitive.mutate_changes [OF _ _ _ v1 _ _ this, of owner i later]
  have "clean_sensitive c rnd False ?m1" using d ck b(1) by (simp add: clean_sensitive_def message_checks_def opt_text_def)
  note run2 = ch2(1) [OF _ _ _ _ this] and o2 = ch2(2) [OF _ _ _ _ this]
  have r2: "in_int64 (version m + 1 + 1)" using r by (simp add: add.assoc)
  have "next_version later ?m2 = m\<lparr>version := version m + 2, updated_at := later\<rparr>"
    using r2 v1 s b(1) ck by (simp add: next_version_def sealed_def message_checks_def body_columns_ok_def)
  then have fin: "owned_message owner i (changed_db later ?m2 (wdb ?w1))
      = Some (m\<lparr>version := version m + 2, updated_at := later\<rparr>)"
    using o2 q ok1 o1 r2 by simp
  have run2': "run_op c rnd owner i (version m + 1) later (SensitiveOp False) ?w1
      = (Inr (hide (next_version later ?m2), tag_list i (wdb ?w1)), ?w1\<lparr>wdb := changed_db later ?m2 (wdb ?w1)\<rparr>)"
    using run2 q ok1 o1 r2 by (simp add: set_sensitive_def)
  have run1': "run_op c (Some n) owner i (version m) now (SensitiveOp True) w = (Inr (hide ?m1, tag_list i (wdb w)), ?w1)"
    using run1 by (simp add: set_sensitive_def)
  have "sensitive ?m1" "body_plaintext ?m1 = None" by (simp_all add: next_version_def sealed_def)
  moreover have "owned_message owner i (wdb ?w1) = Some ?m1" using o1 by simp
  ultimately show ?thesis using run1' rev run2' fin
    by (intro exI [of _ ?w1] exI [of _ "(hide ?m1, tag_list i (wdb w))"]
      exI [of _ "?w1\<lparr>wdb := changed_db later ?m2 (wdb ?w1)\<rparr>"]
      exI [of _ "(hide (next_version later ?m2), tag_list i (wdb ?w1))"] exI [of _ ?m1] conjI)
      (simp_all only: world.select_convs world.update_convs, simp_all)
qed


section \<open>The trash\<close>

lemma with_settings_quiet:
  "quiet w \<Longrightarrow> with_settings fn now m w = fn m (temporary_ttl (wdb w)) (trash_ttl (wdb w)) now w"
  by (simp add: with_settings_def message_settings_def bindA_run query_quiet temporary_ttl_def trash_ttl_def)

lemma restored_trashed:
  assumes ck: "message_checks m" and s: "trashed_at m = None"
  shows "restored (m\<lparr>trashed_at := Some t0, purge_at := Some p, version := v, updated_at := u\<rparr>) ttl later
    = m\<lparr>version := v, updated_at := u, expires_at := map_option (\<lambda>t. if t \<le> later then later + ttl else t) (expires_at m)\<rparr>"
proof (cases "expires_at m")
  case None
  then have "msg_lifecycle m = Permanent" using ck by (cases "msg_lifecycle m") (simp_all add: message_checks_def)
  with None s ck show ?thesis by (simp add: restored_def message_checks_def)
next
  case (Some t)
  then have "msg_lifecycle m = Temporary" using ck by (simp add: message_checks_def)
  with Some s ck show ?thesis by (simp add: restored_def message_checks_def)
qed

text \<open>Trashing and restoring are inverse: the trashed row carries the time and the purge time computed
  from the settings; the restored one is the original but for its version, its update time and, for a temporary message
  whose time has run out in the trash, a fresh expiry.\<close>

theorem trash_restore_round_trip:
  assumes q: "quiet w" and ok: "messages_ok (wdb w)"
    and o: "owned_message owner i (wdb w) = Some m" and s: "trashed_at m = None" and r: "in_int64 (version m + 2)"
  shows "\<exists>w1 x1 w2 x2. run_op c rnd owner i (version m) now TrashOp w = (Inr x1, w1)
    \<and> owned_message owner i (wdb w1) = Some (m\<lparr>trashed_at := Some now, purge_at := Some (now + trash_ttl (wdb w)),
        version := version m + 1, updated_at := now\<rparr>)
    \<and> run_op c rnd owner i (version m + 1) later RestoreOp w1 = (Inr x2, w2)
    \<and> owned_message owner i (wdb w2) = Some (m\<lparr>version := version m + 2, updated_at := later,
        expires_at := map_option (\<lambda>t. if t \<le> later then later + temporary_ttl (wdb w) else t) (expires_at m)\<rparr>)"
proof -
  have ck: "message_checks m" using ok o by (rule owned_message_ok)
  then have r1: "in_int64 (version m + 1)" using r by (simp add: message_checks_def in_int64_def)
  have r2: "in_int64 (version m + 1 + 1)" using r by (simp add: add.assoc)
  let ?m = "m\<lparr>trashed_at := Some now, purge_at := Some (now + trash_ttl (wdb w))\<rparr>"
  let ?m1 = "next_version now ?m"
  have "with_settings trash_change now m w = (Inr (True, ?m), w)"
    using q s by (simp add: with_settings_quiet trash_change_def ret_run)
  note ch = trash.mutate_changes [OF q ok o refl r1 TrueI this]
  let ?w1 = "w\<lparr>wdb := changed_db now ?m (wdb w)\<rparr>"
  have m1: "?m1 = m\<lparr>trashed_at := Some now, purge_at := Some (now + trash_ttl (wdb w)),
        version := version m + 1, updated_at := now\<rparr>"
    using r1 by (simp add: next_version_def)
  let ?m2 = "restored ?m1 (temporary_ttl (wdb w)) later"
  have "temporary_ttl (wdb ?w1) = temporary_ttl (wdb w)" by (simp add: temporary_ttl_def)
  then have "with_settings restore_change later ?m1 ?w1 = (Inr (True, ?m2), ?w1)"
    using q m1 by (simp add: with_settings_quiet restore_change_eq ret_run)
  moreover have "version ?m1 = version m + 1" using m1 by simp
  ultimately have ch2: "mutate owner i (version m + 1) later (with_settings restore_change later) ?w1
      = (Inr (hide (next_version later ?m2), tag_list i (wdb ?w1)), ?w1\<lparr>wdb := changed_db later ?m2 (wdb ?w1)\<rparr>)"
    "owned_message owner i (changed_db later ?m2 (wdb ?w1)) = Some (next_version later ?m2)"
    using restore.mutate_changes [of ?w1 owner i ?m1 "version m + 1" later ?m2 later] q ch(2,3) r2 by simp_all
  have m2: "next_version later ?m2 = m\<lparr>version := version m + 2, updated_at := later,
        expires_at := map_option (\<lambda>t. if t \<le> later then later + temporary_ttl (wdb w) else t) (expires_at m)\<rparr>"
    unfolding m1 restored_trashed [OF ck s] using r2 by (simp add: next_version_def)
  have "run_op c rnd owner i (version m) now TrashOp w = (Inr (hide ?m1, tag_list i (wdb w)), ?w1)"
    using ch(1) by (simp add: trash_message_def mutate_with_settings_eq)
  moreover have "run_op c rnd owner i (version m + 1) later RestoreOp ?w1
      = (Inr (hide (next_version later ?m2), tag_list i (wdb ?w1)), ?w1\<lparr>wdb := changed_db later ?m2 (wdb ?w1)\<rparr>)"
    using ch2(1) by (simp add: restore_message_def mutate_with_settings_eq)
  moreover have "owned_message owner i (wdb ?w1) = Some ?m1" using ch(2) by simp
  ultimately show ?thesis using ch2(2) unfolding m1 [symmetric] m2 [symmetric]
    by (intro exI [of _ ?w1] exI [of _ "(hide ?m1, tag_list i (wdb w))"]
      exI [of _ "?w1\<lparr>wdb := changed_db later ?m2 (wdb ?w1)\<rparr>"]
      exI [of _ "(hide (next_version later ?m2), tag_list i (wdb ?w1))"] conjI) simp_all
qed

section \<open>Edits of a message without body\<close>

text \<open>An edit that gives a new body to a message without body (one that only has attachments) reports
  success and changes nothing: the body sent is dropped.\<close>

theorem edit_drops_body_of_attachment_message:
  assumes q: "quiet w" and ok: "messages_ok (wdb w)" and o: "owned_message owner i (wdb w) = Some m"
    and m: "body_plaintext m = None" "\<not> sensitive m" "trashed_at m = None"
    and b: "valid_body b" and r: "in_int64 (version m + 1)"
  shows "edit_message owner i \<lparr>edit_expected = version m, edit_title = None, edit_body = Some b, edit_format = None,
      edit_clear = False, edit_type = None, edit_language = None\<rparr> now w
    = (Inr (m, tag_list i (wdb w)), w)"
proof -
  let ?c = "\<lparr>edit_expected = version m, edit_title = None, edit_body = Some b, edit_format = None,
      edit_clear = False, edit_type = None, edit_language = None\<rparr>"
  have ch: "edit_change ?c m w = (Inr (False, m), w)"
    using m by (simp add: edit_change_def bindA_run ret_run Let_def differs_def set_when_def edit_body_fields_def)
  have "1 \<le> version m" using owned_message_ok [OF ok o] by (simp add: message_checks_def)
  obtain ld where "load_owned owner i w = (Inr m, w)"
    using q o by (simp add: load_owned_def bindA_run query_quiet ret_run)
  then have "mutate_tx owner i (version m) now (edit_change ?c) w = (Inr m, w)"
    by (simp add: mutate_tx_def bindA_run ch ret_run)
  moreover have "msg_id m = i" using o by (auto dest: owned_message_SomeD)
  ultimately show ?thesis using b m q \<open>1 \<le> version m\<close>
    by (simp add: edit_message_def normalized_def too_long_def mutate_def with_tx_def bindA_run in_tx_quiet commit_tx_def
      ret_run pop_fault_def load_tags_def query_quiet hide_def)
qed


section \<open>Permanent deletion\<close>

definition deleted_db :: "message \<Rightarrow> audit_row \<Rightarrow> db \<Rightarrow> db" where
  "deleted_db m a d = delete_messages (\<lambda>x. msg_id x = msg_id m \<and> owner_id x = owner_id m \<and> trashed_at x \<noteq> None)
     (d\<lparr>audit_logs := audit_logs d @ [a]\<rparr>)"

lemma permanently_delete_tx_Inr:
  assumes "permanently_delete_tx owner i ac now w = (Inr u, w')"
  shows "\<exists>m a. owned_message owner i (wdb w) = Some m \<and> trashed_at m \<noteq> None
    \<and> wdb w' = deleted_db m (delete_audit_row a owner m ac now) (wdb w)"
proof -
  from assms obtain m w1 where l: "load_owned owner i w = (Inr m, w1)"
    and b: "(if trashed_at m = None then throw MsgErrNotTrashed
     else bindA (new_id MsgIO) (\<lambda>a.
       bindA (exec MsgIO (insert_audit (delete_audit_row a owner m ac now))) (\<lambda>ok.
       if \<not> ok then throw MsgIO
       else bindA (exec MsgIO (delete_trashed_message i owner)) (\<lambda>n.
         if n \<noteq> 1 then throw MsgErrNotFound else ret ())))) w1 = (Inr u, w')"
    unfolding permanently_delete_tx_def by (rule bindA_InrE)
  note m = load_owned_Inr [OF l]
  from b have t: "trashed_at m \<noteq> None" by (auto simp: throw_run split: if_splits)
  with b obtain a w2 where a: "new_id MsgIO w1 = (Inr a, w2)"
    and b2: "bindA (exec MsgIO (insert_audit (delete_audit_row a owner m ac now))) (\<lambda>ok.
       if \<not> ok then throw MsgIO
       else bindA (exec MsgIO (delete_trashed_message i owner)) (\<lambda>n.
         if n \<noteq> 1 then throw MsgErrNotFound else ret ())) w2 = (Inr u, w')"
    by (simp only: if_False) (erule bindA_InrE)
  from b2 obtain ok w3 where ins: "exec MsgIO (insert_audit (delete_audit_row a owner m ac now)) w2 = (Inr ok, w3)"
    and b3: "(if \<not> ok then throw MsgIO
       else bindA (exec MsgIO (delete_trashed_message i owner)) (\<lambda>n.
         if n \<noteq> 1 then throw MsgErrNotFound else ret ())) w3 = (Inr u, w')"
    by (rule bindA_InrE)
  from b3 have ok: "ok" by (cases ok) (simp_all add: throw_run)
  with b3 obtain n w4 where del: "exec MsgIO (delete_trashed_message i owner) w3 = (Inr n, w4)"
    and b4: "(if n \<noteq> 1 then throw MsgErrNotFound else ret ()) w4 = (Inr u, w')"
    by (simp only: simp_thms if_False) (erule bindA_InrE)
  from b4 have w4: "w' = w4" by (simp add: throw_run ret_run split: if_splits)
  have "wdb w3 = (wdb w)\<lparr>audit_logs := audit_logs (wdb w) @ [delete_audit_row a owner m ac now]\<rparr>"
    using exec_Inr [OF ins] ok m(2) new_id_Inr [OF a] by (simp add: insert_audit_def split: if_splits)
  moreover have "wdb w' = snd (delete_trashed_message i owner (wdb w3))" using exec_Inr [OF del] w4 by simp
  moreover have "msg_id m = i" "owner_id m = owner" using owned_message_SomeD [OF m(1)] by simp_all
  ultimately have "wdb w' = deleted_db m (delete_audit_row a owner m ac now) (wdb w)"
    by (simp add: deleted_db_def delete_trashed_message_def Let_def)
  with m(1) t show ?thesis by blast
qed

lemma deleted_db_facts:
  assumes "messages_ok d" "owned_message owner i d = Some m" "trashed_at m \<noteq> None"
  shows "i \<notin> msg_id ` set (messages (deleted_db m a d))"
    and "map msg_id (messages (deleted_db m a d)) = filter (\<lambda>j. j \<noteq> i) (map msg_id (messages d))"
    and "message_tags (deleted_db m a d) = filter (\<lambda>t. fst t \<noteq> i) (message_tags d)"
    and "attachments (deleted_db m a d) = filter (\<lambda>t. ma_message t \<noteq> i) (attachments d)"
    and "audit_logs (deleted_db m a d) = audit_logs d @ [a]"
    and "file_objects (deleted_db m a d) = file_objects d"
proof -
  note o = owned_message_SomeD [OF assms(2)]
  have dist: "distinct (map msg_id (messages d))" using assms(1) by (simp add: messages_ok_def)
  let ?p = "\<lambda>x. msg_id x = msg_id m \<and> owner_id x = owner_id m \<and> trashed_at x \<noteq> None"
  have p: "?p x \<longleftrightarrow> msg_id x = i" if "x \<in> set (messages d)" for x
    using that o assms(3) by_key_distinct [OF dist that, of m] by auto
  have gone: "set (map msg_id (filter ?p (messages d))) = {i}"
    using p o p [of m] by auto
  have del: "sql_delete ?p (messages d) = filter (\<lambda>x. msg_id x \<noteq> i) (messages d)"
    unfolding sql_delete_def by (rule filter_cong) (use p in auto)
  have fm: "map msg_id (map (\<lambda>m. if b m then m\<lparr>source_message_id := None\<rparr> else m) ms) = map msg_id ms" for b ms
    by simp
  show ids: "map msg_id (messages (deleted_db m a d)) = filter (\<lambda>j. j \<noteq> i) (map msg_id (messages d))"
    unfolding deleted_db_def delete_messages_def Let_def
    by (simp add: fm del [simplified] filter_map comp_def del: map_map)
  then have "i \<notin> set (map msg_id (messages (deleted_db m a d)))" by (simp del: set_map)
  then show "i \<notin> msg_id ` set (messages (deleted_db m a d))" by simp
  show "message_tags (deleted_db m a d) = filter (\<lambda>t. fst t \<noteq> i) (message_tags d)"
    "attachments (deleted_db m a d) = filter (\<lambda>t. ma_message t \<noteq> i) (attachments d)"
    "audit_logs (deleted_db m a d) = audit_logs d @ [a]" "file_objects (deleted_db m a d) = file_objects d"
    unfolding deleted_db_def delete_messages_def Let_def
    by (simp_all add: gone [unfolded not_None_eq] sql_delete_def del: set_map)
qed

text \<open>Permanent deletion takes effect only on the owner's trashed message, and takes effect completely or not at
  all, whatever calls fail: the message, its tags and its attachments go together with the audit event, and every
  other message, tag and attachment stays; a deletion reported as done has been done.\<close>

theorem permanent_deletion_is_atomic:
  assumes ok: "messages_ok (wdb w)" and r: "permanently_delete owner i ac now w = (r, w')"
  shows "(wdb w' = wdb w \<and> r \<noteq> Inr ()) \<or>
    (\<exists>m a. owned_message owner i (wdb w) = Some m \<and> trashed_at m \<noteq> None
      \<and> map msg_id (messages (wdb w')) = filter (\<lambda>j. j \<noteq> i) (map msg_id (messages (wdb w)))
      \<and> message_tags (wdb w') = filter (\<lambda>t. fst t \<noteq> i) (message_tags (wdb w))
      \<and> attachments (wdb w') = filter (\<lambda>t. ma_message t \<noteq> i) (attachments (wdb w))
      \<and> audit_logs (wdb w') = audit_logs (wdb w) @ [delete_audit_row a owner m ac now])"
proof -
  have dn: "(wdb w1 = deleted_db m (delete_audit_row a owner m ac now) (wdb w)
      \<and> owned_message owner i (wdb w) = Some m \<and> trashed_at m \<noteq> None) \<longrightarrow> ?thesis"
    if "wdb w' = wdb w1" for m a w1
    using deleted_db_facts [OF ok, of owner i m "delete_audit_row a owner m ac now"] that by auto
  have eff: "c \<and> (\<exists>m a. wdb w1 = deleted_db m (delete_audit_row a owner m ac now) (wdb w)
      \<and> owned_message owner i (wdb w) = Some m \<and> trashed_at m \<noteq> None)"
    if w0: "wdb w0 = wdb w" and b: "bindA (permanently_delete_tx owner i ac now) commit_tx w0 = (Inr (c, x), w1)" for w0 c x w1
  proof -
    from b obtain u where c: "permanently_delete_tx owner i ac now w0 = (Inr u, w1)" "c"
      by (rule bindA_InrE) (simp add: commit_tx_def ret_run)
    from permanently_delete_tx_Inr [OF c(1)] w0 c(2) show ?thesis by auto
  qed
  from r show ?thesis unfolding permanently_delete_def with_tx_def
  proof (cases rule: in_tx_cases)
    case (no_commit w0 w1 x)
    from eff [OF no_commit(1,3)] show ?thesis by simp
  next
    case (committed w0 w1 x)
    from eff [OF committed(1,3)] dn [OF committed(5)] show ?thesis by blast
  next
    case (commit_failed w0 w1 x)
    from commit_failed(5) show ?thesis
    proof
      assume "wdb w' = wdb w1"
      from eff [OF commit_failed(1,3)] dn [OF this] show ?thesis by blast
    qed (use commit_failed(4) in simp)
  qed simp_all
qed

section \<open>Expiry\<close>

definition due_now :: "time \<Rightarrow> message \<Rightarrow> bool" where
  "due_now now m \<longleftrightarrow> msg_lifecycle m = Temporary \<and> trashed_at m = None
     \<and> (case expires_at m of None \<Rightarrow> False | Some t \<Rightarrow> t \<le> now)"

definition expired_row :: "time \<Rightarrow> time \<Rightarrow> message \<Rightarrow> message" where
  "expired_row now purge m = m\<lparr>trashed_at := Some now, purge_at := Some purge, version := version m + 1, updated_at := now\<rparr>"

lemma due_temporary_due_now:
  "due_temporary now lim d = take lim (sort_key (\<lambda>m. (the (expires_at m), msg_id m)) (filter (due_now now) (messages d)))"
  by (simp add: due_temporary_def due_now_def [abs_def])

lemma due_left:
  assumes ok: "messages_ok d"
  shows "filter (due_now now) (sql_update (\<lambda>m. msg_id m \<in> msg_id ` set (due_temporary now lim d)) (expired_row now purge) (messages d))
    = filter (\<lambda>m. m \<notin> set (due_temporary now lim d)) (filter (due_now now) (messages d))"
proof -
  let ?T = "due_temporary now lim d"
  have dist: "distinct (map msg_id (messages d))" using ok by (simp add: messages_ok_def)
  have mem: "msg_id m \<in> msg_id ` set ?T \<longleftrightarrow> m \<in> set ?T" if "m \<in> set (messages d)" for m
    using that by_key_distinct [OF dist that] due_temporary_sub [of now lim d] by (auto simp: image_iff)
  have "sql_update (\<lambda>m. msg_id m \<in> msg_id ` set ?T) (expired_row now purge) (messages d)
    = map (\<lambda>m. if m \<in> set ?T then expired_row now purge m else m) (messages d)"
    unfolding sql_update_def by (rule map_cong [OF refl]) (simp add: mem)
  moreover have "filter (due_now now) (map (\<lambda>m. if m \<in> T then expired_row now purge m else m) ms)
    = filter (\<lambda>m. m \<notin> T) (filter (due_now now) ms)" for T ms
    by (induction ms) (simp_all add: due_now_def expired_row_def)
  ultimately show ?thesis by simp
qed

lemma due_left_length:
  assumes ok: "messages_ok d"
  shows "length (filter (\<lambda>m. m \<notin> set (due_temporary now lim d)) (filter (due_now now) (messages d)))
    = length (filter (due_now now) (messages d)) - lim"
proof -
  let ?D = "filter (due_now now) (messages d)" and ?T = "due_temporary now lim d"
  have "distinct (messages d)" using ok by (simp add: messages_ok_def distinct_map)
  then have D: "distinct ?D" by simp
  then have T: "distinct ?T" by (simp add: due_temporary_due_now)
  have sub: "set ?T \<subseteq> set ?D" by (auto simp: due_temporary_due_now dest: in_set_takeD)
  have "length (filter (\<lambda>m. m \<notin> set ?T) ?D) = card (set ?D - set ?T)"
  proof -
    have "distinct (filter (\<lambda>m. m \<notin> set ?T) ?D)" using D by (rule distinct_filter)
    moreover have "set (filter (\<lambda>m. m \<notin> set ?T) ?D) = set ?D - set ?T" by auto
    ultimately show ?thesis by (metis distinct_card)
  qed
  also have "\<dots> = length ?D - length ?T"
    using card_Diff_subset [OF _ sub] distinct_card [OF D] distinct_card [OF T] by (simp del: set_filter)
  also have "\<dots> = length ?D - lim" by (simp add: due_temporary_due_now)
  finally show ?thesis .
qed

text \<open>A run of the expiry trashes exactly the due temporary messages, oldest first and at most a batch of
  them, with the purge time of the settings; no other message changes, and the number of due messages goes down by
  the number reported, so repeated runs leave none.\<close>

theorem expiry_makes_progress:
  assumes q: "quiet w" and ok: "messages_ok (wdb w)" and b: "1 \<le> batch" "batch \<le> 500"
    and v: "\<forall>m\<in>set (messages (wdb w)). in_int64 (version m + 1)"
  shows "\<exists>n w'. expire_due_temporary batch now w = (Inr n, w')
    \<and> n = min (nat batch) (length (filter (due_now now) (messages (wdb w))))
    \<and> length (filter (due_now now) (messages (wdb w'))) = length (filter (due_now now) (messages (wdb w))) - n
    \<and> messages (wdb w') = map (\<lambda>m. if m \<in> set (due_temporary now (nat batch) (wdb w))
        then expired_row now (now + trash_ttl (wdb w)) m else m) (messages (wdb w))
    \<and> (\<forall>m\<in>set (due_temporary now (nat batch) (wdb w)). due_now now m
        \<and> (\<forall>m'\<in>set (filter (due_now now) (messages (wdb w'))). the (expires_at m) \<le> the (expires_at m')))"
proof -
  let ?T = "due_temporary now (nat batch) (wdb w)" and ?D = "filter (due_now now) (messages (wdb w))"
  let ?p = "now + trash_ttl (wdb w)"
  let ?ms = "sql_update (\<lambda>m. msg_id m \<in> msg_id ` set ?T) (expired_row now ?p) (messages (wdb w))"
  have T: "?T = take (nat batch) (sort_key (\<lambda>m. (the (expires_at m), msg_id m)) ?D)" by (rule due_temporary_due_now)
  have len: "length ?T = min (nat batch) (length ?D)" unfolding T by simp
  have inr: "\<not> list_ex (\<lambda>m. \<not> in_int64 (version m + 1)) ?T"
    using v due_temporary_sub [of now "nat batch" "wdb w"] by (auto simp: list_ex_iff)
  then have er: "expire_rows now ?p (nat batch) (wdb w) = (Some (length ?T), (wdb w)\<lparr>messages := ?ms\<rparr>)"
    by (simp add: expire_rows_def Let_def expired_row_def [abs_def])
  have run: "expire_due_temporary batch now w = (Inr (length ?T), w\<lparr>wdb := (wdb w)\<lparr>messages := ?ms\<rparr>\<rparr>)"
    using b q er by (simp add: expire_due_temporary_def with_tx_def in_tx_quiet bindA_run message_settings_def query_quiet
      trash_ttl_def exec_quiet ret_run commit_tx_def pop_fault_def)
  have left: "filter (due_now now) ?ms = filter (\<lambda>m. m \<notin> set ?T) ?D" by (rule due_left [OF ok])
  have map: "?ms = map (\<lambda>m. if m \<in> set ?T then expired_row now ?p m else m) (messages (wdb w))"
  proof -
    have dist: "distinct (map msg_id (messages (wdb w)))" using ok by (simp add: messages_ok_def)
    have "msg_id m \<in> msg_id ` set ?T \<longleftrightarrow> m \<in> set ?T" if "m \<in> set (messages (wdb w))" for m
      using that by_key_distinct [OF dist that] due_temporary_sub [of now "nat batch" "wdb w"]
      by (auto simp: image_iff)
    then show ?thesis unfolding sql_update_def by (intro map_cong) simp_all
  qed
  have old: "due_now now m \<and> (\<forall>m'\<in>set (filter (due_now now) ?ms). the (expires_at m) \<le> the (expires_at m'))"
    if m: "m \<in> set ?T" for m
  proof
    let ?s = "sort_key (\<lambda>m. (the (expires_at m), msg_id m)) ?D"
    show "due_now now m" using m unfolding T by (auto dest!: in_set_takeD)
    show "\<forall>m'\<in>set (filter (due_now now) ?ms). the (expires_at m) \<le> the (expires_at m')"
    proof
      fix m' assume "m' \<in> set (filter (due_now now) ?ms)"
      then have "m' \<in> set ?s" "m' \<notin> set (take (nat batch) ?s)" unfolding left T [symmetric] by auto
      then have "m' \<in> set (drop (nat batch) ?s)" by (metis append_take_drop_id Un_iff set_append)
      moreover have "sorted (map (\<lambda>m. (the (expires_at m), msg_id m)) (take (nat batch) ?s @ drop (nat batch) ?s))"
        unfolding append_take_drop_id by simp
      ultimately have "(the (expires_at m), msg_id m) \<le> (the (expires_at m'), msg_id m')"
        using m unfolding T map_append sorted_append by (auto simp del: append_take_drop_id)
      then show "the (expires_at m) \<le> the (expires_at m')" by auto
    qed
  qed
  have "length (filter (due_now now) ?ms) = length ?D - length ?T"
    using due_left_length [OF ok, of now "nat batch"] len unfolding left
    by (simp add: min_def del: filter_filter)
  with run len map old show ?thesis
    by (intro exI [of _ "length ?T"] exI [of _ "w\<lparr>wdb := (wdb w)\<lparr>messages := ?ms\<rparr>\<rparr>"] conjI) simp_all
qed


section \<open>Examples\<close>

definition sample_message :: message where
  "sample_message = \<lparr>msg_id = 7, owner_id = 1, title = None, body_plaintext = Some ''hello'', body_ciphertext = None,
     body_nonce = None, body_encryption_version = None, body_format = ''TEXT'', detected_type = None,
     detected_language = None, sensitive = False, msg_lifecycle = Temporary, favorite = False, expires_at = Some 100,
     trashed_at = None, purge_at = None, source_user_id = None, source_message_id = None, created_device_id = Some 3,
     version = 1, created_at = 0, updated_at = 0\<rparr>"

definition sample_world :: world where
  "sample_world = process_on (empty_db\<lparr>messages := [sample_message]\<rparr>)"

definition trashed_world :: world where
  "trashed_world = (process_on (empty_db\<lparr>messages := [sample_message\<lparr>trashed_at := Some 5, purge_at := Some 9\<rparr>],
     message_tags := [(7, 4), (8, 4)]\<rparr>))\<lparr>ids := [Some 33]\<rparr>"

definition plain_world :: world where
  "plain_world = process_on (empty_db\<lparr>messages := [sample_message\<lparr>body_plaintext := None\<rparr>]\<rparr>)"

text \<open>A cipher that binds the nonce and the additional data to the text.\<close>

definition sample_cipher :: body_cipher where
  "sample_cipher = \<lparr>seal = (\<lambda>n p a. n @ a @ p), unseal = (\<lambda>n t a.
     if take (length n + length a) t = n @ a then Some (drop (length n + length a) t) else None)\<rparr>"

lemma sample_cipher_ok: "cipher_ok sample_cipher"
  by (simp add: cipher_ok_def sample_cipher_def)

lemma messages_ok_code [code]:
  "messages_ok d \<longleftrightarrow> distinct (map msg_id (messages d)) \<and> list_all message_checks (messages d) \<and> distinct (message_tags d)"
  by (simp add: messages_ok_def list_all_iff)

lemma sample_ok: "messages_ok (wdb sample_world)" "messages_ok (wdb trashed_world)" "messages_ok (wdb plain_world)"
  by code_simp+

lemma sample_owned: "owned_message 1 7 (wdb sample_world) = Some sample_message"
  "owned_message 1 7 (wdb plain_world) = Some (sample_message\<lparr>body_plaintext := None\<rparr>)"
  by (simp_all add: sample_world_def plain_world_def owned_message_def by_key_def sample_message_def)

lemma sample_quiet: "quiet sample_world" "quiet plain_world" "quiet trashed_world"
  by (simp_all add: sample_world_def plain_world_def trashed_world_def)

abbreviation trash_run :: "(msg_err + message \<times> tag list) \<times> world" where
  "trash_run \<equiv> run_op sample_cipher None 1 7 1 50 TrashOp sample_world"

lemma trash_run_changes: "map version (messages (wdb (snd trash_run))) = [2]"
  "map version (messages (wdb sample_world)) = [1]"
  by code_simp+

theorem operation_advances_one_message_witness:
  "\<exists>m'. owned_message 1 7 (wdb (snd trash_run)) = Some m' \<and> version m' = 2 \<and> updated_at m' = 50"
proof -
  have "wdb (snd trash_run) \<noteq> wdb sample_world" using trash_run_changes by auto
  with operation_advances_one_message [OF sample_ok(1), of sample_cipher None 1 7 1 50 TrashOp "fst trash_run" "snd trash_run"]
  show ?thesis by auto
qed

theorem no_lost_update_witness:
  "wdb (snd (run_op sample_cipher None 1 7 1 60 PermanentOp (snd trash_run))) = wdb (snd trash_run)"
proof -
  have "wdb (snd trash_run) \<noteq> wdb sample_world" using trash_run_changes by auto
  with no_lost_update [OF sample_ok(1), of sample_cipher None 1 7 1 50 TrashOp "fst trash_run" "snd trash_run" "snd trash_run"
    sample_cipher None 60 PermanentOp]
  show ?thesis by (metis prod.collapse)
qed

lemma failing_random_source: "fst (run_op sample_cipher None 1 7 1 50 (SensitiveOp True) sample_world) = Inl MsgErrCrypto"
  by code_simp


lemma sample_version: "version sample_message = 1"
  by (simp add: sample_message_def)

lemma sample_versions: "version sample_message + 1 = 2" "version sample_message + 2 = 3"
  by (simp_all add: sample_message_def)

lemma sample_bodies: "valid_body ''hello''" "valid_body ''x''"
proof -
  have "utf8_valid ''hello''" "utf8_valid ''x''" by code_simp+
  then show "valid_body ''hello''" "valid_body ''x''" by (simp_all add: valid_body_def max_body_bytes_def)
qed

theorem sensitive_round_trip_witness:
  "\<exists>w1 x1 w2 x2 m1. run_op sample_cipher (Some ''abcdefghijkl'') 1 7 1 50 (SensitiveOp True) sample_world = (Inr x1, w1)
    \<and> owned_message 1 7 (wdb w1) = Some m1 \<and> sensitive m1 \<and> body_plaintext m1 = None
    \<and> reveal sample_cipher 1 7 w1 = (Inr (''hello'', 2), w1)
    \<and> run_op sample_cipher None 1 7 2 60 (SensitiveOp False) w1 = (Inr x2, w2)
    \<and> owned_message 1 7 (wdb w2) = Some (sample_message\<lparr>version := 3, updated_at := 60\<rparr>)"
proof -
  have f: "length ''abcdefghijkl'' = 12" "\<not> sensitive sample_message" "trashed_at sample_message = None"
    "body_plaintext sample_message = Some ''hello''" "in_int64 (version sample_message + 2)"
    by (simp_all add: sample_message_def in_int64_def)
  note b = sample_bodies(1)
  show ?thesis
    using sensitive_round_trip [OF sample_cipher_ok f(1) sample_quiet(1) sample_ok(1) sample_owned(1) f(2-4) b f(5), of 50 None 60]
    unfolding sample_versions unfolding sample_version .
qed

theorem trash_restore_round_trip_witness:
  "\<exists>w1 x1 w2 x2. run_op sample_cipher None 1 7 1 50 TrashOp sample_world = (Inr x1, w1)
    \<and> run_op sample_cipher None 1 7 2 200 RestoreOp w1 = (Inr x2, w2)
    \<and> owned_message 1 7 (wdb w2) = Some (sample_message\<lparr>version := 3, updated_at := 200,
        expires_at := Some (200 + temporary_ttl (wdb sample_world))\<rparr>)"
proof -
  have "trashed_at sample_message = None" "in_int64 3"
    by (simp_all add: sample_message_def in_int64_def)
  moreover have "map_option (\<lambda>t. if t \<le> 200 then 200 + ttl else t) (expires_at sample_message) = Some (200 + ttl)" for ttl
    by (simp add: sample_message_def)
  ultimately show ?thesis
    using trash_restore_round_trip [OF sample_quiet(1) sample_ok(1) sample_owned(1), of sample_cipher None 50 200,
      unfolded sample_versions, unfolded sample_version] by (simp only: simp_thms) blast
qed

theorem edit_drops_body_of_attachment_message_witness:
  "edit_message 1 7 \<lparr>edit_expected = 1, edit_title = None, edit_body = Some ''x'', edit_format = None,
      edit_clear = False, edit_type = None, edit_language = None\<rparr> 50 plain_world
    = (Inr (sample_message\<lparr>body_plaintext := None\<rparr>, tag_list 7 (wdb plain_world)), plain_world)"
proof -
  let ?m = "sample_message\<lparr>body_plaintext := None\<rparr>"
  note sample_bodies(2)
  moreover have v: "version ?m = 1" by (simp add: sample_message_def)
  moreover have f: "body_plaintext ?m = None" "\<not> sensitive ?m" "trashed_at ?m = None" "in_int64 (version ?m + 1)"
    by (simp_all add: sample_message_def in_int64_def)
  ultimately show ?thesis
    using edit_drops_body_of_attachment_message [OF sample_quiet(2) sample_ok(3) sample_owned(2) f(1-3) _ f(4), of "''x''" 50]
    unfolding v by (simp only: simp_thms)
qed

definition sample_context :: audit_context where
  "sample_context = \<lparr>ac_device = 3, ac_session = 5, ac_trace = ''t'', ac_ip = '''', ac_agent = ''a''\<rparr>"

theorem permanent_deletion_is_atomic_witness:
  "message_tags (wdb (snd (permanently_delete 1 7 sample_context 50 trashed_world))) = [(8, 4)]"
proof -
  let ?r = "permanently_delete 1 7 sample_context 50 trashed_world"
  have "fst ?r = Inr ()" by code_simp
  with permanent_deletion_is_atomic [OF sample_ok(2), of 1 7 sample_context 50 "fst ?r" "snd ?r"]
  show ?thesis by (auto simp: trashed_world_def)
qed

theorem expiry_makes_progress_witness:
  "\<exists>w'. expire_due_temporary 10 120 sample_world = (Inr 1, w') \<and> filter (due_now 120) (messages (wdb w')) = []"
proof -
  have v: "\<forall>m\<in>set (messages (wdb sample_world)). in_int64 (version m + 1)"
    by (simp add: sample_world_def sample_message_def in_int64_def)
  have "length (filter (due_now 120) (messages (wdb sample_world))) = 1"
    by (simp add: sample_world_def sample_message_def due_now_def)
  with expiry_makes_progress [OF sample_quiet(1) sample_ok(1) _ _ v, of 10 120] show ?thesis by auto
qed


section \<open>Previews\<close>

lemma is_seq_cont: "is_seq r \<Longrightarrow> 0 < k \<Longrightarrow> k < length r \<Longrightarrow> cont_byte (r ! k)"
  by (erule seq_shapes) (auto simp: less_Suc_eq nth_Cons split: nat.splits)

lemma is_seq_length4: "is_seq r \<Longrightarrow> length r \<le> 4"
  by (erule seq_shapes) simp_all

text \<open>A string of runes can be cut before any byte that does not continue a rune.\<close>

lemma take_at_rune:
  assumes "\<forall>r\<in>set rs. is_seq r" "k \<le> length (concat rs)" "k < length (concat rs) \<longrightarrow> \<not> cont_byte (concat rs ! k)"
  shows "utf8_valid (take k (concat rs))"
  using assms
proof (induction rs arbitrary: k)
  case (Cons r rs)
  then have r: "is_seq r" by simp
  show ?case
  proof (cases "k < length r")
    case True
    have "k = 0"
    proof (rule ccontr)
      assume "k \<noteq> 0"
      with r True have "cont_byte (r ! k)" by (intro is_seq_cont) simp_all
      with True Cons.prems(3) show False by (simp add: nth_append)
    qed
    then show ?thesis by simp
  next
    case False
    then have "utf8_valid (take (k - length r) (concat rs))"
      using Cons.prems by (intro Cons.IH) (auto simp: nth_append)
    with False r show ?thesis by (simp add: utf8_valid_Cons_seq)
  qed
qed simp

lemma preview_cut_boundary: "preview_cut b n = 0 \<or> \<not> cont_byte (b ! preview_cut b n)"
  by (induction n) auto

lemma preview_cut_skipped: "preview_cut b n < k \<Longrightarrow> k \<le> n \<Longrightarrow> cont_byte (b ! k)"
proof (induction n)
  case (Suc n)
  then show ?case by (cases "k = Suc n") (auto split: if_splits)
qed simp

text \<open>In a string of runes four bytes in a row never all continue a rune.\<close>

lemma rune_near:
  assumes "\<forall>r\<in>set rs. is_seq r" "k + 3 < length (concat rs)"
  shows "\<exists>j. k \<le> j \<and> j \<le> k + 3 \<and> \<not> cont_byte (concat rs ! j)"
  using assms
proof (induction rs arbitrary: k)
  case (Cons r rs)
  then have r: "is_seq r" by simp
  then have h: "\<not> cont_byte (r ! 0)"
    by (rule seq_shapes) (auto simp: rune_start_def cont_byte_def)
  show ?case
  proof (cases "k < length r")
    case True
    show ?thesis
    proof (cases "k = 0")
      case True
      with h r \<open>k < length r\<close> show ?thesis by (intro exI [of _ 0]) (simp add: nth_append)
    next
      case False
      with is_seq_length4 [OF r] True have len: "length r \<le> k + 3" "k \<le> length r" by simp_all
      have "length (concat (r # rs)) = length r + length (concat rs)" by simp
      with Cons.prems(2) len have "0 < length (concat rs)" by linarith
      then obtain r2 rs2 where rs: "concat rs = r2 @ concat rs2" "is_seq r2"
        using Cons.prems(1) by (cases rs) (auto simp: is_seq_def)
      then have "\<not> cont_byte (r2 ! 0)" "r2 \<noteq> []"
        using seq_shapes [OF rs(2), of "\<not> cont_byte (r2 ! 0)"] by (auto simp: rune_start_def cont_byte_def is_seq_def)
      then have "\<not> cont_byte ((r @ concat rs) ! length r)" using rs by (simp add: nth_append)
      with len show ?thesis by (intro exI [of _ "length r"]) simp
    qed
  next
    case False
    with Cons.prems have "\<forall>r\<in>set rs. is_seq r" "k - length r + 3 < length (concat rs)" by simp_all
    from Cons.IH [OF this] obtain j where "k - length r \<le> j" "j \<le> k - length r + 3" "\<not> cont_byte (concat rs ! j)"
      by blast
    with False show ?thesis by (intro exI [of _ "length r + j"]) (auto simp: nth_append)
  qed
qed simp

text \<open>The preview of a valid body is valid UTF-8 again: a prefix of at most 16 KiB, the body itself
  when it fits, and otherwise at most three bytes short of the limit.\<close>

theorem preview_is_valid:
  assumes "utf8_valid body"
  shows "utf8_valid (fst (preview body)) \<and> prefix (fst (preview body)) body
    \<and> length (fst (preview body)) \<le> max_preview_bytes
    \<and> (snd (preview body) \<longleftrightarrow> max_preview_bytes < length body)
    \<and> (if snd (preview body) then max_preview_bytes \<le> length (fst (preview body)) + 3 else fst (preview body) = body)"
proof (cases "length body \<le> max_preview_bytes")
  case True
  with assms show ?thesis by (simp add: preview_def)
next
  case False
  let ?k = "preview_cut body max_preview_bytes"
  have k: "?k \<le> max_preview_bytes" by (rule preview_cut_le)
  obtain rs where rs: "body = concat rs" "\<forall>r\<in>set rs. is_seq r"
    using assms utf8_valid_runes by blast
  have "utf8_valid (take ?k body)"
  proof (cases "?k = 0")
    case False
    then have "\<not> cont_byte (body ! ?k)" using preview_cut_boundary [of body max_preview_bytes] by simp
    with take_at_rune [OF rs(2), of ?k] k \<open>\<not> length body \<le> max_preview_bytes\<close> rs(1) show ?thesis by simp
  qed simp
  moreover have "max_preview_bytes \<le> ?k + 3"
  proof (rule ccontr)
    assume c: "\<not> max_preview_bytes \<le> ?k + 3"
    then obtain j where "Suc ?k \<le> j" "j \<le> Suc ?k + 3" "\<not> cont_byte (body ! j)"
      using rune_near [OF rs(2), of "Suc ?k"] rs(1) False by auto
    moreover from this c have "cont_byte (body ! j)" using preview_cut_skipped [of body max_preview_bytes j] by simp
    ultimately show False by simp
  qed
  ultimately show ?thesis using False k by (simp add: preview_def take_is_prefix)
qed

theorem preview_is_valid_witness: "utf8_valid (fst (preview (CHR 0xC3 # CHR 0xA4 # ''abc'')))"
proof -
  have "utf8_valid (CHR 0xC3 # CHR 0xA4 # ''abc'')" by code_simp
  from preview_is_valid [OF this] show ?thesis by blast
qed

end
