(* ===== verification/Attachments.thy ===== *)
theory Attachments
  imports Messages
begin

text \<open>
  Attachments of messages (\<^verbatim>\<open>internal/messages/attachments.go\<close>): binding finished uploads to a message,
  which uses each upload up; copying the attachments of a forwarded message; adding and removing
  attachments. Binding and copying also ensure the thumbnail job of each image.
\<close>

section \<open>Binding uploads\<close>

definition uploads_for_binding :: "uuid \<Rightarrow> uuid list \<Rightarrow> db \<Rightarrow> (upload \<times> file_object) list" where
  "uploads_for_binding owner is d = sort_key (\<lambda>(u, f). us_id u)
     (concat (map (\<lambda>u. map (\<lambda>f. (u, f)) (filter (\<lambda>f. file_object_id u = Some (fo_id f)) (file_objects d)))
       (filter (\<lambda>u. us_user u = owner \<and> us_id u \<in> set is) (uploads d))))"

text \<open>The first row that cannot be bound decides the error.\<close>

fun binding_error :: "(upload \<times> file_object) list \<Rightarrow> msg_err option" where
  "binding_error [] = None"
| "binding_error ((u, f) # rows) =
     (if consumed_at u \<noteq> None then Some MsgErrUploadAlreadyConsumed
      else if us_status u \<noteq> Completed \<or> fo_status f \<noteq> ObjReady \<or> fo_id f = uuid_nil then Some MsgErrValidation
      else binding_error rows)"

definition insert_attachment :: "attachment \<Rightarrow> db \<Rightarrow> bool \<times> db" where
  "insert_attachment a d = (if sql_exists (\<lambda>x. ma_id x = ma_id a) (attachments d) then (False, d)
     else (True, d\<lparr>attachments := attachments d @ [a]\<rparr>))"

definition consume_upload :: "uuid \<Rightarrow> uuid \<Rightarrow> time \<Rightarrow> db \<Rightarrow> nat \<times> db" where
  "consume_upload u i now d =
     (let p = (\<lambda>r. us_id r = u \<and> consumed_at r = None \<and> us_status r = Completed) in
      (sql_count p (uploads d),
       d\<lparr>uploads := sql_update p (\<lambda>r. r\<lparr>consumed_at := Some now, consumed_message_id := Some i, us_updated_at := now\<rparr>)
          (uploads d)\<rparr>))"

definition attach_file :: "uuid \<Rightarrow> uuid \<Rightarrow> string \<Rightarrow> string option \<Rightarrow> int \<Rightarrow> string \<Rightarrow> time \<Rightarrow> (world, msg_err, bool) act" where
  "attach_file i f name mime order detected now =
     bindA (new_id MsgIO) (\<lambda>a.
     bindA (exec MsgIO (insert_attachment \<lparr>ma_id = a, ma_message = i, ma_file = f, ma_filename = name,
       ma_client_mime = mime, display_order = order\<rparr>)) (\<lambda>ok.
     if \<not> ok then throw MsgIO
     else mapErr (\<lambda>_. MsgIO) (ensure_thumbnail_job_tx f detected now)))"

definition bind_upload :: "uuid \<Rightarrow> upload \<times> file_object \<Rightarrow> int \<Rightarrow> time \<Rightarrow> (world, msg_err, bool) act" where
  "bind_upload i uf order now =
     bindA (attach_file i (fo_id (snd uf)) (original_filename (fst uf)) (client_mime (fst uf)) order
       (detected_mime (snd uf)) now) (\<lambda>job.
     bindA (exec MsgIO (consume_upload (us_id (fst uf)) i now)) (\<lambda>n.
     if n \<noteq> 1 then throw MsgErrUploadAlreadyConsumed else ret job))"

fun bind_each :: "uuid \<Rightarrow> (uuid \<Rightarrow> (upload \<times> file_object) option) \<Rightarrow> uuid list \<Rightarrow> int \<Rightarrow> time \<Rightarrow> (world, msg_err, bool) act" where
  "bind_each i rows [] order now = ret False"
| "bind_each i rows (u # us) order now =
     bindA (case rows u of None \<Rightarrow> throw MsgIO | Some uf \<Rightarrow> bind_upload i uf order now) (\<lambda>job.
     bindA (bind_each i rows us (order + 1) now) (\<lambda>jobs. ret (job \<or> jobs)))"

definition bind_uploads :: "uuid \<Rightarrow> uuid \<Rightarrow> uuid list \<Rightarrow> int \<Rightarrow> time \<Rightarrow> (world, msg_err, bool) act" where
  "bind_uploads owner i us start now =
     (if us = [] then ret False
      else if uuid_nil \<in> set us \<or> \<not> distinct us then throw MsgErrValidation
      else bindA (query MsgIO (uploads_for_binding owner us)) (\<lambda>rows.
        (case binding_error rows of
           Some e \<Rightarrow> throw e
         | None \<Rightarrow>
             if card (set (map (us_id \<circ> fst) rows)) \<noteq> length us then throw MsgErrValidation
             else bind_each i (\<lambda>u. by_key (us_id \<circ> fst) u (rev rows)) us start now)))"

section \<open>Copying attachments\<close>

definition copyable :: "uuid \<Rightarrow> db \<Rightarrow> (attachment \<times> file_object) list" where
  "copyable src d = filter (\<lambda>(a, f). fo_status f = ObjReady) (attachment_list src d)"

fun copy_each :: "uuid \<Rightarrow> (attachment \<times> file_object) list \<Rightarrow> time \<Rightarrow> (world, msg_err, bool) act" where
  "copy_each dst [] now = ret False"
| "copy_each dst ((a, f) # items) now =
     bindA (attach_file dst (ma_file a) (ma_filename a) (ma_client_mime a) (display_order a) (detected_mime f) now) (\<lambda>job.
     bindA (copy_each dst items now) (\<lambda>jobs. ret (job \<or> jobs)))"

definition copy_attachments :: "uuid \<Rightarrow> uuid \<Rightarrow> time \<Rightarrow> (world, msg_err, bool) act" where
  "copy_attachments src dst now =
     bindA (query MsgIO (attachment_count src)) (\<lambda>total.
     bindA (query MsgIO (copyable src)) (\<lambda>items.
     bindA (copy_each dst items now) (\<lambda>job.
     bindA (query MsgIO (attachment_count dst)) (\<lambda>copied.
     if copied \<noteq> total then throw MsgErrValidation else ret job))))"

section \<open>Adding and removing\<close>

text \<open>Waking the thumbnail worker after a commit that created a job.\<close>

definition signal_jobs :: "bool \<Rightarrow> (world, msg_err, unit) act" where
  "signal_jobs job = modifyA (\<lambda>w. if job then w\<lparr>wake := True\<rparr> else w)"

text \<open>\<open>COALESCE(MAX(display_order)+1,0)\<close>\<close>

definition next_order :: "uuid \<Rightarrow> db \<Rightarrow> int" where
  "next_order i d = (case map display_order (filter (\<lambda>a. ma_message a = i) (attachments d)) of
     [] \<Rightarrow> 0 | os \<Rightarrow> Max (set os) + 1)"

definition add_attachments_tx :: "uuid \<Rightarrow> uuid \<Rightarrow> int \<Rightarrow> uuid list \<Rightarrow> time \<Rightarrow> (world, msg_err, message \<times> bool) act" where
  "add_attachments_tx owner i expected us now =
     bindA (load_owned owner i) (\<lambda>m.
     if version m \<noteq> expected then throw MsgErrVersionConflict
     else if trashed_at m \<noteq> None then throw MsgErrTrashed
     else bindA (query MsgIO (next_order i)) (\<lambda>start.
       bindA (bind_uploads owner i us start now) (\<lambda>job.
       bindA (save_message (next_version now m)) (\<lambda>_. ret (next_version now m, job)))))"

definition add_attachments :: "uuid \<Rightarrow> uuid \<Rightarrow> int \<Rightarrow> uuid list \<Rightarrow> time \<Rightarrow> (world, msg_err, message_view) act" where
  "add_attachments owner i expected us now =
     (if expected < 1 \<or> us = [] then throw MsgErrValidation
      else bindA (with_tx (add_attachments_tx owner i expected us now)) (\<lambda>(m, job).
        bindA (signal_jobs job) (\<lambda>_. detail owner (msg_id m))))"

definition delete_attachment :: "uuid \<Rightarrow> uuid \<Rightarrow> db \<Rightarrow> nat \<times> db" where
  "delete_attachment a i d = (let p = (\<lambda>x. ma_id x = a \<and> ma_message x = i) in
     (sql_count p (attachments d), d\<lparr>attachments := sql_delete p (attachments d)\<rparr>))"

definition no_body :: "message \<Rightarrow> bool" where
  "no_body m \<longleftrightarrow> body_plaintext m = None \<and> (case body_ciphertext m of None \<Rightarrow> True | Some c \<Rightarrow> c = [])"

definition remove_attachment_tx :: "uuid \<Rightarrow> uuid \<Rightarrow> uuid \<Rightarrow> int \<Rightarrow> time \<Rightarrow> (world, msg_err, unit) act" where
  "remove_attachment_tx owner i a expected now =
     bindA (load_owned owner i) (\<lambda>m.
     if version m \<noteq> expected then throw MsgErrVersionConflict
     else if trashed_at m \<noteq> None then throw MsgErrTrashed
     else bindA (query MsgIO (attachment_count i)) (\<lambda>n.
       if no_body m \<and> n \<le> 1 then throw MsgErrContentRequired
       else bindA (exec MsgIO (delete_attachment a i)) (\<lambda>k.
         if k \<noteq> 1 then throw MsgErrNotFound else save_message (next_version now m))))"

definition remove_attachment :: "uuid \<Rightarrow> uuid \<Rightarrow> uuid \<Rightarrow> int \<Rightarrow> time \<Rightarrow> (world, msg_err, message_view) act" where
  "remove_attachment owner i a expected now =
     (if expected < 1 then throw MsgErrValidation
      else bindA (with_tx (remove_attachment_tx owner i a expected now)) (\<lambda>_. detail owner i))"


section \<open>What binding and copying touch\<close>

text \<open>Conditions that do not depend on attachments, jobs and uploads survive.\<close>

lemma keeps_attach_file:
  assumes a: "\<And>d x. P d \<Longrightarrow> P (d\<lparr>attachments := x\<rparr>)" and j: "\<And>d x. P d \<Longrightarrow> P (d\<lparr>jobs := x\<rparr>)"
  shows "keeps (on_db P) (attach_file i f name mime order detected now)"
  unfolding attach_file_def ensure_thumbnail_job_tx_def
  by (intro keeps_intro) (auto simp: insert_attachment_def insert_thumbnail_job_def a j)

lemma keeps_bind_each:
  assumes "\<And>d x. P d \<Longrightarrow> P (d\<lparr>attachments := x\<rparr>)" "\<And>d x. P d \<Longrightarrow> P (d\<lparr>jobs := x\<rparr>)"
    and "\<And>d x. P d \<Longrightarrow> P (d\<lparr>uploads := x\<rparr>)"
  shows "keeps (on_db P) (bind_each i rows us order now)"
proof (induction us arbitrary: order)
  case (Cons u us)
  have "keeps (on_db P) (bind_upload i uf order now)" for uf
    unfolding bind_upload_def
    by (intro keeps_intro keeps_attach_file) (auto simp: consume_upload_def Let_def assms)
  with Cons show ?case by (simp del: bindA_def) (intro keeps_intro; simp)
qed (simp add: keeps_ret)

lemma keeps_bind_uploads:
  assumes "\<And>d x. P d \<Longrightarrow> P (d\<lparr>attachments := x\<rparr>)" "\<And>d x. P d \<Longrightarrow> P (d\<lparr>jobs := x\<rparr>)"
    and "\<And>d x. P d \<Longrightarrow> P (d\<lparr>uploads := x\<rparr>)"
  shows "keeps (on_db P) (bind_uploads owner i us start now)"
  unfolding bind_uploads_def by (intro keeps_intro keeps_bind_each assms)

lemma keeps_copy_each:
  assumes "\<And>d x. P d \<Longrightarrow> P (d\<lparr>attachments := x\<rparr>)" "\<And>d x. P d \<Longrightarrow> P (d\<lparr>jobs := x\<rparr>)"
  shows "keeps (on_db P) (copy_each dst items now)"
proof (induction items)
  case (Cons it items)
  obtain a f where it: "it = (a, f)" by fastforce
  show ?case unfolding it copy_each.simps by (intro keeps_intro keeps_attach_file Cons.IH assms)
qed (simp add: keeps_ret)

lemma keeps_copy_attachments:
  assumes "\<And>d x. P d \<Longrightarrow> P (d\<lparr>attachments := x\<rparr>)" "\<And>d x. P d \<Longrightarrow> P (d\<lparr>jobs := x\<rparr>)"
  shows "keeps (on_db P) (copy_attachments src dst now)"
  unfolding copy_attachments_def by (intro keeps_intro keeps_copy_each assms)

section \<open>The attachments a successful call adds\<close>

definition attachment_of :: "uuid \<Rightarrow> uuid \<Rightarrow> string \<Rightarrow> string option \<Rightarrow> int \<Rightarrow> attachment \<Rightarrow> bool" where
  "attachment_of i f name mime order a \<longleftrightarrow> ma_message a = i \<and> ma_file a = f \<and> ma_filename a = name
     \<and> ma_client_mime a = mime \<and> display_order a = order"

definition only_jobs :: "db \<Rightarrow> db \<Rightarrow> bool" where
  "only_jobs d d' \<longleftrightarrow> (\<exists>js. d' = d\<lparr>jobs := js\<rparr>)"

lemma only_jobs_refl: "only_jobs d d"
  unfolding only_jobs_def by (rule exI [of _ "jobs d"]) simp

lemma ensure_only_jobs: "keeps (on_db (only_jobs d)) (ensure_thumbnail_job_tx f mime now)"
  unfolding ensure_thumbnail_job_tx_def
  by (intro keeps_intro) (auto simp: insert_thumbnail_job_def only_jobs_def)

lemma mapErr_Inr: "mapErr g m w = (Inr x, w') \<Longrightarrow> m w = (Inr x, w')"
  by (auto simp: mapErr_run split: prod.splits sum.splits)

lemma attach_file_Inr:
  assumes "attach_file i f name mime order detected now w = (Inr job, w')"
  shows "\<exists>a. a \<notin> ma_id ` set (attachments (wdb w)) \<and> only_jobs ((wdb w)\<lparr>attachments := attachments (wdb w) @
    [\<lparr>ma_id = a, ma_message = i, ma_file = f, ma_filename = name, ma_client_mime = mime, display_order = order\<rparr>]\<rparr>) (wdb w')"
proof -
  let ?a = "\<lambda>a. \<lparr>ma_id = a, ma_message = i, ma_file = f, ma_filename = name, ma_client_mime = mime, display_order = order\<rparr>"
  from assms obtain a w1 where a: "new_id MsgIO w = (Inr a, w1)"
    and b: "bindA (exec MsgIO (insert_attachment (?a a))) (\<lambda>ok. if \<not> ok then throw MsgIO
      else mapErr (\<lambda>_. MsgIO) (ensure_thumbnail_job_tx f detected now)) w1 = (Inr job, w')"
    unfolding attach_file_def by (rule bindA_InrE)
  from b obtain ok w2 where i: "exec MsgIO (insert_attachment (?a a)) w1 = (Inr ok, w2)"
    and c: "(if \<not> ok then throw MsgIO else mapErr (\<lambda>_. MsgIO) (ensure_thumbnail_job_tx f detected now)) w2 = (Inr job, w')"
    by (rule bindA_InrE)
  from c have ok: ok by (cases ok) (simp_all add: throw_run)
  with c have "mapErr (\<lambda>_. MsgIO) (ensure_thumbnail_job_tx f detected now) w2 = (Inr job, w')"
    by (simp only: simp_thms if_False)
  note e = mapErr_Inr [OF this]
  have d: "a \<notin> ma_id ` set (attachments (wdb w))"
    "wdb w2 = (wdb w)\<lparr>attachments := attachments (wdb w) @ [?a a]\<rparr>"
    using exec_Inr [OF i] ok new_id_Inr [OF a]
    by (simp_all add: insert_attachment_def sql_exists_iff image_iff split: if_splits) blast
  have "on_db (only_jobs (wdb w2)) w2" by (simp add: on_db_def only_jobs_refl)
  from keepsD [OF ensure_only_jobs this e] d show ?thesis by (auto simp: on_db_def)
qed

text \<open>The uploads a binding uses up.\<close>

definition consumed_by :: "uuid list \<Rightarrow> uuid \<Rightarrow> time \<Rightarrow> upload list \<Rightarrow> upload list" where
  "consumed_by us i now = sql_update (\<lambda>r. us_id r \<in> set us \<and> consumed_at r = None \<and> us_status r = Completed)
     (\<lambda>r. r\<lparr>consumed_at := Some now, consumed_message_id := Some i, us_updated_at := now\<rparr>)"

fun bound :: "uuid \<Rightarrow> (uuid \<Rightarrow> (upload \<times> file_object) option) \<Rightarrow> int \<Rightarrow> uuid list \<Rightarrow> attachment list \<Rightarrow> bool" where
  "bound i rows order [] as \<longleftrightarrow> as = []"
| "bound i rows order (u # us) as \<longleftrightarrow> (case as of [] \<Rightarrow> False | a # as' \<Rightarrow>
     (case rows u of None \<Rightarrow> False | Some (up, f) \<Rightarrow>
        attachment_of i (fo_id f) (original_filename up) (client_mime up) order a)
     \<and> bound i rows (order + 1) us as')"

definition added :: "attachment list \<Rightarrow> db \<Rightarrow> db \<Rightarrow> bool" where
  "added as d d' \<longleftrightarrow> (\<exists>js us. d' = d\<lparr>attachments := attachments d @ as, jobs := js, uploads := us\<rparr>)
     \<and> (distinct (map ma_id (attachments d)) \<longrightarrow> distinct (map ma_id (attachments d @ as)))"

lemma added_attachments: "added as d d' \<Longrightarrow> attachments d' = attachments d @ as"
  by (auto simp: added_def)

lemma bind_upload_Inr:
  assumes "bind_upload i (u, f) order now w = (Inr job, w')"
  shows "\<exists>a. attachment_of i (fo_id f) (original_filename u) (client_mime u) order a \<and> added [a] (wdb w) (wdb w')
    \<and> uploads (wdb w') = consumed_by [us_id u] i now (uploads (wdb w))"
proof -
  from assms obtain j w1 where a: "attach_file i (fo_id f) (original_filename u) (client_mime u) order (detected_mime f) now w = (Inr j, w1)"
    and b: "bindA (exec MsgIO (consume_upload (us_id u) i now)) (\<lambda>n.
     if n \<noteq> 1 then throw MsgErrUploadAlreadyConsumed else ret j) w1 = (Inr job, w')"
    unfolding bind_upload_def fst_conv snd_conv by (rule bindA_InrE)
  from b obtain n w2 where e: "exec MsgIO (consume_upload (us_id u) i now) w1 = (Inr n, w2)" "w' = w2"
    by (rule bindA_InrE) (auto simp: throw_run ret_run split: if_splits)
  from attach_file_Inr [OF a] obtain a js where a: "a \<notin> ma_id ` set (attachments (wdb w))"
    and js: "wdb w1 = (wdb w)\<lparr>attachments := attachments (wdb w) @ [\<lparr>ma_id = a, ma_message = i, ma_file = fo_id f,
       ma_filename = original_filename u, ma_client_mime = client_mime u, display_order = order\<rparr>], jobs := js\<rparr>"
    unfolding only_jobs_def by auto
  have w': "wdb w' = (wdb w1)\<lparr>uploads := consumed_by [us_id u] i now (uploads (wdb w1))\<rparr>"
    using exec_Inr [OF e(1)] e(2) by (simp add: consume_upload_def Let_def consumed_by_def)
  let ?a = "\<lparr>ma_id = a, ma_message = i, ma_file = fo_id f,
       ma_filename = original_filename u, ma_client_mime = client_mime u, display_order = order\<rparr>"
  have "wdb w' = (wdb w)\<lparr>attachments := attachments (wdb w) @ [?a], jobs := js,
    uploads := consumed_by [us_id u] i now (uploads (wdb w))\<rparr>"
    using w' js by simp
  moreover from this have "added [?a] (wdb w) (wdb w')"
    unfolding added_def using a by (intro conjI exI [of _ js] exI [of _ "consumed_by [us_id u] i now (uploads (wdb w))"]) auto
  ultimately show ?thesis by (intro exI [of _ ?a]) (simp add: attachment_of_def)
qed

lemma consumed_by_Cons: "consumed_by us i now (consumed_by [u] i now rs) = consumed_by (u # us) i now rs"
proof -
  have "(let r' = (if us_id r \<in> set [u] \<and> consumed_at r = None \<and> us_status r = Completed
        then r\<lparr>consumed_at := Some now, consumed_message_id := Some i, us_updated_at := now\<rparr> else r)
    in if us_id r' \<in> set us \<and> consumed_at r' = None \<and> us_status r' = Completed
        then r'\<lparr>consumed_at := Some now, consumed_message_id := Some i, us_updated_at := now\<rparr> else r')
    = (if us_id r \<in> set (u # us) \<and> consumed_at r = None \<and> us_status r = Completed
        then r\<lparr>consumed_at := Some now, consumed_message_id := Some i, us_updated_at := now\<rparr> else r)" for r
    by (cases "consumed_at r"; cases "us_status r = Completed"; cases "us_id r = u") simp_all
  then show ?thesis unfolding consumed_by_def sql_update_def map_map comp_def Let_def by (intro map_cong refl)
qed

lemma consumed_by_Nil: "consumed_by [] i now rs = rs"
  by (simp add: consumed_by_def sql_update_def)

lemma added_trans:
  assumes "added as d d'" "added bs d' d''"
  shows "added (as @ bs) d d''"
proof -
  from assms obtain js us js' us' where "d' = d\<lparr>attachments := attachments d @ as, jobs := js, uploads := us\<rparr>"
    "d'' = d'\<lparr>attachments := attachments d' @ bs, jobs := js', uploads := us'\<rparr>"
    unfolding added_def by blast
  then have "d'' = d\<lparr>attachments := attachments d @ (as @ bs), jobs := js', uploads := us'\<rparr>" by simp
  moreover have "distinct (map ma_id (attachments d)) \<Longrightarrow> distinct (map ma_id (attachments d @ (as @ bs)))"
    using assms added_attachments [OF assms(1)] by (simp add: added_def)
  ultimately show ?thesis unfolding added_def by blast
qed

lemma added_Nil: "added [] d d"
  unfolding added_def by (intro conjI exI [of _ "jobs d"] exI [of _ "uploads d"]) simp_all

lemma bind_each_Inr:
  "bind_each i rows us order now w = (Inr job, w') \<Longrightarrow>
   (\<And>u uf. rows u = Some uf \<Longrightarrow> us_id (fst uf) = u) \<Longrightarrow>
   \<exists>as. bound i rows order us as \<and> added as (wdb w) (wdb w') \<and> uploads (wdb w') = consumed_by us i now (uploads (wdb w))"
proof (induction us arbitrary: order w job)
  case Nil
  then have "w' = w" by (simp add: ret_run)
  then show ?case by (intro exI [of _ "[]"]) (simp add: added_Nil consumed_by_Nil)
next
  case (Cons u us)
  from Cons.prems(1) obtain j w1 where a: "(case rows u of None \<Rightarrow> throw MsgIO | Some uf \<Rightarrow> bind_upload i uf order now) w = (Inr j, w1)"
    and b: "bindA (bind_each i rows us (order + 1) now) (\<lambda>jobs. ret (j \<or> jobs)) w1 = (Inr job, w')"
    unfolding bind_each.simps by (rule bindA_InrE)
  from b obtain j2 where b: "bind_each i rows us (order + 1) now w1 = (Inr j2, w')"
    by (rule bindA_InrE) (simp add: ret_run)
  from a obtain up f where r: "rows u = Some (up, f)" and a: "bind_upload i (up, f) order now w = (Inr j, w1)"
    by (cases "rows u") (auto simp: throw_run)
  have id: "us_id up = u" using Cons.prems(2) [OF r] by simp
  from bind_upload_Inr [OF a] obtain x where x: "attachment_of i (fo_id f) (original_filename up) (client_mime up) order x"
    "added [x] (wdb w) (wdb w1)" "uploads (wdb w1) = consumed_by [us_id up] i now (uploads (wdb w))" by blast
  from Cons.IH [OF b Cons.prems(2)] obtain as where as: "bound i rows (order + 1) us as" "added as (wdb w1) (wdb w')"
    "uploads (wdb w') = consumed_by us i now (uploads (wdb w1))" by blast
  have "added (x # as) (wdb w) (wdb w')" using added_trans [OF x(2) as(2)] by simp
  with x r as show ?case by (intro exI [of _ "x # as"]) (simp add: consumed_by_Cons id)
qed


lemma bound_nth:
  "bound i rows order us as \<Longrightarrow> length as = length us \<and> (\<forall>k<length us. \<exists>up f. rows (us ! k) = Some (up, f)
     \<and> attachment_of i (fo_id f) (original_filename up) (client_mime up) (order + int k) (as ! k))"
proof (induction us arbitrary: order as)
  case (Cons u us)
  from Cons.prems obtain a as' up f where a: "as = a # as'" "rows u = Some (up, f)"
    "attachment_of i (fo_id f) (original_filename up) (client_mime up) order a" "bound i rows (order + 1) us as'"
    by (cases as; cases "rows u") auto
  from Cons.IH [OF a(4)] have l: "length as' = length us"
    and n: "k < length us \<Longrightarrow> \<exists>up f. rows (us ! k) = Some (up, f)
     \<and> attachment_of i (fo_id f) (original_filename up) (client_mime up) (order + 1 + int k) (as' ! k)" for k by auto
  have "\<exists>up f. rows ((u # us) ! k) = Some (up, f)
     \<and> attachment_of i (fo_id f) (original_filename up) (client_mime up) (order + int k) (as ! k)"
    if "k < length (u # us)" for k
  proof (cases k)
    case (Suc k')
    then have "order + 1 + int k' = order + int k" "k' < length us" "(u # us) ! k = us ! k'" "as ! k = as' ! k'"
      using that a(1) by simp_all
    with n [of k'] show ?thesis by simp
  qed (use a in simp)
  with l a(1) show ?case by simp
qed simp

text \<open>An upload that may be bound by its owner, with its file.\<close>

definition bindable :: "uuid \<Rightarrow> db \<Rightarrow> uuid \<Rightarrow> upload \<Rightarrow> file_object \<Rightarrow> bool" where
  "bindable owner d u up f \<longleftrightarrow> up \<in> set (uploads d) \<and> us_id up = u \<and> us_user up = owner \<and> us_status up = Completed
     \<and> consumed_at up = None \<and> f \<in> set (file_objects d) \<and> file_object_id up = Some (fo_id f) \<and> fo_status f = ObjReady"

lemma binding_error_None:
  "binding_error rows = None \<Longrightarrow> (u, f) \<in> set rows \<Longrightarrow> consumed_at u = None \<and> us_status u = Completed \<and> fo_status f = ObjReady"
  by (induction rows rule: binding_error.induct) (auto split: if_splits)

lemma bind_uploads_Inr:
  assumes "bind_uploads owner i us start now w = (Inr job, w')"
  shows "\<exists>as. length as = length us \<and> added as (wdb w) (wdb w')
    \<and> (\<forall>k<length us. \<exists>up f. bindable owner (wdb w) (us ! k) up f
        \<and> attachment_of i (fo_id f) (original_filename up) (client_mime up) (start + int k) (as ! k))
    \<and> uploads (wdb w') = consumed_by us i now (uploads (wdb w))"
proof (cases "us = []")
  case True
  with assms show ?thesis by (intro exI [of _ "[]"]) (simp add: bind_uploads_def ret_run added_Nil consumed_by_Nil)
next
  case False
  with assms have "\<not> (uuid_nil \<in> set us \<or> \<not> distinct us)"
    unfolding bind_uploads_def by (auto simp: throw_run split: if_splits)
  with assms False obtain rows w1 where q: "query MsgIO (uploads_for_binding owner us) w = (Inr rows, w1)"
    and b: "(case binding_error rows of Some e \<Rightarrow> throw e
         | None \<Rightarrow> if card (set (map (us_id \<circ> fst) rows)) \<noteq> length us then throw MsgErrValidation
             else bind_each i (\<lambda>u. by_key (us_id \<circ> fst) u (rev rows)) us start now) w1 = (Inr job, w')"
    unfolding bind_uploads_def by (simp only: if_False) (erule bindA_InrE)
  from b have e: "binding_error rows = None" by (cases "binding_error rows") (simp_all add: throw_run)
  with b have e2: "bind_each i (\<lambda>u. by_key (us_id \<circ> fst) u (rev rows)) us start now w1 = (Inr job, w')"
    by (simp add: throw_run split: if_splits)
  from query_Inr [OF q] have rows: "rows = uploads_for_binding owner us (wdb w)" and w1: "wdb w1 = wdb w" by simp_all
  obtain as where as: "bound i (\<lambda>u. by_key (us_id \<circ> fst) u (rev rows)) start us as" "added as (wdb w) (wdb w')"
    "uploads (wdb w') = consumed_by us i now (uploads (wdb w))"
  proof -
    have "us_id (fst uf) = u" if "by_key (us_id \<circ> fst) u (rev rows) = Some uf" for u uf
      using by_key_SomeD [OF that] by simp
    from bind_each_Inr [OF e2 this] w1 that show thesis by auto
  qed
  have "bindable owner (wdb w) u up f" if "by_key (us_id \<circ> fst) u (rev rows) = Some (up, f)" for u up f
  proof -
    from by_key_SomeD [OF that] have m: "(up, f) \<in> set rows" "us_id up = u" by simp_all
    with binding_error_None [OF e m(1)] show ?thesis
      unfolding rows by (auto simp: uploads_for_binding_def bindable_def)
  qed
  with bound_nth [OF as(1)] as(2,3) show ?thesis by (intro exI [of _ as]) blast
qed

text \<open>A successful binding attaches exactly the requested uploads, in the order given and under their own
  file names, all of them finished, ready, unused and the caller's; and it uses them up: no later binding that names
  one of them can succeed, for any message and any user.\<close>

theorem binding_consumes_uploads_once:
  assumes "bind_uploads owner i us start now w = (Inr job, w')"
  shows "(\<exists>as. attachments (wdb w') = attachments (wdb w) @ as \<and> length as = length us
      \<and> (\<forall>k<length us. \<exists>up f. bindable owner (wdb w) (us ! k) up f
          \<and> attachment_of i (fo_id f) (original_filename up) (client_mime up) (start + int k) (as ! k)))
    \<and> (wdb w2 = wdb w' \<and> set us \<inter> set us' \<noteq> {} \<longrightarrow> fst (bind_uploads owner' j us' start' later w2) \<noteq> Inr job')"
proof
  from bind_uploads_Inr [OF assms] obtain as where as: "length as = length us" "added as (wdb w) (wdb w')"
    "\<forall>k<length us. \<exists>up f. bindable owner (wdb w) (us ! k) up f
        \<and> attachment_of i (fo_id f) (original_filename up) (client_mime up) (start + int k) (as ! k)"
    and ups: "uploads (wdb w') = consumed_by us i now (uploads (wdb w))" by blast
  then show "\<exists>as. attachments (wdb w') = attachments (wdb w) @ as \<and> length as = length us
      \<and> (\<forall>k<length us. \<exists>up f. bindable owner (wdb w) (us ! k) up f
          \<and> attachment_of i (fo_id f) (original_filename up) (client_mime up) (start + int k) (as ! k))"
    using added_attachments by blast
  show "wdb w2 = wdb w' \<and> set us \<inter> set us' \<noteq> {} \<longrightarrow> fst (bind_uploads owner' j us' start' later w2) \<noteq> Inr job'"
  proof (intro impI notI, elim conjE)
    assume w2: "wdb w2 = wdb w'" and ne: "set us \<inter> set us' \<noteq> {}"
      and s: "fst (bind_uploads owner' j us' start' later w2) = Inr job'"
    from ne obtain x where "x \<in> set us" "x \<in> set us'" by blast
    then obtain k where k: "k < length us'" "us' ! k \<in> set us" by (metis in_set_conv_nth)
    from s have "bind_uploads owner' j us' start' later w2 = (Inr job', snd (bind_uploads owner' j us' start' later w2))"
      by (metis prod.collapse)
    from bind_uploads_Inr [OF this] k obtain up f where "bindable owner' (wdb w2) (us' ! k) up f" by blast
    then have "up \<in> set (consumed_by us i now (uploads (wdb w)))" "us_id up \<in> set us" "consumed_at up = None" "us_status up = Completed"
      using w2 ups k(2) by (simp_all add: bindable_def)
    then show False by (auto simp: consumed_by_def set_sql_update split: if_splits)
  qed
qed

section \<open>Copies\<close>

lemma copy_each_Inr:
  "copy_each dst items now w = (Inr job, w') \<Longrightarrow>
   \<exists>as. added as (wdb w) (wdb w') \<and> uploads (wdb w') = uploads (wdb w)
     \<and> map (\<lambda>a. (ma_message a, ma_file a, ma_filename a, ma_client_mime a, display_order a)) as
       = map (\<lambda>(a, f). (dst, ma_file a, ma_filename a, ma_client_mime a, display_order a)) items"
proof (induction items arbitrary: w job)
  case Nil
  then have "w' = w" by (simp add: ret_run)
  then show ?case by (intro exI [of _ "[]"]) (simp add: added_Nil)
next
  case (Cons it items)
  obtain a f where it: "it = (a, f)" by fastforce
  from Cons.prems obtain j w1 where a: "attach_file dst (ma_file a) (ma_filename a) (ma_client_mime a) (display_order a) (detected_mime f) now w = (Inr j, w1)"
    and b: "bindA (copy_each dst items now) (\<lambda>jobs. ret (j \<or> jobs)) w1 = (Inr job, w')"
    unfolding it copy_each.simps by (rule bindA_InrE)
  from b obtain j2 where b: "copy_each dst items now w1 = (Inr j2, w')" by (rule bindA_InrE) (simp add: ret_run)
  from attach_file_Inr [OF a] obtain n js where n: "n \<notin> ma_id ` set (attachments (wdb w))"
    and w1: "wdb w1 = (wdb w)\<lparr>attachments := attachments (wdb w) @ [\<lparr>ma_id = n, ma_message = dst, ma_file = ma_file a,
       ma_filename = ma_filename a, ma_client_mime = ma_client_mime a, display_order = display_order a\<rparr>], jobs := js\<rparr>"
    unfolding only_jobs_def by auto
  let ?a = "\<lparr>ma_id = n, ma_message = dst, ma_file = ma_file a,
       ma_filename = ma_filename a, ma_client_mime = ma_client_mime a, display_order = display_order a\<rparr>"
  have "added [?a] (wdb w) (wdb w1)"
    unfolding added_def w1 using n by (intro conjI exI [of _ js] exI [of _ "uploads (wdb w)"]) auto
  moreover from Cons.IH [OF b] obtain as where as: "added as (wdb w1) (wdb w')" "uploads (wdb w') = uploads (wdb w1)"
    "map (\<lambda>a. (ma_message a, ma_file a, ma_filename a, ma_client_mime a, display_order a)) as
       = map (\<lambda>(a, f). (dst, ma_file a, ma_filename a, ma_client_mime a, display_order a)) items" by blast
  ultimately have "added (?a # as) (wdb w) (wdb w')" using added_trans [of "[?a]" "wdb w" "wdb w1" as] by simp
  with as w1 it show ?case by (intro exI [of _ "?a # as"]) simp
qed

lemma filter_key_le_1: "distinct (map k rows) \<Longrightarrow> length (filter (\<lambda>r. k r = x) rows) \<le> 1"
  by (induction rows) (auto simp: filter_empty_conv image_iff)

lemma attachment_list_length:
  assumes "distinct (map fo_id (file_objects d))"
  shows "length (attachment_list i d) \<le> attachment_count i d"
proof -
  have "length (concat (map (\<lambda>a. map (\<lambda>f. (a, f)) (filter (\<lambda>f. fo_id f = ma_file a) (file_objects d))) as)) \<le> length as" for as
  proof (induction as)
    case (Cons a as)
    with filter_key_le_1 [OF assms, of "ma_file a"] show ?case by simp
  qed simp
  then show ?thesis by (simp add: attachment_list_def attachment_count_def sql_count_def)
qed

lemma filter_same_length: "length (filter P xs) = length xs \<Longrightarrow> filter P xs = xs"
proof (induction xs)
  case (Cons x xs)
  then show ?case using length_filter_le [of P xs] by (cases "P x") auto
qed simp

definition attachment_data :: "attachment \<Rightarrow> uuid \<times> string \<times> string option \<times> int" where
  "attachment_data a = (ma_file a, ma_filename a, ma_client_mime a, display_order a)"

lemma copy_attachments_Inr:
  assumes c: "copy_attachments src dst now w = (Inr job, w')"
    and fo: "distinct (map fo_id (file_objects (wdb w)))" and new: "attachment_count dst (wdb w) = 0"
  shows "\<exists>as. added as (wdb w) (wdb w') \<and> (\<forall>a\<in>set as. ma_message a = dst)
    \<and> map attachment_data as = map (attachment_data \<circ> fst) (attachment_list src (wdb w))
    \<and> length as = attachment_count src (wdb w) \<and> uploads (wdb w') = uploads (wdb w)"
proof -
  from c obtain total w1 where q1: "query MsgIO (attachment_count src) w = (Inr total, w1)"
    and b1: "bindA (query MsgIO (copyable src)) (\<lambda>items.
     bindA (copy_each dst items now) (\<lambda>job.
     bindA (query MsgIO (attachment_count dst)) (\<lambda>copied.
     if copied \<noteq> total then throw MsgErrValidation else ret job))) w1 = (Inr job, w')"
    unfolding copy_attachments_def by (rule bindA_InrE)
  from b1 obtain items w2 where q2: "query MsgIO (copyable src) w1 = (Inr items, w2)"
    and b2: "bindA (copy_each dst items now) (\<lambda>job.
     bindA (query MsgIO (attachment_count dst)) (\<lambda>copied.
     if copied \<noteq> total then throw MsgErrValidation else ret job)) w2 = (Inr job, w')"
    by (rule bindA_InrE)
  from b2 obtain j w3 where cp: "copy_each dst items now w2 = (Inr j, w3)"
    and b3: "bindA (query MsgIO (attachment_count dst)) (\<lambda>copied.
     if copied \<noteq> total then throw MsgErrValidation else ret j) w3 = (Inr job, w')"
    by (rule bindA_InrE)
  from b3 obtain copied w4 where q3: "query MsgIO (attachment_count dst) w3 = (Inr copied, w4)"
    and b4: "(if copied \<noteq> total then throw MsgErrValidation else ret j) w4 = (Inr job, w')"
    by (rule bindA_InrE)
  from b4 have eq: "copied = total" "w' = w4" by (simp_all add: throw_run ret_run split: if_splits)
  note q = query_Inr [OF q1] query_Inr [OF q2] query_Inr [OF q3]
  from copy_each_Inr [OF cp] obtain as where as: "added as (wdb w2) (wdb w3)" "uploads (wdb w3) = uploads (wdb w2)"
    and m: "map (\<lambda>a. (ma_message a, ma_file a, ma_filename a, ma_client_mime a, display_order a)) as
       = map (\<lambda>(a, f). (dst, ma_file a, ma_filename a, ma_client_mime a, display_order a)) items" by blast
  have dst: "\<forall>a\<in>set as. ma_message a = dst"
  proof
    fix a assume "a \<in> set as"
    then have "(ma_message a, ma_file a, ma_filename a, ma_client_mime a, display_order a)
      \<in> set (map (\<lambda>(a, f). (dst, ma_file a, ma_filename a, ma_client_mime a, display_order a)) items)"
      unfolding m [symmetric] by force
    then show "ma_message a = dst" by auto
  qed
  note len = map_eq_imp_length_eq [OF m]
  have "attachment_count dst (wdb w3) = length as"
    using new dst added_attachments [OF as(1)] q by (simp add: attachment_count_def sql_count_def)
  then have tot: "length items = attachment_count src (wdb w)" using eq len q by simp
  have items: "items = filter (\<lambda>(a, f). fo_status f = ObjReady) (attachment_list src (wdb w))"
    using q by (simp add: copyable_def)
  then have "length (filter (\<lambda>(a, f). fo_status f = ObjReady) (attachment_list src (wdb w))) = length (attachment_list src (wdb w))"
    using attachment_list_length [OF fo, of src] tot length_filter_le [of "\<lambda>(a, f). fo_status f = ObjReady" "attachment_list src (wdb w)"]
    by simp
  then have items: "items = attachment_list src (wdb w)"
    unfolding items by (rule filter_same_length)
  have "map attachment_data as = map snd (map (\<lambda>a. (ma_message a, ma_file a, ma_filename a, ma_client_mime a, display_order a)) as)"
    by (simp add: attachment_data_def)
  also have "\<dots> = map (attachment_data \<circ> fst) (attachment_list src (wdb w))"
    unfolding m items by (auto simp: attachment_data_def)
  finally show ?thesis using as dst tot len eq q by (intro exI [of _ as]) simp
qed

end
