(* ===== verification/Idempotency.thy ===== *)
theory Idempotency
  imports MessageModel
begin

text \<open>
  Idempotent requests (\<^verbatim>\<open>internal/messages/idempotency.go\<close> and the claims of
  \<^verbatim>\<open>repository.go\<close>): the canonical encoding whose SHA-256 identifies a request, the claim of a key at
  the start of a transaction, the stored result, and the exact set of requests an encoding cannot
  tell apart. SHA-256 is a parameter. The stored response metadata is kept as the receipt it encodes.
\<close>

section \<open>Requests\<close>

record create_command =
  cc_title :: "string option"
  cc_body :: string
  cc_format :: string
  cc_lifecycle :: string
  cc_sensitive :: bool
  cc_tags :: "uuid list"
  cc_uploads :: "uuid list"
  cc_key :: string

record direct_command =
  dc_recipient :: uuid
  dc_title :: "string option"
  dc_body :: string
  dc_format :: string
  dc_sensitive :: bool
  dc_uploads :: "uuid list"
  dc_key :: string

record forward_command =
  fc_source :: uuid
  fc_recipient :: uuid
  fc_expected :: int
  fc_key :: string

definition operation_create :: string where "operation_create = ''message.create''"
definition operation_direct_send :: string where "operation_direct_send = ''message.direct-send''"
definition operation_forward :: string where "operation_forward = ''message.forward''"

definition key_char :: "char \<Rightarrow> bool" where
  "key_char c \<longleftrightarrow> 0x20 \<le> byte_of c \<and> byte_of c \<le> 0x7E"

definition valid_idempotency_key :: "string \<Rightarrow> bool" where
  "valid_idempotency_key k \<longleftrightarrow> 1 \<le> length k \<and> length k \<le> 128 \<and> list_all key_char k"

section \<open>Canonical encodings\<close>

definition hash_bytes :: "bytes \<Rightarrow> bytes" where
  "hash_bytes v = be_bytes 8 (length v) @ v"

definition hash_uuid :: "uuid \<Rightarrow> bytes" where
  "hash_uuid v = hash_bytes (uuid_bytes v)"

definition hash_boolean :: "bool \<Rightarrow> bytes" where
  "hash_boolean b = (if b then [CHR 0x01] else [CHR 0x00])"

definition hash_optional :: "string option \<Rightarrow> bytes" where
  "hash_optional v = hash_boolean (v \<noteq> None) @ (case v of None \<Rightarrow> [] | Some s \<Rightarrow> hash_bytes s)"

definition encode_create :: "create_command \<Rightarrow> bytes" where
  "encode_create c = hash_optional (cc_title c) @ hash_bytes (cc_body c) @ hash_bytes (cc_format c)
     @ hash_bytes (cc_lifecycle c) @ hash_boolean (cc_sensitive c)
     @ concat (map hash_uuid (sort (cc_tags c))) @ concat (map hash_uuid (cc_uploads c))"

definition encode_direct :: "direct_command \<Rightarrow> bytes" where
  "encode_direct c = hash_uuid (dc_recipient c) @ hash_optional (dc_title c) @ hash_bytes (dc_body c)
     @ hash_bytes (dc_format c) @ hash_boolean (dc_sensitive c) @ concat (map hash_uuid (dc_uploads c))"

definition encode_forward :: "forward_command \<Rightarrow> bytes" where
  "encode_forward c = hash_uuid (fc_source c) @ hash_bytes (be_bytes 8 (nat (fc_expected c mod 2 ^ 64)))
     @ hash_uuid (fc_recipient c)"

section \<open>Claims\<close>

definition claim_of :: "uuid \<Rightarrow> string \<Rightarrow> string \<Rightarrow> idem_row \<Rightarrow> bool" where
  "claim_of u opn k r \<longleftrightarrow> idem_user r = u \<and> idem_operation r = opn \<and> idem_key r = k"

definition get_claim :: "uuid \<Rightarrow> string \<Rightarrow> string \<Rightarrow> db \<Rightarrow> idem_row option" where
  "get_claim u opn k d = find (claim_of u opn k) (idem_keys d)"

definition delete_claim :: "uuid \<Rightarrow> string \<Rightarrow> string \<Rightarrow> db \<Rightarrow> unit \<times> db" where
  "delete_claim u opn k d = ((), d\<lparr>idem_keys := sql_delete (claim_of u opn k) (idem_keys d)\<rparr>)"

text \<open>The insertion checks the primary key, the unique key of the claim, and the length of the hash.\<close>

definition insert_claim :: "idem_row \<Rightarrow> db \<Rightarrow> bool \<times> db" where
  "insert_claim r d =
     (if sql_exists (\<lambda>x. idem_id x = idem_id r \<or> claim_of (idem_user r) (idem_operation r) (idem_key r) x) (idem_keys d)
         \<or> length (request_hash r) \<noteq> 32
      then (False, d) else (True, d\<lparr>idem_keys := idem_keys d @ [r]\<rparr>))"

text \<open>A found result: the resource and the stored receipt.\<close>

type_synonym idem_result = "(uuid \<times> (uuid \<times> time \<times> time \<times> int) option) option"

definition claim_idempotency :: "uuid \<Rightarrow> string \<Rightarrow> string \<Rightarrow> bytes \<Rightarrow> time \<Rightarrow> (world, msg_err, idem_result) act" where
  "claim_idempotency u opn k h now =
     bindA (query MsgIO (\<lambda>_. ())) (\<lambda>_.
     bindA (query MsgIO (get_claim u opn k)) (\<lambda>row.
     (case row of
        None \<Rightarrow> ret None
      | Some r \<Rightarrow>
          if \<not> now < idem_expires_at r then bindA (exec MsgIO (delete_claim u opn k)) (\<lambda>_. ret None)
          else if request_hash r \<noteq> h then throw MsgErrIdempotencyKeyReused
          else (case resource_id r of None \<Rightarrow> throw MsgIO | Some i \<Rightarrow> ret (Some (i, idem_receipt r))))))"

definition complete_idempotency ::
    "uuid \<Rightarrow> uuid \<Rightarrow> string \<Rightarrow> string \<Rightarrow> bytes \<Rightarrow> uuid \<Rightarrow> (uuid \<times> time \<times> time \<times> int) option \<Rightarrow> time \<Rightarrow> (world, msg_err, unit) act" where
  "complete_idempotency i u opn k h res meta now =
     bindA (exec MsgIO (insert_claim \<lparr>idem_id = i, idem_user = u, idem_operation = opn, idem_key = k, request_hash = h,
       resource_id = Some res, idem_receipt = meta, idem_expires_at = now + 24 * hour\<rparr>)) (\<lambda>ok.
     if ok then ret () else throw MsgIO)"

record receipt =
  rc_message :: uuid
  rc_created :: time
  rc_expires :: time

definition delivery_result :: "uuid \<times> (uuid \<times> time \<times> time \<times> int) option \<Rightarrow> msg_err + (receipt \<times> int)" where
  "delivery_result found = (case found of (res, meta) \<Rightarrow>
     (case meta of None \<Rightarrow> Inl MsgIO
      | Some (m, c, e, v) \<Rightarrow>
          if m = uuid_nil \<or> c = zero_time \<or> e = zero_time \<or> m \<noteq> res then Inl MsgIO
          else Inr (\<lparr>rc_message = m, rc_created = c, rc_expires = e\<rparr>, if v = 0 then 1 else v)))"


section \<open>What the encodings distinguish\<close>

lemma be_bytes_length [simp]: "length (be_bytes k n) = k"
  by (induction k arbitrary: n) simp_all

lemma char_of_eq_mod: "char_of (a mod 256) = char_of (b mod 256) \<longleftrightarrow> a mod 256 = (b mod 256 :: nat)"
  by (metis of_char_of mod_mod_trivial)

lemma be_bytes_inj: "be_bytes k n = be_bytes k m \<longleftrightarrow> n mod 256 ^ k = m mod 256 ^ k"
proof (induction k arbitrary: n m)
  case (Suc k)
  have split: "x mod 256 ^ Suc k = 256 * (x div 256 mod 256 ^ k) + x mod 256" for x :: nat
    by (simp add: mod_mult2_eq)
  have "be_bytes (Suc k) n = be_bytes (Suc k) m \<longleftrightarrow>
      n div 256 mod 256 ^ k = m div 256 mod 256 ^ k \<and> n mod 256 = m mod 256"
    by (simp only: be_bytes.simps append1_eq_conv Suc.IH char_of_eq_mod)
  also have "\<dots> \<longleftrightarrow> n mod 256 ^ Suc k = m mod 256 ^ Suc k"
  proof
    assume "n mod 256 ^ Suc k = m mod 256 ^ Suc k"
    then have eq: "256 * (n div 256 mod 256 ^ k) + n mod 256 = 256 * (m div 256 mod 256 ^ k) + m mod 256"
      by (simp only: split)
    then have "(256 * (n div 256 mod 256 ^ k) + n mod 256) mod 256 = (256 * (m div 256 mod 256 ^ k) + m mod 256) mod 256"
      by simp
    then have "n mod 256 = m mod 256" by simp
    with eq show "n div 256 mod 256 ^ k = m div 256 mod 256 ^ k \<and> n mod 256 = m mod 256" by simp
  qed (simp only: split)
  finally show ?case .
qed simp

lemma be_bytes_inj_small: "n < 256 ^ k \<Longrightarrow> m < 256 ^ k \<Longrightarrow> be_bytes k n = be_bytes k m \<longleftrightarrow> n = m"
  by (simp add: be_bytes_inj)

definition small :: "bytes \<Rightarrow> bool" where "small v \<longleftrightarrow> length v < 2 ^ 64"

lemma hash_bytes_append:
  assumes "small v" "small v'"
  shows "hash_bytes v @ r = hash_bytes v' @ r' \<longleftrightarrow> v = v' \<and> r = r'"
proof
  assume e: "hash_bytes v @ r = hash_bytes v' @ r'"
  then have "be_bytes 8 (length v) @ (v @ r) = be_bytes 8 (length v') @ (v' @ r')" by (simp add: hash_bytes_def)
  then have "be_bytes 8 (length v) = be_bytes 8 (length v')" "v @ r = v' @ r'"
    by (simp_all only: append_eq_append_conv be_bytes_length simp_thms)
  moreover from this(1) have "length v = length v'"
    using assms by (subst (asm) be_bytes_inj_small) (simp_all add: small_def)
  ultimately show "v = v' \<and> r = r'" by simp
qed simp

lemma uuid_bytes_length [simp]: "length (uuid_bytes i) = 16"
  by (simp add: uuid_bytes_def)

lemma uuid_bytes_inj: "uuid_bytes i = uuid_bytes j \<longleftrightarrow> i = j"
proof -
  have "unat i < 256 ^ 16" "unat j < 256 ^ 16" using unsigned_less [where ?'a = nat, of i] unsigned_less [where ?'a = nat, of j] by simp_all
  then show ?thesis unfolding uuid_bytes_def by (simp add: be_bytes_inj_small word_unat_eq_iff)
qed

lemma small_uuid [simp]: "small (uuid_bytes i)"
  by (simp add: small_def)

lemma hash_uuid_append: "hash_uuid i @ r = hash_uuid j @ r' \<longleftrightarrow> i = j \<and> r = r'"
  by (simp add: hash_uuid_def hash_bytes_append uuid_bytes_inj)

lemma hash_uuid_length: "length (hash_uuid i) = 24"
  by (simp add: hash_uuid_def hash_bytes_def)

lemma hash_uuid_nonempty: "hash_uuid i \<noteq> []"
  using hash_uuid_length [of i] by auto

lemma hash_uuids_inj: "concat (map hash_uuid is) = concat (map hash_uuid js) \<longleftrightarrow> is = js"
proof (induction "is" arbitrary: js)
  case Nil
  then show ?case by (cases js) (simp_all add: hash_uuid_nonempty)
next
  case (Cons i "is")
  then show ?case by (cases js) (simp_all add: hash_uuid_append hash_uuid_nonempty)
qed

lemma hash_boolean_append: "hash_boolean b @ r = hash_boolean b' @ r' \<longleftrightarrow> b = b' \<and> r = r'"
  by (cases b; cases b') (simp_all add: hash_boolean_def)

definition small_option :: "string option \<Rightarrow> bool" where
  "small_option v = (case v of None \<Rightarrow> True | Some s \<Rightarrow> small s)"

lemma hash_optional_append:
  "small_option v \<Longrightarrow> small_option v' \<Longrightarrow> hash_optional v @ r = hash_optional v' @ r' \<longleftrightarrow> v = v' \<and> r = r'"
  by (cases v; cases v') (simp_all add: hash_optional_def small_option_def hash_boolean_append hash_bytes_append)

lemmas hash_appends = hash_optional_append hash_bytes_append hash_boolean_append hash_uuid_append

definition create_small :: "create_command \<Rightarrow> bool" where
  "create_small c \<longleftrightarrow> small_option (cc_title c) \<and> small (cc_body c) \<and> small (cc_format c) \<and> small (cc_lifecycle c)"

text \<open>Two creation requests have the same canonical encoding exactly when they agree on every field
  but the key, except that tags and uploads are only compared as one list: the sorted tags followed by
  the uploads. The boundary between tags and uploads is lost.\<close>

theorem create_encoding_exact:
  assumes "create_small c" "create_small c'"
  shows "encode_create c = encode_create c' \<longleftrightarrow>
    cc_title c = cc_title c' \<and> cc_body c = cc_body c' \<and> cc_format c = cc_format c' \<and> cc_lifecycle c = cc_lifecycle c'
    \<and> cc_sensitive c = cc_sensitive c' \<and> sort (cc_tags c) @ cc_uploads c = sort (cc_tags c') @ cc_uploads c'"
proof -
  have tail: "concat (map hash_uuid (sort ts)) @ concat (map hash_uuid us) = concat (map hash_uuid (sort ts')) @ concat (map hash_uuid us')
    \<longleftrightarrow> sort ts @ us = sort ts' @ us'" for ts us ts' us' :: "uuid list"
    using hash_uuids_inj [of "sort ts @ us" "sort ts' @ us'"] by simp
  have t: "small_option (cc_title c)" "small_option (cc_title c')" and b: "small (cc_body c)" "small (cc_body c')"
    and f: "small (cc_format c)" "small (cc_format c')" and l: "small (cc_lifecycle c)" "small (cc_lifecycle c')"
    using assms by (simp_all add: create_small_def)
  show ?thesis
    unfolding encode_create_def
    by (simp only: hash_optional_append [OF t] hash_bytes_append [OF b] hash_bytes_append [OF f] hash_bytes_append [OF l]
      hash_boolean_append tail)
qed

definition direct_small :: "direct_command \<Rightarrow> bool" where
  "direct_small c \<longleftrightarrow> small_option (dc_title c) \<and> small (dc_body c) \<and> small (dc_format c)"

text \<open>The encodings of direct sends and of forwards are injective: apart from the key, equal encodings come
  from equal requests.\<close>

theorem delivery_encodings_injective:
  assumes "direct_small c" "direct_small c'" "in_int64 (fc_expected f)" "in_int64 (fc_expected f')"
  shows "(encode_direct c = encode_direct c' \<longleftrightarrow> c\<lparr>dc_key := k\<rparr> = c'\<lparr>dc_key := k\<rparr>)
    \<and> (encode_forward f = encode_forward f' \<longleftrightarrow> f\<lparr>fc_key := k\<rparr> = f'\<lparr>fc_key := k\<rparr>)"
proof
  have t: "small_option (dc_title c)" "small_option (dc_title c')" and b: "small (dc_body c)" "small (dc_body c')"
    and f: "small (dc_format c)" "small (dc_format c')"
    using assms(1,2) by (simp_all add: direct_small_def)
  show "encode_direct c = encode_direct c' \<longleftrightarrow> c\<lparr>dc_key := k\<rparr> = c'\<lparr>dc_key := k\<rparr>"
    unfolding encode_direct_def
    by (simp only: hash_uuid_append hash_optional_append [OF t] hash_bytes_append [OF b] hash_bytes_append [OF f]
      hash_boolean_append hash_uuids_inj) (cases c; cases c'; simp; blast)
  let ?n = "nat (fc_expected f mod 2 ^ 64)" and ?n' = "nat (fc_expected f' mod 2 ^ 64)"
  have lt: "nat (x mod 2 ^ 64) < 256 ^ 8" for x :: int by (simp add: nat_less_iff)
  have s: "small (be_bytes 8 ?n)" "small (be_bytes 8 ?n')" by (simp_all add: small_def)
  have "be_bytes 8 ?n = be_bytes 8 ?n' \<longleftrightarrow> ?n = ?n'" by (rule be_bytes_inj_small [OF lt lt])
  also have "\<dots> \<longleftrightarrow> fc_expected f mod 2 ^ 64 = fc_expected f' mod 2 ^ 64" by (simp add: eq_nat_nat_iff)
  also have "\<dots> \<longleftrightarrow> fc_expected f = fc_expected f'"
  proof
    assume "fc_expected f mod 2 ^ 64 = fc_expected f' mod 2 ^ 64"
    then have "(2::int) ^ 64 dvd fc_expected f - fc_expected f'" by (simp add: mod_eq_dvd_iff)
    then obtain q where "fc_expected f - fc_expected f' = 2 ^ 64 * q" ..
    then have "fc_expected f = fc_expected f' + 18446744073709551616 * q" by simp
    moreover from this have "q < 1" "- 1 < q" using assms(3,4) unfolding in_int64_def by linarith+
    ultimately show "fc_expected f = fc_expected f'" by simp
  qed simp
  finally have e: "be_bytes 8 ?n = be_bytes 8 ?n' \<longleftrightarrow> fc_expected f = fc_expected f'" .
  have u: "hash_uuid i = hash_uuid j \<longleftrightarrow> i = j" for i j using hash_uuid_append [of i "[]" j "[]"] by simp
  show "encode_forward f = encode_forward f' \<longleftrightarrow> f\<lparr>fc_key := k\<rparr> = f'\<lparr>fc_key := k\<rparr>"
    unfolding encode_forward_def
    by (simp only: hash_uuid_append hash_bytes_append [OF s] e u) (cases f; cases f'; simp; blast)
qed

definition tagged_create :: create_command where
  "tagged_create = \<lparr>cc_title = None, cc_body = ''hello'', cc_format = ''TEXT'', cc_lifecycle = ''PERMANENT'',
     cc_sensitive = False, cc_tags = [4], cc_uploads = [9], cc_key = ''key-1''\<rparr>"

definition untagged_create :: create_command where
  "untagged_create = tagged_create\<lparr>cc_tags := [], cc_uploads := [4, 9]\<rparr>"

theorem create_encoding_exact_witness:
  "encode_create tagged_create = encode_create untagged_create
   \<and> encode_create tagged_create \<noteq> encode_create (tagged_create\<lparr>cc_tags := []\<rparr>)"
proof -
  have s: "create_small tagged_create" "create_small untagged_create" "create_small (tagged_create\<lparr>cc_tags := []\<rparr>)"
    by (simp_all add: create_small_def tagged_create_def untagged_create_def small_def small_option_def)
  show ?thesis
    unfolding create_encoding_exact [OF s(1,2)] create_encoding_exact [OF s(1,3)]
    by (simp add: tagged_create_def untagged_create_def)
qed

theorem delivery_encodings_injective_witness:
  "encode_forward \<lparr>fc_source = 1, fc_recipient = 2, fc_expected = 1, fc_key = ''a''\<rparr>
   \<noteq> encode_forward \<lparr>fc_source = 2, fc_recipient = 1, fc_expected = 1, fc_key = ''a''\<rparr>"
proof -
  let ?f = "\<lparr>fc_source = 1, fc_recipient = 2, fc_expected = 1, fc_key = ''a''\<rparr>"
  let ?f' = "\<lparr>fc_source = 2, fc_recipient = 1, fc_expected = 1, fc_key = ''a''\<rparr>"
  let ?c = "\<lparr>dc_recipient = 2, dc_title = None, dc_body = ''b'', dc_format = ''TEXT'', dc_sensitive = False,
    dc_uploads = [], dc_key = ''k''\<rparr>"
  have "direct_small ?c" "in_int64 (fc_expected ?f)" "in_int64 (fc_expected ?f')"
    by (simp_all add: direct_small_def small_option_def small_def in_int64_def)
  from delivery_encodings_injective [OF this(1) this(1) this(2,3)] show ?thesis by simp
qed

end
