(* ===== verification/Delivery.thy ===== *)
theory Delivery
  imports Attachments Idempotency
begin

text \<open>
  Creating, sending and forwarding messages (\<open>CreateResult\<close>, \<open>DirectSendResult\<close> and \<open>ForwardResult\<close>
  of \<^verbatim>\<open>internal/messages/service.go\<close>). Each is one transaction that claims the request's idempotency
  key, returns the stored result when the request was served before, and otherwise inserts the
  message with its attachments and records the result under the key.
\<close>

section \<open>New messages\<close>

definition new_message ::
    "body_cipher \<Rightarrow> bytes option \<Rightarrow> uuid \<Rightarrow> uuid \<Rightarrow> string option \<Rightarrow> string \<Rightarrow> string \<Rightarrow> lifecycle \<Rightarrow> bool
     \<Rightarrow> uuid option \<Rightarrow> uuid option \<Rightarrow> time \<Rightarrow> duration \<Rightarrow> (world, msg_err, message) act" where
  "new_message c rnd owner dev t body fmt life sens src srcm now ttl =
     bindA (new_id MsgIO) (\<lambda>i.
       let m = \<lparr>msg_id = i, owner_id = owner, title = t, body_plaintext = None, body_ciphertext = None,
                body_nonce = None, body_encryption_version = None, body_format = fmt, detected_type = None,
                detected_language = None, sensitive = sens, msg_lifecycle = life, favorite = False,
                expires_at = (if life = Temporary then Some (now + ttl) else None), trashed_at = None, purge_at = None,
                source_user_id = src, source_message_id = srcm, created_device_id = Some dev, version = 1,
                created_at = now, updated_at = now\<rparr>
       in if sens then
            (if body = [] then throw MsgErrValidation
             else (case encrypt c rnd i owner body of Inl e \<Rightarrow> throw e | Inr cnv \<Rightarrow> ret (sealed m cnv)))
          else ret (if body \<noteq> [] then m\<lparr>body_plaintext := Some body\<rparr> else m))"

text \<open>The receipt of a delivered message; the code also checks that it has an expiry.\<close>

definition delivery_receipt :: "message \<Rightarrow> msg_err + receipt" where
  "delivery_receipt m = (case expires_at m of None \<Rightarrow> Inl MsgIO
     | Some t \<Rightarrow> Inr \<lparr>rc_message = msg_id m, rc_created = created_at m, rc_expires = t\<rparr>)"

definition receipt_meta :: "receipt \<Rightarrow> int \<Rightarrow> (uuid \<times> time \<times> time \<times> int) option" where
  "receipt_meta r v = Some (rc_message r, rc_created r, rc_expires r, v)"

section \<open>Creation\<close>

text \<open>What the closures of the transactions leave behind: the message, whether it was created, and whether a
  thumbnail job was.\<close>

type_synonym created = "message \<times> bool \<times> bool"

definition create_fresh ::
    "(bytes \<Rightarrow> bytes) \<Rightarrow> body_cipher \<Rightarrow> bytes option \<Rightarrow> uuid \<Rightarrow> uuid \<Rightarrow> create_command \<Rightarrow> time \<Rightarrow> (world, msg_err, created) act" where
  "create_fresh sha c rnd owner dev cmd now =
     bindA (validate_tags owner (cc_tags cmd)) (\<lambda>_.
     bindA message_settings (\<lambda>ttl.
     bindA (new_message c rnd owner dev (cc_title cmd) (cc_body cmd) (cc_format cmd) (the (lifecycle_of (cc_lifecycle cmd)))
       (cc_sensitive cmd) None None now (fst ttl)) (\<lambda>m.
     bindA (insert_message m) (\<lambda>_.
     bindA (bind_uploads owner (msg_id m) (cc_uploads cmd) 0 now) (\<lambda>job.
     bindA (replace_message_tags (msg_id m) (cc_tags cmd)) (\<lambda>_.
     bindA (new_id MsgIO) (\<lambda>k.
     bindA (complete_idempotency k owner operation_create (cc_key cmd) (sha (encode_create cmd)) (msg_id m) None now) (\<lambda>_.
     ret (m, True, job)))))))))"

definition create_tx ::
    "(bytes \<Rightarrow> bytes) \<Rightarrow> body_cipher \<Rightarrow> bytes option \<Rightarrow> uuid \<Rightarrow> uuid \<Rightarrow> create_command \<Rightarrow> time \<Rightarrow> (world, msg_err, created) act" where
  "create_tx sha c rnd owner dev cmd now =
     bindA (claim_idempotency owner operation_create (cc_key cmd) (sha (encode_create cmd)) now) (\<lambda>found.
     (case found of
        Some (res, _) \<Rightarrow> bindA (load_owned owner res) (\<lambda>m. ret (m, False, False))
      | None \<Rightarrow> create_fresh sha c rnd owner dev cmd now))"

definition create_valid :: "create_command \<Rightarrow> bool" where
  "create_valid cmd \<longleftrightarrow> (cc_body cmd \<noteq> [] \<longrightarrow> valid_body (cc_body cmd)) \<and> (cc_body cmd = [] \<longrightarrow> cc_uploads cmd \<noteq> [])
     \<and> (cc_body cmd = [] \<longrightarrow> \<not> cc_sensitive cmd) \<and> valid_format (cc_format cmd) \<and> valid_lifecycle (cc_lifecycle cmd)
     \<and> valid_idempotency_key (cc_key cmd)"

definition create_result ::
    "(bytes \<Rightarrow> bytes) \<Rightarrow> body_cipher \<Rightarrow> bytes option \<Rightarrow> uuid \<Rightarrow> uuid \<Rightarrow> create_command \<Rightarrow> time
     \<Rightarrow> (world, msg_err, message_view \<times> bool) act" where
  "create_result sha c rnd owner dev cmd now =
     (case normalize_title (cc_title cmd) of
        Inl e \<Rightarrow> throw e
      | Inr t \<Rightarrow>
          if \<not> create_valid cmd then throw MsgErrValidation
          else bindA (with_tx (create_tx sha c rnd owner dev (cmd\<lparr>cc_title := t\<rparr>) now)) (\<lambda>(m, created, job).
            bindA (signal_jobs job) (\<lambda>_.
            bindA (load_tags (msg_id m)) (\<lambda>ts.
            bindA (load_attachments (msg_id m) 0) (\<lambda>as.
            ret (\<lparr>view_row = m, view_tags = ts, view_attachments = as\<rparr>, created))))))"

section \<open>Direct send\<close>

text \<open>What a delivery leaves behind: the receipt, the version, whether it was created, and the job flag.\<close>

type_synonym delivered = "receipt \<times> int \<times> bool \<times> bool"

text \<open>An unknown recipient, one that is not active and a failed query have the same error.\<close>

definition require_recipient :: "uuid \<Rightarrow> (world, msg_err, unit) act" where
  "require_recipient u = bindA (query MsgErrRecipientUnavailable (recipient_status u)) (\<lambda>s.
     if s \<noteq> Some Active then throw MsgErrRecipientUnavailable else ret ())"

text \<open>The stored result of an earlier delivery.\<close>

definition redeliver :: "uuid \<times> (uuid \<times> time \<times> time \<times> int) option \<Rightarrow> (world, msg_err, delivered) act" where
  "redeliver found = (case delivery_result found of Inl e \<Rightarrow> throw e | Inr (r, v) \<Rightarrow> ret (r, v, False, False))"

text \<open>Recording the receipt of a delivery under its key.\<close>

definition record_delivery ::
    "uuid \<Rightarrow> string \<Rightarrow> string \<Rightarrow> bytes \<Rightarrow> message \<Rightarrow> bool \<Rightarrow> time \<Rightarrow> (world, msg_err, delivered) act" where
  "record_delivery sender opn key h m job now =
     bindA (new_id MsgIO) (\<lambda>k.
     (case delivery_receipt m of
        Inl e \<Rightarrow> throw e
      | Inr r \<Rightarrow> bindA (complete_idempotency k sender opn key h (msg_id m) (receipt_meta r (version m)) now) (\<lambda>_.
          ret (r, version m, True, job))))"

definition direct_send_fresh ::
    "(bytes \<Rightarrow> bytes) \<Rightarrow> body_cipher \<Rightarrow> bytes option \<Rightarrow> uuid \<Rightarrow> uuid \<Rightarrow> direct_command \<Rightarrow> time \<Rightarrow> (world, msg_err, delivered) act" where
  "direct_send_fresh sha c rnd sender dev cmd now =
     bindA (require_recipient (dc_recipient cmd)) (\<lambda>_.
     bindA message_settings (\<lambda>ttl.
     bindA (new_message c rnd (dc_recipient cmd) dev (dc_title cmd) (dc_body cmd) (dc_format cmd) Temporary
       (dc_sensitive cmd) (Some sender) None now (fst ttl)) (\<lambda>m.
     bindA (insert_message m) (\<lambda>_.
     bindA (bind_uploads sender (msg_id m) (dc_uploads cmd) 0 now) (\<lambda>job.
     record_delivery sender operation_direct_send (dc_key cmd) (sha (encode_direct cmd)) m job now)))))"

definition direct_send_tx ::
    "(bytes \<Rightarrow> bytes) \<Rightarrow> body_cipher \<Rightarrow> bytes option \<Rightarrow> uuid \<Rightarrow> uuid \<Rightarrow> direct_command \<Rightarrow> time \<Rightarrow> (world, msg_err, delivered) act" where
  "direct_send_tx sha c rnd sender dev cmd now =
     bindA (claim_idempotency sender operation_direct_send (dc_key cmd) (sha (encode_direct cmd)) now) (\<lambda>found.
     (case found of
        Some f \<Rightarrow> redeliver f
      | None \<Rightarrow> direct_send_fresh sha c rnd sender dev cmd now))"

definition direct_valid :: "direct_command \<Rightarrow> bool" where
  "direct_valid cmd \<longleftrightarrow> (dc_body cmd \<noteq> [] \<longrightarrow> valid_body (dc_body cmd)) \<and> (dc_body cmd = [] \<longrightarrow> dc_uploads cmd \<noteq> [])
     \<and> (dc_body cmd = [] \<longrightarrow> \<not> dc_sensitive cmd) \<and> valid_format (dc_format cmd) \<and> valid_idempotency_key (dc_key cmd)"

definition deliver :: "(world, msg_err, delivered) act \<Rightarrow> (world, msg_err, receipt \<times> int \<times> bool) act" where
  "deliver tx = bindA (with_tx tx) (\<lambda>(r, v, created, job).
     bindA (signal_jobs job) (\<lambda>_. ret (r, v, created)))"

definition direct_send_result ::
    "(bytes \<Rightarrow> bytes) \<Rightarrow> body_cipher \<Rightarrow> bytes option \<Rightarrow> uuid \<Rightarrow> uuid \<Rightarrow> direct_command \<Rightarrow> time
     \<Rightarrow> (world, msg_err, receipt \<times> int \<times> bool) act" where
  "direct_send_result sha c rnd sender dev cmd now =
     (case normalize_title (dc_title cmd) of
        Inl e \<Rightarrow> throw e
      | Inr t \<Rightarrow>
          if \<not> direct_valid cmd then throw MsgErrValidation
          else deliver (direct_send_tx sha c rnd sender dev (cmd\<lparr>dc_title := t\<rparr>) now))"

section \<open>Forwarding\<close>

text \<open>The body to forward; a message without one must have attachments.\<close>

definition forwarded_body :: "body_cipher \<Rightarrow> message \<Rightarrow> (world, msg_err, string) act" where
  "forwarded_body c m =
     (if sensitive m then (case decrypt c m of Inl e \<Rightarrow> throw e | Inr p \<Rightarrow> ret p)
      else (case body_plaintext m of
          Some b \<Rightarrow> ret b
        | None \<Rightarrow> bindA (query MsgIO (attachment_count (msg_id m))) (\<lambda>n.
            if n = 0 then throw MsgErrContentRequired else ret [])))"

definition forward_fresh ::
    "(bytes \<Rightarrow> bytes) \<Rightarrow> body_cipher \<Rightarrow> bytes option \<Rightarrow> uuid \<Rightarrow> uuid \<Rightarrow> forward_command \<Rightarrow> time \<Rightarrow> (world, msg_err, delivered) act" where
  "forward_fresh sha c rnd sender dev cmd now =
     bindA (load_owned sender (fc_source cmd)) (\<lambda>src.
     if version src \<noteq> fc_expected cmd then throw MsgErrVersionConflict
     else if trashed_at src \<noteq> None then throw MsgErrTrashed
     else
     bindA (require_recipient (fc_recipient cmd)) (\<lambda>_.
     bindA (forwarded_body c src) (\<lambda>body.
     bindA message_settings (\<lambda>ttl.
     bindA (new_message c rnd (fc_recipient cmd) dev (title src) body (body_format src) Temporary
       (sensitive src) (Some sender) (Some (msg_id src)) now (fst ttl)) (\<lambda>m.
     bindA (insert_message m) (\<lambda>_.
     bindA (copy_attachments (msg_id src) (msg_id m) now) (\<lambda>job.
     record_delivery sender operation_forward (fc_key cmd) (sha (encode_forward cmd)) m job now)))))))"

definition forward_tx ::
    "(bytes \<Rightarrow> bytes) \<Rightarrow> body_cipher \<Rightarrow> bytes option \<Rightarrow> uuid \<Rightarrow> uuid \<Rightarrow> forward_command \<Rightarrow> time \<Rightarrow> (world, msg_err, delivered) act" where
  "forward_tx sha c rnd sender dev cmd now =
     bindA (claim_idempotency sender operation_forward (fc_key cmd) (sha (encode_forward cmd)) now) (\<lambda>found.
     (case found of
        Some f \<Rightarrow> redeliver f
      | None \<Rightarrow> forward_fresh sha c rnd sender dev cmd now))"

definition forward_result ::
    "(bytes \<Rightarrow> bytes) \<Rightarrow> body_cipher \<Rightarrow> bytes option \<Rightarrow> uuid \<Rightarrow> uuid \<Rightarrow> forward_command \<Rightarrow> time
     \<Rightarrow> (world, msg_err, receipt \<times> int \<times> bool) act" where
  "forward_result sha c rnd sender dev cmd now =
     (if fc_expected cmd < 1 \<or> \<not> valid_idempotency_key (fc_key cmd) then throw MsgErrValidation
      else deliver (forward_tx sha c rnd sender dev cmd now))"


section \<open>Claims\<close>

text \<open>A stored result for the request with hash \<open>h\<close> that still counts at time \<open>t\<close>.\<close>

definition live_claim :: "uuid \<Rightarrow> string \<Rightarrow> string \<Rightarrow> bytes \<Rightarrow> time \<Rightarrow> db \<Rightarrow> bool" where
  "live_claim u opn k h t d = (case get_claim u opn k d of None \<Rightarrow> False
     | Some r \<Rightarrow> request_hash r = h \<and> t < idem_expires_at r)"

lemma claim_Inr:
  assumes "claim_idempotency u opn k h now w = (Inr r, w')"
  obtains (found) row res where "r = Some (res, idem_receipt row)" "wdb w' = wdb w" "get_claim u opn k (wdb w) = Some row"
      "now < idem_expires_at row" "request_hash row = h" "resource_id row = Some res"
  | (fresh) "r = None" "\<not> live_claim u opn k h now (wdb w)" "wdb w' = wdb w \<or> wdb w' = snd (delete_claim u opn k (wdb w))"
proof -
  from assms obtain a w1 row w2 where q1: "query MsgIO (\<lambda>_. ()) w = (Inr a, w1)"
    and q2: "query MsgIO (get_claim u opn k) w1 = (Inr row, w2)"
    and b: "(case row of None \<Rightarrow> ret None | Some r \<Rightarrow>
          if \<not> now < idem_expires_at r then bindA (exec MsgIO (delete_claim u opn k)) (\<lambda>_. ret None)
          else if request_hash r \<noteq> h then throw MsgErrIdempotencyKeyReused
          else (case resource_id r of None \<Rightarrow> throw MsgIO | Some i \<Rightarrow> ret (Some (i, idem_receipt r)))) w2 = (Inr r, w')"
    unfolding claim_idempotency_def by (elim bindA_InrE) blast
  note q = query_Inr [OF q1] query_Inr [OF q2]
  show thesis
  proof (cases row)
    case None
    with b q show thesis by (intro fresh) (simp_all add: ret_run live_claim_def)
  next
    case (Some x)
    show thesis
    proof (cases "now < idem_expires_at x")
      case True
      with b Some have h: "request_hash x = h" by (auto simp: throw_run split: if_splits)
      with b Some True obtain i where "resource_id x = Some i" "r = Some (i, idem_receipt x)" "w' = w2"
        by (cases "resource_id x") (simp_all add: throw_run ret_run)
      with q Some True h show thesis by (intro found [of i x]) simp_all
    next
      case False
      with b Some obtain u' w3 where e: "exec MsgIO (delete_claim u opn k) w2 = (Inr u', w3)" "r = None" "w' = w3"
        by (simp only: option.case if_True simp_thms) (erule bindA_InrE, simp add: ret_run)
      from q Some have g: "get_claim u opn k (wdb w) = Some x" by simp
      from exec_Inr [OF e(1)] q e have "wdb w' = snd (delete_claim u opn k (wdb w))" by simp
      with g False e(2) show thesis by (intro fresh) (simp_all add: live_claim_def)
    qed
  qed
qed

lemma claim_keeps_db: "live_claim u opn k h now (wdb w) \<Longrightarrow> wdb (snd (claim_idempotency u opn k h now w)) = wdb w"
proof -
  assume l: "live_claim u opn k h now (wdb w)"
  have "keeps (on_db (\<lambda>d. d = wdb w)) (claim_idempotency u opn k h now)"
    unfolding claim_idempotency_def
    by (intro keeps_intro keeps_query_bind) (use l in \<open>auto simp: live_claim_def throw_run ret_run split: option.splits if_splits\<close>)
  then show ?thesis by (simp add: keeps_def on_db_def)
qed

lemma complete_Inr:
  assumes "complete_idempotency i u opn k h res meta now w = (Inr x, w')"
  shows "wdb w' = (wdb w)\<lparr>idem_keys := idem_keys (wdb w) @ [\<lparr>idem_id = i, idem_user = u, idem_operation = opn, idem_key = k,
      request_hash = h, resource_id = Some res, idem_receipt = meta, idem_expires_at = now + 24 * hour\<rparr>]\<rparr>"
    and "get_claim u opn k (wdb w') = Some \<lparr>idem_id = i, idem_user = u, idem_operation = opn, idem_key = k,
      request_hash = h, resource_id = Some res, idem_receipt = meta, idem_expires_at = now + 24 * hour\<rparr>"
proof -
  let ?r = "\<lparr>idem_id = i, idem_user = u, idem_operation = opn, idem_key = k,
      request_hash = h, resource_id = Some res, idem_receipt = meta, idem_expires_at = now + 24 * hour\<rparr>"
  from assms obtain ok w1 where e: "exec MsgIO (insert_claim ?r) w = (Inr ok, w1)"
    and c: "(if ok then ret () else throw MsgIO) w1 = (Inr x, w')"
    unfolding complete_idempotency_def by (rule bindA_InrE)
  from c have ok: ok "w' = w1" by (simp_all add: ret_run throw_run split: if_splits)
  with exec_Inr [OF e] have n: "\<not> sql_exists (claim_of u opn k) (idem_keys (wdb w))"
    and d: "wdb w' = (wdb w)\<lparr>idem_keys := idem_keys (wdb w) @ [?r]\<rparr>"
    by (auto simp: insert_claim_def sql_exists_iff split: if_splits)
  from d show "wdb w' = (wdb w)\<lparr>idem_keys := idem_keys (wdb w) @ [?r]\<rparr>" .
  have "find (claim_of u opn k) (xs @ [?r]) = Some ?r" if "\<forall>x\<in>set xs. \<not> claim_of u opn k x" for xs
    using that
  proof (induction xs)
    case (Cons a xs)
    then show ?case by auto
  qed (simp add: claim_of_def)
  with n d show "get_claim u opn k (wdb w') = Some ?r" by (simp add: get_claim_def sql_exists_iff)
qed

section \<open>The rows of new messages\<close>

text \<open>The body of a message as its owner reads it.\<close>

definition body_of :: "body_cipher \<Rightarrow> message \<Rightarrow> msg_err + string option" where
  "body_of c m = (if sensitive m then (case decrypt c m of Inl e \<Rightarrow> Inl e | Inr p \<Rightarrow> Inr (Some p)) else Inr (body_plaintext m))"

lemma new_message_Inr:
  assumes "new_message c rnd owner dev t body fmt life sens src srcm now ttl w = (Inr m, w')"
  shows "wdb w' = wdb w" "owner_id m = owner" "version m = 1" "title m = t" "body_format m = fmt" "sensitive m = sens"
    "msg_lifecycle m = life" "expires_at m = (if life = Temporary then Some (now + ttl) else None)" "trashed_at m = None"
    "source_user_id m = src" "source_message_id m = srcm" "created_at m = now"
    "sens \<or> body_plaintext m = (if body = [] then None else Some body)"
    "sens \<longrightarrow> body \<noteq> [] \<and> body_ciphertext m \<noteq> None"
    "sens \<and> cipher_ok c \<and> opt_set (\<lambda>n. length n = 12) rnd \<longrightarrow> decrypt c m = Inr body"
proof -
  from assms obtain i w1 where i: "new_id MsgIO w = (Inr i, w1)"
    and b: "(let m = \<lparr>msg_id = i, owner_id = owner, title = t, body_plaintext = None, body_ciphertext = None,
                body_nonce = None, body_encryption_version = None, body_format = fmt, detected_type = None,
                detected_language = None, sensitive = sens, msg_lifecycle = life, favorite = False,
                expires_at = (if life = Temporary then Some (now + ttl) else None), trashed_at = None, purge_at = None,
                source_user_id = src, source_message_id = srcm, created_device_id = Some dev, version = 1,
                created_at = now, updated_at = now\<rparr>
       in if sens then (if body = [] then throw MsgErrValidation
             else (case encrypt c rnd i owner body of Inl e \<Rightarrow> throw e | Inr cnv \<Rightarrow> ret (sealed m cnv)))
          else ret (if body \<noteq> [] then m\<lparr>body_plaintext := Some body\<rparr> else m)) w1 = (Inr m, w')" (is "?b w1 = _")
    unfolding new_message_def by (rule bindA_InrE)
  let ?m = "\<lparr>msg_id = i, owner_id = owner, title = t, body_plaintext = None, body_ciphertext = None,
                body_nonce = None, body_encryption_version = None, body_format = fmt, detected_type = None,
                detected_language = None, sensitive = sens, msg_lifecycle = life, favorite = False,
                expires_at = (if life = Temporary then Some (now + ttl) else None), trashed_at = None, purge_at = None,
                source_user_id = src, source_message_id = srcm, created_device_id = Some dev, version = 1,
                created_at = now, updated_at = now\<rparr>"
  consider (plain) "\<not> sens" "m = (if body \<noteq> [] then ?m\<lparr>body_plaintext := Some body\<rparr> else ?m)" "w' = w1"
    | (sens) cnv where "sens" "body \<noteq> []" "encrypt c rnd i owner body = Inr cnv" "m = sealed ?m cnv" "w' = w1"
    using b by (cases sens) (auto simp: Let_def throw_run ret_run split: if_splits sum.splits)
  then have "wdb w' = wdb w \<and> owner_id m = owner \<and> version m = 1 \<and> title m = t \<and> body_format m = fmt \<and> sensitive m = sens
    \<and> msg_lifecycle m = life \<and> expires_at m = (if life = Temporary then Some (now + ttl) else None) \<and> trashed_at m = None
    \<and> source_user_id m = src \<and> source_message_id m = srcm \<and> created_at m = now
    \<and> (sens \<or> body_plaintext m = (if body = [] then None else Some body))
    \<and> (sens \<longrightarrow> body \<noteq> [] \<and> body_ciphertext m \<noteq> None)
    \<and> (sens \<and> cipher_ok c \<and> opt_set (\<lambda>n. length n = 12) rnd \<longrightarrow> decrypt c m = Inr body)"
  proof cases
    case plain
    then show ?thesis using new_id_Inr [OF i] by simp
  next
    case sens
    from encrypt_Inr [OF sens(3)] obtain n ct where n: "rnd = Some n" "cnv = (ct, n, encryption_version1)" by blast
    have "decrypt c m = Inr body" if "cipher_ok c" "length n = 12"
      by (rule decrypt_sealed [OF that, of ?m body cnv]) (use sens n in \<open>simp_all add: sealed_def\<close>)
    with sens n show ?thesis using new_id_Inr [OF i] by (simp add: sealed_def opt_set_def)
  qed
  then show "wdb w' = wdb w" "owner_id m = owner" "version m = 1" "title m = t" "body_format m = fmt" "sensitive m = sens"
    "msg_lifecycle m = life" "expires_at m = (if life = Temporary then Some (now + ttl) else None)" "trashed_at m = None"
    "source_user_id m = src" "source_message_id m = srcm" "created_at m = now"
    "sens \<or> body_plaintext m = (if body = [] then None else Some body)"
    "sens \<longrightarrow> body \<noteq> [] \<and> body_ciphertext m \<noteq> None"
    "sens \<and> cipher_ok c \<and> opt_set (\<lambda>n. length n = 12) rnd \<longrightarrow> decrypt c m = Inr body"
    by simp_all
qed

lemma insert_message_Inr:
  assumes "insert_message m w = (Inr u, w')"
  shows "wdb w' = (wdb w)\<lparr>messages := messages (wdb w) @ [m]\<rparr>" "message_checks m"
    "msg_id m \<notin> msg_id ` set (messages (wdb w))"
proof -
  from assms obtain ok w1 where e: "exec MsgIO (insert_message_row m) w = (Inr ok, w1)"
    and c: "(if ok then ret () else throw MsgIO) w1 = (Inr u, w')"
    unfolding insert_message_def by (rule bindA_InrE)
  from c have "ok" "w' = w1" by (simp_all add: ret_run throw_run split: if_splits)
  with exec_Inr [OF e] have r: "fst (insert_message_row m (wdb w))" "wdb w' = snd (insert_message_row m (wdb w))" by simp_all
  have *: "wdb w' = (wdb w)\<lparr>messages := messages (wdb w) @ [m]\<rparr> \<and> message_checks m
    \<and> msg_id m \<notin> msg_id ` set (messages (wdb w))"
  proof (cases "sql_exists (\<lambda>r. msg_id r = msg_id m) (messages (wdb w)) \<or> \<not> message_checks m")
    case True
    then show ?thesis using r by (simp add: insert_message_row_def)
  next
    case False
    with r(2) have "wdb w' = (wdb w)\<lparr>messages := messages (wdb w) @ [m]\<rparr>" by (simp only: insert_message_row_def if_False snd_conv)
    moreover have "message_checks m" using False by blast
    moreover have "msg_id m \<notin> msg_id ` set (messages (wdb w))"
    proof
      assume "msg_id m \<in> msg_id ` set (messages (wdb w))"
      then obtain r where "r \<in> set (messages (wdb w))" "msg_id r = msg_id m" by (metis imageE)
      then have "sql_exists (\<lambda>r. msg_id r = msg_id m) (messages (wdb w))" unfolding sql_exists_iff by blast
      with False show False by blast
    qed
    ultimately show ?thesis by blast
  qed
  from * show "wdb w' = (wdb w)\<lparr>messages := messages (wdb w) @ [m]\<rparr>" "message_checks m"
    "msg_id m \<notin> msg_id ` set (messages (wdb w))" by simp_all
qed


section \<open>What a successful transaction did\<close>

lemma insert_tags_Inr:
  "forA is (\<lambda>t. bindA (exec MsgIO (insert_message_tag i t)) (\<lambda>ok. if ok then ret () else throw MsgIO)) w = (Inr u, w') \<Longrightarrow>
   wdb w' = (wdb w)\<lparr>message_tags := message_tags (wdb w) @ map (Pair i) is\<rparr>
     \<and> distinct is \<and> (\<forall>t\<in>set is. (i, t) \<notin> set (message_tags (wdb w)))"
proof (induction "is" arbitrary: w)
  case Nil
  then show ?case by (simp add: ret_run)
next
  case (Cons t ts)
  let ?f = "\<lambda>t. bindA (exec MsgIO (insert_message_tag i t)) (\<lambda>ok. if ok then ret () else throw MsgIO)"
  from Cons.prems obtain v w1 where a: "?f t w = (Inr v, w1)" and b: "forA ts ?f w1 = (Inr u, w')"
    unfolding forA.simps by (rule bindA_InrE)
  from a obtain ok where e: "exec MsgIO (insert_message_tag i t) w = (Inr ok, w1)" and ok: "ok"
    by (rule bindA_InrE) (auto simp: ret_run throw_run split: if_splits)
  from exec_Inr [OF e] ok have n: "(i, t) \<notin> set (message_tags (wdb w))"
    and w1: "wdb w1 = (wdb w)\<lparr>message_tags := message_tags (wdb w) @ [(i, t)]\<rparr>"
    by (simp_all add: insert_message_tag_def split: if_splits)
  from Cons.IH [OF b] n w1 show ?case by auto
qed

lemma replace_message_tags_Inr:
  assumes "replace_message_tags i is w = (Inr u, w')"
  shows "wdb w' = (wdb w)\<lparr>message_tags := sql_delete (\<lambda>mt. fst mt = i) (message_tags (wdb w)) @ map (Pair i) is\<rparr>"
    and "distinct is"
proof -
  from assms obtain v w1 where e: "exec MsgIO (delete_message_tags i) w = (Inr v, w1)"
    and f: "forA is (\<lambda>t. bindA (exec MsgIO (insert_message_tag i t)) (\<lambda>ok. if ok then ret () else throw MsgIO)) w1 = (Inr u, w')"
    unfolding replace_message_tags_def by (rule bindA_InrE)
  from exec_Inr [OF e] insert_tags_Inr [OF f]
  show "wdb w' = (wdb w)\<lparr>message_tags := sql_delete (\<lambda>mt. fst mt = i) (message_tags (wdb w)) @ map (Pair i) is\<rparr>" "distinct is"
    by (simp_all add: delete_message_tags_def)
qed

text \<open>One new message with its attachments.\<close>

definition adds_message :: "message \<Rightarrow> attachment list \<Rightarrow> db \<Rightarrow> db \<Rightarrow> bool" where
  "adds_message m as d d' \<longleftrightarrow> messages d' = messages d @ [m] \<and> message_checks m \<and> msg_id m \<notin> msg_id ` set (messages d)
     \<and> attachments d' = attachments d @ as \<and> (\<forall>a\<in>set as. ma_message a = msg_id m)
     \<and> (distinct (map ma_id (attachments d)) \<longrightarrow> distinct (map ma_id (attachments d @ as)))
     \<and> (distinct (message_tags d) \<longrightarrow> distinct (message_tags d'))"

definition claim_row :: "uuid \<Rightarrow> uuid \<Rightarrow> string \<Rightarrow> string \<Rightarrow> bytes \<Rightarrow> uuid \<Rightarrow> (uuid \<times> time \<times> time \<times> int) option \<Rightarrow> time \<Rightarrow> idem_row" where
  "claim_row k u opn key h res meta now = \<lparr>idem_id = k, idem_user = u, idem_operation = opn, idem_key = key, request_hash = h,
     resource_id = Some res, idem_receipt = meta, idem_expires_at = now + 24 * hour\<rparr>"

lemma delete_claim_fields:
  assumes "d' = d \<or> d' = snd (delete_claim u opn k d)"
  shows "messages d' = messages d" "attachments d' = attachments d" "message_tags d' = message_tags d"
    "uploads d' = uploads d" "file_objects d' = file_objects d" "tags d' = tags d" "users d' = users d"
    "sys_settings d' = sys_settings d"
  using assms by (auto simp: delete_claim_def)

lemma settings_Inr: "message_settings w = (Inr p, w') \<Longrightarrow> wdb w' = wdb w \<and> p = (temporary_ttl (wdb w), trash_ttl (wdb w))"
  unfolding message_settings_def by (drule query_Inr) simp

text \<open>What insertion of a new message followed by an extension of its attachments amounts to.\<close>

lemma adds_messageI:
  assumes m: "wdb w2 = (wdb w1)\<lparr>messages := messages (wdb w1) @ [m]\<rparr>" "message_checks m"
      "msg_id m \<notin> msg_id ` set (messages (wdb w1))"
    and as: "added as (wdb w2) (wdb w3)" "\<forall>a\<in>set as. ma_message a = msg_id m"
    and d: "messages (wdb w1) = messages d" "attachments (wdb w1) = attachments d" "message_tags (wdb w1) = message_tags d"
    and d': "messages d' = messages (wdb w3)" "attachments d' = attachments (wdb w3)"
      "distinct (message_tags (wdb w3)) \<longrightarrow> distinct (message_tags d')"
  shows "adds_message m as d d'"
proof -
  from as(1) obtain js us where w3: "wdb w3 = (wdb w2)\<lparr>attachments := attachments (wdb w2) @ as, jobs := js, uploads := us\<rparr>"
    and di: "distinct (map ma_id (attachments (wdb w2))) \<longrightarrow> distinct (map ma_id (attachments (wdb w2) @ as))"
    unfolding added_def by blast
  have "messages d' = messages d @ [m]" "attachments d' = attachments d @ as" using m(1) w3 d d' by simp_all
  moreover have "distinct (map ma_id (attachments d)) \<longrightarrow> distinct (map ma_id (attachments d @ as))" using di m(1) d(2) by simp
  moreover have "distinct (message_tags d) \<longrightarrow> distinct (message_tags d')" using d'(3) m(1) w3 d(3) by simp
  moreover have "msg_id m \<notin> msg_id ` set (messages d)" using m(3) d(1) by simp
  ultimately show ?thesis unfolding adds_message_def using m(2) as(2) by blast
qed

lemma bound_own:
  assumes "length as = length us"
    "\<forall>k<length us. \<exists>up f. P k up f \<and> attachment_of i (fo_id f) (original_filename up) (client_mime up) (order + int k) (as ! k)"
  shows "\<forall>a\<in>set as. ma_message a = i"
  using assms by (metis in_set_conv_nth attachment_of_def)

lemma create_fresh_Inr:
  assumes "create_fresh sha c rnd owner dev cmd now w = (Inr (m, created, job), w')"
  shows "\<exists>as k. created \<and> get_claim owner operation_create (cc_key cmd) (wdb w') =
         Some (claim_row k owner operation_create (cc_key cmd) (sha (encode_create cmd)) (msg_id m) None now)
      \<and> adds_message m as (wdb w) (wdb w') \<and> length as = length (cc_uploads cmd)
      \<and> owner_id m = owner \<and> title m = cc_title cmd \<and> sensitive m = cc_sensitive cmd
      \<and> (cc_sensitive cmd \<or> body_plaintext m = (if cc_body cmd = [] then None else Some (cc_body cmd)))
      \<and> (cc_sensitive cmd \<longrightarrow> body_ciphertext m \<noteq> None)"
proof -
  from assms obtain u2 w2 p w3 w4 u5 w5 w6 u7 w7 k w8 u9 where v: "validate_tags owner (cc_tags cmd) w = (Inr u2, w2)"
    and st: "message_settings w2 = (Inr p, w3)"
    and nm: "new_message c rnd owner dev (cc_title cmd) (cc_body cmd) (cc_format cmd) (the (lifecycle_of (cc_lifecycle cmd)))
       (cc_sensitive cmd) None None now (fst p) w3 = (Inr m, w4)"
    and ins: "insert_message m w4 = (Inr u5, w5)"
    and bu: "bind_uploads owner (msg_id m) (cc_uploads cmd) 0 now w5 = (Inr job, w6)"
    and tg: "replace_message_tags (msg_id m) (cc_tags cmd) w6 = (Inr u7, w7)"
    and ni: "new_id MsgIO w7 = (Inr k, w8)"
    and co: "complete_idempotency k owner operation_create (cc_key cmd) (sha (encode_create cmd)) (msg_id m) None now w8 = (Inr u9, w')"
    and cr: "created"
    unfolding create_fresh_def by (elim bindA_InrE) (simp add: ret_run)
  note nm' = new_message_Inr [OF nm] and ins' = insert_message_Inr [OF ins] and tg' = replace_message_tags_Inr [OF tg]
  note co' = complete_Inr [OF co] and ni' = new_id_Inr [OF ni]
  have w4: "wdb w4 = wdb w" using nm'(1) settings_Inr [OF st] validate_tags_Inr [OF v] by simp
  from bind_uploads_Inr [OF bu] obtain as where as: "length as = length (cc_uploads cmd)" "added as (wdb w5) (wdb w6)"
    "\<forall>k<length (cc_uploads cmd). \<exists>up f. bindable owner (wdb w5) (cc_uploads cmd ! k) up f
      \<and> attachment_of (msg_id m) (fo_id f) (original_filename up) (client_mime up) (0 + int k) (as ! k)" by blast
  have "adds_message m as (wdb w) (wdb w')"
  proof (rule adds_messageI [OF ins' as(2) bound_own [OF as(1,3)]])
    show "distinct (message_tags (wdb w6)) \<longrightarrow> distinct (message_tags (wdb w'))"
      using co'(1) ni' tg' by (auto simp: distinct_map inj_on_def sql_delete_def)
  qed (use w4 co'(1) ni' tg'(1) in simp_all)
  then show ?thesis using cr co'(2) as(1) nm' by (intro exI [of _ as] exI [of _ k]) (simp add: claim_row_def)
qed

text \<open>The common shape of the three transactions: a claim, and what follows when it found nothing.\<close>

lemma adds_message_cong:
  assumes "d1 = d \<or> d1 = snd (delete_claim u opn k d)" "adds_message m as d1 d'"
  shows "adds_message m as d d'"
  using assms(2) delete_claim_fields [OF assms(1)] by (simp add: adds_message_def)

lemma create_tx_Inr:
  assumes "create_tx sha c rnd owner dev cmd now w = (Inr (m, created, job), w')"
  obtains (found) row where "\<not> created" "\<not> job" "wdb w' = wdb w"
      "live_claim owner operation_create (cc_key cmd) (sha (encode_create cmd)) now (wdb w)"
      "get_claim owner operation_create (cc_key cmd) (wdb w) = Some row"
      "resource_id row = Some (msg_id m)" "owned_message owner (msg_id m) (wdb w) = Some m"
  | (fresh) as k where "created" "\<not> live_claim owner operation_create (cc_key cmd) (sha (encode_create cmd)) now (wdb w)"
      "get_claim owner operation_create (cc_key cmd) (wdb w') =
         Some (claim_row k owner operation_create (cc_key cmd) (sha (encode_create cmd)) (msg_id m) None now)"
      "adds_message m as (wdb w) (wdb w')" "length as = length (cc_uploads cmd)"
      "owner_id m = owner" "title m = cc_title cmd" "sensitive m = cc_sensitive cmd"
      "cc_sensitive cmd \<or> body_plaintext m = (if cc_body cmd = [] then None else Some (cc_body cmd))"
      "cc_sensitive cmd \<longrightarrow> body_ciphertext m \<noteq> None"
proof -
  from assms obtain f w1 where cl: "claim_idempotency owner operation_create (cc_key cmd) (sha (encode_create cmd)) now w = (Inr f, w1)"
    and b: "(case f of Some (res, _) \<Rightarrow> bindA (load_owned owner res) (\<lambda>m. ret (m, False, False))
      | None \<Rightarrow> create_fresh sha c rnd owner dev cmd now) w1 = (Inr (m, created, job), w')"
    unfolding create_tx_def by (rule bindA_InrE)
  from cl show thesis
  proof (cases rule: claim_Inr)
    case (found row res)
    with b have l: "load_owned owner res w1 = (Inr m, w')" and c: "\<not> created" "\<not> job"
      by (simp_all only: option.case prod.case) (erule bindA_InrE; simp add: ret_run)+
    from load_owned_Inr [OF l] have "owned_message owner res (wdb w1) = Some m" "wdb w' = wdb w1" by simp_all
    moreover from this have "msg_id m = res" by (auto dest: owned_message_SomeD)
    ultimately show thesis using found c by (intro that(1) [of row]) (auto simp: live_claim_def)
  next
    case fresh
    with b create_fresh_Inr [of sha c rnd owner dev cmd now w1 m created job w'] show thesis
      by (auto intro!: that(2) adds_message_cong [OF fresh(3)])
  qed
qed


section \<open>Deliveries\<close>

lemma record_delivery_Inr:
  assumes "record_delivery u opn key h m job now w = (Inr (r, v, created, j), w')"
  shows "\<exists>k. created \<and> v = version m \<and> delivery_receipt m = Inr r
    \<and> get_claim u opn key (wdb w') = Some (claim_row k u opn key h (msg_id m) (receipt_meta r v) now)
    \<and> messages (wdb w') = messages (wdb w) \<and> attachments (wdb w') = attachments (wdb w)
    \<and> message_tags (wdb w') = message_tags (wdb w)"
proof -
  from assms obtain k w1 where ni: "new_id MsgIO w = (Inr k, w1)"
    and b: "(case delivery_receipt m of Inl e \<Rightarrow> throw e
      | Inr r \<Rightarrow> bindA (complete_idempotency k u opn key h (msg_id m) (receipt_meta r (version m)) now) (\<lambda>_.
          ret (r, version m, True, job))) w1 = (Inr (r, v, created, j), w')"
    unfolding record_delivery_def by (rule bindA_InrE)
  from b obtain r' where r: "delivery_receipt m = Inr r'" by (cases "delivery_receipt m") (simp_all add: throw_run)
  with b have "bindA (complete_idempotency k u opn key h (msg_id m) (receipt_meta r' (version m)) now) (\<lambda>_.
      ret (r', version m, True, job)) w1 = (Inr (r, v, created, j), w')" by (simp only: sum.case)
  then obtain x s where c: "complete_idempotency k u opn key h (msg_id m) (receipt_meta r' (version m)) now w1 = (Inr x, s)"
    and rt: "ret (r', version m, True, job) s = (Inr (r, v, created, j) :: msg_err + _, w')"
    by (rule bindA_InrE)
  from rt have eq: "r' = r" "v = version m" created "w' = s" by (simp_all add: ret_run)
  with c have co: "complete_idempotency k u opn key h (msg_id m) (receipt_meta r (version m)) now w1 = (Inr x, w')" by simp
  note co' = complete_Inr [OF co] and ni' = new_id_Inr [OF ni]
  have "messages (wdb w') = messages (wdb w)" "attachments (wdb w') = attachments (wdb w)"
    "message_tags (wdb w') = message_tags (wdb w)"
    unfolding co'(1) ni' by simp_all
  moreover have "get_claim u opn key (wdb w') = Some (claim_row k u opn key h (msg_id m) (receipt_meta r v) now)"
    using co'(2) eq(1,2) by (simp only: claim_row_def)
  ultimately show ?thesis using r eq by blast
qed

lemma require_recipient_Inr:
  "require_recipient u w = (Inr x, w') \<Longrightarrow> wdb w' = wdb w \<and> recipient_status u (wdb w) = Some Active"
  unfolding require_recipient_def
  by (elim bindA_InrE) (auto simp: throw_run ret_run split: if_splits dest: query_Inr)

text \<open>A message that arrives at a recipient.\<close>

definition arrives :: "uuid \<Rightarrow> uuid \<Rightarrow> time \<Rightarrow> message \<Rightarrow> receipt \<Rightarrow> db \<Rightarrow> bool" where
  "arrives sender recipient now m r d \<longleftrightarrow> recipient_status recipient d = Some Active \<and> owner_id m = recipient
     \<and> source_user_id m = Some sender \<and> version m = 1 \<and> msg_lifecycle m = Temporary
     \<and> expires_at m = Some (now + temporary_ttl d) \<and> trashed_at m = None
     \<and> r = \<lparr>rc_message = msg_id m, rc_created = now, rc_expires = now + temporary_ttl d\<rparr>"

text \<open>The \<open>k\<close>-th attachment of a message is the file of the \<open>k\<close>-th of the sender's completed uploads.\<close>

definition attached_uploads :: "uuid \<Rightarrow> uuid \<Rightarrow> uuid list \<Rightarrow> attachment list \<Rightarrow> db \<Rightarrow> bool" where
  "attached_uploads sender i us as d \<longleftrightarrow> length as = length us
     \<and> (\<forall>k<length us. \<exists>up f. bindable sender d (us ! k) up f
         \<and> attachment_of i (fo_id f) (original_filename up) (client_mime up) (int k) (as ! k))"

lemma direct_send_fresh_Inr:
  assumes "direct_send_fresh sha c rnd sender dev cmd now w = (Inr (r, v, created, job), w')"
  shows "\<exists>m as k. created \<and> v = 1 \<and> get_claim sender operation_direct_send (dc_key cmd) (wdb w') =
         Some (claim_row k sender operation_direct_send (dc_key cmd) (sha (encode_direct cmd)) (msg_id m) (receipt_meta r v) now)
      \<and> adds_message m as (wdb w) (wdb w') \<and> attached_uploads sender (msg_id m) (dc_uploads cmd) as (wdb w)
      \<and> arrives sender (dc_recipient cmd) now m r (wdb w)
      \<and> title m = dc_title cmd \<and> sensitive m = dc_sensitive cmd
      \<and> (dc_sensitive cmd \<or> body_plaintext m = (if dc_body cmd = [] then None else Some (dc_body cmd)))
      \<and> (dc_sensitive cmd \<longrightarrow> body_ciphertext m \<noteq> None)
      \<and> (dc_sensitive cmd \<and> cipher_ok c \<and> opt_set (\<lambda>n. length n = 12) rnd \<longrightarrow> decrypt c m = Inr (dc_body cmd))"
proof -
  from assms obtain u1 w1 p w2 m w3 u4 w4 j w5 where rq: "require_recipient (dc_recipient cmd) w = (Inr u1, w1)"
    and st: "message_settings w1 = (Inr p, w2)"
    and nm: "new_message c rnd (dc_recipient cmd) dev (dc_title cmd) (dc_body cmd) (dc_format cmd) Temporary
       (dc_sensitive cmd) (Some sender) None now (fst p) w2 = (Inr m, w3)"
    and ins: "insert_message m w3 = (Inr u4, w4)"
    and bu: "bind_uploads sender (msg_id m) (dc_uploads cmd) 0 now w4 = (Inr j, w5)"
    and rd: "record_delivery sender operation_direct_send (dc_key cmd) (sha (encode_direct cmd)) m j now w5
      = (Inr (r, v, created, job), w')"
    unfolding direct_send_fresh_def by (elim bindA_InrE)
  note nm' = new_message_Inr [OF nm] and ins' = insert_message_Inr [OF ins] and rq' = require_recipient_Inr [OF rq]
    and st' = settings_Inr [OF st]
  have w3: "wdb w3 = wdb w" using nm'(1) st' rq' by simp
  from record_delivery_Inr [OF rd] obtain k where rd': "created" "v = version m" "delivery_receipt m = Inr r"
    "get_claim sender operation_direct_send (dc_key cmd) (wdb w') = Some (claim_row k sender operation_direct_send (dc_key cmd)
      (sha (encode_direct cmd)) (msg_id m) (receipt_meta r v) now)"
    "messages (wdb w') = messages (wdb w5)" "attachments (wdb w') = attachments (wdb w5)"
    "message_tags (wdb w') = message_tags (wdb w5)" by blast
  from bind_uploads_Inr [OF bu] obtain as where as: "length as = length (dc_uploads cmd)" "added as (wdb w4) (wdb w5)"
    "\<forall>k<length (dc_uploads cmd). \<exists>up f. bindable sender (wdb w4) (dc_uploads cmd ! k) up f
      \<and> attachment_of (msg_id m) (fo_id f) (original_filename up) (client_mime up) (0 + int k) (as ! k)" by blast
  have "adds_message m as (wdb w) (wdb w')"
    by (rule adds_messageI [OF ins' as(2) bound_own [OF as(1,3)]]) (use w3 rd' in simp_all)
  moreover have "attached_uploads sender (msg_id m) (dc_uploads cmd) as (wdb w)"
    using as(1,3) ins'(1) w3 by (simp add: attached_uploads_def bindable_def)
  moreover have "arrives sender (dc_recipient cmd) now m r (wdb w)"
    using nm' st' rq' rd'(3) by (simp add: arrives_def delivery_receipt_def)
  ultimately show ?thesis
    using rd' nm' by (intro exI [of _ m] exI [of _ as] exI [of _ k]) simp
qed

lemma copy_attachments_added:
  assumes "copy_attachments src dst now w = (Inr job, w')"
  shows "\<exists>as. added as (wdb w) (wdb w') \<and> (\<forall>a\<in>set as. ma_message a = dst)
    \<and> attachment_count dst (wdb w') = attachment_count src (wdb w)"
proof -
  from assms obtain total w1 items w2 w3 copied where q1: "query MsgIO (attachment_count src) w = (Inr total, w1)"
    and q2: "query MsgIO (copyable src) w1 = (Inr items, w2)" and cp: "copy_each dst items now w2 = (Inr job, w3)"
    and q3: "query MsgIO (attachment_count dst) w3 = (Inr copied, w')" and eq: "copied = total"
    unfolding copy_attachments_def by (elim bindA_InrE) (simp add: throw_run ret_run split: if_splits)
  note q = query_Inr [OF q1] query_Inr [OF q2] query_Inr [OF q3]
  from copy_each_Inr [OF cp] obtain as where as: "added as (wdb w2) (wdb w3)"
    and m: "map (\<lambda>a. (ma_message a, ma_file a, ma_filename a, ma_client_mime a, display_order a)) as
       = map (\<lambda>(a, f). (dst, ma_file a, ma_filename a, ma_client_mime a, display_order a)) items" by blast
  from m have "map ma_message as = map (\<lambda>_. dst) items"
    by (auto dest: arg_cong [where f = "map fst"] simp: comp_def split_beta)
  then have "\<forall>a\<in>set as. ma_message a = dst" by (metis (no_types, lifting) in_set_conv_nth length_map nth_map)
  with as q eq show ?thesis by auto
qed

lemma forwarded_body_Inr:
  assumes "forwarded_body c m w = (Inr b, w')"
  shows "wdb w' = wdb w" "sensitive m \<Longrightarrow> decrypt c m = Inr b"
    "\<not> sensitive m \<Longrightarrow> body_plaintext m = Some b \<or> (body_plaintext m = None \<and> b = [] \<and> attachment_count (msg_id m) (wdb w) \<noteq> 0)"
proof -
  have "wdb w' = wdb w \<and> (sensitive m \<longrightarrow> decrypt c m = Inr b) \<and>
    (\<not> sensitive m \<longrightarrow> body_plaintext m = Some b \<or> (body_plaintext m = None \<and> b = [] \<and> attachment_count (msg_id m) (wdb w) \<noteq> 0))"
  proof (cases "sensitive m")
    case True
    with assms show ?thesis by (cases "decrypt c m") (simp_all add: forwarded_body_def throw_run ret_run)
  next
    case False
    show ?thesis
    proof (cases "body_plaintext m")
      case None
      with False assms have "bindA (query MsgIO (attachment_count (msg_id m))) (\<lambda>n.
            if n = 0 then throw MsgErrContentRequired else ret []) w = (Inr b, w')"
        by (simp only: forwarded_body_def if_False option.case)
      then obtain n s where q: "query MsgIO (attachment_count (msg_id m)) w = (Inr n, s)"
        and k: "(if n = 0 then throw MsgErrContentRequired else ret []) s = (Inr b, w')"
        by (rule bindA_InrE)
      from k have "n \<noteq> 0" "b = []" "w' = s" by (simp_all add: throw_run ret_run split: if_splits)
      with query_Inr [OF q] None False show ?thesis by simp
    qed (use False assms in \<open>simp add: forwarded_body_def ret_run\<close>)
  qed
  then show "wdb w' = wdb w" "sensitive m \<Longrightarrow> decrypt c m = Inr b"
    "\<not> sensitive m \<Longrightarrow> body_plaintext m = Some b \<or> (body_plaintext m = None \<and> b = [] \<and> attachment_count (msg_id m) (wdb w) \<noteq> 0)"
    by simp_all
qed

text \<open>The attachments of every message belong to a stored message, and files have distinct keys.\<close>

definition attachments_linked :: "db \<Rightarrow> bool" where
  "attachments_linked d \<longleftrightarrow> distinct (map fo_id (file_objects d)) \<and> (\<forall>a\<in>set (attachments d). ma_message a \<in> msg_id ` set (messages d))"

lemma forward_fresh_Inr:
  assumes "forward_fresh sha c rnd sender dev cmd now w = (Inr (r, v, created, job), w')"
  shows "\<exists>src m as k b. created \<and> v = 1 \<and> get_claim sender operation_forward (fc_key cmd) (wdb w') =
         Some (claim_row k sender operation_forward (fc_key cmd) (sha (encode_forward cmd)) (msg_id m) (receipt_meta r v) now)
      \<and> owned_message sender (fc_source cmd) (wdb w) = Some src \<and> version src = fc_expected cmd \<and> trashed_at src = None
      \<and> adds_message m as (wdb w) (wdb w') \<and> arrives sender (fc_recipient cmd) now m r (wdb w)
      \<and> title m = title src \<and> body_format m = body_format src \<and> sensitive m = sensitive src
      \<and> body_of c src = Inr b \<and> (sensitive src \<or> body_plaintext m = (if b = Some [] then None else b))
      \<and> (sensitive src \<longrightarrow> body_ciphertext m \<noteq> None)
      \<and> (sensitive src \<and> cipher_ok c \<and> opt_set (\<lambda>n. length n = 12) rnd \<longrightarrow> body_of c m = Inr b)
      \<and> attachment_count (msg_id m) (wdb w') = attachment_count (msg_id src) (wdb w)
      \<and> (body_plaintext m = None \<and> body_ciphertext m = None \<and> b \<noteq> Some [] \<longrightarrow> attachment_count (msg_id src) (wdb w) \<noteq> 0)
      \<and> (attachments_linked (wdb w) \<longrightarrow>
           map attachment_data as = map (attachment_data \<circ> fst) (attachment_list (msg_id src) (wdb w)))"
proof -
  from assms obtain src w0 where ld: "load_owned sender (fc_source cmd) w = (Inr src, w0)"
    and vs: "version src = fc_expected cmd" and ts: "trashed_at src = None"
    and b: "bindA (require_recipient (fc_recipient cmd)) (\<lambda>_.
     bindA (forwarded_body c src) (\<lambda>body.
     bindA message_settings (\<lambda>ttl.
     bindA (new_message c rnd (fc_recipient cmd) dev (title src) body (body_format src) Temporary
       (sensitive src) (Some sender) (Some (msg_id src)) now (fst ttl)) (\<lambda>m.
     bindA (insert_message m) (\<lambda>_.
     bindA (copy_attachments (msg_id src) (msg_id m) now) (\<lambda>job.
     record_delivery sender operation_forward (fc_key cmd) (sha (encode_forward cmd)) m job now)))))) w0
      = (Inr (r, v, created, job), w')"
    unfolding forward_fresh_def by (rule bindA_InrE) (auto simp: throw_run split: if_splits)
  from b obtain u1 w1 body wb p w2 m w3 u4 w4 j w5 where rq: "require_recipient (fc_recipient cmd) w0 = (Inr u1, w1)"
    and fb: "forwarded_body c src w1 = (Inr body, wb)" and st: "message_settings wb = (Inr p, w2)"
    and nm: "new_message c rnd (fc_recipient cmd) dev (title src) body (body_format src) Temporary
       (sensitive src) (Some sender) (Some (msg_id src)) now (fst p) w2 = (Inr m, w3)"
    and ins: "insert_message m w3 = (Inr u4, w4)"
    and cp: "copy_attachments (msg_id src) (msg_id m) now w4 = (Inr j, w5)"
    and rd: "record_delivery sender operation_forward (fc_key cmd) (sha (encode_forward cmd)) m j now w5
      = (Inr (r, v, created, job), w')"
    by (elim bindA_InrE)
  note ld' = load_owned_Inr [OF ld] and nm' = new_message_Inr [OF nm] and ins' = insert_message_Inr [OF ins]
    and rq' = require_recipient_Inr [OF rq] and st' = settings_Inr [OF st] and fb' = forwarded_body_Inr [OF fb]
  have w3: "wdb w3 = wdb w" using nm'(1) st' fb'(1) rq' ld' by simp
  from record_delivery_Inr [OF rd] obtain k where rd': "created" "v = version m" "delivery_receipt m = Inr r"
    "get_claim sender operation_forward (fc_key cmd) (wdb w') = Some (claim_row k sender operation_forward (fc_key cmd)
      (sha (encode_forward cmd)) (msg_id m) (receipt_meta r v) now)"
    "messages (wdb w') = messages (wdb w5)" "attachments (wdb w') = attachments (wdb w5)"
    "message_tags (wdb w') = message_tags (wdb w5)" by blast
  obtain as where as: "added as (wdb w4) (wdb w5)" "\<forall>a\<in>set as. ma_message a = msg_id m"
    and data: "attachments_linked (wdb w) \<longrightarrow>
      map attachment_data as = map (attachment_data \<circ> fst) (attachment_list (msg_id src) (wdb w))"
  proof (cases "attachments_linked (wdb w)")
    case True
    have "attachment_count (msg_id m) (wdb w4) = 0"
      unfolding attachment_count_def sql_count_0
    proof
      fix a assume "a \<in> set (attachments (wdb w4))"
      then have "ma_message a \<in> msg_id ` set (messages (wdb w))" using True ins'(1) w3 by (simp add: attachments_linked_def)
      then show "ma_message a \<noteq> msg_id m" using ins'(3) w3 by metis
    qed
    moreover have "distinct (map fo_id (file_objects (wdb w4)))" using True ins'(1) w3 by (simp add: attachments_linked_def)
    ultimately obtain as where "added as (wdb w4) (wdb w5)" "\<forall>a\<in>set as. ma_message a = msg_id m"
      "map attachment_data as = map (attachment_data \<circ> fst) (attachment_list (msg_id src) (wdb w4))"
      using copy_attachments_Inr [OF cp] by blast
    moreover have "attachment_list (msg_id src) (wdb w4) = attachment_list (msg_id src) (wdb w)"
      using ins'(1) w3 by (simp add: attachment_list_def)
    ultimately show thesis using that [of as] by metis
  next
    case False
    with copy_attachments_added [OF cp] that show thesis by blast
  qed
  have cnt: "attachment_count (msg_id m) (wdb w') = attachment_count (msg_id src) (wdb w)"
    using copy_attachments_added [OF cp] rd'(6) ins'(1) w3 by (auto simp: attachment_count_def)
  have "adds_message m as (wdb w) (wdb w')"
    by (rule adds_messageI [OF ins' as]) (use w3 rd' in simp_all)
  moreover have "arrives sender (fc_recipient cmd) now m r (wdb w)"
    using nm' st' fb'(1) rq' ld' rd'(3) by (simp add: arrives_def delivery_receipt_def)
  moreover obtain b where "body_of c src = Inr b" "sensitive src \<or> body_plaintext m = (if b = Some [] then None else b)"
    "sensitive src \<and> cipher_ok c \<and> opt_set (\<lambda>n. length n = 12) rnd \<longrightarrow> body_of c m = Inr b"
    "body_plaintext m = None \<and> body_ciphertext m = None \<and> b \<noteq> Some [] \<longrightarrow> attachment_count (msg_id src) (wdb w) \<noteq> 0"
  proof (cases "sensitive src")
    case True
    have "body_of c src = Inr (Some body)" using True fb'(2) by (simp add: body_of_def)
    moreover have "cipher_ok c \<and> opt_set (\<lambda>n. length n = 12) rnd \<longrightarrow> body_of c m = Inr (Some body)"
      using True nm'(6,15) by (simp add: body_of_def)
    moreover have "body_ciphertext m \<noteq> None" using True nm'(14) by simp
    ultimately show thesis by (intro that [of "Some body"]) (use True in auto)
  next
    case False
    have "wdb w1 = wdb w" using rq' ld' by simp
    with False fb'(3) nm' that [of "body_plaintext src"] show thesis by (auto simp: body_of_def split: if_splits)
  qed
  ultimately show ?thesis
    using rd' ld' nm' vs ts cnt data
    by (intro exI [of _ src] exI [of _ m] exI [of _ as] exI [of _ k] exI [of _ b]) simp
qed

end
