(* ===== verification/DeliveryLaws.thy ===== *)
theory DeliveryLaws
  imports Delivery
begin

text \<open>
  What creations, direct sends and forwards promise: at most one message per idempotency key however
  often a request is repeated, faithful replays, and exact delivery. The interface \<open>repeatable\<close>
  is what makes an operation safe to retry; the three operations implement it.
\<close>


section \<open>Calls that leave the database alone\<close>

definition reads_only :: "(world, 'e, 'a) act \<Rightarrow> bool" where
  "reads_only m \<longleftrightarrow> (\<forall>w. wdb (snd (m w)) = wdb w)"

lemma reads_only_keeps: "(\<And>d. keeps (on_db (\<lambda>x. x = d)) m) \<Longrightarrow> reads_only m"
  by (simp add: reads_only_def keeps_def on_db_def)

lemma bindA_reads_only: "(\<And>x. reads_only (f x)) \<Longrightarrow> wdb (snd (bindA m f w)) = wdb (snd (m w))"
  by (auto simp: reads_only_def bindA_run split: prod.splits sum.splits)

lemma keeps_signal [keeps_intro]: "keeps (on_db J) (signal_jobs job)"
  unfolding signal_jobs_def by (intro keeps_intro) (simp add: on_db_def)

lemma with_tx_db:
  assumes "with_tx body w = (r, w')"
  obtains (unchanged) "wdb w' = wdb w"
  | (effect) w0 x w1 where "wdb w0 = wdb w" "body w0 = (Inr x, w1)" "wdb w' = wdb w1" "r = Inr x \<or> r = Inl MsgIO"
  using assms unfolding with_tx_def
proof (cases rule: in_tx_effect)
  case (effect w0 w1 x)
  from effect(2) obtain "body w0 = (Inr x, w1)" by (rule bindA_InrE) (simp add: commit_tx_def ret_run)
  with effect show thesis by (intro that(2)) auto
qed (rule that(1))

text \<open>A transaction that starts with a claim changes nothing when the request was served before.\<close>

lemma claimed_keeps:
  assumes l: "live_claim u opn k h now (wdb w)" and g: "\<And>f. reads_only (g f)"
  shows "wdb (snd (bindA (claim_idempotency u opn k h now) (\<lambda>found. case found of None \<Rightarrow> n | Some f \<Rightarrow> g f) w)) = wdb w"
proof -
  obtain r w1 where c: "claim_idempotency u opn k h now w = (r, w1)" by fastforce
  with claim_keeps_db [OF l] have w1: "wdb w1 = wdb w" by simp
  show ?thesis
  proof (cases r)
    case (Inr found)
    with c have "claim_idempotency u opn k h now w = (Inr found, w1)" by simp
    then have "found \<noteq> None" by (cases rule: claim_Inr) (use l in auto)
    then obtain f where "found = Some f" by blast
    with c Inr g [of f] w1 show ?thesis by (simp add: bindA_run reads_only_def)
  qed (use c w1 in \<open>simp add: bindA_run\<close>)
qed

lemma reads_only_found: "reads_only (bindA (load_owned owner res) (\<lambda>m. ret (m, False, False)))" "reads_only (redeliver f)"
proof -
  show "reads_only (bindA (load_owned owner res) (\<lambda>m. ret (m, False, False)))"
    by (rule reads_only_keeps) (intro keeps_intro)
  show "reads_only (redeliver f)"
    unfolding redeliver_def by (rule reads_only_keeps) (intro keeps_intro)
qed

section \<open>At most one message per key\<close>

text \<open>Attempts of an operation, each with parameters of its own and at its own time; what they return is lost.\<close>

definition attempts :: "('p \<Rightarrow> time \<Rightarrow> (world, msg_err, 'a) act) \<Rightarrow> world \<Rightarrow> ('p \<times> time) list \<Rightarrow> world" where
  "attempts opr = foldl (\<lambda>w pt. snd (opr (fst pt) (snd pt) w))"

lemma attempts_simps [simp]:
  "attempts opr w [] = w" "attempts opr w (pt # as) = attempts opr (snd (opr (fst pt) (snd pt) w)) as"
  by (simp_all add: attempts_def)

text \<open>What an operation promises that is safe to repeat: while its result is stored (\<open>live\<close>) it changes
  nothing; otherwise it changes nothing, or adds one message and stores its result for a day.\<close>

locale repeatable =
  fixes opr :: "'p \<Rightarrow> time \<Rightarrow> (world, msg_err, 'a) act" and live :: "time \<Rightarrow> db \<Rightarrow> bool"
  assumes replay: "live t (wdb w) \<Longrightarrow> wdb (snd (opr p t w)) = wdb w"
    and fresh: "wdb (snd (opr p t w)) = wdb w \<or>
      (\<exists>m. messages (wdb (snd (opr p t w))) = messages (wdb w) @ [m] \<and> (\<forall>s<t + 24 * hour. live s (wdb (snd (opr p t w)))))"
begin

lemma attempts_live:
  "\<forall>pt\<in>set as. live (snd pt) (wdb w) \<Longrightarrow> wdb (attempts opr w as) = wdb w"
proof (induction as arbitrary: w)
  case (Cons pt as)
  have "wdb (snd (opr (fst pt) (snd pt) w)) = wdb w" using Cons.prems replay by simp
  with Cons show ?case by simp
qed simp

lemma attempts_once:
  "\<forall>pt\<in>set as. t0 \<le> snd pt \<and> snd pt < t0 + 24 * hour \<Longrightarrow>
   messages (wdb (attempts opr w as)) = messages (wdb w) \<or> (\<exists>m. messages (wdb (attempts opr w as)) = messages (wdb w) @ [m])"
proof (induction as arbitrary: w)
  case (Cons pt as)
  from fresh [of "fst pt" "snd pt" w]
  consider "wdb (snd (opr (fst pt) (snd pt) w)) = wdb w"
    | m where "messages (wdb (snd (opr (fst pt) (snd pt) w))) = messages (wdb w) @ [m]"
        "\<And>s. s < snd pt + 24 * hour \<Longrightarrow> live s (wdb (snd (opr (fst pt) (snd pt) w)))"
    by blast
  then show ?case
  proof cases
    case 1
    with Cons.IH [of "snd (opr (fst pt) (snd pt) w)"] Cons.prems show ?thesis by simp
  next
    case (2 m)
    have "\<forall>pt'\<in>set as. live (snd pt') (wdb (snd (opr (fst pt) (snd pt) w)))" using Cons.prems 2(2) by fastforce
    from attempts_live [OF this] 2(1) show ?thesis by simp
  qed
qed simp

end

lemma claim_row_live:
  "get_claim u opn k d = Some (claim_row i u opn k h res meta t) \<Longrightarrow> s < t + 24 * hour \<Longrightarrow> live_claim u opn k h s d"
  by (simp add: live_claim_def claim_row_def)

text \<open>The hash of the request after its title was normalised.\<close>

definition create_hash :: "(bytes \<Rightarrow> bytes) \<Rightarrow> create_command \<Rightarrow> bytes" where
  "create_hash sha cmd = (case normalize_title (cc_title cmd) of Inl e \<Rightarrow> [] | Inr t \<Rightarrow> sha (encode_create (cmd\<lparr>cc_title := t\<rparr>)))"

definition direct_hash :: "(bytes \<Rightarrow> bytes) \<Rightarrow> direct_command \<Rightarrow> bytes" where
  "direct_hash sha cmd = (case normalize_title (dc_title cmd) of Inl e \<Rightarrow> [] | Inr t \<Rightarrow> sha (encode_direct (cmd\<lparr>dc_title := t\<rparr>)))"

lemma create_result_db:
  assumes "create_result sha c rnd owner dev cmd now w = (r, w')"
  obtains (unchanged) "wdb w' = wdb w"
  | (tx) t w0 x w1 where "normalize_title (cc_title cmd) = Inr t" "create_valid cmd" "wdb w0 = wdb w"
      "create_tx sha c rnd owner dev (cmd\<lparr>cc_title := t\<rparr>) now w0 = (Inr x, w1)" "wdb w' = wdb w1"
proof (cases "normalize_title (cc_title cmd)")
  case (Inl e)
  then show thesis using assms that(1) by (simp add: create_result_def throw_run)
next
  case (Inr t)
  show thesis
  proof (cases "create_valid cmd")
    case False
    then show thesis using assms Inr that(1) by (simp add: create_result_def throw_run)
  next
    case True
    let ?tx = "with_tx (create_tx sha c rnd owner dev (cmd\<lparr>cc_title := t\<rparr>) now)"
    obtain tr tw where tx: "?tx w = (tr, tw)" by fastforce
    have "wdb w' = wdb tw"
    proof -
      have "reads_only (bindA (signal_jobs job) (\<lambda>_. bindA (load_tags (msg_id m)) (\<lambda>ts.
          bindA (load_attachments (msg_id m) 0) (\<lambda>as. ret (\<lparr>view_row = m, view_tags = ts, view_attachments = as\<rparr>, created)))))"
        for m and created :: bool and job by (rule reads_only_keeps) (intro keeps_intro)
      then have "wdb (snd (bindA ?tx (\<lambda>(m, created, job). bindA (signal_jobs job) (\<lambda>_. bindA (load_tags (msg_id m)) (\<lambda>ts.
          bindA (load_attachments (msg_id m) 0) (\<lambda>as. ret (\<lparr>view_row = m, view_tags = ts, view_attachments = as\<rparr>, created))))) w))
          = wdb (snd (?tx w))"
        by (intro bindA_reads_only) (simp split: prod.split)
      then show ?thesis using assms Inr True tx by (simp add: create_result_def)
    qed
    with tx show thesis by (cases rule: with_tx_db) (auto intro: that Inr True)
  qed
qed

lemma deliver_db:
  assumes "deliver tx w = (r, w')"
  obtains (unchanged) "wdb w' = wdb w"
  | (tx) w0 x w1 where "wdb w0 = wdb w" "tx w0 = (Inr x, w1)" "wdb w' = wdb w1"
proof -
  obtain tr tw where tx: "with_tx tx w = (tr, tw)" by fastforce
  have "reads_only (bindA (signal_jobs job) (\<lambda>_. ret (rc, v, created)))" for job and rc :: receipt and v :: int and created :: bool
    by (rule reads_only_keeps) (intro keeps_intro)
  then have "wdb (snd (deliver tx w)) = wdb (snd (with_tx tx w))"
    unfolding deliver_def by (intro bindA_reads_only) (simp split: prod.split)
  then have "wdb w' = wdb tw" using assms tx by simp
  with tx show thesis by (cases rule: with_tx_db) (auto intro: that)
qed

lemma direct_send_result_db:
  assumes "direct_send_result sha c rnd sender dev cmd now w = (r, w')"
  obtains (unchanged) "wdb w' = wdb w"
  | (tx) t w0 x w1 where "normalize_title (dc_title cmd) = Inr t" "direct_valid cmd" "wdb w0 = wdb w"
      "direct_send_tx sha c rnd sender dev (cmd\<lparr>dc_title := t\<rparr>) now w0 = (Inr x, w1)" "wdb w' = wdb w1"
proof (cases "normalize_title (dc_title cmd)")
  case (Inl e)
  then show thesis using assms that(1) by (simp add: direct_send_result_def throw_run)
next
  case (Inr t)
  show thesis
  proof (cases "direct_valid cmd")
    case False
    then show thesis using assms Inr that(1) by (simp add: direct_send_result_def throw_run)
  next
    case True
    with assms Inr have "deliver (direct_send_tx sha c rnd sender dev (cmd\<lparr>dc_title := t\<rparr>) now) w = (r, w')"
      by (simp add: direct_send_result_def)
    then show thesis by (cases rule: deliver_db) (auto intro: that Inr True)
  qed
qed

lemma forward_result_db:
  assumes "forward_result sha c rnd sender dev cmd now w = (r, w')"
  obtains (unchanged) "wdb w' = wdb w"
  | (tx) w0 x w1 where "1 \<le> fc_expected cmd" "valid_idempotency_key (fc_key cmd)" "wdb w0 = wdb w"
      "forward_tx sha c rnd sender dev cmd now w0 = (Inr x, w1)" "wdb w' = wdb w1"
proof (cases "fc_expected cmd < 1 \<or> \<not> valid_idempotency_key (fc_key cmd)")
  case True
  then show thesis using assms that(1) by (simp add: forward_result_def throw_run)
next
  case False
  with assms have "deliver (forward_tx sha c rnd sender dev cmd now) w = (r, w')" by (auto simp: forward_result_def)
  then show thesis by (cases rule: deliver_db) (use False that in auto)
qed

lemma direct_send_tx_Inr:
  assumes "direct_send_tx sha c rnd sender dev cmd now w = (Inr x, w')"
  obtains (found) "wdb w' = wdb w" "live_claim sender operation_direct_send (dc_key cmd) (sha (encode_direct cmd)) now (wdb w)"
  | (fresh) w1 where "\<not> live_claim sender operation_direct_send (dc_key cmd) (sha (encode_direct cmd)) now (wdb w)"
      "wdb w1 = wdb w \<or> wdb w1 = snd (delete_claim sender operation_direct_send (dc_key cmd) (wdb w))"
      "direct_send_fresh sha c rnd sender dev cmd now w1 = (Inr x, w')"
proof -
  from assms obtain f w1 where cl: "claim_idempotency sender operation_direct_send (dc_key cmd) (sha (encode_direct cmd)) now w = (Inr f, w1)"
    and b: "(case f of Some f \<Rightarrow> redeliver f | None \<Rightarrow> direct_send_fresh sha c rnd sender dev cmd now) w1 = (Inr x, w')"
    unfolding direct_send_tx_def by (rule bindA_InrE)
  from cl show thesis
  proof (cases rule: claim_Inr)
    case (found row res)
    with b reads_only_found(2) have "wdb w' = wdb w1" by (simp add: reads_only_def) (metis snd_conv)
    with found show thesis by (intro that(1)) (simp_all add: live_claim_def)
  qed (use b that(2) in simp)
qed

lemma forward_tx_Inr:
  assumes "forward_tx sha c rnd sender dev cmd now w = (Inr x, w')"
  obtains (found) "wdb w' = wdb w" "live_claim sender operation_forward (fc_key cmd) (sha (encode_forward cmd)) now (wdb w)"
  | (fresh) w1 where "\<not> live_claim sender operation_forward (fc_key cmd) (sha (encode_forward cmd)) now (wdb w)"
      "wdb w1 = wdb w \<or> wdb w1 = snd (delete_claim sender operation_forward (fc_key cmd) (wdb w))"
      "forward_fresh sha c rnd sender dev cmd now w1 = (Inr x, w')"
proof -
  from assms obtain f w1 where cl: "claim_idempotency sender operation_forward (fc_key cmd) (sha (encode_forward cmd)) now w = (Inr f, w1)"
    and b: "(case f of Some f \<Rightarrow> redeliver f | None \<Rightarrow> forward_fresh sha c rnd sender dev cmd now) w1 = (Inr x, w')"
    unfolding forward_tx_def by (rule bindA_InrE)
  from cl show thesis
  proof (cases rule: claim_Inr)
    case (found row res)
    with b reads_only_found(2) have "wdb w' = wdb w1" by (simp add: reads_only_def) (metis snd_conv)
    with found show thesis by (intro that(1)) (simp_all add: live_claim_def)
  qed (use b that(2) in simp)
qed


interpretation creation: repeatable "\<lambda>p. create_result sha c (fst p) owner (snd p) cmd"
  "live_claim owner operation_create (cc_key cmd) (create_hash sha cmd)" for sha c owner cmd
proof
  fix t w and p :: "bytes option \<times> uuid"
  let ?op = "create_result sha c (fst p) owner (snd p) cmd t w"
  let ?live = "live_claim owner operation_create (cc_key cmd) (create_hash sha cmd)"
  obtain r w' where r: "?op = (r, w')" by fastforce
  have tx: "wdb w' = wdb w \<or> (\<not> ?live t (wdb w) \<and> (\<exists>m. messages (wdb w') = messages (wdb w) @ [m]
    \<and> (\<forall>s<t + 24 * hour. ?live s (wdb w'))))"
    using r
  proof (cases rule: create_result_db)
    case (tx ti w0 x w1)
    obtain m created job where x: "x = (m, created, job)" by (cases x) auto
    let ?cmd = "cmd\<lparr>cc_title := ti\<rparr>"
    have h: "sha (encode_create ?cmd) = create_hash sha cmd" using tx(1) by (simp add: create_hash_def)
    from tx(4) [unfolded x] show ?thesis
    proof (cases rule: create_tx_Inr)
      case (fresh as k)
      have "\<forall>s<t + 24 * hour. ?live s (wdb w1)"
        using claim_row_live [OF fresh(3)] h by simp
      then show ?thesis using fresh(2,4) tx(3,5) h by (auto simp: adds_message_def)
    qed (use tx in simp)
  qed simp
  then show "wdb (snd ?op) = wdb w \<or> (\<exists>m. messages (wdb (snd ?op)) = messages (wdb w) @ [m] \<and> (\<forall>s<t + 24 * hour. ?live s (wdb (snd ?op))))"
    using r by auto
  show "wdb (snd ?op) = wdb w" if "?live t (wdb w)" using tx that r by simp
qed

interpretation direct_sending: repeatable "\<lambda>p. direct_send_result sha c (fst p) sender (snd p) cmd"
  "live_claim sender operation_direct_send (dc_key cmd) (direct_hash sha cmd)" for sha c sender cmd
proof
  fix t w and p :: "bytes option \<times> uuid"
  let ?op = "direct_send_result sha c (fst p) sender (snd p) cmd t w"
  let ?live = "live_claim sender operation_direct_send (dc_key cmd) (direct_hash sha cmd)"
  obtain r w' where r: "?op = (r, w')" by fastforce
  have tx: "wdb w' = wdb w \<or> (\<not> ?live t (wdb w) \<and> (\<exists>m. messages (wdb w') = messages (wdb w) @ [m]
    \<and> (\<forall>s<t + 24 * hour. ?live s (wdb w'))))"
    using r
  proof (cases rule: direct_send_result_db)
    case (tx ti w0 x w1)
    obtain rc v created job where x: "x = (rc, v, created, job)" by (cases x) auto
    have h: "sha (encode_direct (cmd\<lparr>dc_title := ti\<rparr>)) = direct_hash sha cmd" using tx(1) by (simp add: direct_hash_def)
    from tx(4) [unfolded x] show ?thesis
    proof (cases rule: direct_send_tx_Inr)
      case (fresh w2)
      from direct_send_fresh_Inr [OF fresh(3)] obtain m as k where f:
        "get_claim sender operation_direct_send (dc_key cmd) (wdb w1) = Some (claim_row k sender operation_direct_send (dc_key cmd)
           (direct_hash sha cmd) (msg_id m) (receipt_meta rc v) t)"
        "adds_message m as (wdb w2) (wdb w1)" unfolding h by auto
      have "\<forall>s<t + 24 * hour. ?live s (wdb w1)" using claim_row_live [OF f(1)] by simp
      then show ?thesis using fresh(1) f(2) adds_message_cong [OF fresh(2) f(2)] tx(3,5) h by (auto simp: adds_message_def)
    qed (use tx in simp)
  qed simp
  then show "wdb (snd ?op) = wdb w \<or> (\<exists>m. messages (wdb (snd ?op)) = messages (wdb w) @ [m] \<and> (\<forall>s<t + 24 * hour. ?live s (wdb (snd ?op))))"
    using r by auto
  show "wdb (snd ?op) = wdb w" if "?live t (wdb w)" using tx that r by simp
qed

interpretation forwarding: repeatable "\<lambda>p. forward_result sha c (fst p) sender (snd p) cmd"
  "live_claim sender operation_forward (fc_key cmd) (sha (encode_forward cmd))" for sha c sender cmd
proof
  fix t w and p :: "bytes option \<times> uuid"
  let ?op = "forward_result sha c (fst p) sender (snd p) cmd t w"
  let ?live = "live_claim sender operation_forward (fc_key cmd) (sha (encode_forward cmd))"
  obtain r w' where r: "?op = (r, w')" by fastforce
  have tx: "wdb w' = wdb w \<or> (\<not> ?live t (wdb w) \<and> (\<exists>m. messages (wdb w') = messages (wdb w) @ [m]
    \<and> (\<forall>s<t + 24 * hour. ?live s (wdb w'))))"
    using r
  proof (cases rule: forward_result_db)
    case (tx w0 x w1)
    obtain rc v created job where x: "x = (rc, v, created, job)" by (cases x) auto
    from tx(4) [unfolded x] show ?thesis
    proof (cases rule: forward_tx_Inr)
      case (fresh w2)
      from forward_fresh_Inr [OF fresh(3)] obtain m as k where f:
        "get_claim sender operation_forward (fc_key cmd) (wdb w1) = Some (claim_row k sender operation_forward (fc_key cmd)
           (sha (encode_forward cmd)) (msg_id m) (receipt_meta rc v) t)"
        "adds_message m as (wdb w2) (wdb w1)" by auto
      have "\<forall>s<t + 24 * hour. ?live s (wdb w1)" using claim_row_live [OF f(1)] by simp
      then show ?thesis using fresh(1) adds_message_cong [OF fresh(2) f(2)] tx(3,5) by (auto simp: adds_message_def)
    qed (use tx in simp)
  qed simp
  then show "wdb (snd ?op) = wdb w \<or> (\<exists>m. messages (wdb (snd ?op)) = messages (wdb w) @ [m] \<and> (\<forall>s<t + 24 * hour. ?live s (wdb (snd ?op))))"
    using r by auto
  show "wdb (snd ?op) = wdb w" if "?live t (wdb w)" using tx that r by simp
qed

text \<open>C2: However often a request is repeated under its idempotency key within a day, by any device, and whichever
  of its database calls fail or lose their reply, at most one message comes out of it: for creations, direct sends and
  forwards alike.\<close>

theorem retries_add_at_most_one_message:
  assumes "\<forall>pt\<in>set as. t0 \<le> snd pt \<and> snd pt < t0 + 24 * hour"
  shows "length (messages (wdb (attempts (\<lambda>p. create_result sha c (fst p) u (snd p) cc) w as))) \<le> length (messages (wdb w)) + 1
    \<and> length (messages (wdb (attempts (\<lambda>p. direct_send_result sha c (fst p) u (snd p) dc) w as))) \<le> length (messages (wdb w)) + 1
    \<and> length (messages (wdb (attempts (\<lambda>p. forward_result sha c (fst p) u (snd p) fc) w as))) \<le> length (messages (wdb w)) + 1"
proof (intro conjI)
  from creation.attempts_once [OF assms, of sha c u cc w]
  show "length (messages (wdb (attempts (\<lambda>p. create_result sha c (fst p) u (snd p) cc) w as))) \<le> length (messages (wdb w)) + 1"
    by (elim disjE exE) simp_all
  from direct_sending.attempts_once [OF assms, of sha c u dc w]
  show "length (messages (wdb (attempts (\<lambda>p. direct_send_result sha c (fst p) u (snd p) dc) w as))) \<le> length (messages (wdb w)) + 1"
    by (elim disjE exE) simp_all
  from forwarding.attempts_once [OF assms, of sha c u fc w]
  show "length (messages (wdb (attempts (\<lambda>p. forward_result sha c (fst p) u (snd p) fc) w as))) \<le> length (messages (wdb w)) + 1"
    by (elim disjE exE) simp_all
qed


section \<open>Replays\<close>

lemma claim_quiet:
  assumes "quiet w" "get_claim u opn k (wdb w) = Some (claim_row i u opn k h res meta t)" "now < t + 24 * hour"
  shows "claim_idempotency u opn k h' now w = (if h' = h then Inr (Some (res, meta)) else Inl MsgErrIdempotencyKeyReused, w)"
  using assms by (simp add: claim_idempotency_def bindA_run query_quiet claim_row_def ret_run throw_run)

lemma with_tx_quiet: "quiet w \<Longrightarrow> body w = (Inr x, w) \<Longrightarrow> with_tx body w = (Inr x, w)"
  "quiet w \<Longrightarrow> body w = (Inl e, w) \<Longrightarrow> with_tx body w = (Inl e, w)"
  by (simp_all add: with_tx_def in_tx_quiet bindA_run commit_tx_def ret_run pop_fault_def)

lemma signal_False: "signal_jobs False w = (Inr (), w)"
  by (simp add: signal_jobs_def modifyA_run)

lemma signal_Inr: "signal_jobs job w = (r, w') \<Longrightarrow> wdb w' = wdb w"
  by (auto simp: signal_jobs_def modifyA_run)

lemma by_key_append: "k r \<notin> k ` set rows \<Longrightarrow> by_key k (k r) (rows @ [r]) = Some r"
  by (induction rows) (auto simp: by_key_def)

text \<open>A created message and the state it leaves behind.\<close>

lemma create_result_created:
  assumes "create_result sha c rnd owner dev cmd now w = (Inr (v, True), w')"
  obtains t m k as where "normalize_title (cc_title cmd) = Inr t" "create_valid cmd"
    "get_claim owner operation_create (cc_key cmd) (wdb w') =
       Some (claim_row k owner operation_create (cc_key cmd) (create_hash sha cmd) (msg_id m) None now)"
    "owned_message owner (msg_id m) (wdb w') = Some m" "adds_message m as (wdb w) (wdb w')"
    "v = \<lparr>view_row = m, view_tags = tag_list (msg_id m) (wdb w'), view_attachments = attachment_list (msg_id m) (wdb w')\<rparr>"
    "length as = length (cc_uploads cmd)" "owner_id m = owner" "title m = t" "sensitive m = cc_sensitive cmd"
    "cc_sensitive cmd \<or> body_plaintext m = (if cc_body cmd = [] then None else Some (cc_body cmd))"
    "cc_sensitive cmd \<longrightarrow> body_ciphertext m \<noteq> None"
proof -
  from assms obtain t where t: "normalize_title (cc_title cmd) = Inr t"
    by (cases "normalize_title (cc_title cmd)") (simp_all add: create_result_def throw_run)
  let ?cmd = "cmd\<lparr>cc_title := t\<rparr>"
  from assms t have valid: "create_valid cmd" by (auto simp: create_result_def throw_run split: if_splits)
  with assms t have "bindA (with_tx (create_tx sha c rnd owner dev ?cmd now)) (\<lambda>(m, created, job).
            bindA (signal_jobs job) (\<lambda>_.
            bindA (load_tags (msg_id m)) (\<lambda>ts.
            bindA (load_attachments (msg_id m) 0) (\<lambda>as.
            ret (\<lparr>view_row = m, view_tags = ts, view_attachments = as\<rparr>, created))))) w = (Inr (v, True), w')"
    by (simp add: create_result_def)
  then obtain x w1 where tx: "with_tx (create_tx sha c rnd owner dev ?cmd now) w = (Inr x, w1)"
    and b: "(case x of (m, created, job) \<Rightarrow> bindA (signal_jobs job) (\<lambda>_.
            bindA (load_tags (msg_id m)) (\<lambda>ts.
            bindA (load_attachments (msg_id m) 0) (\<lambda>as.
            ret (\<lparr>view_row = m, view_tags = ts, view_attachments = as\<rparr>, created))))) w1 = (Inr (v, True), w')"
    by (rule bindA_InrE)
  obtain m created job where x: "x = (m, created, job)" by (cases x) auto
  from b obtain u2 w2 ts w3 as where s: "signal_jobs job w1 = (Inr u2, w2)"
    and ts: "load_tags (msg_id m) w2 = (Inr ts, w3)" and as: "load_attachments (msg_id m) 0 w3 = (Inr as, w')"
    and v: "v = \<lparr>view_row = m, view_tags = ts, view_attachments = as\<rparr>" and cr: created
    unfolding x prod.case by (elim bindA_InrE) (auto simp: ret_run)
  have ts': "ts = tag_list (msg_id m) (wdb w2)" "wdb w3 = wdb w2" using query_Inr [OF ts [unfolded load_tags_def]] by simp_all
  have as': "as = attachment_list (msg_id m) (wdb w3)" "wdb w' = wdb w3"
    using query_Inr [OF as [unfolded load_attachments_def]] by simp_all
  have w1: "wdb w' = wdb w1" using as'(2) ts'(2) signal_Inr [OF s] by simp
  from tx obtain wa wb where wa: "wdb wa = wdb w" and tx: "create_tx sha c rnd owner dev ?cmd now wa = (Inr (m, True, job), wb)"
    and wb: "wdb w1 = wdb wb" unfolding x using cr by (auto elim: with_tx_Inr)
  have h: "sha (encode_create ?cmd) = create_hash sha cmd" using t by (simp add: create_hash_def)
  from tx show thesis
  proof (cases rule: create_tx_Inr)
    case (fresh as' k)
    from fresh(4) have "messages (wdb w') = messages (wdb w) @ [m]" "msg_id m \<notin> msg_id ` set (messages (wdb w))"
      using w1 wb wa by (simp_all add: adds_message_def)
    then have "by_key msg_id (msg_id m) (messages (wdb w')) = Some m"
      by (simp add: by_key_append)
    then have "owned_message owner (msg_id m) (wdb w') = Some m" using fresh(6) by (simp add: owned_message_def)
    moreover have "cc_body ?cmd = cc_body cmd" by simp
    note fresh' = fresh [unfolded this]
    ultimately show thesis using that [OF t valid, of k m as'] fresh' h w1 wb wa v ts' as' by simp
  qed simp
qed

text \<open>Within a day of a creation, its key is bound to its request: the same request (by hash) returns the very same
  message with its tags and attachments, marked as not created, and changes nothing; a request with another hash
  is refused as a reuse of the key.\<close>

theorem creation_replay:
  assumes r: "create_result sha c rnd owner dev cmd now w = (Inr (v, True), w1)"
    and q: "quiet w2" "wdb w2 = wdb w1" and k: "cc_key cmd' = cc_key cmd" "create_valid cmd'"
    and t: "normalize_title (cc_title cmd') = Inr t'" and l: "later < now + 24 * hour"
  shows "create_result sha c' rnd' owner dev' cmd' later w2 =
    (if create_hash sha cmd' = create_hash sha cmd then Inr (v, False) else Inl MsgErrIdempotencyKeyReused, w2)"
proof -
  from r obtain m i where g: "get_claim owner operation_create (cc_key cmd) (wdb w1) =
       Some (claim_row i owner operation_create (cc_key cmd) (create_hash sha cmd) (msg_id m) None now)"
    and o: "owned_message owner (msg_id m) (wdb w1) = Some m"
    and v: "v = \<lparr>view_row = m, view_tags = tag_list (msg_id m) (wdb w1), view_attachments = attachment_list (msg_id m) (wdb w1)\<rparr>"
    by (rule create_result_created)
  let ?cmd = "cmd'\<lparr>cc_title := t'\<rparr>"
  have h: "sha (encode_create ?cmd) = create_hash sha cmd'" using t by (simp add: create_hash_def)
  have cl: "claim_idempotency owner operation_create (cc_key cmd') (sha (encode_create ?cmd)) later w2 =
      (if create_hash sha cmd' = create_hash sha cmd then Inr (Some (msg_id m, None)) else Inl MsgErrIdempotencyKeyReused, w2)"
    unfolding h k(1) using claim_quiet [OF q(1)] g q(2) l by simp
  have ld: "load_owned owner (msg_id m) w2 = (Inr m, w2)" using o q by (simp add: load_owned_def bindA_run query_quiet ret_run)
  have tx: "create_tx sha c' rnd' owner dev' ?cmd later w2 =
      (if create_hash sha cmd' = create_hash sha cmd then Inr (m, False, False) else Inl MsgErrIdempotencyKeyReused, w2)"
    using cl ld by (simp add: create_tx_def bindA_run ret_run)
  show ?thesis
  proof (cases "create_hash sha cmd' = create_hash sha cmd")
    case True
    then have "with_tx (create_tx sha c' rnd' owner dev' ?cmd later) w2 = (Inr (m, False, False), w2)"
      using tx q(1) by (simp add: with_tx_quiet)
    then show ?thesis using True t k(2) q
      by (simp add: create_result_def bindA_run signal_False load_tags_def load_attachments_def query_quiet ret_run v)
  next
    case False
    then have "with_tx (create_tx sha c' rnd' owner dev' ?cmd later) w2 = (Inl MsgErrIdempotencyKeyReused, w2)"
      using tx q(1) by (simp add: with_tx_quiet)
    then show ?thesis using False t k(2) by (simp add: create_result_def bindA_run)
  qed
qed

lemma deliver_Inr:
  assumes "deliver tx w = (Inr (r, v, created), w')"
  obtains w0 w1 job where "wdb w0 = wdb w" "tx w0 = (Inr (r, v, created, job), w1)" "wdb w' = wdb w1"
proof -
  from assms obtain x w1 where tx: "with_tx tx w = (Inr x, w1)"
    and b: "(case x of (r, v, created, job) \<Rightarrow> bindA (signal_jobs job) (\<lambda>_. ret (r, v, created))) w1 = (Inr (r, v, created), w')"
    unfolding deliver_def by (rule bindA_InrE)
  obtain r' v' c' job where x: "x = (r', v', c', job)" by (cases x) auto
  from b [unfolded x prod.case] obtain u w2 where s: "signal_jobs job w1 = (Inr u, w2)"
    and rt: "ret (r', v', c') w2 = (Inr (r, v, created) :: msg_err + _, w')" by (rule bindA_InrE)
  from rt have eq: "r' = r" "v' = v" "c' = created" "w' = w2" by (simp_all add: ret_run)
  from tx show thesis
  proof (rule with_tx_Inr)
    fix wa wb assume "wdb wa = wdb w" "tx wa = (Inr x, wb)" "wdb w1 = wdb wb"
    with x eq signal_Inr [OF s] show thesis by (intro that [of wa job wb]) simp_all
  qed
qed

lemma redeliver_fresh:
  assumes "rc_message r \<noteq> uuid_nil" "rc_created r \<noteq> zero_time" "rc_expires r \<noteq> zero_time"
  shows "redeliver (rc_message r, receipt_meta r 1) w = (Inr (r, 1, False, False), w)"
  using assms by (simp add: redeliver_def delivery_result_def receipt_meta_def ret_run)

lemma deliver_replay:
  assumes q: "quiet w" and g: "get_claim u opn k (wdb w) = Some (claim_row i u opn k h (rc_message r) (receipt_meta r 1) t)"
    and l: "now < t + 24 * hour" and n: "rc_message r \<noteq> uuid_nil" "rc_created r \<noteq> zero_time" "rc_expires r \<noteq> zero_time"
  shows "deliver (bindA (claim_idempotency u opn k h' now) (\<lambda>found. case found of None \<Rightarrow> fr | Some f \<Rightarrow> redeliver f)) w
    = (if h' = h then Inr (r, 1, False) else Inl MsgErrIdempotencyKeyReused, w)"
proof -
  let ?tx = "bindA (claim_idempotency u opn k h' now) (\<lambda>found. case found of None \<Rightarrow> fr | Some f \<Rightarrow> redeliver f)"
  have "?tx w = (if h' = h then Inr (r, 1, False, False) else Inl MsgErrIdempotencyKeyReused, w)"
    using claim_quiet [OF q g l, of h'] redeliver_fresh [OF n] by (simp add: bindA_run)
  then have "with_tx ?tx w = (if h' = h then Inr (r, 1, False, False) else Inl MsgErrIdempotencyKeyReused, w)"
    using q by (simp add: with_tx_quiet split: if_splits)
  then show ?thesis by (simp add: deliver_def bindA_run signal_False ret_run)
qed

lemma direct_send_created:
  assumes "direct_send_result sha c rnd sender dev cmd now w = (Inr (r, v, True), w')"
  obtains t m as k where "normalize_title (dc_title cmd) = Inr t" "direct_valid cmd" "v = 1"
    "get_claim sender operation_direct_send (dc_key cmd) (wdb w') = Some (claim_row k sender operation_direct_send (dc_key cmd)
       (direct_hash sha cmd) (msg_id m) (receipt_meta r v) now)"
    "adds_message m as (wdb w) (wdb w')" "attached_uploads sender (msg_id m) (dc_uploads cmd) as (wdb w)"
    "arrives sender (dc_recipient cmd) now m r (wdb w)" "title m = t" "sensitive m = dc_sensitive cmd"
    "dc_sensitive cmd \<or> body_plaintext m = (if dc_body cmd = [] then None else Some (dc_body cmd))"
    "dc_sensitive cmd \<longrightarrow> body_ciphertext m \<noteq> None"
    "dc_sensitive cmd \<and> cipher_ok c \<and> opt_set (\<lambda>n. length n = 12) rnd \<longrightarrow> decrypt c m = Inr (dc_body cmd)"
proof -
  from assms obtain t where t: "normalize_title (dc_title cmd) = Inr t"
    by (cases "normalize_title (dc_title cmd)") (simp_all add: direct_send_result_def throw_run)
  let ?cmd = "cmd\<lparr>dc_title := t\<rparr>"
  from assms t have valid: "direct_valid cmd" by (auto simp: direct_send_result_def throw_run split: if_splits)
  with assms t have "deliver (direct_send_tx sha c rnd sender dev ?cmd now) w = (Inr (r, v, True), w')"
    by (simp add: direct_send_result_def)
  then obtain w0 w1 job where w0: "wdb w0 = wdb w" and tx: "direct_send_tx sha c rnd sender dev ?cmd now w0 = (Inr (r, v, True, job), w1)"
    and w1: "wdb w' = wdb w1" by (rule deliver_Inr)
  have h: "sha (encode_direct ?cmd) = direct_hash sha cmd" using t by (simp add: direct_hash_def)
  from tx obtain f wc where cl: "claim_idempotency sender operation_direct_send (dc_key ?cmd) (sha (encode_direct ?cmd)) now w0 = (Inr f, wc)"
    and b: "(case f of Some f \<Rightarrow> redeliver f | None \<Rightarrow> direct_send_fresh sha c rnd sender dev ?cmd now) wc = (Inr (r, v, True, job), w1)"
    unfolding direct_send_tx_def by (rule bindA_InrE)
  from b have f: "f = None"
    by (cases f) (auto simp: redeliver_def throw_run ret_run split: sum.splits prod.splits)
  from cl have wc: "wdb wc = wdb w0 \<or> wdb wc = snd (delete_claim sender operation_direct_send (dc_key ?cmd) (wdb w0))"
    by (cases rule: claim_Inr) (use f in auto)
  from b f have "direct_send_fresh sha c rnd sender dev ?cmd now wc = (Inr (r, v, True, job), w1)" by simp
  from direct_send_fresh_Inr [OF this] obtain m as k where m: "v = 1"
    "get_claim sender operation_direct_send (dc_key ?cmd) (wdb w1) =
         Some (claim_row k sender operation_direct_send (dc_key ?cmd) (sha (encode_direct ?cmd)) (msg_id m) (receipt_meta r v) now)"
    "adds_message m as (wdb wc) (wdb w1)" "attached_uploads sender (msg_id m) (dc_uploads ?cmd) as (wdb wc)"
    "arrives sender (dc_recipient ?cmd) now m r (wdb wc)" "title m = dc_title ?cmd" "sensitive m = dc_sensitive ?cmd"
    "dc_sensitive ?cmd \<or> body_plaintext m = (if dc_body ?cmd = [] then None else Some (dc_body ?cmd))"
    "dc_sensitive ?cmd \<longrightarrow> body_ciphertext m \<noteq> None"
    "dc_sensitive ?cmd \<and> cipher_ok c \<and> opt_set (\<lambda>n. length n = 12) rnd \<longrightarrow> decrypt c m = Inr (dc_body ?cmd)" by blast
  have "arrives sender (dc_recipient cmd) now m r (wdb w)"
    using m(5) delete_claim_fields [OF wc] w0 by (simp add: arrives_def recipient_status_def temporary_ttl_def)
  moreover have "adds_message m as (wdb w) (wdb w')" using adds_message_cong [OF wc m(3)] w0 w1 by simp
  moreover have "attached_uploads sender (msg_id m) (dc_uploads cmd) as (wdb w)"
    using m(4) delete_claim_fields [OF wc] w0 by (simp add: attached_uploads_def bindable_def)
  moreover have "dc_body ?cmd = dc_body cmd" by simp
  note m' = m [unfolded this]
  ultimately show thesis using that [OF t valid m(1), of k m as] m' h w1 by simp
qed


lemma forward_created:
  assumes "forward_result sha c rnd sender dev cmd now w = (Inr (r, v, True), w')"
  obtains src m as k b where "1 \<le> fc_expected cmd" "valid_idempotency_key (fc_key cmd)" "v = 1"
    "get_claim sender operation_forward (fc_key cmd) (wdb w') = Some (claim_row k sender operation_forward (fc_key cmd)
       (sha (encode_forward cmd)) (msg_id m) (receipt_meta r v) now)"
    "owned_message sender (fc_source cmd) (wdb w) = Some src" "version src = fc_expected cmd" "trashed_at src = None"
    "adds_message m as (wdb w) (wdb w')" "arrives sender (fc_recipient cmd) now m r (wdb w)"
    "title m = title src" "body_format m = body_format src" "sensitive m = sensitive src"
    "body_of c src = Inr b" "sensitive src \<or> body_plaintext m = (if b = Some [] then None else b)"
    "sensitive src \<and> cipher_ok c \<and> opt_set (\<lambda>n. length n = 12) rnd \<longrightarrow> body_of c m = Inr b"
    "attachment_count (msg_id m) (wdb w') = attachment_count (msg_id src) (wdb w)"
    "attachments_linked (wdb w) \<longrightarrow>
       map attachment_data as = map (attachment_data \<circ> fst) (attachment_list (msg_id src) (wdb w))"
proof -
  have valid: "1 \<le> fc_expected cmd" "valid_idempotency_key (fc_key cmd)"
    using assms by (auto simp: forward_result_def throw_run split: if_splits)
  with assms have "deliver (forward_tx sha c rnd sender dev cmd now) w = (Inr (r, v, True), w')"
    by (auto simp: forward_result_def split: if_splits)
  then obtain w0 w1 job where w0: "wdb w0 = wdb w" and tx: "forward_tx sha c rnd sender dev cmd now w0 = (Inr (r, v, True, job), w1)"
    and w1: "wdb w' = wdb w1" by (rule deliver_Inr)
  from tx obtain f wc where cl: "claim_idempotency sender operation_forward (fc_key cmd) (sha (encode_forward cmd)) now w0 = (Inr f, wc)"
    and b: "(case f of Some f \<Rightarrow> redeliver f | None \<Rightarrow> forward_fresh sha c rnd sender dev cmd now) wc = (Inr (r, v, True, job), w1)"
    unfolding forward_tx_def by (rule bindA_InrE)
  from b have f: "f = None"
    by (cases f) (auto simp: redeliver_def throw_run ret_run split: sum.splits prod.splits)
  from cl have wc: "wdb wc = wdb w0 \<or> wdb wc = snd (delete_claim sender operation_forward (fc_key cmd) (wdb w0))"
    by (cases rule: claim_Inr) (use f in auto)
  note same = delete_claim_fields [OF wc]
  from b f have "forward_fresh sha c rnd sender dev cmd now wc = (Inr (r, v, True, job), w1)" by simp
  from forward_fresh_Inr [OF this] obtain src m as k b where m: "v = 1"
    "get_claim sender operation_forward (fc_key cmd) (wdb w1) =
         Some (claim_row k sender operation_forward (fc_key cmd) (sha (encode_forward cmd)) (msg_id m) (receipt_meta r v) now)"
    "owned_message sender (fc_source cmd) (wdb wc) = Some src" "version src = fc_expected cmd" "trashed_at src = None"
    "adds_message m as (wdb wc) (wdb w1)" "arrives sender (fc_recipient cmd) now m r (wdb wc)"
    "title m = title src" "body_format m = body_format src" "sensitive m = sensitive src"
    "body_of c src = Inr b" "sensitive src \<or> body_plaintext m = (if b = Some [] then None else b)"
    "sensitive src \<and> cipher_ok c \<and> opt_set (\<lambda>n. length n = 12) rnd \<longrightarrow> body_of c m = Inr b"
    "attachment_count (msg_id m) (wdb w1) = attachment_count (msg_id src) (wdb wc)"
    "attachments_linked (wdb wc) \<longrightarrow>
       map attachment_data as = map (attachment_data \<circ> fst) (attachment_list (msg_id src) (wdb wc))" by blast
  have "arrives sender (fc_recipient cmd) now m r (wdb w)"
    using m(7) same w0 by (simp add: arrives_def recipient_status_def temporary_ttl_def)
  moreover have "owned_message sender (fc_source cmd) (wdb w) = Some src"
    using m(3) same w0 by (simp add: owned_message_def)
  moreover have "attachments_linked (wdb wc) = attachments_linked (wdb w)"
    "attachment_list (msg_id src) (wdb wc) = attachment_list (msg_id src) (wdb w)"
    "attachment_count (msg_id src) (wdb wc) = attachment_count (msg_id src) (wdb w)"
    using same w0 by (simp_all add: attachments_linked_def attachment_list_def attachment_count_def)
  moreover have "adds_message m as (wdb w) (wdb w')" using adds_message_cong [OF wc m(6)] w0 w1 by simp
  ultimately show thesis using that [OF valid m(1), of k m src as b] m w1 by simp
qed

text \<open>C32: A direct send that reports a new delivery has put exactly one new message into the active recipient's
  account: temporary, from the sender, with the title and body of the request (readable by the recipient when it is
  sensitive). Its attachments are the uploads of the request, one for each and in their order: the \<open>k\<close>-th has the
  file, name and type of the sender's completed upload \<open>dc_uploads cmd ! k\<close>, which was not used before. The receipt
  names the message and its times.\<close>

theorem direct_send_delivers:
  assumes "direct_send_result sha c rnd sender dev cmd now w = (Inr (r, v, True), w')"
    and "cipher_ok c" "opt_set (\<lambda>n. length n = 12) rnd"
  shows "\<exists>m as. messages (wdb w') = messages (wdb w) @ [m] \<and> attachments (wdb w') = attachments (wdb w) @ as
    \<and> length as = length (dc_uploads cmd)
    \<and> (\<forall>k<length as. \<exists>up f. up \<in> set (uploads (wdb w)) \<and> us_id up = dc_uploads cmd ! k \<and> us_user up = sender
         \<and> us_status up = Completed \<and> consumed_at up = None \<and> f \<in> set (file_objects (wdb w)) \<and> fo_status f = ObjReady
         \<and> file_object_id up = Some (fo_id f) \<and> ma_file (as ! k) = fo_id f \<and> ma_message (as ! k) = msg_id m
         \<and> ma_filename (as ! k) = original_filename up \<and> ma_client_mime (as ! k) = client_mime up \<and> display_order (as ! k) = int k)
    \<and> recipient_status (dc_recipient cmd) (wdb w) = Some Active \<and> owner_id m = dc_recipient cmd
    \<and> source_user_id m = Some sender \<and> msg_lifecycle m = Temporary \<and> trashed_at m = None
    \<and> normalize_title (dc_title cmd) = Inr (title m) \<and> sensitive m = dc_sensitive cmd
    \<and> body_of c m = Inr (if dc_body cmd = [] then None else Some (dc_body cmd))
    \<and> r = \<lparr>rc_message = msg_id m, rc_created = now, rc_expires = now + temporary_ttl (wdb w)\<rparr>"
  using assms(1)
proof (rule direct_send_created)
  fix t m as k
  assume t: "normalize_title (dc_title cmd) = Inr t" "direct_valid cmd" "title m = t"
    and add: "adds_message m as (wdb w) (wdb w')" "attached_uploads sender (msg_id m) (dc_uploads cmd) as (wdb w)"
    and arr: "arrives sender (dc_recipient cmd) now m r (wdb w)" and s: "sensitive m = dc_sensitive cmd"
    and b: "dc_sensitive cmd \<or> body_plaintext m = (if dc_body cmd = [] then None else Some (dc_body cmd))"
      "dc_sensitive cmd \<and> cipher_ok c \<and> opt_set (\<lambda>n. length n = 12) rnd \<longrightarrow> decrypt c m = Inr (dc_body cmd)"
  have "body_of c m = Inr (if dc_body cmd = [] then None else Some (dc_body cmd))"
  proof (cases "dc_sensitive cmd")
    case True
    with t(2) have "dc_body cmd \<noteq> []" by (auto simp: direct_valid_def)
    with True b(2) s assms(2,3) show ?thesis by (simp add: body_of_def)
  qed (use b(1) s in \<open>simp add: body_of_def\<close>)
  moreover have "\<forall>k<length as. \<exists>up f. up \<in> set (uploads (wdb w)) \<and> us_id up = dc_uploads cmd ! k \<and> us_user up = sender
         \<and> us_status up = Completed \<and> consumed_at up = None \<and> f \<in> set (file_objects (wdb w)) \<and> fo_status f = ObjReady
         \<and> file_object_id up = Some (fo_id f) \<and> ma_file (as ! k) = fo_id f \<and> ma_message (as ! k) = msg_id m
         \<and> ma_filename (as ! k) = original_filename up \<and> ma_client_mime (as ! k) = client_mime up \<and> display_order (as ! k) = int k"
    using add(2) unfolding attached_uploads_def bindable_def attachment_of_def by metis
  moreover have "length as = length (dc_uploads cmd)" using add(2) by (simp add: attached_uploads_def)
  ultimately show ?thesis using t add(1) arr s by (intro exI [of _ m] exI [of _ as]) (simp add: adds_message_def arrives_def)
qed

text \<open>C16: A forward that reports a new delivery has copied the sender's message, in the version expected, to the
  active recipient: same title, format, sensitivity and body (encrypted anew for the recipient when it is sensitive),
  and attachments of the new message with exactly the files, names and order of those of the source. The message and these
  attachments are the only new rows of their tables; the source is left as it is.\<close>

theorem forward_delivers_a_copy:
  assumes "forward_result sha c rnd sender dev cmd now w = (Inr (r, v, True), w')"
    and "cipher_ok c" "opt_set (\<lambda>n. length n = 12) rnd" and l: "attachments_linked (wdb w)"
  shows "\<exists>src m as b. owned_message sender (fc_source cmd) (wdb w) = Some src \<and> version src = fc_expected cmd
    \<and> messages (wdb w') = messages (wdb w) @ [m] \<and> owner_id m = fc_recipient cmd
    \<and> recipient_status (fc_recipient cmd) (wdb w) = Some Active
    \<and> title m = title src \<and> body_format m = body_format src \<and> sensitive m = sensitive src
    \<and> body_of c src = Inr b \<and> body_of c m = Inr (if b = Some [] \<and> \<not> sensitive src then None else b)
    \<and> attachments (wdb w') = attachments (wdb w) @ as \<and> (\<forall>a\<in>set as. ma_message a = msg_id m)
    \<and> map attachment_data as = map (attachment_data \<circ> fst) (attachment_list (msg_id src) (wdb w))
    \<and> msg_id m \<notin> msg_id ` set (messages (wdb w)) \<and> rc_message r = msg_id m"
  using assms(1)
proof (rule forward_created)
  fix src m as k b
  assume o: "owned_message sender (fc_source cmd) (wdb w) = Some src" "version src = fc_expected cmd"
    and add: "adds_message m as (wdb w) (wdb w')" and arr: "arrives sender (fc_recipient cmd) now m r (wdb w)"
    and f: "title m = title src" "body_format m = body_format src" "sensitive m = sensitive src"
    and b: "body_of c src = Inr b" "sensitive src \<or> body_plaintext m = (if b = Some [] then None else b)"
      "sensitive src \<and> cipher_ok c \<and> opt_set (\<lambda>n. length n = 12) rnd \<longrightarrow> body_of c m = Inr b"
    and d: "attachments_linked (wdb w) \<longrightarrow>
       map attachment_data as = map (attachment_data \<circ> fst) (attachment_list (msg_id src) (wdb w))"
  have "body_of c m = Inr (if b = Some [] \<and> \<not> sensitive src then None else b)"
    using b(2,3) f(3) assms(2,3) by (cases "sensitive src") (simp_all add: body_of_def)
  with o add arr f b(1) d l show ?thesis
    by (intro exI [of _ src] exI [of _ m] exI [of _ as] exI [of _ b]) (simp add: adds_message_def arrives_def)
qed

text \<open>Within a day of a direct send or a forward, repeating the request returns its first receipt and creates
  nothing, and another request under the key is refused.\<close>

theorem delivery_replay:
  assumes q: "quiet w2" "wdb w2 = wdb w1" and l: "later < now + 24 * hour"
    and n: "rc_message r \<noteq> uuid_nil" "rc_created r \<noteq> zero_time" "rc_expires r \<noteq> zero_time"
  shows "(direct_send_result sha c rnd sender dev dc now w = (Inr (r, v, True), w1) \<and> dc_key dc' = dc_key dc
        \<and> direct_valid dc' \<and> normalize_title (dc_title dc') = Inr t' \<longrightarrow>
      direct_send_result sha c' rnd' sender dev' dc' later w2
        = (if direct_hash sha dc' = direct_hash sha dc then Inr (r, v, False) else Inl MsgErrIdempotencyKeyReused, w2))
    \<and> (forward_result sha c rnd sender dev fc now w = (Inr (r, v, True), w1) \<and> fc_key fc' = fc_key fc \<and> 1 \<le> fc_expected fc' \<longrightarrow>
      forward_result sha c' rnd' sender dev' fc' later w2
        = (if sha (encode_forward fc') = sha (encode_forward fc) then Inr (r, v, False) else Inl MsgErrIdempotencyKeyReused, w2))"
proof (intro conjI impI; elim conjE)
  assume r: "direct_send_result sha c rnd sender dev dc now w = (Inr (r, v, True), w1)" and k: "dc_key dc' = dc_key dc"
    and val: "direct_valid dc'" and t: "normalize_title (dc_title dc') = Inr t'"
  from r obtain m i where v: "v = 1" and g: "get_claim sender operation_direct_send (dc_key dc) (wdb w1) = Some (claim_row i sender
      operation_direct_send (dc_key dc) (direct_hash sha dc) (msg_id m) (receipt_meta r v) now)"
    and arr: "arrives sender (dc_recipient dc) now m r (wdb w)" by (rule direct_send_created)
  have "rc_message r = msg_id m" using arr by (simp add: arrives_def)
  with g v q(2) have g': "get_claim sender operation_direct_send (dc_key dc) (wdb w2) = Some (claim_row i sender
      operation_direct_send (dc_key dc) (direct_hash sha dc) (rc_message r) (receipt_meta r 1) now)" by simp
  have h: "sha (encode_direct (dc'\<lparr>dc_title := t'\<rparr>)) = direct_hash sha dc'" using t by (simp add: direct_hash_def)
  show "direct_send_result sha c' rnd' sender dev' dc' later w2
        = (if direct_hash sha dc' = direct_hash sha dc then Inr (r, v, False) else Inl MsgErrIdempotencyKeyReused, w2)"
    using deliver_replay [OF q(1) g' l n, of "direct_hash sha dc'" "direct_send_fresh sha c' rnd' sender dev' (dc'\<lparr>dc_title := t'\<rparr>) later"] val t k h v
    by (simp add: direct_send_result_def direct_send_tx_def)
next
  assume r: "forward_result sha c rnd sender dev fc now w = (Inr (r, v, True), w1)" and k: "fc_key fc' = fc_key fc"
    and val: "1 \<le> fc_expected fc'"
  from r obtain m i where v: "v = 1" and kv: "valid_idempotency_key (fc_key fc)"
    and g: "get_claim sender operation_forward (fc_key fc) (wdb w1) = Some (claim_row i sender
      operation_forward (fc_key fc) (sha (encode_forward fc)) (msg_id m) (receipt_meta r v) now)"
    and arr: "arrives sender (fc_recipient fc) now m r (wdb w)" by (rule forward_created)
  have "rc_message r = msg_id m" using arr by (simp add: arrives_def)
  with g v q(2) have g': "get_claim sender operation_forward (fc_key fc) (wdb w2) = Some (claim_row i sender
      operation_forward (fc_key fc) (sha (encode_forward fc)) (rc_message r) (receipt_meta r 1) now)" by simp
  show "forward_result sha c' rnd' sender dev' fc' later w2
        = (if sha (encode_forward fc') = sha (encode_forward fc) then Inr (r, v, False) else Inl MsgErrIdempotencyKeyReused, w2)"
    using deliver_replay [OF q(1) g' l n, of "sha (encode_forward fc')" "forward_fresh sha c' rnd' sender dev' fc' later"] val k kv v
    by (simp add: forward_result_def forward_tx_def)
qed


section \<open>Examples\<close>

definition sample_sha :: "bytes \<Rightarrow> bytes" where
  "sample_sha b = take 32 (rev b @ replicate 32 (CHR 0x00))"

definition sealing_cipher :: body_cipher where
  "sealing_cipher = \<lparr>seal = (\<lambda>n p a. n @ a @ p), unseal = (\<lambda>n t a.
     if take (length n + length a) t = n @ a then Some (drop (length n + length a) t) else None)\<rparr>"

lemma sealing_cipher_ok: "cipher_ok sealing_cipher"
  by (simp add: cipher_ok_def sealing_cipher_def)

definition stored_message :: message where
  "stored_message = \<lparr>msg_id = 7, owner_id = 1, title = Some ''t'', body_plaintext = Some ''hello'', body_ciphertext = None,
     body_nonce = None, body_encryption_version = None, body_format = ''TEXT'', detected_type = None,
     detected_language = None, sensitive = False, msg_lifecycle = Permanent, favorite = False, expires_at = None,
     trashed_at = None, purge_at = None, source_user_id = None, source_message_id = None, created_device_id = Some 3,
     version = 1, created_at = 0, updated_at = 0\<rparr>"

definition active_user :: "uuid \<Rightarrow> user" where
  "active_user u = \<lparr>usr_id = u, username = ''u'', display_name = ''u'', password_hash = ''h'', is_admin = False,
     usr_status = Active, usr_created_at = 0, usr_updated_at = 0\<rparr>"

definition ready_file :: file_object where
  "ready_file = \<lparr>fo_id = 20, sha256 = ''x'', size_bytes = 3, detected_mime = ''text/plain'', storage_key = ObjectKey 20,
     fo_status = ObjReady, fo_created_at = 0, fo_updated_at = 0, ready_at = Some 0\<rparr>"

definition finished_upload :: upload where
  "finished_upload = \<lparr>us_id = 9, us_user = 1, original_filename = ''a.txt'', expected_size = 3, client_mime = None,
     chunk_size = 8, us_status = Completed, us_expires_at = 100, us_created_at = 0, us_updated_at = 0,
     file_object_id = Some 20, completed_at = Some 0, consumed_at = None, consumed_message_id = None\<rparr>"

definition mail_world :: world where
  "mail_world = (process_on (empty_db\<lparr>users := [active_user 1, active_user 2], messages := [stored_message],
     file_objects := [ready_file], uploads := [finished_upload],
     tags := [\<lparr>tag_id = 4, tag_user = 1, tag_name = ''x'', normalized_name = ''x'', tag_color = ''#FFFFFF'',
       tag_created_at = 0, tag_updated_at = 0\<rparr>],
     attachments := [\<lparr>ma_id = 30, ma_message = 7, ma_file = 20, ma_filename = ''f'', ma_client_mime = None, display_order = 0\<rparr>]\<rparr>))
     \<lparr>ids := map Some [50, 51, 52, 53, 54, 55]\<rparr>"

definition sample_direct :: direct_command where
  "sample_direct = \<lparr>dc_recipient = 2, dc_title = None, dc_body = ''hi'', dc_format = ''TEXT'', dc_sensitive = False,
     dc_uploads = [9], dc_key = ''k''\<rparr>"

definition sample_forward :: forward_command where
  "sample_forward = \<lparr>fc_source = 7, fc_recipient = 2, fc_expected = 1, fc_key = ''k''\<rparr>"

abbreviation create_run :: "(msg_err + message_view \<times> bool) \<times> world" where
  "create_run \<equiv> create_result sample_sha sealing_cipher None 1 3 tagged_create 5 mail_world"

abbreviation direct_run :: "(msg_err + receipt \<times> int \<times> bool) \<times> world" where
  "direct_run \<equiv> direct_send_result sample_sha sealing_cipher (Some ''abcdefghijkl'') 1 3 sample_direct 5 mail_world"

abbreviation forward_run :: "(msg_err + receipt \<times> int \<times> bool) \<times> world" where
  "forward_run \<equiv> forward_result sample_sha sealing_cipher None 1 3 sample_forward 5 mail_world"

definition outcome :: "'e + 'a \<times> bool \<Rightarrow> bool option" where
  "outcome r = (case r of Inl e \<Rightarrow> None | Inr x \<Rightarrow> Some (snd x))"

lemma create_run_ok: "\<exists>v. fst create_run = Inr (v, True)"
proof -
  have "outcome (fst create_run) = Some True" by code_simp
  then show ?thesis by (auto simp: outcome_def split: sum.splits)
qed

lemma direct_run_ok: "fst direct_run = Inr (\<lparr>rc_message = 50, rc_created = 5, rc_expires = 5 + 72 * hour\<rparr>, 1, True)"
  by code_simp

lemma forward_run_ok: "fst forward_run = Inr (\<lparr>rc_message = 50, rc_created = 5, rc_expires = 5 + 72 * hour\<rparr>, 1, True)"
  by code_simp

lemma create_commands_ok: "create_valid tagged_create" "create_valid untagged_create" "direct_valid sample_direct"
  by code_simp+

theorem retries_add_at_most_one_message_witness:
  "length (messages (wdb (attempts (\<lambda>p. create_result sample_sha sealing_cipher (fst p) 1 (snd p) tagged_create) mail_world
     [((None, 3), 5), ((None, 4), 6)]))) \<le> 2"
proof -
  have "\<forall>pt\<in>set [((None :: bytes option, 3 :: uuid), 5 :: time), ((None, 4), 6)]. 5 \<le> snd pt \<and> snd pt < 5 + 24 * hour" by simp
  from retries_add_at_most_one_message [OF this, of sample_sha sealing_cipher 1 tagged_create mail_world sample_direct sample_forward]
  show ?thesis by (simp add: mail_world_def del: attempts_simps)
qed

theorem creation_replay_witness:
  "\<exists>v. fst create_run = Inr (v, True)
    \<and> create_result sample_sha sealing_cipher None 1 3 untagged_create 9 (process_on (wdb (snd create_run)))
      = (Inr (v, False), process_on (wdb (snd create_run)))"
proof -
  obtain v where v: "fst create_run = Inr (v, True)" using create_run_ok by blast
  then have r: "create_run = (Inr (v, True), snd create_run)" by (metis prod.collapse)
  have k: "cc_key untagged_create = cc_key tagged_create" and t: "normalize_title (cc_title untagged_create) = Inr None"
    by (simp_all add: untagged_create_def tagged_create_def normalize_title_def)
  have "create_hash sample_sha untagged_create = create_hash sample_sha tagged_create"
    by (simp add: create_hash_def untagged_create_def tagged_create_def normalize_title_def encode_create_def)
  with creation_replay [OF r _ _ k create_commands_ok(2) t, of "process_on (wdb (snd create_run))" 9 sealing_cipher None 3] v
  show ?thesis by simp
qed

theorem delivery_replay_witness:
  "direct_send_result sample_sha sealing_cipher None 1 3 sample_direct 9 (process_on (wdb (snd direct_run)))
    = (Inr (\<lparr>rc_message = 50, rc_created = 5, rc_expires = 5 + 72 * hour\<rparr>, 1, False), process_on (wdb (snd direct_run)))"
proof -
  let ?r = "\<lparr>rc_message = 50, rc_created = 5, rc_expires = 5 + 72 * hour\<rparr> :: receipt" and ?w = "process_on (wdb (snd direct_run))"
  have r: "direct_run = (Inr (?r, 1, True), snd direct_run)" using direct_run_ok by (metis prod.collapse)
  have t: "normalize_title (dc_title sample_direct) = Inr None" by (simp add: sample_direct_def normalize_title_def)
  have "quiet ?w" "wdb ?w = wdb (snd direct_run)" "9 < 5 + 24 * hour"
    "rc_message ?r \<noteq> uuid_nil" "rc_created ?r \<noteq> zero_time" "rc_expires ?r \<noteq> zero_time"
    by (simp_all add: zero_time_def)
  note delivery_replay [OF this, THEN conjunct1, THEN mp, OF conjI [OF r conjI [OF refl conjI [OF create_commands_ok(3) t]]],
    of sealing_cipher None 3]
  then show ?thesis by (simp only: refl if_True)
qed

theorem direct_send_delivers_witness:
  "\<exists>m as. messages (wdb (snd direct_run)) = messages (wdb mail_world) @ [m] \<and> owner_id m = 2
    \<and> body_of sealing_cipher m = Inr (Some ''hi'')
    \<and> attachments (wdb (snd direct_run)) = attachments (wdb mail_world) @ as \<and> length as = 1"
proof -
  let ?r = "\<lparr>rc_message = 50, rc_created = 5, rc_expires = 5 + 72 * hour\<rparr> :: receipt"
  have r: "direct_run = (Inr (?r, 1, True), snd direct_run)" using direct_run_ok by (metis prod.collapse)
  have n: "opt_set (\<lambda>n. length n = 12) (Some ''abcdefghijkl'')" by (simp add: opt_set_def)
  have c: "dc_recipient sample_direct = 2" "dc_body sample_direct = ''hi''" "length (dc_uploads sample_direct) = 1"
    by (simp_all add: sample_direct_def)
  have b: "(if ''hi'' = [] then None else Some ''hi'') = Some ''hi''" by simp
  from direct_send_delivers [OF r sealing_cipher_ok n, unfolded c b] show ?thesis by (elim exE conjE, intro exI conjI)
qed

theorem forward_delivers_a_copy_witness:
  "\<exists>m as. messages (wdb (snd forward_run)) = messages (wdb mail_world) @ [m] \<and> owner_id m = 2
    \<and> attachments (wdb (snd forward_run)) = attachments (wdb mail_world) @ as \<and> map ma_filename as = [''f'']"
proof -
  let ?r = "\<lparr>rc_message = 50, rc_created = 5, rc_expires = 5 + 72 * hour\<rparr> :: receipt"
  have r: "forward_run = (Inr (?r, 1, True), snd forward_run)" using forward_run_ok by (metis prod.collapse)
  have n: "opt_set (\<lambda>n. length n = 12) (None :: bytes option)" by (simp add: opt_set_def)
  have l: "attachments_linked (wdb mail_world)"
    by (simp add: attachments_linked_def mail_world_def stored_message_def)
  have o: "owned_message 1 7 (wdb mail_world) = Some stored_message"
    by (simp add: owned_message_def by_key_def mail_world_def stored_message_def)
  have a: "map (attachment_data \<circ> fst) (attachment_list 7 (wdb mail_world)) = [(20, ''f'', None, 0)]"
    by (simp add: attachment_list_def mail_world_def ready_file_def attachment_data_def)
  from forward_delivers_a_copy [OF r sealing_cipher_ok n l] obtain m as where
    "messages (wdb (snd forward_run)) = messages (wdb mail_world) @ [m]" "owner_id m = 2"
    "attachments (wdb (snd forward_run)) = attachments (wdb mail_world) @ as" "map attachment_data as = [(20, ''f'', None, 0)]"
    using o a by (auto simp: sample_forward_def stored_message_def)
  moreover from this(4) have "map ma_filename as = [''f'']" by (auto simp: attachment_data_def)
  ultimately show ?thesis by (intro exI conjI)
qed


lemma bind_run_ok: "fst (bind_uploads 1 7 [9] 1 5 mail_world) = Inr False"
  by code_simp

theorem binding_consumes_uploads_once_witness:
  "(\<exists>a. attachments (wdb (snd (bind_uploads 1 7 [9] 1 5 mail_world))) = attachments (wdb mail_world) @ [a])
    \<and> fst (bind_uploads 2 8 [9] 0 6 (process_on (wdb (snd (bind_uploads 1 7 [9] 1 5 mail_world))))) \<noteq> Inr False"
proof -
  let ?w = "snd (bind_uploads 1 7 [9] 1 5 mail_world)"
  have r: "bind_uploads 1 7 [9] 1 5 mail_world = (Inr False, ?w)" using bind_run_ok by (metis prod.collapse)
  have c: "wdb (process_on (wdb ?w)) = wdb ?w" "set [9 :: uuid] \<inter> set [9] \<noteq> {}" by simp_all
  note b = binding_consumes_uploads_once [OF r, of "process_on (wdb ?w)" "[9]" 2 8 0 6 False]
  from b obtain as where "attachments (wdb ?w) = attachments (wdb mail_world) @ as" "length as = length [9 :: uuid]" by blast
  then show ?thesis using b c by (auto simp: length_Suc_conv)
qed

end
