(* ===== verification/Paging.thy ===== *)
theory Paging
  imports Prelude
begin

text \<open>
  Listings that are read page by page: a page holds the rows after a cursor, and the cursor of the next page is the
  position of the last row. What a client may rely on when it follows the cursors is the locale
  \<open>cursor_pages\<close>, which every listing of the services interprets. The wire form of a cursor
  (JSON in base64) is left out: a cursor is its instant and identifier.
\<close>

section \<open>Following cursors\<close>

text \<open>A client asks for a page, and for the next one with the cursor it was given; \<open>ds\<close> are the states
  that its requests meet. \<open>None\<close>: the states ran out before the last page.\<close>

fun browse :: "('d \<Rightarrow> 'k option \<Rightarrow> 'i list \<times> 'k option) \<Rightarrow> 'd list \<Rightarrow> 'k option \<Rightarrow> 'i list option" where
  "browse page [] c = None"
| "browse page (d # ds) c = (case page d c of
     (items, None) \<Rightarrow> Some items
   | (items, Some c') \<Rightarrow> map_option (\<lambda>rest. items @ rest) (browse page ds (Some c')))"

definition below :: "'k::linorder option \<Rightarrow> 'k \<Rightarrow> bool" where
  "below c k \<longleftrightarrow> (case c of None \<Rightarrow> True | Some k' \<Rightarrow> k < k')"

lemma below_None [simp]: "below None k" by (simp add: below_def)
lemma below_Some [simp]: "below (Some k') k \<longleftrightarrow> k < k'" by (simp add: below_def)

lemma count_list_distinct: "distinct xs \<Longrightarrow> count_list xs x = (if x \<in> set xs then 1 else 0)"
  by (induction xs) auto

text \<open>The contract of a paged listing: \<open>listing d\<close> are the items of state \<open>d\<close> in descending order of
  their keys, and a page holds the first \<open>lim\<close> of them below the cursor.\<close>

locale cursor_pages =
  fixes page :: "'d \<Rightarrow> 'k::linorder option \<Rightarrow> 'i list \<times> 'k option"
    and listing :: "'d \<Rightarrow> 'i list" and key :: "'i \<Rightarrow> 'k" and lim :: nat and sound :: "'d \<Rightarrow> bool"
  assumes lim_pos: "0 < lim"
    and descending: "sound d \<Longrightarrow> sorted_wrt (\<lambda>x y. key y < key x) (listing d)"
    and items: "sound d \<Longrightarrow> fst (page d c) = take lim (filter (below c \<circ> key) (listing d))"
    and cursor: "sound d \<Longrightarrow> snd (page d c) =
      (let xs = filter (below c \<circ> key) (listing d) in if lim < length xs then Some (key (xs ! (lim - 1))) else None)"
begin

lemma page_last:
  assumes "sound d" "snd (page d c) = None"
  shows "fst (page d c) = filter (below c \<circ> key) (listing d)"
  using assms by (simp add: items cursor Let_def split: if_splits)

lemma page_next:
  assumes d: "sound d" and c': "snd (page d c) = Some k"
  shows "filter (below c \<circ> key) (listing d) = fst (page d c) @ filter (below (Some k) \<circ> key) (listing d)"
    and "length (fst (page d c)) = lim" and "\<And>x. x \<in> set (fst (page d c)) \<Longrightarrow> below c (key x) \<and> k \<le> key x"
    and "below c k"
proof -
  let ?xs = "filter (below c \<circ> key) (listing d)"
  have len: "lim < length ?xs" and k: "k = key (?xs ! (lim - 1))"
    using c' d by (simp_all add: cursor Let_def split: if_splits)
  have desc: "sorted_wrt (\<lambda>x y. key y < key x) ?xs" using descending [OF d] by (rule sorted_wrt_filter)
  have split: "?xs = take (lim - 1) ?xs @ ?xs ! (lim - 1) # drop lim ?xs"
    using len lim_pos id_take_nth_drop [of "lim - 1" ?xs] by simp
  then have desc': "sorted_wrt (\<lambda>x y. key y < key x) (take (lim - 1) ?xs @ ?xs ! (lim - 1) # drop lim ?xs)"
    using desc by simp
  have lt: "y \<in> set (drop lim ?xs) \<Longrightarrow> key y < k" and ge: "y \<in> set (take (lim - 1) ?xs) \<Longrightarrow> k < key y" for y
    using desc' by (auto simp: k sorted_wrt_append)
  have tk: "take lim ?xs = take (lim - 1) ?xs @ [?xs ! (lim - 1)]"
    using take_Suc_conv_app_nth [of "lim - 1" ?xs] len lim_pos by simp
  have gek: "k \<le> key x" if "x \<in> set (take lim ?xs)" for x
  proof (cases "x \<in> set (take (lim - 1) ?xs)")
    case True
    then show ?thesis using ge less_imp_le by blast
  next
    case False
    then show ?thesis using that by (simp add: tk k)
  qed
  have bk: "below c k" using nth_mem [of "lim - 1" ?xs] len by (auto simp: k)
  then have imp: "key x < k \<Longrightarrow> below c (key x)" for x by (auto simp: below_def split: option.splits)
  have "filter (below (Some k) \<circ> key) (listing d) = filter (below (Some k) \<circ> key) ?xs"
    by (simp add: filter_filter) (rule filter_cong [OF refl], use imp in auto)
  also have "\<dots> = filter (below (Some k) \<circ> key) (take lim ?xs) @ filter (below (Some k) \<circ> key) (drop lim ?xs)"
    by (metis append_take_drop_id filter_append)
  also have "filter (below (Some k) \<circ> key) (take lim ?xs) = []"
    using gek by (auto simp: filter_empty_conv not_less)
  also have "filter (below (Some k) \<circ> key) (drop lim ?xs) = drop lim ?xs"
    using lt by (simp add: filter_id_conv)
  finally have "filter (below (Some k) \<circ> key) (listing d) = drop lim ?xs" by (simp only: append_Nil)
  then show "?xs = fst (page d c) @ filter (below (Some k) \<circ> key) (listing d)"
    by (simp only: items [OF d] append_take_drop_id)
  show "length (fst (page d c)) = lim" using len d by (simp add: items)
  show "below c (key x) \<and> k \<le> key x" if "x \<in> set (fst (page d c))" for x
  proof -
    from that d have x: "x \<in> set (take lim ?xs)" by (simp add: items)
    then have "x \<in> set ?xs" by (rule in_set_takeD)
    then show ?thesis using gek [OF x] by simp
  qed
  show "below c k" by (rule bk)
qed

text \<open>On one state, the pages are the listing, cut.\<close>

lemma browse_all:
  assumes "sound d" "length (filter (below c \<circ> key) (listing d)) \<le> n"
  shows "browse page (replicate (Suc n) d) c = Some (filter (below c \<circ> key) (listing d))"
  using assms(2)
proof (induction n arbitrary: c rule: less_induct)
  case (less n)
  show ?case
  proof (cases "page d c")
    case (Pair xs c')
    show ?thesis
    proof (cases c')
      case None
      then show ?thesis using Pair page_last [of d c] assms(1) by (simp del: comp_apply)
    next
      case (Some k)
      have "length (filter (below c \<circ> key) (listing d)) = lim + length (filter (below c' \<circ> key) (listing d))"
        using Pair Some assms(1) page_next(1,2) [of d c k] by simp
      then have len: "length (filter (below c' \<circ> key) (listing d)) \<le> n - 1" "0 < n" using less.prems lim_pos by linarith+
      then obtain m where n: "n = Suc m" by (cases n) auto
      have "browse page (replicate (Suc m) d) c' = Some (filter (below c' \<circ> key) (listing d))"
        by (rule less.IH) (use len n in \<open>simp_all del: comp_apply\<close>)
      then show ?thesis using Pair Some assms(1) page_next(1) [of d c k] by (simp add: n del: comp_apply)
    qed
  qed
qed

text \<open>Over changing states, an item that every state lists is shown exactly once.\<close>

lemma page_below: "sound d \<Longrightarrow> x \<in> set (fst (page d c)) \<Longrightarrow> below c (key x)"
  by (auto simp: items dest: in_set_takeD)

lemma browse_below:
  "browse page ds c = Some xs \<Longrightarrow> \<forall>d\<in>set ds. sound d \<Longrightarrow> x \<in> set xs \<Longrightarrow> below c (key x)"
proof (induction ds arbitrary: c xs)
  case (Cons d ds)
  obtain ys c' where p: "page d c = (ys, c')" by fastforce
  have ys: "x \<in> set ys \<Longrightarrow> below c (key x)" using page_below [of d x c] p Cons.prems(2) by simp
  show ?case
  proof (cases c')
    case None
    then show ?thesis using Cons.prems p ys by simp
  next
    case (Some k)
    then obtain zs where zs: "browse page ds (Some k) = Some zs" "xs = ys @ zs" using Cons.prems p by auto
    have "below c k" using page_next(4) [of d c k] p Some Cons.prems(2) by simp
    moreover have "x \<in> set zs \<Longrightarrow> key x < k" using Cons.IH [OF zs(1)] Cons.prems(2) by simp
    ultimately show ?thesis using zs ys Cons.prems(3) by (auto simp: below_def split: option.splits)
  qed
qed simp

lemma count_listing:
  assumes "sound d" "k \<in> key ` set (listing d)"
  shows "count_list (map key (filter (below c \<circ> key) (listing d))) k = (if below c k then 1 else 0)"
proof -
  have "sorted_wrt (>) (map key (filter (below c \<circ> key) (listing d)))"
    using sorted_wrt_filter [OF descending [OF assms(1)]] by (simp add: sorted_wrt_map)
  then have "distinct (map key (filter (below c \<circ> key) (listing d)))"
    by (metis distinct_rev sorted_wrt_rev strict_sorted_iff)
  moreover have "k \<in> set (map key (filter (below c \<circ> key) (listing d))) \<longleftrightarrow> below c k" using assms(2) by auto
  ultimately show ?thesis by (simp add: count_list_distinct)
qed

lemma browse_stable:
  assumes "browse page ds c = Some xs" "\<forall>d\<in>set ds. sound d \<and> k \<in> key ` set (listing d)" "below c k"
  shows "count_list (map key xs) k = 1"
  using assms
proof (induction ds arbitrary: c xs)
  case (Cons d ds)
  have d: "sound d" "k \<in> key ` set (listing d)" using Cons.prems(2) by simp_all
  obtain ys c' where p: "page d c = (ys, c')" by fastforce
  note one = count_listing [OF d, of c]
  show ?case
  proof (cases c')
    case None
    then show ?thesis using Cons.prems p one page_last [of d c] d by simp
  next
    case (Some k')
    then obtain zs where zs: "browse page ds (Some k') = Some zs" "xs = ys @ zs" using Cons.prems p by auto
    note n = page_next [OF d(1), of c k', unfolded p Some, simplified]
    have "count_list (map key ys) k = (if below c k then 1 else 0) - (if k < k' then 1 else 0)"
      using one count_listing [OF d, of "Some k'"] by (simp add: n(1) count_list_append)
    moreover have "count_list (map key zs) k = (if k < k' then 1 else 0)"
    proof (cases "k < k'")
      case True
      then show ?thesis using Cons.IH [OF zs(1)] Cons.prems(2) by simp
    next
      case False
      then show ?thesis
        using browse_below [OF zs(1)] Cons.prems(2) by (auto simp: count_list_0_iff)
    qed
    ultimately show ?thesis using zs Cons.prems(3) by (simp add: count_list_append)
  qed
qed simp

end

end
