(* ===== verification/Listing.thy ===== *)
theory Listing
  imports MessageModel Paging
begin

text \<open>
  Listing messages page by page (\<open>List\<close> of \<^verbatim>\<open>internal/messages/service.go\<close> and \<^verbatim>\<open>repository.go\<close>): the
  newest rows that match a filter and lie below a cursor, for the active messages and for the trash.
\<close>

section \<open>The listings of the service\<close>

record list_filter =
  lf_lifecycle :: "string option"
  lf_favorite :: "bool option"
  lf_tags :: "uuid list"
  lf_cursor :: "(time \<times> uuid) option"
  lf_limit :: int

definition lifecycle_text :: "lifecycle \<Rightarrow> string" where
  "lifecycle_text l = (case l of Temporary \<Rightarrow> ''TEMPORARY'' | Permanent \<Rightarrow> ''PERMANENT'')"

text \<open>A tag of the owner that the message carries.\<close>

definition has_tag :: "db \<Rightarrow> message \<Rightarrow> uuid \<Rightarrow> bool" where
  "has_tag d m t \<longleftrightarrow> (msg_id m, t) \<in> set (message_tags d)
     \<and> sql_exists (\<lambda>r. tag_id r = t \<and> tag_user r = owner_id m) (tags d)"

definition matches :: "uuid \<Rightarrow> list_filter \<Rightarrow> time \<Rightarrow> db \<Rightarrow> message \<Rightarrow> bool" where
  "matches owner f now d m \<longleftrightarrow> owner_id m = owner \<and> trashed_at m = None
     \<and> (msg_lifecycle m = Permanent \<or> (case expires_at m of None \<Rightarrow> False | Some t \<Rightarrow> now < t))
     \<and> (case lf_lifecycle f of None \<Rightarrow> True | Some l \<Rightarrow> lifecycle_text (msg_lifecycle m) = l)
     \<and> (case lf_favorite f of None \<Rightarrow> True | Some b \<Rightarrow> favorite m = b)
     \<and> list_all (has_tag d m) (lf_tags f)"

text \<open>The positions of the two listings, by creation and by the time of trashing.\<close>

definition created_key :: "message \<Rightarrow> time \<times> uuid" where
  "created_key m = (created_at m, msg_id m)"

definition trashed_key :: "message \<Rightarrow> time \<times> uuid" where
  "trashed_key m = (the (trashed_at m), msg_id m)"

definition list_active_messages :: "uuid \<Rightarrow> time \<Rightarrow> list_filter \<Rightarrow> nat \<Rightarrow> db \<Rightarrow> message list" where
  "list_active_messages owner now f n d = take n (rev (sort_key created_key
     (filter (\<lambda>m. matches owner f now d m \<and> below (lf_cursor f) (created_key m)) (messages d))))"

definition list_trashed_messages :: "uuid \<Rightarrow> (time \<times> uuid) option \<Rightarrow> nat \<Rightarrow> db \<Rightarrow> message list" where
  "list_trashed_messages owner c n d = take n (rev (sort_key trashed_key
     (filter (\<lambda>m. owner_id m = owner \<and> trashed_at m \<noteq> None \<and> below c (trashed_key m)) (messages d))))"

text \<open>A row of a page: the message with its tags, its first three attachments and their number.\<close>

record listed =
  ls_row :: message
  ls_tags :: "tag list"
  ls_attachments :: "(attachment \<times> file_object) list"
  ls_total :: nat

fun load_listed :: "message list \<Rightarrow> (world, msg_err, listed list) act" where
  "load_listed [] = ret []"
| "load_listed (m # ms) =
     bindA (load_tags (msg_id m)) (\<lambda>ts.
     bindA (load_attachments (msg_id m) 3) (\<lambda>as.
     bindA (query MsgIO (attachment_count (msg_id m))) (\<lambda>n.
     bindA (load_listed ms) (\<lambda>rest.
     ret (\<lparr>ls_row = m, ls_tags = ts, ls_attachments = as, ls_total = n\<rparr> # rest)))))"

definition repo_list :: "uuid \<Rightarrow> list_filter \<Rightarrow> bool \<Rightarrow> time \<Rightarrow> (world, msg_err, listed list) act" where
  "repo_list owner f trash now =
     bindA (query MsgIO (if trash then list_trashed_messages owner (lf_cursor f) (nat (lf_limit f + 1))
                         else list_active_messages owner now f (nat (lf_limit f + 1)))) load_listed"

text \<open>A summary: the row without its plaintext, and the preview of a body that is not sensitive.\<close>

record summary =
  su_listed :: listed
  su_preview :: "string option"
  su_truncated :: bool
  su_attachments :: nat

definition summarize :: "listed \<Rightarrow> summary" where
  "summarize l = (let m = ls_row l;
       p = (if sensitive m then None else map_option preview (body_plaintext m)) in
     \<lparr>su_listed = l\<lparr>ls_row := m\<lparr>body_plaintext := None\<rparr>\<rparr>, su_preview = map_option fst p,
      su_truncated = (case p of None \<Rightarrow> False | Some q \<Rightarrow> snd q), su_attachments = ls_total l\<rparr>)"

definition page_of :: "int \<Rightarrow> bool \<Rightarrow> listed list \<Rightarrow> summary list \<times> (time \<times> uuid) option" where
  "page_of lim trash rows =
     (if lim < int (length rows)
      then (let m = ls_row (rows ! nat (lim - 1));
                at = (if trash then (case trashed_at m of None \<Rightarrow> created_at m | Some t \<Rightarrow> t) else created_at m)
            in (map summarize (take (nat lim) rows), Some (at, msg_id m)))
      else (map summarize rows, None))"

definition list_messages :: "uuid \<Rightarrow> list_filter \<Rightarrow> bool \<Rightarrow> time
     \<Rightarrow> (world, msg_err, summary list \<times> (time \<times> uuid) option) act" where
  "list_messages owner f trash now =
     (let f' = (if lf_limit f = 0 then f\<lparr>lf_limit := default_limit\<rparr> else f) in
      if lf_limit f' < 1 \<or> max_limit < lf_limit f' then throw MsgErrValidation
      else if (case lf_lifecycle f' of None \<Rightarrow> False | Some l \<Rightarrow> \<not> valid_lifecycle l) then throw MsgErrValidation
      else bindA (repo_list owner f' trash now) (\<lambda>rows. ret (page_of (lf_limit f') trash rows)))"

section \<open>The listings follow the contract\<close>

definition full_listing :: "uuid \<Rightarrow> list_filter \<Rightarrow> bool \<Rightarrow> time \<Rightarrow> db \<Rightarrow> message list" where
  "full_listing owner f trash now d =
     rev (if trash then sort_key trashed_key (filter (\<lambda>m. owner_id m = owner \<and> trashed_at m \<noteq> None) (messages d))
          else sort_key created_key (filter (matches owner f now d) (messages d)))"

definition list_key :: "bool \<Rightarrow> message \<Rightarrow> time \<times> uuid" where
  "list_key trash = (if trash then trashed_key else created_key)"

definition valid_filter :: "list_filter \<Rightarrow> bool" where
  "valid_filter f \<longleftrightarrow> 0 \<le> lf_limit f \<and> lf_limit f \<le> max_limit
     \<and> (case lf_lifecycle f of None \<Rightarrow> True | Some l \<Rightarrow> valid_lifecycle l)"

definition page_limit :: "list_filter \<Rightarrow> int" where
  "page_limit f = (if lf_limit f = 0 then default_limit else lf_limit f)"

definition listed_in :: "db \<Rightarrow> message \<Rightarrow> listed" where
  "listed_in d m = \<lparr>ls_row = m, ls_tags = tag_list (msg_id m) d, ls_attachments = take 3 (attachment_list (msg_id m) d),
     ls_total = attachment_count (msg_id m) d\<rparr>"

text \<open>The state a request meets: its time and the database.\<close>

definition list_page :: "uuid \<Rightarrow> list_filter \<Rightarrow> bool \<Rightarrow> time \<times> db \<Rightarrow> (time \<times> uuid) option
     \<Rightarrow> summary list \<times> (time \<times> uuid) option" where
  "list_page owner f trash s c =
     (case fst (list_messages owner (f\<lparr>lf_cursor := c\<rparr>) trash (fst s) (process_on (snd s))) of
        Inl e \<Rightarrow> ([], None) | Inr p \<Rightarrow> p)"

definition listing_of :: "uuid \<Rightarrow> list_filter \<Rightarrow> bool \<Rightarrow> time \<times> db \<Rightarrow> summary list" where
  "listing_of owner f trash s = map (summarize \<circ> listed_in (snd s)) (full_listing owner f trash (fst s) (snd s))"

definition summary_key :: "bool \<Rightarrow> summary \<Rightarrow> time \<times> uuid" where
  "summary_key trash u = list_key trash (ls_row (su_listed u))"

definition list_state_ok :: "list_filter \<Rightarrow> time \<times> db \<Rightarrow> bool" where
  "list_state_ok f s \<longleftrightarrow> valid_filter f \<and> distinct (map msg_id (messages (snd s)))"

lemma load_listed_quiet: "quiet w \<Longrightarrow> load_listed ms w = (Inr (map (listed_in (wdb w)) ms), w)"
  by (induction ms) (simp_all add: ret_run bindA_run query_quiet load_tags_def load_attachments_def listed_in_def)

lemma sorted_page:
  "rev (sort_key k (filter (\<lambda>m. P m \<and> below c (k m)) xs)) = filter (below c \<circ> k) (rev (sort_key k (filter P xs)))"
  by (simp only: rev_filter [symmetric] filter_sort filter_filter comp_def)

lemma repo_list_quiet:
  assumes "quiet w"
  shows "repo_list owner f trash now w = (Inr (map (listed_in (wdb w)) (take (nat (lf_limit f + 1))
     (filter (below (lf_cursor f) \<circ> list_key trash) (full_listing owner f trash now (wdb w))))), w)"
proof (cases trash)
  case True
  have "list_trashed_messages owner (lf_cursor f) n d = take n (filter (below (lf_cursor f) \<circ> trashed_key)
      (full_listing owner f True now d))" for n d
    unfolding list_trashed_messages_def full_listing_def
    using sorted_page [of trashed_key "\<lambda>m. owner_id m = owner \<and> trashed_at m \<noteq> None" "lf_cursor f"] by simp
  with True assms show ?thesis
    by (simp add: repo_list_def bindA_run query_quiet load_listed_quiet list_key_def)
next
  case False
  have "list_active_messages owner now f n d = take n (filter (below (lf_cursor f) \<circ> created_key)
      (full_listing owner f False now d))" for n d
    unfolding list_active_messages_def full_listing_def
    using sorted_page [of created_key "matches owner f now d" "lf_cursor f"] by simp
  with False assms show ?thesis
    by (simp add: repo_list_def bindA_run query_quiet load_listed_quiet list_key_def)
qed

lemma summary_key_listed [simp]: "summary_key trash (summarize (listed_in d m)) = list_key trash m"
  by (simp add: summary_key_def summarize_def listed_in_def list_key_def created_key_def trashed_key_def Let_def)

lemma full_listing_cursor [simp]: "full_listing owner (f\<lparr>lf_cursor := c\<rparr>) = full_listing owner f"
  "full_listing owner (f\<lparr>lf_limit := n\<rparr>) = full_listing owner f"
proof -
  have "matches owner (f\<lparr>lf_cursor := c\<rparr>) = matches owner f" "matches owner (f\<lparr>lf_limit := n\<rparr>) = matches owner f"
    by (simp_all add: fun_eq_iff matches_def)
  then show "full_listing owner (f\<lparr>lf_cursor := c\<rparr>) = full_listing owner f"
    "full_listing owner (f\<lparr>lf_limit := n\<rparr>) = full_listing owner f"
    by (auto intro!: ext simp: full_listing_def)
qed

lemma full_listing_trashed: "m \<in> set (full_listing owner f True now d) \<Longrightarrow> trashed_at m \<noteq> None"
  by (auto simp: full_listing_def)

lemma full_listing_descending:
  assumes "distinct (map msg_id (messages d))"
  shows "sorted_wrt (\<lambda>x y. list_key trash y < list_key trash x) (full_listing owner f trash now d)"
proof -
  have desc: "sorted_wrt (\<lambda>x y. k y < k x) (rev (sort_key k (filter P (messages d))))"
    if k: "\<And>m. snd (k m) = msg_id m" for k :: "message \<Rightarrow> time \<times> uuid" and P
  proof -
    have "distinct (map snd (map k (messages d)))" using assms k by (simp add: comp_def)
    then have "distinct (map k (messages d))" by (metis distinct_map)
    then have "distinct (map k (filter P (messages d)))" by (rule distinct_map_filter)
    then have "distinct (map k (sort_key k (filter P (messages d))))" by (simp add: distinct_map)
    then have "sorted_wrt (<) (map k (sort_key k (filter P (messages d))))" by (simp add: strict_sorted_iff)
    then show ?thesis by (simp add: sorted_wrt_map sorted_wrt_rev)
  qed
  show ?thesis
    unfolding full_listing_def list_key_def
    by (cases trash; simp only: if_True if_False; rule desc) (simp_all add: created_key_def trashed_key_def)
qed

text \<open>The position of a row of a page, and a page of the rows \<open>L m\<close> of messages in the order of their positions.\<close>

definition row_key :: "bool \<Rightarrow> message \<Rightarrow> time \<times> uuid" where
  "row_key trash m = (if trash then (case trashed_at m of None \<Rightarrow> created_at m | Some t \<Rightarrow> t) else created_at m, msg_id m)"

lemma page_of_rows:
  assumes n: "0 < n" and row: "\<And>m. m \<in> set xs \<Longrightarrow> row_key trash (ls_row (L m)) = list_key trash m"
  shows "page_of (int n) trash (map L (take (Suc n) xs))
    = (map (summarize \<circ> L) (take n xs), if n < length xs then Some (list_key trash (xs ! (n - 1))) else None)"
proof (cases "n < length xs")
  case True
  then have m: "xs ! (n - 1) \<in> set xs" using n by (intro nth_mem) simp
  have at: "map L (take (Suc n) xs) ! (n - 1) = L (xs ! (n - 1))" using True n by simp
  have i: "nat (int n - 1) = n - 1" using n by simp
  have t: "take n (map L (take (Suc n) xs)) = map L (take n xs)" using n by (simp add: take_map min_def)
  show ?thesis
    using True row [OF m] by (simp add: page_of_def Let_def i at t row_key_def)
next
  case False
  then show ?thesis by (simp add: page_of_def)
qed

lemma list_page_eq:
  assumes "valid_filter f"
  shows "list_page owner f trash s c =
    (let xs = filter (below c \<circ> list_key trash) (full_listing owner f trash (fst s) (snd s)); n = nat (page_limit f) in
     (map (summarize \<circ> listed_in (snd s)) (take n xs), if n < length xs then Some (list_key trash (xs ! (n - 1))) else None))"
proof -
  let ?f = "f\<lparr>lf_cursor := c, lf_limit := page_limit f\<rparr>"
  let ?xs = "filter (below c \<circ> list_key trash) (full_listing owner f trash (fst s) (snd s))"
  have lim: "1 \<le> page_limit f" "page_limit f \<le> max_limit"
    using assms by (auto simp: page_limit_def valid_filter_def default_limit_def max_limit_def)
  have "list_messages owner (f\<lparr>lf_cursor := c\<rparr>) trash (fst s) w
      = bindA (repo_list owner ?f trash (fst s)) (\<lambda>rows. ret (page_of (page_limit f) trash rows)) w" for w
    using assms lim by (auto simp: list_messages_def page_limit_def valid_filter_def Let_def split: option.splits)
  then have p: "list_page owner f trash s c
      = page_of (page_limit f) trash (map (listed_in (snd s)) (take (nat (page_limit f + 1)) ?xs))"
    by (simp add: list_page_def bindA_run repo_list_quiet ret_run)
  define n where "n = nat (page_limit f)"
  have n: "0 < n" "page_limit f = int n" "nat (page_limit f + 1) = Suc n" using lim by (auto simp: n_def)
  have row: "row_key trash (ls_row (listed_in (snd s) m)) = list_key trash m" if "m \<in> set ?xs" for m
    using that full_listing_trashed [of m owner f "fst s" "snd s"]
    by (auto simp: row_key_def listed_in_def list_key_def trashed_key_def created_key_def)
  show ?thesis unfolding p n(3) unfolding n(2) Let_def nat_int by (rule page_of_rows [OF n(1) row])
qed

interpretation pages: cursor_pages "list_page owner f trash" "listing_of owner f trash" "summary_key trash"
    "max 1 (nat (page_limit f))" "list_state_ok f" for owner f trash
proof
  fix s :: "time \<times> db" and c
  assume ok: "list_state_ok f s"
  then have v: "valid_filter f" by (simp add: list_state_ok_def)
  then have "1 \<le> nat (page_limit f)" by (auto simp: valid_filter_def page_limit_def default_limit_def)
  then have lim: "max 1 (nat (page_limit f)) = nat (page_limit f)" by (rule max_absorb2)
  have listing: "filter (below c \<circ> summary_key trash) (listing_of owner f trash s)
     = map (summarize \<circ> listed_in (snd s)) (filter (below c \<circ> list_key trash) (full_listing owner f trash (fst s) (snd s)))" for c
    by (simp add: listing_of_def filter_map comp_def)
  show "sorted_wrt (\<lambda>x y. summary_key trash y < summary_key trash x) (listing_of owner f trash s)"
    using full_listing_descending [of "snd s" trash owner f "fst s"] ok
    by (simp add: listing_of_def sorted_wrt_map list_state_ok_def)
  show "fst (list_page owner f trash s c) = take (max 1 (nat (page_limit f))) (filter (below c \<circ> summary_key trash) (listing_of owner f trash s))"
    unfolding lim listing using v by (simp add: list_page_eq Let_def take_map)
  show "snd (list_page owner f trash s c) =
      (let xs = filter (below c \<circ> summary_key trash) (listing_of owner f trash s) in
       if max 1 (nat (page_limit f)) < length xs then Some (summary_key trash (xs ! (max 1 (nat (page_limit f)) - 1))) else None)"
    unfolding lim listing using v by (simp add: list_page_eq Let_def)
qed simp

section \<open>Properties\<close>

text \<open>C11: Following the cursors of an unchanging database lists every matching message, in order, exactly once:
  the pages one after the other are the full listing, and one page more than there are messages is
  always enough to reach the end. Holds for the active and the trashed listing and every valid filter.\<close>

theorem following_the_cursors_lists_everything:
  assumes "valid_filter f" "distinct (map msg_id (messages d))" "length (full_listing owner f trash now d) \<le> n"
  shows "browse (list_page owner f trash) (replicate (Suc n) (now, d)) None
    = Some (map (summarize \<circ> listed_in d) (full_listing owner f trash now d))"
proof -
  have "filter (below None \<circ> summary_key trash) (listing_of owner f trash (now, d)) = listing_of owner f trash (now, d)"
    by simp
  then show ?thesis
    using pages.browse_all [of f "(now, d)" None trash owner n] assms
    by (simp add: list_state_ok_def listing_of_def del: browse.simps)
qed

text \<open>C33: While a client pages, the database may change between its requests in any way (messages come, go, expire
  and are edited) and time passes: a message that every request's state lists at the same position is
  shown exactly once, neither skipped nor repeated.\<close>

theorem paging_never_skips_or_repeats:
  assumes "browse (list_page owner f trash) ss None = Some us" "valid_filter f"
    and "\<forall>s\<in>set ss. distinct (map msg_id (messages (snd s)))
      \<and> k \<in> list_key trash ` set (full_listing owner f trash (fst s) (snd s))"
  shows "count_list (map (summary_key trash) us) k = 1"
proof (rule pages.browse_stable [OF assms(1)])
  show "\<forall>s\<in>set ss. list_state_ok f s \<and> k \<in> summary_key trash ` set (listing_of owner f trash s)"
    using assms(2,3) by (auto simp: list_state_ok_def listing_of_def image_iff)
qed simp

definition plain_message :: "uuid \<Rightarrow> time \<Rightarrow> message" where
  "plain_message i t = \<lparr>msg_id = i, owner_id = 1, title = None, body_plaintext = Some ''hello'', body_ciphertext = None,
     body_nonce = None, body_encryption_version = None, body_format = ''TEXT'', detected_type = None,
     detected_language = None, sensitive = False, msg_lifecycle = Permanent, favorite = False, expires_at = None,
     trashed_at = None, purge_at = None, source_user_id = None, source_message_id = None, created_device_id = None,
     version = 1, created_at = t, updated_at = t\<rparr>"

definition any_filter :: list_filter where
  "any_filter = \<lparr>lf_lifecycle = None, lf_favorite = None, lf_tags = [], lf_cursor = None, lf_limit = 1\<rparr>"

definition inbox :: "message list \<Rightarrow> db" where
  "inbox ms = empty_db\<lparr>messages := ms\<rparr>"

lemma inbox_listing: "full_listing 1 any_filter False now (inbox [plain_message 5 50, plain_message 6 60])
    = [plain_message 6 60, plain_message 5 50]"
  "full_listing 1 any_filter False now (inbox [plain_message 5 50, plain_message 6 60, plain_message 7 70])
    = [plain_message 7 70, plain_message 6 60, plain_message 5 50]"
  by (simp_all add: full_listing_def inbox_def matches_def any_filter_def plain_message_def created_key_def)

lemma any_filter_valid: "valid_filter any_filter"
  by (simp add: valid_filter_def any_filter_def max_limit_def)

theorem following_the_cursors_lists_everything_witness:
  "map_option (map (fst \<circ> created_key \<circ> ls_row \<circ> su_listed))
    (browse (list_page 1 any_filter False) (replicate 3 (9, inbox [plain_message 5 50, plain_message 6 60])) None) = Some [60, 50]"
proof -
  let ?d = "inbox [plain_message 5 50, plain_message 6 60]"
  have "distinct (map msg_id (messages ?d))" by (simp add: inbox_def plain_message_def)
  then have "browse (list_page 1 any_filter False) (replicate (Suc 2) (9, ?d)) None
      = Some (map (summarize \<circ> listed_in ?d) [plain_message 6 60, plain_message 5 50])"
    using following_the_cursors_lists_everything [OF any_filter_valid, of ?d 1 False 9 2] by (simp only: inbox_listing) simp
  moreover have "(fst \<circ> created_key \<circ> ls_row \<circ> su_listed) ((summarize \<circ> listed_in ?d) (plain_message i t)) = t" for i t
    by (simp add: summarize_def listed_in_def created_key_def plain_message_def Let_def)
  moreover have "Suc 2 = (3 :: nat)" by simp
  ultimately show ?thesis by (simp only: option.map list.map)
qed

text \<open>A message arrives after the first page.\<close>

theorem paging_never_skips_or_repeats_witness:
  "\<exists>us. browse (list_page 1 any_filter False) [(9, inbox [plain_message 5 50, plain_message 6 60]),
        (10, inbox [plain_message 5 50, plain_message 6 60, plain_message 7 70])] None = Some us
    \<and> count_list (map (summary_key False) us) (50, 5) = 1"
proof -
  let ?a = "inbox [plain_message 5 50, plain_message 6 60]" and ?b = "inbox [plain_message 5 50, plain_message 6 60, plain_message 7 70]"
  have p: "page_limit any_filter = 1" by (simp add: page_limit_def any_filter_def)
  have k: "list_key False (plain_message i t) = (t, i)" for i t
    by (simp add: list_key_def created_key_def plain_message_def)
  obtain us where us: "browse (list_page 1 any_filter False) [(9, ?a), (10, ?b)] None = Some us"
    by (simp add: list_page_eq [OF any_filter_valid] inbox_listing p k Let_def)
  moreover have "\<forall>s\<in>set [(9, ?a), (10, ?b)]. distinct (map msg_id (messages (snd s)))
      \<and> (50, 5) \<in> list_key False ` set (full_listing 1 any_filter False (fst s) (snd s))"
    by (simp add: inbox_listing k) (simp add: inbox_def plain_message_def)
  ultimately show ?thesis using paging_never_skips_or_repeats [OF us any_filter_valid] by blast
qed

end
