(* ===== verification/Files.thy ===== *)
theory Files
  imports Finalize MessageModel
begin

text \<open>
  Access to attachments and the life of stored objects (\<^verbatim>\<open>internal/files/service.go\<close>): downloads, previews and
  thumbnails for the owner of a message; the garbage collection that marks unreferenced objects, and the
  reconciliation that finishes or removes the objects a crash or a collection left PENDING or DELETING.
  Image processing (\<^verbatim>\<open>thumbnail.go\<close>) and archives (\<^verbatim>\<open>zip.go\<close>) are left out. A query that fails returns no rows.
\<close>

datatype file_err = FErrAttachmentNotFound | FErrPreviewNotFound | FErrThumbnailNotFound | FErrStorageUnavailable
  | FErrStorageIntegrity | FIO | FJoin "file_err list"

section \<open>Downloads\<close>

record download =
  dl_attachment :: uuid
  dl_filename :: string
  dl_mime :: string
  dl_key :: storage_key
  dl_sha :: bytes
  dl_size :: int
  dl_modified :: time

record thumbnail_download =
  td_attachment :: uuid
  td_derivative :: uuid
  td_mime :: string
  td_key :: storage_key
  td_size :: int
  td_modified :: time

text \<open>The attachment, its message of the owner and its READY object.\<close>

definition authorized_row :: "uuid \<Rightarrow> uuid \<Rightarrow> db \<Rightarrow> (attachment \<times> file_object) option" where
  "authorized_row owner i d =
     (case by_key ma_id i (attachments d) of None \<Rightarrow> None
      | Some a \<Rightarrow>
          (case by_key msg_id (ma_message a) (messages d) of None \<Rightarrow> None
           | Some m \<Rightarrow>
               if owner_id m \<noteq> owner then None
               else (case by_key fo_id (ma_file a) (file_objects d) of None \<Rightarrow> None
                 | Some f \<Rightarrow> if fo_status f = ObjReady then Some (a, f) else None)))"

definition object_key_ok :: "storage_key \<Rightarrow> bool" where
  "object_key_ok k \<longleftrightarrow> key_ok k \<and> prefix ''objects/'' (key_string k)"

definition derivative_key_ok :: "storage_key \<Rightarrow> bool" where
  "derivative_key_ok k \<longleftrightarrow> key_ok k \<and> prefix ''derivatives/'' (key_string k)"

definition authorized_download :: "bool \<Rightarrow> uuid \<Rightarrow> uuid \<Rightarrow> (world, file_err, download) act" where
  "authorized_download healthy owner i =
     (if \<not> healthy then throw FErrStorageUnavailable
      else bindA (query FIO (authorized_row owner i)) (\<lambda>row.
        (case row of
           None \<Rightarrow> throw FErrAttachmentNotFound
         | Some (a, f) \<Rightarrow>
             if \<not> object_key_ok (storage_key f) then throw FErrStorageIntegrity
             else ret \<lparr>dl_attachment = ma_id a, dl_filename = ma_filename a, dl_mime = detected_mime f,
               dl_key = storage_key f, dl_sha = sha256 f, dl_size = size_bytes f,
               dl_modified = (case ready_at f of None \<Rightarrow> fo_updated_at f | Some t \<Rightarrow> t)\<rparr>)))"

definition preview_mimes :: "string list" where
  "preview_mimes = [''image/jpeg'', ''image/png'', ''image/gif'', ''image/webp'', ''application/pdf'',
     ''audio/mpeg'', ''audio/mp4'', ''audio/ogg'', ''audio/wav'', ''audio/webm'',
     ''video/mp4'', ''video/webm'', ''video/ogg'', ''video/quicktime'']"

text \<open>
  \<^verbatim>\<open>strings.ToLower\<close>, as far as ASCII texts can come out of it: the capital ASCII letters, and the two other
  letters (U+212A and U+0130) whose lower case is an ASCII letter.
\<close>

fun lower_ascii :: "string \<Rightarrow> string" where
  "lower_ascii [] = []"
| "lower_ascii (a # b # c # s) =
     (if a = CHR 0xE2 \<and> b = CHR 0x84 \<and> c = CHR 0xAA then CHR ''k'' # lower_ascii s
      else if a = CHR 0xC4 \<and> b = CHR 0xB0 then CHR ''i'' # lower_ascii (c # s)
      else (if CHR ''A'' \<le> a \<and> a \<le> CHR ''Z'' then char_of (of_char a + 32 :: nat) else a) # lower_ascii (b # c # s))"
| "lower_ascii (a # s) =
     (if a = CHR 0xC4 \<and> s = [CHR 0xB0] then ''i''
      else (if CHR ''A'' \<le> a \<and> a \<le> CHR ''Z'' then char_of (of_char a + 32 :: nat) else a) # lower_ascii s)"

definition is_preview_mime :: "string \<Rightarrow> bool" where
  "is_preview_mime v \<longleftrightarrow> lower_ascii (trim_space v) \<in> set preview_mimes"

definition authorized_preview :: "bool \<Rightarrow> uuid \<Rightarrow> uuid \<Rightarrow> (world, file_err, download) act" where
  "authorized_preview healthy owner i = bindA (authorized_download healthy owner i) (\<lambda>d.
     if \<not> is_preview_mime (dl_mime d) then throw FErrPreviewNotFound else ret d)"

definition thumbnail_kind :: string where "thumbnail_kind = ''THUMBNAIL_SMALL''"

definition thumbnail_row :: "uuid \<Rightarrow> uuid \<Rightarrow> db \<Rightarrow> (attachment \<times> derivative) option" where
  "thumbnail_row owner i d = (case authorized_row owner i d of None \<Rightarrow> None
     | Some (a, f) \<Rightarrow> map_option (\<lambda>t. (a, t))
         (find (\<lambda>t. source_file_id t = fo_id f \<and> fd_kind t = thumbnail_kind \<and> fd_status t = DerivReady) (derivatives d)))"

definition authorized_thumbnail :: "uuid \<Rightarrow> uuid \<Rightarrow> (world, file_err, thumbnail_download) act" where
  "authorized_thumbnail owner i = bindA (query FIO (thumbnail_row owner i)) (\<lambda>row.
     (case row of
        None \<Rightarrow> throw FErrThumbnailNotFound
      | Some (a, t) \<Rightarrow>
          if \<not> derivative_key_ok (fd_key t) \<or> (fd_mime t \<noteq> ''image/jpeg'' \<and> fd_mime t \<noteq> ''image/png'') \<or> fd_size t \<le> 0
          then throw FErrStorageIntegrity
          else ret \<lparr>td_attachment = ma_id a, td_derivative = fd_id t, td_mime = fd_mime t, td_key = fd_key t,
            td_size = fd_size t, td_modified = fd_updated_at t\<rparr>))"

text \<open>Opening a stored file of the recorded size.\<close>

definition open_sized :: "storage_key \<Rightarrow> int \<Rightarrow> (world, file_err, bytes) act" where
  "open_sized k n = bindA (tryA (store_read k)) (\<lambda>(r :: storage_err + bytes).
     (case r of
        Inl e \<Rightarrow> throw (if e = StErrNotFound then FErrStorageIntegrity else FErrStorageUnavailable)
      | Inr b \<Rightarrow> bindA (ext FErrStorageUnavailable (\<lambda>w. ((), w))) (\<lambda>_.
          if int (length b) \<noteq> n then throw FErrStorageIntegrity else ret b)))"

definition open_download :: "download \<Rightarrow> (world, file_err, bytes) act" where
  "open_download d = open_sized (dl_key d) (dl_size d)"

definition open_thumbnail :: "thumbnail_download \<Rightarrow> (world, file_err, bytes) act" where
  "open_thumbnail d = open_sized (td_key d) (td_size d)"

section \<open>Collection\<close>

abbreviation lease :: duration where "lease \<equiv> 24 * hour"

text \<open>Completed uploads whose lease has run out; their parts go with them.\<close>

definition lease_over :: "time \<Rightarrow> upload \<Rightarrow> bool" where
  "lease_over now u \<longleftrightarrow> us_status u = Completed \<and> (case completed_at u of None \<Rightarrow> False | Some t \<Rightarrow> t \<le> now - lease)"

definition delete_leases :: "time \<Rightarrow> db \<Rightarrow> unit \<times> db" where
  "delete_leases now d = (let gone = map us_id (filter (lease_over now) (uploads d)) in
     ((), d\<lparr>uploads := sql_delete (lease_over now) (uploads d),
            parts := sql_delete (\<lambda>p. part_upload p \<in> set gone) (parts d)\<rparr>))"

definition collectable :: "time \<Rightarrow> db \<Rightarrow> uuid \<Rightarrow> bool" where
  "collectable now d f \<longleftrightarrow> \<not> sql_exists (\<lambda>a. ma_file a = f) (attachments d)
     \<and> \<not> sql_exists (\<lambda>u. file_object_id u = Some f \<and> us_status u = Completed \<and> consumed_at u = None
           \<and> (case completed_at u of None \<Rightarrow> False | Some t \<Rightarrow> now - lease < t)) (uploads d)
     \<and> \<not> sql_exists (\<lambda>j. job_type j = ''GENERATE_THUMBNAIL'' \<and> subject_type j = ''FILE_OBJECT'' \<and> subject_id j = Some f
           \<and> (job_status j = JobPending \<or> job_status j = JobRunning)) (jobs d)"

definition gc_candidates :: "time \<Rightarrow> nat \<Rightarrow> db \<Rightarrow> uuid list" where
  "gc_candidates now batch d = map fo_id (take batch (sort_key (\<lambda>f. (the (ready_at f), fo_id f))
     (filter (\<lambda>f. fo_status f = ObjReady \<and> (case ready_at f of None \<Rightarrow> False | Some t \<Rightarrow> t \<le> now - lease)
        \<and> collectable now d (fo_id f)) (file_objects d))))"

definition mark_deleting :: "time \<Rightarrow> uuid \<Rightarrow> db \<Rightarrow> unit \<times> db" where
  "mark_deleting now i d = ((), d\<lparr>file_objects := sql_update
     (\<lambda>f. fo_id f = i \<and> fo_status f = ObjReady \<and> collectable now d i)
     (\<lambda>f. f\<lparr>fo_status := ObjDeleting, fo_updated_at := now\<rparr>) (file_objects d)\<rparr>)"

definition gc_mark :: "nat \<Rightarrow> time \<Rightarrow> (world, file_err, unit) act" where
  "gc_mark batch now = in_tx FIO
     (bindA (exec FIO (delete_leases now)) (\<lambda>_.
      bindA (query FIO (gc_candidates now batch)) (\<lambda>is.
      bindA (forA is (\<lambda>i. exec FIO (mark_deleting now i))) commit_tx)))"

section \<open>Reconciliation\<close>

text \<open>\<open>now()\<close> of the database is the argument \<open>now\<close>.\<close>

definition remove_pending :: "uuid \<Rightarrow> db \<Rightarrow> unit \<times> db" where
  "remove_pending i d = ((), d\<lparr>file_objects := sql_delete (\<lambda>f. fo_id f = i \<and> fo_status f = ObjPending
     \<and> \<not> sql_exists (\<lambda>a. ma_file a = i) (attachments d)) (file_objects d)\<rparr>)"

definition make_ready :: "time \<Rightarrow> uuid \<Rightarrow> db \<Rightarrow> unit \<times> db" where
  "make_ready now i d = ((), d\<lparr>file_objects := sql_update (\<lambda>f. fo_id f = i \<and> fo_status f = ObjPending)
     (\<lambda>f. f\<lparr>fo_status := ObjReady, ready_at := Some now, fo_updated_at := now\<rparr>) (file_objects d)\<rparr>)"

definition reconcile_pending_object :: "(bytes \<Rightarrow> bytes) \<Rightarrow> time \<Rightarrow> file_object \<Rightarrow> (world, file_err, unit) act" where
  "reconcile_pending_object sha now f =
     (if \<not> object_key_ok (storage_key f) then throw FErrStorageIntegrity
      else bindA (tryA (store_stat (storage_key f))) (\<lambda>(r :: storage_err + int).
        (case r of
           Inl e \<Rightarrow>
             if e = StErrNotFound then
               bindA (tryA (store_delete (CommitTempKey (fo_id f)))) (\<lambda>(_ :: storage_err + unit).
               exec FIO (remove_pending (fo_id f)))
             else throw FErrStorageUnavailable
         | Inr n \<Rightarrow>
             if n \<noteq> size_bytes f then throw FErrStorageIntegrity
             else bindA (mapErr (\<lambda>_. FErrStorageUnavailable) (store_read (storage_key f))) (\<lambda>b.
               if sha b \<noteq> sha256 f then throw FErrStorageIntegrity
               else exec FIO (make_ready now (fo_id f))))))"

definition delete_derivative :: "uuid \<Rightarrow> uuid \<Rightarrow> db \<Rightarrow> unit \<times> db" where
  "delete_derivative i f d =
     ((), d\<lparr>derivatives := sql_delete (\<lambda>x. fd_id x = i \<and> source_file_id x = f) (derivatives d)\<rparr>)"

text \<open>Deleting the row of an object: its sessions forget it; a remaining derivative is an error (\<open>None\<close>).\<close>

definition delete_object_row :: "uuid \<Rightarrow> db \<Rightarrow> nat option \<times> db" where
  "delete_object_row i d =
     (let p = (\<lambda>f. fo_id f = i \<and> fo_status f = ObjDeleting \<and> \<not> sql_exists (\<lambda>a. ma_file a = i) (attachments d)) in
      if sql_count p (file_objects d) \<noteq> 0 \<and> sql_exists (\<lambda>x. source_file_id x = i) (derivatives d) then (None, d)
      else (Some (sql_count p (file_objects d)),
        d\<lparr>file_objects := sql_delete p (file_objects d),
          uploads := (if sql_count p (file_objects d) = 0 then uploads d
            else sql_update (\<lambda>u. file_object_id u = Some i) (\<lambda>u. u\<lparr>file_object_id := None\<rparr>) (uploads d))\<rparr>))"

definition derivatives_of :: "uuid \<Rightarrow> db \<Rightarrow> derivative list" where
  "derivatives_of f d = sort_key fd_id (filter (\<lambda>x. source_file_id x = f) (derivatives d))"

definition delete_object :: "file_object \<Rightarrow> (world, file_err, unit) act" where
  "delete_object f =
     bindA (query FIO (derivatives_of (fo_id f))) (\<lambda>items.
     bindA (forA items (\<lambda>x.
       if \<not> derivative_key_ok (fd_key x) then throw FErrStorageIntegrity
       else bindA (mapErr (\<lambda>_. FErrStorageUnavailable) (store_delete (fd_key x))) (\<lambda>_.
         exec FIO (delete_derivative (fd_id x) (fo_id f))))) (\<lambda>_.
     if \<not> object_key_ok (storage_key f) then throw FErrStorageIntegrity
     else bindA (mapErr (\<lambda>_. FErrStorageUnavailable) (store_delete (storage_key f))) (\<lambda>_.
       bindA (exec FIO (delete_object_row (fo_id f))) (\<lambda>n.
       (case n of None \<Rightarrow> throw FIO | Some k \<Rightarrow> if k \<noteq> 1 then throw FErrStorageIntegrity else ret ())))))"

text \<open>One page of objects; the result is how many were settled and the errors of the others. The
  page ends when the batch is full.\<close>

definition reconcile_object :: "(bytes \<Rightarrow> bytes) \<Rightarrow> time \<Rightarrow> file_object \<Rightarrow> (world, file_err, unit) act" where
  "reconcile_object sha now f =
     (if fo_status f = ObjPending then reconcile_pending_object sha now f else delete_object f)"

fun reconcile_page :: "(bytes \<Rightarrow> bytes) \<Rightarrow> time \<Rightarrow> nat \<Rightarrow> file_object list \<Rightarrow> (world, file_err, nat \<times> file_err list) act" where
  "reconcile_page sha now room [] = ret (0, [])"
| "reconcile_page sha now room (f # fs) =
     bindA (tryA (reconcile_object sha now f)) (\<lambda>(r :: file_err + unit).
     (case r of
        Inl e \<Rightarrow> bindA (reconcile_page sha now room fs) (\<lambda>(n, es). ret (n, e # es))
      | Inr _ \<Rightarrow> if room \<le> 1 then ret (1, [])
          else bindA (reconcile_page sha now (room - 1) fs) (\<lambda>(n, es). ret (Suc n, es))))"

definition object_position :: "file_object \<Rightarrow> time \<times> uuid" where
  "object_position f = (fo_created_at f, fo_id f)"

definition unsettled_objects :: "(time \<times> uuid) option \<Rightarrow> nat \<Rightarrow> db \<Rightarrow> file_object list" where
  "unsettled_objects c n d = take n (sort_key object_position
     (filter (\<lambda>f. fo_status f \<noteq> ObjReady \<and> (case c of None \<Rightarrow> True | Some k \<Rightarrow> k < object_position f)) (file_objects d)))"

text \<open>The loop over the pages. The fuel counts pages; \<open>None\<close>: it ran out.\<close>

fun reconcile_pages :: "nat \<Rightarrow> (bytes \<Rightarrow> bytes) \<Rightarrow> time \<Rightarrow> (time \<times> uuid) option \<Rightarrow> nat
     \<Rightarrow> (world, file_err, file_err list option) act" where
  "reconcile_pages 0 sha now c room = ret None"
| "reconcile_pages (Suc k) sha now c room =
     (if room = 0 then ret (Some [])
      else bindA (tryA (query FIO (unsettled_objects c room))) (\<lambda>(r :: file_err + file_object list).
        (case r of
           Inl e \<Rightarrow> ret (Some [e])
         | Inr [] \<Rightarrow> ret (Some [])
         | Inr (f # fs) \<Rightarrow>
             bindA (reconcile_page sha now room (f # fs)) (\<lambda>(n, es).
             bindA (reconcile_pages k sha now (Some (object_position (last (f # fs)))) (room - n)) (\<lambda>rest.
             ret (map_option (\<lambda>es'. es @ es') rest))))))"

definition owns_temp :: "uuid \<Rightarrow> db \<Rightarrow> bool" where
  "owns_temp i d \<longleftrightarrow> sql_exists (\<lambda>f. fo_id f = i \<and> fo_status f = ObjPending) (file_objects d)
     \<or> sql_exists (\<lambda>x. fd_id x = i \<and> fd_status x = DerivPending) (derivatives d)"

fun cleanup_each :: "uuid list \<Rightarrow> (world, file_err, file_err list) act" where
  "cleanup_each [] = ret []"
| "cleanup_each (i # is) =
     bindA (tryA (query FIO (owns_temp i))) (\<lambda>(r :: file_err + bool).
     (case r of
        Inl e \<Rightarrow> bindA (cleanup_each is) (\<lambda>es. ret (e # es))
      | Inr True \<Rightarrow> cleanup_each is
      | Inr False \<Rightarrow> bindA (tryA (store_delete (CommitTempKey i))) (\<lambda>(x :: storage_err + unit).
          bindA (cleanup_each is) (\<lambda>es. ret (case x of Inl _ \<Rightarrow> FErrStorageUnavailable # es | Inr _ \<Rightarrow> es)))))"

definition cleanup_temps :: "(world, file_err, file_err list) act" where
  "cleanup_temps = bindA (tryA list_commit_temps) (\<lambda>(r :: storage_err + uuid list).
     (case r of Inl _ \<Rightarrow> ret [FErrStorageUnavailable] | Inr is \<Rightarrow> cleanup_each is))"

text \<open>As many pages as there are objects, and one to see the end, are always enough.\<close>

definition reconcile_objects :: "(bytes \<Rightarrow> bytes) \<Rightarrow> time \<Rightarrow> int \<Rightarrow> (world, file_err, unit) act" where
  "reconcile_objects sha now batch =
     (if batch \<le> 0 then ret ()
      else bindA (gets (\<lambda>w. Suc (length (file_objects (wdb w))))) (\<lambda>fuel.
        bindA (reconcile_pages fuel sha now None (nat batch)) (\<lambda>es.
        bindA cleanup_temps (\<lambda>es'.
        if the es @ es' = [] then ret () else throw (FJoin (the es @ es'))))))"

definition gc :: "(bytes \<Rightarrow> bytes) \<Rightarrow> int \<Rightarrow> time \<Rightarrow> time \<Rightarrow> (world, file_err, unit) act" where
  "gc sha batch now dbnow =
     (if batch \<le> 0 then ret ()
      else bindA (gc_mark (nat batch) now) (\<lambda>_. reconcile_objects sha dbnow batch))"

text \<open>Null values of \<open>ready_at\<close> come last.\<close>

definition ready_rows :: "nat \<Rightarrow> db \<Rightarrow> file_object list" where
  "ready_rows n d = take n (sort_key
     (\<lambda>f. (ready_at f = None, case ready_at f of None \<Rightarrow> 0 | Some t \<Rightarrow> t, fo_id f))
     (filter (\<lambda>f. fo_status f = ObjReady) (file_objects d)))"

definition verify_ready :: "nat \<Rightarrow> (world, file_err, unit) act" where
  "verify_ready batch = bindA (query FIO (ready_rows batch)) (\<lambda>rows.
     forA rows (\<lambda>f. bindA (mapErr (\<lambda>_. FErrStorageIntegrity) (store_stat (storage_key f))) (\<lambda>n.
       if n \<noteq> size_bytes f then throw FErrStorageIntegrity else ret ())))"

end
