(* ===== verification/Accounts.thy ===== *)
theory Accounts
  imports Settings MessageModel Paging
begin

unbundle bit_operations_syntax

text \<open>
  User accounts (\<^verbatim>\<open>internal/users\<close>): names and passwords, the administration (list, create, disable, delete), the
  bootstrap of the first administrator, and the directory of recipients. Deleting a user follows the
  \<open>ON DELETE\<close> rules of the foreign keys. The case mapping of Unicode (\<^verbatim>\<open>strings.ToLower\<close>) and of the
  database (\<open>lower\<close>) are arguments, and so is the result of the password hash, which is salted at random.
\<close>

datatype account_err = AccErrInvalidUsername | AccErrInvalidPassword | AccErrNotFound | AccErrUsernameTaken
  | AccErrInvalidList | AccErrBootstrapUnavailable | AccIO

section \<open>Names and passwords\<close>

definition normalize_username :: "(string \<Rightarrow> string) \<Rightarrow> string \<Rightarrow> account_err + string" where
  "normalize_username lower v =
     (let n = lower (trim_space v) in
      if rune_count n < 1 \<or> 64 < rune_count n then Inl AccErrInvalidUsername else Inr n)"

definition validate_password :: "string \<Rightarrow> bool" where
  "validate_password p \<longleftrightarrow> \<not> (rune_count p < 10 \<or> 1024 < length p)"

definition validate_new_user ::
    "(string \<Rightarrow> string) \<Rightarrow> string \<Rightarrow> string \<Rightarrow> string \<Rightarrow> account_err + string \<times> string" where
  "validate_new_user lower name display password =
     (case normalize_username lower name of
        Inl e \<Rightarrow> Inl e
      | Inr n \<Rightarrow>
          let d = trim_space display in
          if rune_count d < 1 \<or> 100 < rune_count d then Inl AccErrInvalidUsername
          else if \<not> validate_password password then Inl AccErrInvalidPassword
          else Inr (n, d))"

section \<open>Statements\<close>

text \<open>A name or an identifier that is taken violates a constraint (\<open>Some False\<close>); what is not text is another error
  (\<open>None\<close>).\<close>

definition insert_user :: "user \<Rightarrow> db \<Rightarrow> bool option \<times> db" where
  "insert_user u d =
     (if \<not> pg_text (username u) \<or> \<not> pg_text (display_name u) \<or> \<not> pg_text (password_hash u) then (None, d)
      else if sql_exists (\<lambda>x. usr_id x = usr_id u \<or> username x = username u) (users d) then (Some False, d)
      else (Some True, d\<lparr>users := users d @ [u]\<rparr>))"

definition add_user :: "user \<Rightarrow> (world, account_err, unit) act" where
  "add_user u = bindA (exec AccIO (insert_user u)) (\<lambda>r.
     (case r of None \<Rightarrow> throw AccIO | Some ok \<Rightarrow> if ok then ret () else throw AccErrUsernameTaken))"

definition disable_user_row :: "uuid \<Rightarrow> time \<Rightarrow> db \<Rightarrow> nat \<times> db" where
  "disable_user_row i now d = (let p = (\<lambda>u. usr_id u = i) in
     (sql_count p (users d), d\<lparr>users := sql_update p (\<lambda>u. u\<lparr>usr_status := Disabled, usr_updated_at := now\<rparr>) (users d)\<rparr>))"

text \<open>\<open>COALESCE(revoked_at, now)\<close>\<close>

definition revoke_sessions_of :: "uuid \<Rightarrow> time \<Rightarrow> db \<Rightarrow> unit \<times> db" where
  "revoke_sessions_of i now d = ((), d\<lparr>sessions := sql_update (\<lambda>s. ses_user s = i)
     (\<lambda>s. s\<lparr>revoked_at := (case revoked_at s of None \<Rightarrow> Some now | Some t \<Rightarrow> Some t)\<rparr>) (sessions d)\<rparr>)"

definition forget :: "'a list \<Rightarrow> 'a option \<Rightarrow> 'a option" where
  "forget xs v = (case v of None \<Rightarrow> None | Some x \<Rightarrow> if x \<in> set xs then None else Some x)"

definition delete_user_rows :: "uuid \<Rightarrow> db \<Rightarrow> db" where
  "delete_user_rows i d =
     (let d1 = delete_messages (\<lambda>m. owner_id m = i) d;
          devs = map dev_id (filter (\<lambda>x. dev_user x = i) (devices d));
          sess = map ses_id (filter (\<lambda>s. ses_user s = i \<or> ses_device s \<in> set devs) (sessions d));
          tgs = map tag_id (filter (\<lambda>t. tag_user t = i) (tags d));
          ups = map us_id (filter (\<lambda>u. us_user u = i) (uploads d))
      in d1\<lparr>users := sql_delete (\<lambda>u. usr_id u = i) (users d),
            devices := sql_delete (\<lambda>x. dev_user x = i) (devices d),
            sessions := sql_delete (\<lambda>s. ses_user s = i \<or> ses_device s \<in> set devs) (sessions d),
            tags := sql_delete (\<lambda>t. tag_user t = i) (tags d),
            message_tags := sql_delete (\<lambda>x. snd x \<in> set tgs) (message_tags d1),
            messages := map (\<lambda>m. m\<lparr>source_user_id := forget [i] (source_user_id m),
              created_device_id := forget devs (created_device_id m)\<rparr>) (messages d1),
            uploads := sql_delete (\<lambda>u. us_user u = i) (uploads d1),
            parts := sql_delete (\<lambda>p. part_upload p \<in> set ups) (parts d),
            idem_keys := sql_delete (\<lambda>k. idem_user k = i) (idem_keys d),
            user_totps := sql_delete (\<lambda>t. totp_user t = i) (user_totps d),
            totp_challenges := sql_delete (\<lambda>c. tc_user c = i \<or> (case tc_device c of None \<Rightarrow> False | Some x \<Rightarrow> x \<in> set devs))
              (totp_challenges d),
            sys_settings := (sys_settings d)\<lparr>settings_updated_by := forget [i] (settings_updated_by (sys_settings d))\<rparr>,
            audit_logs := map (\<lambda>a. a\<lparr>audit_actor := forget [i] (audit_actor a), audit_device := forget devs (audit_device a),
              audit_session := forget sess (audit_session a)\<rparr>) (audit_logs d)\<rparr>)"

definition delete_user_row :: "uuid \<Rightarrow> db \<Rightarrow> nat \<times> db" where
  "delete_user_row i d = (let n = sql_count (\<lambda>u. usr_id u = i) (users d) in
     (n, if n = 0 then d else delete_user_rows i d))"

section \<open>Administration\<close>

text \<open>The page of users after a cursor, oldest first; the marker of the next page is its last row.\<close>

definition user_position :: "user \<Rightarrow> time \<times> uuid" where
  "user_position u = (usr_created_at u, usr_id u)"

definition users_after :: "(time \<times> uuid) option \<Rightarrow> nat \<Rightarrow> db \<Rightarrow> user list" where
  "users_after c n d = take n (sort_key user_position
     (filter (\<lambda>u. case c of None \<Rightarrow> True | Some k \<Rightarrow> k < user_position u) (users d)))"

definition without_hash :: "user \<Rightarrow> user" where
  "without_hash u = u\<lparr>password_hash := []\<rparr>"

definition list_users ::
    "(time \<times> uuid) option \<Rightarrow> int \<Rightarrow> (world, account_err, user list \<times> (time \<times> uuid) option) act" where
  "list_users c lim0 =
     (let lim = if lim0 = 0 then 30 else lim0 in
      if lim < 1 \<or> 100 < lim then throw AccErrInvalidList
      else bindA (query AccIO (users_after c (nat (lim + 1)))) (\<lambda>rows.
        let out = map without_hash rows in
        ret (take (nat lim) out,
          if lim < int (length out) then Some (user_position (out ! nat (lim - 1))) else None)))"

definition new_user :: "uuid \<Rightarrow> string \<Rightarrow> string \<Rightarrow> string \<Rightarrow> bool \<Rightarrow> time \<Rightarrow> user" where
  "new_user i name display h adm now = \<lparr>usr_id = i, username = name, display_name = display, password_hash = h,
     is_admin = adm, usr_status = Active, usr_created_at = now, usr_updated_at = now\<rparr>"

text \<open>\<open>hashed\<close> is what hashing the password gives (\<open>None\<close>: an error).\<close>

definition create_user_tx :: "actor \<Rightarrow> user \<Rightarrow> time \<Rightarrow> (world, account_err, bool \<times> user) act" where
  "create_user_tx a u now =
     bindA (add_user u) (\<lambda>_.
     bindA (record_event AccIO (user_created a (usr_id u) (username u) (is_admin u)) now) (\<lambda>_. commit_tx u))"

definition create_user ::
    "(string \<Rightarrow> string) \<Rightarrow> string option \<Rightarrow> actor \<Rightarrow> string \<Rightarrow> string \<Rightarrow> string \<Rightarrow> bool \<Rightarrow> time
     \<Rightarrow> (world, account_err, user) act" where
  "create_user lower hashed a name display password adm now =
     (case validate_new_user lower name display password of
        Inl e \<Rightarrow> throw e
      | Inr (n, dn) \<Rightarrow>
          (case hashed of None \<Rightarrow> throw AccIO
           | Some h \<Rightarrow> bindA (new_id AccIO) (\<lambda>i.
               bindA (in_tx AccIO (create_user_tx a (new_user i n dn h adm now) now)) (\<lambda>u. ret (without_hash u)))))"

definition bootstrap_tx :: "user \<Rightarrow> time \<Rightarrow> (world, account_err, bool \<times> user) act" where
  "bootstrap_tx u now =
     bindA (query AccIO (\<lambda>_. ())) (\<lambda>_.
     bindA (query AccIO (\<lambda>d. users d \<noteq> [])) (\<lambda>exist.
     if exist then throw AccErrBootstrapUnavailable
     else bindA (add_user u) (\<lambda>_.
       bindA (record_event AccIO (initial_admin_bootstrapped (usr_id u) (username u)) now) (\<lambda>_. commit_tx u))))"

definition bootstrap_initial_admin ::
    "(string \<Rightarrow> string) \<Rightarrow> string option \<Rightarrow> string \<Rightarrow> string \<Rightarrow> string \<Rightarrow> time \<Rightarrow> (world, account_err, user) act" where
  "bootstrap_initial_admin lower hashed name display password now =
     (case validate_new_user lower name display password of
        Inl e \<Rightarrow> throw e
      | Inr (n, dn) \<Rightarrow>
          (case hashed of None \<Rightarrow> throw AccIO
           | Some h \<Rightarrow> bindA (new_id AccIO) (\<lambda>i.
               bindA (in_tx AccIO (bootstrap_tx (new_user i n dn h True now) now)) (\<lambda>u. ret (without_hash u)))))"

definition disable_user_tx :: "actor \<Rightarrow> uuid \<Rightarrow> time \<Rightarrow> (world, account_err, bool \<times> unit) act" where
  "disable_user_tx a i now =
     bindA (exec AccIO (disable_user_row i now)) (\<lambda>n.
     if n = 0 then throw AccErrNotFound
     else bindA (exec AccIO (revoke_sessions_of i now)) (\<lambda>_.
       bindA (record_event AccIO (user_disabled a i) now) (\<lambda>_. commit_tx ())))"

definition disable_user :: "actor \<Rightarrow> uuid \<Rightarrow> time \<Rightarrow> (world, account_err, unit) act" where
  "disable_user a i now = in_tx AccIO (disable_user_tx a i now)"

definition delete_user_tx :: "actor \<Rightarrow> uuid \<Rightarrow> time \<Rightarrow> (world, account_err, bool \<times> unit) act" where
  "delete_user_tx a i now =
     bindA (query AccIO (\<lambda>d. map_option username (by_key usr_id i (users d)))) (\<lambda>name.
     (case name of
        None \<Rightarrow> throw AccErrNotFound
      | Some nm \<Rightarrow>
          bindA (exec AccIO (revoke_sessions_of i now)) (\<lambda>_.
          bindA (record_event AccIO (user_deleted a i nm) now) (\<lambda>_.
          bindA (exec AccIO (delete_user_row i)) (\<lambda>n.
          if n = 0 then throw AccErrNotFound else commit_tx ())))))"

definition delete_user :: "actor \<Rightarrow> uuid \<Rightarrow> time \<Rightarrow> (world, account_err, unit) act" where
  "delete_user a i now = in_tx AccIO (delete_user_tx a i now)"

section \<open>The directory\<close>

record recipient =
  rec_id :: uuid
  rec_username :: string
  rec_display :: string

definition contains :: "string \<Rightarrow> string \<Rightarrow> bool" where
  "contains s t \<longleftrightarrow> list_ex (\<lambda>n. prefix t (drop n s)) [0..<Suc (length s)]"

text \<open>The last time a session of the user was seen; users without one come last.\<close>

definition last_activity :: "db \<Rightarrow> user \<Rightarrow> time option" where
  "last_activity d u = (case map last_seen_at (filter (\<lambda>s. ses_user s = usr_id u) (sessions d)) of
     [] \<Rightarrow> None | t # ts \<Rightarrow> Some (fold max ts t))"

definition directory_rank :: "db \<Rightarrow> user \<Rightarrow> bool \<times> time \<times> time \<times> uuid" where
  "directory_rank d u = (last_activity d u = None, (case last_activity d u of None \<Rightarrow> 0 | Some t \<Rightarrow> - t),
     - usr_created_at u, NOT (usr_id u))"

definition directory :: "(string \<Rightarrow> string) \<Rightarrow> uuid \<Rightarrow> string \<Rightarrow> nat \<Rightarrow> db \<Rightarrow> user list" where
  "directory dblower requester q n d = take n (sort_key (directory_rank d)
     (filter (\<lambda>u. usr_status u = Active \<and> usr_id u \<noteq> requester
        \<and> (q = [] \<or> contains (dblower (username u)) (dblower q) \<or> contains (dblower (display_name u)) (dblower q))) (users d)))"

definition list_recipients ::
    "(string \<Rightarrow> string) \<Rightarrow> uuid \<Rightarrow> string \<Rightarrow> int \<Rightarrow> (world, account_err, recipient list) act" where
  "list_recipients dblower requester q0 lim0 =
     (let q = trim_space q0; lim = if lim0 = 0 then 5 else lim0 in
      if lim < 1 \<or> 20 < lim \<or> 100 < rune_count q then throw AccErrInvalidList
      else bindA (query AccIO (directory dblower requester q (nat lim))) (\<lambda>rows.
        ret (map (\<lambda>u. \<lparr>rec_id = usr_id u, rec_username = username u, rec_display = display_name u\<rparr>) rows)))"

section \<open>The effect of the transactions\<close>

lemma insert_user_True:
  "fst (insert_user u d) = Some True \<Longrightarrow> snd (insert_user u d) = d\<lparr>users := users d @ [u]\<rparr>
    \<and> usr_id u \<notin> usr_id ` set (users d) \<and> username u \<notin> username ` set (users d)"
  by (auto simp: insert_user_def sql_exists_iff split: if_splits)

lemma add_user_Inr:
  assumes "add_user u w = (Inr x, w')"
  shows "wdb w' = (wdb w)\<lparr>users := users (wdb w) @ [u]\<rparr>
    \<and> usr_id u \<notin> usr_id ` set (users (wdb w)) \<and> username u \<notin> username ` set (users (wdb w))"
proof -
  from assms have "exec AccIO (insert_user u) w = (Inr (Some True), w')"
    unfolding add_user_def bindA_Inr_iff by (auto simp: throw_run ret_run split: option.splits if_splits)
  from exec_Inr [OF this] insert_user_True [of u "wdb w"] show ?thesis by auto
qed

lemma bootstrap_tx_Inr:
  assumes "bootstrap_tx u now w = (Inr (c, x), w')"
  shows "c \<and> x = u \<and> users (wdb w) = [] \<and> (\<exists>k. wdb w' = (wdb w)\<lparr>users := [u],
     audit_logs := audit_logs (wdb w) @ [audit_row_of k (initial_admin_bootstrapped (usr_id u) (username u)) now]\<rparr>)"
proof -
  from assms obtain w1 w2 w3 w4 z where
    l: "query AccIO (\<lambda>_. ()) w = (Inr (), w1)" and q: "query AccIO (\<lambda>d. users d \<noteq> []) w1 = (Inr False, w2)"
    and i: "add_user u w2 = (Inr (), w3)"
    and r: "record_event AccIO (initial_admin_bootstrapped (usr_id u) (username u)) now w3 = (Inr z, w4)"
    and e: "c \<and> x = u \<and> w' = w4"
    unfolding bootstrap_tx_def act_Inr by (auto simp: ret_run)
  have d1: "wdb w2 = wdb w" "users (wdb w) = []" using query_Inr [OF l] query_Inr [OF q] by simp_all
  from add_user_Inr [OF i] d1 have "wdb w3 = (wdb w)\<lparr>users := [u]\<rparr>" by simp
  with record_event_Inr [OF r] e d1(2) show ?thesis by auto
qed

lemma delete_user_tx_Inr:
  assumes "delete_user_tx a i now w = (Inr (c, x), w')"
  shows "c \<and> i \<in> usr_id ` set (users (wdb w)) \<and> (\<exists>k nm. wdb w' = delete_user_rows i ((snd (revoke_sessions_of i now (wdb w)))
     \<lparr>audit_logs := audit_logs (wdb w) @ [audit_row_of k (user_deleted a i nm) now]\<rparr>))"
proof -
  from assms obtain nm w1 w2 w3 y z n where
    q: "query AccIO (\<lambda>d. map_option username (by_key usr_id i (users d))) w = (Inr (Some nm), w1)"
    and e: "exec AccIO (revoke_sessions_of i now) w1 = (Inr y, w2)"
    and r: "record_event AccIO (user_deleted a i nm) now w2 = (Inr z, w3)"
    and d: "exec AccIO (delete_user_row i) w3 = (Inr n, w')" and n: "n \<noteq> 0" and c: c
    unfolding delete_user_tx_def act_Inr by (auto simp: act_Inr split: option.splits)
  have s: "audit_logs (snd (revoke_sessions_of i now d)) = audit_logs d" for d
    by (simp add: revoke_sessions_of_def)
  have d1: "wdb w1 = wdb w" using query_Inr [OF q] by simp
  from record_event_Inr [OF r] exec_Inr [OF e] d1 s obtain k where
    w3: "wdb w3 = (snd (revoke_sessions_of i now (wdb w)))\<lparr>audit_logs := audit_logs (wdb w) @ [audit_row_of k (user_deleted a i nm) now]\<rparr>"
    by auto
  have "i \<in> usr_id ` set (users (wdb w))"
    using query_Inr [OF q] by (cases "by_key usr_id i (users (wdb w))") (auto dest: by_key_SomeD)
  with exec_Inr [OF d] n c w3 show ?thesis by (auto simp: delete_user_row_def Let_def split: if_splits)
qed

section \<open>Deletion\<close>

text \<open>No row speaks of the user \<open>i\<close>.\<close>

definition no_trace :: "uuid \<Rightarrow> db \<Rightarrow> bool" where
  "no_trace i d \<longleftrightarrow> i \<notin> usr_id ` set (users d) \<and> i \<notin> dev_user ` set (devices d) \<and> i \<notin> ses_user ` set (sessions d)
     \<and> i \<notin> owner_id ` set (messages d) \<and> Some i \<notin> source_user_id ` set (messages d) \<and> i \<notin> tag_user ` set (tags d)
     \<and> i \<notin> us_user ` set (uploads d) \<and> i \<notin> idem_user ` set (idem_keys d) \<and> i \<notin> totp_user ` set (user_totps d)
     \<and> i \<notin> tc_user ` set (totp_challenges d) \<and> Some i \<notin> audit_actor ` set (audit_logs d)
     \<and> settings_updated_by (sys_settings d) \<noteq> Some i"

definition audit_core :: "audit_row \<Rightarrow> audit_row" where
  "audit_core r = r\<lparr>audit_actor := None, audit_device := None, audit_session := None\<rparr>"

text \<open>The tables \<open>d'\<close> have exactly the rows of \<open>d\<close> that do not belong to the user \<open>i\<close>: neither directly nor
  by a device, a message, an upload or a tag of the user. In the rows that stay, only links to what is gone are cleared.\<close>

definition unlink :: "'a set \<Rightarrow> 'a option \<Rightarrow> 'a option" where
  "unlink gone v = (if v \<in> Some ` gone then None else v)"

definition others_kept :: "uuid \<Rightarrow> db \<Rightarrow> db \<Rightarrow> bool" where
  "others_kept i d d' \<longleftrightarrow>
     (let devs = dev_id ` {x \<in> set (devices d). dev_user x = i}; msgs = msg_id ` {m \<in> set (messages d). owner_id m = i};
          ups = us_id ` {u \<in> set (uploads d). us_user u = i}; tgs = tag_id ` {t \<in> set (tags d). tag_user t = i} in
     users d' = filter (\<lambda>u. usr_id u \<noteq> i) (users d)
     \<and> devices d' = filter (\<lambda>x. dev_user x \<noteq> i) (devices d)
     \<and> sessions d' = filter (\<lambda>s. ses_user s \<noteq> i \<and> ses_device s \<notin> devs) (sessions d)
     \<and> user_totps d' = filter (\<lambda>t. totp_user t \<noteq> i) (user_totps d)
     \<and> totp_challenges d' = filter (\<lambda>c. tc_user c \<noteq> i \<and> tc_device c \<notin> Some ` devs) (totp_challenges d)
     \<and> messages d' = map (\<lambda>m. m\<lparr>source_user_id := unlink {i} (source_user_id m), source_message_id := unlink msgs (source_message_id m),
          created_device_id := unlink devs (created_device_id m)\<rparr>) (filter (\<lambda>m. owner_id m \<noteq> i) (messages d))
     \<and> attachments d' = filter (\<lambda>a. ma_message a \<notin> msgs) (attachments d)
     \<and> tags d' = filter (\<lambda>t. tag_user t \<noteq> i) (tags d)
     \<and> message_tags d' = filter (\<lambda>x. fst x \<notin> msgs \<and> snd x \<notin> tgs) (message_tags d)
     \<and> uploads d' = map (\<lambda>u. u\<lparr>consumed_message_id := unlink msgs (consumed_message_id u)\<rparr>)
          (filter (\<lambda>u. us_user u \<noteq> i) (uploads d))
     \<and> parts d' = filter (\<lambda>p. part_upload p \<notin> ups) (parts d)
     \<and> idem_keys d' = filter (\<lambda>k. idem_user k \<noteq> i) (idem_keys d)
     \<and> file_objects d' = file_objects d \<and> derivatives d' = derivatives d \<and> jobs d' = jobs d
     \<and> sys_settings d' = (sys_settings d)\<lparr>settings_updated_by := unlink {i} (settings_updated_by (sys_settings d))\<rparr>)"

lemma forget_self [simp]: "forget [i] x \<noteq> Some i" "Some i \<noteq> forget [i] x"
  by (auto simp: forget_def split: option.splits)

lemma owners_delete_messages: "i \<notin> owner_id ` set (messages (delete_messages (\<lambda>m. owner_id m = i) d))"
  by (auto simp: delete_messages_def Let_def sql_delete_def split: if_splits)

lemma delete_user_rows_no_trace: "no_trace i (delete_user_rows i d)"
  using owners_delete_messages [of i d]
  by (auto simp: no_trace_def delete_user_rows_def Let_def sql_delete_def image_iff)

lemma filter_map_cong:
  "map f xs = map f ys \<Longrightarrow> map g xs = map g ys \<Longrightarrow> map f (filter (\<lambda>x. P (g x)) xs) = map f (filter (\<lambda>x. P (g x)) ys)"
proof (induction xs arbitrary: ys)
  case (Cons x xs)
  then show ?case by (cases ys) auto
qed simp

lemma forget_unlink: "set xs = gone \<Longrightarrow> forget xs v = unlink gone v"
  by (auto simp: forget_def unlink_def split: option.splits)

lemma filter_sql_update_other: "(\<And>x. p x \<Longrightarrow> \<not> q x \<and> \<not> q (f x)) \<Longrightarrow> filter q (sql_update p f xs) = filter q xs"
  by (induction xs) (auto simp: sql_update_def)

lemma filter_links:
  assumes "\<And>u. us_user (f u) = us_user u"
  shows "filter (\<lambda>u. us_user u \<noteq> i) (sql_update p f us) = sql_update p f (filter (\<lambda>u. us_user u \<noteq> i) us)"
  using assms by (induction us) (auto simp: sql_update_def)

lemma messages_links:
  "messages (delete_messages (\<lambda>m. owner_id m = i) d) = map (\<lambda>m. m\<lparr>source_message_id :=
      unlink (msg_id ` {m \<in> set (messages d). owner_id m = i}) (source_message_id m)\<rparr>) (filter (\<lambda>m. owner_id m \<noteq> i) (messages d))"
  by (auto simp: delete_messages_def Let_def sql_delete_def unlink_def split: option.splits)

lemma uploads_links:
  "filter (\<lambda>u. us_user u \<noteq> i) (uploads (delete_messages (\<lambda>m. owner_id m = i) d)) = map (\<lambda>u. u\<lparr>consumed_message_id :=
      unlink (msg_id ` {m \<in> set (messages d). owner_id m = i}) (consumed_message_id u)\<rparr>) (filter (\<lambda>u. us_user u \<noteq> i) (uploads d))"
proof -
  let ?gone = "map msg_id (filter (\<lambda>m. owner_id m = i) (messages d))"
  have "filter (\<lambda>u. us_user u \<noteq> i) (uploads (delete_messages (\<lambda>m. owner_id m = i) d))
      = sql_update (\<lambda>u. case consumed_message_id u of None \<Rightarrow> False | Some s \<Rightarrow> s \<in> set ?gone) (\<lambda>u. u\<lparr>consumed_message_id := None\<rparr>)
          (filter (\<lambda>u. us_user u \<noteq> i) (uploads d))"
    unfolding delete_messages_def Let_def by (simp add: filter_links del: set_map)
  also have "\<dots> = map (\<lambda>u. u\<lparr>consumed_message_id := unlink (set ?gone) (consumed_message_id u)\<rparr>) (filter (\<lambda>u. us_user u \<noteq> i) (uploads d))"
    unfolding sql_update_def by (rule map_cong [OF refl]) (auto simp: unlink_def split: option.splits)
  finally show ?thesis by simp
qed

lemma delete_user_rows_others: "others_kept i d (delete_user_rows i d)"
proof -
  let ?d = "delete_messages (\<lambda>m. owner_id m = i) d"
  have m: "attachments ?d = filter (\<lambda>a. ma_message a \<notin> msg_id ` {m \<in> set (messages d). owner_id m = i}) (attachments d)"
    "message_tags ?d = filter (\<lambda>x. fst x \<notin> msg_id ` {m \<in> set (messages d). owner_id m = i}) (message_tags d)"
    "file_objects ?d = file_objects d" "derivatives ?d = derivatives d" "jobs ?d = jobs d"
    by (simp_all add: delete_messages_def Let_def sql_delete_def)
  have c: "(\<not> (case x of None \<Rightarrow> False | Some y \<Rightarrow> y \<in> A)) = (x \<notin> Some ` A)" for x :: "uuid option" and A
    by (cases x) auto
  show ?thesis
    unfolding others_kept_def Let_def
    by (intro conjI; simp add: delete_user_rows_def Let_def m messages_links sql_delete_def uploads_links c comp_def
        forget_unlink [OF refl] conj_commute)
qed

lemma others_kept_revoked:
  assumes "others_kept i ((snd (revoke_sessions_of i now d))\<lparr>audit_logs := as\<rparr>) d'"
  shows "others_kept i d d'"
proof -
  have "filter (\<lambda>s. ses_user s \<noteq> i \<and> ses_device s \<notin> devs) (sessions (snd (revoke_sessions_of i now d)))
      = filter (\<lambda>s. ses_user s \<noteq> i \<and> ses_device s \<notin> devs) (sessions d)" for devs
    by (simp add: revoke_sessions_of_def filter_sql_update_other)
  with assms show ?thesis unfolding others_kept_def Let_def by (simp add: revoke_sessions_of_def)
qed

lemma delete_user_rows_audit: "map audit_core (audit_logs (delete_user_rows i d)) = map audit_core (audit_logs d)"
  by (simp add: delete_user_rows_def Let_def audit_core_def)

section \<open>Properties\<close>

text \<open>C25: the unauthenticated bootstrap creates the first administrator and nothing else: whatever fails on the way,
  the database is either unchanged, or it had no user and now has exactly one, an active administrator with a
  normalized name, together with the audit event.\<close>

theorem bootstrap_creates_only_the_first_admin:
  "let d = wdb w; d' = wdb (snd (bootstrap_initial_admin lower hashed name display pw now w)) in
     d' = d \<or> (users d = [] \<and> (\<exists>u k. d' = d\<lparr>users := [u], audit_logs := audit_logs d
          @ [audit_row_of k (initial_admin_bootstrapped (usr_id u) (username u)) now]\<rparr>
        \<and> is_admin u \<and> usr_status u = Active \<and> normalize_username lower name = Inr (username u) \<and> validate_password pw))"
proof (cases "validate_new_user lower name display pw")
  case (Inr nd)
  obtain n dn where v: "validate_new_user lower name display pw = Inr (n, dn)" using Inr by (cases nd) auto
  then have ok: "normalize_username lower name = Inr n" "validate_password pw"
    by (auto simp: validate_new_user_def Let_def split: sum.splits if_splits)
  show ?thesis
  proof (cases hashed)
    case (Some h)
    obtain ri w1 where i: "new_id AccIO w = (ri, w1)" by fastforce
    then have d1: "wdb w1 = wdb w" by (auto simp: new_id_def split: list.splits option.splits)
    show ?thesis
    proof (cases ri)
      case (Inr i)
      let ?u = "new_user i n dn h True now"
      obtain r w2 where t: "in_tx AccIO (bootstrap_tx ?u now) w1 = (r, w2)" by fastforce
      have s: "wdb (snd (bootstrap_initial_admin lower hashed name display pw now w)) = wdb w2"
        using i Inr t v Some by (cases r) (simp_all add: bootstrap_initial_admin_def bindA_run ret_run)
      from t show ?thesis
      proof (cases rule: in_tx_effect)
        case unchanged
        then show ?thesis using s d1 by (simp add: Let_def)
      next
        case (effect w0 w3 x)
        from bootstrap_tx_Inr [OF effect(2)] effect(1,3) s d1 have "users (wdb w) = [] \<and> (\<exists>k.
            wdb (snd (bootstrap_initial_admin lower hashed name display pw now w)) = (wdb w)\<lparr>users := [?u], audit_logs := audit_logs (wdb w)
              @ [audit_row_of k (initial_admin_bootstrapped (usr_id ?u) (username ?u)) now]\<rparr>)" by simp
        moreover have "is_admin ?u" "usr_status ?u = Active" "username ?u = n" by (simp_all add: new_user_def)
        ultimately have "users (wdb w) = [] \<and> (\<exists>k. wdb (snd (bootstrap_initial_admin lower hashed name display pw now w))
            = (wdb w)\<lparr>users := [?u], audit_logs := audit_logs (wdb w)
              @ [audit_row_of k (initial_admin_bootstrapped (usr_id ?u) (username ?u)) now]\<rparr> \<and> is_admin ?u
            \<and> usr_status ?u = Active \<and> normalize_username lower name = Inr (username ?u) \<and> validate_password pw)"
          using ok by simp
        then show ?thesis unfolding Let_def by (intro disjI2 conjI exI [of _ ?u]) (elim conjE, assumption)+
      qed
    qed (use i d1 v Some in \<open>simp add: bootstrap_initial_admin_def bindA_run\<close>)
  qed (use v in \<open>simp add: bootstrap_initial_admin_def throw_run\<close>)
qed (simp add: bootstrap_initial_admin_def throw_run)


end
