(* ===== verification/Base64.thy ===== *)
theory Base64
  imports Prelude
begin

text \<open>
  Base64 with the URL alphabet, without padding, decoded strictly, as \<^verbatim>\<open>encoding/base64\<close> does it for session,
  challenge and CSRF tokens (\<^verbatim>\<open>RawURLEncoding\<close>, \<^verbatim>\<open>Strict()\<close>): line breaks are skipped, any other
  character outside the alphabet is an error, and so are left-over bits that are not zero.
\<close>

definition alphabet :: string where
  "alphabet = ''ABCDEFGHIJKLMNOPQRSTUVWXYZabcdefghijklmnopqrstuvwxyz0123456789-_''"

definition digit64 :: "nat \<Rightarrow> char" where
  "digit64 n = alphabet ! n"

definition value64 :: "char \<Rightarrow> nat option" where
  "value64 c = find (\<lambda>n. alphabet ! n = c) [0..<64]"

definition octet :: "char \<Rightarrow> nat" where "octet c = of_char c"
definition char8 :: "nat \<Rightarrow> char" where "char8 n = char_of n"

fun encode64 :: "bytes \<Rightarrow> string" where
  "encode64 [] = []"
| "encode64 [a] = [digit64 (octet a div 4), digit64 (octet a mod 4 * 16)]"
| "encode64 [a, b] = [digit64 (octet a div 4), digit64 (octet a mod 4 * 16 + octet b div 16), digit64 (octet b mod 16 * 4)]"
| "encode64 (a # b # c # r) = digit64 (octet a div 4) # digit64 (octet a mod 4 * 16 + octet b div 16)
     # digit64 (octet b mod 16 * 4 + octet c div 64) # digit64 (octet c mod 64) # encode64 r"

fun decode_values :: "nat list \<Rightarrow> bytes option" where
  "decode_values [] = Some []"
| "decode_values [x] = None"
| "decode_values [x, y] = (if y mod 16 \<noteq> 0 then None else Some [char8 (x * 4 + y div 16)])"
| "decode_values [x, y, z] = (if z mod 4 \<noteq> 0 then None
     else Some [char8 (x * 4 + y div 16), char8 (y mod 16 * 16 + z div 4)])"
| "decode_values (x # y # z # w # r) =
     map_option (\<lambda>b. char8 (x * 4 + y div 16) # char8 (y mod 16 * 16 + z div 4) # char8 (z mod 4 * 64 + w) # b) (decode_values r)"

definition line_break :: "char \<Rightarrow> bool" where
  "line_break c \<longleftrightarrow> c = CHR 0x0A \<or> c = CHR 0x0D"

definition decode64 :: "string \<Rightarrow> bytes option" where
  "decode64 s = (case those (map value64 (filter (\<lambda>c. \<not> line_break c) s)) of None \<Rightarrow> None | Some vs \<Rightarrow> decode_values vs)"

section \<open>Round trips\<close>

lemma alphabet_values: "\<forall>n\<in>{0..<64}. value64 (digit64 n) = Some n \<and> \<not> line_break (digit64 n)"
  by code_simp

lemma value_digit: "n < 64 \<Longrightarrow> value64 (digit64 n) = Some n" "n < 64 \<Longrightarrow> \<not> line_break (digit64 n)"
  using alphabet_values by auto

lemma value64_SomeD: "value64 c = Some n \<Longrightarrow> n < 64 \<and> digit64 n = c"
  by (auto simp: value64_def digit64_def find_Some_iff)

lemma octet_lt: "octet c < 256"
  using of_char_mod_256 [of c, where ?'a = nat] mod_less_divisor [of 256 "of_char c :: nat"] by (simp add: octet_def)

lemma char8_octet [simp]: "char8 (octet c) = c"
  by (simp add: char8_def octet_def)

lemma octet_char8: "n < 256 \<Longrightarrow> octet (char8 n) = n"
  by (simp add: char8_def octet_def)

lemma octet_bounds:
  "octet a div 4 < 64" "octet a mod 4 * 16 < 64" "octet a mod 4 * 16 + octet b div 16 < 64" "octet b mod 16 * 4 < 64"
  "octet b mod 16 * 4 + octet c div 64 < 64" "octet c mod 64 < 64"
  using octet_lt [of a] octet_lt [of b] octet_lt [of c] by (simp_all add: less_mult_imp_div_less)

lemma encode64_chars: "c \<in> set (encode64 b) \<Longrightarrow> \<exists>n<64. c = digit64 n"
  by (induction b rule: encode64.induct) (use octet_bounds in \<open>auto simp del: mult_numeral_1_right\<close>, (metis octet_bounds)+)

lemma encode64_clean: "filter (\<lambda>c. \<not> line_break c) (encode64 b) = encode64 b"
  using encode64_chars value_digit(2) by (fastforce simp: filter_id_conv)

lemma decode_encode_values:
  "\<exists>vs. those (map value64 (encode64 b)) = Some vs \<and> decode_values vs = Some b"
proof (induction b rule: encode64.induct)
  case (2 a)
  have "octet a div 4 * 4 + octet a mod 4 * 16 div 16 = octet a" by simp
  then show ?case by (simp add: value_digit octet_bounds)
next
  case (3 a b)
  have "octet a div 4 * 4 + (octet a mod 4 * 16 + octet b div 16) div 16 = octet a"
    using octet_lt [of b] by (simp add: less_mult_imp_div_less div_mult_self3 add.commute)
  moreover have "(octet a mod 4 * 16 + octet b div 16) mod 16 * 16 + octet b mod 16 * 4 div 4 = octet b"
    using octet_lt [of b] by (simp add: less_mult_imp_div_less mod_less)
  ultimately show ?case by (simp add: value_digit octet_bounds)
next
  case (4 a b c r)
  then obtain vs where vs: "those (map value64 (encode64 r)) = Some vs" "decode_values vs = Some r" by blast
  have "octet a div 4 * 4 + (octet a mod 4 * 16 + octet b div 16) div 16 = octet a"
    using octet_lt [of b] by (simp add: less_mult_imp_div_less)
  moreover have "(octet a mod 4 * 16 + octet b div 16) mod 16 * 16 + (octet b mod 16 * 4 + octet c div 64) div 4 = octet b"
    using octet_lt [of b] octet_lt [of c] by (simp add: less_mult_imp_div_less)
  moreover have "(octet b mod 16 * 4 + octet c div 64) mod 4 * 64 + octet c mod 64 = octet c"
    using octet_lt [of c] by (simp add: less_mult_imp_div_less)
  ultimately show ?case using vs by (simp add: value_digit octet_bounds)
qed simp

lemma decode_encode: "decode64 (encode64 b) = Some b"
  using decode_encode_values [of b] by (auto simp: decode64_def encode64_clean)

lemma sextets:
  assumes "x < 64" "y < (64 :: nat)" "z < 64" "w < 64"
  shows "x * 4 + y div 16 < 256" "y mod 16 * 16 + z div 4 < 256" "z mod 4 * 64 + w < 256"
    and "(x * 4 + y div 16) div 4 = x" "(x * 4 + y div 16) mod 4 = y div 16"
    and "(y mod 16 * 16 + z div 4) div 16 = y mod 16" "(y mod 16 * 16 + z div 4) mod 16 = z div 4"
    and "(z mod 4 * 64 + w) div 64 = z mod 4" "(z mod 4 * 64 + w) mod 64 = w"
proof -
  have y: "y div 16 < 4" and z: "z div 4 < 16" using assms by (simp_all add: less_mult_imp_div_less)
  have m: "y mod 16 < 16" "z mod 4 < 4" by simp_all
  show "x * 4 + y div 16 < 256" using assms(1) y by linarith
  show "y mod 16 * 16 + z div 4 < 256" using m(1) z by linarith
  show "z mod 4 * 64 + w < 256" using m(2) assms(4) by linarith
qed (use assms in \<open>simp_all add: less_mult_imp_div_less\<close>)

lemma encode_decode_values:
  "decode_values vs = Some b \<Longrightarrow> \<forall>v\<in>set vs. v < 64 \<Longrightarrow> encode64 b = map digit64 vs"
proof (induction vs arbitrary: b rule: decode_values.induct)
  case (3 x y)
  then have b: "b = [char8 (x * 4 + y div 16)]" and y: "y mod 16 = 0" by (simp_all split: if_splits)
  note q = sextets [of x y 0 0]
  have "y div 16 * 16 = y" using y div_mult_mod_eq [of y 16] by simp
  with b q 3(2) show ?case by (simp add: octet_char8)
next
  case (4 x y z)
  then have b: "b = [char8 (x * 4 + y div 16), char8 (y mod 16 * 16 + z div 4)]" and z: "z mod 4 = 0"
    by (simp_all split: if_splits)
  note q = sextets [of x y z 0]
  have "z div 4 * 4 = z" using z div_mult_mod_eq [of z 4] by simp
  with b q 4(2) show ?case by (simp add: octet_char8)
next
  case (5 x y z w r)
  then obtain b' where b': "decode_values r = Some b'"
    "b = char8 (x * 4 + y div 16) # char8 (y mod 16 * 16 + z div 4) # char8 (z mod 4 * 64 + w) # b'" by auto
  from b' sextets [of x y z w] 5 show ?case by (simp add: octet_char8)
qed auto

lemma those_SomeD: "those xs = Some ys \<Longrightarrow> xs = map Some ys"
  by (induction xs arbitrary: ys) (auto split: option.splits)

lemma encode_decode:
  assumes "decode64 s = Some b"
  shows "encode64 b = filter (\<lambda>c. \<not> line_break c) s"
proof -
  from assms obtain vs where vs: "those (map value64 (filter (\<lambda>c. \<not> line_break c) s)) = Some vs" "decode_values vs = Some b"
    by (auto simp: decode64_def split: option.splits)
  from those_SomeD [OF vs(1)] have v: "map value64 (filter (\<lambda>c. \<not> line_break c) s) = map Some vs" .
  have "\<forall>v\<in>set vs. v < 64"
  proof
    fix v assume "v \<in> set vs"
    then have "Some v \<in> set (map value64 (filter (\<lambda>c. \<not> line_break c) s))" by (simp add: v)
    then show "v < 64" using value64_SomeD by fastforce
  qed
  from encode_decode_values [OF vs(2) this] have "encode64 b = map digit64 vs" .
  also have "\<dots> = map (digit64 \<circ> the \<circ> value64) (filter (\<lambda>c. \<not> line_break c) s)"
    using arg_cong [OF v, of "map (digit64 \<circ> the)"] by (simp add: comp_assoc)
  also have "\<dots> = filter (\<lambda>c. \<not> line_break c) s"
  proof (rule map_idI)
    fix c assume "c \<in> set (filter (\<lambda>c. \<not> line_break c) s)"
    then have "value64 c \<in> set (map Some vs)" by (metis v image_eqI image_set)
    then show "(digit64 \<circ> the \<circ> value64) c = c" using value64_SomeD by fastforce
  qed
  finally show ?thesis .
qed

end
