(* ===== verification/Base32.thy ===== *)
theory Base32
  imports Base64
begin

text \<open>
  Base32 without padding (\<^verbatim>\<open>encoding/base32\<close>, \<^verbatim>\<open>StdEncoding.WithPadding(NoPadding)\<close>), the form in which a
  shared secret is shown. A last group of one, three or six digits decodes to nothing.
\<close>

definition alphabet32 :: string where "alphabet32 = ''ABCDEFGHIJKLMNOPQRSTUVWXYZ234567''"

definition digit32 :: "nat \<Rightarrow> char" where "digit32 n = alphabet32 ! n"

definition value32 :: "char \<Rightarrow> nat option" where
  "value32 c = find (\<lambda>n. alphabet32 ! n = c) [0..<32]"

fun quintets :: "nat list \<Rightarrow> nat list" where
  "quintets [] = []"
| "quintets [a] = [a div 8, a mod 8 * 4]"
| "quintets [a, b] = [a div 8, a mod 8 * 4 + b div 64, b div 2 mod 32, b mod 2 * 16]"
| "quintets [a, b, c] = [a div 8, a mod 8 * 4 + b div 64, b div 2 mod 32, b mod 2 * 16 + c div 16, c mod 16 * 2]"
| "quintets [a, b, c, d] = [a div 8, a mod 8 * 4 + b div 64, b div 2 mod 32, b mod 2 * 16 + c div 16,
     c mod 16 * 2 + d div 128, d div 4 mod 32, d mod 4 * 8]"
| "quintets (a # b # c # d # e # r) = [a div 8, a mod 8 * 4 + b div 64, b div 2 mod 32, b mod 2 * 16 + c div 16,
     c mod 16 * 2 + d div 128, d div 4 mod 32, d mod 4 * 8 + e div 32, e mod 32] @ quintets r"

definition encode32 :: "bytes \<Rightarrow> string" where
  "encode32 b = map digit32 (quintets (map octet b))"

text \<open>The bytes of at most eight digits.\<close>

definition byte1 :: "nat \<Rightarrow> nat \<Rightarrow> nat" where "byte1 p q = p * 8 + q div 4"
definition byte2 :: "nat \<Rightarrow> nat \<Rightarrow> nat \<Rightarrow> nat" where "byte2 q r s = q mod 4 * 64 + r * 2 + s div 16"
definition byte3 :: "nat \<Rightarrow> nat \<Rightarrow> nat" where "byte3 s t = s mod 16 * 16 + t div 2"
definition byte4 :: "nat \<Rightarrow> nat \<Rightarrow> nat \<Rightarrow> nat" where "byte4 t u v = t mod 2 * 128 + u * 4 + v div 8"
definition byte5 :: "nat \<Rightarrow> nat \<Rightarrow> nat" where "byte5 v w = v mod 8 * 32 + w"

fun octets :: "nat list \<Rightarrow> nat list" where
  "octets (p # q # r # s # t # u # v # w # x) =
     byte1 p q # byte2 q r s # byte3 s t # byte4 t u v # byte5 v w # octets x"
| "octets [p, q, r, s, t, u, v] = [byte1 p q, byte2 q r s, byte3 s t, byte4 t u v]"
| "octets [p, q, r, s, t] = [byte1 p q, byte2 q r s, byte3 s t]"
| "octets [p, q, r, s] = [byte1 p q, byte2 q r s]"
| "octets [p, q] = [byte1 p q]"
| "octets x = []"

definition decode32 :: "string \<Rightarrow> bytes option" where
  "decode32 s = map_option (\<lambda>vs. map char8 (octets vs)) (those (map value32 (filter (\<lambda>c. \<not> line_break c) s)))"

section \<open>Round trip\<close>

lemma alphabet32_values: "\<forall>n\<in>{0..<32}. value32 (digit32 n) = Some n \<and> \<not> line_break (digit32 n)"
  by code_simp

lemma value_digit32: "n < 32 \<Longrightarrow> value32 (digit32 n) = Some n" "n < 32 \<Longrightarrow> \<not> line_break (digit32 n)"
  using alphabet32_values by auto

lemma split_mult: "y < m \<Longrightarrow> (x * m + y) div m = x" "y < m \<Longrightarrow> (x * m + y) mod m = y"
  for x y m :: nat
  by simp_all

lemma high_bits:
  fixes b :: nat
  assumes "b < 256"
  shows "b div 64 < 4" "b div 16 < 16" "b div 128 < 2" "b div 32 < 8" "b div 8 < 32"
  using assms by (simp_all add: less_mult_imp_div_less)

lemma rejoin: "b div (m * k) * (m * k) + b div m mod k * m + b mod m = b"
  for b m k :: nat
  by (metis add.assoc add_mult_distrib div_mult2_eq div_mult_mod_eq mult.assoc mult.commute)

lemma byte_quintets:
  fixes a b c d e :: nat
  shows "b < 256 \<Longrightarrow> byte1 (a div 8) (a mod 8 * 4 + b div 64) = a"
    and "b < 256 \<Longrightarrow> c < 256 \<Longrightarrow> byte2 (a mod 8 * 4 + b div 64) (b div 2 mod 32) (b mod 2 * 16 + c div 16) = b"
    and "c < 256 \<Longrightarrow> d < 256 \<Longrightarrow> byte3 (b mod 2 * 16 + c div 16) (c mod 16 * 2 + d div 128) = c"
    and "d < 256 \<Longrightarrow> e < 256 \<Longrightarrow> byte4 (c mod 16 * 2 + d div 128) (d div 4 mod 32) (d mod 4 * 8 + e div 32) = d"
    and "e < 256 \<Longrightarrow> byte5 (d mod 4 * 8 + e div 32) (e mod 32) = e"
  using rejoin [of b 2 32] rejoin [of d 4 32]
  by (simp_all add: byte1_def byte2_def byte3_def byte4_def byte5_def split_mult high_bits mod_less)

lemmas byte_ends = byte_quintets(1) [where b = 0, simplified] byte_quintets(2) [where c = 0, simplified]
  byte_quintets(3) [where d = 0, simplified] byte_quintets(4) [where e = 0, simplified]

lemma digit_bounds:
  fixes a b :: nat
  shows "b < 256 \<Longrightarrow> a mod 8 * 4 + b div 64 < 32" "b < 256 \<Longrightarrow> a mod 2 * 16 + b div 16 < 32"
    "b < 256 \<Longrightarrow> a mod 16 * 2 + b div 128 < 32" "b < 256 \<Longrightarrow> a mod 4 * 8 + b div 32 < 32"
    "a mod 8 * 4 < 32" "a mod 2 * 16 < 32" "a mod 16 * 2 < 32" "a mod 4 * 8 < 32" "b < 256 \<Longrightarrow> b div 8 < 32"
proof -
  have m: "a mod 8 < 8" "a mod 2 < 2" "a mod 16 < 16" "a mod 4 < 4" by simp_all
  note h = high_bits [of b]
  show "a mod 8 * 4 < 32" "a mod 2 * 16 < 32" "a mod 16 * 2 < 32" "a mod 4 * 8 < 32" using m by linarith+
  show "a mod 8 * 4 + b div 64 < 32" if "b < 256" using m h(1) [OF that] by linarith
  show "a mod 2 * 16 + b div 16 < 32" if "b < 256" using m h(2) [OF that] by linarith
  show "a mod 16 * 2 + b div 128 < 32" if "b < 256" using m h(3) [OF that] by linarith
  show "a mod 4 * 8 + b div 32 < 32" if "b < 256" using m h(4) [OF that] by linarith
  show "b div 8 < 32" if "b < 256" using h(5) [OF that] .
qed

lemma quintets_small: "\<forall>x\<in>set xs. x < 256 \<Longrightarrow> \<forall>x\<in>set (quintets xs). x < 32"
  by (induction xs rule: quintets.induct) (simp_all add: digit_bounds)

lemma octets_quintets: "\<forall>x\<in>set xs. x < 256 \<Longrightarrow> octets (quintets xs) = xs"
  by (induction xs rule: quintets.induct) (simp_all add: byte_quintets byte_ends)

lemma those_map_digits: "\<forall>x\<in>set xs. x < 32 \<Longrightarrow> those (map (\<lambda>n. value32 (digit32 n)) xs) = Some xs"
  by (induction xs) (simp_all add: value_digit32)

lemma decode_encode32: "decode32 (encode32 b) = Some b"
proof -
  have small: "\<forall>x\<in>set (quintets (map octet b)). x < 32" by (rule quintets_small) (simp add: octet_lt)
  then have "filter (\<lambda>c. \<not> line_break c) (encode32 b) = encode32 b"
    by (auto simp: filter_id_conv encode32_def value_digit32)
  with small show ?thesis
    by (simp add: decode32_def encode32_def comp_def those_map_digits octets_quintets octet_lt)
qed

lemma encode32_chars: "c \<in> set (encode32 b) \<Longrightarrow> c \<in> set alphabet32"
proof -
  assume "c \<in> set (encode32 b)"
  then obtain n where "n \<in> set (quintets (map octet b))" "c = digit32 n" by (auto simp: encode32_def)
  moreover have "\<forall>x\<in>set (quintets (map octet b)). x < 32" by (rule quintets_small) (simp add: octet_lt)
  moreover have "\<forall>n\<in>{0..<32}. digit32 n \<in> set alphabet32" by code_simp
  ultimately show ?thesis by simp
qed

end
