(* ===== verification/Totp.thy ===== *)
theory Totp
  imports Base32 MessageModel
begin

text \<open>
  The pure parts of authentication: one-time codes (\<^verbatim>\<open>internal/auth/totp.go\<close>), the encryption of their secrets
  (\<^verbatim>\<open>totp_cipher.go\<close>), session tokens (\<^verbatim>\<open>session.go\<close>) and CSRF tokens (\<^verbatim>\<open>csrf.go\<close>). HMAC, SHA-256
  and AES-GCM are arguments; the subkey of the deployment key is part of the cipher that is passed.
\<close>

section \<open>One-time codes\<close>

definition totp_digits :: nat where "totp_digits = 6"
definition totp_period :: int where "totp_period = 30"
definition totp_skew :: int where "totp_skew = 1"

text \<open>\<open>%0*d\<close> of a number that is not negative.\<close>

fun decimal :: "nat \<Rightarrow> string" where
  "decimal n = (if n < 10 then [char_of (48 + n)] else decimal (n div 10) @ [char_of (48 + n mod 10)])"

declare decimal.simps [simp del]

definition zero_padded :: "nat \<Rightarrow> nat \<Rightarrow> string" where
  "zero_padded w n = replicate (w - length (decimal n)) CHR ''0'' @ decimal n"

definition truncated :: "bytes \<Rightarrow> nat" where
  "truncated mac =
     (let off = octet (last mac) mod 16 in
      (octet (mac ! off) mod 128) * 2 ^ 24 + octet (mac ! (off + 1)) * 2 ^ 16 + octet (mac ! (off + 2)) * 2 ^ 8 + octet (mac ! (off + 3)))"

definition totp_code :: "(bytes \<Rightarrow> bytes \<Rightarrow> bytes) \<Rightarrow> bytes \<Rightarrow> int \<Rightarrow> nat \<Rightarrow> string" where
  "totp_code hmac secret step digits =
     zero_padded digits (truncated (hmac secret (be_bytes 8 (nat (step mod 2 ^ 64)))) mod 10 ^ digits)"

definition validate_totp :: "(bytes \<Rightarrow> bytes \<Rightarrow> bytes) \<Rightarrow> bytes \<Rightarrow> string \<Rightarrow> int \<Rightarrow> int \<Rightarrow> int option" where
  "validate_totp hmac secret code now_seconds last_step =
     (let normalized = trim_space code; current = go_div now_seconds totp_period in
      if length normalized \<noteq> totp_digits then None
      else if list_ex (\<lambda>c. c < CHR ''0'' \<or> CHR ''9'' < c) normalized then None
      else find (\<lambda>step. \<not> step < 0 \<and> \<not> (0 \<le> last_step \<and> step \<le> last_step)
             \<and> totp_code hmac secret step totp_digits = normalized) [current - totp_skew .. current + totp_skew])"

section \<open>Secrets\<close>

definition totp_secret_bytes :: nat where "totp_secret_bytes = 20"

definition decode_totp_secret :: "(string \<Rightarrow> string) \<Rightarrow> string \<Rightarrow> bytes option" where
  "decode_totp_secret upper encoded =
     (case decode32 (upper (trim_space encoded)) of None \<Rightarrow> None | Some raw \<Rightarrow> if raw = [] then None else Some raw)"

definition totp_version1 :: int where "totp_version1 = 1"

definition totp_aad :: "int \<Rightarrow> uuid \<Rightarrow> bytes" where
  "totp_aad v u = ''relayshelf-totp-aad-v1'' @ be_bytes 2 (nat v) @ uuid_bytes u"

definition totp_encrypt :: "body_cipher \<Rightarrow> bytes option \<Rightarrow> uuid \<Rightarrow> bytes \<Rightarrow> (bytes \<times> bytes \<times> int) option" where
  "totp_encrypt c nonce u secret = map_option (\<lambda>n. (seal c n secret (totp_aad totp_version1 u), n, totp_version1)) nonce"

definition totp_decrypt :: "body_cipher \<Rightarrow> uuid \<Rightarrow> int \<Rightarrow> bytes \<Rightarrow> bytes \<Rightarrow> bytes option" where
  "totp_decrypt c u v nonce ct =
     (if v \<noteq> totp_version1 \<or> length nonce \<noteq> 12 then None else unseal c nonce ct (totp_aad v u))"

section \<open>Tokens\<close>

definition session_token_bytes :: nat where "session_token_bytes = 32"

text \<open>\<open>raw\<close> is what the random source delivers (\<open>None\<close>: it fails).\<close>

definition new_session_token :: "(bytes \<Rightarrow> bytes) \<Rightarrow> bytes option \<Rightarrow> (string \<times> bytes) option" where
  "new_session_token sha raw = map_option (\<lambda>r. (encode64 r, sha r)) raw"

definition hash_session_token :: "(bytes \<Rightarrow> bytes) \<Rightarrow> string \<Rightarrow> bytes option" where
  "hash_session_token sha encoded =
     (case decode64 encoded of None \<Rightarrow> None
      | Some raw \<Rightarrow> if length raw \<noteq> session_token_bytes then None else Some (sha raw))"

definition csrf_mac :: "(bytes \<Rightarrow> bytes \<Rightarrow> bytes) \<Rightarrow> bytes \<Rightarrow> uuid \<Rightarrow> bytes" where
  "csrf_mac hmac secret i = hmac secret (''relayshelf-csrf-v1:'' @ uuid_bytes i)"

definition csrf_token :: "(bytes \<Rightarrow> bytes \<Rightarrow> bytes) \<Rightarrow> bytes \<Rightarrow> uuid \<Rightarrow> string" where
  "csrf_token hmac secret i = encode64 (csrf_mac hmac secret i)"

definition csrf_verify :: "(bytes \<Rightarrow> bytes \<Rightarrow> bytes) \<Rightarrow> bytes \<Rightarrow> uuid \<Rightarrow> string \<Rightarrow> bool" where
  "csrf_verify hmac secret i token =
     (case decode64 token of None \<Rightarrow> False
      | Some actual \<Rightarrow> actual = (case decode64 (csrf_token hmac secret i) of None \<Rightarrow> [] | Some e \<Rightarrow> e))"

section \<open>Lemmas\<close>

lemma decimal_length: "0 < length (decimal n)"
  by (subst decimal.simps) simp

lemma decimal_short: "n < 10 ^ Suc k \<Longrightarrow> length (decimal n) \<le> Suc k"
proof (induction k arbitrary: n)
  case (Suc k)
  show ?case
  proof (cases "n < 10")
    case False
    have "n div 10 < 10 ^ Suc k" using Suc.prems by (simp add: less_mult_imp_div_less mult.commute)
    from Suc.IH [OF this] False show ?thesis by (subst decimal.simps) simp
  qed (subst decimal.simps, simp)
qed (subst decimal.simps, simp)

lemma digit_char: "n < 10 \<Longrightarrow> CHR ''0'' \<le> char_of (48 + n) \<and> char_of (48 + n) \<le> CHR ''9''"
  for n :: nat
  by (simp add: less_eq_char_def)

lemma decimal_digits: "c \<in> set (decimal n) \<Longrightarrow> CHR ''0'' \<le> c \<and> c \<le> CHR ''9''"
proof (induction n rule: decimal.induct)
  case (1 n)
  show ?case
  proof (cases "n < 10")
    case True
    then show ?thesis using "1.prems" digit_char by (subst (asm) decimal.simps) simp
  next
    case False
    then have "c \<in> set (decimal (n div 10)) \<or> c = char_of (48 + n mod 10)"
      using "1.prems" by (subst (asm) decimal.simps) auto
    then show ?thesis using "1.IH" [OF False] digit_char [of "n mod 10"] by auto
  qed
qed

lemma totp_code_shape:
  assumes "0 < digits"
  shows "length (totp_code hmac secret step digits) = digits"
    and "list_all (\<lambda>c. CHR ''0'' \<le> c \<and> c \<le> CHR ''9'') (totp_code hmac secret step digits)"
proof -
  obtain k where k: "digits = Suc k" using assms by (cases digits) auto
  have "length (decimal (n mod 10 ^ digits)) \<le> digits" for n
    unfolding k by (rule decimal_short) simp
  then show "length (totp_code hmac secret step digits) = digits"
    by (simp add: totp_code_def zero_padded_def)
  show "list_all (\<lambda>c. CHR ''0'' \<le> c \<and> c \<le> CHR ''9'') (totp_code hmac secret step digits)"
    by (auto simp: totp_code_def zero_padded_def list_all_iff dest: decimal_digits)
qed

lemma trim_plain: "list_all (\<lambda>c. CHR ''0'' \<le> c \<and> c \<le> CHR ''z'') s \<Longrightarrow> trim_space s = s"
proof -
  assume d: "list_all (\<lambda>c. CHR ''0'' \<le> c \<and> c \<le> CHR ''z'') s"
  have w: "\<forall>r\<in>set white_runes. \<not> (CHR ''0'' \<le> hd r \<and> hd r \<le> CHR ''z'') \<and> \<not> (CHR ''0'' \<le> last r \<and> last r \<le> CHR ''z'') \<and> r \<noteq> []"
    by code_simp
  have "starts_white s = None"
  proof (rule ccontr)
    assume "starts_white s \<noteq> None"
    then obtain r where r: "r \<in> set white_runes" "prefix r s" by (auto simp: starts_white_def find_None_iff)
    then have "hd r \<in> set s" using w by (metis hd_in_set prefix_order.trans set_mono_prefix subsetD)
    with d w r(1) show False by (auto simp: list_all_iff)
  qed
  moreover have "ends_white s = None"
  proof (rule ccontr)
    assume "ends_white s \<noteq> None"
    then obtain r where r: "r \<in> set white_runes" "suffix r s" by (auto simp: ends_white_def find_None_iff)
    then have "last r \<in> set s" using w by (metis last_in_set set_mono_suffix subsetD)
    with d w r(1) show False by (auto simp: list_all_iff)
  qed
  ultimately show ?thesis
    by (simp add: trim_space_def trim_left.simps [of s] trim_right.simps [of s])
qed

lemma trim_space_digits: "list_all (\<lambda>c. CHR ''0'' \<le> c \<and> c \<le> CHR ''9'') s \<Longrightarrow> trim_space s = s"
proof (rule trim_plain)
  have "CHR ''9'' \<le> CHR ''z''" by (simp add: less_eq_char_def)
  then show "list_all (\<lambda>c. CHR ''0'' \<le> c \<and> c \<le> CHR ''9'') s \<Longrightarrow> list_all (\<lambda>c. CHR ''0'' \<le> c \<and> c \<le> CHR ''z'') s"
    by (auto simp: list_all_iff intro: order_trans)
qed

lemma alphabet32_range: "list_all (\<lambda>c. CHR ''0'' \<le> c \<and> c \<le> CHR ''z'') alphabet32"
  by code_simp

lemma decode_new_secret:
  assumes "\<And>s. set s \<subseteq> set alphabet32 \<Longrightarrow> upper s = s" "raw \<noteq> []"
  shows "decode_totp_secret upper (encode32 raw) = Some raw"
proof -
  have "set (encode32 raw) \<subseteq> set alphabet32" using encode32_chars by blast
  moreover from this have "trim_space (encode32 raw) = encode32 raw"
    using alphabet32_range by (intro trim_plain) (auto simp: list_all_iff)
  ultimately show ?thesis using assms by (simp add: decode_totp_secret_def decode_encode32)
qed

lemma validate_SomeD:
  assumes "validate_totp hmac secret code now l = Some s"
  shows "0 \<le> s" "\<bar>s - go_div now totp_period\<bar> \<le> totp_skew" "l < s" "totp_code hmac secret s totp_digits = trim_space code"
  using assms by (auto simp: validate_totp_def Let_def find_Some_iff totp_skew_def split: if_splits dest!: nth_mem)

lemma hash_new_token:
  "new_session_token sha (Some raw) = Some (tok, h) \<Longrightarrow> length raw = session_token_bytes \<Longrightarrow> hash_session_token sha tok = Some h"
  by (auto simp: new_session_token_def hash_session_token_def decode_encode)

end
