(* ===== verification/Auth.thy ===== *)
theory Auth
  imports Accounts Totp
begin

text \<open>
  Signing in (\<^verbatim>\<open>internal/auth/service.go\<close>, \<^verbatim>\<open>totp_service.go\<close>, \<^verbatim>\<open>repository.go\<close>, \<^verbatim>\<open>model.go\<close>, with the
  statements of \<^verbatim>\<open>sql/queries/auth.sql\<close>, \<^verbatim>\<open>totp.sql\<close> and \<^verbatim>\<open>users.sql\<close>). Passwords are checked by
  \<open>ae_verify\<close> (\<open>None\<close>: the stored text is not a hash; otherwise whether the password fits, and whether the hash
  should be renewed) and hashed by \<open>ae_hash\<close>; hashing is salted, so one call of an operation sees one such
  function. Each operation reads the clock once (\<open>now\<close>) and gets the random bytes it draws as arguments
  (\<open>None\<close>: the random source fails). The insertions check the constraints of the tables, foreign keys included.
\<close>

datatype auth_err = AuthErrInvalidCredentials | AuthErrAuthenticationRequired | AuthErrSessionExpired
  | AuthErrRateLimited | AuthErrForbidden | AuthErrNotFound | AuthErrValidation | AuthErrTOTPChallengeExpired
  | AuthErrTOTPAlreadyEnabled | AuthErrTOTPEnrollmentChanged | AuthErrTOTPNotEnabled | AuthErrTOTPCodeInvalid | AuthIO

record auth_env =
  ae_lower :: "string \<Rightarrow> string"
  ae_upper :: "string \<Rightarrow> string"
  ae_verify :: "string \<Rightarrow> string \<Rightarrow> (bool \<times> bool) option"
  ae_hash :: "string \<Rightarrow> string option"
  ae_sha :: "bytes \<Rightarrow> bytes"
  ae_hmac :: "bytes \<Rightarrow> bytes \<Rightarrow> bytes"
  ae_cipher :: body_cipher

record login_input =
  li_username :: string
  li_password :: string
  li_device_name :: string
  li_user_agent :: string
  li_device :: "uuid option"
  li_ip :: "string option"
  li_trace :: string

record authn =
  au_user :: user
  au_device :: device
  au_session :: session

datatype login_result = SignedIn authn string | TotpChallenge string time user

definition idle_lifetime :: duration where "idle_lifetime = 30 * 24 * hour"
definition absolute_lifetime :: duration where "absolute_lifetime = 90 * 24 * hour"
definition touch_interval :: duration where "touch_interval = hour"
definition challenge_lifetime :: duration where "challenge_lifetime = 5 * minute"
definition max_challenge_attempts :: int where "max_challenge_attempts = 5"
definition lockout_duration :: duration where "lockout_duration = 5 * minute"
definition max_failed_attempts :: int where "max_failed_attempts = 5"

text \<open>\<^verbatim>\<open>netip.Addr.String\<close> of an address that was never set.\<close>

definition ip_string :: "login_input \<Rightarrow> string" where
  "ip_string inp = (case li_ip inp of None \<Rightarrow> ''invalid IP'' | Some ip \<Rightarrow> ip)"

definition auth_valid :: "time \<Rightarrow> authn \<Rightarrow> auth_err option" where
  "auth_valid now a =
     (if usr_status (au_user a) \<noteq> Active then Some AuthErrAuthenticationRequired
      else if revoked_at (au_session a) \<noteq> None then Some AuthErrAuthenticationRequired
      else if \<not> now < ses_expires_at (au_session a) \<or> \<not> now < absolute_expires_at (au_session a) then Some AuthErrSessionExpired
      else if dev_user (au_device a) \<noteq> usr_id (au_user a) \<or> ses_user (au_session a) \<noteq> usr_id (au_user a)
        \<or> ses_device (au_session a) \<noteq> dev_id (au_device a) then Some AuthErrAuthenticationRequired
      else None)"

section \<open>Statements\<close>

definition update_password_hash :: "uuid \<Rightarrow> string \<Rightarrow> time \<Rightarrow> db \<Rightarrow> nat \<times> db" where
  "update_password_hash i h now d = (let p = (\<lambda>u. usr_id u = i) in
     (sql_count p (users d), d\<lparr>users := sql_update p (\<lambda>u. u\<lparr>password_hash := h, usr_updated_at := now\<rparr>) (users d)\<rparr>))"

definition owned_device :: "uuid \<Rightarrow> uuid \<Rightarrow> db \<Rightarrow> device option" where
  "owned_device i u d = (case by_key dev_id i (devices d) of None \<Rightarrow> None
     | Some x \<Rightarrow> if dev_user x = u then Some x else None)"

definition insert_device :: "device \<Rightarrow> db \<Rightarrow> bool \<times> db" where
  "insert_device x d =
     (if sql_exists (\<lambda>y. dev_id y = dev_id x) (devices d) \<or> by_key usr_id (dev_user x) (users d) = None
        \<or> \<not> pg_text (dev_name x) \<or> \<not> pg_text (dev_user_agent x) then (False, d)
      else (True, d\<lparr>devices := devices d @ [x]\<rparr>))"

definition insert_session_row :: "session \<Rightarrow> db \<Rightarrow> bool \<times> db" where
  "insert_session_row s d =
     (if sql_exists (\<lambda>x. ses_id x = ses_id s \<or> token_hash x = token_hash s) (sessions d) \<or> length (token_hash s) \<noteq> 32
        \<or> \<not> ses_expires_at s \<le> absolute_expires_at s \<or> by_key usr_id (ses_user s) (users d) = None
        \<or> by_key dev_id (ses_device s) (devices d) = None then (False, d)
      else (True, d\<lparr>sessions := sessions d @ [s]\<rparr>))"

definition auth_of_session :: "session \<Rightarrow> db \<Rightarrow> authn option" where
  "auth_of_session s d =
     (case by_key usr_id (ses_user s) (users d) of None \<Rightarrow> None
      | Some u \<Rightarrow> (case by_key dev_id (ses_device s) (devices d) of None \<Rightarrow> None
        | Some x \<Rightarrow> Some \<lparr>au_user = u\<lparr>password_hash := []\<rparr>, au_device = x, au_session = s\<rparr>))"

definition auth_by_hash :: "bytes \<Rightarrow> db \<Rightarrow> authn option" where
  "auth_by_hash h d = (case by_key token_hash h (sessions d) of None \<Rightarrow> None
     | Some s \<Rightarrow> (case auth_of_session s d of None \<Rightarrow> None
       | Some a \<Rightarrow> if dev_user (au_device a) = ses_user s then Some a else None))"

text \<open>The lookup by identifier fills in the owner of the device instead of comparing it.\<close>

definition auth_by_session :: "uuid \<Rightarrow> db \<Rightarrow> authn option" where
  "auth_by_session i d = (case by_key ses_id i (sessions d) of None \<Rightarrow> None
     | Some s \<Rightarrow> map_option (\<lambda>a. a\<lparr>au_device := (au_device a)\<lparr>dev_user := usr_id (au_user a)\<rparr>\<rparr>) (auth_of_session s d))"

definition touch_session :: "uuid \<Rightarrow> time \<Rightarrow> time \<Rightarrow> string option \<Rightarrow> db \<Rightarrow> nat \<times> db" where
  "touch_session i seen expires ip d = (let p = (\<lambda>s. ses_id s = i \<and> revoked_at s = None) in
     (sql_count p (sessions d), d\<lparr>sessions := sql_update p
        (\<lambda>s. s\<lparr>last_seen_at := seen, ses_expires_at := min expires (absolute_expires_at s), last_ip := ip\<rparr>) (sessions d)\<rparr>))"

definition touch_device :: "uuid \<Rightarrow> uuid \<Rightarrow> time \<Rightarrow> db \<Rightarrow> unit \<times> db" where
  "touch_device i u seen d =
     ((), d\<lparr>devices := sql_update (\<lambda>x. dev_id x = i \<and> dev_user x = u) (\<lambda>x. x\<lparr>dev_last_seen := seen\<rparr>) (devices d)\<rparr>)"

definition revoke_where :: "(session \<Rightarrow> bool) \<Rightarrow> time \<Rightarrow> db \<Rightarrow> nat \<times> db" where
  "revoke_where q now d = (let p = (\<lambda>s. q s \<and> revoked_at s = None) in
     (sql_count p (sessions d), d\<lparr>sessions := sql_update p (\<lambda>s. s\<lparr>revoked_at := Some now\<rparr>) (sessions d)\<rparr>))"

definition owned_sessions :: "uuid \<Rightarrow> db \<Rightarrow> session list" where
  "owned_sessions u d = sort_key (\<lambda>s. (- ses_created_at s, NOT (ses_id s)))
     (filter (\<lambda>s. ses_user s = u \<and> revoked_at s = None) (sessions d))"

definition owned_devices :: "uuid \<Rightarrow> db \<Rightarrow> device list" where
  "owned_devices u d = sort_key (\<lambda>x. (- dev_last_seen x, NOT (dev_id x))) (filter (\<lambda>x. dev_user x = u) (devices d))"

text \<open>\<open>None\<close>: the name is not acceptable text; \<open>Some None\<close>: no such device.\<close>

definition rename_owned_device :: "uuid \<Rightarrow> uuid \<Rightarrow> string \<Rightarrow> db \<Rightarrow> device option option \<times> db" where
  "rename_owned_device i u name d =
     (if \<not> pg_text name then (None, d)
      else (Some (map_option (\<lambda>x. x\<lparr>dev_name := name\<rparr>) (owned_device i u d)),
        d\<lparr>devices := sql_update (\<lambda>x. dev_id x = i \<and> dev_user x = u) (\<lambda>x. x\<lparr>dev_name := name\<rparr>) (devices d)\<rparr>))"

section \<open>Second factors: statements\<close>

text \<open>A new enrollment, or a fresh one in place of one that was never confirmed. \<open>None\<close>: a constraint is violated.\<close>

definition totp_columns_ok :: "user_totp \<Rightarrow> bool" where
  "totp_columns_ok t \<longleftrightarrow> 16 \<le> length (secret_ciphertext t) \<and> length (secret_nonce t) = 12 \<and> 0 < secret_version t"

definition upsert_pending_totp :: "user_totp \<Rightarrow> db \<Rightarrow> nat option \<times> db" where
  "upsert_pending_totp t d =
     (if \<not> totp_columns_ok t \<or> by_key usr_id (totp_user t) (users d) = None then (None, d)
      else (case by_key totp_user (totp_user t) (user_totps d) of
          None \<Rightarrow> if sql_exists (\<lambda>x. totp_id x = totp_id t) (user_totps d) then (None, d)
            else (Some 1, d\<lparr>user_totps := user_totps d @ [t]\<rparr>)
        | Some x \<Rightarrow> if enabled_at x \<noteq> None then (Some 0, d)
            else (Some 1, d\<lparr>user_totps := sql_update (\<lambda>y. totp_user y = totp_user t) (\<lambda>y. t\<lparr>totp_id := totp_id y\<rparr>) (user_totps d)\<rparr>)))"

definition confirm_totp :: "uuid \<Rightarrow> bytes \<Rightarrow> bytes \<Rightarrow> int \<Rightarrow> int \<Rightarrow> time \<Rightarrow> db \<Rightarrow> nat \<times> db" where
  "confirm_totp u nonce ct ver step now d =
     (let p = (\<lambda>t. totp_user t = u \<and> enabled_at t = None \<and> secret_nonce t = nonce \<and> secret_ciphertext t = ct
                 \<and> secret_version t = ver) in
      (sql_count p (user_totps d), d\<lparr>user_totps := sql_update p
         (\<lambda>t. t\<lparr>enabled_at := Some now, last_used_step := Some step, failed_attempts := 0, locked_until := None\<rparr>) (user_totps d)\<rparr>))"

definition delete_totp :: "uuid \<Rightarrow> db \<Rightarrow> nat \<times> db" where
  "delete_totp u d = (let p = (\<lambda>t. totp_user t = u \<and> enabled_at t \<noteq> None) in
     (sql_count p (user_totps d), d\<lparr>user_totps := sql_delete p (user_totps d)\<rparr>))"

definition claim_totp_step :: "uuid \<Rightarrow> int \<Rightarrow> db \<Rightarrow> nat \<times> db" where
  "claim_totp_step u step d =
     (let p = (\<lambda>t. totp_user t = u \<and> enabled_at t \<noteq> None \<and> (case last_used_step t of None \<Rightarrow> True | Some l \<Rightarrow> l < step)) in
      (sql_count p (user_totps d), d\<lparr>user_totps := sql_update p
         (\<lambda>t. t\<lparr>last_used_step := Some step, failed_attempts := 0, locked_until := None\<rparr>) (user_totps d)\<rparr>))"

definition note_totp_failure :: "uuid \<Rightarrow> int \<Rightarrow> time \<Rightarrow> db \<Rightarrow> unit \<times> db" where
  "note_totp_failure u mx until d =
     ((), d\<lparr>user_totps := sql_update (\<lambda>t. totp_user t = u)
        (\<lambda>t. t\<lparr>failed_attempts := failed_attempts t + 1,
              locked_until := (if mx \<le> failed_attempts t + 1 then Some until else locked_until t)\<rparr>) (user_totps d)\<rparr>)"

definition insert_challenge :: "totp_challenge \<Rightarrow> db \<Rightarrow> bool \<times> db" where
  "insert_challenge c d =
     (if sql_exists (\<lambda>x. tc_id x = tc_id c \<or> tc_token_hash x = tc_token_hash c) (totp_challenges d)
        \<or> length (tc_token_hash c) \<noteq> 32 \<or> by_key usr_id (tc_user c) (users d) = None
        \<or> (case tc_device c of None \<Rightarrow> False | Some x \<Rightarrow> by_key dev_id x (devices d) = None)
        \<or> \<not> pg_text (tc_device_name c) \<or> \<not> pg_text (tc_user_agent c) then (False, d)
      else (True, d\<lparr>totp_challenges := totp_challenges d @ [c]\<rparr>))"

definition consume_challenge :: "uuid \<Rightarrow> uuid \<Rightarrow> time \<Rightarrow> db \<Rightarrow> nat \<times> db" where
  "consume_challenge i u now d =
     (let p = (\<lambda>c. tc_id c = i \<and> tc_user c = u \<and> tc_consumed_at c = None \<and> now < tc_expires_at c) in
      (sql_count p (totp_challenges d),
       d\<lparr>totp_challenges := sql_update p (\<lambda>c. c\<lparr>tc_consumed_at := Some now\<rparr>) (totp_challenges d)\<rparr>))"

definition bump_challenge :: "uuid \<Rightarrow> db \<Rightarrow> unit \<times> db" where
  "bump_challenge i d = ((), d\<lparr>totp_challenges := sql_update (\<lambda>c. tc_id c = i)
     (\<lambda>c. c\<lparr>tc_attempts := tc_attempts c + 1\<rparr>) (totp_challenges d)\<rparr>)"

definition delete_expired_challenges :: "time \<Rightarrow> nat \<Rightarrow> db \<Rightarrow> nat \<times> db" where
  "delete_expired_challenges cutoff lim d =
     (let gone = take lim (sort_key (\<lambda>c. (tc_expires_at c, tc_id c))
            (filter (\<lambda>c. tc_expires_at c < cutoff \<or> (case tc_consumed_at c of None \<Rightarrow> False | Some t \<Rightarrow> t < cutoff)) (totp_challenges d)))
      in (length gone, d\<lparr>totp_challenges := sql_delete (\<lambda>c. tc_id c \<in> set (map tc_id gone)) (totp_challenges d)\<rparr>))"

section \<open>The limiter and the audit log\<close>

definition limiter :: "(limits \<Rightarrow> 'a \<times> limits) \<Rightarrow> (world, 'e, 'a) act" where
  "limiter f = (\<lambda>w. case f (rate_limits w) of (x, l) \<Rightarrow> (Inr x, w\<lparr>rate_limits := l\<rparr>))"

definition count_failure :: "time \<Rightarrow> string \<Rightarrow> string \<Rightarrow> (world, 'e, unit) act" where
  "count_failure now ip name = limiter (\<lambda>l. ((), limiter_failure default_max_entries now ip name l))"

definition should_audit_failure :: "time \<Rightarrow> string \<Rightarrow> (string \<times> time) list \<Rightarrow> bool \<times> (string \<times> time) list" where
  "should_audit_failure now k fs =
     (let fs1 = (if default_max_entries \<le> length fs then filter (\<lambda>(_, at). \<not> entry_ttl < time_sub now at) fs else fs) in
      if default_max_entries \<le> length fs1 then (False, fs1)
      else if time_sub now (case map_of fs1 k of None \<Rightarrow> zero_time | Some t \<Rightarrow> t) < minute then (False, fs1)
      else (True, AList.update k now fs1))"

definition auth_row :: "uuid \<Rightarrow> string \<Rightarrow> uuid option \<Rightarrow> uuid option \<Rightarrow> uuid option \<Rightarrow> login_input \<Rightarrow> time \<Rightarrow> audit_row" where
  "auth_row i kind u dv ses inp now =
     \<lparr>audit_id = i, audit_actor = u, audit_event = kind, audit_target_type = Some ''USER'', audit_target = u,
      audit_ip = li_ip inp, audit_user_agent = nullable (cut_runes 512 (li_user_agent inp)), audit_device = dv,
      audit_session = ses, audit_trace = nullable (cut_runes 128 (li_trace inp)), audit_metadata = [], audit_created_at = now\<rparr>"

definition insert_auth_audit :: "audit_row \<Rightarrow> db \<Rightarrow> bool \<times> db" where
  "insert_auth_audit r d =
     (if opt_text (audit_user_agent r) \<and> opt_text (audit_trace r) then insert_audit r d else (False, d))"

text \<open>An event that is recorded on the side: its failure changes nothing for the caller.\<close>

definition audit_quietly ::
    "string \<Rightarrow> uuid option \<Rightarrow> uuid option \<Rightarrow> uuid option \<Rightarrow> login_input \<Rightarrow> time \<Rightarrow> (world, auth_err, unit) act" where
  "audit_quietly kind u dv ses inp now =
     bindA (tryA (new_id AuthIO :: (world, auth_err, uuid) act)) (\<lambda>r.
     (case r of Inl _ \<Rightarrow> ret ()
      | Inr i \<Rightarrow> bindA (tryA (exec AuthIO (insert_auth_audit (auth_row i kind u dv ses inp now)) :: (world, auth_err, bool) act))
          (\<lambda>_. ret ())))"

definition fail_login :: "string \<Rightarrow> login_input \<Rightarrow> time \<Rightarrow> (world, auth_err, 'a) act" where
  "fail_login name inp now =
     bindA (count_failure now (ip_string inp) name) (\<lambda>_.
     bindA (\<lambda>w. case should_audit_failure now (ip_string inp @ ''|'' @ name) (failure_audits w) of
              (b, fs) \<Rightarrow> (Inr b, w\<lparr>failure_audits := fs\<rparr>)) (\<lambda>audit.
     bindA (if audit then audit_quietly ''LOGIN_FAILURE'' None None None inp now else ret ()) (\<lambda>_.
     throw AuthErrInvalidCredentials)))"

definition actor_of :: "authn \<Rightarrow> login_input \<Rightarrow> actor" where
  "actor_of a inp = \<lparr>act_user = usr_id (au_user a), act_device = dev_id (au_device a), act_session = ses_id (au_session a),
     act_ip = li_ip inp, act_agent = cut_runes 512 (li_user_agent inp), act_trace = cut_runes 128 (li_trace inp)\<rparr>"

section \<open>Signing in\<close>

definition find_user :: "string \<Rightarrow> (world, auth_err, user option) act" where
  "find_user name = bindA (query AuthIO (\<lambda>d. (pg_text name, by_key username name (users d)))) (\<lambda>(ok, u).
     if ok then ret u else throw AuthIO)"

definition find_user_by_id :: "uuid \<Rightarrow> (world, auth_err, user) act" where
  "find_user_by_id i = bindA (query AuthIO (\<lambda>d. by_key usr_id i (users d))) (\<lambda>u.
     (case u of None \<Rightarrow> throw AuthErrNotFound | Some u \<Rightarrow> ret u))"

definition check_exec :: "(db \<Rightarrow> bool \<times> db) \<Rightarrow> (world, auth_err, unit) act" where
  "check_exec u = bindA (exec AuthIO u) (\<lambda>ok. if ok then ret () else throw AuthIO)"

definition second_factor :: "uuid \<Rightarrow> db \<Rightarrow> user_totp option" where
  "second_factor u d = (case by_key totp_user u (user_totps d) of None \<Rightarrow> None
     | Some t \<Rightarrow> if enabled_at t \<noteq> None then Some t else None)"

definition totp_enabled :: "uuid \<Rightarrow> (world, auth_err, user_totp option) act" where
  "totp_enabled u = query AuthIO (second_factor u)"

definition valid_device_name :: "string \<Rightarrow> bool" where
  "valid_device_name name \<longleftrightarrow> (let n = rune_count (trim_space name) in 1 \<le> n \<and> n \<le> 100)"

definition device_name :: "login_input \<Rightarrow> string" where
  "device_name inp = (let n = trim_space (li_device_name inp) in if n = [] then ''New device'' else n)"

definition new_device :: "uuid \<Rightarrow> uuid \<Rightarrow> string \<Rightarrow> string \<Rightarrow> time \<Rightarrow> device" where
  "new_device i u name agent now = \<lparr>dev_id = i, dev_user = u, dev_name = name, dev_user_agent = agent,
     dev_first_seen = now, dev_last_seen = now\<rparr>"

definition fresh_session :: "uuid \<Rightarrow> uuid \<Rightarrow> uuid \<Rightarrow> bytes \<Rightarrow> login_input \<Rightarrow> time \<Rightarrow> session" where
  "fresh_session i u dv h inp now = \<lparr>ses_id = i, ses_user = u, ses_device = dv, token_hash = h,
     ses_expires_at = now + idle_lifetime, absolute_expires_at = now + absolute_lifetime, last_seen_at = now,
     last_ip = li_ip inp, revoked_at = None, ses_created_at = now\<rparr>"

definition new_login_challenge ::
    "auth_env \<Rightarrow> bytes option \<Rightarrow> user \<Rightarrow> login_input \<Rightarrow> time \<Rightarrow> (world, auth_err, login_result) act" where
  "new_login_challenge env rnd u inp now =
     (case new_session_token (ae_sha env) rnd of
        None \<Rightarrow> throw AuthIO
      | Some (token, h) \<Rightarrow> bindA (new_id AuthIO) (\<lambda>i.
          if \<not> valid_device_name (device_name inp) then throw AuthErrValidation
          else bindA (check_exec (insert_challenge \<lparr>tc_id = i, tc_user = usr_id u, tc_device = li_device inp,
                 tc_token_hash = h, tc_expires_at = now + challenge_lifetime, tc_attempts = 0, tc_consumed_at = None,
                 tc_device_name = device_name inp, tc_user_agent = cut_runes 512 (li_user_agent inp)\<rparr>)) (\<lambda>_.
               ret (TotpChallenge token (now + challenge_lifetime) u))))"

definition login_device :: "user \<Rightarrow> login_input \<Rightarrow> time \<Rightarrow> (world, auth_err, device) act" where
  "login_device u inp now =
     bindA (case li_device inp of None \<Rightarrow> ret None | Some i \<Rightarrow> query AuthIO (owned_device i (usr_id u))) (\<lambda>known.
     (case known of Some x \<Rightarrow> ret x
      | None \<Rightarrow>
          if \<not> valid_device_name (device_name inp) then throw AuthErrValidation
          else bindA (new_id AuthIO) (\<lambda>i.
            let x = new_device i (usr_id u) (device_name inp) (cut_runes 512 (li_user_agent inp)) now in
            bindA (check_exec (insert_device x)) (\<lambda>_. ret x))))"

definition open_session ::
    "auth_env \<Rightarrow> bytes option \<Rightarrow> user \<Rightarrow> string \<Rightarrow> login_input \<Rightarrow> time \<Rightarrow> (world, auth_err, login_result) act" where
  "open_session env rnd u name inp now =
     bindA (login_device u inp now) (\<lambda>x.
     (case new_session_token (ae_sha env) rnd of
        None \<Rightarrow> throw AuthIO
      | Some (token, h) \<Rightarrow> bindA (new_id AuthIO) (\<lambda>i.
          let s = fresh_session i (usr_id u) (dev_id x) h inp now in
          bindA (check_exec (insert_session_row s)) (\<lambda>_.
          bindA (limiter (\<lambda>l. ((), limiter_success (ip_string inp) name l))) (\<lambda>_.
          bindA (audit_quietly ''LOGIN_SUCCESS'' (Some (usr_id u)) (Some (dev_id x)) (Some i) inp now) (\<lambda>_.
          ret (SignedIn \<lparr>au_user = without_hash u, au_device = x, au_session = s\<rparr> token)))))))"

definition renew_hash :: "auth_env \<Rightarrow> user \<Rightarrow> string \<Rightarrow> time \<Rightarrow> (world, auth_err, user) act" where
  "renew_hash env u pw now =
     (case ae_hash env pw of None \<Rightarrow> throw AuthIO
      | Some h \<Rightarrow> bindA (exec AuthIO (update_password_hash (usr_id u) h now)) (\<lambda>n.
          if n = 0 then throw AuthErrNotFound else ret (u\<lparr>password_hash := h\<rparr>)))"

text \<open>After the password: a challenge when a second factor is enabled, else a session.\<close>

definition password_accepted ::
    "auth_env \<Rightarrow> bytes option \<Rightarrow> user \<Rightarrow> bool \<Rightarrow> string \<Rightarrow> login_input \<Rightarrow> time \<Rightarrow> (world, auth_err, login_result) act" where
  "password_accepted env rnd u rehash name inp now =
     bindA (if rehash then renew_hash env u (li_password inp) now else ret u) (\<lambda>u.
     bindA (totp_enabled (usr_id u)) (\<lambda>t.
     if t \<noteq> None then
       bindA (limiter (limiter_challenge default_max_entries now (ip_string inp) name)) (\<lambda>ok.
       if \<not> ok then throw AuthErrRateLimited else new_login_challenge env rnd u inp now)
     else open_session env rnd u name inp now))"

definition login :: "auth_env \<Rightarrow> bytes option \<Rightarrow> login_input \<Rightarrow> time \<Rightarrow> (world, auth_err, login_result) act" where
  "login env rnd inp now =
     (let norm = normalize_username (ae_lower env) (li_username inp);
          name = (case norm of Inl _ \<Rightarrow> ''<invalid>'' | Inr n \<Rightarrow> n) in
      bindA (limiter (limiter_allow now (ip_string inp) name)) (\<lambda>ok.
      if \<not> ok then throw AuthErrRateLimited
      else if 1024 < length (li_password inp) then fail_login name inp now
      else (case norm of Inl _ \<Rightarrow> fail_login name inp now
        | Inr _ \<Rightarrow> bindA (find_user name) (\<lambda>found.
            (case found of None \<Rightarrow> fail_login name inp now
             | Some u \<Rightarrow>
                 if usr_status u \<noteq> Active then fail_login name inp now
                 else (case ae_verify env (password_hash u) (li_password inp) of
                     None \<Rightarrow> fail_login name inp now
                   | Some (fits, rehash) \<Rightarrow>
                       if \<not> fits then fail_login name inp now
                       else password_accepted env rnd u rehash name inp now))))))"

section \<open>Sessions\<close>

definition touch_authenticated :: "authn \<Rightarrow> string option \<Rightarrow> time \<Rightarrow> (world, auth_err, authn) act" where
  "touch_authenticated a ip now =
     (case auth_valid now a of Some e \<Rightarrow> throw e
      | None \<Rightarrow>
          if time_sub now (last_seen_at (au_session a)) < touch_interval then ret a
          else (let expires = min (now + idle_lifetime) (absolute_expires_at (au_session a)) in
            bindA (exec AuthIO (touch_session (ses_id (au_session a)) now expires ip)) (\<lambda>n.
            if n = 0 then throw AuthErrAuthenticationRequired
            else bindA (exec AuthIO (touch_device (dev_id (au_device a)) (usr_id (au_user a)) now)) (\<lambda>_.
              ret (a\<lparr>au_session := (au_session a)\<lparr>last_seen_at := now, ses_expires_at := expires, last_ip := ip\<rparr>,
                     au_device := (au_device a)\<lparr>dev_last_seen := now\<rparr>\<rparr>)))))"

definition authenticate :: "auth_env \<Rightarrow> string \<Rightarrow> bool \<Rightarrow> string option \<Rightarrow> time \<Rightarrow> (world, auth_err, authn) act" where
  "authenticate env encoded touch ip now =
     (case hash_session_token (ae_sha env) encoded of
        None \<Rightarrow> throw AuthErrAuthenticationRequired
      | Some h \<Rightarrow> bindA (query AuthIO (auth_by_hash h)) (\<lambda>found.
          (case found of None \<Rightarrow> throw AuthErrAuthenticationRequired
           | Some a \<Rightarrow> (case auth_valid now a of Some e \<Rightarrow> throw e
             | None \<Rightarrow> if touch then touch_authenticated a ip now else ret a))))"

definition validate_session :: "uuid \<Rightarrow> time \<Rightarrow> (world, auth_err, authn) act" where
  "validate_session i now =
     bindA (mapErr (\<lambda>_. AuthErrAuthenticationRequired) (query AuthIO (auth_by_session i))) (\<lambda>found.
     (case found of None \<Rightarrow> throw AuthErrAuthenticationRequired
      | Some a \<Rightarrow> (case auth_valid now a of Some e \<Rightarrow> throw e | None \<Rightarrow> ret a)))"

definition revoke_session :: "authn \<Rightarrow> uuid \<Rightarrow> login_input \<Rightarrow> time \<Rightarrow> (world, auth_err, bool) act" where
  "revoke_session a i inp now =
     bindA (exec AuthIO (revoke_where (\<lambda>s. ses_id s = i \<and> ses_user s = usr_id (au_user a)) now)) (\<lambda>n.
     if n = 0 then ret False
     else bindA (audit_quietly ''SESSION_REVOKED'' (Some (usr_id (au_user a))) (Some (dev_id (au_device a))) (Some i) inp now)
       (\<lambda>_. ret True))"

definition logout :: "authn \<Rightarrow> login_input \<Rightarrow> time \<Rightarrow> (world, auth_err, unit) act" where
  "logout a inp now =
     bindA (exec AuthIO (revoke_where (\<lambda>s. ses_id s = ses_id (au_session a) \<and> ses_user s = usr_id (au_user a)) now)) (\<lambda>_.
     audit_quietly ''LOGOUT'' (Some (usr_id (au_user a))) (Some (dev_id (au_device a))) (Some (ses_id (au_session a))) inp now)"

definition list_sessions :: "authn \<Rightarrow> (world, auth_err, session list) act" where
  "list_sessions a = query AuthIO (owned_sessions (usr_id (au_user a)))"

definition list_devices :: "authn \<Rightarrow> (world, auth_err, device list) act" where
  "list_devices a = query AuthIO (owned_devices (usr_id (au_user a)))"

definition rename_device :: "authn \<Rightarrow> uuid \<Rightarrow> string \<Rightarrow> (world, auth_err, device) act" where
  "rename_device a i name0 =
     (let name = trim_space name0 in
      if \<not> valid_device_name name then throw AuthErrValidation
      else bindA (exec AuthIO (rename_owned_device i (usr_id (au_user a)) name)) (\<lambda>r.
        (case r of None \<Rightarrow> throw AuthIO | Some None \<Rightarrow> throw AuthErrNotFound | Some (Some x) \<Rightarrow> ret x)))"

definition change_password_tx :: "uuid \<Rightarrow> uuid \<Rightarrow> string \<Rightarrow> audit_row \<Rightarrow> time \<Rightarrow> (world, auth_err, bool \<times> unit) act" where
  "change_password_tx u ses h row now =
     bindA (exec AuthIO (update_password_hash u h now)) (\<lambda>n.
     if n = 0 then throw AuthErrNotFound
     else bindA (exec AuthIO (revoke_where (\<lambda>s. ses_user s = u \<and> ses_id s \<noteq> ses) now)) (\<lambda>_.
       bindA (check_exec (insert_auth_audit row)) (\<lambda>_. commit_tx ())))"

definition change_password ::
    "auth_env \<Rightarrow> authn \<Rightarrow> string \<Rightarrow> string \<Rightarrow> login_input \<Rightarrow> time \<Rightarrow> (world, auth_err, unit) act" where
  "change_password env a current new inp now =
     (if \<not> validate_password new then throw AuthErrValidation
      else bindA (find_user_by_id (usr_id (au_user a))) (\<lambda>u.
        (case ae_verify env (password_hash u) current of
           None \<Rightarrow> throw AuthErrInvalidCredentials
         | Some (fits, _) \<Rightarrow>
             if \<not> fits then throw AuthErrInvalidCredentials
             else (case ae_hash env new of None \<Rightarrow> throw AuthIO
               | Some h \<Rightarrow> bindA (new_id AuthIO) (\<lambda>i.
                   in_tx AuthIO (change_password_tx (usr_id (au_user a)) (ses_id (au_session a)) h
                     (auth_row i ''PASSWORD_CHANGED'' (Some (usr_id (au_user a))) (Some (dev_id (au_device a)))
                       (Some (ses_id (au_session a))) inp now) now))))))"

definition reset_password_tx :: "actor \<Rightarrow> uuid \<Rightarrow> string \<Rightarrow> time \<Rightarrow> (world, auth_err, bool \<times> unit) act" where
  "reset_password_tx a u h now =
     bindA (exec AuthIO (update_password_hash u h now)) (\<lambda>n.
     if n = 0 then throw AuthErrNotFound
     else bindA (exec AuthIO (revoke_where (\<lambda>s. ses_user s = u) now)) (\<lambda>_.
       bindA (record_event AuthIO (user_password_reset a u) now) (\<lambda>_. commit_tx ())))"

definition reset_password_by_admin ::
    "auth_env \<Rightarrow> authn \<Rightarrow> uuid \<Rightarrow> string \<Rightarrow> login_input \<Rightarrow> time \<Rightarrow> (world, auth_err, unit) act" where
  "reset_password_by_admin env a target pw inp now =
     (if \<not> is_admin (au_user a) then throw AuthErrForbidden
      else if \<not> validate_password pw then throw AuthErrValidation
      else (case ae_hash env pw of None \<Rightarrow> throw AuthIO
        | Some h \<Rightarrow> in_tx AuthIO (reset_password_tx (actor_of a inp) target h now)))"

section \<open>Second factors\<close>

definition unix_seconds :: "time \<Rightarrow> int" where "unix_seconds t = t div second"

definition stored_secret :: "auth_env \<Rightarrow> uuid \<Rightarrow> user_totp \<Rightarrow> bytes option" where
  "stored_secret env u t = totp_decrypt (ae_cipher env) u (secret_version t) (secret_nonce t) (secret_ciphertext t)"

definition last_step :: "user_totp \<Rightarrow> int" where
  "last_step t = (case last_used_step t of None \<Rightarrow> - 1 | Some l \<Rightarrow> l)"

definition locked_at :: "time \<Rightarrow> user_totp \<Rightarrow> bool" where
  "locked_at now t \<longleftrightarrow> (case locked_until t of None \<Rightarrow> False | Some l \<Rightarrow> now < l)"

definition record_totp_failure :: "uuid \<Rightarrow> time \<Rightarrow> (world, auth_err, unit) act" where
  "record_totp_failure u now =
     bindA (tryA (exec AuthIO (note_totp_failure u max_failed_attempts (now + lockout_duration)) :: (world, auth_err, unit) act))
       (\<lambda>_. ret ())"

text \<open>The transaction: the step is claimed and the challenge consumed before the session is opened.\<close>

definition open_totp_session ::
    "totp_challenge \<Rightarrow> uuid \<Rightarrow> uuid \<Rightarrow> bytes \<Rightarrow> login_input \<Rightarrow> time \<Rightarrow> (world, auth_err, bool \<times> device \<times> session) act" where
  "open_totp_session c dvid sid h inp now =
     bindA (case tc_device c of None \<Rightarrow> ret None | Some x \<Rightarrow> query AuthIO (owned_device x (tc_user c))) (\<lambda>known.
     let x = new_device dvid (tc_user c) (tc_device_name c) (tc_user_agent c) now in
     bindA (case known of
              Some k \<Rightarrow> if dev_id k \<noteq> uuid_nil then ret k else bindA (check_exec (insert_device x)) (\<lambda>_. ret x)
            | None \<Rightarrow> bindA (check_exec (insert_device x)) (\<lambda>_. ret x)) (\<lambda>dv.
     let s = fresh_session sid (tc_user c) (dev_id dv) h inp now in
     bindA (check_exec (insert_session_row s)) (\<lambda>_. commit_tx (dv, s))))"

definition complete_totp_tx ::
    "totp_challenge \<Rightarrow> int \<Rightarrow> uuid \<Rightarrow> uuid \<Rightarrow> bytes \<Rightarrow> login_input \<Rightarrow> time \<Rightarrow> (world, auth_err, bool \<times> device \<times> session) act" where
  "complete_totp_tx c step dvid sid h inp now =
     bindA (exec AuthIO (claim_totp_step (tc_user c) step)) (\<lambda>n.
     if n \<noteq> 1 then throw AuthErrTOTPCodeInvalid
     else bindA (exec AuthIO (consume_challenge (tc_id c) (tc_user c) now)) (\<lambda>m.
       if m \<noteq> 1 then throw AuthErrTOTPChallengeExpired
       else open_totp_session c dvid sid h inp now))"

definition totp_session ::
    "auth_env \<Rightarrow> bytes option \<Rightarrow> totp_challenge \<Rightarrow> user \<Rightarrow> int \<Rightarrow> login_input \<Rightarrow> time \<Rightarrow> (world, auth_err, login_result) act" where
  "totp_session env rnd c u step inp now =
     (case new_session_token (ae_sha env) rnd of
        None \<Rightarrow> throw AuthIO
      | Some (token, h) \<Rightarrow>
          bindA (new_id AuthIO) (\<lambda>sid. bindA (new_id AuthIO) (\<lambda>dvid.
          bindA (tryA (in_tx AuthIO (complete_totp_tx c step dvid sid h inp now))) (\<lambda>r.
          (case r of
             Inl e \<Rightarrow> if e = AuthErrTOTPCodeInvalid
               then bindA (count_failure now (ip_string inp) (username u)) (\<lambda>_. throw AuthErrInvalidCredentials)
               else throw e
           | Inr (dv, s) \<Rightarrow>
               bindA (limiter (\<lambda>l. ((), limiter_success (ip_string inp) (username u) l))) (\<lambda>_.
               bindA (audit_quietly ''LOGIN_SUCCESS'' (Some (usr_id u)) (Some (dev_id dv)) (Some (ses_id s)) inp now) (\<lambda>_.
               ret (SignedIn \<lparr>au_user = without_hash u, au_device = dv, au_session = s\<rparr> token))))))))"

definition check_totp ::
    "auth_env \<Rightarrow> bytes option \<Rightarrow> totp_challenge \<Rightarrow> user \<Rightarrow> user_totp \<Rightarrow> string \<Rightarrow> login_input \<Rightarrow> time
     \<Rightarrow> (world, auth_err, login_result) act" where
  "check_totp env rnd c u t code inp now =
     (case stored_secret env (usr_id u) t of
        None \<Rightarrow> throw AuthErrInvalidCredentials
      | Some secret \<Rightarrow>
          (case validate_totp (ae_hmac env) secret code (unix_seconds now) (last_step t) of
             None \<Rightarrow>
               bindA (record_totp_failure (usr_id u) now) (\<lambda>_.
               bindA (tryA (exec AuthIO (bump_challenge (tc_id c)) :: (world, auth_err, unit) act)) (\<lambda>_.
               bindA (count_failure now (ip_string inp) (username u)) (\<lambda>_. throw AuthErrInvalidCredentials)))
           | Some step \<Rightarrow> totp_session env rnd c u step inp now))"

definition complete_login_totp ::
    "auth_env \<Rightarrow> bytes option \<Rightarrow> string \<Rightarrow> string \<Rightarrow> login_input \<Rightarrow> time \<Rightarrow> (world, auth_err, login_result) act" where
  "complete_login_totp env rnd token code inp now =
     (case hash_session_token (ae_sha env) token of
        None \<Rightarrow> throw AuthErrInvalidCredentials
      | Some h \<Rightarrow> bindA (query AuthIO (\<lambda>d. by_key tc_token_hash h (totp_challenges d))) (\<lambda>found.
          (case found of None \<Rightarrow> throw AuthErrInvalidCredentials
           | Some c \<Rightarrow>
               if tc_consumed_at c \<noteq> None \<or> \<not> now < tc_expires_at c then throw AuthErrTOTPChallengeExpired
               else if max_challenge_attempts \<le> tc_attempts c then throw AuthErrRateLimited
               else bindA (find_user_by_id (tc_user c)) (\<lambda>u.
                 bindA (limiter (limiter_allow now (ip_string inp) (username u))) (\<lambda>ok.
                 if \<not> ok then throw AuthErrRateLimited
                 else if usr_status u \<noteq> Active
                 then bindA (count_failure now (ip_string inp) (username u)) (\<lambda>_. throw AuthErrInvalidCredentials)
                 else bindA (totp_enabled (usr_id u)) (\<lambda>en.
                   (case en of None \<Rightarrow> throw AuthErrInvalidCredentials
                    | Some t \<Rightarrow> if locked_at now t then throw AuthErrRateLimited
                        else check_totp env rnd c u t code inp now)))))))"

definition totp_status :: "authn \<Rightarrow> (world, auth_err, bool) act" where
  "totp_status a = bindA (totp_enabled (usr_id (au_user a))) (\<lambda>t. ret (t \<noteq> None))"

text \<open>\<open>rnd\<close> are the random bytes of the secret, \<open>nonce\<close> those of its encryption.\<close>

definition start_totp_enrollment ::
    "auth_env \<Rightarrow> bytes option \<Rightarrow> bytes option \<Rightarrow> authn \<Rightarrow> string \<Rightarrow> login_input \<Rightarrow> time \<Rightarrow> (world, auth_err, string) act" where
  "start_totp_enrollment env rnd nonce a pw inp now =
     (let name = ''totp-enroll:'' @ username (au_user a);
          refuse = bindA (count_failure now (ip_string inp) name) (\<lambda>_. throw AuthErrInvalidCredentials) in
      bindA (limiter (limiter_allow now (ip_string inp) name)) (\<lambda>ok.
      if \<not> ok then throw AuthErrRateLimited
      else bindA (find_user_by_id (usr_id (au_user a))) (\<lambda>u.
        if usr_status u \<noteq> Active \<or> 1024 < length pw then refuse
        else (case ae_verify env (password_hash u) pw of
            None \<Rightarrow> refuse
          | Some (fits, _) \<Rightarrow>
              if \<not> fits then refuse
              else bindA (totp_enabled (usr_id (au_user a))) (\<lambda>t.
                if t \<noteq> None then throw AuthErrTOTPAlreadyEnabled
                else (case map_option encode32 rnd of None \<Rightarrow> throw AuthIO
                  | Some encoded \<Rightarrow> (case decode_totp_secret (ae_upper env) encoded of None \<Rightarrow> throw AuthErrTOTPCodeInvalid
                    | Some secret \<Rightarrow> (case totp_encrypt (ae_cipher env) nonce (usr_id (au_user a)) secret of None \<Rightarrow> throw AuthIO
                      | Some (ct, n, v) \<Rightarrow> bindA (new_id AuthIO) (\<lambda>i.
                          bindA (exec AuthIO (upsert_pending_totp \<lparr>totp_id = i, totp_user = usr_id (au_user a),
                              secret_ciphertext = ct, secret_nonce = n, secret_version = v, enabled_at = None,
                              last_used_step = None, failed_attempts = 0, locked_until = None\<rparr>)) (\<lambda>r.
                          (case r of None \<Rightarrow> throw AuthIO
                           | Some k \<Rightarrow> if k = 0 then throw AuthErrTOTPAlreadyEnabled else ret encoded)))))))))))"

definition audit_totp :: "string \<Rightarrow> authn \<Rightarrow> login_input \<Rightarrow> time \<Rightarrow> (world, auth_err, unit) act" where
  "audit_totp kind a inp now =
     bindA (tryA (record_event AuthIO (totp_event kind (actor_of a inp) (usr_id (au_user a))) now :: (world, auth_err, unit) act))
       (\<lambda>_. ret ())"

definition confirm_totp_enrollment :: "auth_env \<Rightarrow> authn \<Rightarrow> string \<Rightarrow> login_input \<Rightarrow> time \<Rightarrow> (world, auth_err, unit) act" where
  "confirm_totp_enrollment env a code inp now =
     bindA (query AuthIO (\<lambda>d. by_key totp_user (usr_id (au_user a)) (user_totps d))) (\<lambda>found.
     (case found of None \<Rightarrow> throw AuthErrTOTPNotEnabled
      | Some t \<Rightarrow>
          if enabled_at t \<noteq> None then throw AuthErrTOTPAlreadyEnabled
          else if locked_at now t then throw AuthErrRateLimited
          else (case stored_secret env (usr_id (au_user a)) t of None \<Rightarrow> throw AuthErrTOTPCodeInvalid
            | Some secret \<Rightarrow>
                (case validate_totp (ae_hmac env) secret code (unix_seconds now) (- 1) of
                   None \<Rightarrow> bindA (record_totp_failure (usr_id (au_user a)) now) (\<lambda>_. throw AuthErrTOTPCodeInvalid)
                 | Some step \<Rightarrow>
                     bindA (exec AuthIO (confirm_totp (usr_id (au_user a)) (secret_nonce t) (secret_ciphertext t)
                       (secret_version t) step now)) (\<lambda>n.
                     if n = 0 then throw AuthErrTOTPEnrollmentChanged
                     else audit_totp ''TOTP_ENROLLMENT_CONFIRMED'' a inp now)))))"

definition disable_totp :: "auth_env \<Rightarrow> authn \<Rightarrow> string \<Rightarrow> login_input \<Rightarrow> time \<Rightarrow> (world, auth_err, unit) act" where
  "disable_totp env a code inp now =
     bindA (query AuthIO (\<lambda>d. by_key totp_user (usr_id (au_user a)) (user_totps d))) (\<lambda>found.
     (case found of None \<Rightarrow> throw AuthErrTOTPNotEnabled
      | Some t \<Rightarrow>
          if enabled_at t = None then throw AuthErrTOTPNotEnabled
          else if locked_at now t then throw AuthErrRateLimited
          else (case stored_secret env (usr_id (au_user a)) t of None \<Rightarrow> throw AuthErrTOTPCodeInvalid
            | Some secret \<Rightarrow>
                if validate_totp (ae_hmac env) secret code (unix_seconds now) (last_step t) = None
                then bindA (record_totp_failure (usr_id (au_user a)) now) (\<lambda>_. throw AuthErrTOTPCodeInvalid)
                else bindA (exec AuthIO (delete_totp (usr_id (au_user a)))) (\<lambda>n.
                  if n = 0 then throw AuthErrTOTPNotEnabled else audit_totp ''TOTP_DISABLED'' a inp now))))"

end
