(* ===== verification/Scheduler.thy ===== *)
theory Scheduler
  imports Files Settings MessageLaws Auth
begin

text \<open>
  The maintenance that runs once an hour (\<^verbatim>\<open>internal/jobs/scheduler.go\<close>): one pass over the tasks of the other
  parts, each in batches, none stopped by the failure of another. The advisory lock is taken or not (\<open>free\<close>);
  the events of changed messages are published, which draws an identifier for each. A pass uses one reading of the
  clock, the uploads and the reconciliation read their own.
\<close>

section \<open>Batches\<close>

datatype sched_err = SchedIO

definition maintenance_batch :: nat where "maintenance_batch = 200"
definition max_batches :: nat where "max_batches = 5"
definition challenge_grace :: duration where "challenge_grace = hour"

text \<open>At most \<open>k\<close> batches; one that is not full is the last.\<close>

fun batches :: "nat \<Rightarrow> nat \<Rightarrow> (world, 'e, nat) act \<Rightarrow> (world, 'e, unit) act" where
  "batches 0 b m = ret ()"
| "batches (Suc k) b m = bindA m (\<lambda>n. if n < b then ret () else batches k b m)"

fun publish_each :: "nat \<Rightarrow> (world, sched_err, unit) act" where
  "publish_each 0 = ret ()"
| "publish_each (Suc n) = bindA (tryA (new_id SchedIO :: (world, sched_err, uuid) act)) (\<lambda>_. publish_each n)"

section \<open>Tasks\<close>

definition expire_batch :: "time \<Rightarrow> nat \<Rightarrow> (world, sched_err, nat) act" where
  "expire_batch now b =
     bindA (in_tx SchedIO
       (bindA (query SchedIO (\<lambda>d. trash_ttl_hours (sys_settings d))) (\<lambda>h.
        bindA (exec SchedIO (expire_rows now (now + h * hour) b)) (\<lambda>r.
        (case r of None \<Rightarrow> throw SchedIO | Some n \<Rightarrow> commit_tx n))))) (\<lambda>n.
     bindA (publish_each n) (\<lambda>_. ret n))"

definition purge_due :: "time \<Rightarrow> message \<Rightarrow> bool" where
  "purge_due now m \<longleftrightarrow> (case purge_at m of None \<Rightarrow> False | Some t \<Rightarrow> t \<le> now)"

definition purge_rows :: "time \<Rightarrow> nat \<Rightarrow> db \<Rightarrow> nat \<times> db" where
  "purge_rows now b d =
     (let due = take b (sort_key (\<lambda>m. (the (purge_at m), msg_id m)) (filter (purge_due now) (messages d))) in
      (length due, delete_messages (\<lambda>m. msg_id m \<in> msg_id ` set due) d))"

definition purge_batch :: "time \<Rightarrow> nat \<Rightarrow> (world, sched_err, nat) act" where
  "purge_batch now b =
     bindA (in_tx SchedIO (bindA (exec SchedIO (purge_rows now b)) commit_tx)) (\<lambda>n.
     bindA (publish_each n) (\<lambda>_. ret n))"

definition expire_temporary :: "time \<Rightarrow> (world, sched_err, unit) act" where
  "expire_temporary now = batches max_batches maintenance_batch (expire_batch now maintenance_batch)"

definition purge_trash :: "time \<Rightarrow> (world, sched_err, unit) act" where
  "purge_trash now = batches max_batches maintenance_batch (purge_batch now maintenance_batch)"

definition cleanup_audit :: "time \<Rightarrow> (world, sched_err, unit) act" where
  "cleanup_audit now = batches max_batches maintenance_batch (audit_cleanup SchedIO now (int maintenance_batch))"

definition cleanup_challenges :: "time \<Rightarrow> (world, sched_err, unit) act" where
  "cleanup_challenges now = batches max_batches maintenance_batch
     (exec SchedIO (delete_expired_challenges (now - challenge_grace) maintenance_batch))"

definition backfill_thumbnails :: "time \<Rightarrow> (world, job_err, unit) act" where
  "backfill_thumbnails now = batches max_batches maintenance_batch
     (bindA (enqueue_missing_thumbnail_jobs now (int maintenance_batch)) (\<lambda>n.
      bindA (modifyA (\<lambda>w. if 0 < n then w\<lparr>wake := True\<rparr> else w)) (\<lambda>_. ret n)))"

definition expire_uploads_task :: "time \<Rightarrow> (world, upload_err, unit) act" where
  "expire_uploads_task now = bindA (expire_due_uploads (int maintenance_batch) now) (\<lambda>es.
     if es = [] then ret () else throw (hd es))"

section \<open>A pass\<close>

text \<open>The result of a task is its name when it failed.\<close>

definition run_task :: "string \<Rightarrow> (world, 'e, 'a) act \<Rightarrow> (world, sched_err, string list) act" where
  "run_task name m = bindA (tryA m) (\<lambda>r. ret (case r of Inl _ \<Rightarrow> [name] | Inr _ \<Rightarrow> []))"

fun run_tasks :: "(world, sched_err, string list) act list \<Rightarrow> (world, sched_err, string list) act" where
  "run_tasks [] = ret []"
| "run_tasks (t # ts) = bindA t (\<lambda>e. bindA (run_tasks ts) (\<lambda>es. ret (e @ es)))"

definition message_tasks :: "time \<Rightarrow> (world, sched_err, string list) act list" where
  "message_tasks now =
     [run_task ''temporary expiry'' (expire_temporary now),
      run_task ''trash purge'' (purge_trash now),
      run_task ''audit retention'' (cleanup_audit now),
      run_task ''totp challenge retention'' (cleanup_challenges now)]"

definition file_tasks :: "(bytes \<Rightarrow> bytes) \<Rightarrow> time \<Rightarrow> time \<Rightarrow> time \<Rightarrow> (world, sched_err, string list) act list" where
  "file_tasks sha now upnow dbnow =
     [run_task ''thumbnail backfill'' (backfill_thumbnails now),
      run_task ''upload expiry'' (expire_uploads_task upnow),
      run_task ''file object gc'' (gc sha (int maintenance_batch) now dbnow),
      run_task ''file object reconcile'' (reconcile_objects sha dbnow (int maintenance_batch))]"

definition recover_task :: "time \<Rightarrow> (world, sched_err, string list) act" where
  "recover_task now = run_task ''recover stuck jobs''
     (recover_stuck now default_stuck_timeout default_max_attempts (int maintenance_batch))"

definition run_once :: "(bytes \<Rightarrow> bytes) \<Rightarrow> bool \<Rightarrow> time \<Rightarrow> time \<Rightarrow> time \<Rightarrow> (world, sched_err, bool \<times> string list) act" where
  "run_once sha free now upnow dbnow =
     bindA (query SchedIO (\<lambda>_. ())) (\<lambda>_.
     bindA (query SchedIO (\<lambda>_. free)) (\<lambda>acquired.
     if \<not> acquired then ret (False, [])
     else bindA (run_tasks (recover_task now # message_tasks now @ file_tasks sha now upnow dbnow)) (\<lambda>es.
       bindA (tryA (query SchedIO (\<lambda>_. ()) :: (world, sched_err, unit) act)) (\<lambda>_. ret (True, es)))))"

section \<open>Batches clear a backlog\<close>

text \<open>A batch takes up to \<open>b\<close> items of a backlog; a task repeats it.\<close>

locale batch_task =
  fixes m :: "(world, 'e, nat) act" and b :: nat and backlog :: "db \<Rightarrow> nat" and good :: "db \<Rightarrow> bool"
  assumes batch_run: "quiet w \<Longrightarrow> good (wdb w) \<Longrightarrow> \<exists>w'. m w = (Inr (min b (backlog (wdb w))), w') \<and> quiet w' \<and> good (wdb w')
      \<and> backlog (wdb w') = backlog (wdb w) - b"
    and batch_pos: "0 < b"
begin

lemma batches_run:
  "quiet w \<Longrightarrow> good (wdb w) \<Longrightarrow> \<exists>w'. batches k b m w = (Inr (), w') \<and> quiet w' \<and> good (wdb w')
     \<and> backlog (wdb w') = backlog (wdb w) - k * b"
proof (induction k arbitrary: w)
  case (Suc k)
  from batch_run [OF Suc.prems] obtain w1 where w1: "m w = (Inr (min b (backlog (wdb w))), w1)" "quiet w1" "good (wdb w1)"
    "backlog (wdb w1) = backlog (wdb w) - b" by blast
  show ?case
  proof (cases "backlog (wdb w) < b")
    case True
    with w1 show ?thesis by (intro exI [of _ w1]) (simp add: bindA_run ret_run)
  next
    case False
    from Suc.IH [OF w1(2,3)] obtain w2 where "batches k b m w1 = (Inr (), w2)" "quiet w2" "good (wdb w2)"
      "backlog (wdb w2) = backlog (wdb w1) - k * b" by blast
    with w1 False show ?thesis by (intro exI [of _ w2]) (simp add: bindA_run)
  qed
qed (simp add: ret_run)

lemma batches_clear:
  "quiet w \<Longrightarrow> good (wdb w) \<Longrightarrow> backlog (wdb w) \<le> k * b \<Longrightarrow>
     \<exists>w'. batches k b m w = (Inr (), w') \<and> quiet w' \<and> good (wdb w') \<and> backlog (wdb w') = 0"
  using batches_run [of w k] by force

end

text \<open>A batch of the oldest rows that are due, found by a unique key, leaves the others.\<close>

lemma batch_left:
  assumes dist: "distinct (map key xs)" and T: "T = take b (sort_key f (filter p xs))"
  shows "length (filter p (filter (\<lambda>x. key x \<notin> key ` set T) xs)) = length (filter p xs) - b"
proof -
  let ?D = "filter p xs"
  have D: "distinct ?D" using dist by (simp add: distinct_map)
  then have dT: "distinct T" unfolding T by simp
  have sub: "set T \<subseteq> set ?D" unfolding T by (auto dest: in_set_takeD)
  have "key x \<in> key ` set T \<longleftrightarrow> x \<in> set T" if "x \<in> set xs" for x
    using that sub dist by (auto simp: distinct_map inj_on_def)
  then have "filter p (filter (\<lambda>x. key x \<notin> key ` set T) xs) = filter (\<lambda>x. x \<notin> set T) ?D"
    by (induction xs) (auto intro: filter_cong)
  moreover have "length (filter (\<lambda>x. x \<notin> set T) ?D) = card (set ?D - set T)"
    using distinct_card [OF distinct_filter [OF D, of "\<lambda>x. x \<notin> set T"]] by (simp add: set_diff_eq)
  moreover have "card (set ?D - set T) = length ?D - length T"
    using card_Diff_subset [OF _ sub] distinct_card [OF D] distinct_card [OF dT] by (simp del: set_filter)
  ultimately show ?thesis by (simp add: T)
qed

section \<open>The backlogs\<close>

definition due_count :: "time \<Rightarrow> db \<Rightarrow> nat" where
  "due_count now d = length (filter (due_now now) (messages d))"

definition purge_count :: "time \<Rightarrow> db \<Rightarrow> nat" where
  "purge_count now d = length (filter (purge_due now) (messages d))"

definition old_event :: "time \<Rightarrow> settings \<Rightarrow> audit_row \<Rightarrow> bool" where
  "old_event now s r \<longleftrightarrow> audit_created_at r < now - audit_retention_days s * day"

definition audit_count :: "time \<Rightarrow> db \<Rightarrow> nat" where
  "audit_count now d = length (filter (old_event now (sys_settings d)) (audit_logs d))"

definition old_challenge :: "time \<Rightarrow> totp_challenge \<Rightarrow> bool" where
  "old_challenge now c \<longleftrightarrow> tc_expires_at c < now - challenge_grace
     \<or> (case tc_consumed_at c of None \<Rightarrow> False | Some t \<Rightarrow> t < now - challenge_grace)"

definition challenge_count :: "time \<Rightarrow> db \<Rightarrow> nat" where
  "challenge_count now d = length (filter (old_challenge now) (totp_challenges d))"

definition maintainable :: "time \<Rightarrow> db \<Rightarrow> bool" where
  "maintainable now d \<longleftrightarrow> messages_ok d \<and> settings_ok d \<and> audit_ok d \<and> distinct (map tc_id (totp_challenges d))
     \<and> (\<forall>m\<in>set (messages d). due_now now m \<longrightarrow> in_int64 (version m + 1))"

lemma maintainable_audit: "maintainable now d \<Longrightarrow> maintainable now (d\<lparr>audit_logs := filter p (audit_logs d)\<rparr>)"
  by (auto simp: maintainable_def messages_ok_def settings_ok_def audit_ok_def distinct_map inj_on_def)

lemma maintainable_challenges: "maintainable now d \<Longrightarrow> maintainable now (d\<lparr>totp_challenges := filter p (totp_challenges d)\<rparr>)"
  by (auto simp: maintainable_def messages_ok_def settings_ok_def audit_ok_def distinct_map inj_on_def)

lemma publish_each_quiet: "quiet w \<Longrightarrow> \<exists>w'. publish_each n w = (Inr (), w') \<and> wdb w' = wdb w \<and> quiet w'"
proof (induction n arbitrary: w)
  case (Suc n)
  obtain r w1 where n1: "(new_id SchedIO :: (world, sched_err, uuid) act) w = (r, w1)" by fastforce
  then have w1: "wdb w1 = wdb w" "quiet w1"
    using Suc.prems by (auto simp: new_id_def split: list.splits option.splits)
  from Suc.IH [OF w1(2)] w1 n1 show ?case by (auto simp: bindA_run tryA_run)
qed (simp add: ret_run)

subsection \<open>Expiry\<close>

lemma expire_rows_frame:
  "audit_logs (snd (expire_rows now p b d)) = audit_logs d" "totp_challenges (snd (expire_rows now p b d)) = totp_challenges d"
  "sys_settings (snd (expire_rows now p b d)) = sys_settings d"
  by (simp_all add: expire_rows_def Let_def)

lemma length_filter_update:
  "(\<And>x. x \<in> set xs \<Longrightarrow> r x \<Longrightarrow> \<not> q x) \<Longrightarrow> (\<And>x. \<not> q (f x)) \<Longrightarrow> length (filter q (sql_update r f xs)) = length (filter q xs)"
  by (induction xs) (simp_all add: sql_update_def)

lemma purge_count_expire:
  assumes ok: "messages_ok d" and p: "now < p"
  shows "length (filter (purge_due now) (sql_update (\<lambda>m. msg_id m \<in> msg_id ` set (due_temporary now b d)) (expired_row now p) (messages d)))
    = purge_count now d"
proof -
  have "\<not> purge_due now m" if "m \<in> set (messages d)" "msg_id m \<in> msg_id ` set (due_temporary now b d)" for m
  proof -
    have "m \<in> set (due_temporary now b d)"
      using that ok due_temporary_sub [of now b d] by (auto simp: messages_ok_def distinct_map inj_on_def)
    then have "due_now now m" by (auto simp: due_temporary_due_now dest!: in_set_takeD)
    then show ?thesis using ok that(1) by (auto simp: messages_ok_def message_checks_def due_now_def purge_due_def)
  qed
  moreover have "\<not> purge_due now (expired_row now p m)" for m using p by (simp add: purge_due_def expired_row_def)
  ultimately show ?thesis unfolding purge_count_def by (intro length_filter_update) blast+
qed

lemma expire_batch_run:
  assumes q: "quiet w" and g: "maintainable now (wdb w)"
  shows "\<exists>w'. expire_batch now b w = (Inr (min b (due_count now (wdb w))), w') \<and> quiet w' \<and> maintainable now (wdb w')
    \<and> due_count now (wdb w') = due_count now (wdb w) - b \<and> purge_count now (wdb w') = purge_count now (wdb w)
    \<and> audit_logs (wdb w') = audit_logs (wdb w) \<and> totp_challenges (wdb w') = totp_challenges (wdb w)
    \<and> sys_settings (wdb w') = sys_settings (wdb w)"
proof -
  let ?d = "wdb w"
  let ?T = "due_temporary now b ?d" and ?p = "now + trash_ttl_hours (sys_settings ?d) * hour"
  let ?ms = "sql_update (\<lambda>m. msg_id m \<in> msg_id ` set ?T) (expired_row now ?p) (messages ?d)"
  let ?d' = "?d\<lparr>messages := ?ms\<rparr>"
  have ok: "messages_ok ?d" and st: "settings_ok ?d" using g by (auto simp: maintainable_def)
  have due: "due_now now m" if "m \<in> set ?T" for m using that by (auto simp: due_temporary_due_now dest!: in_set_takeD)
  have inr: "\<not> list_ex (\<lambda>m. \<not> in_int64 (version m + 1)) ?T"
    using g due due_temporary_sub [of now b ?d] by (auto simp: maintainable_def list_ex_iff)
  then have er: "expire_rows now ?p b ?d = (Some (length ?T), ?d')"
    by (simp add: expire_rows_def Let_def expired_row_def [abs_def])
  have n: "length ?T = min b (due_count now ?d)" by (simp add: due_temporary_due_now due_count_def)
  from publish_each_quiet [of "w\<lparr>wdb := ?d'\<rparr>" "length ?T"] q obtain w' where
    w': "publish_each (length ?T) (w\<lparr>wdb := ?d'\<rparr>) = (Inr (), w')" "wdb w' = ?d'" "quiet w'" by auto
  have run: "expire_batch now b w = (Inr (length ?T), w')"
    using q er w' by (simp add: expire_batch_def in_tx_quiet bindA_run query_quiet exec_quiet ret_run commit_tx_def pop_fault_def)
  have left: "filter (due_now now) ?ms = filter (\<lambda>m. m \<notin> set ?T) (filter (due_now now) (messages ?d))" by (rule due_left [OF ok])
  have "0 < trash_ttl_hours (sys_settings ?d)" using st by (auto simp: settings_ok_def settings_validate_def)
  then have p: "now < ?p" by simp
  have "messages_ok ?d'" using messages_ok_expire [OF ok, of now ?p b] er by simp
  moreover have "\<forall>m\<in>set ?ms. due_now now m \<longrightarrow> in_int64 (version m + 1)"
  proof (intro ballI impI)
    fix m assume "m \<in> set ?ms" "due_now now m"
    then have "m \<in> set (filter (due_now now) ?ms)" by simp
    then show "in_int64 (version m + 1)" using g unfolding left by (auto simp: maintainable_def)
  qed
  ultimately have "maintainable now ?d'" using g by (simp add: maintainable_def settings_ok_def audit_ok_def)
  moreover have "due_count now ?d' = due_count now ?d - b"
    using due_left_length [OF ok, of now b] left by (simp add: due_count_def)
  moreover have "purge_count now ?d' = purge_count now ?d"
    using purge_count_expire [OF ok p, of b] by (simp add: purge_count_def)
  ultimately show ?thesis using run w' n by (intro exI [of _ w']) simp
qed

subsection \<open>The trash\<close>

lemma purge_batch_run:
  assumes q: "quiet w" and g: "maintainable now (wdb w)"
  shows "\<exists>w'. purge_batch now b w = (Inr (min b (purge_count now (wdb w))), w') \<and> quiet w' \<and> maintainable now (wdb w')
    \<and> purge_count now (wdb w') = purge_count now (wdb w) - b \<and> due_count now (wdb w') \<le> due_count now (wdb w)
    \<and> audit_logs (wdb w') = audit_logs (wdb w) \<and> totp_challenges (wdb w') = totp_challenges (wdb w)
    \<and> sys_settings (wdb w') = sys_settings (wdb w)"
proof -
  let ?d = "wdb w"
  let ?T = "take b (sort_key (\<lambda>m. (the (purge_at m), msg_id m)) (filter (purge_due now) (messages ?d)))"
  let ?g = "\<lambda>m. msg_id m \<in> msg_id ` set ?T"
  let ?d' = "delete_messages ?g ?d"
  have ok: "messages_ok ?d" using g by (simp add: maintainable_def)
  have ms: "\<exists>f. messages ?d' = map f (filter (\<lambda>m. \<not> ?g m) (messages ?d)) \<and> (\<forall>m. purge_due now (f m) = purge_due now m
      \<and> due_now now (f m) = due_now now m \<and> version (f m) = version m)"
    by (rule exI [of _ "\<lambda>m. if (case source_message_id m of None \<Rightarrow> False | Some s \<Rightarrow> s \<in> set (map msg_id (filter ?g (messages ?d))))
        then m\<lparr>source_message_id := None\<rparr> else m"])
      (simp add: delete_messages_def Let_def sql_delete_def purge_due_def due_now_def)
  then obtain f where f: "messages ?d' = map f (filter (\<lambda>m. \<not> ?g m) (messages ?d))"
    "\<And>m. purge_due now (f m) = purge_due now m" "\<And>m. due_now now (f m) = due_now now m" "\<And>m. version (f m) = version m" by blast
  have fr: "audit_logs ?d' = audit_logs ?d" "totp_challenges ?d' = totp_challenges ?d" "sys_settings ?d' = sys_settings ?d"
    by (simp_all add: delete_messages_def Let_def)
  have n: "length ?T = min b (purge_count now ?d)" by (simp add: purge_count_def)
  have pr: "purge_rows now b ?d = (length ?T, ?d')" by (simp add: purge_rows_def Let_def)
  from publish_each_quiet [of "w\<lparr>wdb := ?d'\<rparr>" "length ?T"] q obtain w' where
    w': "publish_each (length ?T) (w\<lparr>wdb := ?d'\<rparr>) = (Inr (), w')" "wdb w' = ?d'" "quiet w'" by auto
  have run: "purge_batch now b w = (Inr (length ?T), w')"
    using q pr w' by (simp add: purge_batch_def in_tx_quiet bindA_run exec_quiet ret_run commit_tx_def pop_fault_def)
  have flt: "length (filter r (map f xs)) = length (filter r xs)" if "\<And>m. r (f m) = r m" for r xs
    using that by (induction xs) simp_all
  have "purge_count now ?d' = purge_count now ?d - b"
    unfolding purge_count_def f(1) flt [of "purge_due now", OF f(2)]
    by (rule batch_left [OF _ refl]) (use ok in \<open>simp add: messages_ok_def\<close>)
  moreover have "due_count now ?d' \<le> due_count now ?d"
  proof -
    have "length (filter r (filter s xs)) \<le> length (filter r xs)" for r s and xs :: "message list" by (induction xs) auto
    then show ?thesis unfolding due_count_def f(1) flt [of "due_now now", OF f(3)] .
  qed
  moreover have "maintainable now ?d'"
    using g messages_ok_delete [OF ok, of ?g] f(3,4) fr unfolding maintainable_def settings_ok_def audit_ok_def
    by (auto simp: f(1))
  ultimately show ?thesis using run w' n fr by (intro exI [of _ w']) simp
qed

subsection \<open>Audit log and challenges\<close>

lemma cleanup_batch_run:
  assumes q: "quiet w" and g: "maintainable now (wdb w)" and b: "0 < b"
  shows "\<exists>w'. audit_cleanup SchedIO now (int b) w = (Inr (min b (audit_count now (wdb w))), w') \<and> quiet w' \<and> maintainable now (wdb w')
    \<and> audit_count now (wdb w') = audit_count now (wdb w) - b \<and> messages (wdb w') = messages (wdb w)
    \<and> totp_challenges (wdb w') = totp_challenges (wdb w) \<and> sys_settings (wdb w') = sys_settings (wdb w)"
proof -
  let ?d = "wdb w"
  let ?T = "take b (sort_key (\<lambda>r. (audit_created_at r, audit_id r)) (filter (old_event now (sys_settings ?d)) (audit_logs ?d)))"
  let ?d' = "?d\<lparr>audit_logs := filter (\<lambda>r. audit_id r \<notin> audit_id ` set ?T) (audit_logs ?d)\<rparr>"
  have run: "audit_cleanup SchedIO now (int b) w = (Inr (length ?T), w\<lparr>wdb := ?d'\<rparr>)"
    using q b by (simp add: audit_cleanup_def exec_quiet Let_def cleanup_due_def old_event_def [abs_def] sql_delete_def)
  have "audit_count now ?d' = audit_count now ?d - b"
    using batch_left [of audit_id "audit_logs ?d" ?T b, OF _ refl] g by (simp add: audit_count_def maintainable_def audit_ok_def)
  then show ?thesis
    unfolding run using q maintainable_audit [OF g] by (intro exI [of _ "w\<lparr>wdb := ?d'\<rparr>"]) (simp add: audit_count_def)
qed

lemma challenge_batch_run:
  assumes q: "quiet w" and g: "maintainable now (wdb w)"
  shows "\<exists>w'. exec SchedIO (delete_expired_challenges (now - challenge_grace) b) w
      = (Inr (min b (challenge_count now (wdb w))), w') \<and> quiet w' \<and> maintainable now (wdb w')
    \<and> challenge_count now (wdb w') = challenge_count now (wdb w) - b \<and> messages (wdb w') = messages (wdb w)
    \<and> audit_logs (wdb w') = audit_logs (wdb w) \<and> sys_settings (wdb w') = sys_settings (wdb w)"
proof -
  let ?d = "wdb w"
  let ?T = "take b (sort_key (\<lambda>c. (tc_expires_at c, tc_id c)) (filter (old_challenge now) (totp_challenges ?d)))"
  let ?d' = "?d\<lparr>totp_challenges := filter (\<lambda>c. tc_id c \<notin> tc_id ` set ?T) (totp_challenges ?d)\<rparr>"
  have run: "exec SchedIO (delete_expired_challenges (now - challenge_grace) b) w = (Inr (length ?T), w\<lparr>wdb := ?d'\<rparr>)"
    using q by (simp add: exec_quiet delete_expired_challenges_def Let_def old_challenge_def [abs_def] sql_delete_def)
  have "challenge_count now ?d' = challenge_count now ?d - b"
    using batch_left [of tc_id "totp_challenges ?d" ?T b, OF _ refl] g by (simp add: challenge_count_def maintainable_def)
  then show ?thesis
    unfolding run using q maintainable_challenges [OF g] by (intro exI [of _ "w\<lparr>wdb := ?d'\<rparr>"]) (simp add: challenge_count_def)
qed

section \<open>The tasks clear them\<close>

lemma batch_positive: "0 < maintenance_batch" by (simp add: maintenance_batch_def)

interpretation expiring: batch_task "expire_batch now maintenance_batch" maintenance_batch "due_count now"
  "\<lambda>d. maintainable now d \<and> purge_count now d = p \<and> audit_count now d = a \<and> challenge_count now d = c" for now p a c
proof
  fix w assume "quiet w" "maintainable now (wdb w) \<and> purge_count now (wdb w) = p \<and> audit_count now (wdb w) = a \<and> challenge_count now (wdb w) = c"
  with expire_batch_run [of w now maintenance_batch]
  show "\<exists>w'. expire_batch now maintenance_batch w = (Inr (min maintenance_batch (due_count now (wdb w))), w') \<and> quiet w'
      \<and> (maintainable now (wdb w') \<and> purge_count now (wdb w') = p \<and> audit_count now (wdb w') = a \<and> challenge_count now (wdb w') = c)
      \<and> due_count now (wdb w') = due_count now (wdb w) - maintenance_batch"
    by (auto simp: audit_count_def challenge_count_def)
qed (rule batch_positive)

interpretation purging: batch_task "purge_batch now maintenance_batch" maintenance_batch "purge_count now"
  "\<lambda>d. maintainable now d \<and> due_count now d = 0 \<and> audit_count now d = a \<and> challenge_count now d = c" for now a c
proof
  fix w assume "quiet w" "maintainable now (wdb w) \<and> due_count now (wdb w) = 0 \<and> audit_count now (wdb w) = a \<and> challenge_count now (wdb w) = c"
  with purge_batch_run [of w now maintenance_batch]
  show "\<exists>w'. purge_batch now maintenance_batch w = (Inr (min maintenance_batch (purge_count now (wdb w))), w') \<and> quiet w'
      \<and> (maintainable now (wdb w') \<and> due_count now (wdb w') = 0 \<and> audit_count now (wdb w') = a \<and> challenge_count now (wdb w') = c)
      \<and> purge_count now (wdb w') = purge_count now (wdb w) - maintenance_batch"
    by (auto simp: audit_count_def challenge_count_def)
qed (rule batch_positive)

interpretation retiring: batch_task "audit_cleanup SchedIO now (int maintenance_batch)" maintenance_batch "audit_count now"
  "\<lambda>d. maintainable now d \<and> due_count now d = 0 \<and> purge_count now d = 0 \<and> challenge_count now d = c" for now c
proof
  fix w assume "quiet w" "maintainable now (wdb w) \<and> due_count now (wdb w) = 0 \<and> purge_count now (wdb w) = 0 \<and> challenge_count now (wdb w) = c"
  with cleanup_batch_run [of w now maintenance_batch] batch_positive
  show "\<exists>w'. audit_cleanup SchedIO now (int maintenance_batch) w = (Inr (min maintenance_batch (audit_count now (wdb w))), w') \<and> quiet w'
      \<and> (maintainable now (wdb w') \<and> due_count now (wdb w') = 0 \<and> purge_count now (wdb w') = 0 \<and> challenge_count now (wdb w') = c)
      \<and> audit_count now (wdb w') = audit_count now (wdb w) - maintenance_batch"
    by (auto simp: due_count_def purge_count_def challenge_count_def)
qed (rule batch_positive)

interpretation forgetting: batch_task "exec SchedIO (delete_expired_challenges (now - challenge_grace) maintenance_batch)"
  maintenance_batch "challenge_count now"
  "\<lambda>d. maintainable now d \<and> due_count now d = 0 \<and> purge_count now d = 0 \<and> audit_count now d = 0" for now
proof
  fix w assume "quiet w" "maintainable now (wdb w) \<and> due_count now (wdb w) = 0 \<and> purge_count now (wdb w) = 0 \<and> audit_count now (wdb w) = 0"
  with challenge_batch_run [of w now maintenance_batch]
  show "\<exists>w'. exec SchedIO (delete_expired_challenges (now - challenge_grace) maintenance_batch) w
        = (Inr (min maintenance_batch (challenge_count now (wdb w))), w') \<and> quiet w'
      \<and> (maintainable now (wdb w') \<and> due_count now (wdb w') = 0 \<and> purge_count now (wdb w') = 0 \<and> audit_count now (wdb w') = 0)
      \<and> challenge_count now (wdb w') = challenge_count now (wdb w) - maintenance_batch"
    by (auto simp: due_count_def purge_count_def audit_count_def)
qed (rule batch_positive)

definition all_clear :: "time \<Rightarrow> db \<Rightarrow> bool" where
  "all_clear now d \<longleftrightarrow> due_count now d = 0 \<and> purge_count now d = 0 \<and> audit_count now d = 0 \<and> challenge_count now d = 0"

text \<open>What one pass can take of each kind.\<close>

definition within_pass :: "time \<Rightarrow> db \<Rightarrow> bool" where
  "within_pass now d \<longleftrightarrow> (let n = max_batches * maintenance_batch in
     due_count now d \<le> n \<and> purge_count now d \<le> n \<and> audit_count now d \<le> n \<and> challenge_count now d \<le> n)"

lemma message_tasks_clear:
  assumes q: "quiet w" and g: "maintainable now (wdb w)" and p: "within_pass now (wdb w)"
  shows "\<exists>w'. run_tasks (message_tasks now) w = (Inr [], w') \<and> all_clear now (wdb w')"
proof -
  note wp = p [unfolded within_pass_def Let_def]
  from expiring.batches_clear [OF q conjI [OF g conjI [OF refl conjI [OF refl refl]]], of max_batches] wp obtain w1 where
    w1: "batches max_batches maintenance_batch (expire_batch now maintenance_batch) w = (Inr (), w1)" "quiet w1"
      "maintainable now (wdb w1)" "due_count now (wdb w1) = 0" "purge_count now (wdb w1) = purge_count now (wdb w)"
      "audit_count now (wdb w1) = audit_count now (wdb w)" "challenge_count now (wdb w1) = challenge_count now (wdb w)" by auto
  from purging.batches_clear [OF w1(2) conjI [OF w1(3) conjI [OF w1(4) conjI [OF refl refl]]], of max_batches] wp w1 obtain w2 where
    w2: "batches max_batches maintenance_batch (purge_batch now maintenance_batch) w1 = (Inr (), w2)" "quiet w2"
      "maintainable now (wdb w2)" "due_count now (wdb w2) = 0" "purge_count now (wdb w2) = 0"
      "audit_count now (wdb w2) = audit_count now (wdb w)" "challenge_count now (wdb w2) = challenge_count now (wdb w)" by auto
  from retiring.batches_clear [OF w2(2) conjI [OF w2(3) conjI [OF w2(4) conjI [OF w2(5) refl]]], of max_batches] wp w2 obtain w3 where
    w3: "batches max_batches maintenance_batch (audit_cleanup SchedIO now (int maintenance_batch)) w2 = (Inr (), w3)" "quiet w3"
      "maintainable now (wdb w3)" "due_count now (wdb w3) = 0" "purge_count now (wdb w3) = 0"
      "audit_count now (wdb w3) = 0" "challenge_count now (wdb w3) = challenge_count now (wdb w)" by auto
  from forgetting.batches_clear [OF w3(2) conjI [OF w3(3) conjI [OF w3(4) conjI [OF w3(5,6)]]], of max_batches] wp w3 obtain w4 where
    w4: "batches max_batches maintenance_batch (exec SchedIO (delete_expired_challenges (now - challenge_grace) maintenance_batch)) w3 = (Inr (), w4)"
      "due_count now (wdb w4) = 0" "purge_count now (wdb w4) = 0" "audit_count now (wdb w4) = 0" "challenge_count now (wdb w4) = 0" by auto
  show ?thesis
    by (rule exI [of _ w4]) (simp add: message_tasks_def run_task_def expire_temporary_def purge_trash_def cleanup_audit_def
        cleanup_challenges_def bindA_run tryA_run ret_run w1(1) w2(1) w3(1) w4 all_clear_def)
qed

end
