(* ===== verification/Tags.thy ===== *)
theory Tags
  imports Listing
begin

text \<open>
  The tags of a user (\<^verbatim>\<open>internal/tags\<close>, \<^verbatim>\<open>sql/generated/tags.sql.go\<close>): names that are unique per user up to
  case, colors, and the deletion of a tag, which advances the version of every message that carried it. The case
  mapping of names is an argument.
\<close>

section \<open>Names and colors\<close>

datatype tag_err = TagNotFound | TagErrValidation | TagDuplicate | TagIO

definition hex_char :: "char \<Rightarrow> bool" where
  "hex_char c \<longleftrightarrow> c \<in> set ''0123456789ABCDEFabcdef''"

definition color_ok :: "string \<Rightarrow> bool" where
  "color_ok c \<longleftrightarrow> (case c of [] \<Rightarrow> False | h # ds \<Rightarrow> h = CHR ''#'' \<and> length ds = 6 \<and> list_all hex_char ds)"

text \<open>\<^verbatim>\<open>strings.ToUpper\<close> on a color, whose characters are ASCII.\<close>

definition upper_char :: "char \<Rightarrow> char" where
  "upper_char c = (if CHR ''a'' \<le> c \<and> c \<le> CHR ''z'' then char_of (of_char c - (32 :: nat)) else c)"

definition upper_color :: "string \<Rightarrow> string" where
  "upper_color = map upper_char"

definition normalize_tag :: "(string \<Rightarrow> string) \<Rightarrow> string \<Rightarrow> string \<Rightarrow> tag_err + (string \<times> string \<times> string)" where
  "normalize_tag lower name color = (let display = trim_space name; n = rune_count display in
     if n < 1 \<or> 64 < n \<or> \<not> color_ok color then Inl TagErrValidation
     else Inr (display, lower display, upper_color color))"

section \<open>Statements\<close>

definition owned_tag :: "uuid \<Rightarrow> uuid \<Rightarrow> db \<Rightarrow> tag option" where
  "owned_tag i owner d = find (\<lambda>t. tag_id t = i \<and> tag_user t = owner) (tags d)"

definition list_owned_tags :: "uuid \<Rightarrow> db \<Rightarrow> tag list" where
  "list_owned_tags owner d = sort_key (\<lambda>t. (normalized_name t, tag_id t)) (filter (\<lambda>t. tag_user t = owner) (tags d))"

definition name_taken :: "tag \<Rightarrow> db \<Rightarrow> bool" where
  "name_taken t d \<longleftrightarrow> sql_exists (\<lambda>r. tag_id r \<noteq> tag_id t \<and> tag_user r = tag_user t \<and> normalized_name r = normalized_name t) (tags d)"

definition create_owned_tag :: "tag \<Rightarrow> db \<Rightarrow> (tag_err + tag) \<times> db" where
  "create_owned_tag t d =
     (if \<not> pg_text (tag_name t) \<or> \<not> pg_text (normalized_name t) then (Inl TagIO, d)
      else if sql_exists (\<lambda>r. tag_id r = tag_id t) (tags d) \<or> name_taken t d then (Inl TagDuplicate, d)
      else (Inr t, d\<lparr>tags := tags d @ [t]\<rparr>))"

definition update_owned_tag :: "tag \<Rightarrow> db \<Rightarrow> (tag_err + tag) \<times> db" where
  "update_owned_tag t d =
     (if \<not> pg_text (tag_name t) \<or> \<not> pg_text (normalized_name t) then (Inl TagIO, d)
      else case owned_tag (tag_id t) (tag_user t) d of None \<Rightarrow> (Inl TagNotFound, d)
      | Some r \<Rightarrow> let r' = r\<lparr>tag_name := tag_name t, normalized_name := normalized_name t, tag_color := tag_color t,
              tag_updated_at := tag_updated_at t\<rparr> in
          if name_taken t d then (Inl TagDuplicate, d)
          else (Inr r', d\<lparr>tags := sql_update (\<lambda>x. tag_id x = tag_id t \<and> tag_user x = tag_user t) (\<lambda>_. r') (tags d)\<rparr>))"

definition affected_messages :: "uuid \<Rightarrow> uuid \<Rightarrow> db \<Rightarrow> uuid list" where
  "affected_messages i owner d = map msg_id (sort_key msg_id
     (concat (map (\<lambda>m. map (\<lambda>_. m) (filter (\<lambda>mt. mt = (msg_id m, i)) (message_tags d)))
       (filter (\<lambda>m. owner_id m = owner) (messages d)))))"

text \<open>The rows of \<open>message_tags\<close> go with the tag.\<close>

definition delete_owned_tag :: "uuid \<Rightarrow> uuid \<Rightarrow> db \<Rightarrow> nat \<times> db" where
  "delete_owned_tag i owner d = (let p = (\<lambda>t. tag_id t = i \<and> tag_user t = owner) in
     (sql_count p (tags d), d\<lparr>tags := sql_delete p (tags d),
        message_tags := (if sql_exists p (tags d) then sql_delete (\<lambda>mt. snd mt = i) (message_tags d) else message_tags d)\<rparr>))"

definition bump_affected :: "uuid list \<Rightarrow> time \<Rightarrow> uuid \<Rightarrow> db \<Rightarrow> unit option \<times> db" where
  "bump_affected is now owner d = (let p = (\<lambda>m. msg_id m \<in> set is \<and> owner_id m = owner) in
     if list_ex (\<lambda>m. p m \<and> \<not> in_int64 (version m + 1)) (messages d) then (None, d)
     else (Some (), d\<lparr>messages := sql_update p (\<lambda>m. m\<lparr>version := version m + 1, updated_at := now\<rparr>) (messages d)\<rparr>))"

section \<open>The service\<close>

definition tag_row :: "(world, tag_err, tag_err + tag) act \<Rightarrow> (world, tag_err, tag) act" where
  "tag_row m = bindA m (\<lambda>r. case r of Inl e \<Rightarrow> throw e | Inr t \<Rightarrow> ret t)"

definition get_tag :: "uuid \<Rightarrow> uuid \<Rightarrow> (world, tag_err, tag) act" where
  "get_tag owner i = bindA (query TagIO (owned_tag i owner)) (\<lambda>r. case r of None \<Rightarrow> throw TagNotFound | Some t \<Rightarrow> ret t)"

definition list_tags :: "uuid \<Rightarrow> (world, tag_err, tag list) act" where
  "list_tags owner = query TagIO (list_owned_tags owner)"

definition create_tag :: "(string \<Rightarrow> string) \<Rightarrow> uuid \<Rightarrow> string \<Rightarrow> string \<Rightarrow> time \<Rightarrow> (world, tag_err, tag) act" where
  "create_tag lower owner name color now = (case normalize_tag lower name color of Inl e \<Rightarrow> throw e
     | Inr (display, normalized, safe) \<Rightarrow> bindA (new_id TagIO) (\<lambda>i.
         tag_row (exec TagIO (create_owned_tag \<lparr>tag_id = i, tag_user = owner, tag_name = display, normalized_name = normalized,
           tag_color = safe, tag_created_at = now, tag_updated_at = now\<rparr>))))"

definition update_tag :: "(string \<Rightarrow> string) \<Rightarrow> uuid \<Rightarrow> uuid \<Rightarrow> string option \<Rightarrow> string option \<Rightarrow> time \<Rightarrow> (world, tag_err, tag) act" where
  "update_tag lower owner i name color now =
     (if name = None \<and> color = None then throw TagErrValidation
      else bindA (get_tag owner i) (\<lambda>current.
        case normalize_tag lower (case name of None \<Rightarrow> tag_name current | Some n \<Rightarrow> n)
            (case color of None \<Rightarrow> tag_color current | Some c \<Rightarrow> c) of
          Inl e \<Rightarrow> throw e
        | Inr (display, normalized, safe) \<Rightarrow>
            if display = tag_name current \<and> safe = tag_color current then ret current
            else tag_row (exec TagIO (update_owned_tag \<lparr>tag_id = i, tag_user = owner, tag_name = display,
              normalized_name = normalized, tag_color = safe, tag_created_at = 0, tag_updated_at = now\<rparr>))))"

definition delete_tag_tx :: "uuid \<Rightarrow> uuid \<Rightarrow> time \<Rightarrow> (world, tag_err, bool \<times> unit) act" where
  "delete_tag_tx owner i now =
     bindA (query TagIO (affected_messages i owner)) (\<lambda>locked.
     bindA (exec TagIO (delete_owned_tag i owner)) (\<lambda>n.
     if n \<noteq> 1 then throw TagNotFound
     else bindA (if locked = [] then ret (Some ()) else exec TagIO (bump_affected locked now owner)) (\<lambda>r.
       (case r of None \<Rightarrow> throw TagIO | Some _ \<Rightarrow> commit_tx ()))))"

definition delete_tag :: "uuid \<Rightarrow> uuid \<Rightarrow> time \<Rightarrow> (world, tag_err, unit) act" where
  "delete_tag owner i now = in_tx TagIO (delete_tag_tx owner i now)"

section \<open>The table of tags\<close>

definition tag_fits :: "(string \<Rightarrow> string) \<Rightarrow> tag \<Rightarrow> bool" where
  "tag_fits lower t \<longleftrightarrow> normalized_name t = lower (tag_name t) \<and> trim_space (tag_name t) = tag_name t
     \<and> 1 \<le> rune_count (tag_name t) \<and> rune_count (tag_name t) \<le> 64 \<and> pg_text (tag_name t)
     \<and> color_ok (tag_color t) \<and> upper_color (tag_color t) = tag_color t"

definition tags_ok :: "(string \<Rightarrow> string) \<Rightarrow> db \<Rightarrow> bool" where
  "tags_ok lower d \<longleftrightarrow> distinct (map tag_id (tags d)) \<and> distinct (map (\<lambda>t. (tag_user t, normalized_name t)) (tags d))
     \<and> (\<forall>t\<in>set (tags d). tag_fits lower t)"

lemma starts_white_prefix: "prefix p s \<Longrightarrow> starts_white s = None \<Longrightarrow> starts_white p = None"
  unfolding starts_white_def find_None_iff using prefix_order.trans by blast

lemma trim_space_idem [simp]: "trim_space (trim_space s) = trim_space s"
proof -
  have "starts_white (trim_right (trim_left s)) = None"
    by (rule starts_white_prefix [OF trim_right_prefix trim_left_no_white])
  then have "trim_left (trim_right (trim_left s)) = trim_right (trim_left s)" by (simp add: trim_left.simps)
  then show ?thesis using trim_right_no_white [of "trim_left s"] by (simp add: trim_space_def trim_right.simps [of "trim_right (trim_left s)"])
qed

lemma upper_hex_digits:
  "list_all (\<lambda>c. hex_char (upper_char c) \<and> upper_char (upper_char c) = upper_char c) ''0123456789ABCDEFabcdef''"
  "upper_char CHR ''#'' = CHR ''#''"
  by code_simp+

lemma upper_hex: "hex_char c \<Longrightarrow> hex_char (upper_char c) \<and> upper_char (upper_char c) = upper_char c"
  using upper_hex_digits(1) unfolding list_all_iff hex_char_def by blast

lemma upper_color_fits:
  assumes "color_ok c"
  shows "color_ok (upper_color c)" "upper_color (upper_color c) = upper_color c"
proof -
  obtain ds where c: "c = CHR ''#'' # ds" "length ds = 6" "\<forall>d\<in>set ds. hex_char d"
    using assms by (auto simp: color_ok_def list_all_iff split: list.splits)
  show "color_ok (upper_color c)" using c upper_hex by (auto simp: color_ok_def upper_color_def list_all_iff upper_hex_digits(2))
  show "upper_color (upper_color c) = upper_color c" using c upper_hex by (auto simp: upper_color_def upper_hex_digits(2))
qed

lemma normalize_tag_fits:
  assumes "normalize_tag lower name color = Inr (n, l, c)" "pg_text n"
  shows "tag_fits lower (t\<lparr>tag_name := n, normalized_name := l, tag_color := c\<rparr>)"
  using assms upper_color_fits [of color] by (auto simp: normalize_tag_def tag_fits_def Let_def split: if_splits)

lemma tags_ok_create:
  assumes ok: "tags_ok lower d" and t: "pg_text (tag_name t) \<Longrightarrow> tag_fits lower t"
  shows "tags_ok lower (snd (create_owned_tag t d))"
proof (cases "(\<not> pg_text (tag_name t) \<or> \<not> pg_text (normalized_name t)) \<or> sql_exists (\<lambda>r. tag_id r = tag_id t) (tags d) \<or> name_taken t d")
  case True
  then have "snd (create_owned_tag t d) = d" by (simp add: create_owned_tag_def)
  then show ?thesis using ok by simp
next
  case False
  then have e: "tags (snd (create_owned_tag t d)) = tags d @ [t]" by (simp add: create_owned_tag_def)
  have id: "tag_id t \<notin> tag_id ` set (tags d)" using False by (auto simp: sql_exists_iff)
  then have nm: "(tag_user t, normalized_name t) \<notin> (\<lambda>t. (tag_user t, normalized_name t)) ` set (tags d)"
    using False by (auto simp: name_taken_def sql_exists_iff)
  have "tag_fits lower t" using t False by simp
  then show ?thesis using ok id nm unfolding tags_ok_def e by simp
qed

lemma owned_tag_SomeD: "owned_tag i owner d = Some t \<Longrightarrow> t \<in> set (tags d) \<and> tag_id t = i \<and> tag_user t = owner"
  by (auto simp: owned_tag_def find_Some_iff)

lemma tags_ok_update:
  assumes ok: "tags_ok lower d" and fits: "\<And>r. pg_text (tag_name t) \<Longrightarrow> tag_fits lower (r\<lparr>tag_name := tag_name t, normalized_name := normalized_name t,
      tag_color := tag_color t\<rparr>)"
  shows "tags_ok lower (snd (update_owned_tag t d))"
proof (cases "\<not> pg_text (tag_name t) \<or> \<not> pg_text (normalized_name t) \<or> owned_tag (tag_id t) (tag_user t) d = None \<or> name_taken t d")
  case True
  then show ?thesis using ok by (auto simp: update_owned_tag_def Let_def split: option.splits)
next
  case False
  then obtain r where r: "owned_tag (tag_id t) (tag_user t) d = Some r" by auto
  let ?r = "r\<lparr>tag_name := tag_name t, normalized_name := normalized_name t, tag_color := tag_color t, tag_updated_at := tag_updated_at t\<rparr>"
  let ?p = "\<lambda>x. tag_id x = tag_id t \<and> tag_user x = tag_user t"
  note R = owned_tag_SomeD [OF r]
  have e: "tags (snd (update_owned_tag t d)) = map (\<lambda>x. if ?p x then ?r else x) (tags d)"
    using False r by (simp add: update_owned_tag_def Let_def sql_update_def)
  have inj: "x = y" if "x \<in> set (tags d)" "y \<in> set (tags d)" "tag_id x = tag_id y" for x y
    using ok that by (auto simp: tags_ok_def distinct_map inj_on_def)
  have free: "\<not> (tag_user x = tag_user t \<and> normalized_name x = normalized_name t)" if "x \<in> set (tags d)" "tag_id x \<noteq> tag_id t" for x
    using False that by (auto simp: name_taken_def sql_exists_iff)
  have fit: "tag_fits lower ?r" using fits [of r] False by (simp add: tag_fits_def)
  have ids: "map tag_id (map (\<lambda>x. if ?p x then ?r else x) (tags d)) = map tag_id (tags d)" using R by auto
  have d0: "distinct (tags d)" using ok by (auto simp: tags_ok_def distinct_map)
  have inj_n: "inj_on (\<lambda>x. let y = if ?p x then ?r else x in (tag_user y, normalized_name y)) (set (tags d))"
  proof (rule inj_onI)
    fix x y assume xy: "x \<in> set (tags d)" "y \<in> set (tags d)"
      and eq: "(let y = if ?p x then ?r else x in (tag_user y, normalized_name y)) = (let z = if ?p y then ?r else y in (tag_user z, normalized_name z))"
    have old: "(tag_user x, normalized_name x) = (tag_user y, normalized_name y) \<Longrightarrow> x = y"
      using ok xy by (auto simp: tags_ok_def distinct_map inj_on_def)
    have px: "x = r" if "?p x" using inj [OF xy(1), of r] that R by simp
    have py: "y = r" if "?p y" using inj [OF xy(2), of r] that R by simp
    have nr: "tag_id z \<noteq> tag_id t" if "z \<in> set (tags d)" "\<not> ?p z" for z
      using inj [OF that(1), of r] that(2) R by auto
    show "x = y"
    proof (cases "?p x")
      case True
      show ?thesis
      proof (cases "?p y")
        case True
        with \<open>?p x\<close> show ?thesis using px py by simp
      next
        case False
        have "tag_user t = tag_user y" "normalized_name t = normalized_name y"
          using eq [unfolded Let_def if_P [OF \<open>?p x\<close>] if_not_P [OF False]] R by simp_all
        then show ?thesis using free [OF xy(2) nr [OF xy(2) False]] by simp
      qed
    next
      case False
      show ?thesis
      proof (cases "?p y")
        case True
        have "tag_user t = tag_user x" "normalized_name t = normalized_name x"
          using eq [unfolded Let_def if_P [OF True] if_not_P [OF \<open>\<not> ?p x\<close>]] R by simp_all
        then show ?thesis using free [OF xy(1) nr [OF xy(1) \<open>\<not> ?p x\<close>]] by simp
      next
        case False
        show ?thesis using eq [unfolded Let_def if_not_P [OF \<open>\<not> ?p x\<close>] if_not_P [OF False]] by (rule old)
      qed
    qed
  qed
  then have "distinct (map (\<lambda>x. let y = if ?p x then ?r else x in (tag_user y, normalized_name y)) (tags d))"
    using d0 by (simp add: distinct_map)
  then have names: "distinct (map (\<lambda>t. (tag_user t, normalized_name t)) (map (\<lambda>x. if ?p x then ?r else x) (tags d)))"
    by (simp add: comp_def Let_def)
  show ?thesis
    unfolding tags_ok_def e ids using names ok fit by (auto simp: tags_ok_def)
qed

lemma tags_ok_delete: "tags_ok lower d \<Longrightarrow> tags_ok lower (snd (delete_owned_tag i owner d))"
  by (auto simp: delete_owned_tag_def tags_ok_def sql_delete_def Let_def intro: distinct_map_filter)

lemma tags_ok_bump: "tags_ok lower (snd (bump_affected is now owner d)) = tags_ok lower d"
  by (simp add: bump_affected_def tags_ok_def Let_def)

lemma keeps_tags_ok:
  shows "keeps (on_db (tags_ok lower)) (create_tag lower owner name color now)"
    and "keeps (on_db (tags_ok lower)) (update_tag lower owner i name' color' now)"
    and "keeps (on_db (tags_ok lower)) (delete_tag owner i now)"
proof -
  have c: "tags_ok lower (snd (create_owned_tag \<lparr>tag_id = i, tag_user = owner, tag_name = n, normalized_name = l, tag_color = c,
      tag_created_at = now, tag_updated_at = now\<rparr> d))"
    if "normalize_tag lower nm co = Inr (n, l, c)" "tags_ok lower d" for i n l c nm co d
    using normalize_tag_fits [OF that(1), of "\<lparr>tag_id = i, tag_user = owner, tag_name = n, normalized_name = l, tag_color = c,
      tag_created_at = now, tag_updated_at = now\<rparr>"] by (intro tags_ok_create [OF that(2)]) simp
  show "keeps (on_db (tags_ok lower)) (create_tag lower owner name color now)"
    unfolding create_tag_def tag_row_def
    by (cases "normalize_tag lower name color") (auto intro!: keeps_intro c split: prod.splits)
  have u: "tags_ok lower (snd (update_owned_tag \<lparr>tag_id = i, tag_user = owner, tag_name = n, normalized_name = l, tag_color = c,
      tag_created_at = 0, tag_updated_at = now\<rparr> d))"
    if "normalize_tag lower nm co = Inr (n, l, c)" "tags_ok lower d" for n l c nm co d
    using normalize_tag_fits [OF that(1)] by (intro tags_ok_update [OF that(2)]) simp
  have n: "keeps (on_db (tags_ok lower)) (case x of Inl e \<Rightarrow> throw e | Inr (display, normalized, safe) \<Rightarrow>
      if display = tag_name current \<and> safe = tag_color current then ret current
      else tag_row (exec TagIO (update_owned_tag \<lparr>tag_id = i, tag_user = owner, tag_name = display,
              normalized_name = normalized, tag_color = safe, tag_created_at = 0, tag_updated_at = now\<rparr>)))"
    if "x = normalize_tag lower nm co" for x nm co current
    using u [OF that [symmetric, THEN trans]] unfolding tag_row_def by (cases x) (auto intro!: keeps_intro split: prod.splits)
  show "keeps (on_db (tags_ok lower)) (update_tag lower owner i name' color' now)"
    unfolding update_tag_def get_tag_def by (intro keeps_intro n [OF refl])
  show "keeps (on_db (tags_ok lower)) (delete_tag owner i now)"
    unfolding delete_tag_def delete_tag_tx_def by (intro keeps_intro) (simp_all add: tags_ok_delete tags_ok_bump)
qed

section \<open>Properties\<close>

text \<open>C31: the names of a user's tags stay unique up to case, and every stored tag has a trimmed name of 1 to 64 characters and
  an upper-case color: every operation keeps this, however its calls fail.\<close>

theorem tag_names_stay_unique:
  assumes "tags_ok lower (wdb w)"
  shows "tags_ok lower (wdb (snd (create_tag lower owner name color now w)))
    \<and> tags_ok lower (wdb (snd (update_tag lower owner i name' color' now w)))
    \<and> tags_ok lower (wdb (snd (delete_tag owner i now w)))"
proof -
  note k = keeps_tags_ok [unfolded keeps_def on_db_def, rule_format, OF assms]
  show ?thesis by (intro conjI k)
qed

text \<open>The database without a tag.\<close>

definition without_tag :: "uuid \<Rightarrow> uuid \<Rightarrow> time \<Rightarrow> db \<Rightarrow> db" where
  "without_tag owner i now d = d\<lparr>tags := sql_delete (\<lambda>t. tag_id t = i) (tags d),
     message_tags := sql_delete (\<lambda>mt. snd mt = i) (message_tags d),
     messages := sql_update (\<lambda>m. owner_id m = owner \<and> (msg_id m, i) \<in> set (message_tags d))
       (\<lambda>m. m\<lparr>version := version m + 1, updated_at := now\<rparr>) (messages d)\<rparr>"

lemma delete_tag_tx_effect:
  assumes run: "delete_tag_tx owner i now w = (Inr (c, x), w')"
    and ids: "distinct (map tag_id (tags (wdb w)))" "distinct (map msg_id (messages (wdb w)))"
  shows "wdb w' = without_tag owner i now (wdb w) \<and> (\<exists>t\<in>set (tags (wdb w)). tag_id t = i \<and> tag_user t = owner)"
proof -
  let ?d = "wdb w" and ?p = "\<lambda>t. tag_id t = i \<and> tag_user t = owner"
  let ?l = "affected_messages i owner ?d"
  have l: "set ?l = {j. \<exists>m\<in>set (messages ?d). msg_id m = j \<and> owner_id m = owner \<and> (j, i) \<in> set (message_tags ?d)}"
    by (auto simp: affected_messages_def)
  obtain l1 w1 where q: "query TagIO (affected_messages i owner) w = (Inr l1, w1)"
    and r1: "bindA (exec TagIO (delete_owned_tag i owner)) (\<lambda>n. if n \<noteq> 1 then throw TagNotFound
      else bindA (if l1 = [] then ret (Some ()) else exec TagIO (bump_affected l1 now owner)) (\<lambda>r.
       (case r of None \<Rightarrow> throw TagIO | Some _ \<Rightarrow> commit_tx ()))) w1 = (Inr (c, x), w')"
    using run unfolding delete_tag_tx_def bindA_Inr_iff [of "query TagIO (affected_messages i owner)"] by blast
  have l1: "l1 = ?l" and w1: "wdb w1 = ?d" using query_Inr [OF q] by simp_all
  obtain n w2 where dl: "exec TagIO (delete_owned_tag i owner) w1 = (Inr n, w2)"
    and r2: "(if n \<noteq> 1 then throw TagNotFound
      else bindA (if l1 = [] then ret (Some ()) else exec TagIO (bump_affected l1 now owner)) (\<lambda>r.
       (case r of None \<Rightarrow> throw TagIO | Some _ \<Rightarrow> commit_tx ()))) w2 = (Inr (c, x), w')"
    using r1 unfolding bindA_Inr_iff [of "exec TagIO (delete_owned_tag i owner)"] by blast
  have n: "n = 1" using r2 by (simp add: throw_run split: if_splits)
  have rest: "bindA (if ?l = [] then ret (Some ()) else exec TagIO (bump_affected ?l now owner)) (\<lambda>r.
       (case r of None \<Rightarrow> throw TagIO | Some _ \<Rightarrow> commit_tx ())) w2 = (Inr (c, x), w')"
    using r2 [unfolded l1] by (simp only: n simp_thms if_False)
  have one: "sql_count ?p (tags ?d) = 1" and w2: "wdb w2 = snd (delete_owned_tag i owner ?d)"
    using exec_Inr [OF dl] n w1 by (simp_all add: delete_owned_tag_def Let_def)
  have "filter ?p (tags ?d) \<noteq> []" using one by (auto simp: sql_count_def)
  then obtain t where t: "t \<in> set (tags ?d)" "tag_id t = i" "tag_user t = owner" by (auto simp: filter_empty_conv)
  have same: "sql_delete ?p (tags ?d) = sql_delete (\<lambda>t. tag_id t = i) (tags ?d)"
    unfolding sql_delete_def using t ids(1) by (intro filter_cong [OF refl]) (auto simp: distinct_map inj_on_def)
  have w2': "wdb w2 = ?d\<lparr>tags := sql_delete (\<lambda>t. tag_id t = i) (tags ?d), message_tags := sql_delete (\<lambda>mt. snd mt = i) (message_tags ?d)\<rparr>"
    using w2 t same by (auto simp: delete_owned_tag_def Let_def sql_exists_iff)
  have w': "wdb w' = (if ?l = [] then wdb w2 else (wdb w2)\<lparr>messages := sql_update (\<lambda>m. msg_id m \<in> set ?l \<and> owner_id m = owner)
      (\<lambda>m. m\<lparr>version := version m + 1, updated_at := now\<rparr>) (messages (wdb w2))\<rparr>)"
    using rest by (auto simp: bindA_Inr_iff ret_run throw_run commit_tx_def bump_affected_def Let_def split: if_splits option.splits dest!: exec_Inr)
  have upd: "sql_update (\<lambda>m. msg_id m \<in> set ?l \<and> owner_id m = owner) f (messages ?d)
      = sql_update (\<lambda>m. owner_id m = owner \<and> (msg_id m, i) \<in> set (message_tags ?d)) f (messages ?d)" for f
    unfolding sql_update_def l by (rule map_cong [OF refl]) auto
  have none: "sql_update (\<lambda>m. owner_id m = owner \<and> (msg_id m, i) \<in> set (message_tags ?d)) f (messages ?d) = messages ?d" if "?l = []" for f
    using that l unfolding sql_update_def by (intro map_idI) auto
  show ?thesis
  proof (cases "?l = []")
    case True
    then show ?thesis using w' w2' none [OF True] t by (auto simp: without_tag_def)
  next
    case False
    then show ?thesis using w' w2' upd t by (auto simp: without_tag_def)
  qed
qed

text \<open>C21: deleting a tag deletes exactly the tag and its uses and tells every client: when it succeeds, the tag of the owner is
  gone, no message carries it, and each message that did has the next version, so that an edit based on an older one
  is refused; otherwise nothing or all of this has happened.\<close>

theorem deleting_a_tag_advances_its_messages:
  assumes "delete_tag owner i now w = (r, w')" "distinct (map tag_id (tags (wdb w)))" "distinct (map msg_id (messages (wdb w)))"
  shows "(wdb w' = without_tag owner i now (wdb w) \<and> (\<exists>t\<in>set (tags (wdb w)). tag_id t = i \<and> tag_user t = owner))
    \<or> (isl r \<and> wdb w' = wdb w)"
  using assms(1) unfolding delete_tag_def
proof (cases rule: in_tx_cases)
  case (begin_failed)
  then show ?thesis by simp
next
  case (body_error w0 w1 err)
  then show ?thesis by simp
next
  case (no_commit w0 w1 x)
  then show ?thesis by (auto simp: delete_tag_tx_def bindA_Inr_iff throw_run commit_tx_def ret_run split: if_splits option.splits)
next
  case (committed w0 w1 x)
  then show ?thesis using delete_tag_tx_effect [OF committed(3)] assms(2,3) by simp
next
  case (commit_failed w0 w1 x)
  then show ?thesis using delete_tag_tx_effect [OF commit_failed(3)] assms(2,3) by auto
qed

lemma tag_names_stay_unique_witness:
  "case snd (create_tag (\<lambda>s. s) 1 '' work'' ''#00ff00'' 5 ((process_on empty_db)\<lparr>ids := [Some 4]\<rparr>)) of w' \<Rightarrow>
     map (\<lambda>t. (tag_name t, tag_color t)) (tags (wdb w')) = [(''work'', ''#00FF00'')] \<and> tags_ok (\<lambda>s. s) (wdb w')"
proof -
  let ?w = "(process_on empty_db)\<lparr>ids := [Some 4]\<rparr>"
  have n: "normalize_tag (\<lambda>s. s) '' work'' ''#00ff00'' = Inr (''work'', ''work'', ''#00FF00'')" by code_simp
  have p: "pg_text ''work''" by code_simp
  have q: "quiet ?w" by (simp add: process_on_def)
  have c: "tags (wdb (snd (create_tag (\<lambda>s. s) 1 '' work'' ''#00ff00'' 5 ?w)))
    = [\<lparr>tag_id = 4, tag_user = 1, tag_name = ''work'', normalized_name = ''work'', tag_color = ''#00FF00'', tag_created_at = 5, tag_updated_at = 5\<rparr>]"
    using q by (simp add: create_tag_def n bindA_run new_id_def tag_row_def exec_quiet create_owned_tag_def p name_taken_def sql_exists_def
        empty_db_def ret_run)
  have "tags_ok (\<lambda>s. s) (wdb ?w)" by (simp add: tags_ok_def empty_db_def)
  from tag_names_stay_unique [OF this] have "tags_ok (\<lambda>s. s) (wdb (snd (create_tag (\<lambda>s. s) 1 '' work'' ''#00ff00'' 5 ?w)))" by blast
  with c show ?thesis by simp
qed

definition tagged_db :: db where
  "tagged_db = (inbox [plain_message 5 50, plain_message 6 60])\<lparr>message_tags := [(5, 4)],
     tags := [\<lparr>tag_id = 4, tag_user = 1, tag_name = ''work'', normalized_name = ''work'', tag_color = ''#00FF00'', tag_created_at = 5, tag_updated_at = 5\<rparr>]\<rparr>"

lemma deleting_a_tag_advances_its_messages_witness:
  "\<exists>w'. delete_tag 1 4 99 (process_on tagged_db) = (Inr (), w') \<and> map version (messages (wdb w')) = [2, 1]"
proof -
  have v: "1 + 1 = (2::int)" by simp
  have a: "affected_messages 4 1 tagged_db = [5]"
    by (simp add: affected_messages_def tagged_db_def inbox_def plain_message_def)
  have b: "fst (bump_affected [5] 99 1 d) = Some ()" if "messages d = messages tagged_db" for d
    using that by (simp add: bump_affected_def tagged_db_def inbox_def plain_message_def in_int64_def Let_def)
  have d: "fst (delete_owned_tag 4 1 tagged_db) = 1" "messages (snd (delete_owned_tag 4 1 tagged_db)) = messages tagged_db"
    by (simp_all add: delete_owned_tag_def tagged_db_def sql_count_def Let_def)
  obtain r w' where run: "delete_tag 1 4 99 (process_on tagged_db) = (r, w')" by fastforce
  have "\<not> isl r"
    using run d b [OF d(2)] by (auto simp: delete_tag_def delete_tag_tx_def in_tx_quiet bindA_run query_quiet exec_quiet a commit_tx_def ret_run
        pop_fault_quiet split: prod.splits sum.splits option.splits)
  moreover have "distinct (map tag_id (tags (wdb (process_on tagged_db))))" "distinct (map msg_id (messages (wdb (process_on tagged_db))))"
    by (simp_all add: tagged_db_def inbox_def plain_message_def)
  ultimately have "wdb w' = without_tag 1 4 99 tagged_db" "r = Inr ()"
    using deleting_a_tag_advances_its_messages [OF run] by (auto, cases r, auto)
  then show ?thesis
    using run by (simp add: without_tag_def tagged_db_def inbox_def plain_message_def sql_update_def)
qed

end
