(* ===== verification/Availability.thy ===== *)
theory Availability
  imports Files DeliveryLaws Scheduler Tags
begin

text \<open>
  The attachments of messages stay available. An attachment names a stored file; this theory shows that
  whatever the services of messages, uploads and files do, in any order and whatever fails, that file is
  READY, its content is in the object store, and its owner can download it.
\<close>

section \<open>What message operations do to files\<close>

definition file_ready :: "uuid \<Rightarrow> db \<Rightarrow> bool" where
  "file_ready f d \<longleftrightarrow> (\<exists>x\<in>set (file_objects d). fo_id x = f \<and> fo_status x = ObjReady)"

text \<open>They leave the object table alone, keep the invariant of the upload tables, and only attach files that
  are READY.\<close>

definition files_step :: "db \<Rightarrow> db \<Rightarrow> bool" where
  "files_step d d' \<longleftrightarrow> file_objects d' = file_objects d \<and> (uploads_ok d \<longrightarrow> uploads_ok d')
     \<and> (\<forall>a\<in>set (attachments d'). a \<in> set (attachments d) \<or> file_ready (ma_file a) d)"

lemma files_step_refl [simp]: "files_step d d"
  by (simp add: files_step_def)

lemma files_step_cong:
  assumes "files_step d d1" "file_objects d' = file_objects d1" "uploads d' = uploads d1" "parts d' = parts d1"
    "sys_settings d' = sys_settings d1"
    and "\<And>a. a \<in> set (attachments d') \<Longrightarrow> a \<in> set (attachments d1) \<or> file_ready (ma_file a) d"
  shows "files_step d d'"
  using assms uploads_ok_cong [of d' d1] by (auto simp: files_step_def)

lemma files_step_other [simp]:
  "files_step d d' \<Longrightarrow> files_step d (d'\<lparr>messages := ms\<rparr>)" "files_step d d' \<Longrightarrow> files_step d (d'\<lparr>message_tags := ts\<rparr>)"
  "files_step d d' \<Longrightarrow> files_step d (d'\<lparr>jobs := js\<rparr>)" "files_step d d' \<Longrightarrow> files_step d (d'\<lparr>idem_keys := is\<rparr>)"
  "files_step d d' \<Longrightarrow> files_step d (d'\<lparr>audit_logs := as\<rparr>)"
  by (erule files_step_cong; simp)+

lemma files_step_attach:
  "files_step d d' \<Longrightarrow> (\<And>a. a \<in> set as \<Longrightarrow> a \<in> set (attachments d') \<or> file_ready (ma_file a) d)
    \<Longrightarrow> files_step d (d'\<lparr>attachments := as\<rparr>)"
  by (erule files_step_cong; simp)

lemma files_step_uploads:
  "files_step d d' \<Longrightarrow> (\<And>u. same_shape u (g u)) \<Longrightarrow> files_step d (d'\<lparr>uploads := sql_update p g (uploads d')\<rparr>)"
  by (auto simp: files_step_def intro: uploads_ok_map)

lemma files_step_delete_messages: "files_step d d' \<Longrightarrow> files_step d (delete_messages p d')"
  by (rule files_step_cong [OF files_step_uploads [where g = "\<lambda>u. u\<lparr>consumed_message_id := None\<rparr>"]])
    (auto simp: same_shape_def delete_messages_def Let_def set_sql_delete)

lemma files_step_statements [keeps_intro]:
  "keeps (on_db (files_step d)) (save_message m)" "keeps (on_db (files_step d)) (insert_message m)"
  "keeps (on_db (files_step d)) (replace_message_tags i is)"
  "keeps (on_db (files_step d)) (claim_idempotency u opn k h now)"
  "keeps (on_db (files_step d)) (complete_idempotency x u opn k h res meta now)"
  unfolding save_message_def insert_message_def replace_message_tags_def claim_idempotency_def complete_idempotency_def
  by (intro keeps_intro; simp add: save_message_row_def insert_message_row_def delete_message_tags_def insert_message_tag_def
      delete_claim_def insert_claim_def Let_def)+

lemma files_step_attach_file:
  assumes "file_ready f d"
  shows "keeps (on_db (files_step d)) (attach_file i f name mime order detected now)"
  unfolding attach_file_def ensure_thumbnail_job_tx_def
  by (intro keeps_intro) (auto simp: insert_attachment_def insert_thumbnail_job_def assms intro!: files_step_attach)

lemma files_step_bind_each:
  assumes "\<And>u uf. rows u = Some uf \<Longrightarrow> file_ready (fo_id (snd uf)) d"
  shows "keeps (on_db (files_step d)) (bind_each i rows us order now)"
proof (induction us arbitrary: order)
  case (Cons u us)
  have "keeps (on_db (files_step d)) (bind_upload i uf order now)" if "rows u = Some uf" for uf
    unfolding bind_upload_def
    by (intro keeps_intro files_step_attach_file assms [OF that])
      (auto simp: consume_upload_def Let_def same_shape_def intro!: files_step_uploads)
  with Cons show ?case by (simp del: bindA_def) (intro keeps_intro; simp)
qed (simp add: keeps_ret)

lemma files_step_bind_uploads [keeps_intro]: "keeps (on_db (files_step d)) (bind_uploads owner i us start now)"
proof -
  have "keeps (on_db (files_step d)) (bindA (query MsgIO (uploads_for_binding owner us)) (\<lambda>rows.
        (case binding_error rows of Some e \<Rightarrow> throw e
         | None \<Rightarrow> if card (set (map (us_id \<circ> fst) rows)) \<noteq> length us then throw MsgErrValidation
             else bind_each i (\<lambda>u. by_key (us_id \<circ> fst) u (rev rows)) us start now)))" (is "keeps _ (bindA _ ?f)")
  proof (rule keeps_query_bind)
    fix w r w' assume d: "files_step d (wdb w)" and run: "?f (uploads_for_binding owner us (wdb w)) w = (r, w')"
    let ?rows = "uploads_for_binding owner us (wdb w)"
    have "keeps (on_db (files_step d)) (?f ?rows)"
    proof (intro keeps_intro files_step_bind_each)
      fix u uf assume "binding_error ?rows = None" "by_key (us_id \<circ> fst) u (rev ?rows) = Some uf"
      then have "(fst uf, snd uf) \<in> set ?rows" "fo_status (snd uf) = ObjReady"
        using by_key_SomeD [of "us_id \<circ> fst" u "rev ?rows" uf] binding_error_None [of ?rows "fst uf" "snd uf"] by simp_all
      with d show "file_ready (fo_id (snd uf)) d"
        by (auto simp: uploads_for_binding_def file_ready_def files_step_def)
    qed
    from keepsD [OF this _ run] d show "files_step d (wdb w')" by (simp add: on_db_def)
  qed
  then show ?thesis unfolding bind_uploads_def by (intro keeps_if keeps_ret keeps_throw)
qed

lemma files_step_copy_each:
  "(\<And>a f. (a, f) \<in> set items \<Longrightarrow> file_ready (ma_file a) d) \<Longrightarrow> keeps (on_db (files_step d)) (copy_each dst items now)"
proof (induction items)
  case (Cons it items)
  obtain a f where it: "it = (a, f)" by fastforce
  have "file_ready (ma_file a) d" using Cons.prems [of a f] it by simp
  moreover have "keeps (on_db (files_step d)) (copy_each dst items now)" using Cons.prems by (intro Cons.IH) auto
  ultimately show ?case unfolding it copy_each.simps by (intro keeps_intro files_step_attach_file)
qed (simp add: keeps_ret)

lemma files_step_copy_attachments [keeps_intro]: "keeps (on_db (files_step d)) (copy_attachments src dst now)"
proof -
  have "keeps (on_db (files_step d)) (bindA (query MsgIO (copyable src)) (\<lambda>items.
     bindA (copy_each dst items now) (\<lambda>job.
     bindA (query MsgIO (attachment_count dst)) (\<lambda>copied.
     if copied \<noteq> total then throw MsgErrValidation else ret job))))" (is "keeps _ (bindA _ ?f)") for total
  proof (rule keeps_query_bind)
    fix w r w' assume d: "files_step d (wdb w)" and run: "?f (copyable src (wdb w)) w = (r, w')"
    have "keeps (on_db (files_step d)) (?f (copyable src (wdb w)))"
    proof (intro keeps_intro files_step_copy_each)
      fix a f assume "(a, f) \<in> set (copyable src (wdb w))"
      with d show "file_ready (ma_file a) d"
        by (auto simp: copyable_def attachment_list_def file_ready_def files_step_def)
    qed
    from keepsD [OF this _ run] d show "files_step d (wdb w')" by (simp add: on_db_def)
  qed
  then show ?thesis unfolding copy_attachments_def by (rule keeps_bindA [OF keeps_query])
qed


lemma keeps_mutate:
  assumes "\<And>m. keeps (on_db (files_step d)) (fn m)"
  shows "keeps (on_db (files_step d)) (mutate owner i e now fn)"
  unfolding mutate_def mutate_tx_def by (intro keeps_intro assms)

lemma files_step_change [keeps_intro]:
  "keeps (on_db J) (edit_change c m)" "keeps (on_db J) (make_permanent_change m)" "keeps (on_db J) (extend_change days m)"
  "keeps (on_db J) (favorite_change fav m)" "keeps (on_db J) (sensitive_change c' rnd flag m)"
  "keeps (on_db J) (edit_sensitive_change c' rnd t b m)" "keeps (on_db J) (trash_change m p q now)"
  "keeps (on_db J) (restore_change m p q now)"
  unfolding edit_change_def clear_body_def make_permanent_change_def extend_change_def favorite_change_def
    sensitive_change_def edit_sensitive_change_def trash_change_def restore_change_def
  by (intro keeps_intro)+

lemma files_step_run_op: "keeps (on_db (files_step d)) (run_op c rnd owner i e now opr)"
proof (cases opr)
  case (TagsOp ts)
  show ?thesis unfolding TagsOp run_op.simps replace_tags_def replace_tags_tx_def by (intro keeps_intro)
qed (auto simp: edit_message_def make_permanent_def extend_expiry_def set_favorite_def trash_message_def restore_message_def
      set_sensitive_def edit_sensitive_def mutate_with_settings_def intro!: keeps_intro keeps_mutate)

lemma files_step_new_message [keeps_intro]: "keeps (on_db J) (new_message c rnd owner dev t body fmt life sens src srcm now ttl)"
  unfolding new_message_def Let_def by (intro keeps_intro)

lemma files_step_delivery [keeps_intro]:
  "keeps (on_db J) (require_recipient u)" "keeps (on_db J) (redeliver f)" "keeps (on_db J) (forwarded_body c m)"
  "keeps (on_db (files_step d)) (record_delivery sender opn key h m job now)"
  unfolding require_recipient_def redeliver_def forwarded_body_def record_delivery_def by (intro keeps_intro)+

lemma files_step_create: "keeps (on_db (files_step d)) (create_result sha c rnd owner dev cmd now)"
  unfolding create_result_def create_tx_def create_fresh_def by (intro keeps_intro)

lemma keeps_deliver [keeps_intro]: "keeps (on_db J) tx \<Longrightarrow> keeps (on_db J) (deliver tx)"
  unfolding deliver_def by (intro keeps_intro)

lemma files_step_direct: "keeps (on_db (files_step d)) (direct_send_result sha c rnd sender dev cmd now)"
  unfolding direct_send_result_def direct_send_tx_def direct_send_fresh_def by (intro keeps_intro)

lemma files_step_forward: "keeps (on_db (files_step d)) (forward_result sha c rnd sender dev cmd now)"
  unfolding forward_result_def forward_tx_def forward_fresh_def by (intro keeps_intro)

lemma keeps_detail [keeps_intro]: "keeps (on_db J) (detail owner i)"
  unfolding detail_def repo_get_message_def by (intro keeps_intro)

lemma files_step_add: "keeps (on_db (files_step d)) (add_attachments owner i e us now)"
  unfolding add_attachments_def add_attachments_tx_def by (intro keeps_intro)

lemma files_step_remove: "keeps (on_db (files_step d)) (remove_attachment owner i a e now)"
  unfolding remove_attachment_def remove_attachment_tx_def
  by (intro keeps_intro) (auto simp: delete_attachment_def Let_def set_sql_delete intro!: files_step_attach)

lemma files_step_purge: "keeps (on_db (files_step d)) (permanently_delete owner i ac now)"
  unfolding permanently_delete_def permanently_delete_tx_def
  by (intro keeps_intro) (simp_all add: insert_audit_def delete_trashed_message_def Let_def files_step_delete_messages)

lemma files_step_expire: "keeps (on_db (files_step d)) (expire_due_temporary batch now)"
  unfolding expire_due_temporary_def by (intro keeps_intro) (simp add: expire_rows_def Let_def)

section \<open>They do not touch the object store\<close>

lemma off_db_with_tx [keeps_intro]: "keeps (off_db K) body \<Longrightarrow> keeps (off_db K) (with_tx body)"
  unfolding with_tx_def by (intro keeps_intro)

lemma off_db_parts [keeps_intro]:
  "keeps (off_db K) (load_owned owner i)" "keeps (off_db K) (load_tags i)" "keeps (off_db K) (current_tag_ids i)"
  "keeps (off_db K) (validate_tags owner is)" "keeps (off_db K) message_settings" "keeps (off_db K) (load_attachments i lim)"
  "keeps (off_db K) (save_message m)" "keeps (off_db K) (insert_message m)" "keeps (off_db K) (replace_message_tags i is)"
  "keeps (off_db K) (claim_idempotency u opn k h now)" "keeps (off_db K) (complete_idempotency x u opn k h res meta now)"
  "keeps (off_db K) (require_recipient u)" "keeps (off_db K) (redeliver f)" "keeps (off_db K) (forwarded_body c m)"
  unfolding load_owned_def load_tags_def current_tag_ids_def validate_tags_def message_settings_def load_attachments_def
    save_message_def insert_message_def replace_message_tags_def claim_idempotency_def complete_idempotency_def
    require_recipient_def redeliver_def forwarded_body_def
  by (intro keeps_intro)+

lemma off_db_signal [keeps_intro]: "keeps (off_db K) (signal_jobs job)"
  unfolding signal_jobs_def by (intro keeps_intro) (simp add: off_db_def)

lemma off_db_new_message [keeps_intro]: "keeps (off_db K) (new_message c rnd owner dev t body fmt life sens src srcm now ttl)"
  unfolding new_message_def Let_def by (intro keeps_intro)

lemma off_db_change [keeps_intro]:
  "keeps (off_db K) (edit_change c m)" "keeps (off_db K) (make_permanent_change m)" "keeps (off_db K) (extend_change days m)"
  "keeps (off_db K) (favorite_change fav m)" "keeps (off_db K) (sensitive_change c' rnd flag m)"
  "keeps (off_db K) (edit_sensitive_change c' rnd t b m)" "keeps (off_db K) (trash_change m p q now)"
  "keeps (off_db K) (restore_change m p q now)"
  unfolding edit_change_def clear_body_def make_permanent_change_def extend_change_def favorite_change_def
    sensitive_change_def edit_sensitive_change_def trash_change_def restore_change_def
  by (intro keeps_intro)+

lemma off_db_mutate: "(\<And>m. keeps (off_db K) (fn m)) \<Longrightarrow> keeps (off_db K) (mutate owner i e now fn)"
  unfolding mutate_def mutate_tx_def by (intro keeps_intro)

lemma off_db_attach_file [keeps_intro]: "keeps (off_db K) (attach_file i f name mime order detected now)"
  unfolding attach_file_def ensure_thumbnail_job_tx_def by (intro keeps_intro)

lemma off_db_bind_each [keeps_intro]: "keeps (off_db K) (bind_each i rows us order now)"
proof (induction us arbitrary: order)
  case (Cons u us)
  show ?case unfolding bind_each.simps bind_upload_def by (intro keeps_intro Cons.IH)
qed (simp add: keeps_ret)

lemma off_db_copy_each [keeps_intro]: "keeps (off_db K) (copy_each dst items now)"
proof (induction items)
  case (Cons it items)
  obtain a f where it: "it = (a, f)" by fastforce
  show ?case unfolding it copy_each.simps by (intro keeps_intro Cons.IH)
qed (simp add: keeps_ret)

lemma off_db_attachments [keeps_intro]:
  "keeps (off_db K) (bind_uploads owner i us start now)" "keeps (off_db K) (copy_attachments src dst now)"
  "keeps (off_db K) (record_delivery sender opn key h m job now)" "keeps (off_db K) (detail owner i)"
  unfolding bind_uploads_def copy_attachments_def record_delivery_def detail_def repo_get_message_def by (intro keeps_intro)+

lemma off_db_deliver [keeps_intro]: "keeps (off_db K) tx \<Longrightarrow> keeps (off_db K) (deliver tx)"
  unfolding deliver_def by (intro keeps_intro)

lemma off_db_run_op: "keeps (off_db K) (run_op c rnd owner i e now opr)"
proof (cases opr)
  case (TagsOp ts)
  show ?thesis unfolding TagsOp run_op.simps replace_tags_def replace_tags_tx_def by (intro keeps_intro)
qed (auto simp: edit_message_def make_permanent_def extend_expiry_def set_favorite_def trash_message_def restore_message_def
      set_sensitive_def edit_sensitive_def mutate_with_settings_def intro!: keeps_intro off_db_mutate)

lemma off_db_services:
  "keeps (off_db K) (create_result sha c rnd owner dev cmd now)" "keeps (off_db K) (direct_send_result sha c rnd sender dev dcmd now)"
  "keeps (off_db K) (forward_result sha c rnd sender dev fcmd now)" "keeps (off_db K) (add_attachments owner i e us now)"
  "keeps (off_db K) (remove_attachment owner i a e now)" "keeps (off_db K) (permanently_delete owner i ac now)"
  "keeps (off_db K) (expire_due_temporary batch now)"
  unfolding create_result_def create_tx_def create_fresh_def direct_send_result_def direct_send_tx_def direct_send_fresh_def
    forward_result_def forward_tx_def forward_fresh_def add_attachments_def add_attachments_tx_def remove_attachment_def
    remove_attachment_tx_def permanently_delete_def permanently_delete_tx_def expire_due_temporary_def
  by (intro keeps_intro)+


section \<open>Uploads\<close>

text \<open>The object store is \<open>s\<close>.\<close>

abbreviation store_is :: "(storage_key \<times> bytes) list \<Rightarrow> world \<Rightarrow> bool" where
  "store_is s \<equiv> off_db (\<lambda>_ s'. s' = s)"

definition same_files :: "db \<Rightarrow> db \<Rightarrow> bool" where
  "same_files d d' \<longleftrightarrow> file_objects d' = file_objects d \<and> attachments d' = attachments d"

lemma store_is_ext: "(\<And>w. store (snd (f w)) = store w) \<Longrightarrow> keeps (store_is s) (ext e f)"
  by (rule keeps_ext) (simp_all add: off_db_def)

lemma store_is_staging [keeps_intro]:
  "keeps (store_is s) (stg_path i)" "keeps (store_is s) (stg_open i)" "keeps (store_is s) (stg_stat i)"
  "keeps (store_is s) (stg_sync i)" "keeps (store_is s) (stg_delete i)" "keeps (store_is s) (stg_create i n)"
  "keeps (store_is s) owned_files" "keeps (store_is s) (stg_write_at i off b)"
proof -
  show p: "keeps (store_is s) (stg_path i)" for s unfolding stg_path_def by (intro keeps_intro)
  show o: "keeps (store_is s) (stg_open i)"
    unfolding stg_open_def by (intro keeps_intro p store_is_ext) simp
  show "keeps (store_is s) (stg_stat i)" unfolding stg_stat_def by (intro keeps_intro p store_is_ext) simp
  show "keeps (store_is s) (stg_sync i)" unfolding stg_sync_def by (intro keeps_intro o store_is_ext) simp
  show "keeps (store_is s) (stg_delete i)" unfolding stg_delete_def by (intro keeps_intro p store_is_ext) simp
  show "keeps (store_is s) (stg_create i n)"
    unfolding stg_create_def by (intro keeps_intro p store_is_ext) (simp_all add: open_excl_def)
  show "keeps (store_is s) owned_files" unfolding owned_files_def by (intro store_is_ext) simp
  show "keeps (store_is s) (stg_write_at i off b)" unfolding stg_write_at_def by (intro store_is_ext) simp
qed

lemma store_is_write_pieces [keeps_intro]: "keeps (store_is s) (write_pieces i off d)"
proof (induction i off d rule: write_pieces.induct)
  case (1 i off d)
  then show ?case by (subst write_pieces.simps) (intro keeps_intro; simp)
qed

lemma store_is_reconcile_each [keeps_intro]: "keeps (store_is s) (reconcile_each is active limit k)"
  by (induction "is" active limit k rule: reconcile_each.induct) (auto intro!: keeps_intro)

lemma store_is_uploads:
  shows "keeps (store_is s) (put_part owner i n cl b acq now later)"
    and "keeps (store_is s) (expire_due_uploads batch now)"
    and "keeps (store_is s) (create_upload l probe owner cmd now)"
    and "keeps (store_is s) (repo_complete owner i now (validate_complete i))"
    and "keeps (store_is s) (get_upload owner i)"
proof -
  show "keeps (store_is s) (put_part owner i n cl b acq now later)"
    unfolding put_part_def invalidate_part_def commit_part_def commit_part_tx_def repo_get_def copy_part_def
    by (intro keeps_intro store_is_ext) simp_all
  show ex: "keeps (store_is s) (expire_due_uploads batch now)" for batch now
    unfolding expire_due_uploads_def find_due_active_uploads_def find_expired_cleanup_candidates_def
      reconcile_staging_def active_upload_ids_def delete_parts_def mark_expired_def mark_expired_tx_def
    by (intro keeps_intro)
  show "keeps (store_is s) (create_upload l probe owner cmd now)"
    unfolding create_upload_def with_create_reservation_def create_body_def insert_session_def
    by (intro keeps_intro ex)
  show "keeps (store_is s) (repo_complete owner i now (validate_complete i))"
    unfolding repo_complete_def repo_complete_tx_def validate_complete_def by (intro keeps_intro)
  show "keeps (store_is s) (get_upload owner i)"
    unfolding get_upload_def repo_get_def repo_list_parts_def by (intro keeps_intro)
qed

lemma same_files_simps [simp]:
  "same_files d (d'\<lparr>uploads := x\<rparr>) = same_files d d'" "same_files d (d'\<lparr>parts := y\<rparr>) = same_files d d'"
  "same_files d (snd (transition_upload p st now d')) = same_files d d'"
  by (simp_all add: same_files_def transition_upload_def)

lemma same_files_uploads:
  shows "keeps (on_db (same_files d)) (put_part owner i n cl b acq now later)"
    and "keeps (on_db (same_files d)) (expire_due_uploads batch now)"
    and "keeps (on_db (same_files d)) (create_upload l probe owner cmd now)"
    and "keeps (on_db (same_files d)) (repo_complete owner i now (validate_complete i))"
    and "keeps (on_db (same_files d)) (get_upload owner i)"
proof -
  show "keeps (on_db (same_files d)) (put_part owner i n cl b acq now later)"
    unfolding put_part_def invalidate_part_def commit_part_def commit_part_tx_def
    by (intro keeps_intro keeps_ext_files) (auto simp: upsert_completed_part_def)
  show ex: "keeps (on_db (same_files d)) (expire_due_uploads batch now)" for batch now
    unfolding expire_due_uploads_def find_due_active_uploads_def find_expired_cleanup_candidates_def
      reconcile_staging_def active_upload_ids_def delete_parts_def mark_expired_def mark_expired_tx_def
    by (intro keeps_intro) simp_all
  show "keeps (on_db (same_files d)) (create_upload l probe owner cmd now)"
    unfolding create_upload_def with_create_reservation_def create_body_def insert_session_def
    by (intro keeps_intro ex) (simp_all add: create_upload_session_def)
  show "keeps (on_db (same_files d)) (repo_complete owner i now (validate_complete i))"
    unfolding repo_complete_def repo_complete_tx_def by (intro keeps_intro) simp
  show "keeps (on_db (same_files d)) (get_upload owner i)" by (intro keeps_intro)
qed

section \<open>The invariant\<close>

text \<open>Objects are stored under their own keys, and the files of attachments are READY.\<close>

definition attached_ok :: "db \<Rightarrow> bool" where
  "attached_ok d \<longleftrightarrow> (\<forall>f\<in>set (file_objects d). storage_key f = ObjectKey (fo_id f))
     \<and> (\<forall>a\<in>set (attachments d). file_ready (ma_file a) d)"

definition available_ok :: "(bytes \<Rightarrow> bytes) \<Rightarrow> db \<Rightarrow> (storage_key \<times> bytes) list \<Rightarrow> bool" where
  "available_ok sha d s \<longleftrightarrow> stored_ok sha d s \<and> attached_ok d"

abbreviation available :: "(bytes \<Rightarrow> bytes) \<Rightarrow> world \<Rightarrow> bool" where
  "available sha \<equiv> on_store (available_ok sha)"

lemma keeps_conj: "keeps I m \<Longrightarrow> keeps J m \<Longrightarrow> keeps (\<lambda>w. I w \<and> J w) m"
  by (simp add: keeps_def)

lemma available_split: "available sha = (\<lambda>w. stored sha w \<and> on_db attached_ok w)"
  by (simp add: fun_eq_iff on_store_def on_db_def available_ok_def)

text \<open>Operations that leave the store alone, and their effect on the tables.\<close>

lemma keeps_available_frame:
  assumes "\<And>d. keeps (on_db (R d)) m" "\<And>s. keeps (store_is s) m" "\<And>d. R d d"
    and "\<And>d d' s. R d d' \<Longrightarrow> available_ok sha d s \<Longrightarrow> available_ok sha d' s"
  shows "keeps (available sha) m"
proof (rule keepsI)
  fix w assume a: "available sha w"
  have "R (wdb w) (wdb (snd (m w)))" using assms(1) [of "wdb w"] assms(3) by (auto simp: keeps_def on_db_def)
  moreover have "store (snd (m w)) = store w" using assms(2) [of "store w"] by (auto simp: keeps_def off_db_def)
  ultimately show "available sha (snd (m w))" using assms(4) a by (auto simp: on_store_def)
qed

lemma available_files_step:
  assumes "files_step d d'" "available_ok sha d s"
  shows "available_ok sha d' s"
  using assms
  by (auto simp: available_ok_def stored_ok_def attached_ok_def files_step_def objects_ok_def content_ok_def file_ready_def)

lemma keeps_available_message:
  "(\<And>d. keeps (on_db (files_step d)) m) \<Longrightarrow> (\<And>s. keeps (store_is s) m) \<Longrightarrow> keeps (available sha) m"
  by (rule keeps_available_frame [of files_step]) (auto intro: available_files_step)

lemma keeps_available_upload:
  assumes "keeps (on_db uploads_ok) m" "\<And>d. keeps (on_db (same_files d)) m" "\<And>s. keeps (store_is s) m"
  shows "keeps (available sha) m"
proof (rule keepsI)
  fix w assume a: "available sha w"
  let ?w = "snd (m w)"
  have "uploads_ok (wdb ?w)"
    using assms(1) a by (auto simp: keeps_def on_db_def on_store_def available_ok_def stored_ok_def)
  moreover have "same_files (wdb w) (wdb ?w)" using assms(2) [of "wdb w"] by (auto simp: keeps_def on_db_def same_files_def)
  moreover have "store ?w = store w" using assms(3) [of "store w"] by (auto simp: keeps_def off_db_def)
  ultimately show "available sha ?w" using a
    by (auto simp: on_store_def available_ok_def stored_ok_def attached_ok_def same_files_def objects_ok_def content_ok_def file_ready_def)
qed

lemma attached_ok_statements:
  "attached_ok d \<Longrightarrow> attached_ok (snd (ready_object ob now d))"
  "attached_ok d \<Longrightarrow> attached_ok (snd (insert_pending (new_object i h n mime now) d))"
  "attached_ok d \<Longrightarrow> attached_ok (snd (delete_unreferenced_pending i d))"
  "attached_ok d \<Longrightarrow> attached_ok (snd (delete_pending i d))"
  "attached_ok d \<Longrightarrow> attached_ok (d\<lparr>uploads := us\<rparr>)"
proof -
  assume ok: "attached_ok d"
  have same: "attached_ok d'" if "attachments d' = attachments d"
    and "\<forall>f\<in>set (file_objects d'). storage_key f = ObjectKey (fo_id f)"
    and "\<And>f. f \<in> set (file_objects d) \<Longrightarrow> fo_status f = ObjReady \<Longrightarrow> f \<in> set (file_objects d')" for d'
    using ok that(1,2) that(3) unfolding attached_ok_def file_ready_def by metis
  show "attached_ok (snd (ready_object ob now d))"
    by (rule same) (use ok in \<open>auto simp: ready_object_def Let_def set_sql_update attached_ok_def image_iff\<close>)
  show "attached_ok (snd (insert_pending (new_object i h n mime now) d))"
    by (rule same) (use ok in \<open>auto simp: insert_pending_def new_object_def attached_ok_def\<close>)
  show "attached_ok (snd (delete_unreferenced_pending i d))"
    by (rule same) (use ok in \<open>auto simp: delete_unreferenced_pending_def Let_def set_sql_delete attached_ok_def\<close>)
  show "attached_ok (snd (delete_pending i d))"
    by (rule same) (use ok in \<open>auto simp: delete_pending_def set_sql_delete attached_ok_def\<close>)
  show "attached_ok (d\<lparr>uploads := us\<rparr>)"
    by (rule same) (use ok in \<open>auto simp: attached_ok_def\<close>)
qed

lemma keeps_available_finalize: "keeps (available sha) (finalize sha detect acquired space now u)"
  unfolding available_split
  by (intro keeps_conj keeps_finalize keeps_db_finalize_rows attached_ok_statements)
    (simp_all add: transition_upload_def complete_session_def Let_def attached_ok_statements)

lemma keeps_available_complete:
  "keeps (available sha) (complete_upload healthy (Some (finalize sha detect acquired space now)) owner i now')"
proof -
  have "keeps (on_db uploads_ok) (repo_complete owner i now' (validate_complete i))"
    unfolding repo_complete_def repo_complete_tx_def by (intro keeps_intro uploads_ok_transition)
  then have "keeps (available sha) (repo_complete owner i now' (validate_complete i))"
    by (rule keeps_available_upload [OF _ same_files_uploads(4) store_is_uploads(4)])
  moreover have "keeps (available sha) (get_upload owner j)" for j
    by (rule keeps_available_upload [OF _ same_files_uploads(5) store_is_uploads(5)]) (intro keeps_intro)
  ultimately show ?thesis
    unfolding complete_upload_def by (intro keeps_intro) (auto intro!: keeps_available_finalize)
qed


section \<open>Collection and reconciliation\<close>

lemma db_only_gc_mark: "db_only (bindA (exec FIO (delete_leases now)) (\<lambda>_.
      bindA (query FIO (gc_candidates now batch)) (\<lambda>is.
      bindA (forA is (\<lambda>i. exec FIO (mark_deleting now i))) commit_tx)))"
  by (rule db_onlyI, intro keeps_intro)

lemma available_delete_leases: "available_ok sha d s \<Longrightarrow> available_ok sha (snd (delete_leases now d)) s"
proof -
  assume a: "available_ok sha d s"
  let ?gone = "map us_id (filter (lease_over now) (uploads d))"
  let ?d = "snd (delete_leases now d)"
  have "uploads_ok d" using a by (simp add: available_ok_def stored_ok_def)
  moreover have "part_fits ?d p" if "part_fits d p" "part_upload p \<notin> set ?gone" for p
    using that by (force simp: part_fits_def delete_leases_def Let_def set_sql_delete)
  ultimately have "uploads_ok ?d"
    by (auto simp: uploads_ok_def delete_leases_def Let_def set_sql_delete distinct_sql_delete settings_ok_def)
  with a show ?thesis
    by (auto simp: available_ok_def stored_ok_def attached_ok_def objects_ok_def content_ok_def file_ready_def
        delete_leases_def Let_def)
qed

lemma objects_update:
  assumes "objects_ok d"
    and "\<And>f. p f \<Longrightarrow> fo_id (g f) = fo_id f \<and> sha256 (g f) = sha256 f \<and> size_bytes (g f) = size_bytes f"
  shows "objects_ok (d\<lparr>file_objects := sql_update p g (file_objects d)\<rparr>)"
proof -
  have "map fo_id (sql_update p g (file_objects d)) = map fo_id (file_objects d)"
    "map (\<lambda>x. (sha256 x, size_bytes x)) (sql_update p g (file_objects d)) = map (\<lambda>x. (sha256 x, size_bytes x)) (file_objects d)"
    by (intro map_key_sql_update; use assms(2) in simp)+
  with assms show ?thesis by (auto simp: objects_ok_def set_sql_update)
qed

lemma available_mark_deleting: "available_ok sha d s \<Longrightarrow> available_ok sha (snd (mark_deleting now i d)) s"
proof -
  assume a: "available_ok sha d s"
  let ?d = "snd (mark_deleting now i d)"
  have "objects_ok ?d" using a unfolding mark_deleting_def snd_conv
    by (intro objects_update) (auto simp: available_ok_def stored_ok_def)
  moreover have "content_ok sha ?d s"
    using a by (auto simp: available_ok_def stored_ok_def content_ok_holds mark_deleting_def set_sql_update)
  moreover have "attached_ok ?d"
  proof -
    have "file_ready (ma_file b) ?d" if b: "b \<in> set (attachments d)" for b
    proof -
      obtain x where x: "x \<in> set (file_objects d)" "fo_id x = ma_file b" "fo_status x = ObjReady"
        using a b by (auto simp: available_ok_def attached_ok_def file_ready_def)
      have "\<not> (fo_id x = i \<and> collectable now d i)" using b x(2) by (auto simp: collectable_def sql_exists_iff)
      with x show ?thesis by (auto simp: file_ready_def mark_deleting_def set_sql_update image_iff intro!: bexI [of _ x])
    qed
    then show ?thesis using a by (auto simp: available_ok_def attached_ok_def mark_deleting_def set_sql_update)
  qed
  ultimately show ?thesis using a by (simp add: available_ok_def stored_ok_def mark_deleting_def)
qed

lemma keeps_available_gc_mark: "keeps (available sha) (gc_mark batch now)"
  unfolding gc_mark_def
  by (intro keeps_on_store_tx db_only_gc_mark keeps_intro available_delete_leases available_mark_deleting)

text \<open>What a page knows of its objects, and what no step of the page changes.\<close>

definition still :: "db \<Rightarrow> file_object \<Rightarrow> bool" where
  "still d f \<longleftrightarrow> storage_key f = ObjectKey (fo_id f) \<and> fo_status f \<noteq> ObjReady
     \<and> (\<forall>x\<in>set (file_objects d). fo_id x = fo_id f \<longrightarrow> sha256 x = sha256 f \<and> size_bytes x = size_bytes f
          \<and> (fo_status f = ObjDeleting \<longrightarrow> fo_status x = ObjDeleting))"

definition in_page :: "(bytes \<Rightarrow> bytes) \<Rightarrow> file_object list \<Rightarrow> db \<Rightarrow> (storage_key \<times> bytes) list \<Rightarrow> bool" where
  "in_page sha fs d s \<longleftrightarrow> available_ok sha d s \<and> (\<forall>f\<in>set fs. still d f)"

lemma still_unsettled:
  assumes "available_ok sha d s" "f \<in> set (unsettled_objects c n d)"
  shows "still d f"
proof -
  from assms(2) have f: "f \<in> set (file_objects d)" "fo_status f \<noteq> ObjReady"
    by (auto simp: unsettled_objects_def dest: in_set_takeD)
  moreover have "distinct (map fo_id (file_objects d))" using assms(1) by (simp add: available_ok_def stored_ok_def objects_ok_def)
  ultimately have "x = f" if "x \<in> set (file_objects d)" "fo_id x = fo_id f" for x
    using that by (metis distinct_map inj_onD)
  with f assms(1) show ?thesis by (auto simp: still_def available_ok_def attached_ok_def)
qed

lemma in_page_temp: "in_page sha fs d s \<Longrightarrow> in_page sha fs d (blob_del (CommitTempKey i) s)"
  by (simp add: in_page_def available_ok_def stored_temp)

lemma in_page_del:
  assumes "in_page sha fs d s" "\<And>x. x \<in> set (file_objects d) \<Longrightarrow> fo_status x = ObjReady \<Longrightarrow> k \<noteq> ObjectKey (fo_id x)"
  shows "in_page sha fs d (blob_del k s)"
  using assms by (auto simp: in_page_def available_ok_def stored_ok_def content_ok_def blob_get_del)

lemma in_page_delete_rows:
  assumes "in_page sha fs d s" "\<And>x. x \<in> set (file_objects d) \<Longrightarrow> p x \<Longrightarrow> fo_status x \<noteq> ObjReady"
  shows "in_page sha fs (d\<lparr>file_objects := sql_delete p (file_objects d)\<rparr>) s"
proof -
  have "file_ready i (d\<lparr>file_objects := sql_delete p (file_objects d)\<rparr>)" if "file_ready i d" for i
    using that assms(2) by (auto simp: file_ready_def set_sql_delete)
  with assms(1) show ?thesis
    by (auto simp: in_page_def available_ok_def stored_delete attached_ok_def still_def set_sql_delete)
qed

lemma in_page_make_ready:
  assumes "in_page sha fs d s" "still d f" "holds_object sha (fo_id f) (sha256 f) (size_bytes f) s"
  shows "in_page sha fs (snd (make_ready now (fo_id f) d)) s"
proof -
  let ?d = "snd (make_ready now (fo_id f) d)"
  have "objects_ok ?d" using assms(1) unfolding make_ready_def snd_conv
    by (intro objects_update) (auto simp: in_page_def available_ok_def stored_ok_def)
  moreover have "content_ok sha ?d s"
    using assms by (auto simp: in_page_def available_ok_def stored_ok_def content_ok_holds make_ready_def set_sql_update still_def)
  moreover have "file_ready i ?d" if r: "file_ready i d" for i
  proof -
    obtain x where x: "x \<in> set (file_objects d)" "fo_id x = i" "fo_status x = ObjReady" using r by (auto simp: file_ready_def)
    then show ?thesis by (auto simp: file_ready_def make_ready_def set_sql_update image_iff intro!: bexI [of _ x])
  qed
  ultimately show ?thesis using assms(1)
    by (auto simp: in_page_def available_ok_def stored_ok_def attached_ok_def still_def make_ready_def set_sql_update)
qed

lemma in_page_sessions:
  assumes "in_page sha fs d s"
  shows "in_page sha fs (d\<lparr>uploads := sql_update q (\<lambda>u. u\<lparr>file_object_id := None\<rparr>) (uploads d)\<rparr>) s"
  using assms uploads_ok_map [of d "\<lambda>u. u\<lparr>file_object_id := None\<rparr>" q]
  by (simp add: in_page_def available_ok_def stored_ok_def same_shape_def objects_ok_def content_ok_def attached_ok_def
      file_ready_def still_def)

lemma keeps_delete_object:
  assumes f: "f \<in> set fs" "fo_status f = ObjDeleting"
  shows "keeps (on_store (in_page sha fs)) (delete_object f)"
proof -
  have "in_page sha fs (snd (delete_object_row (fo_id f) d)) s" if p: "in_page sha fs d s" for d s
  proof -
    let ?p = "\<lambda>x. fo_id x = fo_id f \<and> fo_status x = ObjDeleting \<and> \<not> sql_exists (\<lambda>a. ma_file a = fo_id f) (attachments d)"
    let ?d = "d\<lparr>file_objects := sql_delete ?p (file_objects d)\<rparr>"
    have d: "in_page sha fs ?d s" using p by (rule in_page_delete_rows) simp
    from d in_page_sessions [OF d, of "\<lambda>u. file_object_id u = Some (fo_id f)"] p show ?thesis
      by (simp add: delete_object_row_def Let_def)
  qed
  moreover have "in_page sha fs d (blob_del (storage_key f) s)" if "in_page sha fs d s" for d s
    using that f by (intro in_page_del) (auto simp: in_page_def still_def)
  moreover have "in_page sha fs d (blob_del k s)" if "in_page sha fs d s" "derivative_key_ok k" for d s k
    using that by (intro in_page_del) (auto simp: derivative_key_ok_def)
  moreover have "in_page sha fs (snd (delete_derivative i j d)) s" if "in_page sha fs d s" for d s i j
    using that by (auto simp: delete_derivative_def in_page_def available_ok_def stored_ok_def objects_ok_def content_ok_def
        attached_ok_def file_ready_def still_def uploads_ok_def settings_ok_def part_fits_def)
  ultimately show ?thesis
    unfolding delete_object_def by (intro keeps_intro keeps_store_delete) auto
qed

lemma keeps_reconcile_pending_object:
  assumes f: "f \<in> set fs"
  shows "keeps (on_store (in_page sha fs)) (reconcile_pending_object sha now f)"
proof (rule keepsI)
  let ?P = "in_page sha fs" and ?k = "storage_key f"
  let ?Q = "\<lambda>r. on_store (\<lambda>d s. ?P d s \<and> (\<forall>n. r = Inr n \<longrightarrow> (\<exists>b. blob_get ?k s = Some b \<and> int (length b) = n)))"
  have stat: "triple (on_store ?P) (tryA (store_stat ?k)) ?Q (on_store ?P)"
    by (rule triple_try [where F = "on_store ?P"], rule triple_weaken [OF store_read_result(2)]) (auto simp: on_store_def)
  have rest: "triple (?Q r) (case r of
           Inl e \<Rightarrow>
             if e = StErrNotFound then
               bindA (tryA (store_delete (CommitTempKey (fo_id f)))) (\<lambda>(_ :: storage_err + unit).
               exec FIO (remove_pending (fo_id f)))
             else throw FErrStorageUnavailable
         | Inr n \<Rightarrow>
             if n \<noteq> size_bytes f then throw FErrStorageIntegrity
             else bindA (mapErr (\<lambda>_. FErrStorageUnavailable) (store_read ?k)) (\<lambda>b.
               if sha b \<noteq> sha256 f then throw FErrStorageIntegrity
               else exec FIO (make_ready now (fo_id f)))) (\<lambda>_. on_store ?P) (on_store ?P)" for r :: "storage_err + int"
  proof (cases r)
    case (Inl e)
    have "triple (on_store ?P) (tryA (store_delete (CommitTempKey (fo_id f)))) (\<lambda>_. on_store ?P) (on_store ?P)"
      by (rule triple_keeps) (intro keeps_intro keeps_store_delete in_page_temp)
    then have "triple (?Q (Inl e)) (tryA (store_delete (CommitTempKey (fo_id f)))) (\<lambda>_. on_store ?P) (on_store ?P)"
      by (rule triple_pre) (simp add: on_store_def)
    moreover have "triple (on_store ?P) (exec FIO (remove_pending (fo_id f))) (\<lambda>_. on_store ?P) (on_store ?P)"
      by (rule triple_keeps) (auto simp: remove_pending_def intro!: keeps_intro in_page_delete_rows)
    ultimately show ?thesis
      unfolding Inl sum.case by (intro triple_if triple_bind triple_throw) (auto simp: on_store_def)
  next
    case (Inr n)
    let ?R = "\<lambda>b. on_store (\<lambda>d s. (?P d s \<and> (\<exists>b. blob_get ?k s = Some b \<and> int (length b) = n)) \<and> blob_get ?k s = Some b)"
    have q: "?Q r = on_store (\<lambda>d s. ?P d s \<and> (\<exists>b. blob_get ?k s = Some b \<and> int (length b) = n))"
      by (simp add: Inr)
    have rd: "triple (?Q r) (mapErr (\<lambda>_. FErrStorageUnavailable) (store_read ?k)) ?R (on_store ?P)"
      unfolding q
      by (rule triple_mapErr, rule triple_weaken [OF store_read_result(1) [where P = "\<lambda>d s. ?P d s
          \<and> (\<exists>b. blob_get ?k s = Some b \<and> int (length b) = n)"]]) (auto simp: on_store_def)
    have up: "triple (?R b) (exec FIO (make_ready now (fo_id f))) (\<lambda>_. on_store ?P) (on_store ?P)"
      if "n = size_bytes f" "sha b = sha256 f" for b
    proof (rule triple_exec)
      fix d s assume h: "(?P d s \<and> (\<exists>b. blob_get ?k s = Some b \<and> int (length b) = n)) \<and> blob_get ?k s = Some b"
      then have "still d f" using f by (simp add: in_page_def)
      with h that show "?P (snd (make_ready now (fo_id f) d)) s"
        by (intro in_page_make_ready) (auto simp: still_def holds_object_def)
      then show "?P (snd (make_ready now (fo_id f) d)) s" .
    qed simp
    show ?thesis
      unfolding Inr sum.case
      by (intro triple_if triple_bind [OF rd [unfolded Inr]] up triple_throw) (auto simp: on_store_def)
  qed
  fix w assume "on_store ?P w"
  moreover have "triple (on_store ?P) (reconcile_pending_object sha now f) (\<lambda>_. on_store ?P) (on_store ?P)"
    unfolding reconcile_pending_object_def by (intro triple_if triple_throw triple_bind [OF stat rest])
  ultimately show "on_store ?P (snd (reconcile_pending_object sha now f w))" by (rule triple_any [rotated])
qed

lemma keeps_reconcile_page:
  "set gs \<subseteq> set fs \<Longrightarrow> (\<And>f. f \<in> set fs \<Longrightarrow> fo_status f \<noteq> ObjReady) \<Longrightarrow>
     keeps (on_store (in_page sha fs)) (reconcile_page sha now room gs)"
proof (induction sha now room gs rule: reconcile_page.induct)
  case (2 sha now room f gs)
  have "keeps (on_store (in_page sha fs)) (reconcile_object sha now f)"
    unfolding reconcile_object_def using 2(3,4)
    by (intro keeps_if keeps_reconcile_pending_object keeps_delete_object) (auto, metis object_status.exhaust)
  with 2 show ?case unfolding reconcile_page.simps by (intro keeps_intro) auto
qed (simp add: keeps_ret)

lemma keeps_available_page:
  assumes "\<And>d s. P d s \<Longrightarrow> available_ok sha d s \<and> (\<forall>f\<in>set fs. still d f)"
  shows "triple (on_store P) (reconcile_page sha now room fs) (\<lambda>_. available sha) (available sha)"
proof (cases "\<forall>f\<in>set fs. fo_status f \<noteq> ObjReady")
  case True
  then have "triple (on_store (in_page sha fs)) (reconcile_page sha now room fs)
      (\<lambda>_. on_store (in_page sha fs)) (on_store (in_page sha fs))"
    by (intro triple_keeps keeps_reconcile_page) auto
  then show ?thesis by (rule triple_weaken) (use assms in \<open>auto simp: on_store_def in_page_def\<close>)
next
  case False
  then have "\<not> P d s" for d s using assms [of d s] by (auto simp: still_def)
  then show ?thesis by (simp add: triple_def on_store_def)
qed

lemma keeps_reconcile_pages: "keeps (available sha) (reconcile_pages k sha now c room)"
proof (induction k arbitrary: c room)
  case (Suc k)
  let ?Q = "\<lambda>r. on_store (\<lambda>d s. available_ok sha d s \<and> (\<forall>fs. r = Inr fs \<longrightarrow> (\<forall>f\<in>set fs. still d f)))"
  have q: "triple (available sha) (tryA (query FIO (unsettled_objects c room))) ?Q (available sha)"
    by (rule triple_try [where F = "available sha"], rule triple_weaken [OF triple_query])
      (auto simp: on_store_def dest: still_unsettled)
  have "triple (?Q r) (case r of Inl e \<Rightarrow> ret (Some [e]) | Inr [] \<Rightarrow> ret (Some [])
         | Inr (f # fs) \<Rightarrow>
             bindA (reconcile_page sha now room (f # fs)) (\<lambda>(n, es).
             bindA (reconcile_pages k sha now (Some (object_position (last (f # fs)))) (room - n)) (\<lambda>rest.
             ret (map_option (\<lambda>es'. es @ es') rest)))) (\<lambda>_. available sha) (available sha)"
    for r :: "file_err + file_object list"
  proof (cases r)
    case (Inr fs)
    show ?thesis
    proof (cases fs)
      case (Cons g gs)
      have "keeps (available sha) (case p of (n, es) \<Rightarrow>
             bindA (reconcile_pages k sha now (Some (object_position (last (g # gs)))) (room - n)) (\<lambda>rest.
             ret (map_option (\<lambda>es'. es @ es') rest)))" for p by (intro keeps_intro Suc)
      then have "triple (?Q (Inr (g # gs))) (bindA (reconcile_page sha now room (g # gs)) (\<lambda>(n, es).
             bindA (reconcile_pages k sha now (Some (object_position (last (g # gs)))) (room - n)) (\<lambda>rest.
             ret (map_option (\<lambda>es'. es @ es') rest)))) (\<lambda>_. available sha) (available sha)"
        by (intro triple_bind [OF keeps_available_page] triple_keeps) auto
      then show ?thesis unfolding Inr Cons sum.case list.case .
    qed (auto simp: Inr on_store_def intro!: triple_ret)
  qed (auto simp: on_store_def intro!: triple_ret)
  then have "triple (available sha) (reconcile_pages (Suc k) sha now c room) (\<lambda>_. available sha) (available sha)"
    unfolding reconcile_pages.simps by (intro triple_if triple_ret triple_bind [OF q])
  then show ?case by (metis keepsI triple_any)
qed (simp add: keeps_ret)

lemma keeps_cleanup_each: "keeps (available sha) (cleanup_each is)"
proof (induction "is" rule: cleanup_each.induct)
  case (2 i "is")
  have "keeps (available sha) (store_delete (CommitTempKey i))"
    by (rule keeps_store_delete) (simp add: available_ok_def stored_temp)
  with 2 show ?case unfolding cleanup_each.simps by (intro keeps_intro) (auto split: bool.split intro!: keeps_intro)
qed (simp add: keeps_ret)

lemma keeps_available_gc:
  "keeps (available sha) (reconcile_objects sha now batch)" "keeps (available sha) (gc sha batch now dbnow)"
proof -
  have "keeps (available sha) list_commit_temps"
    unfolding list_commit_temps_def by (intro keeps_ext) (simp_all add: on_store_def)
  then have "keeps (available sha) cleanup_temps" unfolding cleanup_temps_def by (intro keeps_intro keeps_cleanup_each)
  then show r: "keeps (available sha) (reconcile_objects sha now batch)" for now
    unfolding reconcile_objects_def by (intro keeps_intro keeps_reconcile_pages)
  show "keeps (available sha) (gc sha batch now dbnow)" unfolding gc_def by (intro keeps_intro keeps_available_gc_mark r)
qed


section \<open>The services together\<close>

text \<open>
  One step is one call of a service with any arguments, or something outside the services: new identifiers, a new
  script of failures, a crash that leaves the staging directory in any state. Each call runs without another one in
  between; the transactions of the code are serialised by their locks.
\<close>

inductive service_step :: "(bytes \<Rightarrow> bytes) \<Rightarrow> world \<Rightarrow> world \<Rightarrow> bool" for sha :: "bytes \<Rightarrow> bytes" where
  outside: "service_step sha w (w\<lparr>faults := fs, ids := is, staging := st\<rparr>)"
| change_message: "service_step sha w (snd (run_op c rnd owner i e now opr w))"
| create: "service_step sha w (snd (create_result sha c rnd owner dev ccmd now w))"
| direct_send: "service_step sha w (snd (direct_send_result sha c rnd owner dev dcmd now w))"
| forward: "service_step sha w (snd (forward_result sha c rnd owner dev fcmd now w))"
| attach: "service_step sha w (snd (add_attachments owner i e us now w))"
| detach: "service_step sha w (snd (remove_attachment owner i a e now w))"
| purge: "service_step sha w (snd (permanently_delete owner i ac now w))"
| expire: "service_step sha w (snd (expire_due_temporary batch now w))"
| new_upload: "service_step sha w (snd (create_upload l probe owner ucmd now w))"
| part: "service_step sha w (snd (put_part owner i n len bd acquired now later w))"
| complete: "service_step sha w (snd (complete_upload healthy (Some (finalize sha detect acquired room now)) owner i later w))"
| expire_uploads: "service_step sha w (snd (expire_due_uploads batch now w))"
| settings: "service_step sha w (snd (settings_update actor s now w))"
| collect: "service_step sha w (snd (gc sha batch now dbnow w))"
| reconcile: "service_step sha w (snd (reconcile_objects sha now batch w))"
| claim_job: "service_step sha w (snd (claim now w))"
| end_job: "service_step sha w (snd (complete_job i now w))"
| fail_job: "service_step sha w (snd (fail_job j code summary perm now mx w))"
| recover_jobs: "service_step sha w (snd (recover_stuck now timeout mx batch w))"
| enqueue_jobs: "service_step sha w (snd (enqueue_missing_thumbnail_jobs now batch w))"
| maintain: "service_step sha w (snd (run_once sha free now upnow dbnow w))"
| remove_user: "service_step sha w (snd (delete_user adm i now w))"
| new_tag: "service_step sha w (snd (create_tag lower owner name color now w))"
| change_tag: "service_step sha w (snd (update_tag lower owner i name' color' now w))"
| remove_tag: "service_step sha w (snd (delete_tag owner i now w))"

inductive service_run :: "(bytes \<Rightarrow> bytes) \<Rightarrow> world \<Rightarrow> world \<Rightarrow> bool" for sha :: "bytes \<Rightarrow> bytes" and w :: world where
  start: "service_run sha w w"
| step: "service_run sha w v \<Longrightarrow> service_step sha v v' \<Longrightarrow> service_run sha w v'"

lemma files_step_jobs [simp]: "files_step d d' \<Longrightarrow> files_step d (d'\<lparr>derivatives := xs\<rparr>)"
  "files_step d d' \<Longrightarrow> files_step d (snd (fail_derivatives fs now d'))"
  "files_step d d' \<Longrightarrow> files_step d (snd (update_jobs p f d'))"
  "files_step d d' \<Longrightarrow> files_step d (snd (insert_thumbnail_job i k now d'))"
  by (erule files_step_cong; auto simp: fail_derivatives_def update_jobs_def insert_thumbnail_job_def split: if_splits)+

lemma available_ensure_all:
  "keeps (on_db (files_step d)) (ensure_all fs now)" "keeps (off_db K) (ensure_all fs now)"
  by (induction fs now rule: ensure_all.induct) (unfold ensure_all.simps ensure_thumbnail_job_tx_def, intro keeps_intro; simp)+

lemma available_jobs:
  "keeps (available sha) (claim now)" "keeps (available sha) (complete_job i now)"
  "keeps (available sha) (fail_job j code summary perm now mx)" "keeps (available sha) (recover_stuck now timeout mx batch)"
  "keeps (available sha) (enqueue_missing_thumbnail_jobs now batch)"
proof -
  show "keeps (available sha) (claim now)"
    unfolding claim_def by (rule keeps_available_message; intro keeps_intro) (auto split: option.split)
  show "keeps (available sha) (complete_job i now)"
    unfolding complete_job_def reconcile_complete_def by (rule keeps_available_message; intro keeps_intro) simp_all
  show "keeps (available sha) (fail_job j code summary perm now mx)"
    unfolding fail_job_def reconcile_fail_def by (rule keeps_available_message; intro keeps_intro) simp_all
  show "keeps (available sha) (recover_stuck now timeout mx batch)"
    unfolding recover_stuck_def by (rule keeps_available_message; intro keeps_intro) (auto simp: recover_update_def Let_def)
  show "keeps (available sha) (enqueue_missing_thumbnail_jobs now batch)"
    unfolding enqueue_missing_thumbnail_jobs_def by (rule keeps_available_message; intro keeps_intro available_ensure_all)
qed

text \<open>New settings are valid ones, and that is all the upload tables ask of them.\<close>

definition settings_step :: "db \<Rightarrow> db \<Rightarrow> bool" where
  "settings_step d d' \<longleftrightarrow> same_files d d' \<and> uploads d' = uploads d \<and> parts d' = parts d"

lemma settings_step_simps [simp]:
  "settings_step d d" "settings_step d d' \<Longrightarrow> settings_step d (d'\<lparr>sys_settings := s\<rparr>)"
  "settings_step d d' \<Longrightarrow> settings_step d (snd (insert_audit r d'))"
  by (auto simp: settings_step_def insert_audit_def same_files_def)

lemma available_settings: "keeps (available sha) (settings_update actor s now)"
proof (rule keepsI)
  fix w assume a: "available sha w"
  let ?w = "snd (settings_update actor s now w)"
  have "keeps (on_db (settings_step (wdb w))) (settings_update actor s now)"
    unfolding settings_update_def settings_update_tx_def settings_get_def record_event_def by (intro keeps_intro) simp_all
  then have "settings_step (wdb w) (wdb ?w)" by (simp add: keeps_def on_db_def)
  moreover have "settings_ok (wdb ?w)"
    using a keeps_settings_update by (auto simp: keeps_def on_db_def on_store_def available_ok_def stored_ok_def uploads_ok_def)
  moreover have "keeps (store_is (store w)) (settings_update actor s now)"
    unfolding settings_update_def settings_update_tx_def settings_get_def record_event_def by (intro keeps_intro)
  then have "store ?w = store w" by (simp add: keeps_def off_db_def)
  ultimately show "available sha ?w" using a
    by (auto simp: on_store_def available_ok_def stored_ok_def attached_ok_def settings_step_def same_files_def objects_ok_def
        content_ok_def file_ready_def uploads_ok_def part_fits_def)
qed

subsection \<open>Deleting a user\<close>

lemma uploads_ok_delete_user:
  assumes ok: "uploads_ok d"
  shows "uploads_ok (d\<lparr>uploads := sql_delete p (uploads d),
     parts := sql_delete (\<lambda>x. part_upload x \<in> set (map us_id (filter p (uploads d)))) (parts d)\<rparr>)"
proof -
  let ?d = "d\<lparr>uploads := sql_delete p (uploads d),
     parts := sql_delete (\<lambda>x. part_upload x \<in> set (map us_id (filter p (uploads d)))) (parts d)\<rparr>"
  have "part_fits ?d x" if "x \<in> set (parts d)" "part_upload x \<notin> set (map us_id (filter p (uploads d)))" for x
  proof -
    from ok that(1) obtain u where "u \<in> set (uploads d)" "us_id u = part_upload x" "0 \<le> part_number x"
      "part_number x < part_count u" "part_size x = part_size_of u (part_number x)"
      by (auto simp: uploads_ok_def part_fits_def)
    moreover from this that(2) have "\<not> p u" by (force simp: image_iff)
    ultimately have "u \<in> set (uploads ?d) \<and> us_id u = part_upload x \<and> 0 \<le> part_number x
      \<and> part_number x < part_count u \<and> part_size x = part_size_of u (part_number x)" by (simp add: set_sql_delete)
    then show ?thesis unfolding part_fits_def by blast
  qed
  with ok show ?thesis by (auto simp: uploads_ok_def set_sql_delete distinct_sql_delete settings_ok_def)
qed

lemma uploads_user_delete_messages: "map (\<lambda>u. (us_id u, us_user u)) (uploads (delete_messages p d)) = map (\<lambda>u. (us_id u, us_user u)) (uploads d)"
  by (simp add: delete_messages_def Let_def map_key_sql_update)

lemma files_step_delete_user: "files_step d d' \<Longrightarrow> files_step d (delete_user_rows i d')"
proof -
  assume f: "files_step d d'"
  let ?d1 = "delete_messages (\<lambda>m. owner_id m = i) d'" and ?p = "\<lambda>u. us_user u = i"
  let ?e = "?d1\<lparr>uploads := sql_delete ?p (uploads ?d1),
     parts := sql_delete (\<lambda>x. part_upload x \<in> set (map us_id (filter ?p (uploads ?d1)))) (parts ?d1)\<rparr>"
  have f1: "files_step d ?d1" using f by (rule files_step_delete_messages)
  have "map us_id (filter ?p (uploads ?d1)) = map us_id (filter ?p (uploads d'))"
    using uploads_user_delete_messages [of "\<lambda>m. owner_id m = i" d']
    by (rule_tac filter_map_cong [where P = "\<lambda>u. u = i" and g = us_user]) (auto dest: arg_cong [where f = "map fst"] arg_cong [where f = "map snd"] simp: comp_def)
  then have e: "uploads (delete_user_rows i d') = uploads ?e" "parts (delete_user_rows i d') = parts ?e"
    by (simp_all add: delete_user_rows_def Let_def del: set_map) (simp add: delete_messages_def Let_def)
  have "settings_ok (delete_user_rows i d') = settings_ok ?e"
    by (simp add: settings_ok_def settings_validate_def delete_user_rows_def Let_def) (simp add: delete_messages_def Let_def)
  with e have "uploads_ok (delete_user_rows i d') = uploads_ok ?e" by (simp only: uploads_ok_def part_fits_def)
  then have "uploads_ok ?d1 \<Longrightarrow> uploads_ok (delete_user_rows i d')" using uploads_ok_delete_user by blast
  then show ?thesis using f1 by (simp add: files_step_def delete_user_rows_def Let_def)
qed

lemma files_step_accounts [simp]:
  "files_step d d' \<Longrightarrow> files_step d (snd (revoke_sessions_of i now d'))"
  "files_step d d' \<Longrightarrow> files_step d (snd (delete_user_row i d'))"
  "files_step d d' \<Longrightarrow> files_step d (snd (insert_audit r d'))"
  "files_step d d' \<Longrightarrow> files_step d (snd (delete_expired_challenges t n d'))"
proof -
  assume f: "files_step d d'"
  show "files_step d (snd (revoke_sessions_of i now d'))"
    by (rule files_step_cong [OF f]) (simp_all add: revoke_sessions_of_def)
  show "files_step d (snd (delete_user_row i d'))"
    using f files_step_delete_user [OF f, of i] by (simp add: delete_user_row_def Let_def)
  show "files_step d (snd (insert_audit r d'))" using f by (simp add: insert_audit_def)
  show "files_step d (snd (delete_expired_challenges t n d'))"
    by (rule files_step_cong [OF f]) (simp_all add: delete_expired_challenges_def Let_def)
qed

lemma available_delete_user: "keeps (available sha) (delete_user adm i now)"
  unfolding delete_user_def delete_user_tx_def record_event_def
  by (rule keeps_available_message; intro keeps_intro) simp_all

subsection \<open>Tags\<close>

lemma files_step_tags [simp]:
  "files_step d d' \<Longrightarrow> files_step d (snd (create_owned_tag t d'))"
  "files_step d d' \<Longrightarrow> files_step d (snd (update_owned_tag t d'))"
  "files_step d d' \<Longrightarrow> files_step d (snd (delete_owned_tag i owner d'))"
  "files_step d d' \<Longrightarrow> files_step d (snd (bump_affected is now owner d'))"
  by (erule files_step_cong; auto simp: create_owned_tag_def update_owned_tag_def delete_owned_tag_def bump_affected_def Let_def
      split: if_splits option.splits)+

lemma available_tags:
  "keeps (available sha) (create_tag lower owner name color now)" "keeps (available sha) (update_tag lower owner i name' color' now)"
  "keeps (available sha) (delete_tag owner i now)"
proof -
  show "keeps (available sha) (create_tag lower owner name color now)"
    unfolding create_tag_def tag_row_def by (rule keeps_available_message; intro keeps_intro) simp_all
  show "keeps (available sha) (update_tag lower owner i name' color' now)"
    unfolding update_tag_def get_tag_def tag_row_def by (rule keeps_available_message; intro keeps_intro) simp_all
  show "keeps (available sha) (delete_tag owner i now)"
    unfolding delete_tag_def delete_tag_tx_def by (rule keeps_available_message; intro keeps_intro) simp_all
qed

subsection \<open>Maintenance\<close>

lemma keeps_batches [keeps_intro]: "keeps I m \<Longrightarrow> keeps I (batches k b m)"
  by (induction k) (auto intro!: keeps_intro)

lemma keeps_publish [keeps_intro]: "keeps (on_db J) (publish_each n)" "keeps (off_db K) (publish_each n)"
  by (induction n) (auto intro!: keeps_intro)

lemma keeps_run_task [keeps_intro]: "keeps I m \<Longrightarrow> keeps I (run_task name m)"
  unfolding run_task_def by (intro keeps_intro)

lemma keeps_run_tasks: "(\<And>t. t \<in> set ts \<Longrightarrow> keeps I t) \<Longrightarrow> keeps I (run_tasks ts)"
  by (induction ts) (auto intro!: keeps_intro)

lemma available_wake: "keeps (available sha) (modifyA (\<lambda>w. if b then w\<lparr>wake := True\<rparr> else w))"
  by (rule keeps_modifyA) (simp add: on_store_def)

lemma available_query: "keeps (available sha) (query e q)"
  by (rule keeps_available_message; intro keeps_intro)

lemma available_tasks:
  "t \<in> set (recover_task now # message_tasks now @ file_tasks sha now upnow dbnow) \<Longrightarrow> keeps (available sha) t"
proof -
  have expire: "keeps (available sha) (expire_batch now b)" for b
    unfolding expire_batch_def by (rule keeps_available_message; intro keeps_intro) (simp add: expire_rows_def Let_def)
  have purge: "keeps (available sha) (purge_batch now b)" for b
    unfolding purge_batch_def
    by (rule keeps_available_message; intro keeps_intro) (simp add: purge_rows_def Let_def files_step_delete_messages)
  have audit: "keeps (available sha) (audit_cleanup SchedIO now b)" for b
    unfolding audit_cleanup_def by (rule keeps_available_message; intro keeps_intro) (simp add: Let_def)
  have chal: "keeps (available sha) (exec SchedIO (delete_expired_challenges (now - challenge_grace) b))" for b
    by (rule keeps_available_message; intro keeps_intro) simp
  have up: "keeps (available sha) (expire_due_uploads b t)" for b t
    using keeps_available_upload [OF keeps_expire same_files_uploads(2) store_is_uploads(2)] .
  assume "t \<in> set (recover_task now # message_tasks now @ file_tasks sha now upnow dbnow)"
  then show ?thesis
    unfolding recover_task_def message_tasks_def file_tasks_def expire_temporary_def purge_trash_def cleanup_audit_def
      cleanup_challenges_def backfill_thumbnails_def expire_uploads_task_def
    by (auto intro!: keeps_run_task keeps_batches keeps_bindA keeps_if keeps_ret keeps_throw available_jobs expire purge audit chal up
        keeps_available_gc available_wake)
qed

lemma available_run_once: "keeps (available sha) (run_once sha free now upnow dbnow)"
  unfolding run_once_def
  by (intro keeps_bindA keeps_if keeps_ret keeps_tryA available_query keeps_run_tasks available_tasks) auto

lemma available_step: "service_step sha w w' \<Longrightarrow> available sha w \<Longrightarrow> available sha w'"
proof (induction rule: service_step.induct)
  case (change_message w c rnd owner i e now opr)
  then show ?case
    using keeps_available_message [OF files_step_run_op off_db_run_op] by (simp add: keeps_def)
next
  case (create w c rnd owner dev ccmd now)
  then show ?case using keeps_available_message [OF files_step_create off_db_services(1)] by (simp add: keeps_def)
next
  case (direct_send w c rnd owner dev dcmd now)
  then show ?case using keeps_available_message [OF files_step_direct off_db_services(2)] by (simp add: keeps_def)
next
  case (forward w c rnd owner dev fcmd now)
  then show ?case using keeps_available_message [OF files_step_forward off_db_services(3)] by (simp add: keeps_def)
next
  case (attach w owner i e us now)
  then show ?case using keeps_available_message [OF files_step_add off_db_services(4)] by (simp add: keeps_def)
next
  case (detach w owner i a e now)
  then show ?case using keeps_available_message [OF files_step_remove off_db_services(5)] by (simp add: keeps_def)
next
  case (purge w owner i ac now)
  then show ?case using keeps_available_message [OF files_step_purge off_db_services(6)] by (simp add: keeps_def)
next
  case (expire w batch now)
  then show ?case using keeps_available_message [OF files_step_expire off_db_services(7)] by (simp add: keeps_def)
next
  case (new_upload w l probe owner ucmd now)
  then show ?case
    using keeps_available_upload [OF keeps_create_upload same_files_uploads(3) store_is_uploads(3)] by (simp add: keeps_def)
next
  case (part w owner i n len bd acquired now later)
  then show ?case
    using keeps_available_upload [OF keeps_put_part same_files_uploads(1) store_is_uploads(1)] by (simp add: keeps_def)
next
  case (expire_uploads w batch now)
  then show ?case
    using keeps_available_upload [OF keeps_expire same_files_uploads(2) store_is_uploads(2)] by (simp add: keeps_def)
next
  case (complete w healthy detect acquired room now owner i later)
  then show ?case using keeps_available_complete by (simp add: keeps_def)
next
  case (settings w actor s now)
  then show ?case using available_settings by (simp add: keeps_def)
next
  case (outside w fs "is" st)
  then show ?case by (simp add: on_store_def)
qed (use available_jobs keeps_available_gc available_run_once available_delete_user available_tags in \<open>simp_all add: keeps_def\<close>)

lemma available_run: "service_run sha w w' \<Longrightarrow> available sha w \<Longrightarrow> available sha w'"
  by (induction rule: service_run.induct) (auto dest: available_step)

lemma fresh_available: "available sha (process_on empty_db)"
  by (simp add: on_store_def available_ok_def stored_ok_def attached_ok_def uploads_ok_def objects_ok_def content_ok_def
      settings_ok_empty process_on_def)

section \<open>Downloads\<close>

lemma object_key_ok_object [simp]: "object_key_ok (ObjectKey i)"
  by (simp add: object_key_ok_def object_keys)

lemma store_read_quiet:
  "quiet w \<Longrightarrow> blob_get (ObjectKey i) (store w) = Some b \<Longrightarrow> store_read (ObjectKey i) w = (Inr b, w)"
  by (simp add: store_read_def store_path_def object_keys act_simps)

lemma download_works:
  assumes "available sha w" "quiet w" "by_key ma_id i (attachments (wdb w)) = Some a"
    and "by_key msg_id (ma_message a) (messages (wdb w)) = Some m"
  shows "\<exists>dl b. authorized_download True (owner_id m) i w = (Inr dl, w) \<and> dl_filename dl = ma_filename a
     \<and> dl_key dl = ObjectKey (ma_file a) \<and> open_download dl w = (Inr b, w) \<and> sha b = dl_sha dl \<and> int (length b) = dl_size dl"
proof -
  have a: "a \<in> set (attachments (wdb w))" using by_key_SomeD [OF assms(3)] by simp
  from assms(1) a obtain f where f: "f \<in> set (file_objects (wdb w))" "fo_id f = ma_file a" "fo_status f = ObjReady"
    by (auto simp: on_store_def available_ok_def attached_ok_def file_ready_def)
  have "distinct (map fo_id (file_objects (wdb w)))"
    using assms(1) by (simp add: on_store_def available_ok_def stored_ok_def objects_ok_def)
  with f have fo: "by_key fo_id (ma_file a) (file_objects (wdb w)) = Some f" by (simp add: by_key_eq_Some)
  from assms(1) f have k: "storage_key f = ObjectKey (ma_file a)"
    by (auto simp: on_store_def available_ok_def attached_ok_def)
  from assms(1) f obtain b where b: "blob_get (ObjectKey (ma_file a)) (store w) = Some b" "sha b = sha256 f"
    "int (length b) = size_bytes f"
    by (auto simp: on_store_def available_ok_def stored_ok_def content_ok_def)
  have r: "authorized_row (owner_id m) i (wdb w) = Some (a, f)"
    using assms(3,4) fo f(3) by (simp add: authorized_row_def)
  have "open_sized (ObjectKey (ma_file a)) (size_bytes f) w = (Inr b, w)"
    using assms(2) b by (simp add: open_sized_def bindA_run tryA_run store_read_quiet act_simps)
  with r k b assms(2) show ?thesis
    by (simp add: authorized_download_def open_download_def act_simps)
qed

lemma authorized_owner:
  "authorized_download healthy owner i w = (Inr dl, w') \<Longrightarrow>
     \<exists>a m. by_key ma_id i (attachments (wdb w)) = Some a \<and> by_key msg_id (ma_message a) (messages (wdb w)) = Some m
       \<and> owner_id m = owner"
  unfolding authorized_download_def
  by (auto simp: bindA_run authorized_row_def act_simps dest!: query_result split: if_splits option.splits prod.splits sum.splits)


section \<open>The pages come to an end\<close>

definition unsettled_after :: "(time \<times> uuid) option \<Rightarrow> file_object \<Rightarrow> bool" where
  "unsettled_after c f \<longleftrightarrow> fo_status f \<noteq> ObjReady \<and> (case c of None \<Rightarrow> True | Some k \<Rightarrow> k < object_position f)"

definition left_after :: "(time \<times> uuid) option \<Rightarrow> db \<Rightarrow> nat" where
  "left_after c d = sql_count (unsettled_after c) (file_objects d)"

lemma left_after_delete: "left_after c (d\<lparr>file_objects := sql_delete p (file_objects d)\<rparr>) \<le> left_after c d"
proof -
  have "length (filter q (sql_delete p xs)) \<le> length (filter q xs)" for q and xs :: "file_object list"
    by (induction xs) (auto simp: sql_delete_def)
  then show ?thesis by (simp add: left_after_def sql_count_def)
qed

lemma left_after_ready:
  "left_after c (d\<lparr>file_objects := sql_update p (\<lambda>f. f\<lparr>fo_status := ObjReady, ready_at := r, fo_updated_at := t\<rparr>) (file_objects d)\<rparr>)
     \<le> left_after c d"
proof -
  have "length (filter (unsettled_after c) (sql_update p (\<lambda>f. f\<lparr>fo_status := ObjReady, ready_at := r, fo_updated_at := t\<rparr>) fs))
      \<le> length (filter (unsettled_after c) fs)" for fs
    by (induction fs) (auto simp: sql_update_def unsettled_after_def)
  then show ?thesis by (simp add: left_after_def sql_count_def)
qed

lemma left_after_other [simp]:
  "left_after c (d\<lparr>uploads := us\<rparr>) = left_after c d" "left_after c (d\<lparr>derivatives := ds\<rparr>) = left_after c d"
  by (simp_all add: left_after_def)

lemma left_after_statements:
  "left_after c d \<le> n \<Longrightarrow> left_after c (snd (remove_pending i d)) \<le> n"
  "left_after c d \<le> n \<Longrightarrow> left_after c (snd (make_ready now i d)) \<le> n"
  "left_after c d \<le> n \<Longrightarrow> left_after c (snd (delete_derivative i j d)) \<le> n"
  "left_after c d \<le> n \<Longrightarrow> left_after c (snd (delete_object_row i d)) \<le> n"
proof -
  assume n: "left_after c d \<le> n"
  show "left_after c (snd (remove_pending i d)) \<le> n"
    unfolding remove_pending_def snd_conv using left_after_delete n by (rule order_trans)
  show "left_after c (snd (make_ready now i d)) \<le> n"
    unfolding make_ready_def snd_conv using left_after_ready n by (rule order_trans)
  show "left_after c (snd (delete_derivative i j d)) \<le> n" using n by (simp add: delete_derivative_def)
  have "left_after c (d\<lparr>file_objects := sql_delete p (file_objects d), uploads := us\<rparr>) \<le> n" for p us
    using order_trans [OF left_after_delete n] by simp
  with n show "left_after c (snd (delete_object_row i d)) \<le> n"
    by (auto simp: delete_object_row_def Let_def)
qed

lemma keeps_ext_store: "(\<And>w. wdb (snd (f w)) = wdb w) \<Longrightarrow> keeps (on_db J) (ext e f)"
  by (rule keeps_ext) (simp_all add: on_db_def)

lemma keeps_store_ops [keeps_intro]:
  "keeps (on_db J) (store_stat k)" "keeps (on_db J) (store_read k)" "keeps (on_db J) (store_delete k)"
  unfolding store_stat_def store_read_def store_delete_def
  by (intro keeps_intro keeps_ext_store; simp)+

lemma keeps_left_page: "keeps (on_db (\<lambda>d. left_after c d \<le> n)) (reconcile_page sha now room fs)"
proof (induction sha now room fs rule: reconcile_page.induct)
  case (2 sha now room f fs)
  have "keeps (on_db (\<lambda>d. left_after c d \<le> n)) (reconcile_object sha now f)"
    unfolding reconcile_object_def reconcile_pending_object_def delete_object_def
    by (intro keeps_intro left_after_statements)
  with 2 show ?case unfolding reconcile_page.simps by (intro keeps_intro) auto
qed (simp add: keeps_ret)

lemma length_filter_less:
  "x \<in> set xs \<Longrightarrow> p x \<Longrightarrow> \<not> q x \<Longrightarrow> (\<And>y. q y \<Longrightarrow> p y) \<Longrightarrow> length (filter q xs) < length (filter p xs)"
proof (induction xs)
  case (Cons y ys)
  have "length (filter q ys) \<le> length (filter p ys)" using Cons.prems(4) by (induction ys) auto
  with Cons show ?case by auto
qed simp

text \<open>A page that is not empty leaves fewer objects behind its end.\<close>

lemma left_after_page:
  assumes "unsettled_objects c room d = fs" "fs \<noteq> []"
  shows "left_after (Some (object_position (last fs))) d < left_after c d"
proof -
  let ?xs = "sort_key object_position (filter (unsettled_after c) (file_objects d))"
  have fs: "fs = take room ?xs" using assms(1) by (simp add: unsettled_objects_def unsettled_after_def [abs_def])
  have "last fs \<in> set fs" using assms(2) by simp
  then have l: "last fs \<in> set (file_objects d)" "unsettled_after c (last fs)" by (auto simp: fs dest: in_set_takeD)
  let ?c = "Some (object_position (last fs))"
  have sub: "unsettled_after c f" if "unsettled_after ?c f" for f
    using that l(2) by (auto simp: unsettled_after_def split: option.splits)
  have "\<not> unsettled_after ?c (last fs)" by (simp add: unsettled_after_def)
  with l sub show ?thesis unfolding left_after_def sql_count_def by (intro length_filter_less)
qed

lemma reconcile_page_returns: "\<exists>n es w'. reconcile_page sha now room fs w = (Inr (n, es), w')"
proof (induction fs arbitrary: room w)
  case (Cons f fs)
  obtain r w1 where r: "reconcile_object sha now f w = (r, w1)" by fastforce
  obtain n es w2 where n: "reconcile_page sha now room fs w1 = (Inr (n, es), w2)" using Cons.IH by blast
  obtain n' es' w2' where n': "reconcile_page sha now (room - 1) fs w1 = (Inr (n', es'), w2')" using Cons.IH by blast
  show ?case using r n n' by (cases r) (auto simp: bindA_run tryA_run ret_run)
qed (simp add: ret_run)

lemma reconcile_pages_end:
  "left_after c (wdb w) < k \<Longrightarrow> \<exists>es w'. reconcile_pages k sha now c room w = (Inr (Some es), w')"
proof (induction k arbitrary: c room w)
  case (Suc k)
  obtain r w1 where q: "query FIO (unsettled_objects c room) w = (r, w1)" by fastforce
  have d: "wdb w1 = wdb w" and r: "r = Inr (unsettled_objects c room (wdb w)) \<or> r = Inl FIO"
    using query_result [OF q] by auto
  show ?case
  proof (cases "room = 0 \<or> r = Inl FIO \<or> r = Inr []")
    case True
    with q show ?thesis by (auto simp: bindA_run tryA_run ret_run)
  next
    case False
    with r obtain f fs where fs: "unsettled_objects c room (wdb w) = f # fs" "r = Inr (f # fs)" "room \<noteq> 0"
      by (metis list.exhaust)
    let ?c = "Some (object_position (last (f # fs)))"
    obtain n es w2 where p: "reconcile_page sha now room (f # fs) w1 = (Inr (n, es), w2)"
      using reconcile_page_returns by blast
    have "left_after ?c (wdb w2) \<le> left_after ?c (wdb w)"
      using keepsD [OF keeps_left_page [of ?c "left_after ?c (wdb w)"] _ p] d by (simp add: on_db_def)
    also have "\<dots> < left_after c (wdb w)" using left_after_page [OF fs(1)] by simp
    finally have "left_after ?c (wdb w2) < k" using Suc.prems by simp
    from Suc.IH [OF this, of "room - n"] obtain es' w3 where
      "reconcile_pages k sha now ?c (room - n) w2 = (Inr (Some es'), w3)" by blast
    with q fs p show ?thesis by (auto simp: bindA_run tryA_run ret_run)
  qed
qed simp

lemma thumbnail_owner:
  "authorized_thumbnail owner i w = (Inr td, w') \<Longrightarrow>
     \<exists>a m. by_key ma_id i (attachments (wdb w)) = Some a \<and> by_key msg_id (ma_message a) (messages (wdb w)) = Some m
       \<and> owner_id m = owner"
  unfolding authorized_thumbnail_def
  by (auto simp: bindA_run thumbnail_row_def authorized_row_def act_simps dest!: query_result
      split: if_splits option.splits prod.splits sum.splits)

section \<open>What the services guarantee\<close>

text \<open>C38: the reconciliation of stored objects comes to an end: whatever fails, and however many pages it needs, as
  many rounds as there are unsettled objects, and one more, always produce a result, so the bound in
  \<open>reconcile_objects\<close> is never reached.\<close>

theorem reconciliation_ends:
  assumes "length (filter (\<lambda>f. fo_status f \<noteq> ObjReady) (file_objects (wdb w))) < k"
  shows "\<exists>es w'. reconcile_pages k sha now None room w = (Inr (Some es), w')"
  by (rule reconcile_pages_end) (use assms in \<open>simp add: left_after_def sql_count_def unsettled_after_def [abs_def]\<close>)

text \<open>C1: attachments stay available: from a world that satisfies the invariant (a fresh installation does), run any
  sequence of service calls with any failures and crashes between them: garbage collections, the clean-ups of the
  scheduler, changes of tags and deletions of users included. Then the owner of a message can download each of its
  attachments, under its name, and the bytes have the recorded hash and size.\<close>

theorem attachments_stay_available:
  assumes "available sha w0" "service_run sha w0 w" "quiet w"
    and "by_key ma_id i (attachments (wdb w)) = Some a" "by_key msg_id (ma_message a) (messages (wdb w)) = Some m"
  shows "\<exists>dl b. authorized_download True (owner_id m) i w = (Inr dl, w) \<and> dl_filename dl = ma_filename a
     \<and> open_download dl w = (Inr b, w) \<and> sha b = dl_sha dl \<and> int (length b) = dl_size dl"
  using download_works [OF available_run [OF assms(2,1)] assms(3-5)] by metis

text \<open>C23: only the owner of the message gets at an attachment, as a download, a preview or a thumbnail, and a preview
  is only given for a type on the list.\<close>

theorem attachments_only_for_the_owner:
  "(fst (authorized_download healthy owner i w) = Inr dl \<or> fst (authorized_preview healthy owner i w) = Inr dl
      \<or> fst (authorized_thumbnail owner i w) = Inr td \<longrightarrow>
    (\<exists>a m. by_key ma_id i (attachments (wdb w)) = Some a \<and> by_key msg_id (ma_message a) (messages (wdb w)) = Some m
       \<and> owner_id m = owner))
   \<and> (fst (authorized_preview healthy owner i w) = Inr dl \<longrightarrow> is_preview_mime (dl_mime dl))"
proof -
  let ?owned = "\<exists>a m. by_key ma_id i (attachments (wdb w)) = Some a \<and> by_key msg_id (ma_message a) (messages (wdb w)) = Some m
       \<and> owner_id m = owner"
  have d: ?owned if "fst (authorized_download healthy owner i w) = Inr dl"
    using that authorized_owner [of healthy owner i w dl] by (metis prod.collapse)
  have p: "fst (authorized_download healthy owner i w) = Inr dl \<and> is_preview_mime (dl_mime dl)"
    if "fst (authorized_preview healthy owner i w) = Inr dl"
    using that by (cases "authorized_download healthy owner i w"; cases "fst (authorized_download healthy owner i w)")
      (auto simp: authorized_preview_def bindA_run act_simps split: if_splits)
  have t: ?owned if "fst (authorized_thumbnail owner i w) = Inr td"
    using that thumbnail_owner [of owner i w td] by (metis prod.collapse)
  show ?thesis using d p t by blast
qed


section \<open>Examples\<close>

text \<open>A user has a message with a file; a second message gets an upload attached, and then the collection runs, long
  after every lease is over and with a failure in it.\<close>

definition library_world :: world where
  "library_world = mail_world\<lparr>store := [(ObjectKey 20, ''abc''), (CommitTempKey 77, ''tmp'')]\<rparr>"

definition hash_x :: "bytes \<Rightarrow> bytes" where
  "hash_x b = ''x''"

abbreviation attached_run :: world where
  "attached_run \<equiv> snd (add_attachments 1 7 1 [9] 5 library_world)"

abbreviation collected_run :: world where
  "collected_run \<equiv> snd (gc hash_x 10 (100 * hour) (100 * hour) (attached_run\<lparr>faults := [NoFault, NoFault, FailAfter], ids := [], staging := []\<rparr>))"

lemma library_available: "available hash_x library_world"
  by (simp add: library_world_def mail_world_def on_store_def available_ok_def stored_ok_def attached_ok_def uploads_ok_def
      objects_ok_def content_ok_def settings_ok_def settings_validate_def empty_db_def process_on_def upload_ok_def
      finished_upload_def ready_file_def file_ready_def hash_x_def blob_get_def)

lemma collected_ok:
  "quiet collected_run" "map_option ma_filename (by_key ma_id 50 (attachments (wdb collected_run))) = Some ''a.txt''"
  "map_option owner_id (by_key msg_id 7 (messages (wdb collected_run))) = Some 1"
  "map_option ma_message (by_key ma_id 50 (attachments (wdb collected_run))) = Some 7"
  by code_simp+

theorem attachments_stay_available_witness:
  "\<exists>dl b. authorized_download True 1 50 collected_run = (Inr dl, collected_run) \<and> dl_filename dl = ''a.txt''
     \<and> open_download dl collected_run = (Inr b, collected_run) \<and> hash_x b = dl_sha dl \<and> int (length b) = dl_size dl"
proof -
  have run: "service_run hash_x library_world collected_run"
    by (intro service_run.step [OF service_run.step [OF service_run.step [OF service_run.start attach] outside] collect])
  from collected_ok(2,4) obtain a where a: "by_key ma_id 50 (attachments (wdb collected_run)) = Some a" "ma_filename a = ''a.txt''"
    "ma_message a = 7" by auto
  from collected_ok(3) obtain m where m: "by_key msg_id 7 (messages (wdb collected_run)) = Some m" "owner_id m = 1" by auto
  from attachments_stay_available [OF library_available run collected_ok(1) a(1)] a(2,3) m show ?thesis by simp
qed

theorem attachments_only_for_the_owner_witness:
  "(\<exists>dl. fst (authorized_download True 1 30 library_world) = Inr dl)
    \<and> (\<forall>dl. fst (authorized_download True 2 30 library_world) \<noteq> Inr dl)"
proof -
  have l: "by_key ma_id 30 (attachments (wdb library_world)) \<noteq> None"
    "map_option ma_message (by_key ma_id 30 (attachments (wdb library_world))) = Some 7"
    "map_option owner_id (by_key msg_id 7 (messages (wdb library_world))) = Some 1" "quiet library_world" by code_simp+
  then have "\<not> (\<exists>a m. by_key ma_id 30 (attachments (wdb library_world)) = Some a
      \<and> by_key msg_id (ma_message a) (messages (wdb library_world)) = Some m \<and> owner_id m = 2)" by auto
  with attachments_only_for_the_owner [of True 2 30 library_world _ undefined]
  have "fst (authorized_download True 2 30 library_world) \<noteq> Inr dl" for dl by blast
  moreover have "\<exists>dl. fst (authorized_download True 1 30 library_world) = Inr dl"
    using l download_works [OF library_available l(4)] by fastforce
  ultimately show ?thesis by blast
qed

definition unsettled_world :: world where
  "unsettled_world = library_world\<lparr>wdb := (wdb library_world)\<lparr>file_objects := [ready_file, ready_file\<lparr>fo_id := 21, fo_status := ObjPending\<rparr>,
     ready_file\<lparr>fo_id := 22, fo_status := ObjDeleting\<rparr>]\<rparr>, faults := [FailAfter]\<rparr>"

theorem reconciliation_ends_witness:
  "\<exists>es w'. reconcile_pages 3 hash_x 5 None 1 unsettled_world = (Inr (Some es), w')"
  by (rule reconciliation_ends) (simp add: unsettled_world_def ready_file_def)

end
