(* ===== verification/AuthLaws.thy ===== *)
theory AuthLaws
  imports Auth
begin

text \<open>
  What holds across the operations on accounts and sessions. The locale \<open>identity_law\<close> states what a condition on the
  database has to survive (one law per statement of \<^verbatim>\<open>internal/users\<close> and \<^verbatim>\<open>internal/auth\<close>) and derives that every
  sequence of operations keeps it, however their calls fail. It is interpreted for the integrity of the tables, for
  the exclusion of a disabled user, and for the death of a revoked session.
\<close>

section \<open>The operations as steps\<close>

datatype auth_cmd =
    CreateUserCmd actor string string string bool
  | BootstrapCmd string string string
  | DisableUserCmd actor uuid
  | DeleteUserCmd actor uuid
  | LoginCmd "bytes option" login_input
  | CompleteTotpCmd "bytes option" string string login_input
  | AuthenticateCmd string bool "string option"
  | ValidateSessionCmd uuid
  | RevokeSessionCmd authn uuid login_input
  | LogoutCmd authn login_input
  | RenameDeviceCmd authn uuid string
  | ChangePasswordCmd authn string string login_input
  | ResetPasswordCmd authn uuid string login_input
  | StartTotpCmd "bytes option" "bytes option" authn string login_input
  | ConfirmTotpCmd authn string login_input
  | DisableTotpCmd authn string login_input
  | CleanupChallengesCmd nat

definition auth_step :: "auth_env \<Rightarrow> auth_cmd \<times> time \<Rightarrow> world \<Rightarrow> world" where
  "auth_step env = (\<lambda>(cmd, now). case cmd of
       CreateUserCmd a name display pw adm \<Rightarrow> snd \<circ> create_user (ae_lower env) (ae_hash env pw) a name display pw adm now
     | BootstrapCmd name display pw \<Rightarrow> snd \<circ> bootstrap_initial_admin (ae_lower env) (ae_hash env pw) name display pw now
     | DisableUserCmd a i \<Rightarrow> snd \<circ> disable_user a i now
     | DeleteUserCmd a i \<Rightarrow> snd \<circ> delete_user a i now
     | LoginCmd rnd inp \<Rightarrow> snd \<circ> login env rnd inp now
     | CompleteTotpCmd rnd token code inp \<Rightarrow> snd \<circ> complete_login_totp env rnd token code inp now
     | AuthenticateCmd token touch ip \<Rightarrow> snd \<circ> authenticate env token touch ip now
     | ValidateSessionCmd i \<Rightarrow> snd \<circ> validate_session i now
     | RevokeSessionCmd a i inp \<Rightarrow> snd \<circ> revoke_session a i inp now
     | LogoutCmd a inp \<Rightarrow> snd \<circ> logout a inp now
     | RenameDeviceCmd a i name \<Rightarrow> snd \<circ> rename_device a i name
     | ChangePasswordCmd a cur new inp \<Rightarrow> snd \<circ> change_password env a cur new inp now
     | ResetPasswordCmd a i pw inp \<Rightarrow> snd \<circ> reset_password_by_admin env a i pw inp now
     | StartTotpCmd rnd nonce a pw inp \<Rightarrow> snd \<circ> start_totp_enrollment env rnd nonce a pw inp now
     | ConfirmTotpCmd a code inp \<Rightarrow> snd \<circ> confirm_totp_enrollment env a code inp now
     | DisableTotpCmd a code inp \<Rightarrow> snd \<circ> disable_totp env a code inp now
     | CleanupChallengesCmd n \<Rightarrow> snd \<circ> exec AuthIO (delete_expired_challenges (now - hour) n))"

text \<open>The token a step draws, and the user it deletes, if any.\<close>

definition draws :: "auth_cmd \<Rightarrow> bytes option" where
  "draws cmd = (case cmd of LoginCmd rnd _ \<Rightarrow> rnd | CompleteTotpCmd rnd _ _ _ \<Rightarrow> rnd | _ \<Rightarrow> None)"

definition deletes :: "auth_cmd \<Rightarrow> uuid option" where
  "deletes cmd = (case cmd of DeleteUserCmd _ i \<Rightarrow> Some i | _ \<Rightarrow> None)"

definition owner_pairs :: "db \<Rightarrow> (uuid \<times> uuid) set" where
  "owner_pairs d = set (map (\<lambda>x. (dev_id x, dev_user x)) (devices d))"

section \<open>Conditions that every operation keeps\<close>

lemma keeps_limiter [keeps_intro]: "keeps (on_db J) (limiter f)"
  by (simp add: keeps_def limiter_def on_db_def split_beta)

lemma keeps_failure_audits: "keeps (on_db J) (\<lambda>w. case g (failure_audits w) of (b, fs) \<Rightarrow> (Inr b, w\<lparr>failure_audits := fs\<rparr>))"
  by (simp add: keeps_def on_db_def split_beta)

locale identity_law =
  fixes J :: "db \<Rightarrow> bool" and fresh :: "bytes \<Rightarrow> bool" and removable :: "uuid \<Rightarrow> bool"
  assumes add_account: "J d \<Longrightarrow> J (snd (insert_user (new_user i n dn h adm now) d))"
    and disable: "J d \<Longrightarrow> J (snd (disable_user_row i now d))"
    and revoke_of: "J d \<Longrightarrow> J (snd (revoke_sessions_of i now d))"
    and delete: "J d \<Longrightarrow> removable i \<Longrightarrow> J (snd (delete_user_row i d))"
    and password: "J d \<Longrightarrow> J (snd (update_password_hash i h now d))"
    and add_device: "J d \<Longrightarrow> J (snd (insert_device x d))"
    and add_session: "J d \<Longrightarrow> fresh h \<Longrightarrow> (dv, u) \<in> owner_pairs d \<Longrightarrow> J (snd (insert_session_row (fresh_session i u dv h inp now) d))"
    and touch: "J d \<Longrightarrow> J (snd (touch_session i seen ex ip d))"
    and touch_dev: "J d \<Longrightarrow> J (snd (touch_device i u seen d))"
    and revoke: "J d \<Longrightarrow> J (snd (revoke_where q now d))"
    and rename: "J d \<Longrightarrow> J (snd (rename_owned_device i u name d))"
    and totp: "J d \<Longrightarrow> J (snd (upsert_pending_totp t d))" "J d \<Longrightarrow> J (snd (confirm_totp u nn ct v st now d))"
      "J d \<Longrightarrow> J (snd (delete_totp u d))" "J d \<Longrightarrow> J (snd (claim_totp_step u st d))" "J d \<Longrightarrow> J (snd (note_totp_failure u mx until d))"
    and challenge: "J d \<Longrightarrow> J (snd (insert_challenge c d))" "J d \<Longrightarrow> J (snd (consume_challenge i u now d))"
      "J d \<Longrightarrow> J (snd (bump_challenge i d))" "J d \<Longrightarrow> J (snd (delete_expired_challenges now k d))"
    and audit: "J d \<Longrightarrow> J (d\<lparr>audit_logs := ls\<rparr>)"
begin

lemma audit_row: "J d \<Longrightarrow> J (snd (insert_auth_audit r d))"
  using audit by (simp add: insert_auth_audit_def insert_audit_def)

lemma keeps_audit: "keeps (on_db J) (audit_quietly kind u dv ses inp now)"
  unfolding audit_quietly_def by (intro keeps_intro audit_row)

lemma keeps_event: "keeps (on_db J) (record_event e ev now)"
  by (intro keeps_record_event audit)

lemma keeps_check_exec: "(\<And>d. J d \<Longrightarrow> J (snd (u d))) \<Longrightarrow> keeps (on_db J) (check_exec u)"
  unfolding check_exec_def by (intro keeps_intro)

lemma keeps_count: "keeps (on_db J) (count_failure now ip name)"
  unfolding count_failure_def by (intro keeps_intro)

lemma keeps_fail: "keeps (on_db J) (fail_login name inp now)"
  unfolding fail_login_def by (intro keeps_intro keeps_count keeps_failure_audits keeps_audit)

lemma keeps_find: "keeps (on_db J) (find_user name)" "keeps (on_db J) (find_user_by_id i)" "keeps (on_db J) (totp_enabled u)"
  unfolding find_user_def find_user_by_id_def totp_enabled_def by (intro keeps_intro)+

lemma keeps_renew: "keeps (on_db J) (renew_hash env u pw now)"
  unfolding renew_hash_def by (intro keeps_intro password)

lemma keeps_challenge: "keeps (on_db J) (new_login_challenge env rnd u inp now)"
  unfolding new_login_challenge_def by (intro keeps_intro keeps_check_exec challenge(1))

text \<open>Accounts\<close>

lemma keeps_create: "keeps (on_db J) (create_user lower hashed a name display pw adm now)"
  unfolding create_user_def create_user_tx_def add_user_def by (intro keeps_intro keeps_event add_account)

lemma keeps_bootstrap: "keeps (on_db J) (bootstrap_initial_admin lower hashed name display pw now)"
  unfolding bootstrap_initial_admin_def bootstrap_tx_def add_user_def by (intro keeps_intro keeps_event add_account)

lemma keeps_disable: "keeps (on_db J) (disable_user a i now)"
  unfolding disable_user_def disable_user_tx_def by (intro keeps_intro keeps_event disable revoke_of)

lemma keeps_delete: "removable i \<Longrightarrow> keeps (on_db J) (delete_user a i now)"
  unfolding delete_user_def delete_user_tx_def by (intro keeps_intro keeps_event revoke_of delete)

text \<open>A session is opened on a device of its user.\<close>

definition with_device :: "uuid \<Rightarrow> device \<Rightarrow> db \<Rightarrow> (storage_key \<times> bytes) list \<Rightarrow> bool" where
  "with_device u x d s \<longleftrightarrow> J d \<and> (dev_id x, u) \<in> owner_pairs d"

lemma keeps_on_store_of: "keeps (on_db J) m \<Longrightarrow> keeps (on_store (\<lambda>d _. J d)) m"
  by (simp add: keeps_def on_db_def on_store_def)

lemma owned_device_pair: "owned_device i u d = Some x \<Longrightarrow> (dev_id x, u) \<in> owner_pairs d"
  by (force simp: owned_device_def owner_pairs_def split: option.splits if_splits dest: by_key_SomeD)

lemma insert_device_pair: "fst (insert_device x d) \<Longrightarrow> dev_user x = u \<Longrightarrow> (dev_id x, u) \<in> owner_pairs (snd (insert_device x d))"
  by (auto simp: insert_device_def owner_pairs_def split: if_splits)

lemma triple_make_device:
  "dev_user x = u \<Longrightarrow> triple (on_store (\<lambda>d _. J d)) (bindA (check_exec (insert_device x)) (\<lambda>_. ret x))
     (\<lambda>x. on_store (with_device u x)) (on_store (\<lambda>d _. J d))"
  unfolding check_exec_def
  by (rule triple_bind [where Q = "\<lambda>_. on_store (with_device u x)"], rule triple_bind, rule triple_exec [where
      Q = "\<lambda>ok d s. J d \<and> (ok \<longrightarrow> (dev_id x, u) \<in> owner_pairs d)"])
    (auto simp: add_device insert_device_pair with_device_def on_store_def intro!: triple_if triple_ret triple_throw)

lemma triple_known_device:
  "triple (on_store (\<lambda>d _. J d)) (case c of None \<Rightarrow> ret None | Some i \<Rightarrow> query e (owned_device i u))
     (\<lambda>r. on_store (\<lambda>d s. J d \<and> (\<forall>x. r = Some x \<longrightarrow> with_device u x d s))) (on_store (\<lambda>d _. J d))"
  by (intro triple_option triple_ret triple_post [OF triple_query])
    (auto simp: on_store_def with_device_def owned_device_pair)

lemma triple_login_device:
  "triple (on_store (\<lambda>d _. J d)) (login_device u inp now) (\<lambda>x. on_store (with_device (usr_id u) x)) (on_store (\<lambda>d _. J d))"
  unfolding login_device_def
  by (intro triple_bind [OF triple_known_device] triple_option triple_if triple_throw triple_ret
      triple_bind [OF triple_pre [OF triple_new_id [where P = "\<lambda>d _. J d"]]] triple_make_device [unfolded Let_def])
    (auto simp: on_store_def Let_def new_device_def intro!: triple_make_device)

lemma triple_add_session:
  assumes "fresh h"
  shows "triple (on_store (with_device u x)) (check_exec (insert_session_row (fresh_session i u (dev_id x) h inp now)))
    (\<lambda>_. on_store (\<lambda>d _. J d)) (on_store (\<lambda>d _. J d))"
  unfolding check_exec_def
  by (rule triple_bind, rule triple_exec [where Q = "\<lambda>_ d s. J d"])
    (auto simp: with_device_def on_store_def assms intro!: add_session triple_if triple_ret triple_throw)

lemma on_db_store: "on_db J = on_store (\<lambda>d _. J d)"
  by (simp add: on_db_def on_store_def fun_eq_iff)

lemma keeps_triple: "triple (on_db J) m (\<lambda>_. on_db J) (on_db J) \<longleftrightarrow> keeps (on_db J) m"
  by (auto intro: triple_keeps simp: keeps_def dest: triple_any)

lemma triple_after:
  "keeps (on_db J) m \<Longrightarrow> triple (on_db J) m (\<lambda>_. on_store (\<lambda>d _. J d)) (on_store (\<lambda>d _. J d))"
  using triple_keeps unfolding on_db_store by blast

lemma triple_id: "triple (on_store (with_device u x)) (new_id e) (\<lambda>_. on_store (with_device u x)) (on_store (\<lambda>d _. J d))"
  by (rule triple_weaken [OF triple_new_id [where P = "with_device u x"]]) (auto simp: on_store_def with_device_def)

lemma keeps_open_session:
  assumes "\<And>r. rnd = Some r \<Longrightarrow> fresh (ae_sha env r)"
  shows "keeps (on_db J) (open_session env rnd u name inp now)"
proof -
  have rest: "keeps (on_db J) (bindA (limiter (\<lambda>l. ((), limiter_success (ip_string inp) name l))) (\<lambda>_.
      bindA (audit_quietly ''LOGIN_SUCCESS'' (Some (usr_id u)) (Some (dev_id x)) (Some i) inp now) (\<lambda>_.
        ret (SignedIn \<lparr>au_user = without_hash u, au_device = x, au_session = s\<rparr> token))))" for x i s token
    by (intro keeps_intro keeps_audit)
  have "triple (on_db J) (open_session env rnd u name inp now) (\<lambda>_. on_db J) (on_db J)"
    unfolding open_session_def on_db_store new_session_token_def
    by (intro triple_bind [OF triple_login_device] triple_option triple_prod triple_bind [OF triple_id])
      (use assms rest [THEN triple_after, unfolded on_db_store] in \<open>auto simp: Let_def on_store_def with_device_def
        intro!: triple_throw triple_bind [OF triple_add_session]\<close>)
  then show ?thesis by (simp only: keeps_triple)
qed

lemma keeps_login:
  assumes "\<And>r. rnd = Some r \<Longrightarrow> fresh (ae_sha env r)"
  shows "keeps (on_db J) (login env rnd inp now)"
  unfolding login_def password_accepted_def
  by (intro keeps_intro keeps_find keeps_fail keeps_renew keeps_challenge keeps_open_session assms)

text \<open>Second factors\<close>

lemma triple_totp_device:
  "dev_user x = u \<Longrightarrow> 
   triple (on_store (\<lambda>d s. J d \<and> (\<forall>x. known = Some x \<longrightarrow> with_device u x d s)))
     (case known of Some k \<Rightarrow> if dev_id k \<noteq> uuid_nil then ret k else bindA (check_exec (insert_device x)) (\<lambda>_. ret x)
      | None \<Rightarrow> bindA (check_exec (insert_device x)) (\<lambda>_. ret x))
     (\<lambda>x. on_store (with_device u x)) (on_store (\<lambda>d _. J d))"
  by (intro triple_option triple_if triple_ret triple_pre [OF triple_make_device]) (auto simp: on_store_def)

lemma keeps_complete_tx:
  assumes "fresh h"
  shows "keeps (on_db J) (complete_totp_tx c step dvid sid h inp now)"
proof -
  have t: "triple (on_store (\<lambda>d _. J d)) (exec AuthIO (claim_totp_step u st)) (\<lambda>_. on_store (\<lambda>d _. J d)) (on_store (\<lambda>d _. J d))"
    "triple (on_store (\<lambda>d _. J d)) (exec AuthIO (consume_challenge i u now)) (\<lambda>_. on_store (\<lambda>d _. J d)) (on_store (\<lambda>d _. J d))" for u st i
    by (rule triple_exec; simp add: totp challenge)+
  have "triple (on_db J) (complete_totp_tx c step dvid sid h inp now) (\<lambda>_. on_db J) (on_db J)"
    unfolding complete_totp_tx_def open_totp_session_def on_db_store Let_def
    by (intro triple_bind [OF t(1)] triple_bind [OF t(2)] triple_if triple_throw triple_bind [OF triple_known_device]
        triple_bind [OF triple_totp_device] triple_bind [OF triple_add_session])
      (auto simp: new_device_def commit_tx_def assms intro!: triple_ret)
  then show ?thesis by (simp only: keeps_triple)
qed

lemma keeps_totp_session:
  assumes "\<And>r. rnd = Some r \<Longrightarrow> fresh (ae_sha env r)"
  shows "keeps (on_db J) (totp_session env rnd c u step inp now)"
  unfolding totp_session_def new_session_token_def
  by (intro keeps_intro keeps_complete_tx keeps_count keeps_audit) (use assms in auto)

lemma keeps_complete_login:
  assumes "\<And>r. rnd = Some r \<Longrightarrow> fresh (ae_sha env r)"
  shows "keeps (on_db J) (complete_login_totp env rnd token code inp now)"
  unfolding complete_login_totp_def check_totp_def record_totp_failure_def
  by (intro keeps_intro keeps_find keeps_count totp challenge keeps_totp_session assms)

lemma keeps_start: "keeps (on_db J) (start_totp_enrollment env rnd nonce a pw inp now)"
  unfolding start_totp_enrollment_def Let_def by (intro keeps_intro keeps_count keeps_find totp)

lemma keeps_confirm: "keeps (on_db J) (confirm_totp_enrollment env a code inp now)"
  unfolding confirm_totp_enrollment_def record_totp_failure_def audit_totp_def by (intro keeps_intro keeps_event totp)

lemma keeps_disable_totp: "keeps (on_db J) (disable_totp env a code inp now)"
  unfolding disable_totp_def record_totp_failure_def audit_totp_def by (intro keeps_intro keeps_event totp)

text \<open>Sessions\<close>

lemma keeps_authenticate: "keeps (on_db J) (authenticate env token tch ip now)"
  unfolding authenticate_def touch_authenticated_def by (intro keeps_intro touch touch_dev)

lemma keeps_valid_session: "keeps (on_db J) (validate_session i now)"
  unfolding validate_session_def by (intro keeps_intro)

lemma keeps_revoke: "keeps (on_db J) (revoke_session a i inp now)"
  unfolding revoke_session_def by (intro keeps_intro keeps_audit revoke)

lemma keeps_logout: "keeps (on_db J) (logout a inp now)"
  unfolding logout_def by (intro keeps_intro keeps_audit revoke)

lemma keeps_rename: "keeps (on_db J) (rename_device a i name)"
  unfolding rename_device_def by (intro keeps_intro rename)

lemma keeps_password: "keeps (on_db J) (change_password env a cur new inp now)"
  unfolding change_password_def change_password_tx_def
  by (intro keeps_intro keeps_find keeps_check_exec audit_row password revoke)

lemma keeps_reset: "keeps (on_db J) (reset_password_by_admin env a i pw inp now)"
  unfolding reset_password_by_admin_def reset_password_tx_def by (intro keeps_intro keeps_event password revoke)

lemma keeps_cleanup: "keeps (on_db J) (exec AuthIO (delete_expired_challenges t n))"
  by (intro keeps_intro challenge)

lemmas keeps_operations = keeps_create keeps_bootstrap keeps_disable keeps_delete keeps_login keeps_complete_login
  keeps_authenticate keeps_valid_session keeps_revoke keeps_logout keeps_rename keeps_password keeps_reset keeps_cleanup keeps_start keeps_confirm keeps_disable_totp

lemma step_keeps:
  assumes "on_db J w" "\<And>r. draws (fst c) = Some r \<Longrightarrow> fresh (ae_sha env r)" "\<And>i. deletes (fst c) = Some i \<Longrightarrow> removable i"
  shows "on_db J (auth_step env c w)"
proof -
  obtain cmd now where c: "c = (cmd, now)" by fastforce
  show ?thesis
    using assms unfolding c auth_step_def
    by (cases cmd) (simp_all add: draws_def deletes_def keeps_operations [unfolded keeps_def, rule_format])
qed

lemma run_keeps:
  assumes "on_db J w" "\<forall>c\<in>set cs. \<forall>r. draws (fst c) = Some r \<longrightarrow> fresh (ae_sha env r)"
    "\<forall>c\<in>set cs. \<forall>i. deletes (fst c) = Some i \<longrightarrow> removable i"
  shows "on_db J (fold (auth_step env) cs w)"
  using assms
proof (induction cs arbitrary: w)
  case (Cons c cs)
  have "on_db J (auth_step env c w)" by (rule step_keeps) (use Cons.prems in auto)
  with Cons show ?case by simp
qed simp

end

section \<open>The integrity of the tables\<close>

text \<open>Identifiers, names and tokens are unique; devices belong to users, and sessions to a device of their user; no session
  outlives its absolute limit, which is ninety days after it was opened.\<close>

definition session_span :: "session \<Rightarrow> bool" where
  "session_span s \<longleftrightarrow> ses_expires_at s \<le> absolute_expires_at s \<and> absolute_expires_at s = ses_created_at s + absolute_lifetime"

definition identity_ok :: "db \<Rightarrow> bool" where
  "identity_ok d \<longleftrightarrow> distinct (map usr_id (users d)) \<and> distinct (map username (users d)) \<and> distinct (map dev_id (devices d))
     \<and> distinct (map ses_id (sessions d)) \<and> distinct (map token_hash (sessions d))
     \<and> distinct (map totp_user (user_totps d)) \<and> distinct (map tc_id (totp_challenges d)) \<and> distinct (map tc_token_hash (totp_challenges d))
     \<and> set (map dev_user (devices d)) \<subseteq> set (map usr_id (users d))
     \<and> set (map (\<lambda>s. (ses_device s, ses_user s)) (sessions d)) \<subseteq> set (map (\<lambda>x. (dev_id x, dev_user x)) (devices d))
     \<and> (\<forall>s\<in>set (sessions d). session_span s)"

lemma new_user_simps [simp]:
  "usr_id (new_user i n dn h adm now) = i" "username (new_user i n dn h adm now) = n"
  "usr_status (new_user i n dn h adm now) = Active" "is_admin (new_user i n dn h adm now) = adm"
  by (simp_all add: new_user_def)

lemma fresh_session_simps [simp]:
  "ses_id (fresh_session i u dv h inp now) = i" "ses_user (fresh_session i u dv h inp now) = u"
  "ses_device (fresh_session i u dv h inp now) = dv" "token_hash (fresh_session i u dv h inp now) = h"
  "revoked_at (fresh_session i u dv h inp now) = None" "ses_created_at (fresh_session i u dv h inp now) = now"
  "ses_expires_at (fresh_session i u dv h inp now) = now + idle_lifetime"
  "absolute_expires_at (fresh_session i u dv h inp now) = now + absolute_lifetime"
  by (simp_all add: fresh_session_def)

lemma idle_absolute: "idle_lifetime \<le> absolute_lifetime"
  by (simp add: idle_lifetime_def absolute_lifetime_def)

lemma all_update: "(\<forall>s\<in>set rows. P s) \<Longrightarrow> (\<And>s. P s \<Longrightarrow> p s \<Longrightarrow> P (f s)) \<Longrightarrow> \<forall>s\<in>set (sql_update p f rows). P s"
  by (auto simp: set_sql_update)

lemma upsert_cases:
  "snd (upsert_pending_totp t d) = d
   \<or> (totp_user t \<notin> totp_user ` set (user_totps d) \<and> snd (upsert_pending_totp t d) = d\<lparr>user_totps := user_totps d @ [t]\<rparr>)
   \<or> snd (upsert_pending_totp t d) = d\<lparr>user_totps := sql_update (\<lambda>y. totp_user y = totp_user t) (\<lambda>y. t\<lparr>totp_id := totp_id y\<rparr>) (user_totps d)\<rparr>"
proof -
  have "by_key totp_user (totp_user t) (user_totps d) = None \<Longrightarrow> totp_user t \<notin> totp_user ` set (user_totps d)"
    by (auto simp: by_key_def find_None_iff)
  then show ?thesis by (auto simp: upsert_pending_totp_def split: option.split)
qed

lemma ball_sql_update:
  "(\<And>s. p s \<Longrightarrow> P (f s) = P s) \<Longrightarrow> (\<forall>s\<in>set (sql_update p f rows). P s) = (\<forall>s\<in>set rows. P s)"
  by (induction rows) (simp_all add: sql_update_def)

lemma session_span_simps [simp]:
  "session_span (s\<lparr>revoked_at := r\<rparr>) = session_span s"
  "session_span s \<Longrightarrow> session_span (s\<lparr>last_seen_at := t, ses_expires_at := min e (absolute_expires_at s), last_ip := ip\<rparr>)"
  "session_span (fresh_session i u dv h inp now)"
  by (simp_all add: session_span_def idle_absolute)

lemma image_key_sql_update:
  "(\<And>r. p r \<Longrightarrow> k (f r) = k r) \<Longrightarrow> k ` set (sql_update p f rows) = k ` set rows"
  by (metis list.set_map map_key_sql_update)

lemma delete_user_rows_tables:
  "users (delete_user_rows i d) = sql_delete (\<lambda>u. usr_id u = i) (users d)"
  "devices (delete_user_rows i d) = sql_delete (\<lambda>x. dev_user x = i) (devices d)"
  "\<exists>p. sessions (delete_user_rows i d) = sql_delete (\<lambda>s. ses_user s = i \<or> p s) (sessions d)"
  "user_totps (delete_user_rows i d) = sql_delete (\<lambda>t. totp_user t = i) (user_totps d)"
  "\<exists>p. totp_challenges (delete_user_rows i d) = sql_delete (\<lambda>c. tc_user c = i \<or> p c) (totp_challenges d)"
  by (auto simp: delete_user_rows_def Let_def)

lemma identity_ok_delete:
  assumes "identity_ok d"
  shows "identity_ok (delete_user_rows i d)"
proof -
  obtain p q where t: "sessions (delete_user_rows i d) = sql_delete (\<lambda>s. ses_user s = i \<or> p s) (sessions d)"
    "totp_challenges (delete_user_rows i d) = sql_delete (\<lambda>c. tc_user c = i \<or> q c) (totp_challenges d)"
    using delete_user_rows_tables(3,5) [of i d] by blast
  have "set (map (\<lambda>s. (ses_device s, ses_user s)) (sql_delete (\<lambda>s. ses_user s = i \<or> p s) (sessions d)))
      \<subseteq> set (map (\<lambda>x. (dev_id x, dev_user x)) (sql_delete (\<lambda>x. dev_user x = i) (devices d)))"
  proof
    fix x assume "x \<in> set (map (\<lambda>s. (ses_device s, ses_user s)) (sql_delete (\<lambda>s. ses_user s = i \<or> p s) (sessions d)))"
    then have x: "x \<in> set (map (\<lambda>s. (ses_device s, ses_user s)) (sessions d))" "snd x \<noteq> i" by (auto simp: sql_simps)
    with assms have "x \<in> set (map (\<lambda>x. (dev_id x, dev_user x)) (devices d))" unfolding identity_ok_def by blast
    with x(2) show "x \<in> set (map (\<lambda>x. (dev_id x, dev_user x)) (sql_delete (\<lambda>x. dev_user x = i) (devices d)))"
      by (auto simp: sql_simps)
  qed
  moreover have "set (map dev_user (sql_delete (\<lambda>x. dev_user x = i) (devices d))) \<subseteq> set (map usr_id (sql_delete (\<lambda>u. usr_id u = i) (users d)))"
    using assms by (auto simp: identity_ok_def sql_simps image_iff subset_iff)
  moreover have "\<forall>s\<in>set (sql_delete (\<lambda>s. ses_user s = i \<or> p s) (sessions d)). session_span s"
    using assms by (simp add: identity_ok_def sql_simps)
  ultimately show ?thesis
    using assms unfolding identity_ok_def t delete_user_rows_tables(1,2,4) by (simp only: distinct_sql_delete simp_thms)
qed

lemma by_key_image: "by_key k i rows = Some r \<Longrightarrow> i \<in> k ` set rows"
  by (auto dest: by_key_SomeD)

interpretation identity: identity_law identity_ok "\<lambda>_. True" "\<lambda>_. True"
proof
  fix d i u dv h inp now x t c
  assume ok: "identity_ok d"
  note simps = identity_ok_def sql_simps map_key_sql_update image_key_sql_update ball_sql_update
  show "identity_ok (snd (insert_user (new_user i n dn h' adm now) d))" for n dn h' adm
    using ok by (auto simp: insert_user_def simps sql_exists_iff)
  show "identity_ok (snd (disable_user_row i now d))"
    using ok by (simp add: disable_user_row_def Let_def simps)
  show "identity_ok (snd (revoke_sessions_of i now d))"
    using ok by (simp add: revoke_sessions_of_def simps)
  show "identity_ok (snd (delete_user_row i d))"
    using ok by (simp add: delete_user_row_def Let_def identity_ok_delete)
  show "identity_ok (snd (update_password_hash i h' now d))" for h'
    using ok by (simp add: update_password_hash_def Let_def simps)
  show "identity_ok (snd (insert_device x d))"
    using ok by (auto simp: insert_device_def simps sql_exists_iff intro: by_key_image)
  show "identity_ok (snd (insert_session_row (fresh_session i u dv h inp now) d))" if "(dv, u) \<in> owner_pairs d"
    using ok that idle_absolute by (auto simp: insert_session_row_def simps sql_exists_iff owner_pairs_def)
  show "identity_ok (snd (touch_session i seen ex ip d))" for seen ex ip
  proof -
    have "\<forall>s\<in>set (sessions (snd (touch_session i seen ex ip d))). session_span s"
      using ok unfolding touch_session_def Let_def identity_ok_def by (simp, elim conjE) (rule all_update, simp_all)
    then show ?thesis using ok by (simp add: touch_session_def Let_def simps)
  qed
  show "identity_ok (snd (touch_device i u seen d))" for seen
    using ok by (simp add: touch_device_def simps)
  show "identity_ok (snd (revoke_where q now d))" for q
    using ok by (simp add: revoke_where_def Let_def simps)
  show "identity_ok (snd (rename_owned_device i u name d))" for name
    using ok by (simp add: rename_owned_device_def simps)
  show "identity_ok (snd (upsert_pending_totp t d))"
    using upsert_cases [of t d]
  proof (elim disjE conjE)
    assume "totp_user t \<notin> totp_user ` set (user_totps d)" "snd (upsert_pending_totp t d) = d\<lparr>user_totps := user_totps d @ [t]\<rparr>"
    with ok show ?thesis by (simp add: simps)
  qed (use ok in \<open>simp_all add: simps\<close>)
  show "identity_ok (snd (confirm_totp u nn ct v st now d))" "identity_ok (snd (delete_totp u d))"
    "identity_ok (snd (claim_totp_step u st d))" "identity_ok (snd (note_totp_failure u mx until d))" for nn ct v st mx until
    using ok by (simp_all add: confirm_totp_def delete_totp_def claim_totp_step_def note_totp_failure_def Let_def simps)
  show "identity_ok (snd (insert_challenge c d))" "identity_ok (snd (consume_challenge i u now d))"
    "identity_ok (snd (bump_challenge i d))" "identity_ok (snd (delete_expired_challenges now k d))" for k
    using ok by (auto simp: insert_challenge_def consume_challenge_def bump_challenge_def delete_expired_challenges_def Let_def
        simps sql_exists_iff)
  show "identity_ok (d\<lparr>audit_logs := ls\<rparr>)" for ls
    using ok by (simp add: simps)
qed

section \<open>Exclusion\<close>

definition shut_out :: "uuid \<Rightarrow> db \<Rightarrow> bool" where
  "shut_out i d \<longleftrightarrow> distinct (map usr_id (users d)) \<and> (\<exists>u\<in>set (users d). usr_id u = i \<and> usr_status u = Disabled)"

definition dead_token :: "bytes \<Rightarrow> db \<Rightarrow> bool" where
  "dead_token h d \<longleftrightarrow> (\<forall>s\<in>set (sessions d). token_hash s = h \<longrightarrow> revoked_at s \<noteq> None)"

lemma dead_token_update:
  "dead_token h d \<Longrightarrow> (\<And>s. p s \<Longrightarrow> token_hash (f s) = token_hash s \<and> (revoked_at s \<noteq> None \<longrightarrow> revoked_at (f s) \<noteq> None)) \<Longrightarrow>
   sessions d' = sql_update p f (sessions d) \<Longrightarrow> dead_token h d'"
  by (auto simp: dead_token_def set_sql_update)

lemma shut_out_update:
  assumes "shut_out i d" "\<And>u. usr_id (f u) = usr_id u" "\<And>u. usr_status u = Disabled \<Longrightarrow> usr_status (f u) = Disabled"
    and "users d' = sql_update p f (users d)"
  shows "shut_out i d'"
proof -
  have "map usr_id (users d') = map usr_id (users d)" using assms(2,4) by (simp add: map_key_sql_update)
  moreover obtain u where u: "u \<in> set (users d)" "usr_id u = i" "usr_status u = Disabled"
    using assms(1) by (auto simp: shut_out_def)
  then have "(if p u then f u else u) \<in> set (users d')" using assms(4) by (auto simp: set_sql_update)
  moreover have "usr_id (if p u then f u else u) = i" "usr_status (if p u then f u else u) = Disabled"
    using u assms(2,3) by auto
  ultimately show ?thesis using assms(1) unfolding shut_out_def by metis
qed

lemma upsert_frame: "users (snd (upsert_pending_totp t d)) = users d" "sessions (snd (upsert_pending_totp t d)) = sessions d"
  using upsert_cases [of t d] by auto

lemmas statement_defs = disable_user_row_def revoke_sessions_of_def update_password_hash_def insert_device_def insert_session_row_def
  touch_session_def touch_device_def revoke_where_def rename_owned_device_def confirm_totp_def delete_totp_def claim_totp_step_def
  note_totp_failure_def insert_challenge_def consume_challenge_def bump_challenge_def delete_expired_challenges_def Let_def

lemma users_frame:
  "users (snd (revoke_sessions_of i now d)) = users d" "users (snd (insert_device x d)) = users d"
  "users (snd (insert_session_row s d)) = users d" "users (snd (touch_session i now e ip d)) = users d"
  "users (snd (touch_device i u now d)) = users d" "users (snd (revoke_where q now d)) = users d"
  "users (snd (rename_owned_device i u n d)) = users d" "users (snd (confirm_totp u nn ct v st now d)) = users d"
  "users (snd (delete_totp u d)) = users d" "users (snd (claim_totp_step u st d)) = users d"
  "users (snd (note_totp_failure u mx now d)) = users d" "users (snd (insert_challenge c d)) = users d"
  "users (snd (consume_challenge i u now d)) = users d" "users (snd (bump_challenge i d)) = users d"
  "users (snd (delete_expired_challenges now k d)) = users d"
  by (simp_all add: statement_defs)

lemma sessions_frame:
  "sessions (snd (insert_user y d)) = sessions d" "sessions (snd (disable_user_row i now d)) = sessions d"
  "sessions (snd (update_password_hash i h now d)) = sessions d" "sessions (snd (insert_device x d)) = sessions d"
  "sessions (snd (touch_device i u now d)) = sessions d"
  "sessions (snd (rename_owned_device i u n d)) = sessions d" "sessions (snd (confirm_totp u nn ct v st now d)) = sessions d"
  "sessions (snd (delete_totp u d)) = sessions d" "sessions (snd (claim_totp_step u st d)) = sessions d"
  "sessions (snd (note_totp_failure u mx now d)) = sessions d" "sessions (snd (insert_challenge c d)) = sessions d"
  "sessions (snd (consume_challenge i u now d)) = sessions d" "sessions (snd (bump_challenge i d)) = sessions d"
  "sessions (snd (delete_expired_challenges now k d)) = sessions d"
  by (simp_all add: statement_defs insert_user_def)

interpretation disabled: identity_law "shut_out i" "\<lambda>_. True" "\<lambda>j. j \<noteq> i" for i
proof
  fix d j n dn h adm now
  assume ok: "shut_out i d"
  show "shut_out i (snd (insert_user (new_user j n dn h adm now) d))"
    using ok by (auto simp: insert_user_def shut_out_def sql_exists_iff)
  show "shut_out i (snd (disable_user_row j now d))"
    by (rule shut_out_update [OF ok]) (auto simp: disable_user_row_def Let_def)
  show "shut_out i (snd (update_password_hash j h now d))"
    by (rule shut_out_update [OF ok]) (auto simp: update_password_hash_def Let_def)
  show "shut_out i (snd (delete_user_row j d))" if "j \<noteq> i"
    using ok that by (auto simp: delete_user_row_def Let_def shut_out_def delete_user_rows_tables(1) sql_simps)
qed (simp_all add: shut_out_def upsert_frame users_frame)

interpretation dead: identity_law "dead_token h" "\<lambda>h'. h' \<noteq> h" "\<lambda>_. True" for h
proof
  fix d i h' dv u inp now seen ex ip q
  assume ok: "dead_token h d"
  show "dead_token h (snd (revoke_sessions_of i now d))"
    by (rule dead_token_update [OF ok]) (auto simp: revoke_sessions_of_def split: option.splits)
  show "dead_token h (snd (delete_user_row i d))"
    using ok delete_user_rows_tables(3) [of i d] by (auto simp: delete_user_row_def Let_def dead_token_def sql_simps)
  show "dead_token h (snd (insert_session_row (fresh_session i u dv h' inp now) d))" if "h' \<noteq> h"
    using ok that by (auto simp: insert_session_row_def dead_token_def)
  show "dead_token h (snd (touch_session i seen ex ip d))"
    by (rule dead_token_update [OF ok]) (auto simp: touch_session_def Let_def)
  show "dead_token h (snd (revoke_where q now d))"
    by (rule dead_token_update [OF ok]) (auto simp: revoke_where_def Let_def)
qed (simp_all add: dead_token_def upsert_frame sessions_frame)

end
