(* ===== verification/SignIn.thy ===== *)
theory SignIn
  imports AuthLaws
begin

text \<open>
  What signing in, the second factor and the sessions promise: who is authenticated is entitled to it, what opens a
  session and what ends one, the round trip from a login to the request that carries its token, and the codes of
  the second factor.
\<close>

section \<open>What a successful call relies on\<close>

text \<open>The authentication \<open>a\<close> stands for a live session of an active user on a device of that user.\<close>

definition entitled :: "time \<Rightarrow> session \<Rightarrow> authn \<Rightarrow> db \<Rightarrow> bool" where
  "entitled now s a d \<longleftrightarrow> s \<in> set (sessions d) \<and> revoked_at s = None \<and> now < ses_expires_at s
     \<and> now < ses_created_at s + absolute_lifetime
     \<and> (\<exists>u\<in>set (users d). usr_id u = ses_user s \<and> usr_status u = Active \<and> au_user a = without_hash u)
     \<and> (\<exists>x\<in>set (devices d). dev_id x = ses_device s \<and> dev_user x = ses_user s \<and> dev_id (au_device a) = dev_id x)
     \<and> ses_id (au_session a) = ses_id s"

lemma auth_of_session_SomeD:
  assumes "auth_of_session s d = Some a"
  shows "\<exists>u\<in>set (users d). usr_id u = ses_user s \<and> au_user a = without_hash u"
    "au_device a \<in> set (devices d)" "dev_id (au_device a) = ses_device s" "au_session a = s"
  using assms by (auto simp: auth_of_session_def without_hash_def split: option.splits dest!: by_key_SomeD)

lemma without_hash_simps [simp]: "usr_id (without_hash u) = usr_id u" "usr_status (without_hash u) = usr_status u"
  "username (without_hash u) = username u" "is_admin (without_hash u) = is_admin u"
  by (simp_all add: without_hash_def)

lemma span_of: "identity_ok d \<Longrightarrow> s \<in> set (sessions d) \<Longrightarrow> absolute_expires_at s = ses_created_at s + absolute_lifetime"
  by (auto simp: identity_ok_def session_span_def)

lemma auth_by_hash_entitled:
  assumes ok: "identity_ok d" and a: "auth_by_hash h d = Some a" and v: "auth_valid now a = None"
  shows "\<exists>s. entitled now s a d \<and> token_hash s = h"
proof -
  from a obtain s where s: "by_key token_hash h (sessions d) = Some s" "auth_of_session s d = Some a"
    and o: "dev_user (au_device a) = ses_user s"
    by (auto simp: auth_by_hash_def split: option.splits if_splits)
  note f = auth_of_session_SomeD [OF s(2)] and k = by_key_SomeD [OF s(1)]
  from f(1) obtain u where "u \<in> set (users d)" "usr_id u = ses_user s" "au_user a = without_hash u" by blast
  then have "entitled now s a d"
    using v f(2-4) o k span_of [OF ok, of s] unfolding entitled_def auth_valid_def by (auto split: if_splits)
  then show ?thesis using k by blast
qed

lemma auth_by_session_entitled:
  assumes ok: "identity_ok d" and a: "auth_by_session i d = Some a" and v: "auth_valid now a = None"
  shows "\<exists>s. entitled now s a d \<and> ses_id s = i"
proof -
  from a obtain s b where s: "by_key ses_id i (sessions d) = Some s" "auth_of_session s d = Some b"
    and b: "a = b\<lparr>au_device := (au_device b)\<lparr>dev_user := usr_id (au_user b)\<rparr>\<rparr>"
    by (auto simp: auth_by_session_def split: option.splits)
  note f = auth_of_session_SomeD [OF s(2)] and k = by_key_SomeD [OF s(1)]
  from f(1) obtain u where u: "u \<in> set (users d)" "usr_id u = ses_user s" "au_user b = without_hash u" by blast
  have "(ses_device s, ses_user s) \<in> set (map (\<lambda>x. (dev_id x, dev_user x)) (devices d))"
    using ok k unfolding identity_ok_def by auto
  then have "\<exists>x\<in>set (devices d). dev_id x = ses_device s \<and> dev_user x = ses_user s" by auto
  then have "entitled now s a d"
    using v f(2-4) u k span_of [OF ok, of s] unfolding entitled_def auth_valid_def b by (auto split: if_splits)
  with k show ?thesis by blast
qed

lemma touch_authenticated_Inr:
  "touch_authenticated a ip now w = (Inr b, w') \<Longrightarrow> au_user b = au_user a \<and> dev_id (au_device b) = dev_id (au_device a)
     \<and> ses_id (au_session b) = ses_id (au_session a)"
  unfolding touch_authenticated_def by (auto simp: act_Inr Let_def split: option.splits if_splits)

lemma entitled_same:
  "entitled now s a d \<Longrightarrow> au_user b = au_user a \<Longrightarrow> dev_id (au_device b) = dev_id (au_device a) \<Longrightarrow>
   ses_id (au_session b) = ses_id (au_session a) \<Longrightarrow> entitled now s b d"
  by (simp add: entitled_def)

lemma authenticate_Inr:
  assumes ok: "identity_ok (wdb w)" and r: "authenticate env token tch ip now w = (Inr b, w')"
  shows "\<exists>s. entitled now s b (wdb w) \<and> hash_session_token (ae_sha env) token = Some (token_hash s)"
proof -
  from r obtain h a w1 where h: "hash_session_token (ae_sha env) token = Some h"
    and q: "query AuthIO (auth_by_hash h) w = (Inr (Some a), w1)" and v: "auth_valid now a = None"
    and t: "(if tch then touch_authenticated a ip now else ret a) w1 = (Inr b, w')"
    unfolding authenticate_def by (auto simp: act_Inr split: option.splits)
  from query_Inr [OF q] have "auth_by_hash h (wdb w) = Some a" by simp
  from auth_by_hash_entitled [OF ok this v] obtain s where s: "entitled now s a (wdb w)" "token_hash s = h" by blast
  have "au_user b = au_user a \<and> dev_id (au_device b) = dev_id (au_device a) \<and> ses_id (au_session b) = ses_id (au_session a)"
    using t touch_authenticated_Inr [of a ip now w1 b w'] by (cases tch) (auto simp: ret_run)
  with s entitled_same h show ?thesis by blast
qed

lemma validate_session_Inr:
  assumes ok: "identity_ok (wdb w)" and r: "validate_session i now w = (Inr a, w')"
  shows "\<exists>s. entitled now s a (wdb w) \<and> ses_id s = i"
proof -
  from r obtain w1 where q: "query AuthIO (auth_by_session i) w = (Inr (Some a), w1)" and v: "auth_valid now a = None"
    unfolding validate_session_def by (auto simp: act_Inr mapErr_run split: option.splits sum.splits prod.splits)
  from query_Inr [OF q] have "auth_by_session i (wdb w) = Some a" by simp
  from auth_by_session_entitled [OF ok this v] show ?thesis .
qed

section \<open>What opens a session\<close>

definition password_fits :: "auth_env \<Rightarrow> login_input \<Rightarrow> user \<Rightarrow> db \<Rightarrow> bool" where
  "password_fits env inp u d \<longleftrightarrow>
     (case normalize_username (ae_lower env) (li_username inp) of Inl _ \<Rightarrow> False | Inr n \<Rightarrow> by_key username n (users d) = Some u)
     \<and> usr_status u = Active \<and> length (li_password inp) \<le> 1024
     \<and> (case ae_verify env (password_hash u) (li_password inp) of None \<Rightarrow> False | Some (fits, _) \<Rightarrow> fits)"

text \<open>No session was handed out.\<close>

definition refused :: "auth_err + login_result \<Rightarrow> bool" where
  "refused r \<longleftrightarrow> (case r of Inl _ \<Rightarrow> True | Inr (SignedIn _ _) \<Rightarrow> False | Inr (TotpChallenge _ _ _) \<Rightarrow> True)"

lemma refused_simps [simp]: "refused (Inl e)" "refused (Inr (TotpChallenge t x u))" "\<not> refused (Inr (SignedIn a t))"
  by (simp_all add: refused_def)

lemma audit_quietly_Inr: "fst (audit_quietly kind u dv ses inp now w) = Inr ()"
  by (auto simp: audit_quietly_def bindA_run tryA_run ret_run split: sum.splits prod.splits)

lemma fail_login_Inl: "fail_login name inp now w \<noteq> (Inr x, w')"
  by (auto simp: fail_login_def act_Inr)

text \<open>The sessions are left as they are, and none is handed out.\<close>

abbreviation sessions_are :: "session list \<Rightarrow> world \<Rightarrow> bool" where
  "sessions_are ss \<equiv> on_db (\<lambda>d. sessions d = ss)"

abbreviation no_session :: "db \<Rightarrow> (world, auth_err, login_result) act \<Rightarrow> bool" where
  "no_session d m \<equiv> triple (\<lambda>w. wdb w = d) m (\<lambda>r w. sessions_are (sessions d) w \<and> refused (Inr r)) (sessions_are (sessions d))"

lemma keeps_sessions_audit: "keeps (sessions_are ss) (audit_quietly kind u dv ses inp now)"
  unfolding audit_quietly_def
  by (intro keeps_intro) (auto simp: insert_auth_audit_def insert_audit_def)

lemma no_session_fail: "no_session d (fail_login name inp now)"
proof -
  have "keeps (sessions_are (sessions d)) (fail_login name inp now :: (world, auth_err, login_result) act)"
    unfolding fail_login_def count_failure_def by (intro keeps_intro keeps_failure_audits keeps_sessions_audit)
  then show ?thesis
    by (intro tripleI) (auto simp: fail_login_Inl on_db_def dest: keepsD)
qed

lemma no_session_throw: "no_session d (throw e)"
  by (rule triple_throw) (simp add: on_db_def)

lemma triple_limiter: "(\<And>w l. P w \<Longrightarrow> P (w\<lparr>rate_limits := l\<rparr>)) \<Longrightarrow> triple P (limiter f) (\<lambda>_. P) E"
  by (simp add: triple_def limiter_def split_beta)

lemma on_db_limits [simp]: "on_db J (w\<lparr>rate_limits := l\<rparr>) = on_db J w"
  by (simp add: on_db_def)

lemma triple_assume: "(B \<Longrightarrow> triple P m Q E) \<Longrightarrow> triple (\<lambda>w. P w \<and> B) m Q E"
  by (auto simp: triple_def)

lemma triple_find_user:
  "triple (\<lambda>w. wdb w = d) (find_user n) (\<lambda>r w. wdb w = d \<and> r = by_key username n (users d)) (sessions_are (sessions d))"
proof (rule tripleI)
  show "wdb w' = d \<and> r = by_key username n (users d)" if "wdb w = d" "find_user n w = (Inr r, w')" for w r w'
    using that by (auto simp: find_user_def act_Inr dest: query_Inr)
  show "sessions_are (sessions d) w'" if "wdb w = d" "find_user n w = (Inl e, w')" for w e w'
    using that by (cases "query AuthIO (\<lambda>d. (pg_text n, by_key username n (users d))) w")
      (auto simp: find_user_def bindA_run ret_run throw_run on_db_def dest: query_result split: sum.splits if_splits)
qed

lemma new_challenge_sessions:
  "triple (sessions_are ss) (new_login_challenge env rnd u inp now) (\<lambda>r w. sessions_are ss w \<and> refused (Inr r)) (sessions_are ss)"
proof -
  have k: "keeps (sessions_are ss) (new_login_challenge env rnd u inp now)"
    unfolding new_login_challenge_def check_exec_def by (intro keeps_intro) (auto simp: sessions_frame)
  moreover have "refused (Inr r)" if "new_login_challenge env rnd u inp now w = (Inr r, w')" for r w w'
    using that by (auto simp: new_login_challenge_def act_Inr Let_def split: option.splits)
  ultimately show ?thesis by (intro tripleI) (blast dest: keepsD)+
qed

definition same_factor :: "db \<Rightarrow> uuid \<Rightarrow> user \<Rightarrow> world \<Rightarrow> bool" where
  "same_factor d i u w \<longleftrightarrow> sessions (wdb w) = sessions d \<and> user_totps (wdb w) = user_totps d \<and> usr_id u = i"

lemma triple_renew:
  "triple (\<lambda>w. wdb w = d) (if rehash then renew_hash env u pw now else ret u) (same_factor d (usr_id u)) (sessions_are (sessions d))"
proof (intro triple_if triple_ret)
  have k: "keeps (on_db (\<lambda>d'. sessions d' = sessions d \<and> user_totps d' = user_totps d)) (renew_hash env u pw now)"
    unfolding renew_hash_def by (intro keeps_intro) (auto simp: update_password_hash_def Let_def)
  moreover have "usr_id v = usr_id u" if "renew_hash env u pw now w = (Inr v, w')" for v w w'
    using that by (auto simp: renew_hash_def act_Inr split: option.splits)
  ultimately show "triple (\<lambda>w. wdb w = d) (renew_hash env u pw now) (same_factor d (usr_id u)) (sessions_are (sessions d))"
    by (intro tripleI) (auto simp: same_factor_def on_db_def dest: keepsD)
qed (simp add: same_factor_def)

lemma triple_totp_enabled:
  "triple (same_factor d i u) (totp_enabled (usr_id u)) (\<lambda>t w. sessions_are (sessions d) w \<and> t = second_factor i d) (sessions_are (sessions d))"
  unfolding totp_enabled_def
  by (rule tripleI) (auto simp: same_factor_def on_db_def second_factor_def dest!: query_result)

lemma no_session_accepted:
  assumes "second_factor (usr_id u) d \<noteq> None"
  shows "no_session d (password_accepted env rnd u rehash name inp now)"
  unfolding password_accepted_def
  by (rule triple_bind [OF triple_renew], rule triple_bind [OF triple_totp_enabled], rule triple_assume)
    (use assms in \<open>auto intro!: triple_bind [OF triple_limiter] triple_throw new_challenge_sessions\<close>)

lemma login_sessions:
  assumes no: "\<And>u. password_fits env inp u d \<Longrightarrow> second_factor (usr_id u) d \<noteq> None"
  shows "no_session d (login env rnd inp now)"
proof -
  let ?norm = "normalize_username (ae_lower env) (li_username inp)"
  have acc: "no_session d (password_accepted env rnd u rehash name inp now)"
    if "?norm = Inr name" "by_key username name (users d) = Some u" "usr_status u = Active" "\<not> 1024 < length (li_password inp)"
      "ae_verify env (password_hash u) (li_password inp) = Some (True, rehash)" for name u rehash
    by (rule no_session_accepted, rule no) (use that in \<open>simp add: password_fits_def\<close>)
  show ?thesis unfolding login_def Let_def
    by (rule triple_bind [OF triple_limiter [where P = "\<lambda>w. wdb w = d"]], simp)
      (auto intro!: triple_if no_session_throw no_session_fail triple_bind [OF triple_find_user] triple_assume acc
        split: sum.split option.split)
qed

section \<open>The second factor\<close>

definition factor_shown :: "auth_env \<Rightarrow> string \<Rightarrow> string \<Rightarrow> time \<Rightarrow> totp_challenge \<Rightarrow> user_totp \<Rightarrow> int \<Rightarrow> db \<Rightarrow> bool" where
  "factor_shown env token code now c t step d \<longleftrightarrow>
     c \<in> set (totp_challenges d) \<and> hash_session_token (ae_sha env) token = Some (tc_token_hash c)
     \<and> tc_consumed_at c = None \<and> now < tc_expires_at c \<and> tc_attempts c < max_challenge_attempts
     \<and> (\<exists>u\<in>set (users d). usr_id u = tc_user c \<and> usr_status u = Active)
     \<and> second_factor (tc_user c) d = Some t \<and> \<not> locked_at now t
     \<and> (\<exists>secret. stored_secret env (tc_user c) t = Some secret
           \<and> validate_totp (ae_hmac env) secret code (unix_seconds now) (last_step t) = Some step)"

text \<open>The step and the challenge are used up.\<close>

definition factor_spent :: "totp_challenge \<Rightarrow> int \<Rightarrow> time \<Rightarrow> db \<Rightarrow> bool" where
  "factor_spent c step now d \<longleftrightarrow>
     (\<exists>t\<in>set (user_totps d). totp_user t = tc_user c \<and> last_used_step t = Some step)
     \<and> (\<exists>c'\<in>set (totp_challenges d). tc_id c' = tc_id c \<and> tc_consumed_at c' = Some now)"

lemma some_updated:
  "sql_count p rows \<noteq> 0 \<Longrightarrow> rows' = sql_update p f rows \<Longrightarrow> (\<And>r. p r \<Longrightarrow> Q (f r)) \<Longrightarrow> \<exists>r\<in>set rows'. Q r"
  by (auto simp: sql_count_0 set_sql_update)

lemma ex_sql_update: "\<exists>r\<in>set rows. Q r \<Longrightarrow> (\<And>r. Q r \<Longrightarrow> Q (f r)) \<Longrightarrow> \<exists>r\<in>set (sql_update p f rows). Q r"
  by (auto simp: set_sql_update)

lemma complete_tx_spent:
  assumes "complete_totp_tx c step dvid sid h inp now w = (Inr r, w')"
  shows "factor_spent c step now (wdb w')"
proof -
  have k: "keeps (on_db (factor_spent c step now)) (check_exec (insert_device x))"
    "keeps (on_db (factor_spent c step now)) (check_exec (insert_session_row s))" for x s
    unfolding check_exec_def
    by (intro keeps_intro; auto simp: factor_spent_def insert_device_def insert_session_row_def)+
  have rest: "keeps (on_db (factor_spent c step now)) (open_totp_session c dvid sid h inp now)"
    unfolding open_totp_session_def by (intro keeps_intro k)
  from assms obtain w1 w2 where c1: "exec AuthIO (claim_totp_step (tc_user c) step) w = (Inr 1, w1)"
    and c2: "exec AuthIO (consume_challenge (tc_id c) (tc_user c) now) w1 = (Inr 1, w2)"
    and r: "open_totp_session c dvid sid h inp now w2 = (Inr r, w')"
    unfolding complete_totp_tx_def by (elim bindA_InrE) (auto simp: throw_run elim!: bindA_InrE split: if_splits)
  let ?p = "\<lambda>t. totp_user t = tc_user c \<and> enabled_at t \<noteq> None \<and> (case last_used_step t of None \<Rightarrow> True | Some l \<Rightarrow> l < step)"
  let ?q = "\<lambda>x. tc_id x = tc_id c \<and> tc_user x = tc_user c \<and> tc_consumed_at x = None \<and> now < tc_expires_at x"
  have "sql_count ?p (user_totps (wdb w)) \<noteq> 0" "user_totps (wdb w1) = sql_update ?p
      (\<lambda>t. t\<lparr>last_used_step := Some step, failed_attempts := 0, locked_until := None\<rparr>) (user_totps (wdb w))"
    using exec_Inr [OF c1] by (simp_all add: claim_totp_step_def Let_def)
  then have "\<exists>t\<in>set (user_totps (wdb w1)). totp_user t = tc_user c \<and> last_used_step t = Some step"
    by (rule some_updated) simp
  moreover have "sql_count ?q (totp_challenges (wdb w1)) \<noteq> 0"
      "totp_challenges (wdb w2) = sql_update ?q (\<lambda>c. c\<lparr>tc_consumed_at := Some now\<rparr>) (totp_challenges (wdb w1))"
    using exec_Inr [OF c2] by (simp_all add: consume_challenge_def Let_def)
  then have "\<exists>c'\<in>set (totp_challenges (wdb w2)). tc_id c' = tc_id c \<and> tc_consumed_at c' = Some now"
    by (rule some_updated) simp
  moreover have "user_totps (wdb w2) = user_totps (wdb w1)"
    using exec_Inr [OF c2] by (simp add: consume_challenge_def Let_def)
  ultimately have "on_db (factor_spent c step now) w2" by (simp add: factor_spent_def on_db_def)
  from keepsD [OF rest this r] show ?thesis by (simp add: on_db_def)
qed

text \<open>Either no session appears, or the transaction took effect.\<close>

abbreviation spent_or_same :: "session list \<Rightarrow> totp_challenge \<Rightarrow> int \<Rightarrow> time \<Rightarrow> world \<Rightarrow> bool" where
  "spent_or_same ss c step now \<equiv> on_db (\<lambda>d. sessions d = ss \<or> factor_spent c step now d)"

lemma triple_new_id_db: "triple (\<lambda>w. wdb w = d) (new_id e) (\<lambda>_ w. wdb w = d) (\<lambda>w. wdb w = d)"
  by (rule tripleI) (auto simp: new_id_def split: list.splits option.splits)

lemma complete_tx_commits: "complete_totp_tx c step dvid sid h inp now w = (Inr (b, x), w') \<Longrightarrow> b"
  unfolding complete_totp_tx_def open_totp_session_def by (auto simp: act_Inr Let_def)

lemma triple_complete_tx:
  "triple (\<lambda>w. wdb w = d) (in_tx AuthIO (complete_totp_tx c step dvid sid h inp now)) (\<lambda>_. on_db (factor_spent c step now))
     (spent_or_same (sessions d) c step now)"
proof (rule tripleI)
  fix w x w' assume "wdb w = d" "in_tx AuthIO (complete_totp_tx c step dvid sid h inp now) w = (Inr x, w')"
  from this(2) show "on_db (factor_spent c step now) w'"
    by (cases rule: in_tx_Inr) (auto simp: on_db_def dest: complete_tx_spent complete_tx_commits)
next
  fix w e w' assume d: "wdb w = d" and r: "in_tx AuthIO (complete_totp_tx c step dvid sid h inp now) w = (Inl e, w')"
  from r show "spent_or_same (sessions d) c step now w'"
    by (cases rule: in_tx_effect) (use d in \<open>auto simp: on_db_def dest: complete_tx_spent\<close>)
qed

lemma keeps_spent_audit: "keeps (on_db (factor_spent c step now)) (audit_quietly k u dv s inp t)"
  unfolding audit_quietly_def by (intro keeps_intro) (auto simp: insert_auth_audit_def insert_audit_def factor_spent_def)

lemma triple_totp_session:
  "triple (\<lambda>w. wdb w = d) (totp_session env rnd c u step inp now) (\<lambda>_. on_db (factor_spent c step now))
     (spent_or_same (sessions d) c step now)"
proof -
  have id: "triple (\<lambda>w. wdb w = d) (new_id AuthIO) (\<lambda>_ w. wdb w = d) (spent_or_same (sessions d) c step now)"
    by (rule triple_weaken [OF triple_new_id_db]) (auto simp: on_db_def)
  have tx: "triple (\<lambda>w. wdb w = d) (tryA (in_tx AuthIO (complete_totp_tx c step dvid sid h inp now)))
      (\<lambda>r. case r of Inl _ \<Rightarrow> spent_or_same (sessions d) c step now | Inr _ \<Rightarrow> on_db (factor_spent c step now))
      (spent_or_same (sessions d) c step now)" for dvid sid h
    by (rule triple_try [OF triple_post [OF triple_complete_tx]]) auto
  have audit: "triple (on_db (factor_spent c step now)) (audit_quietly k u dv s inp t) (\<lambda>_. on_db (factor_spent c step now))
      (spent_or_same (sessions d) c step now)" for k u dv s t
    by (rule triple_weaken [OF triple_keeps [OF keeps_spent_audit]]) (auto simp: on_db_def)
  show ?thesis
    unfolding totp_session_def count_failure_def
    by (auto split: option.split prod.split sum.split simp: on_db_def [of _ "_ :: world"]
        intro!: triple_throw triple_bind [OF id] triple_bind [OF tx] triple_bind [OF triple_limiter] triple_bind [OF audit] triple_ret)
qed

abbreviation shown_and_spent :: "auth_env \<Rightarrow> string \<Rightarrow> string \<Rightarrow> time \<Rightarrow> db \<Rightarrow> db \<Rightarrow> bool" where
  "shown_and_spent env token code now d d' \<equiv>
     \<exists>c t step. factor_shown env token code now c t step d \<and> factor_spent c step now d'"

abbreviation shown_or_same :: "auth_env \<Rightarrow> string \<Rightarrow> string \<Rightarrow> time \<Rightarrow> db \<Rightarrow> world \<Rightarrow> bool" where
  "shown_or_same env token code now d \<equiv> on_db (\<lambda>d'. sessions d' = sessions d \<or> shown_and_spent env token code now d d')"

lemma triple_query_db: "triple (\<lambda>w. wdb w = d) (query e q) (\<lambda>x w. wdb w = d \<and> x = q d) (\<lambda>w. wdb w = d)"
  by (rule tripleI) (auto dest: query_result)

lemma triple_find_by_id:
  "triple (\<lambda>w. wdb w = d) (find_user_by_id i) (\<lambda>u w. wdb w = d \<and> by_key usr_id i (users d) = Some u) (\<lambda>w. wdb w = d)"
proof -
  have "triple (\<lambda>w. wdb w = d \<and> u = by_key usr_id i (users d)) (case u of None \<Rightarrow> throw AuthErrNotFound | Some u \<Rightarrow> ret u)
     (\<lambda>u w. wdb w = d \<and> by_key usr_id i (users d) = Some u) (\<lambda>w. wdb w = d)" for u
    by (auto intro!: triple_assume triple_throw triple_ret split: option.split)
  then show ?thesis unfolding find_user_by_id_def by (rule triple_bind [OF triple_query_db])
qed

lemma triple_check_totp:
  assumes "\<And>secret step. stored_secret env (usr_id u) t = Some secret \<Longrightarrow>
      validate_totp (ae_hmac env) secret code (unix_seconds now) (last_step t) = Some step \<Longrightarrow> factor_shown env token code now c t step d"
  shows "triple (\<lambda>w. wdb w = d) (check_totp env rnd c u t code inp now) (\<lambda>_. on_db (shown_and_spent env token code now d))
     (shown_or_same env token code now d)"
proof -
  have same: "sessions_are (sessions d) w \<Longrightarrow> shown_or_same env token code now d w" "wdb w = d \<Longrightarrow> sessions_are (sessions d) w" for w
    by (simp_all add: on_db_def)
  have k: "keeps (sessions_are (sessions d)) (record_totp_failure i now)"
      "keeps (sessions_are (sessions d)) (tryA (exec AuthIO (bump_challenge i)) :: (world, auth_err, auth_err + unit) act)"
      "keeps (sessions_are (sessions d)) (count_failure now ip n)" for i ip n
    unfolding record_totp_failure_def count_failure_def by (intro keeps_intro; simp add: sessions_frame)+
  have wrong: "triple (\<lambda>w. wdb w = d) (bindA (record_totp_failure (usr_id u) now) (\<lambda>_.
      bindA (tryA (exec AuthIO (bump_challenge (tc_id c)) :: (world, auth_err, unit) act)) (\<lambda>_.
      bindA (count_failure now (ip_string inp) (username u)) (\<lambda>_. throw AuthErrInvalidCredentials))))
      (\<lambda>_. on_db (shown_and_spent env token code now d)) (shown_or_same env token code now d)"
    by (rule triple_weaken [where P' = "sessions_are (sessions d)" and Q' = "\<lambda>_ _. False" and E' = "sessions_are (sessions d)"])
      (intro triple_bind [OF triple_keeps [OF k(1)]] triple_bind [OF triple_keeps [OF k(2)]] triple_bind [OF triple_keeps [OF k(3)]] triple_throw,
       simp_all add: on_db_def)
  have right: "triple (\<lambda>w. wdb w = d) (totp_session env rnd c u step inp now) (\<lambda>_. on_db (shown_and_spent env token code now d))
      (shown_or_same env token code now d)" if "factor_shown env token code now c t step d" for step
    by (rule triple_weaken [OF triple_totp_session]) (use that in \<open>auto simp: on_db_def\<close>)
  show ?thesis unfolding check_totp_def
    using assms by (auto intro!: triple_throw wrong right simp: on_db_def split: option.split)
qed

lemma complete_login_sessions:
  "triple (\<lambda>w. wdb w = d) (complete_login_totp env rnd token code inp now) (\<lambda>_. on_db (shown_and_spent env token code now d))
     (shown_or_same env token code now d)"
proof -
  have same: "wdb w = d \<Longrightarrow> shown_or_same env token code now d w" for w by (simp add: on_db_def)
  note weak = triple_weaken [where E = "shown_or_same env token code now d" and E' = "\<lambda>w. wdb w = d", OF _ _ _ same]
  have stop: "triple (\<lambda>w. wdb w = d) (throw e) (\<lambda>_. on_db (shown_and_spent env token code now d)) (shown_or_same env token code now d)"
    for e :: auth_err by (rule triple_throw) (rule same)
  have q: "triple (\<lambda>w. wdb w = d) (query AuthIO g) (\<lambda>x w. wdb w = d \<and> x = g d) (shown_or_same env token code now d)"
    for g :: "db \<Rightarrow> 'z" by (rule weak [OF triple_query_db]) auto
  have f: "triple (\<lambda>w. wdb w = d) (find_user_by_id i) (\<lambda>u w. wdb w = d \<and> by_key usr_id i (users d) = Some u)
      (shown_or_same env token code now d)" for i by (rule weak [OF triple_find_by_id]) auto
  have l: "triple (\<lambda>w. wdb w = d) (limiter g) (\<lambda>_ w. wdb w = d) (shown_or_same env token code now d)" for g :: "limits \<Rightarrow> 'z \<times> limits"
    by (rule triple_limiter) simp
  have check: "triple (\<lambda>w. wdb w = d) (check_totp env rnd c u t code inp now) (\<lambda>_. on_db (shown_and_spent env token code now d))
      (shown_or_same env token code now d)"
    if hc: "\<exists>h. hash_session_token (ae_sha env) token = Some h \<and> by_key tc_token_hash h (totp_challenges d) = Some c"
      and live: "tc_consumed_at c = None" "now < tc_expires_at c" "\<not> max_challenge_attempts \<le> tc_attempts c"
      and u: "by_key usr_id (tc_user c) (users d) = Some u" "usr_status u = Active"
      and t: "Some t = second_factor (usr_id u) d" "\<not> locked_at now t" for c u t
  proof (rule triple_check_totp)
    fix secret step assume s: "stored_secret env (usr_id u) t = Some secret"
      "validate_totp (ae_hmac env) secret code (unix_seconds now) (last_step t) = Some step"
    from hc obtain h where h: "hash_session_token (ae_sha env) token = Some h" "by_key tc_token_hash h (totp_challenges d) = Some c" by blast
    note k = by_key_SomeD [OF h(2)] by_key_SomeD [OF u(1)]
    show "factor_shown env token code now c t step d"
      using k h live u(2) t s unfolding factor_shown_def by auto
  qed
  show ?thesis unfolding complete_login_totp_def totp_enabled_def count_failure_def
    by (auto intro!: stop triple_bind [OF q] triple_bind [OF f] triple_bind [OF l] triple_assume check split: option.split if_split)
qed

section \<open>What ends sessions\<close>

lemma dead_token_refused:
  assumes "dead_token h (wdb w)" "hash_session_token (ae_sha env) token = Some h"
  shows "authenticate env token tch ip now w \<noteq> (Inr a, w')"
proof
  assume "authenticate env token tch ip now w = (Inr a, w')"
  then obtain b w1 where q: "query AuthIO (auth_by_hash h) w = (Inr (Some b), w1)" and v: "auth_valid now b = None"
    unfolding authenticate_def using assms(2) by (auto simp: act_Inr split: option.splits)
  from query_Inr [OF q] obtain s where s: "by_key token_hash h (sessions (wdb w)) = Some s" "auth_of_session s (wdb w) = Some b"
    by (auto simp: auth_by_hash_def split: option.splits if_splits)
  have "revoked_at s \<noteq> None" using by_key_SomeD [OF s(1)] assms(1) by (auto simp: dead_token_def)
  with v auth_of_session_SomeD(4) [OF s(2)] show False by (auto simp: auth_valid_def split: if_splits)
qed

lemma revoke_where_dead:
  assumes "s \<in> set (sessions d)" "q s" "distinct (map token_hash (sessions d))"
  shows "dead_token (token_hash s) (snd (revoke_where q now d))"
proof -
  have "x = s" if "x \<in> set (sessions d)" "token_hash x = token_hash s" for x
    using assms(1,3) that by (auto simp: distinct_map inj_on_def)
  with assms(1,2) show ?thesis by (auto simp: dead_token_def revoke_where_def Let_def set_sql_update)
qed

lemma reset_Inr:
  assumes "reset_password_by_admin env a i pw inp now w = (Inr (), w')"
  shows "sessions (wdb w') = sessions (snd (revoke_where (\<lambda>s. ses_user s = i) now (wdb w)))
    \<and> is_admin (au_user a) \<and> validate_password pw
    \<and> (\<exists>h. ae_hash env pw = Some h \<and> (\<forall>u\<in>set (users (wdb w')). usr_id u = i \<longrightarrow> password_hash u = h))"
proof -
  from assms obtain h where ok: "is_admin (au_user a)" "validate_password pw" "ae_hash env pw = Some h"
    and t: "in_tx AuthIO (reset_password_tx (actor_of a inp) i h now) w = (Inr (), w')"
    unfolding reset_password_by_admin_def by (auto simp: throw_run split: if_splits option.splits)
  have body: "sessions (wdb w2) = sessions (snd (revoke_where (\<lambda>s. ses_user s = i) now (wdb w1))) \<and> b
      \<and> (\<forall>u\<in>set (users (wdb w2)). usr_id u = i \<longrightarrow> password_hash u = h)"
    if "reset_password_tx (actor_of a inp) i h now w1 = (Inr (b, x), w2)" for b x w1 w2
  proof -
    from that obtain n m wa wb z where e: "exec AuthIO (update_password_hash i h now) w1 = (Inr n, wa)"
      "exec AuthIO (revoke_where (\<lambda>s. ses_user s = i) now) wa = (Inr m, wb)"
      "record_event AuthIO (user_password_reset (actor_of a inp) i) now wb = (Inr z, w2)" and b: b
      unfolding reset_password_tx_def act_Inr by auto
    have "sessions (wdb w2) = sessions (wdb wb)" "users (wdb w2) = users (wdb wb)" using record_event_Inr [OF e(3)] by auto
    moreover have "wdb wb = snd (revoke_where (\<lambda>s. ses_user s = i) now (wdb wa))" "wdb wa = snd (update_password_hash i h now (wdb w1))"
      using exec_Inr [OF e(1)] exec_Inr [OF e(2)] by simp_all
    moreover have "\<forall>u\<in>set (users (snd (update_password_hash i h now d))). usr_id u = i \<longrightarrow> password_hash u = h" for d
      unfolding update_password_hash_def Let_def sql_update_def by (simp add: ball_Un)
    moreover have "sessions (snd (revoke_where q now (snd (update_password_hash i h now d)))) = sessions (snd (revoke_where q now d))" for q d
      by (simp add: update_password_hash_def revoke_where_def Let_def)
    ultimately show ?thesis using b by (simp add: users_frame)
  qed
  from t show ?thesis
  proof (cases rule: in_tx_Inr)
    case (unchanged w0 w1)
    then show ?thesis using body [OF unchanged(2)] by simp
  next
    case (committed w0 w1)
    from body [OF committed(2)] have "sessions (wdb w1) = sessions (snd (revoke_where (\<lambda>s. ses_user s = i) now (wdb w)))"
      "\<forall>u\<in>set (users (wdb w')). usr_id u = i \<longrightarrow> password_hash u = h"
      unfolding committed(1,3) by simp_all
    with ok committed(3) show ?thesis by metis
  qed
qed

lemma logout_Inr:
  assumes "logout a inp now w = (Inr u, w')"
  shows "sessions (wdb w') = sessions (snd (revoke_where (\<lambda>s. ses_id s = ses_id (au_session a) \<and> ses_user s = usr_id (au_user a)) now (wdb w)))"
proof -
  let ?q = "\<lambda>s. ses_id s = ses_id (au_session a) \<and> ses_user s = usr_id (au_user a)"
  from assms obtain n w1 where e: "exec AuthIO (revoke_where ?q now) w = (Inr n, w1)"
    and q: "audit_quietly ''LOGOUT'' (Some (usr_id (au_user a))) (Some (dev_id (au_device a))) (Some (ses_id (au_session a))) inp now w1 = (Inr u, w')"
    unfolding logout_def act_Inr by auto
  have "sessions (wdb w') = sessions (wdb w1)"
    using keepsD [OF keeps_sessions_audit _ q, of "sessions (wdb w1)"] by (simp add: on_db_def)
  then show ?thesis using exec_Inr [OF e] by simp
qed

lemma disable_Inr:
  assumes "disable_user a i now w = (Inr (), w')" "identity_ok (wdb w)"
  shows "shut_out i (wdb w')"
proof -
  have body: "b \<and> shut_out i (wdb w2)" if t: "disable_user_tx a i now w1 = (Inr (b, x), w2)" and ok: "identity_ok (wdb w1)" for b x w1 w2
  proof -
    from t obtain n m wa wb z where e: "exec AccIO (disable_user_row i now) w1 = (Inr n, wa)" "n \<noteq> 0"
      "exec AccIO (revoke_sessions_of i now) wa = (Inr m, wb)"
      "record_event AccIO (user_disabled a i) now wb = (Inr z, w2)" and b: b
      unfolding disable_user_tx_def act_Inr by auto
    have u: "users (wdb w2) = sql_update (\<lambda>u. usr_id u = i) (\<lambda>u. u\<lparr>usr_status := Disabled, usr_updated_at := now\<rparr>) (users (wdb w1))"
      "sql_count (\<lambda>u. usr_id u = i) (users (wdb w1)) \<noteq> 0"
      using exec_Inr [OF e(1)] exec_Inr [OF e(3)] record_event_Inr [OF e(4)] e(2)
      by (auto simp: disable_user_row_def revoke_sessions_of_def Let_def)
    have "\<exists>u\<in>set (users (wdb w2)). usr_id u = i \<and> usr_status u = Disabled"
      by (rule some_updated [OF u(2,1)]) simp
    moreover have "map usr_id (users (wdb w2)) = map usr_id (users (wdb w1))" unfolding u(1) by (simp add: map_key_sql_update)
    ultimately show ?thesis using b ok by (simp add: shut_out_def identity_ok_def)
  qed
  from assms(1) [unfolded disable_user_def] show ?thesis
  proof (cases rule: in_tx_Inr)
    case (unchanged w0 w1)
    then show ?thesis using body [OF unchanged(2)] assms(2) by simp
  next
    case (committed w0 w1)
    then show ?thesis using body [OF committed(2)] assms(2) by simp
  qed
qed

section \<open>From a login to its requests\<close>

definition user_active :: "uuid \<Rightarrow> db \<Rightarrow> bool" where
  "user_active i d \<longleftrightarrow> (\<exists>u\<in>set (users d). usr_id u = i \<and> usr_status u = Active)"

lemma check_exec_Inr: "check_exec u w = (Inr x, w') \<Longrightarrow> fst (u (wdb w)) \<and> wdb w' = snd (u (wdb w))"
  by (auto simp: check_exec_def act_Inr dest!: exec_Inr)

lemma login_device_Inr:
  assumes "login_device u inp now w = (Inr x, w')"
  shows "x \<in> set (devices (wdb w')) \<and> users (wdb w') = users (wdb w)"
proof -
  from assms obtain known w1 where
    k: "(case li_device inp of None \<Rightarrow> ret None | Some i \<Rightarrow> query AuthIO (owned_device i (usr_id u))) w = (Inr known, w1)"
    and r: "(case known of Some x \<Rightarrow> ret x
      | None \<Rightarrow> if \<not> valid_device_name (device_name inp) then throw AuthErrValidation
          else bindA (new_id AuthIO) (\<lambda>i. let x = new_device i (usr_id u) (device_name inp) (cut_runes 512 (li_user_agent inp)) now in
            bindA (check_exec (insert_device x)) (\<lambda>_. ret x))) w1 = (Inr x, w')"
    unfolding login_device_def by (elim bindA_InrE)
  have d1: "wdb w1 = wdb w" and kn: "\<And>y. known = Some y \<Longrightarrow> y \<in> set (devices (wdb w))"
    using k by (auto simp: ret_run owned_device_def split: option.splits if_splits dest!: query_Inr by_key_SomeD)
  show ?thesis
  proof (cases known)
    case None
    with r obtain i w2 where i: "new_id AuthIO w1 = (Inr i, w2)"
      and x: "check_exec (insert_device x) w2 = (Inr (), w')"
      by (auto simp: act_Inr Let_def split: if_splits)
    from check_exec_Inr [OF x] new_id_Inr [OF i] d1 show ?thesis
      by (auto simp: insert_device_def split: if_splits)
  next
    case (Some y)
    with r d1 kn show ?thesis by (simp add: ret_run)
  qed
qed

definition live_session :: "auth_env \<Rightarrow> bytes \<Rightarrow> string \<Rightarrow> login_input \<Rightarrow> time \<Rightarrow> authn \<Rightarrow> db \<Rightarrow> bool" where
  "live_session env raw tok inp now a d \<longleftrightarrow> tok = encode64 raw
     \<and> au_session a = fresh_session (ses_id (au_session a)) (usr_id (au_user a)) (dev_id (au_device a)) (ae_sha env raw) inp now
     \<and> au_session a \<in> set (sessions d) \<and> au_device a \<in> set (devices d) \<and> user_active (usr_id (au_user a)) d"

lemma keeps_live_audit: "keeps (on_db (live_session env raw tok inp now a)) (audit_quietly k u dv s i t)"
  unfolding audit_quietly_def
  by (intro keeps_intro) (auto simp: insert_auth_audit_def insert_audit_def live_session_def user_active_def)

lemma open_session_Inr:
  assumes r: "open_session env rnd u name inp now w = (Inr (SignedIn a tok), w')" and act: "user_active (usr_id u) (wdb w)"
  shows "\<exists>raw. rnd = Some raw \<and> live_session env raw tok inp now a (wdb w')"
proof -
  from r obtain x w1 where x: "login_device u inp now w = (Inr x, w1)"
    and r1: "(case new_session_token (ae_sha env) rnd of None \<Rightarrow> throw AuthIO
      | Some (token, h) \<Rightarrow> bindA (new_id AuthIO) (\<lambda>i.
          let s = fresh_session i (usr_id u) (dev_id x) h inp now in
          bindA (check_exec (insert_session_row s)) (\<lambda>_.
          bindA (limiter (\<lambda>l. ((), limiter_success (ip_string inp) name l))) (\<lambda>_.
          bindA (audit_quietly ''LOGIN_SUCCESS'' (Some (usr_id u)) (Some (dev_id x)) (Some i) inp now) (\<lambda>_.
          ret (SignedIn \<lparr>au_user = without_hash u, au_device = x, au_session = s\<rparr> token)))))) w1 = (Inr (SignedIn a tok), w')"
    unfolding open_session_def by (elim bindA_InrE)
  then obtain raw where raw: "rnd = Some raw" by (cases rnd) (auto simp: new_session_token_def throw_run)
  with r1 obtain i w2 w3 w4 where i: "new_id AuthIO w1 = (Inr i, w2)"
    and s: "check_exec (insert_session_row (fresh_session i (usr_id u) (dev_id x) (ae_sha env raw) inp now)) w2 = (Inr (), w3)"
    and l: "limiter (\<lambda>l. ((), limiter_success (ip_string inp) name l)) w3 = (Inr () :: auth_err + unit, w4)"
    and q: "audit_quietly ''LOGIN_SUCCESS'' (Some (usr_id u)) (Some (dev_id x)) (Some i) inp now w4 = (Inr (), w')"
    and a: "a = \<lparr>au_user = without_hash u, au_device = x, au_session = fresh_session i (usr_id u) (dev_id x) (ae_sha env raw) inp now\<rparr>"
      "tok = encode64 raw"
    by (auto simp: new_session_token_def act_Inr Let_def)
  note d = login_device_Inr [OF x] new_id_Inr [OF i] check_exec_Inr [OF s]
  have "live_session env raw tok inp now a (wdb w3)"
    using d act a by (auto simp: live_session_def insert_session_row_def user_active_def split: if_splits)
  moreover have "wdb w4 = wdb w3" using l by (auto simp: limiter_def)
  ultimately have "on_db (live_session env raw tok inp now a) w4" by (simp add: on_db_def)
  from keepsD [OF keeps_live_audit this q] raw show ?thesis by (auto simp: on_db_def)
qed

lemma limiter_run: "limiter f w = (Inr (fst (f (rate_limits w))), w\<lparr>rate_limits := snd (f (rate_limits w))\<rparr>)"
  by (simp add: limiter_def split_beta)

lemma login_Inr:
  assumes r: "login env rnd inp now w = (Inr (SignedIn a tok), w')"
  shows "\<exists>raw. rnd = Some raw \<and> live_session env raw tok inp now a (wdb w')"
proof -
  let ?norm = "normalize_username (ae_lower env) (li_username inp)"
  obtain name where "name = (case ?norm of Inl _ \<Rightarrow> ''<invalid>'' | Inr n \<Rightarrow> n)" by simp
  note n = this [symmetric]
  from r obtain ok w1 where l: "limiter (limiter_allow now (ip_string inp) name) w = (Inr ok :: auth_err + bool, w1)"
    and r1: "(if \<not> ok then throw AuthErrRateLimited
      else if 1024 < length (li_password inp) then fail_login name inp now
      else (case ?norm of Inl _ \<Rightarrow> fail_login name inp now
        | Inr _ \<Rightarrow> bindA (find_user name) (\<lambda>found.
            (case found of None \<Rightarrow> fail_login name inp now
             | Some u \<Rightarrow>
                 if usr_status u \<noteq> Active then fail_login name inp now
                 else (case ae_verify env (password_hash u) (li_password inp) of
                     None \<Rightarrow> fail_login name inp now
                   | Some (fits, rehash) \<Rightarrow>
                       if \<not> fits then fail_login name inp now
                       else password_accepted env rnd u rehash name inp now))))) w1 = (Inr (SignedIn a tok), w')"
    unfolding login_def Let_def n by (elim bindA_InrE)
  have w1: "wdb w1 = wdb w" using l by (auto simp: limiter_def split_beta)
  from r1 have "bindA (find_user name) (\<lambda>found.
            (case found of None \<Rightarrow> fail_login name inp now
             | Some u \<Rightarrow>
                 if usr_status u \<noteq> Active then fail_login name inp now
                 else (case ae_verify env (password_hash u) (li_password inp) of
                     None \<Rightarrow> fail_login name inp now
                   | Some (fits, rehash) \<Rightarrow>
                       if \<not> fits then fail_login name inp now
                       else password_accepted env rnd u rehash name inp now))) w1 = (Inr (SignedIn a tok), w')"
    by (simp add: throw_run fail_login_Inl split: if_splits sum.splits)
  then obtain found w2 where f0: "find_user name w1 = (Inr found, w2)"
    and r2: "(case found of None \<Rightarrow> fail_login name inp now
             | Some u \<Rightarrow>
                 if usr_status u \<noteq> Active then fail_login name inp now
                 else (case ae_verify env (password_hash u) (li_password inp) of
                     None \<Rightarrow> fail_login name inp now
                   | Some (fits, rehash) \<Rightarrow>
                       if \<not> fits then fail_login name inp now
                       else password_accepted env rnd u rehash name inp now)) w2 = (Inr (SignedIn a tok), w')"
    by (elim bindA_InrE)
  from r2 obtain u rehash where u: "found = Some u" and act: "usr_status u = Active"
    and p: "password_accepted env rnd u rehash name inp now w2 = (Inr (SignedIn a tok), w')"
    by (auto simp: fail_login_Inl split: option.splits if_splits)
  note f = f0 [unfolded u]
  have "wdb w2 = wdb w1 \<and> u \<in> set (users (wdb w1))"
    using f by (auto simp: find_user_def act_Inr dest!: query_Inr dest: by_key_SomeD [OF sym])
  with act have ua: "on_db (user_active (usr_id u)) w2" by (auto simp: on_db_def user_active_def)
  from p obtain v w3 t w4 where v: "(if rehash then renew_hash env u (li_password inp) now else ret u) w2 = (Inr v, w3)"
    and t: "totp_enabled (usr_id v) w3 = (Inr t, w4)"
    and o: "open_session env rnd v name inp now w4 = (Inr (SignedIn a tok), w')"
    unfolding password_accepted_def by (auto simp: act_Inr new_login_challenge_def Let_def split: if_splits option.splits)
  have "keeps (on_db (user_active (usr_id u))) (if rehash then renew_hash env u (li_password inp) now else ret u)"
    unfolding renew_hash_def by (intro keeps_intro) (auto simp: user_active_def update_password_hash_def Let_def intro: ex_sql_update)
  from keepsD [OF this ua v] have "user_active (usr_id u) (wdb w3)" by (simp add: on_db_def)
  moreover have "usr_id v = usr_id u" using v by (auto simp: renew_hash_def act_Inr split: if_splits option.splits)
  moreover have "wdb w4 = wdb w3" using t by (auto simp: totp_enabled_def dest: query_Inr)
  ultimately show ?thesis using open_session_Inr [OF o] by simp
qed

lemma live_session_authenticates:
  assumes live: "live_session env raw tok inp now a d" and ok: "identity_ok d" and len: "length raw = 32"
    and d: "wdb w = d" "quiet w" and t: "t < now + idle_lifetime"
  shows "\<exists>b. authenticate env tok False ip t w = (Inr b, w) \<and> au_session b = au_session a \<and> au_device b = au_device a
     \<and> usr_id (au_user b) = usr_id (au_user a)"
proof -
  let ?s = "au_session a" and ?x = "au_device a" and ?h = "ae_sha env raw"
  from live obtain i where i: "au_session a = fresh_session i (usr_id (au_user a)) (dev_id ?x) ?h inp now"
    and tok: "tok = encode64 raw" and mem: "?s \<in> set (sessions d)" and dev: "?x \<in> set (devices d)"
    and act: "user_active (usr_id (au_user a)) d"
    unfolding live_session_def by blast
  have s: "by_key token_hash ?h (sessions d) = Some ?s"
    using mem ok by (simp add: by_key_eq_Some identity_ok_def i)
  have su: "ses_user ?s = usr_id (au_user a)" "ses_device ?s = dev_id ?x" "revoked_at ?s = None"
    "ses_expires_at ?s = now + idle_lifetime" "absolute_expires_at ?s = now + absolute_lifetime"
    by (simp_all add: i)
  have x: "by_key dev_id (dev_id ?x) (devices d) = Some ?x"
    using dev ok by (simp add: by_key_eq_Some identity_ok_def)
  from act obtain u where u: "u \<in> set (users d)" "usr_id u = usr_id (au_user a)" "usr_status u = Active"
    unfolding user_active_def by blast
  have u': "by_key usr_id (usr_id (au_user a)) (users d) = Some u"
    using u ok by (simp add: by_key_eq_Some identity_ok_def)
  have "(ses_device ?s, ses_user ?s) \<in> set (map (\<lambda>x. (dev_id x, dev_user x)) (devices d))"
    using mem ok unfolding identity_ok_def by auto
  then obtain y where y: "y \<in> set (devices d)" "dev_id y = dev_id ?x" "dev_user y = usr_id (au_user a)" using su by auto
  moreover have "distinct (map dev_id (devices d))" using ok by (simp add: identity_ok_def)
  ultimately have "y = ?x" using x by_key_eq_Some [of dev_id "devices d" "dev_id ?x" y] by simp
  then have own: "dev_user ?x = usr_id (au_user a)" using y by simp
  let ?b = "\<lparr>au_user = u\<lparr>password_hash := []\<rparr>, au_device = ?x, au_session = ?s\<rparr>"
  have "auth_by_hash ?h d = Some ?b"
    by (simp add: auth_by_hash_def auth_of_session_def s su u' x own)
  moreover have "auth_valid t ?b = None"
    using u(2,3) t own su idle_absolute by (simp add: auth_valid_def)
  moreover have "hash_session_token (ae_sha env) tok = Some ?h"
    using tok len by (simp add: hash_session_token_def decode_encode session_token_bytes_def)
  ultimately have "authenticate env tok False ip t w = (Inr ?b, w)"
    using d by (simp add: authenticate_def bindA_run query_quiet ret_run)
  then show ?thesis using u(2) by auto
qed

section \<open>Codes\<close>

lemma validate_Some_iff:
  assumes "- 1 \<le> l"
  shows "(\<exists>s. validate_totp hmac secret code now l = Some s)
    \<longleftrightarrow> (\<exists>s. 0 \<le> s \<and> l < s \<and> \<bar>s - go_div now totp_period\<bar> \<le> totp_skew \<and> totp_code hmac secret s totp_digits = trim_space code)"
  (is "?L \<longleftrightarrow> ?R")
proof
  assume ?L
  then obtain s where "validate_totp hmac secret code now l = Some s" by blast
  from validate_SomeD [OF this] show ?R by blast
next
  assume ?R
  then obtain s where s: "0 \<le> s" "l < s" "\<bar>s - go_div now totp_period\<bar> \<le> totp_skew" "totp_code hmac secret s totp_digits = trim_space code" by blast
  have shape: "length (trim_space code) = totp_digits" "list_all (\<lambda>c. CHR ''0'' \<le> c \<and> c \<le> CHR ''9'') (trim_space code)"
    using totp_code_shape [of totp_digits hmac secret s] s(4) by (simp_all add: totp_digits_def)
  show ?L
  proof (rule ccontr)
    assume "\<not> ?L"
    then have "validate_totp hmac secret code now l = None" by simp
    with shape have "find (\<lambda>step. \<not> step < 0 \<and> \<not> (0 \<le> l \<and> step \<le> l) \<and> totp_code hmac secret step totp_digits = trim_space code)
        [go_div now totp_period - totp_skew .. go_div now totp_period + totp_skew] = None"
      by (auto simp: validate_totp_def Let_def list_ex_iff list_all_iff not_less split: if_splits)
    then have none: "\<not> (\<exists>x. x \<in> set [go_div now totp_period - totp_skew .. go_div now totp_period + totp_skew]
        \<and> \<not> x < 0 \<and> \<not> (0 \<le> l \<and> x \<le> l) \<and> totp_code hmac secret x totp_digits = trim_space code)"
      by (simp only: find_None_iff simp_thms)
    have "s \<in> set [go_div now totp_period - totp_skew .. go_div now totp_period + totp_skew]" using s(3) by auto
    with none s show False by auto
  qed
qed

section \<open>Properties\<close>

text \<open>C24: the tables of accounts, devices, sessions and second factors stay consistent under every sequence of operations
  and every pattern of failing calls: identifiers, user names and tokens are unique, every session is on a device of its
  own user, and no session is valid beyond ninety days after it was opened.\<close>

theorem identities_stay_consistent:
  assumes "identity_ok (wdb w)"
  shows "identity_ok (wdb (fold (auth_step env) cs w))"
  using identity.run_keeps [of w cs env] assms by (simp add: on_db_def)

text \<open>C5: whoever is authenticated, by a token or for an open stream, has a session that is neither revoked nor expired,
  on a device of the same user, and that user is active.\<close>

theorem authenticated_means_entitled:
  assumes "identity_ok (wdb w)"
  shows "(case fst (authenticate env token tch ip now w) of Inl _ \<Rightarrow> True
      | Inr a \<Rightarrow> \<exists>s. entitled now s a (wdb w) \<and> hash_session_token (ae_sha env) token = Some (token_hash s))
    \<and> (case fst (validate_session i now w) of Inl _ \<Rightarrow> True | Inr b \<Rightarrow> \<exists>s. entitled now s b (wdb w) \<and> ses_id s = i)"
proof -
  obtain r w1 where a: "authenticate env token tch ip now w = (r, w1)" by fastforce
  obtain q w2 where v: "validate_session i now w = (q, w2)" by fastforce
  from authenticate_Inr [OF assms] validate_session_Inr [OF assms] a v show ?thesis
    by (cases r; cases q) simp_all
qed

text \<open>C6: signing in opens a session only with the password and without a second factor: whatever fails on the way, the
  sessions are as before and none is handed out, unless the name is that of an active user whose password fits
  and who has no second factor enabled.\<close>

theorem login_needs_the_password:
  "case login env rnd inp now w of (r, w') \<Rightarrow> (sessions (wdb w') = sessions (wdb w) \<and> refused r)
     \<or> (\<exists>u. password_fits env inp u (wdb w) \<and> second_factor (usr_id u) (wdb w) = None)"
proof (cases "\<exists>u. password_fits env inp u (wdb w) \<and> second_factor (usr_id u) (wdb w) = None")
  case False
  obtain r w' where r: "login env rnd inp now w = (r, w')" by fastforce
  have t: "no_session (wdb w) (login env rnd inp now)" by (rule login_sessions) (use False in metis)
  have "sessions (wdb w') = sessions (wdb w) \<and> refused r"
  proof (cases r)
    case (Inl e)
    then show ?thesis using triple_Inl [OF t refl r [unfolded Inl]] by (simp add: on_db_def)
  next
    case (Inr x)
    then show ?thesis using triple_Inr [OF t refl r [unfolded Inr]] by (simp add: on_db_def)
  qed
  then show ?thesis by (simp add: r)
qed simp

text \<open>C4: the second step of a login opens a session only for a live challenge, tried fewer than five times, and a code
  of the user's enabled and unlocked second factor for a time step later than the last one used; and with the session
  the step and the challenge are used up, whatever fails on the way.\<close>

theorem second_factor_is_checked_and_spent:
  "case complete_login_totp env rnd token code inp now w of (r, w') \<Rightarrow> (sessions (wdb w') = sessions (wdb w) \<and> refused r)
     \<or> (\<exists>c t step. factor_shown env token code now c t step (wdb w) \<and> factor_spent c step now (wdb w'))"
proof -
  obtain r w' where r: "complete_login_totp env rnd token code inp now w = (r, w')" by fastforce
  note t = complete_login_sessions [of "wdb w" env rnd token code inp now]
  show ?thesis
  proof (cases r)
    case (Inl e)
    then show ?thesis using triple_Inl [OF t refl r [unfolded Inl]] by (auto simp: on_db_def r)
  next
    case (Inr x)
    then show ?thesis using triple_Inr [OF t refl r [unfolded Inr]] by (auto simp: on_db_def r)
  qed
qed

text \<open>C13: a user who was disabled is out for good: after any further operations, as long as the row is not deleted, no
  token and no open stream authenticates as that user, and the user cannot sign in.\<close>

theorem disabled_users_are_out:
  assumes "identity_ok (wdb w)" "disable_user a i t0 w = (Inr (), w1)" "\<forall>c\<in>set cs. deletes (fst c) \<noteq> Some i"
    and "w2 = fold (auth_step env) cs w1"
  shows "(case fst (authenticate env token tch ip now w2) of Inl _ \<Rightarrow> True | Inr b \<Rightarrow> usr_id (au_user b) \<noteq> i)
    \<and> (case fst (validate_session sid now w2) of Inl _ \<Rightarrow> True | Inr b \<Rightarrow> usr_id (au_user b) \<noteq> i)
    \<and> (\<forall>u inp. password_fits env inp u (wdb w2) \<longrightarrow> usr_id u \<noteq> i)"
proof -
  have ok1: "identity_ok (wdb w1)"
    using keepsD [OF identity.keeps_disable _ assms(2)] assms(1) by (simp add: on_db_def)
  have ok: "identity_ok (wdb w2)" using identity.run_keeps [of w1 cs env] ok1 assms(4) by (simp add: on_db_def)
  have out: "shut_out i (wdb w2)"
    using disabled.run_keeps [of i w1 cs env] disable_Inr [OF assms(2,1)] assms(3,4) by (auto simp: on_db_def)
  have no: "usr_id u \<noteq> i" if "u \<in> set (users (wdb w2))" "usr_status u = Active" for u
    using out that by (auto simp: shut_out_def distinct_map inj_on_def)
  have ent: "usr_id (au_user b) \<noteq> i" if "entitled now s b (wdb w2)" for s b
    using that no by (auto simp: entitled_def)
  have "usr_id u \<noteq> i" if "password_fits env inp u (wdb w2)" for u inp
    using that no by (auto simp: password_fits_def split: sum.splits dest: by_key_SomeD)
  moreover have "usr_id (au_user b) \<noteq> i" if "fst (authenticate env token tch ip now w2) = Inr b" for b
    using authenticate_Inr [OF ok] ent that by (metis prod.collapse)
  moreover have "usr_id (au_user b) \<noteq> i" if "fst (validate_session sid now w2) = Inr b" for b
    using validate_session_Inr [OF ok] ent that by (metis prod.collapse)
  ultimately show ?thesis by (auto split: sum.split)
qed

text \<open>C15: a password reset by an administrator ends every session of the user: none of the tokens that were out lets anybody
  in afterwards, whatever operations follow, as long as the random source does not draw the same token again;
  and the stored hash is that of the new password.\<close>

theorem password_reset_ends_all_sessions:
  assumes "identity_ok (wdb w)" "reset_password_by_admin env adm i pw inp t0 w = (Inr (), w1)"
    and "s \<in> set (sessions (wdb w))" "ses_user s = i" "hash_session_token (ae_sha env) token = Some (token_hash s)"
    and "\<forall>c\<in>set cs. \<forall>r. draws (fst c) = Some r \<longrightarrow> ae_sha env r \<noteq> token_hash s"
  shows "isl (fst (authenticate env token tch ip now (fold (auth_step env) cs w1)))
    \<and> is_admin (au_user adm) \<and> (\<forall>u\<in>set (users (wdb w1)). usr_id u = i \<longrightarrow> ae_hash env pw = Some (password_hash u))"
proof -
  note r = reset_Inr [OF assms(2)]
  have "dead_token (token_hash s) (wdb w1)"
    using revoke_where_dead [of s "wdb w" "\<lambda>s. ses_user s = i" t0] assms(1,3,4) r by (simp add: dead_token_def identity_ok_def)
  then have "dead_token (token_hash s) (wdb (fold (auth_step env) cs w1))"
    using dead.run_keeps [of "token_hash s" w1 cs env] assms(6) by (auto simp: on_db_def)
  from dead_token_refused [OF this assms(5), of tch ip now]
  have "isl (fst (authenticate env token tch ip now (fold (auth_step env) cs w1)))"
    by (cases "authenticate env token tch ip now (fold (auth_step env) cs w1)"; cases "fst (authenticate env token tch ip now (fold (auth_step env) cs w1))") auto
  with r show ?thesis by auto
qed

text \<open>After signing out, the token of the session lets nobody in again, whatever operations follow.\<close>

theorem logout_is_final:
  assumes "identity_ok (wdb w)" "authenticate env token tch ip t0 w = (Inr a, w0)" "logout a inp t1 w0 = (Inr (), w1)"
    and "\<forall>c\<in>set cs. \<forall>r. draws (fst c) = Some r \<longrightarrow> Some (ae_sha env r) \<noteq> hash_session_token (ae_sha env) token"
  shows "isl (fst (authenticate env token tch' ip' now (fold (auth_step env) cs w1)))"
proof -
  from authenticate_Inr [OF assms(1,2)] obtain s where s: "entitled t0 s a (wdb w)"
    and h: "hash_session_token (ae_sha env) token = Some (token_hash s)" by blast
  have ok: "identity_ok (wdb w0)" using keepsD [OF identity.keeps_authenticate _ assms(2)] assms(1) by (simp add: on_db_def)
  have "\<exists>s'\<in>set (sessions (wdb w0)). ses_id s' = ses_id s \<and> ses_user s' = ses_user s \<and> token_hash s' = token_hash s"
  proof -
    let ?J = "\<lambda>d. \<exists>s'\<in>set (sessions d). ses_id s' = ses_id s \<and> ses_user s' = ses_user s \<and> token_hash s' = token_hash s"
    have "keeps (on_db ?J) (authenticate env token tch ip t0)"
      unfolding authenticate_def touch_authenticated_def
      by (intro keeps_intro) (simp_all add: touch_session_def touch_device_def Let_def ex_sql_update)
    from keepsD [OF this _ assms(2)] s show ?thesis by (auto simp: on_db_def entitled_def)
  qed
  then obtain s' where s': "s' \<in> set (sessions (wdb w0))" "ses_id s' = ses_id s" "ses_user s' = ses_user s" "token_hash s' = token_hash s" by blast
  have "dead_token (token_hash s') (wdb w1)"
    using revoke_where_dead [OF s'(1), of "\<lambda>s. ses_id s = ses_id (au_session a) \<and> ses_user s = usr_id (au_user a)" t1] ok s s'
      logout_Inr [OF assms(3)] by (auto simp: dead_token_def identity_ok_def entitled_def)
  then have "dead_token (token_hash s) (wdb (fold (auth_step env) cs w1))"
    using dead.run_keeps [of "token_hash s" w1 cs env] assms(4) h s' by (auto simp: on_db_def)
  from dead_token_refused [OF this h, of tch' ip' now] show ?thesis
    by (cases "authenticate env token tch' ip' now (fold (auth_step env) cs w1)"; cases "fst (authenticate env token tch' ip' now (fold (auth_step env) cs w1))") auto
qed

text \<open>C22: the token that a login returns authenticates the same user, device and session in every request until the session
  has been idle for thirty days.\<close>

theorem login_token_authenticates:
  assumes "identity_ok (wdb w)" "login env (Some raw) inp now w = (Inr (SignedIn a tok), w')" "length raw = 32"
    and "quiet w'" "t < now + idle_lifetime"
  shows "\<exists>b. authenticate env tok False ip t w' = (Inr b, w') \<and> au_session b = au_session a \<and> au_device b = au_device a
    \<and> usr_id (au_user b) = usr_id (au_user a)"
proof -
  have "keeps (on_db identity_ok) (login env (Some raw) inp now)" by (rule identity.keeps_login) simp
  from keepsD [OF this _ assms(2)] assms(1) have "identity_ok (wdb w')" by (simp add: on_db_def)
  with login_Inr [OF assms(2)] assms(3-5) show ?thesis
    by (auto intro: live_session_authenticates)
qed

text \<open>C37: a code is accepted exactly when it is, but for surrounding space, the code of a time step at most one away from the
  current one that is later than the last step used.\<close>

theorem totp_window:
  assumes "- 1 \<le> l"
  shows "(validate_totp hmac secret code now l \<noteq> None)
    \<longleftrightarrow> (\<exists>s. 0 \<le> s \<and> l < s \<and> \<bar>s - go_div now totp_period\<bar> \<le> totp_skew \<and> totp_code hmac secret s totp_digits = trim_space code)"
  using validate_Some_iff [OF assms] by simp

section \<open>Examples\<close>

definition sample_env :: auth_env where
  "sample_env = \<lparr>ae_lower = \<lambda>s. s, ae_upper = \<lambda>s. s, ae_verify = \<lambda>h p. Some (h = p, False), ae_hash = Some, ae_sha = \<lambda>b. b,
     ae_hmac = \<lambda>k m. replicate 20 CHR 0x00, ae_cipher = \<lparr>seal = \<lambda>n p a. p, unseal = \<lambda>n c a. Some c\<rparr>\<rparr>"

definition sample_input :: login_input where
  "sample_input = \<lparr>li_username = ''ann'', li_password = ''secret'', li_device_name = ''pc'', li_user_agent = ''x'',
     li_device = None, li_ip = None, li_trace = []\<rparr>"

definition sample_token :: bytes where "sample_token = replicate 32 CHR ''k''"

definition sample_accounts :: db where
  "sample_accounts = empty_db\<lparr>users := [new_user 1 ''ann'' ''Ann'' ''secret'' True 0], devices := [new_device 2 1 ''pc'' ''x'' 0],
     sessions := [fresh_session 3 1 2 sample_token sample_input 0]\<rparr>"

definition sample_login :: "uuid option list \<Rightarrow> world" where
  "sample_login is = (process_on sample_accounts)\<lparr>ids := is\<rparr>"

lemma sample_identity: "identity_ok sample_accounts"
  by (simp add: identity_ok_def sample_accounts_def new_device_def)

lemma sample_texts:
  "normalize_username (\<lambda>s. s) ''ann'' = Inr ''ann''" "pg_text ''ann''" "pg_text ''pc''" "pg_text ''x''"
  "device_name sample_input = ''pc''" "valid_device_name ''pc''" "cut_runes 512 ''x'' = ''x''" "cut_runes 128 [] = []"
  by code_simp+

lemma sample_input_simps:
  "li_username sample_input = ''ann''" "li_password sample_input = ''secret''" "li_user_agent sample_input = ''x''"
  "li_device sample_input = None" "ip_string sample_input = ''invalid IP''"
  by (simp_all add: sample_input_def ip_string_def)

lemma sample_env_simps:
  "ae_lower sample_env = (\<lambda>s. s)" "ae_sha sample_env = (\<lambda>b. b)" "ae_verify sample_env h p = Some (h = p, False)"
  by (simp_all add: sample_env_def)

lemma sample_login_runs:
  "\<exists>a tok w'. login sample_env (Some (replicate 32 CHR ''n'')) sample_input 0 (sample_login [Some 4, Some 5, Some 6])
     = (Inr (SignedIn a tok), w') \<and> faults w' = []"
  using sample_texts
  by (simp add: login_def password_accepted_def open_session_def login_device_def bindA_run limiter_run find_user_def totp_enabled_def
    check_exec_def audit_quietly_def query_quiet exec_quiet ret_run tryA_run new_id_def sample_login_def sample_env_simps sample_input_simps process_on_def
    sample_accounts_def limiter_allow_def clean_limits_def limiter_keys_def key_blocked_def by_key_def second_factor_def
    insert_device_def insert_session_row_def sql_exists_def new_session_token_def Let_def new_device_def sample_token_def
    limiter_success_def idle_absolute new_user_def fresh_session_def empty_db_def idle_lifetime_def absolute_lifetime_def)


lemma sample_session: "live_session sample_env sample_token (encode64 sample_token) sample_input 0
    \<lparr>au_user = new_user 1 ''ann'' ''Ann'' ''secret'' True 0, au_device = new_device 2 1 ''pc'' ''x'' 0,
     au_session = fresh_session 3 1 2 sample_token sample_input 0\<rparr> sample_accounts"
  by (simp add: live_session_def sample_accounts_def user_active_def sample_env_simps new_device_def)

lemma sample_authenticates:
  "\<exists>a. authenticate sample_env (encode64 sample_token) False None 5 (sample_login is) = (Inr a, sample_login is)
     \<and> au_session a = fresh_session 3 1 2 sample_token sample_input 0 \<and> usr_id (au_user a) = 1"
  using live_session_authenticates [OF sample_session sample_identity, of "sample_login is" 5 None]
  by (auto simp: sample_token_def sample_login_def idle_lifetime_def process_on_def)

lemma sample_hash: "hash_session_token (ae_sha sample_env) (encode64 sample_token) = Some sample_token"
  by (simp add: hash_session_token_def decode_encode sample_env_simps sample_token_def session_token_bytes_def)

definition sample_cmds :: "(auth_cmd \<times> time) list" where
  "sample_cmds = [(LoginCmd (Some (replicate 32 CHR ''n'')) sample_input, 6), (BootstrapCmd ''eve'' ''Eve'' ''0123456789'', 7)]"

lemma sample_cmds_simps: "\<forall>c\<in>set sample_cmds. deletes (fst c) = None"
  "\<forall>c\<in>set sample_cmds. \<forall>r. draws (fst c) = Some r \<longrightarrow> ae_sha sample_env r \<noteq> sample_token"
  by (simp_all add: sample_cmds_def deletes_def draws_def sample_env_simps sample_token_def)

theorem identities_stay_consistent_witness:
  "identity_ok (wdb (fold (auth_step sample_env) [(DisableUserCmd no_actor 1, 5), (DeleteUserCmd no_actor 1, 6)] (sample_login [Some 9])))"
  by (rule identities_stay_consistent) (simp add: sample_login_def sample_identity)

theorem authenticated_means_entitled_witness:
  "\<exists>a s. fst (authenticate sample_env (encode64 sample_token) False None 5 (sample_login [])) = Inr a
    \<and> entitled 5 s a sample_accounts"
proof -
  from sample_authenticates [of "[]"] obtain a where a: "authenticate sample_env (encode64 sample_token) False None 5 (sample_login []) = (Inr a, sample_login [])"
    by blast
  have "identity_ok (wdb (sample_login []))" by (simp add: sample_login_def sample_identity)
  from authenticated_means_entitled [OF this, of 5 sample_env "encode64 sample_token" False None] a
  show ?thesis by (auto simp: sample_login_def)
qed

theorem disabled_users_are_out_witness:
  "\<exists>w1. disable_user no_actor 1 5 (sample_login [Some 9]) = (Inr (), w1)
    \<and> (case fst (authenticate sample_env (encode64 sample_token) True None 8 (fold (auth_step sample_env) sample_cmds w1)) of
         Inl _ \<Rightarrow> True | Inr b \<Rightarrow> usr_id (au_user b) \<noteq> 1)"
proof -
  have "isl (fst (disable_user no_actor 1 5 (sample_login [Some 9]))) = False" by code_simp
  then obtain w1 where r: "disable_user no_actor 1 5 (sample_login [Some 9]) = (Inr (), w1)"
    by (cases "disable_user no_actor 1 5 (sample_login [Some 9])"; cases "fst (disable_user no_actor 1 5 (sample_login [Some 9]))") auto
  have "identity_ok (wdb (sample_login [Some 9]))" by (simp add: sample_login_def sample_identity)
  from disabled_users_are_out [OF this r _ refl, of sample_cmds sample_env "encode64 sample_token" True None 8] sample_cmds_simps(1) r
  show ?thesis by auto
qed

definition sample_admin :: authn where
  "sample_admin = \<lparr>au_user = new_user 1 ''ann'' ''Ann'' ''secret'' True 0, au_device = new_device 2 1 ''pc'' ''x'' 0,
     au_session = fresh_session 3 1 2 sample_token sample_input 0\<rparr>"

theorem password_reset_ends_all_sessions_witness:
  "\<exists>w1. reset_password_by_admin sample_env sample_admin 1 ''0123456789'' sample_input 5 (sample_login [Some 9]) = (Inr (), w1)
    \<and> isl (fst (authenticate sample_env (encode64 sample_token) True None 8 (fold (auth_step sample_env) sample_cmds w1)))"
proof -
  let ?r = "reset_password_by_admin sample_env sample_admin 1 ''0123456789'' sample_input 5 (sample_login [Some 9])"
  have "isl (fst ?r) = False" by code_simp
  then obtain w1 where r: "?r = (Inr (), w1)" by (cases "?r"; cases "fst ?r") auto
  have i: "identity_ok (wdb (sample_login [Some 9]))" by (simp add: sample_login_def sample_identity)
  have "fresh_session 3 1 2 sample_token sample_input 0 \<in> set (sessions (wdb (sample_login [Some 9])))"
    by (simp add: sample_login_def sample_accounts_def)
  from password_reset_ends_all_sessions [OF i r this, of "encode64 sample_token" sample_cmds] sample_cmds_simps(2) r sample_hash
  show ?thesis by auto
qed

theorem logout_is_final_witness:
  "\<exists>a w1. authenticate sample_env (encode64 sample_token) False None 5 (sample_login [Some 9]) = (Inr a, sample_login [Some 9])
    \<and> logout a sample_input 6 (sample_login [Some 9]) = (Inr (), w1)
    \<and> isl (fst (authenticate sample_env (encode64 sample_token) True None 8 (fold (auth_step sample_env) sample_cmds w1)))"
proof -
  from sample_authenticates obtain a where a: "authenticate sample_env (encode64 sample_token) False None 5 (sample_login [Some 9]) = (Inr a, sample_login [Some 9])"
    by blast
  have "quiet (sample_login [Some 9])" by (simp add: sample_login_def)
  then have "fst (logout a sample_input 6 (sample_login [Some 9])) = Inr ()"
    by (simp add: logout_def bindA_run exec_quiet audit_quietly_Inr)
  then obtain w1 where l: "logout a sample_input 6 (sample_login [Some 9]) = (Inr (), w1)" by (metis prod.collapse)
  have i: "identity_ok (wdb (sample_login [Some 9]))" by (simp add: sample_login_def sample_identity)
  from logout_is_final [OF i a l, of sample_cmds True None 8] sample_cmds_simps(2) sample_hash a l show ?thesis by auto
qed

theorem login_token_authenticates_witness:
  "\<exists>a tok w' b. login sample_env (Some (replicate 32 CHR ''n'')) sample_input 0 (sample_login [Some 4, Some 5, Some 6]) = (Inr (SignedIn a tok), w')
    \<and> authenticate sample_env tok False None day w' = (Inr b, w') \<and> au_session b = au_session a"
proof -
  from sample_login_runs obtain a tok w' where
    r: "login sample_env (Some (replicate 32 CHR ''n'')) sample_input 0 (sample_login [Some 4, Some 5, Some 6]) = (Inr (SignedIn a tok), w')"
    and q: "quiet w'" by blast
  have i: "identity_ok (wdb (sample_login [Some 4, Some 5, Some 6]))" by (simp add: sample_login_def sample_identity)
  from login_token_authenticates [OF i r _ q, of day None] r show ?thesis
    by (auto simp: day_def idle_lifetime_def)
qed

theorem totp_window_witness: "validate_totp (\<lambda>_ _. replicate 20 CHR 0x00) [] '' 000000'' 45 (- 1) \<noteq> None"
proof -
  have "trim_space '' 000000'' = ''000000''" by code_simp
  moreover have "totp_code (\<lambda>_ _. replicate 20 CHR 0x00) [] 1 totp_digits = ''000000''"
    by (simp add: totp_code_def truncated_def zero_padded_def decimal.simps octet_def totp_digits_def) code_simp
  ultimately show ?thesis
    by (subst totp_window, simp) (rule exI [of _ 1], simp add: totp_period_def totp_skew_def)
qed

end
