(* ===== verification/Maintenance.thy ===== *)
theory Maintenance
  imports Availability
begin

text \<open>
  What a pass of the scheduler achieves: when nothing fails and no backlog exceeds what five batches take, it leaves no
  message that should have expired or been purged, no audit event past its retention and no stale challenge. The
  later tasks of the pass, which may fail in the file store, cannot undo that.
\<close>

section \<open>The file tasks leave the other tables alone\<close>

definition core :: "db \<Rightarrow> message list \<times> audit_row list \<times> totp_challenge list \<times> settings" where
  "core d = (messages d, audit_logs d, totp_challenges d, sys_settings d)"

lemma core_simps [simp]:
  "core (d\<lparr>file_objects := a\<rparr>) = core d" "core (d\<lparr>uploads := b\<rparr>) = core d" "core (d\<lparr>parts := c\<rparr>) = core d"
  "core (d\<lparr>derivatives := e\<rparr>) = core d" "core (d\<lparr>jobs := f\<rparr>) = core d"
  by (simp_all add: core_def)

lemma core_statements [simp]:
  "core (snd (transition_upload p st now d)) = core d" "core (snd (fail_derivatives fs now d)) = core d"
  "core (snd (update_jobs q g d)) = core d" "core (snd (insert_thumbnail_job i k now d)) = core d"
  "core (snd (recover_update now tmo mx b d)) = core d" "core (snd (delete_leases now d)) = core d"
  "core (snd (mark_deleting now i d)) = core d" "core (snd (remove_pending i d)) = core d"
  "core (snd (make_ready now i d)) = core d" "core (snd (delete_derivative i j d)) = core d"
  "core (snd (delete_object_row i d)) = core d"
  by (simp_all add: transition_upload_def fail_derivatives_def update_jobs_def insert_thumbnail_job_def recover_update_def
      delete_leases_def mark_deleting_def remove_pending_def make_ready_def delete_derivative_def delete_object_row_def Let_def)

abbreviation core_is :: "message list \<times> audit_row list \<times> totp_challenge list \<times> settings \<Rightarrow> world \<Rightarrow> bool" where
  "core_is k \<equiv> on_db (\<lambda>d. core d = k)"

lemma core_ensure_all: "keeps (core_is k) (ensure_all fs now)"
  by (induction fs now rule: ensure_all.induct) (unfold ensure_all.simps ensure_thumbnail_job_tx_def, intro keeps_intro; simp)+

lemma core_uploads: "keeps (core_is k) (expire_due_uploads batch now)"
  unfolding expire_due_uploads_def find_due_active_uploads_def find_expired_cleanup_candidates_def
    reconcile_staging_def active_upload_ids_def delete_parts_def mark_expired_def mark_expired_tx_def
  by (intro keeps_intro) simp_all

lemma core_page: "keeps (core_is k) (reconcile_page sha now room fs)"
proof (induction sha now room fs rule: reconcile_page.induct)
  case (2 sha now room f fs)
  have "keeps (core_is k) (reconcile_object sha now f)"
    unfolding reconcile_object_def reconcile_pending_object_def delete_object_def by (intro keeps_intro) simp_all
  with 2 show ?case unfolding reconcile_page.simps by (intro keeps_intro) auto
qed (simp add: keeps_ret)

lemma core_pages: "keeps (core_is k) (reconcile_pages n sha now c room)"
proof (induction n arbitrary: c room)
  case (Suc n)
  then show ?case unfolding reconcile_pages.simps
    by (intro keeps_intro core_page) (auto split: list.split intro!: keeps_intro core_page simp del: reconcile_page.simps)
qed (simp add: keeps_ret)

lemma core_cleanup_each: "keeps (core_is k) (cleanup_each is)"
proof (induction "is" rule: cleanup_each.induct)
  case (2 i "is")
  then show ?case unfolding cleanup_each.simps by (intro keeps_intro) (auto split: bool.split intro!: keeps_intro)
qed (simp add: keeps_ret)

lemma core_reconcile: "keeps (core_is k) (reconcile_objects sha now batch)"
proof -
  have "keeps (core_is k) list_commit_temps" unfolding list_commit_temps_def by (intro keeps_ext_store) simp
  then show ?thesis unfolding reconcile_objects_def cleanup_temps_def by (intro keeps_intro core_pages core_cleanup_each)
qed

lemma core_gc: "keeps (core_is k) (gc sha batch now dbnow)"
  unfolding gc_def gc_mark_def by (intro keeps_intro core_reconcile) simp_all

lemma core_file_tasks: "keeps (core_is k) (run_tasks (file_tasks sha now upnow dbnow))"
proof (rule keeps_run_tasks)
  have wake: "keeps (core_is k) (modifyA (\<lambda>w. if b then w\<lparr>wake := True\<rparr> else w))" for b
    by (rule keeps_modifyA) (simp add: on_db_def)
  have jobs: "keeps (core_is k) (enqueue_missing_thumbnail_jobs now n)" for n
    unfolding enqueue_missing_thumbnail_jobs_def by (intro keeps_intro core_ensure_all)
  fix t assume "t \<in> set (file_tasks sha now upnow dbnow)"
  then show "keeps (core_is k) t"
    unfolding file_tasks_def backfill_thumbnails_def expire_uploads_task_def
    by (auto intro!: keeps_run_task keeps_batches keeps_bindA keeps_if keeps_ret keeps_throw wake jobs core_uploads core_gc core_reconcile)
qed

lemma all_clear_core: "core d' = core d \<Longrightarrow> all_clear now d' = all_clear now d"
  by (simp add: core_def all_clear_def due_count_def purge_count_def audit_count_def challenge_count_def)

section \<open>Running a list of tasks\<close>

lemma run_tasks_append: "run_tasks (ts @ us) = bindA (run_tasks ts) (\<lambda>es. bindA (run_tasks us) (\<lambda>fs. ret (es @ fs)))"
  by (induction ts) (simp_all add: fun_eq_iff bindA_run ret_run split: prod.splits sum.splits)

lemma run_task_returns: "\<exists>es w'. run_task name m w = (Inr es, w') \<and> set es \<subseteq> {name}"
  by (cases "m w"; cases "fst (m w)") (simp_all add: run_task_def bindA_run tryA_run ret_run)

lemma run_tasks_return:
  "(\<And>t w. t \<in> set ts \<Longrightarrow> \<exists>es w'. t w = (Inr es, w') \<and> set es \<subseteq> A) \<Longrightarrow> \<exists>es w'. run_tasks ts w = (Inr es, w') \<and> set es \<subseteq> A"
proof (induction ts arbitrary: w)
  case (Cons t ts)
  from Cons.prems [of t w] obtain es w1 where t: "t w = (Inr es, w1)" "set es \<subseteq> A" by auto
  from Cons.IH [of w1] Cons.prems obtain fs w2 where "run_tasks ts w1 = (Inr fs, w2)" "set fs \<subseteq> A" by auto
  with t show ?case by (simp add: bindA_run ret_run)
qed (simp add: ret_run)

text \<open>The names of the tasks that reach outside the database.\<close>

definition file_task_names :: "string list" where
  "file_task_names = [''thumbnail backfill'', ''upload expiry'', ''file object gc'', ''file object reconcile'']"

lemma run_task_in: "name \<in> A \<Longrightarrow> \<exists>es w'. run_task name m w = (Inr es, w') \<and> set es \<subseteq> A"
  using run_task_returns [of name m w] by blast

lemma file_tasks_return: "\<exists>es w'. run_tasks (file_tasks sha now upnow dbnow) w = (Inr es, w') \<and> set es \<subseteq> set file_task_names"
proof (rule run_tasks_return)
  fix t w assume "t \<in> set (file_tasks sha now upnow dbnow)"
  then show "\<exists>es w'. t w = (Inr es, w') \<and> set es \<subseteq> set file_task_names"
    unfolding file_tasks_def list.set
    by (elim insertE emptyE; hypsubst) (rule run_task_in, simp add: file_task_names_def)+
qed

lemma recover_quiet:
  assumes "quiet w"
  shows "\<exists>w'. recover_task now w = (Inr [], w') \<and> quiet w' \<and> core (wdb w') = core (wdb w)
    \<and> message_tags (wdb w') = message_tags (wdb w)"
proof -
  let ?u = "recover_update now default_stuck_timeout default_max_attempts maintenance_batch"
  have m: "message_tags (snd (?u d)) = message_tags d" "message_tags (snd (fail_derivatives fs t d)) = message_tags d" for d fs t
    by (simp_all add: recover_update_def Let_def update_jobs_def fail_derivatives_def)
  show ?thesis using assms batch_positive
    by (cases "failed_thumbnails (fst (?u (wdb w))) = []")
      (simp_all add: recover_task_def run_task_def recover_stuck_def bindA_run tryA_run in_tx_quiet exec_quiet ret_run
        commit_tx_def pop_fault_def m)
qed

section \<open>Properties\<close>

text \<open>C18: a pass of the scheduler does its work: when the calls it makes do not fail and no backlog is larger than five
  batches, it ends, reports at most failures of the file tasks, and leaves no message that is due to expire or to
  be purged, no audit event past the retention and no challenge past its grace.\<close>

theorem maintenance_clears_the_backlog:
  assumes "quiet w" "maintainable now (wdb w)" "within_pass now (wdb w)"
  shows "\<exists>es w'. run_once sha True now upnow dbnow w = (Inr (True, es), w') \<and> set es \<subseteq> set file_task_names
    \<and> all_clear now (wdb w')"
proof -
  from recover_quiet [OF assms(1), of now] obtain w1 where
    w1: "recover_task now w = (Inr [], w1)" "quiet w1" "core (wdb w1) = core (wdb w)" "message_tags (wdb w1) = message_tags (wdb w)"
    by blast
  then have e: "messages (wdb w1) = messages (wdb w)" "audit_logs (wdb w1) = audit_logs (wdb w)"
    "totp_challenges (wdb w1) = totp_challenges (wdb w)" "sys_settings (wdb w1) = sys_settings (wdb w)"
    "message_tags (wdb w1) = message_tags (wdb w)" by (simp_all add: core_def)
  have "maintainable now (wdb w1)"
    using assms(2) unfolding maintainable_def messages_ok_def settings_ok_def audit_ok_def e .
  moreover have "within_pass now (wdb w1)"
    using assms(3) unfolding within_pass_def due_count_def purge_count_def audit_count_def challenge_count_def e .
  ultimately obtain w2 where
    w2: "run_tasks (message_tasks now) w1 = (Inr [], w2)" "all_clear now (wdb w2)" using message_tasks_clear [OF w1(2)] by blast
  from file_tasks_return [of sha now upnow dbnow w2] obtain es w3 where
    w3: "run_tasks (file_tasks sha now upnow dbnow) w2 = (Inr es, w3)" "set es \<subseteq> set file_task_names" by blast
  have "core_is (core (wdb w2)) w2" by (simp add: on_db_def)
  from keepsD [OF core_file_tasks this w3(1)] have "core (wdb w3) = core (wdb w2)" by (simp add: on_db_def)
  then have c3: "all_clear now (wdb w3)" using w2(2) all_clear_core [of "wdb w3" "wdb w2" now] by blast
  obtain r w4 where u: "(query SchedIO (\<lambda>_. ()) :: (world, sched_err, unit) act) w3 = (r, w4)" by fastforce
  then have "wdb w4 = wdb w3" by (auto dest: query_result)
  then have c4: "all_clear now (wdb w4)" using c3 by simp
  have "run_tasks (recover_task now # message_tasks now @ file_tasks sha now upnow dbnow) w = (Inr es, w3)"
    by (simp add: run_tasks_append bindA_run w1(1) w2(1) w3(1) ret_run)
  with u have "run_once sha True now upnow dbnow w = (Inr (True, es), w4)"
    using assms(1) by (simp add: run_once_def bindA_run query_quiet tryA_run ret_run del: run_tasks.simps)
  with c4 w3(2) show ?thesis by blast
qed

text \<open>An audit event that is older than the retention.\<close>

definition backlog_db :: db where
  "backlog_db = (wdb sample_world)\<lparr>audit_logs := [audit_row_of 7 (user_disabled no_actor 3) 0]\<rparr>"

theorem maintenance_clears_the_backlog_witness:
  "\<exists>es w'. run_once (\<lambda>b. b) True (500 * day) 0 0 (process_on backlog_db) = (Inr (True, es), w') \<and> audit_count (500 * day) (wdb w') = 0
     \<and> audit_count (500 * day) backlog_db = 1"
proof -
  have m: "maintainable (500 * day) backlog_db"
    using sample_ok(1) by (auto simp: maintainable_def backlog_db_def messages_ok_def settings_ok_def audit_ok_def settings_validate_def
        sample_world_def process_on_def empty_db_def sample_message_def in_int64_def)
  have c: "within_pass (500 * day) backlog_db" "audit_count (500 * day) backlog_db = 1"
    by (simp_all add: within_pass_def max_batches_def maintenance_batch_def backlog_db_def due_count_def purge_count_def audit_count_def
        challenge_count_def old_event_def sample_world_def process_on_def empty_db_def audit_row_of_def user_disabled_def user_event_def day_def Let_def)
  from maintenance_clears_the_backlog [of "process_on backlog_db" "500 * day" "\<lambda>b. b" 0 0] m c show ?thesis
    by (auto simp: process_on_def all_clear_def)
qed

end
