(* ===== verification/Locks.thy ===== *)
theory Locks
  imports Prelude
begin

text \<open>
  The locks of the uploads (\<^verbatim>\<open>internal/uploads/locks.go\<close>): a registry of locks that are created on demand and
  dropped when nobody refers to them. Writing a part takes the lock of the upload as a reader and then the lock of
  the part; completing an upload takes the lock of the upload as the only writer. Lock objects live at addresses;
  a thread is where it is in \<open>Chunk\<close>, \<open>Exclusive\<close> or the function they return, and each of
  its steps is one critical section or one operation on a mutex.
\<close>

section \<open>Objects\<close>

record upload_lock =
  lock_readers :: int
  lock_writer :: bool
  lock_parts :: "int \<Rightarrow> nat option"
  lock_refs :: int

record part_lock =
  part_held :: bool
  part_refs :: int

datatype thread =
    Idle
  | ChunkStart uuid int
  | ChunkRef uuid int nat
  | ChunkRead uuid int nat
  | ChunkWait uuid int nat nat
  | ChunkHeld uuid int nat nat
  | ChunkOpen uuid int nat nat
  | ChunkLeft uuid int nat
  | ChunkEnd uuid int nat
  | ExclStart uuid
  | ExclRef uuid nat
  | ExclHeld uuid nat
  | ExclEnd uuid nat

record lock_world =
  registry :: "uuid \<Rightarrow> nat option"
  lock_at :: "nat \<Rightarrow> upload_lock"
  part_at :: "nat \<Rightarrow> part_lock"
  lock_next :: nat
  part_next :: nat
  threads :: "thread list"

definition fresh_lock :: upload_lock where
  "fresh_lock = \<lparr>lock_readers = 0, lock_writer = False, lock_parts = (\<lambda>_. None), lock_refs = 0\<rparr>"

definition set_lock :: "nat \<Rightarrow> upload_lock \<Rightarrow> lock_world \<Rightarrow> lock_world" where
  "set_lock a l s = s\<lparr>lock_at := (lock_at s)(a := l)\<rparr>"

definition set_part :: "nat \<Rightarrow> part_lock \<Rightarrow> lock_world \<Rightarrow> lock_world" where
  "set_part p x s = s\<lparr>part_at := (part_at s)(p := x)\<rparr>"

definition move :: "nat \<Rightarrow> thread \<Rightarrow> lock_world \<Rightarrow> lock_world" where
  "move i t s = s\<lparr>threads := (threads s)[i := t]\<rparr>"

section \<open>Critical sections\<close>

definition lock_acquire :: "uuid \<Rightarrow> lock_world \<Rightarrow> nat \<times> lock_world" where
  "lock_acquire u s = (case registry s u of
       Some a \<Rightarrow> (a, set_lock a ((lock_at s a)\<lparr>lock_refs := lock_refs (lock_at s a) + 1\<rparr>) s)
     | None \<Rightarrow> (let a = lock_next s in
         (a, set_lock a (fresh_lock\<lparr>lock_refs := 1\<rparr>) (s\<lparr>registry := (registry s)(u := Some a), lock_next := Suc a\<rparr>))))"

definition lock_release :: "uuid \<Rightarrow> nat \<Rightarrow> lock_world \<Rightarrow> lock_world" where
  "lock_release u a s = (let r = lock_refs (lock_at s a) - 1; s1 = set_lock a ((lock_at s a)\<lparr>lock_refs := r\<rparr>) s in
     if r = 0 then s1\<lparr>registry := (registry s1)(u := None)\<rparr> else s1)"

definition take_part :: "nat \<Rightarrow> int \<Rightarrow> lock_world \<Rightarrow> nat \<times> lock_world" where
  "take_part a n s = (case lock_parts (lock_at s a) n of
       Some p \<Rightarrow> (p, set_part p ((part_at s p)\<lparr>part_refs := part_refs (part_at s p) + 1\<rparr>) s)
     | None \<Rightarrow> (let p = part_next s in
         (p, set_part p \<lparr>part_held = False, part_refs = 1\<rparr>
           (set_lock a ((lock_at s a)\<lparr>lock_parts := (lock_parts (lock_at s a))(n := Some p)\<rparr>) (s\<lparr>part_next := Suc p\<rparr>)))))"

definition drop_part :: "nat \<Rightarrow> int \<Rightarrow> nat \<Rightarrow> lock_world \<Rightarrow> lock_world" where
  "drop_part a n p s = (let r = part_refs (part_at s p) - 1; s1 = set_part p ((part_at s p)\<lparr>part_refs := r\<rparr>) s in
     if r = 0 then set_lock a ((lock_at s1 a)\<lparr>lock_parts := (lock_parts (lock_at s1 a))(n := None)\<rparr>) s1 else s1)"

section \<open>Threads\<close>

text \<open>The next step of a thread; \<open>None\<close>: it is blocked or has nothing to do.\<close>

definition advance :: "nat \<Rightarrow> lock_world \<Rightarrow> lock_world option" where
  "advance i s = (case threads s ! i of
       Idle \<Rightarrow> None
     | ChunkStart u n \<Rightarrow> (case lock_acquire u s of (a, s1) \<Rightarrow> Some (move i (ChunkRef u n a) s1))
     | ChunkRef u n a \<Rightarrow> if lock_writer (lock_at s a) then None
         else Some (move i (ChunkRead u n a) (set_lock a ((lock_at s a)\<lparr>lock_readers := lock_readers (lock_at s a) + 1\<rparr>) s))
     | ChunkRead u n a \<Rightarrow> (case take_part a n s of (p, s1) \<Rightarrow> Some (move i (ChunkWait u n a p) s1))
     | ChunkWait u n a p \<Rightarrow> if part_held (part_at s p) then None
         else Some (move i (ChunkHeld u n a p) (set_part p ((part_at s p)\<lparr>part_held := True\<rparr>) s))
     | ChunkHeld u n a p \<Rightarrow> Some (move i (ChunkOpen u n a p) (set_part p ((part_at s p)\<lparr>part_held := False\<rparr>) s))
     | ChunkOpen u n a p \<Rightarrow> Some (move i (ChunkLeft u n a) (drop_part a n p s))
     | ChunkLeft u n a \<Rightarrow> Some (move i (ChunkEnd u n a)
         (set_lock a ((lock_at s a)\<lparr>lock_readers := lock_readers (lock_at s a) - 1\<rparr>) s))
     | ChunkEnd u n a \<Rightarrow> Some (move i Idle (lock_release u a s))
     | ExclStart u \<Rightarrow> (case lock_acquire u s of (a, s1) \<Rightarrow> Some (move i (ExclRef u a) s1))
     | ExclRef u a \<Rightarrow> if lock_writer (lock_at s a) \<or> lock_readers (lock_at s a) \<noteq> 0 then None
         else Some (move i (ExclHeld u a) (set_lock a ((lock_at s a)\<lparr>lock_writer := True\<rparr>) s))
     | ExclHeld u a \<Rightarrow> Some (move i (ExclEnd u a) (set_lock a ((lock_at s a)\<lparr>lock_writer := False\<rparr>) s))
     | ExclEnd u a \<Rightarrow> Some (move i Idle (lock_release u a s)))"

text \<open>A thread that is idle may call either function for any upload; otherwise any thread that can may go on.\<close>

inductive lock_step :: "lock_world \<Rightarrow> lock_world \<Rightarrow> bool" where
  call_chunk: "i < length (threads s) \<Longrightarrow> threads s ! i = Idle \<Longrightarrow> lock_step s (move i (ChunkStart u n) s)"
| call_exclusive: "i < length (threads s) \<Longrightarrow> threads s ! i = Idle \<Longrightarrow> lock_step s (move i (ExclStart u) s)"
| go_on: "i < length (threads s) \<Longrightarrow> advance i s = Some s' \<Longrightarrow> lock_step s s'"

inductive lock_run :: "lock_world \<Rightarrow> lock_world \<Rightarrow> bool" for s :: lock_world where
  lock_start: "lock_run s s"
| lock_go: "lock_run s t \<Longrightarrow> lock_step t t' \<Longrightarrow> lock_run s t'"

inductive_cases lock_stepE: "lock_step s s'"

definition no_locks :: "nat \<Rightarrow> lock_world" where
  "no_locks k = \<lparr>registry = (\<lambda>_. None), lock_at = (\<lambda>_. fresh_lock), part_at = (\<lambda>_. \<lparr>part_held = False, part_refs = 0\<rparr>),
     lock_next = 0, part_next = 0, threads = replicate k Idle\<rparr>"

section \<open>What the threads refer to\<close>

fun refers :: "nat \<Rightarrow> thread \<Rightarrow> bool" where
  "refers a (ChunkRef u n b) = (b = a)"
| "refers a (ChunkRead u n b) = (b = a)"
| "refers a (ChunkWait u n b p) = (b = a)"
| "refers a (ChunkHeld u n b p) = (b = a)"
| "refers a (ChunkOpen u n b p) = (b = a)"
| "refers a (ChunkLeft u n b) = (b = a)"
| "refers a (ChunkEnd u n b) = (b = a)"
| "refers a (ExclRef u b) = (b = a)"
| "refers a (ExclHeld u b) = (b = a)"
| "refers a (ExclEnd u b) = (b = a)"
| "refers a _ = False"

fun reading :: "nat \<Rightarrow> thread \<Rightarrow> bool" where
  "reading a (ChunkRead u n b) = (b = a)"
| "reading a (ChunkWait u n b p) = (b = a)"
| "reading a (ChunkHeld u n b p) = (b = a)"
| "reading a (ChunkOpen u n b p) = (b = a)"
| "reading a (ChunkLeft u n b) = (b = a)"
| "reading a _ = False"

fun writing :: "nat \<Rightarrow> thread \<Rightarrow> bool" where
  "writing a (ExclHeld u b) = (b = a)"
| "writing a _ = False"

fun wants_part :: "nat \<Rightarrow> thread \<Rightarrow> bool" where
  "wants_part q (ChunkWait u n b p) = (p = q)"
| "wants_part q (ChunkHeld u n b p) = (p = q)"
| "wants_part q (ChunkOpen u n b p) = (p = q)"
| "wants_part q _ = False"

fun holds_part :: "nat \<Rightarrow> thread \<Rightarrow> bool" where
  "holds_part q (ChunkHeld u n b p) = (p = q)"
| "holds_part q _ = False"

text \<open>The addresses a thread uses are those under which the registry has them.\<close>

fun placed :: "lock_world \<Rightarrow> thread \<Rightarrow> bool" where
  "placed s (ChunkRef u n a) = (registry s u = Some a)"
| "placed s (ChunkRead u n a) = (registry s u = Some a)"
| "placed s (ChunkWait u n a p) = (registry s u = Some a \<and> lock_parts (lock_at s a) n = Some p)"
| "placed s (ChunkHeld u n a p) = (registry s u = Some a \<and> lock_parts (lock_at s a) n = Some p)"
| "placed s (ChunkOpen u n a p) = (registry s u = Some a \<and> lock_parts (lock_at s a) n = Some p)"
| "placed s (ChunkLeft u n a) = (registry s u = Some a)"
| "placed s (ChunkEnd u n a) = (registry s u = Some a)"
| "placed s (ExclRef u a) = (registry s u = Some a)"
| "placed s (ExclHeld u a) = (registry s u = Some a)"
| "placed s (ExclEnd u a) = (registry s u = Some a)"
| "placed s _ = True"

definition tally :: "(thread \<Rightarrow> bool) \<Rightarrow> lock_world \<Rightarrow> int" where
  "tally p s = int (length (filter p (threads s)))"

definition locks_ok :: "lock_world \<Rightarrow> bool" where
  "locks_ok s \<longleftrightarrow>
     (\<forall>a. lock_refs (lock_at s a) = tally (refers a) s) \<and> (\<forall>a. lock_readers (lock_at s a) = tally (reading a) s)
   \<and> (\<forall>a. tally (writing a) s = (if lock_writer (lock_at s a) then 1 else 0))
   \<and> (\<forall>a. lock_writer (lock_at s a) \<longrightarrow> lock_readers (lock_at s a) = 0)
   \<and> (\<forall>p. part_refs (part_at s p) = tally (wants_part p) s)
   \<and> (\<forall>p. tally (holds_part p) s = (if part_held (part_at s p) then 1 else 0))
   \<and> (\<forall>t\<in>set (threads s). placed s t)
   \<and> (\<forall>u a. registry s u = Some a \<longrightarrow> a < lock_next s \<and> 0 < lock_refs (lock_at s a) \<and> (\<forall>v. registry s v = Some a \<longrightarrow> v = u))
   \<and> (\<forall>a n p. lock_parts (lock_at s a) n = Some p \<longrightarrow> p < part_next s
        \<and> (\<forall>b m. lock_parts (lock_at s b) m = Some p \<longrightarrow> b = a \<and> m = n))"

section \<open>One thread and the others\<close>

text \<open>The invariant with the counts split into the thread that steps and the list of the others.\<close>

definition cnt :: "('a \<Rightarrow> bool) \<Rightarrow> 'a list \<Rightarrow> int" where
  "cnt p ts = int (length (filter p ts))"

lemma cnt_nonneg [simp]: "0 \<le> cnt p ts" by (simp add: cnt_def)
lemma cnt_0: "cnt p ts = 0 \<longleftrightarrow> (\<forall>t\<in>set ts. \<not> p t)" by (auto simp: cnt_def filter_empty_conv)
lemma cnt_pos: "t \<in> set ts \<Longrightarrow> p t \<Longrightarrow> 0 < cnt p ts" using cnt_0 [of p ts] cnt_nonneg [of p ts] by (smt (verit))

definition fits :: "lock_world \<Rightarrow> thread list \<Rightarrow> thread \<Rightarrow> bool" where
  "fits s ts t \<longleftrightarrow>
     (\<forall>a. lock_refs (lock_at s a) = cnt (refers a) ts + of_bool (refers a t))
   \<and> (\<forall>a. lock_readers (lock_at s a) = cnt (reading a) ts + of_bool (reading a t))
   \<and> (\<forall>a. cnt (writing a) ts + of_bool (writing a t) = (if lock_writer (lock_at s a) then 1 else 0))
   \<and> (\<forall>a. lock_writer (lock_at s a) \<longrightarrow> lock_readers (lock_at s a) = 0)
   \<and> (\<forall>p. part_refs (part_at s p) = cnt (wants_part p) ts + of_bool (wants_part p t))
   \<and> (\<forall>p. cnt (holds_part p) ts + of_bool (holds_part p t) = (if part_held (part_at s p) then 1 else 0))
   \<and> (\<forall>x\<in>set ts. placed s x) \<and> placed s t
   \<and> (\<forall>u a. registry s u = Some a \<longrightarrow> a < lock_next s \<and> 0 < lock_refs (lock_at s a) \<and> (\<forall>v. registry s v = Some a \<longrightarrow> v = u))
   \<and> (\<forall>a n p. lock_parts (lock_at s a) n = Some p \<longrightarrow> p < part_next s
        \<and> (\<forall>b m. lock_parts (lock_at s b) m = Some p \<longrightarrow> b = a \<and> m = n))"

definition others :: "nat \<Rightarrow> lock_world \<Rightarrow> thread list" where
  "others i s = take i (threads s) @ drop (Suc i) (threads s)"

lemma split_threads: "i < length (threads s) \<Longrightarrow> threads s = take i (threads s) @ threads s ! i # drop (Suc i) (threads s)"
  by (rule id_take_nth_drop)

lemma tally_split: "i < length (threads s) \<Longrightarrow> tally p s = cnt p (others i s) + of_bool (p (threads s ! i))"
  unfolding tally_def cnt_def others_def by (subst split_threads) auto

lemma placed_threads [simp]: "placed (move i t s) x = placed s x"
  by (cases x) (simp_all add: move_def)

lemma others_move [simp]: "i < length (threads s) \<Longrightarrow> others i (move i t s) = others i s"
  by (simp add: others_def move_def)

lemma locks_ok_fits: "i < length (threads s) \<Longrightarrow> locks_ok s \<longleftrightarrow> fits s (others i s) (threads s ! i)"
proof -
  assume i: "i < length (threads s)"
  have "set (threads s) = insert (threads s ! i) (set (others i s))"
    unfolding others_def by (subst split_threads [OF i]) auto
  then show ?thesis unfolding locks_ok_def fits_def tally_split [OF i] by auto
qed

lemma fits_move [simp]: "fits (move i t s) ts x = fits s ts x"
  by (simp add: fits_def move_def) (simp add: placed_threads [unfolded move_def])

lemma placed_refers: "placed s t \<Longrightarrow> refers a t \<Longrightarrow> \<exists>u. registry s u = Some a"
  by (cases t) auto

lemma placed_wants: "placed s t \<Longrightarrow> wants_part p t \<Longrightarrow> \<exists>a n. lock_parts (lock_at s a) n = Some p"
  by (cases t) auto

lemma sub_counts: "reading a t \<Longrightarrow> refers a t" "writing a t \<Longrightarrow> refers a t" "holds_part p t \<Longrightarrow> wants_part p t"
  by (cases t; simp)+

section \<open>Every step keeps the invariant\<close>

lemma placed_cong:
  "registry s1 = registry s \<Longrightarrow> (\<And>a. lock_parts (lock_at s1 a) = lock_parts (lock_at s a)) \<Longrightarrow> placed s1 x = placed s x"
  by (cases x) simp_all

lemma fitsI:
  assumes "\<And>a. lock_refs (lock_at s a) = cnt (refers a) ts + of_bool (refers a t)"
    and "\<And>a. lock_readers (lock_at s a) = cnt (reading a) ts + of_bool (reading a t)"
    and "\<And>a. cnt (writing a) ts = of_bool (lock_writer (lock_at s a)) - of_bool (writing a t)"
    and "\<And>a. lock_writer (lock_at s a) \<Longrightarrow> lock_readers (lock_at s a) = 0"
    and "\<And>p. part_refs (part_at s p) = cnt (wants_part p) ts + of_bool (wants_part p t)"
    and "\<And>p. cnt (holds_part p) ts = of_bool (part_held (part_at s p)) - of_bool (holds_part p t)"
    and "\<And>x. x \<in> set ts \<Longrightarrow> placed s x" and "placed s t"
    and "\<And>u a. registry s u = Some a \<Longrightarrow> a < lock_next s" and "\<And>u a. registry s u = Some a \<Longrightarrow> 0 < lock_refs (lock_at s a)"
    and "\<And>u v a. registry s u = Some a \<Longrightarrow> registry s v = Some a \<Longrightarrow> v = u"
    and "\<And>a n p. lock_parts (lock_at s a) n = Some p \<Longrightarrow> p < part_next s"
    and "\<And>a b n m p. lock_parts (lock_at s a) n = Some p \<Longrightarrow> lock_parts (lock_at s b) m = Some p \<Longrightarrow> b = a \<and> m = n"
  shows "fits s ts t"
  using assms unfolding fits_def by (auto simp: of_bool_def)

lemma fitsD:
  assumes "fits s ts t"
  shows "lock_refs (lock_at s a) = cnt (refers a) ts + of_bool (refers a t)"
    and "lock_readers (lock_at s a) = cnt (reading a) ts + of_bool (reading a t)"
    and "cnt (writing a) ts = of_bool (lock_writer (lock_at s a)) - of_bool (writing a t)"
    and "lock_writer (lock_at s a) \<Longrightarrow> lock_readers (lock_at s a) = 0"
    and "part_refs (part_at s p) = cnt (wants_part p) ts + of_bool (wants_part p t)"
    and "cnt (holds_part p) ts = of_bool (part_held (part_at s p)) - of_bool (holds_part p t)"
    and "x \<in> set ts \<Longrightarrow> placed s x" and "placed s t"
    and "registry s u = Some a \<Longrightarrow> a < lock_next s" and "registry s u = Some a \<Longrightarrow> 0 < lock_refs (lock_at s a)"
    and "registry s u = Some a \<Longrightarrow> registry s v = Some a \<Longrightarrow> v = u"
    and "lock_parts (lock_at s a) n = Some p \<Longrightarrow> p < part_next s"
    and "lock_parts (lock_at s a) n = Some p \<Longrightarrow> lock_parts (lock_at s b) m = Some p \<Longrightarrow> b = a \<and> m = n"
proof -
  show "cnt (writing a) ts = of_bool (lock_writer (lock_at s a)) - of_bool (writing a t)"
    "cnt (holds_part p) ts = of_bool (part_held (part_at s p)) - of_bool (holds_part p t)"
    using assms unfolding fits_def of_bool_def by (smt (verit))+
qed (insert assms, unfold fits_def, blast+)

text \<open>Updates of single objects, with the registry and the tables of parts as they are.\<close>

lemma fits_update:
  assumes f: "fits s ts t"
    and same: "registry s1 = registry s" "\<And>a. lock_parts (lock_at s1 a) = lock_parts (lock_at s a)"
      "lock_next s1 = lock_next s" "part_next s1 = part_next s"
    and refs: "\<And>a. lock_refs (lock_at s1 a) - of_bool (refers a t') = lock_refs (lock_at s a) - of_bool (refers a t)"
    and readers: "\<And>a. lock_readers (lock_at s1 a) - of_bool (reading a t') = lock_readers (lock_at s a) - of_bool (reading a t)"
    and writer: "\<And>a. of_bool (lock_writer (lock_at s1 a)) - of_bool (writing a t')
        = (of_bool (lock_writer (lock_at s a)) - of_bool (writing a t) :: int)"
    and excl: "\<And>a. lock_writer (lock_at s1 a) \<Longrightarrow> lock_readers (lock_at s1 a) = 0"
    and prefs: "\<And>p. part_refs (part_at s1 p) - of_bool (wants_part p t') = part_refs (part_at s p) - of_bool (wants_part p t)"
    and held: "\<And>p. of_bool (part_held (part_at s1 p)) - of_bool (holds_part p t')
        = (of_bool (part_held (part_at s p)) - of_bool (holds_part p t) :: int)"
    and placed: "placed s t'" and pos: "\<And>u a. registry s u = Some a \<Longrightarrow> 0 < lock_refs (lock_at s1 a)"
  shows "fits s1 ts t'"
proof (rule fitsI)
  note D = fitsD [OF f]
  have p: "placed s1 x = placed s x" for x using same(1,2) by (rule placed_cong)
  show "lock_refs (lock_at s1 a) = cnt (refers a) ts + of_bool (refers a t')" for a using refs [of a] D(1) [of a] by linarith
  show "lock_readers (lock_at s1 a) = cnt (reading a) ts + of_bool (reading a t')" for a using readers [of a] D(2) [of a] by linarith
  show "cnt (writing a) ts = of_bool (lock_writer (lock_at s1 a)) - of_bool (writing a t')" for a using writer [of a] D(3) [of a] by linarith
  show "part_refs (part_at s1 p) = cnt (wants_part p) ts + of_bool (wants_part p t')" for p using prefs [of p] D(5) [of p] by linarith
  show "cnt (holds_part p) ts = of_bool (part_held (part_at s1 p)) - of_bool (holds_part p t')" for p using held [of p] D(6) [of p] by linarith
  show "placed s1 x" if "x \<in> set ts" for x using D(7) [OF that] p by simp
  show "placed s1 t'" using placed p by simp
  show "a < lock_next s1" if "registry s1 u = Some a" for u a using D(9) that same by simp
  show "v = u" if "registry s1 u = Some a" "registry s1 v = Some a" for u v a using D(11) that same by simp
  show "p < part_next s1" if "lock_parts (lock_at s1 a) n = Some p" for a n p using D(12) that same by simp
  show "b = a \<and> m = n" if "lock_parts (lock_at s1 a) n = Some p" "lock_parts (lock_at s1 b) m = Some p" for a b n m p
    using D(13) that same(2) by simp
qed (use excl pos same in auto)

lemma fits_pos: "fits s ts t \<Longrightarrow> registry s u = Some a \<Longrightarrow> (\<And>b. \<not> refers b t) \<Longrightarrow> 0 < cnt (refers a) ts"
  using fitsD(1) [of s ts t a] fitsD(10) [of s ts t u a] by simp

lemmas world_simps = set_lock_def set_part_def fresh_lock_def of_bool_def

lemma fits_call:
  assumes "fits s ts Idle"
  shows "fits s ts (ChunkStart u n)" "fits s ts (ExclStart u)"
  by (rule fits_update [OF assms]; simp add: fitsD(4,10) [OF assms])+

lemma fits_acquire:
  assumes f: "fits s ts t" and t: "t = ChunkStart u n \<and> t' = ChunkRef u n a \<or> t = ExclStart u \<and> t' = ExclRef u a"
    and r: "lock_acquire u s = (a, s1)"
  shows "fits s1 ts t'"
proof (cases "registry s u")
  note D = fitsD [OF f]
  case (Some b)
  then have s1: "b = a" "s1 = set_lock a ((lock_at s a)\<lparr>lock_refs := lock_refs (lock_at s a) + 1\<rparr>) s"
    using r by (auto simp: lock_acquire_def)
  have "0 \<le> lock_refs (lock_at s a)" using D(10) [of u a] Some s1(1) by simp
  then show ?thesis unfolding s1(2)
    by (intro fits_update [OF f]) (use t Some s1(1) D(4,10) in \<open>auto simp: world_simps\<close>)
next
  note D = fitsD [OF f]
  case None
  then have s1: "a = lock_next s" "s1 = set_lock a (fresh_lock\<lparr>lock_refs := 1\<rparr>) (s\<lparr>registry := (registry s)(u := Some a), lock_next := Suc a\<rparr>)"
    using r by (auto simp: lock_acquire_def Let_def)
  have reg: "registry s v = Some b \<Longrightarrow> b < a" for v b using D(9) s1(1) by auto
  have nr: "\<not> refers a x" if "x \<in> set ts" for x
    using placed_refers [OF D(7) [OF that], of a] reg by auto
  have z: "cnt (refers a) ts = 0" "cnt (reading a) ts = 0" "cnt (writing a) ts = 0"
    using nr sub_counts(1,2) unfolding cnt_0 by blast+
  have p: "placed s1 x" if "placed s x" for x
    using that None reg unfolding s1(2) by (cases x) (auto simp: set_lock_def)
  have ts: "\<not> reading b t" "\<not> writing b t" "\<not> refers b t" "\<not> wants_part q t" "\<not> holds_part q t"
    "\<not> reading b t'" "\<not> writing b t'" "refers b t' = (b = a)" "\<not> wants_part q t'" "\<not> holds_part q t'" for b q
    using t by auto
  have fresh: "lock_at s1 = (lock_at s)(a := fresh_lock\<lparr>lock_refs := 1\<rparr>)" "registry s1 = (registry s)(u := Some a)"
    "lock_next s1 = Suc a" "part_next s1 = part_next s" "part_at s1 = part_at s"
    by (simp_all add: s1(2) set_lock_def)
  show ?thesis
  proof (rule fitsI)
    show "placed s1 x" if "x \<in> set ts" for x using D(7) [OF that] by (rule p)
    show "placed s1 t'" using t by (auto simp: s1(2) set_lock_def)
    show "v = w" if "registry s1 w = Some b" "registry s1 v = Some b" for v w b
      using that D(11) [of w b v] reg [of w b] reg [of v b] by (auto simp: fresh split: if_splits)
    show "b < lock_next s1" if "registry s1 w = Some b" for w b using that reg [of w b] by (auto simp: fresh split: if_splits)
    show "0 < lock_refs (lock_at s1 b)" if "registry s1 w = Some b" for w b
      using that D(10) [of w b] by (auto simp: fresh split: if_splits)
    show "b = c \<and> m = k" if "lock_parts (lock_at s1 c) k = Some p" "lock_parts (lock_at s1 b) m = Some p" for b c k m p
      using that D(13) [of c k p b m] by (auto simp: fresh fresh_lock_def split: if_splits)
  qed (use D(1-6,12) z in \<open>auto simp: fresh fresh_lock_def ts split: if_splits\<close>)
qed

lemma fits_read_lock:
  assumes f: "fits s ts (ChunkRef u n a)" and w: "\<not> lock_writer (lock_at s a)"
  shows "fits (set_lock a ((lock_at s a)\<lparr>lock_readers := lock_readers (lock_at s a) + 1\<rparr>) s) ts (ChunkRead u n a)"
  by (rule fits_update [OF f]) (use w fitsD(4,8,10) [OF f] in \<open>auto simp: world_simps\<close>)

lemma fits_part_lock:
  assumes f: "fits s ts (ChunkWait u n a p)" and h: "\<not> part_held (part_at s p)"
  shows "fits (set_part p ((part_at s p)\<lparr>part_held := True\<rparr>) s) ts (ChunkHeld u n a p)"
  by (rule fits_update [OF f]) (use h fitsD(4,8,10) [OF f] in \<open>auto simp: world_simps\<close>)

lemma fits_part_unlock:
  assumes f: "fits s ts (ChunkHeld u n a p)"
  shows "fits (set_part p ((part_at s p)\<lparr>part_held := False\<rparr>) s) ts (ChunkOpen u n a p)"
proof -
  have "part_held (part_at s p)" using fitsD(6) [OF f, of p] cnt_nonneg [of "holds_part p" ts] by (auto simp: of_bool_def split: if_splits)
  then show ?thesis by (intro fits_update [OF f]) (use fitsD(4,8,10) [OF f] in \<open>auto simp: world_simps\<close>)
qed

lemma fits_read_unlock:
  assumes f: "fits s ts (ChunkLeft u n a)"
  shows "fits (set_lock a ((lock_at s a)\<lparr>lock_readers := lock_readers (lock_at s a) - 1\<rparr>) s) ts (ChunkEnd u n a)"
proof -
  have "\<not> lock_writer (lock_at s a)" using fitsD(2,4) [OF f, of a] cnt_nonneg [of "reading a" ts] by auto
  then show ?thesis by (intro fits_update [OF f]) (use fitsD(4,8,10) [OF f] in \<open>auto simp: world_simps\<close>)
qed

lemma fits_write_lock:
  assumes f: "fits s ts (ExclRef u a)" and w: "\<not> lock_writer (lock_at s a)" "lock_readers (lock_at s a) = 0"
  shows "fits (set_lock a ((lock_at s a)\<lparr>lock_writer := True\<rparr>) s) ts (ExclHeld u a)"
  by (rule fits_update [OF f]) (use w fitsD(4,8,10) [OF f] in \<open>auto simp: world_simps\<close>)

lemma fits_write_unlock:
  assumes f: "fits s ts (ExclHeld u a)"
  shows "fits (set_lock a ((lock_at s a)\<lparr>lock_writer := False\<rparr>) s) ts (ExclEnd u a)"
proof -
  have "lock_writer (lock_at s a)" using fitsD(3) [OF f, of a] cnt_nonneg [of "writing a" ts] by (auto simp: of_bool_def split: if_splits)
  then show ?thesis by (intro fits_update [OF f]) (use fitsD(4,8,10) [OF f] in \<open>auto simp: world_simps\<close>)
qed

lemma fits_take_part:
  assumes f: "fits s ts (ChunkRead u n a)" and r: "take_part a n s = (p, s1)"
  shows "fits s1 ts (ChunkWait u n a p)"
proof (cases "lock_parts (lock_at s a) n")
  note D = fitsD [OF f]
  case (Some q)
  then have s1: "q = p" "s1 = set_part p ((part_at s p)\<lparr>part_refs := part_refs (part_at s p) + 1\<rparr>) s"
    using r by (auto simp: take_part_def)
  show ?thesis unfolding s1(2)
    by (rule fits_update [OF f]) (use Some s1(1) D(4,8,10) in \<open>auto simp: world_simps\<close>)
next
  note D = fitsD [OF f]
  case None
  then have p: "p = part_next s" and s1: "s1 = set_part p \<lparr>part_held = False, part_refs = 1\<rparr>
      (set_lock a ((lock_at s a)\<lparr>lock_parts := (lock_parts (lock_at s a))(n := Some p)\<rparr>) (s\<lparr>part_next := Suc p\<rparr>))"
    using r by (auto simp: take_part_def Let_def)
  have old: "lock_parts (lock_at s b) m = Some q \<Longrightarrow> q < p" for b m q using D(12) p by simp
  have nw: "\<not> wants_part p x" if "x \<in> set ts" for x
    using placed_wants [OF D(7) [OF that], of p] old by auto
  have z: "cnt (wants_part p) ts = 0" "cnt (holds_part p) ts = 0" using nw sub_counts(3) unfolding cnt_0 by blast+
  have parts: "lock_parts (lock_at s1 b) = (if b = a then (lock_parts (lock_at s a))(n := Some p) else lock_parts (lock_at s b))" for b
    by (simp add: s1 set_part_def set_lock_def)
  have fresh: "lock_refs (lock_at s1 b) = lock_refs (lock_at s b)" "lock_readers (lock_at s1 b) = lock_readers (lock_at s b)"
    "lock_writer (lock_at s1 b) = lock_writer (lock_at s b)" "registry s1 = registry s" "lock_next s1 = lock_next s"
    "part_next s1 = Suc p" "part_at s1 = (part_at s)(p := \<lparr>part_held = False, part_refs = 1\<rparr>)" for b
    by (simp_all add: s1 set_part_def set_lock_def)
  have pl: "placed s1 x" if "placed s x" for x
    using that None by (cases x) (auto simp: fresh parts)
  show ?thesis
  proof (rule fitsI)
    show "placed s1 x" if "x \<in> set ts" for x using D(7) [OF that] by (rule pl)
    show "placed s1 (ChunkWait u n a p)" using D(8) by (simp add: fresh parts)
    show "c = b \<and> m = k" if "lock_parts (lock_at s1 b) k = Some q" "lock_parts (lock_at s1 c) m = Some q" for b c k m q
      using that D(13) [of b k q c m] old [of b k q] old [of c m q] by (auto simp: parts split: if_splits)
    show "q < part_next s1" if "lock_parts (lock_at s1 b) m = Some q" for b m q
      using that old [of b m q] by (auto simp: parts fresh split: if_splits)
    show "v = w" if "registry s1 w = Some b" "registry s1 v = Some b" for v w b
      using that D(11) by (simp add: fresh)
  qed (use D(1-6,9,10) z in \<open>auto simp: fresh\<close>)
qed

lemma fits_drop_part:
  assumes f: "fits s ts (ChunkOpen u n a p)"
  shows "fits (drop_part a n p s) ts (ChunkLeft u n a)"
proof (cases "part_refs (part_at s p) = 1")
  note D = fitsD [OF f]
  case False
  then have s1: "drop_part a n p s = set_part p ((part_at s p)\<lparr>part_refs := part_refs (part_at s p) - 1\<rparr>) s"
    by (simp add: drop_part_def Let_def)
  show ?thesis unfolding s1
    by (rule fits_update [OF f]) (use D(4,8,10) in \<open>auto simp: world_simps\<close>)
next
  note D = fitsD [OF f]
  case True
  let ?s = "drop_part a n p s"
  have s1: "?s = set_lock a ((lock_at s a)\<lparr>lock_parts := (lock_parts (lock_at s a))(n := None)\<rparr>)
      (set_part p ((part_at s p)\<lparr>part_refs := 0\<rparr>) s)"
    using True by (simp add: drop_part_def Let_def set_part_def)
  have z: "cnt (wants_part p) ts = 0" using D(5) [of p] True by simp
  then have nw: "\<not> wants_part p x" if "x \<in> set ts" for x using that by (auto simp: cnt_0)
  have at: "registry s u = Some a" "lock_parts (lock_at s a) n = Some p" using D(8) by simp_all
  have parts: "lock_parts (lock_at ?s b) = (if b = a then (lock_parts (lock_at s a))(n := None) else lock_parts (lock_at s b))" for b
    by (simp add: s1 set_part_def set_lock_def)
  have fresh: "lock_refs (lock_at ?s b) = lock_refs (lock_at s b)" "lock_readers (lock_at ?s b) = lock_readers (lock_at s b)"
    "lock_writer (lock_at ?s b) = lock_writer (lock_at s b)" "registry ?s = registry s" "lock_next ?s = lock_next s"
    "part_next ?s = part_next s" "part_at ?s = (part_at s)(p := (part_at s p)\<lparr>part_refs := 0\<rparr>)" for b
    by (simp_all add: s1 set_part_def set_lock_def)
  have pl: "placed ?s x" if "placed s x" "\<not> wants_part p x" for x
    using that at(2) by (cases x) (auto simp: fresh parts)
  show ?thesis
  proof (rule fitsI)
    show "placed ?s x" if "x \<in> set ts" for x using D(7) [OF that] nw [OF that] by (rule pl)
    show "placed ?s (ChunkLeft u n a)" using at by (simp add: fresh)
    show "c = b \<and> m = k" if "lock_parts (lock_at ?s b) k = Some q" "lock_parts (lock_at ?s c) m = Some q" for b c k m q
      using that D(13) [of b k q c m] by (auto simp: parts split: if_splits)
    show "q < part_next ?s" if "lock_parts (lock_at ?s b) m = Some q" for b m q
      using that D(12) [of b m q] by (auto simp: parts fresh split: if_splits)
    show "v = w" if "registry ?s w = Some b" "registry ?s v = Some b" for v w b
      using that D(11) by (simp add: fresh)
  qed (use D(1-6,9,10) z in \<open>auto simp: fresh\<close>)
qed

lemma fits_release:
  assumes f: "fits s ts t" and t: "t = ChunkEnd u n a \<or> t = ExclEnd u a"
  shows "fits (lock_release u a s) ts Idle"
proof (cases "lock_refs (lock_at s a) = 1")
  note D = fitsD [OF f]
  case False
  then have s1: "lock_release u a s = set_lock a ((lock_at s a)\<lparr>lock_refs := lock_refs (lock_at s a) - 1\<rparr>) s"
    by (simp add: lock_release_def Let_def)
  have "registry s u = Some a" using D(8) t by auto
  with D(10) False have "1 < lock_refs (lock_at s a)" by force
  then show ?thesis unfolding s1
    by (intro fits_update [OF f]) (use t D(4,8,10) in \<open>auto simp: world_simps\<close>)
next
  note D = fitsD [OF f]
  case True
  let ?s = "lock_release u a s"
  have at: "registry s u = Some a" using D(8) t by auto
  have ts: "\<not> reading b t" "\<not> writing b t" "refers b t = (b = a)" "\<not> wants_part q t" "\<not> holds_part q t" for b q
    using t by auto
  have z: "cnt (refers a) ts = 0" using D(1) [of a] True ts(3) by simp
  then have nr: "\<not> refers a x" if "x \<in> set ts" for x using that by (auto simp: cnt_0)
  have fresh: "lock_refs (lock_at ?s b) = (if b = a then 0 else lock_refs (lock_at s b))" "lock_readers (lock_at ?s b) = lock_readers (lock_at s b)"
    "lock_writer (lock_at ?s b) = lock_writer (lock_at s b)" "lock_parts (lock_at ?s b) = lock_parts (lock_at s b)"
    "registry ?s = (registry s)(u := None)" "lock_next ?s = lock_next s" "part_next ?s = part_next s" "part_at ?s = part_at s" for b
    using True by (simp_all add: lock_release_def Let_def set_lock_def)
  have pl: "placed ?s x" if "placed s x" "\<not> refers a x" for x
    using that at by (cases x) (auto simp: fresh)
  show ?thesis
  proof (rule fitsI)
    show "placed ?s x" if "x \<in> set ts" for x using D(7) [OF that] nr [OF that] by (rule pl)
    show "v = w" if "registry ?s w = Some b" "registry ?s v = Some b" for v w b
      using that D(11) by (auto simp: fresh split: if_splits)
    show "0 < lock_refs (lock_at ?s b)" if "registry ?s w = Some b" for w b
      using that D(10,11) at by (auto simp: fresh split: if_splits)
    show "c = b \<and> m = k" if "lock_parts (lock_at ?s b) k = Some q" "lock_parts (lock_at ?s c) m = Some q" for b c k m q
      using that D(13) by (simp add: fresh)
  qed (use D(1-6,9,12) z in \<open>auto simp: fresh ts split: if_splits\<close>)
qed

lemma advance_ok:
  assumes i: "i < length (threads s)" and ok: "locks_ok s" and r: "advance i s = Some s'"
  shows "locks_ok s' \<and> length (threads s') = length (threads s)"
proof -
  have f: "fits s (others i s) (threads s ! i)" using locks_ok_fits [OF i] ok by simp
  have th: "threads (set_lock a l s) = threads s" "threads (set_part q x s) = threads s" "threads (drop_part a n q s) = threads s"
    "threads (lock_release u a s) = threads s" for a l q x n u
    by (simp_all add: set_lock_def set_part_def drop_part_def lock_release_def Let_def)
  have acq: "lock_acquire u s = (a, s1) \<Longrightarrow> threads s1 = threads s" for u a s1
    by (auto simp: lock_acquire_def set_lock_def Let_def split: option.splits)
  have tak: "take_part a n s = (q, s1) \<Longrightarrow> threads s1 = threads s" for a n q s1
    by (auto simp: take_part_def set_lock_def set_part_def Let_def split: option.splits)
  have fin: "locks_ok (move i t s1) \<and> length (threads (move i t s1)) = length (threads s)"
    if "fits s1 (others i s) t" "threads s1 = threads s" for t s1
  proof -
    have "i < length (threads (move i t s1))" "threads (move i t s1) ! i = t" "others i (move i t s1) = others i s"
      using i that(2) by (simp_all add: move_def others_def)
    with locks_ok_fits [of i "move i t s1"] that(1) have "locks_ok (move i t s1)" by simp
    then show ?thesis using that(2) by (simp add: move_def)
  qed
  note adv = r [unfolded advance_def]
  show ?thesis
  proof (cases "threads s ! i")
    case (ChunkStart u n)
    obtain a s1 where a: "lock_acquire u s = (a, s1)" by fastforce
    show ?thesis using adv fin [OF fits_acquire [OF f _ a] acq [OF a]] by (auto simp: ChunkStart a)
  next
    case (ExclStart u)
    obtain a s1 where a: "lock_acquire u s = (a, s1)" by fastforce
    show ?thesis using adv fin [OF fits_acquire [OF f _ a] acq [OF a]] by (auto simp: ExclStart a)
  next
    case (ChunkRead u n a)
    obtain q s1 where q: "take_part a n s = (q, s1)" by fastforce
    show ?thesis using adv fin [OF fits_take_part [OF f [unfolded ChunkRead] q] tak [OF q]] by (auto simp: ChunkRead q)
  next
    case (ChunkRef u n a)
    then show ?thesis using adv fin [OF fits_read_lock [OF f [unfolded ChunkRef]]] by (auto simp: th split: if_splits)
  next
    case (ChunkWait u n a q)
    then show ?thesis using adv fin [OF fits_part_lock [OF f [unfolded ChunkWait]]] by (auto simp: th split: if_splits)
  next
    case (ExclRef u a)
    then show ?thesis using adv fin [OF fits_write_lock [OF f [unfolded ExclRef]]] by (auto simp: th split: if_splits)
  next
    case (ChunkHeld u n a q)
    then show ?thesis using adv fin [OF fits_part_unlock [OF f [unfolded ChunkHeld]]] by (auto simp: th)
  next
    case (ChunkOpen u n a q)
    then show ?thesis using adv fin [OF fits_drop_part [OF f [unfolded ChunkOpen]]] by (auto simp: th)
  next
    case (ChunkLeft u n a)
    then show ?thesis using adv fin [OF fits_read_unlock [OF f [unfolded ChunkLeft]]] by (auto simp: th)
  next
    case (ChunkEnd u n a)
    then show ?thesis using adv fin [OF fits_release [OF f], of u n a] by (auto simp: th)
  next
    case (ExclHeld u a)
    then show ?thesis using adv fin [OF fits_write_unlock [OF f [unfolded ExclHeld]]] by (auto simp: th)
  next
    case (ExclEnd u a)
    then show ?thesis using adv fin [OF fits_release [OF f], of u 0 a] by (auto simp: th)
  qed (use adv in simp)
qed

lemma ok_call:
  assumes ok: "locks_ok s" and i: "i < length (threads s)" and idle: "threads s ! i = Idle"
    and t: "fits s (others i s) Idle \<Longrightarrow> fits s (others i s) t"
  shows "locks_ok (move i t s) \<and> length (threads (move i t s)) = length (threads s)"
proof -
  have len: "length (threads (move i t s)) = length (threads s)" and at: "threads (move i t s) ! i = t"
    using i by (simp_all add: move_def)
  have "fits s (others i s) Idle" using ok locks_ok_fits [OF i] idle by simp
  from t [OF this] have "fits (move i t s) (others i (move i t s)) (threads (move i t s) ! i)" using i at by simp
  then show ?thesis using locks_ok_fits [of i "move i t s"] i len by simp
qed

lemma lock_step_ok:
  assumes ok: "locks_ok s" and st: "lock_step s s'"
  shows "locks_ok s' \<and> length (threads s') = length (threads s)"
  using st
proof (cases rule: lock_step.cases)
  case (call_chunk i u n)
  show ?thesis unfolding call_chunk(1) by (rule ok_call [OF ok call_chunk(2,3) fits_call(1)])
next
  case (call_exclusive i u)
  show ?thesis unfolding call_exclusive(1) by (rule ok_call [OF ok call_exclusive(2,3) fits_call(2)])
next
  case (go_on i)
  then show ?thesis using advance_ok [OF go_on(1) ok go_on(2)] by blast
qed

lemma tally_replicate_Idle: "\<not> p Idle \<Longrightarrow> tally p (no_locks k) = 0"
  by (simp add: tally_def no_locks_def)

lemma no_locks_ok: "locks_ok (no_locks k)"
  unfolding locks_ok_def by (simp add: tally_replicate_Idle) (simp add: no_locks_def fresh_lock_def)

lemma lock_run_ok: "lock_run (no_locks k) s \<Longrightarrow> locks_ok s"
  by (induction rule: lock_run.induct) (auto simp: no_locks_ok dest: lock_step_ok)

section \<open>The limit of concurrent writes\<close>

text \<open>A semaphore is a channel with a buffer: its capacity and how many slots are taken. Taking a slot when the request
  is also over may end either way, so \<open>sem_acquire\<close> gives all the outcomes; with none it waits.\<close>

record write_semaphore =
  sem_limit :: int
  sem_taken :: int

definition new_semaphore :: "int \<Rightarrow> write_semaphore option" where
  "new_semaphore limit = (if limit < 1 then None else Some \<lparr>sem_limit = limit, sem_taken = 0\<rparr>)"

definition sem_acquire :: "bool \<Rightarrow> write_semaphore \<Rightarrow> (bool \<times> write_semaphore) list" where
  "sem_acquire over w = (if sem_taken w < sem_limit w then [(True, w\<lparr>sem_taken := sem_taken w + 1\<rparr>)] else [])
     @ (if over then [(False, w)] else [])"

definition sem_release :: "write_semaphore \<Rightarrow> write_semaphore option" where
  "sem_release w = (if 0 < sem_taken w then Some (w\<lparr>sem_taken := sem_taken w - 1\<rparr>) else None)"

definition sem_ok :: "write_semaphore \<Rightarrow> bool" where
  "sem_ok w \<longleftrightarrow> 0 \<le> sem_taken w \<and> sem_taken w \<le> sem_limit w \<and> 1 \<le> sem_limit w"

lemma new_semaphore_ok: "new_semaphore n = Some w \<Longrightarrow> sem_ok w"
  by (auto simp: new_semaphore_def sem_ok_def split: if_splits)

lemma sem_acquire_ok: "sem_ok w \<Longrightarrow> (b, w') \<in> set (sem_acquire over w) \<Longrightarrow> sem_ok w' \<and> (\<not> b \<longrightarrow> over \<and> w' = w)"
  by (auto simp: sem_acquire_def sem_ok_def split: if_splits)

lemma sem_release_ok: "sem_ok w \<Longrightarrow> sem_release w = Some w' \<Longrightarrow> sem_ok w'"
  by (auto simp: sem_release_def sem_ok_def split: if_splits)

lemma sem_acquire_waits: "sem_ok w \<Longrightarrow> sem_acquire False w = [] \<longleftrightarrow> sem_taken w = sem_limit w"
  by (auto simp: sem_acquire_def sem_ok_def)

section \<open>Concrete runs\<close>

text \<open>Run the threads in a given order; \<open>None\<close> when one of them cannot go on.\<close>

fun lock_exec :: "nat list \<Rightarrow> lock_world \<Rightarrow> lock_world option" where
  "lock_exec [] s = Some s"
| "lock_exec (i # rest) s = (if i < length (threads s) then (case advance i s of Some s1 \<Rightarrow> lock_exec rest s1 | None \<Rightarrow> None) else None)"

lemma lock_exec_run: "lock_run s0 s \<Longrightarrow> lock_exec order s = Some s' \<Longrightarrow> lock_run s0 s'"
  by (induction order s rule: lock_exec.induct) (auto split: if_splits option.splits intro: lock_go go_on)

text \<open>Two threads: one writes part 5 of an upload, the other waits to complete it.\<close>

definition two_called :: "uuid \<Rightarrow> lock_world" where
  "two_called u = move 1 (ExclStart u) (move 0 (ChunkStart u 5) (no_locks 2))"

lemma two_called_run: "lock_run (no_locks 2) (two_called u)"
proof -
  have "lock_run (no_locks 2) (move 0 (ChunkStart u 5) (no_locks 2))"
    by (rule lock_go [OF lock_start call_chunk]) (simp_all add: no_locks_def)
  then show ?thesis unfolding two_called_def
    by (rule lock_go [OF _ call_exclusive]) (simp_all add: no_locks_def move_def)
qed

lemmas lock_defs = two_called_def no_locks_def advance_def lock_acquire_def lock_release_def take_part_def drop_part_def
  set_lock_def set_part_def move_def fresh_lock_def

lemma part_is_written: "\<exists>s. lock_exec [0, 1, 0, 0, 0] (two_called u) = Some s
    \<and> threads s = [ChunkHeld u 5 0 0, ExclRef u 0]"
  by (simp add: lock_defs numeral_2_eq_2)

lemma all_return: "\<exists>s. lock_exec [0, 1, 0, 0, 0, 0, 0, 0, 0, 1, 1, 1] (two_called u) = Some s \<and> threads s = [Idle, Idle]"
  by (simp add: lock_defs numeral_2_eq_2)

section \<open>Properties\<close>

text \<open>Between the lock and the unlock of the part, and of the whole upload.\<close>

fun in_part :: "uuid \<Rightarrow> int \<Rightarrow> thread \<Rightarrow> bool" where
  "in_part u n (ChunkHeld v m a p) = (v = u \<and> m = n)"
| "in_part u n _ = False"

fun in_upload :: "uuid \<Rightarrow> thread \<Rightarrow> bool" where
  "in_upload u (ExclHeld v a) = (v = u)"
| "in_upload u _ = False"

lemma in_partE: assumes "in_part u n t" obtains a p where "t = ChunkHeld u n a p"
  using assms by (cases t) auto

lemma in_uploadE: assumes "in_upload u t" obtains a where "t = ExclHeld u a"
  using assms by (cases t) auto

lemma other_thread:
  assumes "i < length (threads s)" "j < length (threads s)" "i \<noteq> j"
  shows "threads s ! j \<in> set (others i s)"
proof (cases "j < i")
  case True
  then have "threads s ! j = take i (threads s) ! j" "j < length (take i (threads s))" using assms by simp_all
  then show ?thesis unfolding others_def by (metis UnI1 nth_mem set_append)
next
  case False
  then have "threads s ! j = drop (Suc i) (threads s) ! (j - Suc i)" "j - Suc i < length (drop (Suc i) (threads s))"
    using assms by simp_all
  then show ?thesis unfolding others_def by (metis UnI2 nth_mem set_append)
qed

text \<open>C10: the locks exclude what they should: however calls interleave, two threads are never both writing the same part of
  an upload, and while a thread has an upload to itself, no other has it or writes any part of it.\<close>

theorem upload_locks_exclude:
  assumes "lock_run (no_locks k) s" "i < length (threads s)" "j < length (threads s)" "i \<noteq> j"
  shows "\<not> (in_part u n (threads s ! i) \<and> in_part u n (threads s ! j))
    \<and> \<not> (in_upload u (threads s ! i) \<and> (in_upload u (threads s ! j) \<or> in_part u n (threads s ! j)))"
proof -
  have f: "fits s (others i s) (threads s ! i)" using locks_ok_fits [OF assms(2)] lock_run_ok [OF assms(1)] by simp
  note D = fitsD [OF f] and o = other_thread [OF assms(2-4)]
  have pl: "placed s (threads s ! j)" by (rule D(7) [OF o])
  have "\<not> (in_part u n (threads s ! i) \<and> in_part u n (threads s ! j))"
  proof
    assume "in_part u n (threads s ! i) \<and> in_part u n (threads s ! j)"
    then obtain a p b q where "threads s ! i = ChunkHeld u n a p" "threads s ! j = ChunkHeld u n b q" by (auto elim!: in_partE)
    then show False using D(6) [of p] D(8) pl cnt_pos [OF o, of "holds_part p"] by (auto simp: of_bool_def split: if_splits)
  qed
  moreover have False if "in_upload u (threads s ! i)" "in_upload u (threads s ! j)"
  proof -
    from that obtain a b where "threads s ! i = ExclHeld u a" "threads s ! j = ExclHeld u b" by (auto elim!: in_uploadE)
    then show False using D(3) [of a] D(8) pl cnt_pos [OF o, of "writing a"] by (auto simp: of_bool_def split: if_splits)
  qed
  moreover have False if "in_upload u (threads s ! i)" "in_part u n (threads s ! j)"
  proof -
    from that obtain a b q where t: "threads s ! i = ExclHeld u a" "threads s ! j = ChunkHeld u n b q" by (auto elim!: in_uploadE in_partE)
    then have "lock_writer (lock_at s a)" using D(3) [of a] cnt_nonneg [of "writing a" "others i s"] by (auto simp: of_bool_def split: if_splits)
    then show False using t D(2,4) [of a] D(8) pl cnt_pos [OF o, of "reading a"] by auto
  qed
  ultimately show ?thesis by blast
qed

lemma upload_locks_exclude_witness:
  "\<exists>s. lock_run (no_locks 2) s \<and> in_part 7 5 (threads s ! 0) \<and> \<not> in_part 7 5 (threads s ! 1) \<and> \<not> in_upload 7 (threads s ! 1)"
proof -
  obtain s where s: "lock_exec [0, 1, 0, 0, 0] (two_called 7) = Some s" "threads s = [ChunkHeld 7 5 0 0, ExclRef 7 0]"
    using part_is_written by blast
  have r: "lock_run (no_locks 2) s" by (rule lock_exec_run [OF two_called_run s(1)])
  show ?thesis using r s(2) upload_locks_exclude [OF r, of 0 1 7 5] by (intro exI [of _ s]) simp
qed

text \<open>The registry does not leak: when no call is under way, it is empty.\<close>

theorem no_lock_is_leaked:
  assumes "lock_run (no_locks k) s" "\<forall>t\<in>set (threads s). t = Idle"
  shows "registry s = (\<lambda>_. None)"
proof -
  have "tally (refers a) s = 0" for a using assms(2) by (auto simp: tally_def filter_empty_conv)
  then show ?thesis using lock_run_ok [OF assms(1)] by (fastforce simp: locks_ok_def)
qed

lemma no_lock_is_leaked_witness: "\<exists>s. lock_run (no_locks 2) s \<and> lock_next s = 1 \<and> registry s = (\<lambda>_. None)"
proof -
  obtain s where s: "lock_exec [0, 1, 0, 0, 0, 0, 0, 0, 0, 1, 1, 1] (two_called 7) = Some s" "threads s = [Idle, Idle]"
    using all_return by blast
  have r: "lock_run (no_locks 2) s" by (rule lock_exec_run [OF two_called_run s(1)])
  have "lock_next s = 1" using s(1) by (auto simp: lock_defs)
  then show ?thesis using r no_lock_is_leaked [OF r] s(2) by auto
qed

text \<open>C19: the locks do not deadlock: whenever a call is under way, some thread can go on, even if readers have to wait for a
  thread that waits to be the writer.\<close>

theorem upload_locks_never_deadlock:
  assumes "lock_run (no_locks k) s" "\<exists>t\<in>set (threads s). t \<noteq> Idle"
  shows "\<exists>i<length (threads s). \<exists>s'. advance i s = Some s' \<and>
     (\<forall>u n a. threads s ! i = ChunkRef u n a \<longrightarrow> (\<forall>v. ExclRef v a \<notin> set (threads s)))"
proof (rule ccontr)
  assume stuck: "\<not> ?thesis"
  have ok: "locks_ok s" by (rule lock_run_ok [OF assms(1)])
  have none: "advance i s = None" if "i < length (threads s)" "\<And>u n a. threads s ! i \<noteq> ChunkRef u n a" for i
    using stuck that by (metis option.exhaust)
  have kinds: "t = Idle \<or> (\<exists>u n a. t = ChunkRef u n a) \<or> (\<exists>u n a p. t = ChunkWait u n a p) \<or> (\<exists>u a. t = ExclRef u a)"
    if "t \<in> set (threads s)" for t
  proof -
    from that obtain i where "i < length (threads s)" "threads s ! i = t" by (auto simp: in_set_conv_nth)
    with none [of i] show ?thesis by (cases t) (auto simp: advance_def split: prod.splits)
  qed
  have free: "\<not> part_held (part_at s p)" for p
  proof -
    have "tally (holds_part p) s = 0" using kinds by (fastforce simp: tally_def filter_empty_conv)
    then show ?thesis using ok by (auto simp: locks_ok_def split: if_splits)
  qed
  have no_wait: "ChunkWait u n a p \<notin> set (threads s)" for u n a p
    using none free by (fastforce simp: in_set_conv_nth advance_def)
  have idle: "\<not> lock_writer (lock_at s a) \<and> lock_readers (lock_at s a) = 0" for a
  proof -
    have "tally (writing a) s = 0" "tally (reading a) s = 0"
      using kinds no_wait by (fastforce simp: tally_def filter_empty_conv)+
    then show ?thesis using ok by (auto simp: locks_ok_def split: if_splits)
  qed
  have no_excl: "ExclRef v a \<notin> set (threads s)" for v a
    using none idle by (fastforce simp: in_set_conv_nth advance_def)
  from assms(2) kinds no_wait no_excl obtain u n a where "ChunkRef u n a \<in> set (threads s)" by metis
  then obtain i where "i < length (threads s)" "threads s ! i = ChunkRef u n a" by (auto simp: in_set_conv_nth)
  with idle no_excl stuck show False by (auto simp: advance_def)
qed

lemma upload_locks_never_deadlock_witness:
  "\<exists>s. lock_run (no_locks 2) s \<and> threads s = [ChunkHeld 7 5 0 0, ExclRef 7 0] \<and> (\<exists>i<2. advance i s \<noteq> None)"
proof -
  obtain s where s: "lock_exec [0, 1, 0, 0, 0] (two_called 7) = Some s" "threads s = [ChunkHeld 7 5 0 0, ExclRef 7 0]"
    using part_is_written by blast
  have r: "lock_run (no_locks 2) s" by (rule lock_exec_run [OF two_called_run s(1)])
  have "\<exists>t\<in>set (threads s). t \<noteq> Idle" using s(2) by simp
  from upload_locks_never_deadlock [OF r this] obtain i s' where "i < length (threads s)" "advance i s = Some s'" by blast
  then have "i < 2 \<and> advance i s \<noteq> None" using s(2) by simp
  then show ?thesis using r s(2) by blast
qed

end
