(* ===== verification/ContentLocks.thy ===== *)
theory ContentLocks
  imports Locks
begin

text \<open>
  The locks on contents (\<open>contentLockRegistry\<close> of \<^verbatim>\<open>internal/uploads/finalize.go\<close>): finalizations of the same
  hash and size take turns. The entries of the registry are created on demand and dropped when nobody refers to them;
  they live at addresses, and a thread is where it is in \<open>lock\<close> or the function it returns.
\<close>

section \<open>Steps\<close>

record content_lock =
  content_held :: bool
  content_refs :: int

datatype content_thread =
    Outside
  | Asking string
  | Waiting string nat
  | Inside string nat
  | Leaving string nat

record content_world =
  content_locks :: "string \<Rightarrow> nat option"
  content_at :: "nat \<Rightarrow> content_lock"
  content_next :: nat
  finalizers :: "content_thread list"

definition new_content_locks :: "nat \<Rightarrow> content_world" where
  "new_content_locks k = \<lparr>content_locks = (\<lambda>_. None), content_at = (\<lambda>_. \<lparr>content_held = False, content_refs = 0\<rparr>),
     content_next = 0, finalizers = replicate k Outside\<rparr>"

definition content_enter :: "string \<Rightarrow> content_world \<Rightarrow> nat \<times> content_world" where
  "content_enter key s = (case content_locks s key of
       Some a \<Rightarrow> (a, s\<lparr>content_at := (content_at s)(a := (content_at s a)\<lparr>content_refs := content_refs (content_at s a) + 1\<rparr>)\<rparr>)
     | None \<Rightarrow> (let a = content_next s in
         (a, s\<lparr>content_locks := (content_locks s)(key := Some a), content_next := Suc a,
               content_at := (content_at s)(a := \<lparr>content_held = False, content_refs = 1\<rparr>)\<rparr>)))"

definition content_leave :: "string \<Rightarrow> nat \<Rightarrow> content_world \<Rightarrow> content_world" where
  "content_leave key a s = (let r = content_refs (content_at s a) - 1;
       s1 = s\<lparr>content_at := (content_at s)(a := (content_at s a)\<lparr>content_refs := r\<rparr>)\<rparr> in
     if r = 0 then s1\<lparr>content_locks := (content_locks s1)(key := None)\<rparr> else s1)"

definition content_hold :: "nat \<Rightarrow> bool \<Rightarrow> content_world \<Rightarrow> content_world" where
  "content_hold a b s = s\<lparr>content_at := (content_at s)(a := (content_at s a)\<lparr>content_held := b\<rparr>)\<rparr>"

definition content_to :: "nat \<Rightarrow> content_thread \<Rightarrow> content_world \<Rightarrow> content_world" where
  "content_to i t s = s\<lparr>finalizers := (finalizers s)[i := t]\<rparr>"

definition content_advance :: "nat \<Rightarrow> content_world \<Rightarrow> content_world option" where
  "content_advance i s = (case finalizers s ! i of
       Outside \<Rightarrow> None
     | Asking key \<Rightarrow> (case content_enter key s of (a, s1) \<Rightarrow> Some (content_to i (Waiting key a) s1))
     | Waiting key a \<Rightarrow> if content_held (content_at s a) then None else Some (content_to i (Inside key a) (content_hold a True s))
     | Inside key a \<Rightarrow> Some (content_to i (Leaving key a) (content_hold a False s))
     | Leaving key a \<Rightarrow> Some (content_to i Outside (content_leave key a s)))"

inductive content_run :: "content_world \<Rightarrow> content_world \<Rightarrow> bool" for s :: content_world where
  content_start: "content_run s s"
| content_ask: "content_run s t \<Longrightarrow> i < length (finalizers t) \<Longrightarrow> finalizers t ! i = Outside
    \<Longrightarrow> content_run s (content_to i (Asking key) t)"
| content_go: "content_run s t \<Longrightarrow> i < length (finalizers t) \<Longrightarrow> content_advance i t = Some t' \<Longrightarrow> content_run s t'"

section \<open>The invariant\<close>

fun content_refers :: "nat \<Rightarrow> content_thread \<Rightarrow> bool" where
  "content_refers a (Waiting k b) = (b = a)"
| "content_refers a (Inside k b) = (b = a)"
| "content_refers a (Leaving k b) = (b = a)"
| "content_refers a _ = False"

fun content_inside :: "nat \<Rightarrow> content_thread \<Rightarrow> bool" where
  "content_inside a (Inside k b) = (b = a)"
| "content_inside a _ = False"

fun content_placed :: "(string \<Rightarrow> nat option) \<Rightarrow> content_thread \<Rightarrow> bool" where
  "content_placed r (Waiting k b) = (r k = Some b)"
| "content_placed r (Inside k b) = (r k = Some b)"
| "content_placed r (Leaving k b) = (r k = Some b)"
| "content_placed r _ = True"

definition content_ok :: "content_world \<Rightarrow> bool" where
  "content_ok s \<longleftrightarrow>
     (\<forall>a. content_refs (content_at s a) = cnt (content_refers a) (finalizers s))
   \<and> (\<forall>a. cnt (content_inside a) (finalizers s) = of_bool (content_held (content_at s a)))
   \<and> (\<forall>t\<in>set (finalizers s). content_placed (content_locks s) t)
   \<and> (\<forall>k a. content_locks s k = Some a \<longrightarrow> a < content_next s \<and> 0 < content_refs (content_at s a)
        \<and> (\<forall>k'. content_locks s k' = Some a \<longrightarrow> k' = k))"

lemma content_okI:
  assumes "\<And>a. content_refs (content_at s a) = cnt (content_refers a) (finalizers s)"
    and "\<And>a. cnt (content_inside a) (finalizers s) = of_bool (content_held (content_at s a))"
    and "\<And>t. t \<in> set (finalizers s) \<Longrightarrow> content_placed (content_locks s) t"
    and "\<And>k a. content_locks s k = Some a \<Longrightarrow> a < content_next s"
    and "\<And>k a. content_locks s k = Some a \<Longrightarrow> 0 < content_refs (content_at s a)"
    and "\<And>k k' a. content_locks s k = Some a \<Longrightarrow> content_locks s k' = Some a \<Longrightarrow> k' = k"
  shows "content_ok s"
  using assms unfolding content_ok_def by blast

lemma content_okD:
  assumes "content_ok s"
  shows "content_refs (content_at s a) = cnt (content_refers a) (finalizers s)"
    and "cnt (content_inside a) (finalizers s) = of_bool (content_held (content_at s a))"
    and "t \<in> set (finalizers s) \<Longrightarrow> content_placed (content_locks s) t"
    and "content_locks s k = Some a \<Longrightarrow> a < content_next s"
    and "content_locks s k = Some a \<Longrightarrow> 0 < content_refs (content_at s a)"
    and "content_locks s k = Some a \<Longrightarrow> content_locks s k' = Some a \<Longrightarrow> k' = k"
  using assms unfolding content_ok_def by blast+

lemma cnt_update: "i < length ts \<Longrightarrow> cnt p (ts[i := t]) = cnt p ts - of_bool (p (ts ! i)) + of_bool (p t)"
proof -
  assume i: "i < length ts"
  have "cnt p (take i ts @ t # drop (Suc i) ts) = cnt p (take i ts @ drop (Suc i) ts) + of_bool (p t)" for t
    by (simp add: cnt_def)
  from this [of t] this [of "ts ! i"] show ?thesis
    using i by (simp add: upd_conv_take_nth_drop id_take_nth_drop [symmetric])
qed

lemma cnt_2:
  assumes "i < length ts" "j < length ts" "i \<noteq> j" "p (ts ! i)" "p (ts ! j)"
  shows "2 \<le> cnt p ts"
proof -
  have "{i, j} \<subseteq> {k. k < length ts \<and> p (ts ! k)}" using assms by auto
  then have "card {i, j} \<le> card {k. k < length ts \<and> p (ts ! k)}" by (rule card_mono [rotated]) simp
  then show ?thesis using assms(3) by (simp add: cnt_def length_filter_conv_card)
qed

lemma content_placed_refers: "content_placed r t \<Longrightarrow> content_refers a t \<Longrightarrow> \<exists>k. r k = Some a"
  by (cases t) auto

lemma content_inside_refers: "content_inside a t \<Longrightarrow> content_refers a t" by (cases t) auto

lemma content_placed_mono: "content_placed r t \<Longrightarrow> (\<And>k a. r k = Some a \<Longrightarrow> r' k = Some a) \<Longrightarrow> content_placed r' t"
  by (cases t) auto

lemma set_updateD: "x \<in> set (ts[i := t]) \<Longrightarrow> x = t \<or> x \<in> set ts"
  using set_update_subset_insert by fast

text \<open>The invariant does not mind a change that leaves the registry alone and keeps the counts in step.\<close>

lemma content_ok_change:
  assumes ok: "content_ok s" and i: "i < length (finalizers s)"
    and f: "finalizers s' = (finalizers s)[i := t]" "content_locks s' = content_locks s" "content_next s' = content_next s"
    and refs: "\<And>a. content_refs (content_at s' a) = content_refs (content_at s a) - of_bool (content_refers a (finalizers s ! i)) + of_bool (content_refers a t)"
    and held: "\<And>a. (of_bool (content_held (content_at s' a)) :: int)
      = of_bool (content_held (content_at s a)) - of_bool (content_inside a (finalizers s ! i)) + of_bool (content_inside a t)"
    and pl: "content_placed (content_locks s) t"
    and pos: "\<And>k a. content_locks s k = Some a \<Longrightarrow> 0 < content_refs (content_at s' a)"
  shows "content_ok s'"
proof (rule content_okI)
  show "content_refs (content_at s' a) = cnt (content_refers a) (finalizers s')" for a
    using i by (simp add: f refs cnt_update content_okD(1) [OF ok])
  show "cnt (content_inside a) (finalizers s') = of_bool (content_held (content_at s' a))" for a
    using i by (simp add: f held cnt_update content_okD(2) [OF ok])
  show "content_placed (content_locks s') x" if "x \<in> set (finalizers s')" for x
    using set_updateD [OF that [unfolded f]] pl content_okD(3) [OF ok] by (auto simp: f)
qed (use content_okD(4,6) [OF ok] pos in \<open>auto simp: f\<close>)

lemma content_ok_enter:
  assumes ok: "content_ok s" and i: "i < length (finalizers s)" and t: "finalizers s ! i = Asking key"
    and e: "content_enter key s = (a, s1)"
  shows "content_ok (content_to i (Waiting key a) s1)"
proof (cases "content_locks s key")
  case (Some b)
  then have s1: "b = a" "s1 = s\<lparr>content_at := (content_at s)(a := (content_at s a)\<lparr>content_refs := content_refs (content_at s a) + 1\<rparr>)\<rparr>"
    using e by (auto simp: content_enter_def)
  show ?thesis
    by (rule content_ok_change [OF ok i]) (use Some t s1(1) content_okD(5) [OF ok] in \<open>auto simp: content_to_def s1(2) add_nonneg_pos less_imp_le\<close>)
next
  case None
  then have s1: "a = content_next s" "s1 = s\<lparr>content_locks := (content_locks s)(key := Some a), content_next := Suc a,
      content_at := (content_at s)(a := \<lparr>content_held = False, content_refs = 1\<rparr>)\<rparr>"
    using e by (auto simp: content_enter_def Let_def)
  have old: "b < a" if "content_locks s k = Some b" for k b using content_okD(4) [OF ok that] s1(1) by simp
  have none: "\<not> content_refers a x" if "x \<in> set (finalizers s)" for x
    using content_placed_refers [OF content_okD(3) [OF ok that], of a] old by auto
  then have z: "cnt (content_refers a) (finalizers s) = 0" "cnt (content_inside a) (finalizers s) = 0"
    unfolding cnt_0 using content_inside_refers by blast+
  show ?thesis
  proof (rule content_okI)
    show "content_placed (content_locks (content_to i (Waiting key a) s1)) x"
      if "x \<in> set (finalizers (content_to i (Waiting key a) s1))" for x
    proof -
      from that have "x = Waiting key a \<or> x \<in> set (finalizers s)" by (auto simp: content_to_def s1(2) dest: set_updateD)
      moreover have "content_placed ((content_locks s)(key := Some a)) x" if "x \<in> set (finalizers s)"
        by (rule content_placed_mono [OF content_okD(3) [OF ok that]]) (use None in auto)
      ultimately show ?thesis by (auto simp: content_to_def s1(2))
    qed
    show "k' = k" if "content_locks (content_to i (Waiting key a) s1) k = Some b" "content_locks (content_to i (Waiting key a) s1) k' = Some b"
      for k k' b
      using that content_okD(6) [OF ok, of k b k'] old [of k b] old [of k' b] by (auto simp: content_to_def s1(2) split: if_splits)
  qed (use i t z content_okD(1,2,5) [OF ok] old in \<open>auto simp: content_to_def s1(2) cnt_update less_SucI split: if_splits\<close>)
qed

lemma content_ok_leave:
  assumes ok: "content_ok s" and i: "i < length (finalizers s)" and t: "finalizers s ! i = Leaving key a"
  shows "content_ok (content_to i Outside (content_leave key a s))"
proof (cases "content_refs (content_at s a) = 1")
  case False
  have "content_locks s key = Some a" using content_okD(3) [OF ok nth_mem [OF i]] t by simp
  from content_okD(5) [OF ok this] False show ?thesis
    by (intro content_ok_change [OF ok i]) (use t content_okD(5) [OF ok] in \<open>auto simp: content_to_def content_leave_def Let_def\<close>)
next
  case True
  let ?s = "content_to i Outside (content_leave key a s)"
  have at: "content_locks s key = Some a" using content_okD(3) [OF ok nth_mem [OF i]] t by simp
  have s1: "finalizers ?s = (finalizers s)[i := Outside]" "content_locks ?s = (content_locks s)(key := None)" "content_next ?s = content_next s"
    "content_at ?s = (content_at s)(a := (content_at s a)\<lparr>content_refs := 0\<rparr>)"
    using True by (simp_all add: content_to_def content_leave_def Let_def)
  have c0: "cnt (content_refers a) ((finalizers s)[i := Outside]) = 0"
    using i t True content_okD(1) [OF ok, of a] by (simp add: cnt_update)
  have none: "\<not> content_refers a x" if "x \<in> set ((finalizers s)[i := Outside])" for x
    using that c0 [unfolded cnt_0] by blast
  show ?thesis
  proof (rule content_okI)
    show "content_placed (content_locks ?s) x" if "x \<in> set (finalizers ?s)" for x
    proof -
      have x: "x \<in> set ((finalizers s)[i := Outside])" using that by (simp add: s1)
      have "x = Outside \<or> x \<in> set (finalizers s)" by (rule set_updateD [OF x])
      then have "content_placed (content_locks s) x" using content_okD(3) [OF ok] by auto
      then show ?thesis using none [OF x] at by (cases x) (auto simp: s1)
    qed
    show "0 < content_refs (content_at ?s b)" if "content_locks ?s k = Some b" for k b
    proof -
      have k: "k \<noteq> key" "content_locks s k = Some b" using that by (simp_all add: s1 split: if_splits)
      have "b \<noteq> a" using content_okD(6) [OF ok k(2), of key] k(1) at by blast
      then show ?thesis using content_okD(5) [OF ok k(2)] by (simp add: s1)
    qed
    show "k' = k" if "content_locks ?s k = Some b" "content_locks ?s k' = Some b" for k k' b
    proof -
      have "content_locks s k = Some b" "content_locks s k' = Some b" using that by (simp_all add: s1 split: if_splits)
      then show ?thesis by (rule content_okD(6) [OF ok])
    qed
    show "content_refs (content_at ?s b) = cnt (content_refers b) (finalizers ?s)" for b
      using i t True content_okD(1) [OF ok, of b] by (cases "b = a") (simp_all add: s1 cnt_update)
    show "cnt (content_inside b) (finalizers ?s) = of_bool (content_held (content_at ?s b))" for b
      using i t content_okD(2) [OF ok, of b] by (simp add: s1 cnt_update)
    show "b < content_next ?s" if "content_locks ?s k = Some b" for k b
    proof -
      have "content_locks s k = Some b" using that by (simp add: s1 split: if_splits)
      then show ?thesis unfolding s1 by (rule content_okD(4) [OF ok])
    qed
  qed
qed

lemma content_ok_advance:
  assumes ok: "content_ok s" and i: "i < length (finalizers s)" and r: "content_advance i s = Some s'"
  shows "content_ok s'"
proof (cases "finalizers s ! i")
  case (Asking key)
  obtain a s1 where "content_enter key s = (a, s1)" by fastforce
  with r Asking content_ok_enter [OF ok i Asking] show ?thesis by (simp add: content_advance_def)
next
  case (Waiting key a)
  have "content_locks s key = Some a" using content_okD(3) [OF ok nth_mem [OF i]] Waiting by simp
  then have "content_ok (content_to i (Inside key a) (content_hold a True s))" if "\<not> content_held (content_at s a)"
    by (intro content_ok_change [OF ok i]) (use that Waiting content_okD(5) [OF ok] in \<open>auto simp: content_to_def content_hold_def\<close>)
  with r Waiting show ?thesis by (auto simp: content_advance_def split: if_splits)
next
  case (Inside key a)
  have at: "content_locks s key = Some a" using content_okD(3) [OF ok nth_mem [OF i]] Inside by simp
  have "0 < cnt (content_inside a) (finalizers s)" by (rule cnt_pos [OF nth_mem [OF i]]) (simp add: Inside)
  then have "content_held (content_at s a)" using content_okD(2) [OF ok, of a] by (simp add: of_bool_def split: if_splits)
  then have "content_ok (content_to i (Leaving key a) (content_hold a False s))"
    by (intro content_ok_change [OF ok i]) (use at Inside content_okD(5) [OF ok] in \<open>auto simp: content_to_def content_hold_def\<close>)
  with r Inside show ?thesis by (simp add: content_advance_def)
next
  case (Leaving key a)
  with r content_ok_leave [OF ok i Leaving] show ?thesis by (simp add: content_advance_def)
qed (use r in \<open>simp add: content_advance_def\<close>)

lemma content_run_ok: "content_run (new_content_locks k) s \<Longrightarrow> content_ok s"
proof (induction rule: content_run.induct)
  case content_start
  show ?case by (rule content_okI) (auto simp: new_content_locks_def cnt_def)
next
  case (content_ask t i key)
  show ?case by (rule content_ok_change [OF content_ask.IH content_ask.hyps(2)])
    (use content_ask.hyps content_okD(5) [OF content_ask.IH] in \<open>auto simp: content_to_def\<close>)
qed (rule content_ok_advance)

section \<open>Properties\<close>

text \<open>Finalizations of the same content take turns: however the threads interleave, no two are between the lock and
  the unlock of the same hash and size, some thread can go on as long as one is not outside, and the registry is
  empty when all are.\<close>

theorem content_locks_take_turns:
  assumes "content_run (new_content_locks n) s" "i < length (finalizers s)" "j < length (finalizers s)" "i \<noteq> j"
  shows "(finalizers s ! i = Inside key a \<longrightarrow> finalizers s ! j \<noteq> Inside key b)
    \<and> (finalizers s ! i = Outside \<or> (\<exists>l<length (finalizers s). content_advance l s \<noteq> None))
    \<and> ((\<forall>t\<in>set (finalizers s). t = Outside) \<longrightarrow> content_locks s = (\<lambda>_. None))"
proof (intro conjI impI)
  have ok: "content_ok s" by (rule content_run_ok [OF assms(1)])
  note pl = content_okD(3) [OF ok nth_mem]
  show "finalizers s ! j \<noteq> Inside key b" if h: "finalizers s ! i = Inside key a"
  proof
    assume g: "finalizers s ! j = Inside key b"
    have "a = b" using pl [OF assms(2)] pl [OF assms(3)] h g by simp
    then have "2 \<le> cnt (content_inside a) (finalizers s)" using cnt_2 [OF assms(2-4)] h g by simp
    then show False using content_okD(2) [OF ok, of a] by (simp add: of_bool_def split: if_splits)
  qed
  show "finalizers s ! i = Outside \<or> (\<exists>l<length (finalizers s). content_advance l s \<noteq> None)"
  proof (cases "finalizers s ! i")
    case (Waiting k a)
    show ?thesis
    proof (cases "content_held (content_at s a)")
      case True
      then have "cnt (content_inside a) (finalizers s) = 1" using content_okD(2) [OF ok, of a] by simp
      then obtain t where "t \<in> set (finalizers s)" "content_inside a t" using cnt_0 [of "content_inside a" "finalizers s"] by auto
      then obtain l where "l < length (finalizers s)" "content_inside a (finalizers s ! l)" by (auto simp: in_set_conv_nth)
      then show ?thesis by (intro disjI2 exI [of _ l]) (cases "finalizers s ! l"; simp add: content_advance_def)
    qed (use assms(2) Waiting in \<open>auto simp: content_advance_def intro!: exI [of _ i]\<close>)
  qed (use assms(2) in \<open>auto simp: content_advance_def intro!: exI [of _ i] split: prod.splits\<close>)
  show "content_locks s = (\<lambda>_. None)" if out: "\<forall>t\<in>set (finalizers s). t = Outside"
  proof
    fix k
    have "cnt (content_refers a) (finalizers s) = 0" for a unfolding cnt_0 using out by auto
    then show "content_locks s k = None" using content_okD(1,5) [OF ok] by (cases "content_locks s k") fastforce+
  qed
qed

end
