(* ===== verification/TextMatch.thy ===== *)
theory TextMatch
  imports Utf8 MessageModel
begin

text \<open>
  The texts of a search (\<^verbatim>\<open>internal/search/query.go\<close>): splitting a query into tokens, the checks on them, and the
  \<^verbatim>\<open>LIKE\<close> pattern of a token. A text is matched rune by rune; which runes are equal up to case is the
  database's, the argument \<open>same\<close>.
\<close>

section \<open>Runes\<close>

function runes :: "string \<Rightarrow> string list" where
  "runes s = (if s = [] then [] else take (rune_size s) s # runes (drop (rune_size s) s))"
  by pat_completeness auto
termination
proof (relation "measure length")
  fix s :: string assume "s \<noteq> []"
  then have "0 < rune_size s" "0 < length s" by (simp_all add: rune_size_pos)
  then show "(drop (rune_size s) s, s) \<in> measure length" unfolding in_measure length_drop by (intro diff_less)
qed simp

declare runes.simps [simp del]

lemma runes_Nil [simp]: "runes [] = []" by (simp add: runes.simps)

lemma runes_seq: "is_seq r \<Longrightarrow> runes (r @ s) = r # runes s"
  using seq_size_append [of r s] by (subst runes.simps) (auto simp: is_seq_def rune_size_def)

lemma runes_concat: "\<forall>r\<in>set rs. is_seq r \<Longrightarrow> runes (concat rs @ s) = rs @ runes s"
  by (induction rs) (simp_all add: runes_seq)

lemma concat_runes [simp]: "concat (runes s) = s"
proof (induction s rule: runes.induct)
  case (1 s)
  then show ?case by (subst runes.simps) simp
qed

lemma runes_are_seqs: "utf8_valid s \<Longrightarrow> r \<in> set (runes s) \<Longrightarrow> is_seq r"
proof -
  assume "utf8_valid s" and r: "r \<in> set (runes s)"
  then obtain rs where "s = concat rs" "\<forall>r\<in>set rs. is_seq r" unfolding utf8_valid_runes by blast
  then show "is_seq r" using runes_concat [of rs "[]"] r by simp
qed

lemma length_runes: "length (runes s) = rune_count s"
proof (induction s rule: runes.induct)
  case (1 s)
  then show ?case by (subst runes.simps, subst rune_count.simps) simp
qed

lemma ascii_seq: "byte_of c < 128 \<Longrightarrow> is_seq [c]"
  by (simp add: is_seq_def lead_size_def Let_def)

section \<open>Tokens\<close>

datatype search_err = SearchTooShort | SearchTooLong | SearchTooMany | SearchErrValidation | SearchIO

definition max_query_bytes :: nat where "max_query_bytes = 1024"
definition max_tokens :: nat where "max_tokens = 16"
definition max_token_runes :: nat where "max_token_runes = 128"
definition min_token_runes :: nat where "min_token_runes = 2"

text \<open>\<^verbatim>\<open>strings.Fields\<close>: the maximal runs without white space; \<open>cur\<close> is the run under way.\<close>

function split_fields :: "string \<Rightarrow> string \<Rightarrow> string list" where
  "split_fields cur s =
     (if s = [] then (if cur = [] then [] else [cur])
      else (case starts_white s of
          Some r \<Rightarrow> (if cur = [] then [] else [cur]) @ split_fields [] (drop (length r) s)
        | None \<Rightarrow> split_fields (cur @ take (rune_size s) s) (drop (rune_size s) s)))"
  by pat_completeness auto
termination
proof (relation "measure (length \<circ> snd)")
  fix cur s :: string and r assume s: "s \<noteq> []" and "starts_white s = Some r"
  then have "r \<noteq> []" using starts_white_SomeD by blast
  then show "(([], drop (length r) s), cur, s) \<in> measure (length \<circ> snd)" using s by simp
next
  fix cur s :: string assume s: "s \<noteq> []"
  then have "0 < rune_size s" "0 < length s" by (simp_all add: rune_size_pos)
  then have "length s - rune_size s < length s" by (intro diff_less)
  then show "((cur @ take (rune_size s) s, drop (rune_size s) s), cur, s) \<in> measure (length \<circ> snd)" by simp
qed simp

declare split_fields.simps [simp del]

definition fields :: "string \<Rightarrow> string list" where
  "fields s = split_fields [] s"

text \<open>The loop over the fields: checks in order, and duplicates up to case are dropped.\<close>

fun check_tokens :: "(string \<Rightarrow> string) \<Rightarrow> string set \<Rightarrow> string list \<Rightarrow> search_err + string list" where
  "check_tokens lower seen [] = Inr []"
| "check_tokens lower seen (f # fs) =
     (if \<not> utf8_valid f \<or> fields f \<noteq> [f] then Inl SearchErrValidation
      else if rune_count f < min_token_runes then Inl SearchTooShort
      else if max_token_runes < rune_count f then Inl SearchTooLong
      else if lower f \<in> seen then check_tokens lower seen fs
      else (case check_tokens lower (insert (lower f) seen) fs of Inl e \<Rightarrow> Inl e | Inr ts \<Rightarrow> Inr (f # ts)))"

definition normalize_tokens :: "(string \<Rightarrow> string) \<Rightarrow> string list \<Rightarrow> search_err + string list" where
  "normalize_tokens lower fs =
     (if max_tokens < length fs then Inl SearchTooMany
      else (case check_tokens lower {} fs of
          Inl e \<Rightarrow> Inl e
        | Inr ts \<Rightarrow> if max_query_bytes < sum_list (map length fs) + (length fs - 1) then Inl SearchTooLong else Inr ts))"

definition tokenize :: "(string \<Rightarrow> string) \<Rightarrow> string \<Rightarrow> search_err + string list" where
  "tokenize lower v = (if \<not> utf8_valid v \<or> max_query_bytes < length v then Inl SearchTooLong
     else normalize_tokens lower (fields v))"

lemma check_tokens_Inr:
  "check_tokens lower seen fs = Inr ts \<Longrightarrow> set ts \<subseteq> set fs \<and> length ts \<le> length fs \<and> distinct (map lower ts)
     \<and> lower ` set ts \<inter> seen = {} \<and> lower ` set fs \<subseteq> lower ` set ts \<union> seen
     \<and> (\<forall>t\<in>set fs. utf8_valid t \<and> fields t = [t] \<and> min_token_runes \<le> rune_count t \<and> rune_count t \<le> max_token_runes)"
proof (induction lower seen fs arbitrary: ts rule: check_tokens.induct)
  case (2 lower seen f fs)
  note f = "2.prems" [unfolded check_tokens.simps]
  have ok: "utf8_valid f" "fields f = [f]" "min_token_runes \<le> rune_count f" "rune_count f \<le> max_token_runes"
    using f by (auto split: if_splits simp: not_less)
  show ?case
  proof (cases "lower f \<in> seen")
    case True
    then have "check_tokens lower seen fs = Inr ts" using f ok by (simp add: not_less)
    from "2.IH"(1) [OF _ _ _ True this] ok show ?thesis using True by auto
  next
    case False
    then obtain us where us: "check_tokens lower (insert (lower f) seen) fs = Inr us" "ts = f # us"
      using f ok by (auto simp: not_less split: sum.splits)
    from "2.IH"(2) [OF _ _ _ False us(1)] ok show ?thesis using False us(2) by auto
  qed
qed simp

section \<open>Patterns\<close>

text \<open>\<open>range\<close> over a string gives U+FFFD for a byte that starts no rune.\<close>

definition go_rune :: "string \<Rightarrow> string" where
  "go_rune r = (if seq_size r = 0 then [CHR 0xEF, CHR 0xBF, CHR 0xBD] else r)"

definition escape_rune :: "string \<Rightarrow> string" where
  "escape_rune r = (if r \<in> {[CHR 0x5C], [CHR 0x25], [CHR 0x5F]} then CHR 0x5C # r else go_rune r)"

definition like_pattern :: "string \<Rightarrow> string" where
  "like_pattern tok = [CHR 0x25] @ concat (map escape_rune (runes tok)) @ [CHR 0x25]"

text \<open>Matching with \<open>LIKE ... ESCAPE '\'\<close> on runes.\<close>

fun like :: "(string \<Rightarrow> string \<Rightarrow> bool) \<Rightarrow> string list \<Rightarrow> string list \<Rightarrow> bool" where
  "like same [] ts = (ts = [])"
| "like same (p # ps) [] = (p = [CHR 0x25] \<and> like same ps [])"
| "like same (p # ps) (t # ts) =
     (if p = [CHR 0x25] then like same ps (t # ts) \<or> like same (p # ps) ts
      else if p = [CHR 0x5F] then like same ps ts
      else if p = [CHR 0x5C] then (case ps of [] \<Rightarrow> False | q # qs \<Rightarrow> same q t \<and> like same qs ts)
      else same p t \<and> like same ps ts)"

definition ilike :: "(string \<Rightarrow> string \<Rightarrow> bool) \<Rightarrow> string \<Rightarrow> string \<Rightarrow> bool" where
  "ilike same text pat \<longleftrightarrow> like same (runes pat) (runes text)"

text \<open>What a token asks for: its runes, one after the other, up to case.\<close>

definition occurs :: "(string \<Rightarrow> string \<Rightarrow> bool) \<Rightarrow> string \<Rightarrow> string \<Rightarrow> bool" where
  "occurs same tok text \<longleftrightarrow> (\<exists>a b c. runes text = a @ b @ c \<and> list_all2 same (runes tok) b)"

lemma like_percent: "like same ([CHR 0x25] # ps) ts \<longleftrightarrow> (\<exists>a b. ts = a @ b \<and> like same ps b)"
proof (induction ts)
  case (Cons t ts)
  have "(\<exists>a b. t # ts = a @ b \<and> like same ps b) \<longleftrightarrow> like same ps (t # ts) \<or> (\<exists>a b. ts = a @ b \<and> like same ps b)"
    by (auto simp: Cons_eq_append_conv)
  with Cons.IH show ?case by simp
qed simp

lemma like_last_percent: "like same [[CHR 0x25]] ts"
  unfolding like_percent by (intro exI [of _ ts] exI [of _ "[]"]) simp

text \<open>The runes of a pattern: special ones are preceded by the escape.\<close>

definition escaped :: "string \<Rightarrow> string list" where
  "escaped r = (if r \<in> {[CHR 0x5C], [CHR 0x25], [CHR 0x5F]} then [[CHR 0x5C], r] else [r])"

lemma like_escaped:
  "like same (concat (map escaped rs) @ [[CHR 0x25]]) ts \<longleftrightarrow> (\<exists>b c. ts = b @ c \<and> list_all2 same rs b)"
proof (induction rs arbitrary: ts)
  case Nil
  show ?case by (simp add: like_last_percent del: like.simps)
next
  case (Cons r rs)
  have step: "like same (escaped r @ ps) ts \<longleftrightarrow> (\<exists>t us. ts = t # us \<and> same r t \<and> like same ps us)" for ps
    by (cases ts) (auto simp: escaped_def)
  have "(\<exists>t us. ts = t # us \<and> same r t \<and> (\<exists>b c. us = b @ c \<and> list_all2 same rs b))
      \<longleftrightarrow> (\<exists>b c. ts = b @ c \<and> list_all2 same (r # rs) b)"
    unfolding list_all2_Cons1 by (metis append_Cons)
  then show ?case by (simp only: list.map concat.simps append_assoc step Cons.IH)
qed

lemma runes_pattern:
  assumes "utf8_valid tok"
  shows "runes (like_pattern tok) = [CHR 0x25] # concat (map escaped (runes tok)) @ [[CHR 0x25]]"
proof -
  have seq: "is_seq [CHR 0x25]" "is_seq [CHR 0x5C]" "is_seq [CHR 0x5F]" by (simp_all add: ascii_seq byte_of_def)
  have e: "escape_rune r = concat (escaped r)" "\<forall>q\<in>set (escaped r). is_seq q" if "r \<in> set (runes tok)" for r
    using runes_are_seqs [OF assms that] seq by (auto simp: escape_rune_def escaped_def go_rune_def is_seq_def)
  have "concat (map escape_rune rs) = concat (concat (map escaped rs))" if "set rs \<subseteq> set (runes tok)" for rs
    using that by (induction rs) (simp_all add: e(1))
  then have "concat (map escape_rune (runes tok)) = concat (concat (map escaped (runes tok)))" by blast
  moreover have "\<forall>q\<in>set (concat (map escaped (runes tok))). is_seq q" using e(2) by auto
  ultimately show ?thesis
    unfolding like_pattern_def using seq(1)
    by (simp only: append_Cons append_Nil runes_seq [of "[CHR 0x25]" "_", simplified] runes_concat)
      (simp add: runes_seq [of "[CHR 0x25]" "[]", simplified])
qed

lemma ilike_pattern: "utf8_valid tok \<Longrightarrow> ilike same text (like_pattern tok) \<longleftrightarrow> occurs same tok text"
  unfolding ilike_def occurs_def by (simp only: runes_pattern like_percent like_escaped) auto

section \<open>Properties\<close>

text \<open>A token is searched for literally: whatever it contains, a text matches the pattern of the token exactly when
  the characters of the token occur in it one after the other, up to case; percent signs, underscores and
  backslashes have no special meaning.\<close>

theorem tokens_match_literally:
  assumes "tokenize lower v = Inr toks" "tok \<in> set toks"
  shows "ilike same text (like_pattern tok) \<longleftrightarrow> occurs same tok text"
proof (rule ilike_pattern)
  have "check_tokens lower {} (fields v) = Inr toks"
    using assms(1) by (auto simp: tokenize_def normalize_tokens_def split: if_splits sum.splits)
  from check_tokens_Inr [OF this] assms(2) show "utf8_valid tok" by blast
qed

lemma tokens_match_literally_witness:
  "tokenize (\<lambda>s. s) ''100% 100%'' = Inr [''100%'']
   \<and> (ilike (=) ''100 percent'' (like_pattern ''100%'') \<longleftrightarrow> occurs (=) ''100%'' ''100 percent'')
   \<and> \<not> ilike (=) ''100 percent'' (like_pattern ''100%'')"
proof -
  have t: "tokenize (\<lambda>s. s) ''100% 100%'' = Inr [''100%'']" by code_simp
  have n: "\<not> ilike (=) ''100 percent'' (like_pattern ''100%'')" by code_simp
  show ?thesis using t n tokens_match_literally [OF t, of "''100%''" "(=)" "''100 percent''"] by simp
qed

end
