(* ===== verification/Search.thy ===== *)
theory Search
  imports TextMatch Listing
begin

text \<open>
  Searching messages (\<^verbatim>\<open>internal/search\<close>): the checks of a request, the query that is put together from it, the
  recognition of code, and the pages. The case mappings of Go and of the database and the names of programming
  languages (\<^verbatim>\<open>messages/contenttype/languages.json\<close>) are arguments.
\<close>

section \<open>Requests\<close>

record search_env =
  go_lower :: "string \<Rightarrow> string"
  db_lower :: "string \<Rightarrow> string"
  same_rune :: "string \<Rightarrow> string \<Rightarrow> bool"
  code_languages :: "string list"

record search_query =
  sq_tokens :: "string list"
  sq_lifecycle :: "string option"
  sq_favorite :: "bool option"
  sq_tags :: "uuid list"
  sq_type :: "string option"
  sq_after :: "time option"
  sq_before :: "time option"
  sq_cursor :: "(time \<times> uuid) option"
  sq_limit :: int

definition max_type_bytes :: nat where "max_type_bytes = 64"

fun first_uses :: "uuid list \<Rightarrow> uuid list \<Rightarrow> uuid list" where
  "first_uses seen [] = []"
| "first_uses seen (t # ts) = (if t \<in> set seen then first_uses seen ts else t # first_uses (t # seen) ts)"

definition check_type :: "search_env \<Rightarrow> string option \<Rightarrow> search_err + string option" where
  "check_type env ty = (case ty of None \<Rightarrow> Inr None
     | Some v \<Rightarrow> (let t = trim_space v in
         if t = [] \<or> \<not> utf8_valid t \<or> max_type_bytes < length t then Inl SearchErrValidation else Inr (Some (go_lower env t))))"

definition check_query :: "search_env \<Rightarrow> uuid \<Rightarrow> search_query \<Rightarrow> search_err + search_query" where
  "check_query env owner q =
     (if owner = uuid_nil then Inl SearchErrValidation
      else let lim = (if sq_limit q = 0 then default_limit else sq_limit q) in
        if lim < 1 \<or> max_limit < lim then Inl SearchErrValidation
        else case normalize_tokens (go_lower env) (sq_tokens q) of Inl e \<Rightarrow> Inl e | Inr toks \<Rightarrow>
          if (case sq_lifecycle q of None \<Rightarrow> False | Some l \<Rightarrow> \<not> valid_lifecycle l) then Inl SearchErrValidation
          else case check_type env (sq_type q) of Inl e \<Rightarrow> Inl e | Inr ty \<Rightarrow>
            if (case (sq_after q, sq_before q) of (Some a, Some b) \<Rightarrow> \<not> a < b | _ \<Rightarrow> False) then Inl SearchErrValidation
            else if uuid_nil \<in> set (sq_tags q) then Inl SearchErrValidation
            else Inr (q\<lparr>sq_limit := lim, sq_tokens := toks, sq_type := ty, sq_tags := first_uses [] (sq_tags q)\<rparr>))"

section \<open>Code\<close>

text \<open>The white space that \<^verbatim>\<open>btrim\<close> removes around a body.\<close>

definition fence_white :: "string list" where
  "fence_white = [[CHR 0x20], [CHR 0x09], [CHR 0x0D], [CHR 0x0A], [CHR 0x0B], [CHR 0x0C],
     [CHR 0xC2, CHR 0xA0], [CHR 0xE1, CHR 0x9A, CHR 0x80],
     [CHR 0xE2, CHR 0x80, CHR 0x80], [CHR 0xE2, CHR 0x80, CHR 0x81], [CHR 0xE2, CHR 0x80, CHR 0x82],
     [CHR 0xE2, CHR 0x80, CHR 0x83], [CHR 0xE2, CHR 0x80, CHR 0x84], [CHR 0xE2, CHR 0x80, CHR 0x85],
     [CHR 0xE2, CHR 0x80, CHR 0x86], [CHR 0xE2, CHR 0x80, CHR 0x87], [CHR 0xE2, CHR 0x80, CHR 0x88],
     [CHR 0xE2, CHR 0x80, CHR 0x89], [CHR 0xE2, CHR 0x80, CHR 0x8A], [CHR 0xE2, CHR 0x80, CHR 0xA8],
     [CHR 0xE2, CHR 0x80, CHR 0xA9], [CHR 0xE2, CHR 0x80, CHR 0xAF], [CHR 0xE2, CHR 0x81, CHR 0x9F],
     [CHR 0xE3, CHR 0x80, CHR 0x80], [CHR 0xEF, CHR 0xBB, CHR 0xBF]]"

definition btrim :: "string list \<Rightarrow> string \<Rightarrow> string" where
  "btrim ws s = concat (rev (dropWhile (\<lambda>r. r \<in> set ws) (rev (dropWhile (\<lambda>r. r \<in> set ws) (runes s)))))"

definition tick :: char where "tick = CHR 0x60"
definition blank :: "char \<Rightarrow> bool" where "blank c \<longleftrightarrow> c = CHR 0x20 \<or> c = CHR 0x09"

definition language_char :: "char \<Rightarrow> bool" where
  "language_char c \<longleftrightarrow> CHR ''A'' \<le> c \<and> c \<le> CHR ''Z'' \<or> CHR ''a'' \<le> c \<and> c \<le> CHR ''z'' \<or> CHR ''0'' \<le> c \<and> c \<le> CHR ''9''
     \<or> c \<in> set ''_#+.-''"

text \<open>The opening line: the number of ticks, the language and what follows the line.\<close>

definition open_fence :: "string \<Rightarrow> (nat \<times> string \<times> string) option" where
  "open_fence s = (let ticks = takeWhile (\<lambda>c. c = tick) s; s1 = dropWhile (\<lambda>c. c = tick) s;
       lang = takeWhile language_char s1; s2 = dropWhile blank (dropWhile language_char s1);
       s3 = (case s2 of c # r \<Rightarrow> if c = CHR 0x0D then r else s2 | [] \<Rightarrow> s2) in
     if length ticks < 3 then None
     else (case s3 of c # r \<Rightarrow> if c = CHR 0x0A then Some (length ticks, lang, r) else None | [] \<Rightarrow> None))"

text \<open>\<^verbatim>\<open>string_to_array\<close>: no lines for the empty text.\<close>

fun split_lines :: "string \<Rightarrow> string \<Rightarrow> string list" where
  "split_lines cur [] = [cur]"
| "split_lines cur (c # s) = (if c = CHR 0x0A then cur # split_lines [] s else split_lines (cur @ [c]) s)"

definition text_lines :: "string \<Rightarrow> string list" where
  "text_lines s = (if s = [] then [] else split_lines [] s)"

definition closes_fence :: "nat \<Rightarrow> string \<Rightarrow> bool" where
  "closes_fence n line \<longleftrightarrow> (let k = takeWhile (\<lambda>c. c = tick) line; r = dropWhile blank (dropWhile (\<lambda>c. c = tick) line) in
     k \<noteq> [] \<and> (r = [] \<or> r = [CHR 0x0D])
     \<and> n \<le> rune_count (btrim [[CHR 0x20], [CHR 0x09], [CHR 0x0D]] line))"

definition fenced_code :: "search_env \<Rightarrow> string \<Rightarrow> bool" where
  "fenced_code env body = (case open_fence (btrim fence_white body) of None \<Rightarrow> False
     | Some (n, lang, r) \<Rightarrow> (let ls = text_lines r;
           closing = find (\<lambda>i. closes_fence n (ls ! i)) [0..<length ls];
           last_content = find (\<lambda>i. btrim fence_white (ls ! i) \<noteq> []) (rev [0..<length ls]) in
         db_lower env lang \<in> set (code_languages env) \<and> closing \<noteq> None \<and> closing = last_content))"

definition is_code :: "search_env \<Rightarrow> message \<Rightarrow> bool" where
  "is_code env m =
     (if body_format m = ''MARKDOWN''
      then \<not> sensitive m \<and> (case body_plaintext m of None \<Rightarrow> False | Some b \<Rightarrow> fenced_code env b)
      else (case detected_type m of None \<Rightarrow> False | Some t \<Rightarrow> db_lower env t = ''code'')
         \<or> (case detected_language m of None \<Rightarrow> False | Some l \<Rightarrow> l \<noteq> []))"

definition of_kind :: "search_env \<Rightarrow> string \<Rightarrow> message \<Rightarrow> bool" where
  "of_kind env kind m =
     (if kind = ''code'' then is_code env m
      else if kind = ''markdown'' \<or> kind = ''text''
      then body_format m = (if kind = ''markdown'' then ''MARKDOWN'' else ''TEXT'') \<and> \<not> is_code env m
      else (case detected_type m of None \<Rightarrow> False | Some t \<Rightarrow> db_lower env t = kind))"

section \<open>The query\<close>

definition searchable :: "uuid \<Rightarrow> time \<Rightarrow> message \<Rightarrow> bool" where
  "searchable owner now m \<longleftrightarrow> owner_id m = owner \<and> trashed_at m = None
     \<and> (msg_lifecycle m = Permanent \<or> (case expires_at m of None \<Rightarrow> False | Some t \<Rightarrow> now < t))"

definition title_hit :: "search_env \<Rightarrow> string \<Rightarrow> message \<Rightarrow> bool" where
  "title_hit env p m = (case title m of None \<Rightarrow> False | Some t \<Rightarrow> ilike (same_rune env) t p)"

definition body_hit :: "search_env \<Rightarrow> string \<Rightarrow> message \<Rightarrow> bool" where
  "body_hit env p m = (\<not> sensitive m \<and> (case body_plaintext m of None \<Rightarrow> False | Some b \<Rightarrow> ilike (same_rune env) b p))"

text \<open>The identifiers the first token finds, a union of four queries.\<close>

definition text_matches :: "search_env \<Rightarrow> uuid \<Rightarrow> time \<Rightarrow> string \<Rightarrow> db \<Rightarrow> uuid list" where
  "text_matches env owner now p d =
     map msg_id (filter (\<lambda>m. searchable owner now m \<and> title_hit env p m) (messages d))
   @ map msg_id (filter (\<lambda>m. searchable owner now m \<and> body_hit env p m) (messages d))
   @ concat (map (\<lambda>a. map msg_id (filter (\<lambda>m. msg_id m = ma_message a \<and> searchable owner now m) (messages d)))
       (filter (\<lambda>a. ilike (same_rune env) (ma_filename a) p) (attachments d)))
   @ concat (map (\<lambda>t. concat (map (\<lambda>(i, _). map msg_id (filter (\<lambda>m. msg_id m = i \<and> searchable owner now m) (messages d)))
         (filter (\<lambda>(_, j). j = tag_id t) (message_tags d))))
       (filter (\<lambda>t. tag_user t = owner \<and> ilike (same_rune env) (normalized_name t) p) (tags d)))"

text \<open>The condition for each further token.\<close>

definition text_hit :: "search_env \<Rightarrow> uuid \<Rightarrow> string \<Rightarrow> db \<Rightarrow> message \<Rightarrow> bool" where
  "text_hit env owner p d m \<longleftrightarrow> title_hit env p m \<or> body_hit env p m
     \<or> sql_exists (\<lambda>a. ma_message a = msg_id m \<and> ilike (same_rune env) (ma_filename a) p) (attachments d)
     \<or> sql_exists (\<lambda>t. (msg_id m, tag_id t) \<in> set (message_tags d) \<and> tag_user t = owner
          \<and> ilike (same_rune env) (normalized_name t) p) (tags d)"

definition filters_hold :: "search_env \<Rightarrow> search_query \<Rightarrow> db \<Rightarrow> message \<Rightarrow> bool" where
  "filters_hold env q d m \<longleftrightarrow>
     (case sq_lifecycle q of None \<Rightarrow> True | Some l \<Rightarrow> lifecycle_text (msg_lifecycle m) = l)
   \<and> (case sq_favorite q of None \<Rightarrow> True | Some b \<Rightarrow> favorite m = b)
   \<and> list_all (has_tag d m) (sq_tags q)
   \<and> (case sq_type q of None \<Rightarrow> True | Some t \<Rightarrow> of_kind env (go_lower env t) m)
   \<and> (case sq_after q of None \<Rightarrow> True | Some t \<Rightarrow> t \<le> created_at m)
   \<and> (case sq_before q of None \<Rightarrow> True | Some t \<Rightarrow> created_at m < t)"

definition search_where :: "search_env \<Rightarrow> uuid \<Rightarrow> search_query \<Rightarrow> time \<Rightarrow> db \<Rightarrow> message \<Rightarrow> bool" where
  "search_where env owner q now d m \<longleftrightarrow> searchable owner now m
   \<and> (case sort_key (\<lambda>t. - int (rune_count t)) (sq_tokens q) of [] \<Rightarrow> True
      | t # ts \<Rightarrow> msg_id m \<in> set (text_matches env owner now (like_pattern t) d)
          \<and> list_all (\<lambda>t. text_hit env owner (like_pattern t) d m) ts)
   \<and> filters_hold env q d m"

text \<open>The columns that are read; of a body its first characters.\<close>

definition left_chars :: "nat \<Rightarrow> string \<Rightarrow> string" where
  "left_chars n s = concat (take n (runes s))"

definition search_row :: "message \<Rightarrow> message" where
  "search_row m = m\<lparr>body_plaintext := map_option (left_chars (Suc max_preview_bytes)) (body_plaintext m),
     body_ciphertext := None, body_nonce := None, body_encryption_version := None, created_device_id := None\<rparr>"

definition search_rows :: "search_env \<Rightarrow> uuid \<Rightarrow> search_query \<Rightarrow> time \<Rightarrow> db \<Rightarrow> message list" where
  "search_rows env owner q now d = take (nat (sq_limit q + 1)) (rev (sort_key created_key
     (filter (\<lambda>m. search_where env owner q now d m \<and> below (sq_cursor q) (created_key m)) (messages d))))"

definition search_tags :: "uuid \<Rightarrow> db \<Rightarrow> message \<Rightarrow> tag list" where
  "search_tags owner d m = filter (\<lambda>t. tag_user t = owner) (tag_list (msg_id m) d)"

text \<open>The tags and the attachments of all rows are read by one statement each, and by none when there is no row.\<close>

definition hydrate :: "message list \<Rightarrow> (db \<Rightarrow> message \<Rightarrow> 'a) \<Rightarrow> (world, search_err, 'a list) act" where
  "hydrate ms f = (if ms = [] then ret [] else query SearchIO (\<lambda>d. map (f d) ms))"

definition search_repo :: "search_env \<Rightarrow> uuid \<Rightarrow> search_query \<Rightarrow> time \<Rightarrow> (world, search_err, listed list) act" where
  "search_repo env owner q now = in_tx SearchIO
     (bindA (query SearchIO (search_rows env owner q now)) (\<lambda>ms.
      bindA (hydrate ms (search_tags owner)) (\<lambda>ts.
      bindA (hydrate ms (\<lambda>d m. attachment_list (msg_id m) d)) (\<lambda>as.
      commit_tx (map (\<lambda>(m, ts, as). \<lparr>ls_row = search_row m, ls_tags = ts, ls_attachments = take 3 as, ls_total = length as\<rparr>)
        (zip ms (zip ts as)))))))"

definition search :: "search_env \<Rightarrow> uuid \<Rightarrow> search_query \<Rightarrow> time
     \<Rightarrow> (world, search_err, summary list \<times> (time \<times> uuid) option) act" where
  "search env owner q now = (case check_query env owner q of Inl e \<Rightarrow> throw e
     | Inr q' \<Rightarrow> bindA (search_repo env owner q' now) (\<lambda>rows. ret (page_of (sq_limit q') False rows)))"

section \<open>What a search is meant to find\<close>

definition mentions :: "search_env \<Rightarrow> uuid \<Rightarrow> string \<Rightarrow> db \<Rightarrow> message \<Rightarrow> bool" where
  "mentions env owner tok d m \<longleftrightarrow>
     (case title m of None \<Rightarrow> False | Some t \<Rightarrow> occurs (same_rune env) tok t)
   \<or> \<not> sensitive m \<and> (case body_plaintext m of None \<Rightarrow> False | Some b \<Rightarrow> occurs (same_rune env) tok b)
   \<or> (\<exists>a\<in>set (attachments d). ma_message a = msg_id m \<and> occurs (same_rune env) tok (ma_filename a))
   \<or> (\<exists>t\<in>set (tags d). (msg_id m, tag_id t) \<in> set (message_tags d) \<and> tag_user t = owner
        \<and> occurs (same_rune env) tok (normalized_name t))"

definition found :: "search_env \<Rightarrow> uuid \<Rightarrow> search_query \<Rightarrow> time \<Rightarrow> db \<Rightarrow> message \<Rightarrow> bool" where
  "found env owner q now d m \<longleftrightarrow> searchable owner now m \<and> (\<forall>t\<in>set (sq_tokens q). mentions env owner t d m)
     \<and> filters_hold env q d m"

definition search_result :: "search_env \<Rightarrow> uuid \<Rightarrow> search_query \<Rightarrow> time \<Rightarrow> db \<Rightarrow> message list" where
  "search_result env owner q now d = rev (sort_key created_key (filter (found env owner q now d) (messages d)))"

definition found_in :: "uuid \<Rightarrow> db \<Rightarrow> message \<Rightarrow> listed" where
  "found_in owner d m = \<lparr>ls_row = search_row m, ls_tags = search_tags owner d m,
     ls_attachments = take 3 (attachment_list (msg_id m) d), ls_total = length (attachment_list (msg_id m) d)\<rparr>"

definition search_page :: "search_env \<Rightarrow> uuid \<Rightarrow> search_query \<Rightarrow> time \<times> db \<Rightarrow> (time \<times> uuid) option
     \<Rightarrow> summary list \<times> (time \<times> uuid) option" where
  "search_page env owner q s c = (case fst (search env owner (q\<lparr>sq_cursor := c\<rparr>) (fst s) (process_on (snd s))) of
     Inl e \<Rightarrow> ([], None) | Inr p \<Rightarrow> p)"

section \<open>The query finds what is meant\<close>

lemma text_matches_hit:
  assumes "distinct (map msg_id (messages d))" "m \<in> set (messages d)" "searchable owner now m"
  shows "msg_id m \<in> set (text_matches env owner now p d) \<longleftrightarrow> text_hit env owner p d m"
proof -
  have same: "m' = m" if "m' \<in> set (messages d)" "msg_id m' = msg_id m" for m'
    using assms(1,2) that by (auto simp: distinct_map inj_on_def)
  have sel: "msg_id m \<in> msg_id ` {x \<in> set (messages d). P x} \<longleftrightarrow> P m" for P
    using same assms(2) by auto
  show ?thesis
    unfolding text_matches_def text_hit_def sql_exists_iff
    by (simp add: sel assms(3)) (use same assms(2,3) in fastforce)
qed

lemma hit_mentions: "utf8_valid tok \<Longrightarrow> text_hit env owner (like_pattern tok) d m \<longleftrightarrow> mentions env owner tok d m"
  by (auto simp: text_hit_def mentions_def title_hit_def body_hit_def ilike_pattern sql_exists_iff split: option.splits)

lemma search_where_found:
  assumes "distinct (map msg_id (messages d))" "m \<in> set (messages d)" "\<forall>t\<in>set (sq_tokens q). utf8_valid t"
  shows "search_where env owner q now d m \<longleftrightarrow> found env owner q now d m"
proof (cases "searchable owner now m")
  case True
  let ?ts = "sort_key (\<lambda>t. - int (rune_count t)) (sq_tokens q)"
  have valid: "\<forall>t\<in>set ?ts. utf8_valid t" using assms(3) by simp
  have "(case ?ts of [] \<Rightarrow> True | t # ts \<Rightarrow> msg_id m \<in> set (text_matches env owner now (like_pattern t) d)
          \<and> list_all (\<lambda>t. text_hit env owner (like_pattern t) d m) ts) \<longleftrightarrow> (\<forall>t\<in>set ?ts. mentions env owner t d m)"
  proof (cases ?ts)
    case (Cons t ts)
    then show ?thesis using valid
      by (simp add: text_matches_hit [OF assms(1,2) True] hit_mentions list_all_iff)
  qed simp
  then show ?thesis by (simp add: search_where_def found_def True)
qed (simp add: search_where_def found_def)

text \<open>The checks do not depend on the cursor, and a second look at the checked query changes nothing.\<close>

lemma check_query_Inr:
  assumes "check_query env owner q = Inr q'"
  shows "check_query env owner (q\<lparr>sq_cursor := c\<rparr>) = Inr (q'\<lparr>sq_cursor := c\<rparr>)"
    and "1 \<le> sq_limit q'" and "\<forall>t\<in>set (sq_tokens q'). utf8_valid t"
proof -
  show "check_query env owner (q\<lparr>sq_cursor := c\<rparr>) = Inr (q'\<lparr>sq_cursor := c\<rparr>)"
    using assms by (auto simp: check_query_def Let_def split: if_splits sum.splits)
  show "1 \<le> sq_limit q'"
    using assms by (auto simp: check_query_def Let_def default_limit_def split: if_splits sum.splits)
  obtain ts where ts: "normalize_tokens (go_lower env) (sq_tokens q) = Inr ts" "sq_tokens q' = ts"
    using assms by (auto simp: check_query_def Let_def split: if_splits sum.splits)
  then have "check_tokens (go_lower env) {} (sq_tokens q) = Inr ts"
    by (auto simp: normalize_tokens_def split: if_splits sum.splits)
  from check_tokens_Inr [OF this] show "\<forall>t\<in>set (sq_tokens q'). utf8_valid t" using ts(2) by blast
qed

lemma found_cursor [simp]: "found env owner (q\<lparr>sq_cursor := c\<rparr>) = found env owner q"
  by (simp add: fun_eq_iff found_def filters_hold_def)

lemma search_rows_eq:
  assumes "distinct (map msg_id (messages d))" "\<forall>t\<in>set (sq_tokens q). utf8_valid t"
  shows "search_rows env owner q now d
    = take (nat (sq_limit q + 1)) (filter (below (sq_cursor q) \<circ> created_key) (search_result env owner q now d))"
proof -
  have "filter (\<lambda>m. search_where env owner q now d m \<and> below (sq_cursor q) (created_key m)) (messages d)
      = filter (\<lambda>m. found env owner q now d m \<and> below (sq_cursor q) (created_key m)) (messages d)"
    using search_where_found [OF assms(1) _ assms(2)] by (intro filter_cong [OF refl]) auto
  then show ?thesis
    using sorted_page [of created_key "found env owner q now d" "sq_cursor q" "messages d"]
    by (simp add: search_rows_def search_result_def)
qed

lemma search_repo_quiet:
  assumes "quiet w"
  shows "search_repo env owner q now w = (Inr (map (found_in owner (wdb w)) (search_rows env owner q now (wdb w))), w)"
proof -
  have z: "map (\<lambda>(m, ts, as). \<lparr>ls_row = search_row m, ls_tags = ts, ls_attachments = take 3 as, ls_total = length as\<rparr>)
      (zip ms (zip (map (search_tags owner (wdb w)) ms) (map (\<lambda>m. attachment_list (msg_id m) (wdb w)) ms)))
    = map (found_in owner (wdb w)) ms" for ms
    by (induction ms) (simp_all add: found_in_def)
  have h: "hydrate ms f w = (Inr (map (f (wdb w)) ms), w)" for ms and f :: "db \<Rightarrow> message \<Rightarrow> 'a"
    using assms by (simp add: hydrate_def ret_run query_quiet)
  show ?thesis
    using assms by (simp add: search_repo_def in_tx_quiet bindA_run query_quiet h commit_tx_def ret_run z pop_fault_quiet)
qed

lemma search_result_descending:
  assumes "distinct (map msg_id (messages d))"
  shows "sorted_wrt (\<lambda>x y. created_key y < created_key x) (search_result env owner q now d)"
proof -
  have "distinct (map created_key (messages d))"
    using assms by (simp add: distinct_map inj_on_def created_key_def)
  then have "distinct (map created_key (filter (found env owner q now d) (messages d)))" by (rule distinct_map_filter)
  then have "distinct (map created_key (sort_key created_key (filter (found env owner q now d) (messages d))))"
    by (simp add: distinct_map)
  then have "sorted_wrt (<) (map created_key (sort_key created_key (filter (found env owner q now d) (messages d))))"
    by (simp add: strict_sorted_iff)
  then show ?thesis by (simp add: search_result_def sorted_wrt_map sorted_wrt_rev)
qed

definition search_state_ok :: "time \<times> db \<Rightarrow> bool" where
  "search_state_ok s \<longleftrightarrow> distinct (map msg_id (messages (snd s)))"

lemma search_page_eq:
  assumes q: "check_query env owner q = Inr q'" and s: "search_state_ok s"
  shows "search_page env owner q s c =
    (let xs = filter (below c \<circ> created_key) (search_result env owner q' (fst s) (snd s)); n = nat (sq_limit q') in
     (map (summarize \<circ> found_in owner (snd s)) (take n xs), if n < length xs then Some (created_key (xs ! (n - 1))) else None))"
proof -
  let ?xs = "filter (below c \<circ> created_key) (search_result env owner q' (fst s) (snd s))"
  note c = check_query_Inr [OF q]
  define n where "n = nat (sq_limit q')"
  have n: "0 < n" "sq_limit q' = int n" "nat (sq_limit q' + 1) = Suc n" using c(2) by (auto simp: n_def)
  have "search_rows env owner (q'\<lparr>sq_cursor := c\<rparr>) (fst s) (snd s) = take (Suc n) ?xs"
    using search_rows_eq [of "snd s" "q'\<lparr>sq_cursor := c\<rparr>" env owner "fst s"] s c(3) n(3)
    by (simp add: search_state_ok_def search_result_def)
  then have p: "search_page env owner q s c = page_of (int n) False (map (found_in owner (snd s)) (take (Suc n) ?xs))"
    by (simp add: search_page_def search_def c(1) bindA_run search_repo_quiet ret_run n(2))
  have row: "row_key False (ls_row (found_in owner (snd s) m)) = list_key False m" for m
    by (simp add: row_key_def found_in_def search_row_def list_key_def created_key_def)
  have k: "list_key False = created_key" by (simp add: list_key_def)
  show ?thesis
    unfolding p n(2) Let_def nat_int by (subst page_of_rows [OF n(1) row]) (simp only: k)
qed

definition search_listing :: "search_env \<Rightarrow> uuid \<Rightarrow> search_query \<Rightarrow> time \<times> db \<Rightarrow> summary list" where
  "search_listing env owner q s = map (summarize \<circ> found_in owner (snd s)) (search_result env owner q (fst s) (snd s))"

lemma summary_key_found [simp]: "summary_key False (summarize (found_in owner d m)) = created_key m"
  by (simp add: summary_key_def summarize_def found_in_def list_key_def created_key_def search_row_def Let_def)

text \<open>A request that fails its checks has no pages; its limit is then irrelevant.\<close>

definition checked :: "search_env \<Rightarrow> uuid \<Rightarrow> search_query \<Rightarrow> search_query" where
  "checked env owner q = (case check_query env owner q of Inl e \<Rightarrow> q | Inr q' \<Rightarrow> q')"

definition acceptable :: "search_env \<Rightarrow> uuid \<Rightarrow> search_query \<Rightarrow> bool" where
  "acceptable env owner q \<longleftrightarrow> (\<exists>q'. check_query env owner q = Inr q')"

interpretation searching: cursor_pages "search_page env owner q" "search_listing env owner (checked env owner q)" "summary_key False"
    "max 1 (nat (sq_limit (checked env owner q)))" "\<lambda>s. acceptable env owner q \<and> search_state_ok s" for env owner q
proof
  fix s :: "time \<times> db" and c
  assume a: "acceptable env owner q \<and> search_state_ok s"
  then obtain q' where q: "check_query env owner q = Inr q'" by (auto simp: acceptable_def)
  have ch: "checked env owner q = q'" by (simp add: checked_def q)
  have lim: "max 1 (nat (sq_limit q')) = nat (sq_limit q')" using check_query_Inr(2) [OF q] by simp
  have listing: "filter (below c \<circ> summary_key False) (search_listing env owner q' s)
     = map (summarize \<circ> found_in owner (snd s)) (filter (below c \<circ> created_key) (search_result env owner q' (fst s) (snd s)))" for c
    by (simp add: search_listing_def filter_map comp_def)
  show "sorted_wrt (\<lambda>x y. summary_key False y < summary_key False x) (search_listing env owner (checked env owner q) s)"
    using search_result_descending [of "snd s" env owner q' "fst s"] a
    by (simp add: ch search_listing_def sorted_wrt_map search_state_ok_def)
  show "fst (search_page env owner q s c) = take (max 1 (nat (sq_limit (checked env owner q))))
      (filter (below c \<circ> summary_key False) (search_listing env owner (checked env owner q) s))"
    unfolding ch lim listing using a by (simp add: search_page_eq [OF q] Let_def take_map)
  show "snd (search_page env owner q s c) =
      (let xs = filter (below c \<circ> summary_key False) (search_listing env owner (checked env owner q) s) in
       if max 1 (nat (sq_limit (checked env owner q))) < length xs
       then Some (summary_key False (xs ! (max 1 (nat (sq_limit (checked env owner q))) - 1))) else None)"
    unfolding ch lim listing using a by (simp add: search_page_eq [OF q] Let_def)
qed simp

section \<open>The preview of a result\<close>

text \<open>Reading only the first characters of a body does not change its preview.\<close>

lemma rune_nonempty: "r \<in> set (runes s) \<Longrightarrow> r \<noteq> []"
proof (induction s rule: runes.induct)
  case (1 s)
  show ?case
  proof (cases "s = []")
    case False
    then have "take (rune_size s) s \<noteq> []" using rune_size_pos [OF False] by simp
    then show ?thesis using 1 False by (subst (asm) (2) runes.simps) auto
  qed (use 1 in simp)
qed

lemma length_concat_ge: "\<forall>r\<in>set rs. r \<noteq> [] \<Longrightarrow> length rs \<le> length (concat rs)"
proof (induction rs)
  case (Cons r rs)
  then show ?case by (cases r) simp_all
qed simp

lemma left_chars_prefix: "prefix (left_chars n s) s"
proof -
  have "s = concat (take n (runes s)) @ concat (drop n (runes s))"
    by (metis append_take_drop_id concat_append concat_runes)
  then show ?thesis unfolding left_chars_def by (metis prefixI)
qed

lemma left_chars_all: "length (runes s) \<le> n \<Longrightarrow> left_chars n s = s"
  by (simp add: left_chars_def)

lemma length_left_chars:
  assumes "n < length (runes s)"
  shows "n \<le> length (left_chars n s)"
proof -
  have "\<forall>r\<in>set (take n (runes s)). r \<noteq> []" using rune_nonempty in_set_takeD by fast
  from length_concat_ge [OF this] assms show ?thesis by (simp add: left_chars_def)
qed

lemma preview_cut_cong: "(\<And>i. i \<le> n \<Longrightarrow> s ! i = t ! i) \<Longrightarrow> preview_cut s n = preview_cut t n"
  by (induction n) auto

lemma preview_left_chars: "preview (left_chars (Suc max_preview_bytes) s) = preview s"
proof (cases "Suc max_preview_bytes < length (runes s)")
  case True
  let ?l = "left_chars (Suc max_preview_bytes) s"
  have l: "max_preview_bytes < length ?l" using length_left_chars [OF True] by simp
  obtain z where z: "s = ?l @ z" using left_chars_prefix [of "Suc max_preview_bytes" s] by (auto simp: prefix_def)
  have len: "max_preview_bytes < length s" using arg_cong [OF z, of length] l by simp
  have nth: "?l ! i = s ! i" if "i \<le> max_preview_bytes" for i
    using that l by (subst z) (simp add: nth_append)
  have cut: "preview_cut ?l max_preview_bytes = preview_cut s max_preview_bytes" by (rule preview_cut_cong [OF nth])
  have "take (preview_cut s max_preview_bytes) ?l = take (preview_cut s max_preview_bytes) s"
    using preview_cut_le [of s max_preview_bytes] l by (subst (3) z) simp
  then show ?thesis using l len by (simp add: preview_def cut)
qed (simp add: left_chars_all)

section \<open>Properties\<close>

text \<open>C12: a search finds what it should: following the cursors of an accepted request gives exactly the live messages of
  the owner in which every token occurs (in the title, in a body that is not sensitive, in a file name or in a tag of
  the owner) and for which the filters hold, the newest first, each once, although the query treats the first token
  differently from the others and works with patterns.\<close>

theorem search_finds_every_match:
  assumes "check_query env owner q = Inr q'" "distinct (map msg_id (messages d))"
    and "length (search_result env owner q' now d) \<le> n"
  shows "browse (search_page env owner q) (replicate (Suc n) (now, d)) None
    = Some (map (summarize \<circ> found_in owner d) (search_result env owner q' now d))"
proof -
  have ch: "checked env owner q = q'" by (simp add: checked_def assms(1))
  have "filter (below None \<circ> summary_key False) (search_listing env owner q' (now, d)) = search_listing env owner q' (now, d)"
    by simp
  then show ?thesis
    using searching.browse_all [of env owner q "(now, d)" None n] assms
    by (simp add: ch acceptable_def search_state_ok_def search_listing_def del: browse.simps)
qed

text \<open>The three kinds of the user interface divide the messages: each is found under exactly one.\<close>

lemma of_kind_simps:
  "of_kind env ''code'' m = is_code env m"
  "of_kind env ''text'' m \<longleftrightarrow> body_format m = ''TEXT'' \<and> \<not> is_code env m"
  "of_kind env ''markdown'' m \<longleftrightarrow> body_format m = ''MARKDOWN'' \<and> \<not> is_code env m"
  by (simp_all add: of_kind_def)

lemma kinds_divide_the_messages:
  assumes "valid_format (body_format m)"
  shows "length (filter (\<lambda>k. of_kind env k m) [''text'', ''markdown'', ''code'']) = 1"
  using assms by (cases "is_code env m") (auto simp: valid_format_def of_kind_simps)

definition plain_env :: search_env where
  "plain_env = \<lparr>go_lower = (\<lambda>s. s), db_lower = (\<lambda>s. s), same_rune = (=), code_languages = [''go'']\<rparr>"

definition ask :: "string list \<Rightarrow> int \<Rightarrow> search_query" where
  "ask toks lim = \<lparr>sq_tokens = toks, sq_lifecycle = None, sq_favorite = None, sq_tags = [], sq_type = Some ''text'',
     sq_after = None, sq_before = None, sq_cursor = None, sq_limit = lim\<rparr>"

lemma ask_checked: "check_query plain_env 1 (ask [''ell'', ''ell''] 1) = Inr (ask [''ell''] 1)"
proof -
  have "normalize_tokens (\<lambda>s. s) [''ell'', ''ell''] = Inr [''ell'']" by code_simp
  moreover have "check_type plain_env (Some ''text'') = Inr (Some ''text'')" by code_simp
  ultimately show ?thesis by (simp add: check_query_def ask_def plain_env_def max_limit_def)
qed

lemma hello_occurs: "occurs (=) ''ell'' ''hello''"
proof -
  have r: "runes ''hello'' = [''h''] @ [''e'', ''l'', ''l''] @ [''o'']" "runes ''ell'' = [''e'', ''l'', ''l'']" by code_simp+
  show ?thesis unfolding occurs_def r(2) by (intro exI conjI, rule r(1)) simp
qed

lemma search_finds_every_match_witness:
  "map_option (map (fst \<circ> created_key \<circ> ls_row \<circ> su_listed))
    (browse (search_page plain_env 1 (ask [''ell'', ''ell''] 1)) (replicate 3 (9, inbox [plain_message 5 50, plain_message 6 60])) None)
    = Some [60, 50]"
proof -
  let ?d = "inbox [plain_message 5 50, plain_message 6 60]"
  have f: "found plain_env 1 (ask [''ell''] 1) 9 ?d (plain_message i t)" for i t
    using hello_occurs
    by (simp add: found_def searchable_def mentions_def filters_hold_def ask_def plain_env_def plain_message_def of_kind_simps is_code_def)
  have r: "search_result plain_env 1 (ask [''ell''] 1) 9 ?d = [plain_message 6 60, plain_message 5 50]"
    using f by (simp add: search_result_def inbox_def) (simp add: plain_message_def created_key_def)
  have "distinct (map msg_id (messages ?d))" by (simp add: inbox_def plain_message_def)
  then have b: "browse (search_page plain_env 1 (ask [''ell'', ''ell''] 1)) (replicate (Suc 2) (9, ?d)) None
      = Some (map (summarize \<circ> found_in 1 ?d) (search_result plain_env 1 (ask [''ell''] 1) 9 ?d))"
    by (intro search_finds_every_match [OF ask_checked]) (simp_all only: r, simp)
  have three: "(3::nat) = Suc 2" by simp
  show ?thesis unfolding three b r
    by (simp add: summarize_def found_in_def search_row_def created_key_def Let_def) (simp add: plain_message_def)
qed

end
