(* ===== verification/Health.thy ===== *)
theory Health
  imports Uploads
begin

text \<open>
  The health of the storage: the monitor that settles the results of its probes (\<^verbatim>\<open>internal/storage/monitor.go\<close>) and
  the status that administrators see (\<^verbatim>\<open>internal/admin/status.go\<close>), with the gate on the second factors of
  administrators. A probe answers in time or is stuck; a stuck probe keeps the gate until it returns.
\<close>

section \<open>The monitor\<close>

datatype probe_error = ProbeFull | ProbeDeadline | ProbeOther

record health_snapshot =
  hs_healthy :: bool
  hs_reason :: string
  hs_checked :: "time option"
  hs_changed :: time

record monitor =
  mon_failures :: int
  mon_count :: int
  mon_gate :: bool
  mon_healthy :: bool
  mon_reason :: string
  mon_snapshot :: health_snapshot

definition monitor_failure_threshold :: int where "monitor_failure_threshold = 2"

definition new_monitor_tunable :: "int \<Rightarrow> time \<Rightarrow> monitor" where
  "new_monitor_tunable threshold now = \<lparr>mon_failures = threshold, mon_count = 0, mon_gate = False, mon_healthy = True,
     mon_reason = [], mon_snapshot = \<lparr>hs_healthy = True, hs_reason = ''HEALTHY'', hs_checked = None, hs_changed = now\<rparr>\<rparr>"

definition new_monitor :: "time \<Rightarrow> monitor" where
  "new_monitor now = new_monitor_tunable monitor_failure_threshold now"

text \<open>The probe asks for the free space; none at all is a failure.\<close>

definition probe_space :: "probe_error + nat \<Rightarrow> probe_error option" where
  "probe_space r = (case r of Inl e \<Rightarrow> Some e | Inr available \<Rightarrow> if available = 0 then Some ProbeFull else None)"

definition classify_cause :: "probe_error option \<Rightarrow> string" where
  "classify_cause e = (case e of None \<Rightarrow> [] | Some ProbeFull \<Rightarrow> ''NAS_FULL'' | Some ProbeDeadline \<Rightarrow> ''NAS_TIMEOUT''
     | Some ProbeOther \<Rightarrow> ''NAS_UNAVAILABLE'')"

definition settle :: "bool \<Rightarrow> string \<Rightarrow> time \<Rightarrow> monitor \<Rightarrow> monitor" where
  "settle healthy reason now m = (let previous = mon_snapshot m in
     if healthy then
       m\<lparr>mon_reason := [], mon_healthy := True, mon_count := 0,
         mon_snapshot := \<lparr>hs_healthy = True, hs_reason = ''HEALTHY'', hs_checked = Some now,
           hs_changed = (if \<not> mon_healthy m then now else hs_changed previous)\<rparr>\<rparr>
     else let c = to_int32 (mon_count m + 1) in
       if mon_failures m \<le> c then
         m\<lparr>mon_count := c, mon_reason := reason, mon_healthy := False,
           mon_snapshot := \<lparr>hs_healthy = False, hs_reason = reason, hs_checked = Some now,
             hs_changed = (if mon_healthy m \<or> mon_reason m \<noteq> reason then now else hs_changed previous)\<rparr>\<rparr>
       else m\<lparr>mon_count := c, mon_snapshot := previous\<lparr>hs_checked := Some now\<rparr>\<rparr>)"

text \<open>What happens to a monitor: a probe that answers in time, one that does not, and the return of that one.\<close>

datatype probe_event =
    ProbeAnswers "probe_error + nat" time
  | ProbeHangs time
  | ProbeReturns

definition probe_once :: "probe_event \<Rightarrow> monitor \<Rightarrow> monitor" where
  "probe_once ev m = (case ev of
       ProbeAnswers r now \<Rightarrow>
         if mon_gate m then settle False ''NAS_TIMEOUT'' now m
         else (case probe_space r of
             None \<Rightarrow> settle True [] now m
           | Some e \<Rightarrow> settle False (classify_cause (Some e)) now m)
     | ProbeHangs now \<Rightarrow>
         if mon_gate m then settle False ''NAS_TIMEOUT'' now m
         else settle False ''NAS_TIMEOUT'' now (m\<lparr>mon_gate := True\<rparr>)
     | ProbeReturns \<Rightarrow> m\<lparr>mon_gate := False\<rparr>)"

section \<open>What the monitor is meant to say\<close>

text \<open>The verdict of each probe, \<open>None\<close> for success, given whether an earlier one is still out.\<close>

fun verdicts :: "bool \<Rightarrow> probe_event list \<Rightarrow> string option list" where
  "verdicts out [] = []"
| "verdicts out (ProbeAnswers r now # evs) =
     (if out then Some ''NAS_TIMEOUT'' else map_option (\<lambda>e. classify_cause (Some e)) (probe_space r)) # verdicts out evs"
| "verdicts out (ProbeHangs now # evs) = Some ''NAS_TIMEOUT'' # verdicts True evs"
| "verdicts out (ProbeReturns # evs) = verdicts False evs"

definition failing_streak :: "string option list \<Rightarrow> nat" where
  "failing_streak vs = length (takeWhile (\<lambda>v. v \<noteq> None) (rev vs))"

lemma failing_streak_snoc: "failing_streak (vs @ [v]) = (if v = None then 0 else Suc (failing_streak vs))"
  by (simp add: failing_streak_def)

lemma failing_streak_le: "failing_streak vs \<le> length vs"
  using length_takeWhile_le [of "\<lambda>v. v \<noteq> None" "rev vs"] by (simp add: failing_streak_def)

text \<open>The state after the verdicts \<open>vs\<close> with threshold \<open>k\<close>.\<close>

definition says :: "int \<Rightarrow> string option list \<Rightarrow> monitor \<Rightarrow> bool" where
  "says k vs m \<longleftrightarrow> mon_failures m = k \<and> mon_count m = int (failing_streak vs)
     \<and> mon_healthy m = (int (failing_streak vs) < k) \<and> hs_healthy (mon_snapshot m) = mon_healthy m
     \<and> (if mon_healthy m then hs_reason (mon_snapshot m) = ''HEALTHY'' else vs \<noteq> [] \<and> Some (hs_reason (mon_snapshot m)) = last vs)"

lemma says_settle:
  assumes "says k vs m" "1 \<le> k" "length vs < 2147483647"
  shows "says k (vs @ [v]) (settle (v = None) (case v of None \<Rightarrow> [] | Some r \<Rightarrow> r) now m)"
proof -
  have c: "to_int32 (int (failing_streak vs) + 1) = int (failing_streak vs) + 1"
    using failing_streak_le [of vs] assms(3) by (intro to_int32_id) linarith+
  show ?thesis
    using assms(1,2) c by (cases v) (auto simp: says_def settle_def failing_streak_snoc Let_def)
qed

lemma says_gate [simp]: "says k vs (m\<lparr>mon_gate := b\<rparr>) = says k vs m" by (simp add: says_def)

lemma settle_gate [simp]: "mon_gate (settle h r now m) = mon_gate m" by (simp add: settle_def Let_def)

lemma probe_once_simps:
  "probe_once (ProbeAnswers r now) m = (if mon_gate m then settle False ''NAS_TIMEOUT'' now m
     else (case probe_space r of None \<Rightarrow> settle True [] now m | Some e \<Rightarrow> settle False (classify_cause (Some e)) now m))"
  "probe_once (ProbeHangs now) m = settle False ''NAS_TIMEOUT'' now (if mon_gate m then m else m\<lparr>mon_gate := True\<rparr>)"
  "probe_once ProbeReturns m = m\<lparr>mon_gate := False\<rparr>"
  by (simp_all add: probe_once_def)

lemma says_run:
  assumes "says k vs m" "1 \<le> k" "length vs + length evs < 2147483648"
  shows "says k (vs @ verdicts (mon_gate m) evs) (fold probe_once evs m)"
  using assms
proof (induction evs arbitrary: vs m)
  case (Cons ev evs)
  have l: "length vs < 2147483647" using Cons.prems(3) by simp
  have go: "says k (vs @ v # verdicts (mon_gate m') evs) (fold probe_once evs m')" if "says k (vs @ [v]) m'" for v m'
    using Cons.IH [OF that Cons.prems(2)] Cons.prems(3) by simp
  note s = says_settle [OF _ Cons.prems(2) l]
  show ?case
  proof (cases ev)
    case (ProbeAnswers r now)
    show ?thesis
    proof (cases "mon_gate m")
      case True
      then show ?thesis using go [OF s [OF Cons.prems(1), of "Some ''NAS_TIMEOUT''" now]] ProbeAnswers
        by (simp add: probe_once_simps)
    next
      case False
      then show ?thesis using go [OF s [OF Cons.prems(1), of "map_option (\<lambda>e. classify_cause (Some e)) (probe_space r)" now]] ProbeAnswers
        by (cases "probe_space r") (simp_all add: probe_once_simps)
    qed
  next
    case (ProbeHangs now)
    have "says k (vs @ [Some ''NAS_TIMEOUT'']) (settle False ''NAS_TIMEOUT'' now (m\<lparr>mon_gate := True\<rparr>))"
      using s [of "m\<lparr>mon_gate := True\<rparr>" "Some ''NAS_TIMEOUT''" now] Cons.prems(1) by simp
    moreover have "says k (vs @ [Some ''NAS_TIMEOUT'']) (settle False ''NAS_TIMEOUT'' now m)"
      using s [OF Cons.prems(1), of "Some ''NAS_TIMEOUT''" now] by simp
    ultimately show ?thesis using go ProbeHangs
      by (cases "mon_gate m") (fastforce simp: probe_once_simps)+
  next
    case ProbeReturns
    have "says k (vs @ verdicts (mon_gate (m\<lparr>mon_gate := False\<rparr>)) evs) (fold probe_once evs (m\<lparr>mon_gate := False\<rparr>))"
      by (rule Cons.IH) (use Cons.prems in simp_all)
    then show ?thesis using ProbeReturns by (simp add: probe_once_simps)
  qed
qed simp

section \<open>The status page\<close>

datatype health_state = Healthy | Degraded | Unavailable
datatype threshold_state = Unconfigured | Normal | Warning | StrongWarning | LimitReached

definition threshold :: "int \<Rightarrow> int option \<Rightarrow> threshold_state" where
  "threshold used maximum = (case maximum of None \<Rightarrow> Unconfigured
     | Some m \<Rightarrow> if m \<le> used then LimitReached
         else if wrap64 (m - go_div m 10) \<le> used then StrongWarning
         else if wrap64 (m - go_div m 5) \<le> used then Warning
         else Normal)"

record storage_status =
  st_state :: health_state
  st_usage :: int
  st_maximum :: "int option"
  st_threshold :: threshold_state
  st_nas :: "(int \<times> int) option"
  st_staging_usage :: int
  st_staging :: "(int \<times> int) option"
  st_reasons :: "string list"

datatype status_err = StatusIO

text \<open>The probe of the network store is only sent while the monitor calls it healthy; its result and that of the
  staging directory are arguments.\<close>

definition logical_usage :: "db \<Rightarrow> int \<times> int option" where
  "logical_usage d = (sql_sum size_bytes (filter (\<lambda>f. fo_status f = ObjReady) (file_objects d)), max_storage_bytes (sys_settings d))"

definition nas_outcome :: "health_snapshot option \<Rightarrow> probe_error + (nat \<times> nat) \<Rightarrow> string + (int \<times> int)" where
  "nas_outcome snap r =
     (if (case snap of None \<Rightarrow> True | Some h \<Rightarrow> hs_healthy h) then
        (case r of Inl ProbeDeadline \<Rightarrow> Inl ''NAS_TIMEOUT'' | Inl _ \<Rightarrow> Inl ''NAS_UNAVAILABLE''
         | Inr (a, t) \<Rightarrow> Inr (wrap64 (int a), wrap64 (int t)))
      else Inl (hs_reason (the snap)))"

definition threshold_reasons :: "threshold_state \<Rightarrow> string list" where
  "threshold_reasons t = (if t = Warning \<or> t = StrongWarning then [''LOGICAL_THRESHOLD_WARNING'']
     else if t = LimitReached then [''LOGICAL_THRESHOLD_EXCEEDED''] else [])"

definition storage_report :: "status_err + (int \<times> int option) \<Rightarrow> status_err + int \<Rightarrow> string + (int \<times> int) \<Rightarrow> (int \<times> int) option \<Rightarrow> storage_status" where
  "storage_report usage staged nas stage =
     (let (used, mx) = (case usage of Inl _ \<Rightarrow> (0, None) | Inr u \<Rightarrow> u);
          down = (isl usage \<or> isl staged); t = threshold used mx;
          reasons = (if down then [''DATABASE_UNAVAILABLE''] else []) @ threshold_reasons t
            @ (case nas of Inl r \<Rightarrow> [r] | Inr _ \<Rightarrow> []) @ (if stage = None then [''STAGING_UNAVAILABLE''] else []) in
      \<lparr>st_state = (if down then Unavailable else if reasons \<noteq> [] then Degraded else Healthy),
       st_usage = used, st_maximum = mx, st_threshold = t, st_nas = (case nas of Inl _ \<Rightarrow> None | Inr v \<Rightarrow> Some v),
       st_staging_usage = (if isl usage then 0 else case staged of Inl _ \<Rightarrow> 0 | Inr n \<Rightarrow> n), st_staging = stage, st_reasons = reasons\<rparr>)"

definition status_storage :: "health_snapshot option \<Rightarrow> probe_error + (nat \<times> nat) \<Rightarrow> (int \<times> int) option \<Rightarrow> (world, status_err, storage_status) act" where
  "status_storage snap nas stage =
     bindA (tryA (query StatusIO logical_usage)) (\<lambda>usage.
     bindA (case usage of Inl e \<Rightarrow> ret (Inl e) | Inr _ \<Rightarrow> tryA (query StatusIO active_upload_reservation)) (\<lambda>staged.
     ret (storage_report usage staged (nas_outcome snap nas) stage)))"

section \<open>The gate on second factors\<close>

record security_status =
  sec_admins :: int
  sec_without :: int
  sec_satisfied :: bool

definition count_active_admins :: "db \<Rightarrow> nat" where
  "count_active_admins d = sql_count (\<lambda>u. usr_status u = Active \<and> is_admin u) (users d)"

definition count_active_admins_without_totp :: "db \<Rightarrow> nat" where
  "count_active_admins_without_totp d = sql_count (\<lambda>u. usr_status u = Active \<and> is_admin u
     \<and> \<not> sql_exists (\<lambda>t. totp_user t = usr_id u \<and> enabled_at t \<noteq> None) (user_totps d)) (users d)"

definition security :: "(world, status_err, security_status) act" where
  "security =
     bindA (tryA (query StatusIO count_active_admins)) (\<lambda>admins. case admins of
       Inl _ \<Rightarrow> ret \<lparr>sec_admins = 0, sec_without = 0, sec_satisfied = False\<rparr>
     | Inr n \<Rightarrow> bindA (tryA (query StatusIO count_active_admins_without_totp)) (\<lambda>without. case without of
         Inl _ \<Rightarrow> ret \<lparr>sec_admins = int n, sec_without = 0, sec_satisfied = False\<rparr>
       | Inr k \<Rightarrow> ret \<lparr>sec_admins = int n, sec_without = int k, sec_satisfied = (0 < n \<and> k = 0)\<rparr>))"

definition admins_protected :: "db \<Rightarrow> bool" where
  "admins_protected d \<longleftrightarrow> (\<exists>u\<in>set (users d). usr_status u = Active \<and> is_admin u)
     \<and> (\<forall>u\<in>set (users d). usr_status u = Active \<and> is_admin u
          \<longrightarrow> (\<exists>t\<in>set (user_totps d). totp_user t = usr_id u \<and> enabled_at t \<noteq> None))"

lemma protected_counts: "0 < count_active_admins d \<and> count_active_admins_without_totp d = 0 \<longleftrightarrow> admins_protected d"
  unfolding admins_protected_def count_active_admins_def count_active_admins_without_totp_def sql_exists_iff sql_count_def
  by (auto simp: filter_empty_conv)

lemma threshold_levels:
  assumes "0 \<le> m" "in_int64 m"
  shows "threshold used (Some m) = (if m \<le> used then LimitReached else if m - m div 10 \<le> used then StrongWarning
    else if m - m div 5 \<le> used then Warning else Normal)"
proof -
  have "0 \<le> m div k" "m div k \<le> m" if "0 < k" for k :: int
    using assms(1) that by (simp_all add: pos_imp_zdiv_nonneg_iff zdiv_mono2 [of m 1 k, simplified])
  then have "in_int64 (m - m div 10)" "in_int64 (m - m div 5)" using assms unfolding in_int64_def by (smt (verit))+
  then show ?thesis using assms(1) by (simp add: threshold_def wrap64_id go_div_nonneg)
qed

section \<open>Properties\<close>

text \<open>C29: the monitor says what it is meant to: after any sequence of probes, answered, hanging and returning, the storage is
  reported healthy exactly when fewer than \<open>k\<close> probes in a row have failed last, and otherwise with the reason of
  the last failure; a probe counts as failed while an earlier one hangs.\<close>

theorem monitor_reports_a_failing_streak:
  assumes "1 \<le> k" "length evs < 2147483648"
  shows "(case fold probe_once evs (new_monitor_tunable k now) of m \<Rightarrow>
      hs_healthy (mon_snapshot m) = (int (failing_streak (verdicts False evs)) < k) \<and> mon_healthy m = hs_healthy (mon_snapshot m)
    \<and> (\<not> mon_healthy m \<longrightarrow> Some (hs_reason (mon_snapshot m)) = last (verdicts False evs)))"
proof -
  have "says k [] (new_monitor_tunable k now)"
    using assms(1) by (simp add: says_def new_monitor_tunable_def failing_streak_def)
  from says_run [OF this assms(1)] assms(2)
  have "says k (verdicts False evs) (fold probe_once evs (new_monitor_tunable k now))"
    by (simp add: new_monitor_tunable_def)
  then show ?thesis by (auto simp: says_def split: if_splits)
qed

lemma monitor_reports_a_failing_streak_witness:
  "\<not> mon_healthy (fold probe_once [ProbeAnswers (Inr 5) 1, ProbeHangs 2, ProbeAnswers (Inr 5) 3] (new_monitor_tunable 2 0))"
  using monitor_reports_a_failing_streak [of 2 "[ProbeAnswers (Inr 5) 1, ProbeHangs 2, ProbeAnswers (Inr 5) 3]" 0]
  by (simp add: failing_streak_def probe_space_def)

text \<open>C30: the gate on public exposure fails closed: it is reported satisfied only when there is an active administrator and
  each of them has confirmed a second factor, whatever queries fail; and it is when they do not fail.\<close>

theorem security_gate_fails_closed:
  "\<exists>s w'. security w = (Inr s, w') \<and> wdb w' = wdb w \<and> (sec_satisfied s \<longrightarrow> admins_protected (wdb w))
     \<and> (quiet w \<longrightarrow> sec_satisfied s = admins_protected (wdb w))"
proof -
  obtain r1 w1 where q1: "query StatusIO count_active_admins w = (r1, w1)" by fastforce
  obtain r2 w2 where q2: "query StatusIO count_active_admins_without_totp w1 = (r2, w2)" by fastforce
  have d: "wdb w1 = wdb w" "wdb w2 = wdb w"
    and v: "\<And>n. r1 = Inr n \<Longrightarrow> n = count_active_admins (wdb w)" "\<And>n. r2 = Inr n \<Longrightarrow> n = count_active_admins_without_totp (wdb w)"
    using query_result [OF q1] query_result [OF q2] by auto
  have good: "r1 = Inr (count_active_admins (wdb w)) \<and> r2 = Inr (count_active_admins_without_totp (wdb w))" if "quiet w"
    using that q1 q2 by (auto simp: query_quiet)
  have p: "admins_protected (wdb w) \<longleftrightarrow> 0 < count_active_admins (wdb w) \<and> count_active_admins_without_totp (wdb w) = 0"
    by (simp add: protected_counts)
  show ?thesis
    using q1 q2 d v good p by (cases r1; cases r2) (auto simp: security_def bindA_run tryA_run ret_run)
qed

text \<open>One active administrator, with and without a second factor.\<close>

definition admin_db :: "user_totp list \<Rightarrow> db" where
  "admin_db ts = empty_db\<lparr>users := [\<lparr>usr_id = 1, username = ''a'', display_name = ''A'', password_hash = [], is_admin = True,
     usr_status = Active, usr_created_at = 0, usr_updated_at = 0\<rparr>], user_totps := ts\<rparr>"

lemma security_gate_fails_closed_witness:
  "\<exists>s w'. security (process_on (admin_db [])) = (Inr s, w') \<and> \<not> sec_satisfied s"
proof -
  have "\<not> admins_protected (wdb (process_on (admin_db [])))" by (simp add: admins_protected_def admin_db_def)
  then show ?thesis using security_gate_fails_closed [of "process_on (admin_db [])"] by blast
qed

end
