(* ===== verification/Hub.thy ===== *)
theory Hub
  imports Prelude
begin

text \<open>
  The hub of the live events (\<^verbatim>\<open>internal/realtime/hub.go\<close>): for each user the subscriptions under way, each with a
  bounded channel. Publishing never waits: a subscriber whose channel is full is cancelled. The events are an
  argument; \<open>sub_read\<close> keeps what the reader of a subscription has taken from its channel.
\<close>

section \<open>Operations\<close>

definition default_subscriber_buffer :: nat where "default_subscriber_buffer = 64"

record 'e subscription =
  sub_channel :: "'e list"
  sub_cancelled :: bool
  sub_read :: "'e list"

record 'e hub =
  hub_users :: "uuid \<Rightarrow> (uuid \<Rightarrow> 'e subscription option) option"
  hub_buffer :: nat

definition new_hub :: "'e hub" where
  "new_hub = \<lparr>hub_users = (\<lambda>_. None), hub_buffer = default_subscriber_buffer\<rparr>"

definition subs_of :: "'e hub \<Rightarrow> uuid \<Rightarrow> uuid \<Rightarrow> 'e subscription option" where
  "subs_of h u = (case hub_users h u of None \<Rightarrow> (\<lambda>_. None) | Some m \<Rightarrow> m)"

definition subscribe :: "uuid \<Rightarrow> uuid \<Rightarrow> 'e hub \<Rightarrow> 'e hub" where
  "subscribe u i h = h\<lparr>hub_users := (hub_users h)(u := Some ((subs_of h u)(i :=
     Some \<lparr>sub_channel = [], sub_cancelled = False, sub_read = []\<rparr>)))\<rparr>"

text \<open>The function a subscription is ended with; the second call of it does nothing.\<close>

definition unsubscribe :: "uuid \<Rightarrow> uuid \<Rightarrow> 'e hub \<Rightarrow> 'e hub" where
  "unsubscribe u i h = (case hub_users h u of None \<Rightarrow> h
     | Some m \<Rightarrow> h\<lparr>hub_users := (hub_users h)(u := (let m' = m(i := None) in if m' = (\<lambda>_. None) then None else Some m'))\<rparr>)"

definition offer :: "nat \<Rightarrow> 'e \<Rightarrow> 'e subscription \<Rightarrow> 'e subscription" where
  "offer buffer e s = (if length (sub_channel s) < buffer then s\<lparr>sub_channel := sub_channel s @ [e]\<rparr> else s\<lparr>sub_cancelled := True\<rparr>)"

definition publish :: "uuid \<Rightarrow> 'e \<Rightarrow> 'e hub \<Rightarrow> 'e hub" where
  "publish u e h = h\<lparr>hub_users := (hub_users h)(u := map_option (\<lambda>m i. map_option (offer (hub_buffer h) e) (m i)) (hub_users h u))\<rparr>"

definition close_hub :: "'e hub \<Rightarrow> 'e hub" where
  "close_hub h = h\<lparr>hub_users := (\<lambda>_. None)\<rparr>"

text \<open>The reader of a subscription takes the next event from its channel.\<close>

definition take_event :: "uuid \<Rightarrow> uuid \<Rightarrow> 'e hub \<Rightarrow> 'e hub" where
  "take_event u i h = (case subs_of h u i of None \<Rightarrow> h
     | Some s \<Rightarrow> (case sub_channel s of [] \<Rightarrow> h
         | e # es \<Rightarrow> h\<lparr>hub_users := (hub_users h)(u := Some ((subs_of h u)(i := Some (s\<lparr>sub_channel := es, sub_read := sub_read s @ [e]\<rparr>))))\<rparr>))"

datatype 'e hub_op = Subscribe uuid uuid | Unsubscribe uuid uuid | Publish uuid 'e | Take uuid uuid | Close

fun hub_do :: "'e hub_op \<Rightarrow> 'e hub \<Rightarrow> 'e hub" where
  "hub_do (Subscribe u i) h = subscribe u i h"
| "hub_do (Unsubscribe u i) h = unsubscribe u i h"
| "hub_do (Publish u e) h = publish u e h"
| "hub_do (Take u i) h = take_event u i h"
| "hub_do Close h = close_hub h"

section \<open>What a subscriber is owed\<close>

text \<open>The events published to a user since a subscription began, \<open>None\<close> when it is not under way.\<close>

fun owed_step :: "uuid \<Rightarrow> uuid \<Rightarrow> 'e hub_op \<Rightarrow> 'e list option \<Rightarrow> 'e list option" where
  "owed_step u i (Subscribe v j) x = (if v = u \<and> j = i then Some [] else x)"
| "owed_step u i (Unsubscribe v j) x = (if v = u \<and> j = i then None else x)"
| "owed_step u i (Publish v e) x = (if v = u then map_option (\<lambda>es. es @ [e]) x else x)"
| "owed_step u i (Take v j) x = x"
| "owed_step u i Close x = None"

definition owed :: "uuid \<Rightarrow> uuid \<Rightarrow> 'e hub_op list \<Rightarrow> 'e list option" where
  "owed u i ops = fold (owed_step u i) ops None"

definition serves :: "'e list option \<Rightarrow> nat \<Rightarrow> 'e subscription option \<Rightarrow> bool" where
  "serves x b s \<longleftrightarrow> (case (x, s) of (None, None) \<Rightarrow> True
     | (Some es, Some s) \<Rightarrow> length (sub_channel s) \<le> b \<and> (\<not> sub_cancelled s \<longrightarrow> sub_read s @ sub_channel s = es)
     | _ \<Rightarrow> False)"

lemma subs_of_subscribe: "subs_of (subscribe v j h) u i =
    (if u = v \<and> i = j then Some \<lparr>sub_channel = [], sub_cancelled = False, sub_read = []\<rparr> else subs_of h u i)"
  by (simp add: subs_of_def subscribe_def)

lemma subs_of_unsubscribe: "subs_of (unsubscribe v j h) u i = (if u = v \<and> i = j then None else subs_of h u i)"
proof (cases "hub_users h v")
  case (Some m)
  show ?thesis
  proof (cases "m(j := None) = (\<lambda>_. None)")
    case True
    then have "i \<noteq> j \<Longrightarrow> m i = None" by (metis fun_upd_other)
    then show ?thesis using True Some by (auto simp: subs_of_def unsubscribe_def)
  qed (use Some in \<open>auto simp: subs_of_def unsubscribe_def Let_def\<close>)
qed (auto simp: subs_of_def unsubscribe_def)

lemma subs_of_publish: "subs_of (publish v e h) u i =
    (if u = v then map_option (offer (hub_buffer h) e) (subs_of h u i) else subs_of h u i)"
  by (auto simp: subs_of_def publish_def split: option.splits)

lemma subs_of_close: "subs_of (close_hub h) u i = None" by (simp add: subs_of_def close_hub_def)

lemma subs_of_take: "subs_of (take_event v j h) u i =
    (if u = v \<and> i = j then map_option (\<lambda>s. case sub_channel s of [] \<Rightarrow> s
        | e # es \<Rightarrow> s\<lparr>sub_channel := es, sub_read := sub_read s @ [e]\<rparr>) (subs_of h u i)
     else subs_of h u i)"
  by (auto simp: take_event_def split: option.splits list.splits) (auto simp: subs_of_def)

lemma hub_buffer_do [simp]: "hub_buffer (hub_do op h) = hub_buffer h"
  by (cases op) (auto simp: subscribe_def unsubscribe_def publish_def take_event_def close_hub_def split: option.splits list.splits)

lemma serves_step:
  assumes "serves x (hub_buffer h) (subs_of h u i)"
  shows "serves (owed_step u i op x) (hub_buffer h) (subs_of (hub_do op h) u i)"
proof (cases op)
  case (Publish v e)
  then show ?thesis using assms
    by (cases x; cases "subs_of h u i") (auto simp: serves_def subs_of_publish offer_def)
next
  case (Take v j)
  then show ?thesis using assms
    by (cases x; cases "subs_of h u i") (auto simp: serves_def subs_of_take split: list.splits)
qed (use assms in \<open>auto simp: serves_def subs_of_subscribe subs_of_unsubscribe subs_of_close\<close>)

lemma serves_run:
  "serves x (hub_buffer h) (subs_of h u i) \<Longrightarrow> serves (fold (owed_step u i) ops x) (hub_buffer h) (subs_of (fold hub_do ops h) u i)"
proof (induction ops arbitrary: x h)
  case (Cons op ops)
  from Cons.IH [of "owed_step u i op x" "hub_do op h"] serves_step [OF Cons.prems, of op] show ?case by simp
qed simp

section \<open>Properties\<close>

text \<open>C20: no event is lost silently: whatever is published, read, subscribed and ended, a subscription that has not been
  cancelled has read, or still has in its channel, exactly the events published to its user since it began, in order,
  and never one of another user; its channel stays within the buffer.\<close>

theorem live_events_arrive_in_order:
  "case subs_of (fold hub_do ops new_hub) u i of
     None \<Rightarrow> owed u i ops = None
   | Some s \<Rightarrow> length (sub_channel s) \<le> default_subscriber_buffer
       \<and> (sub_cancelled s \<or> owed u i ops = Some (sub_read s @ sub_channel s))"
proof -
  have "serves None (hub_buffer new_hub) (subs_of new_hub u i)" by (simp add: serves_def subs_of_def new_hub_def)
  from serves_run [OF this, of ops] show ?thesis
    by (auto simp: owed_def [symmetric] serves_def new_hub_def split: option.splits)
qed

end
