(* ===== verification/ClientAddress.thy ===== *)
theory ClientAddress
  imports MessageModel
begin

text \<open>
  The address of the client behind reverse proxies (\<^verbatim>\<open>internal/platform/httpx/clientip.go\<close>), which the limiter of
  sign-ins and the audit log rely on. Parsing addresses and URLs is library code, given as arguments; an absent header
  is the empty text.
\<close>

section \<open>Resolving a request\<close>

record 'a net_lib =
  split_host_port :: "string \<Rightarrow> string option"
  parse_addr :: "string \<Rightarrow> 'a option"
  in_prefix :: "'a \<Rightarrow> bool"
  plain_host :: "string \<Rightarrow> bool"

record http_request =
  remote_addr :: string
  over_tls :: bool
  req_host :: string
  forwarded_for_lines :: "string list"
  forwarded_proto :: string
  forwarded_host :: string

text \<open>\<^verbatim>\<open>Header.Get\<close> reads the first line of a header that is sent in several.\<close>

definition forwarded_for :: "http_request \<Rightarrow> string" where
  "forwarded_for r = (case forwarded_for_lines r of [] \<Rightarrow> [] | v # _ \<Rightarrow> v)"

record 'a request_info =
  client_ip :: 'a
  info_scheme :: string
  info_host :: string
  from_trusted_proxy :: bool

datatype resolve_err = BadRemote | BadForwardedFor | BadForwardedProto | BadForwardedHost

definition trim_brackets :: "string \<Rightarrow> string" where
  "trim_brackets s = rev (dropWhile (\<lambda>c. c \<in> set ''[]'') (rev (dropWhile (\<lambda>c. c \<in> set ''[]'') s)))"

definition remote_ip :: "'a net_lib \<Rightarrow> string \<Rightarrow> 'a option" where
  "remote_ip L remote = parse_addr L (trim_brackets (case split_host_port L remote of None \<Rightarrow> remote | Some h \<Rightarrow> h))"

fun split_commas :: "string \<Rightarrow> string \<Rightarrow> string list" where
  "split_commas cur [] = [cur]"
| "split_commas cur (c # s) = (if c = CHR '','' then cur # split_commas [] s else split_commas (cur @ [c]) s)"

fun parse_chain :: "'a net_lib \<Rightarrow> string list \<Rightarrow> 'a list option" where
  "parse_chain L [] = Some []"
| "parse_chain L (p # ps) = (case parse_addr L (trim_space p) of None \<Rightarrow> None
     | Some a \<Rightarrow> map_option (\<lambda>as. a # as) (parse_chain L ps))"

text \<open>From the end of the chain: trusted hops are passed over, the first other one is the client. The second argument is
  the answer so far.\<close>

fun walk_back :: "('a \<Rightarrow> bool) \<Rightarrow> 'a \<Rightarrow> 'a list \<Rightarrow> 'a" where
  "walk_back trusted x [] = x"
| "walk_back trusted x (a # as) = (if \<not> trusted a then a else walk_back trusted a as)"

definition client_of_chain :: "('a \<Rightarrow> bool) \<Rightarrow> 'a list \<Rightarrow> 'a" where
  "client_of_chain trusted chain = walk_back trusted (last chain) (rev chain)"

definition resolve :: "'a net_lib \<Rightarrow> http_request \<Rightarrow> resolve_err + 'a request_info" where
  "resolve L r = (case remote_ip L (remote_addr r) of None \<Rightarrow> Inl BadRemote
     | Some remote \<Rightarrow>
        (let info = \<lparr>client_ip = remote, info_scheme = (if over_tls r then ''https'' else ''http''), info_host = req_host r,
              from_trusted_proxy = False\<rparr> in
         if \<not> in_prefix L remote then Inr info
         else case (if forwarded_for r = [] then Some remote
                    else map_option (client_of_chain (in_prefix L)) (parse_chain L (split_commas [] (forwarded_for r)))) of
            None \<Rightarrow> Inl BadForwardedFor
          | Some ip \<Rightarrow>
             if forwarded_proto r \<noteq> [] \<and> forwarded_proto r \<noteq> ''http'' \<and> forwarded_proto r \<noteq> ''https'' then Inl BadForwardedProto
             else if forwarded_host r \<noteq> [] \<and> (CHR '','' \<in> set (forwarded_host r) \<or> \<not> plain_host L (forwarded_host r)) then Inl BadForwardedHost
             else Inr (info\<lparr>client_ip := ip, from_trusted_proxy := True,
                 info_scheme := (if forwarded_proto r = [] then info_scheme info else forwarded_proto r),
                 info_host := (if forwarded_host r = [] then info_host info else forwarded_host r)\<rparr>)))"

section \<open>Lemmas\<close>

lemma walk_back_trusted: "\<forall>a\<in>set as. trusted a \<Longrightarrow> walk_back trusted x (as @ bs) = walk_back trusted (if as = [] then x else last as) bs"
  by (induction as arbitrary: x) auto

lemma client_of_chain_append:
  assumes "\<not> trusted a" "\<forall>b\<in>set bs. trusted b"
  shows "client_of_chain trusted (as @ a # bs) = a"
  using walk_back_trusted [of "rev bs" trusted "last (as @ a # bs)" "a # rev as"] assms by (simp add: client_of_chain_def)

lemma client_of_trusted_chain:
  assumes "\<forall>b\<in>set (b # bs). trusted b"
  shows "client_of_chain trusted (b # bs) = b"
  using walk_back_trusted [of "rev (b # bs)" trusted "last (b # bs)" "[]"] assms by (simp add: client_of_chain_def)

lemma parse_chain_append:
  "parse_chain L (ps @ qs) = (case parse_chain L ps of None \<Rightarrow> None | Some as \<Rightarrow> map_option (\<lambda>bs. as @ bs) (parse_chain L qs))"
  by (induction ps; cases "parse_chain L qs") (auto split: option.splits)

lemma split_commas_ends:
  "s = [] \<or> last s = CHR '','' \<Longrightarrow> \<exists>ps. split_commas [] (s @ t) = ps @ split_commas [] t"
proof -
  have *: "\<exists>ps. split_commas cur (s @ CHR '','' # t) = ps @ split_commas [] t" for s cur
  proof (induction s arbitrary: cur)
    case Nil
    show ?case by (intro exI [of _ "[cur]"]) simp
  next
    case (Cons c s)
    obtain ps where "split_commas [] (s @ CHR '','' # t) = ps @ split_commas [] t" using Cons.IH by blast
    with Cons.IH [of "cur @ [c]"] show ?case
      by (cases "c = CHR '',''") (auto intro: exI [of _ "cur # ps"])
  qed
  assume "s = [] \<or> last s = CHR '',''"
  then show ?thesis
  proof
    assume l: "last s = CHR '',''"
    show ?thesis
    proof (cases s rule: rev_cases)
      case (snoc s' c)
      with l * [of "[]" s'] show ?thesis by simp
    qed simp
  qed simp
qed

lemma parse_chain_length: "parse_chain L ps = Some as \<Longrightarrow> length as = length ps"
  by (induction ps arbitrary: as) (auto split: option.splits)

lemma split_commas_nonempty: "split_commas cur s \<noteq> []"
  by (induction s arbitrary: cur) auto

text \<open>What the loop finds: the last address that is not trusted, or the first one of all.\<close>

lemma client_of_chain_spec:
  assumes "chain \<noteq> []" "client_of_chain trusted chain = x"
  shows "if \<forall>a\<in>set chain. trusted a then x = hd chain
    else \<exists>before hops. chain = before @ x # hops \<and> \<not> trusted x \<and> (\<forall>h\<in>set hops. trusted h)"
proof (cases "\<forall>a\<in>set chain. trusted a")
  case True
  with assms client_of_trusted_chain [of "hd chain" "tl chain"] show ?thesis by (cases chain) auto
next
  case False
  then obtain before a hops where "chain = before @ a # hops" "\<not> trusted a" "\<forall>h\<in>set hops. trusted h"
    using split_list_last_prop [of chain "\<lambda>a. \<not> trusted a"] by blast
  with client_of_chain_append [of trusted a hops before] assms(2) False show ?thesis by auto
qed

section \<open>Properties\<close>

text \<open>C14: forwarded addresses cannot be forged. A peer that is not a trusted proxy is the client, whatever headers it
  sends. Behind a trusted proxy the addresses of the header (its first line) are read from the end: the client is the last
  one that is not trusted, the first of all when all are trusted, and the peer itself when there is no header. So when the
  proxies write the address \<open>x\<close> of a peer that is not trusted, followed by trusted hops only, into an empty header or after
  a comma, then \<open>x\<close> is the client, whatever the line held before.\<close>

theorem forwarded_addresses_cannot_be_forged:
  assumes "resolve L r = Inr info" "remote_ip L (remote_addr r) = Some remote"
  shows "(\<not> in_prefix L remote \<longrightarrow> client_ip info = remote \<and> info_host info = req_host r \<and> \<not> from_trusted_proxy info)
    \<and> (in_prefix L remote \<and> forwarded_for r = [] \<longrightarrow> client_ip info = remote)
    \<and> (in_prefix L remote \<and> forwarded_for r \<noteq> [] \<longrightarrow> (\<exists>chain. parse_chain L (split_commas [] (forwarded_for r)) = Some chain
        \<and> (if \<forall>a\<in>set chain. in_prefix L a then client_ip info = hd chain
           else \<exists>before hops. chain = before @ client_ip info # hops \<and> \<not> in_prefix L (client_ip info) \<and> (\<forall>h\<in>set hops. in_prefix L h))))
    \<and> (\<forall>claimed appended x hops. in_prefix L remote \<and> forwarded_for r = claimed @ appended
        \<and> (claimed = [] \<or> last claimed = CHR '','') \<and> appended \<noteq> []
        \<and> parse_chain L (split_commas [] appended) = Some (x # hops) \<and> \<not> in_prefix L x \<and> (\<forall>h\<in>set hops. in_prefix L h)
        \<longrightarrow> client_ip info = x)"
proof (intro conjI allI impI)
  show "client_ip info = remote" "info_host info = req_host r" "\<not> from_trusted_proxy info" if "\<not> in_prefix L remote"
    using assms that by (auto simp: resolve_def Let_def)
next
  show "client_ip info = remote" if "in_prefix L remote \<and> forwarded_for r = []"
    using assms that by (auto simp: resolve_def Let_def split: if_splits)
next
  assume h: "in_prefix L remote \<and> forwarded_for r \<noteq> []"
  obtain as where as: "parse_chain L (split_commas [] (forwarded_for r)) = Some as" "client_of_chain (in_prefix L) as = client_ip info"
    using assms h by (auto simp: resolve_def Let_def split: option.splits if_splits)
  have ne: "as \<noteq> []" using parse_chain_length [OF as(1)] split_commas_nonempty [of "[]" "forwarded_for r"] by auto
  show "\<exists>chain. parse_chain L (split_commas [] (forwarded_for r)) = Some chain
        \<and> (if \<forall>a\<in>set chain. in_prefix L a then client_ip info = hd chain
           else \<exists>before hops. chain = before @ client_ip info # hops \<and> \<not> in_prefix L (client_ip info) \<and> (\<forall>h\<in>set hops. in_prefix L h))"
    by (intro exI conjI, rule as(1), rule client_of_chain_spec [OF ne as(2)])
next
  fix claimed appended x hops
  assume h: "in_prefix L remote \<and> forwarded_for r = claimed @ appended \<and> (claimed = [] \<or> last claimed = CHR '','') \<and> appended \<noteq> []
    \<and> parse_chain L (split_commas [] appended) = Some (x # hops) \<and> \<not> in_prefix L x \<and> (\<forall>h\<in>set hops. in_prefix L h)"
  obtain ps where ps: "split_commas [] (forwarded_for r) = ps @ split_commas [] appended" using split_commas_ends h by metis
  obtain as where as: "parse_chain L (split_commas [] (forwarded_for r)) = Some as" "client_ip info = client_of_chain (in_prefix L) as"
    using assms h by (auto simp: resolve_def Let_def split: option.splits if_splits)
  then obtain bs where "as = bs @ x # hops" using h unfolding ps parse_chain_append by (auto split: option.splits)
  with as(2) h show "client_ip info = x" by (simp add: client_of_chain_append)
qed

text \<open>Addresses are single letters here, upper case for the trusted ones.\<close>

definition letter_lib :: "char net_lib" where
  "letter_lib = \<lparr>split_host_port = (\<lambda>_. None), parse_addr = (\<lambda>s. case s of [c] \<Rightarrow> Some c | _ \<Rightarrow> None),
     in_prefix = (\<lambda>c. c \<in> set ''ABC''), plain_host = (\<lambda>_. True)\<rparr>"

definition letter_request :: "string list \<Rightarrow> http_request" where
  "letter_request lines = \<lparr>remote_addr = ''A'', over_tls = True, req_host = ''h'', forwarded_for_lines = lines,
     forwarded_proto = [], forwarded_host = []\<rparr>"

lemma forwarded_addresses_cannot_be_forged_witness:
  "(\<exists>info. resolve letter_lib (letter_request [''x,y,B'']) = Inr info \<and> client_ip info = CHR ''y'')
   \<and> (\<exists>info. resolve letter_lib (letter_request [''y'']) = Inr info \<and> client_ip info = CHR ''y'')"
proof
  have remote: "remote_ip letter_lib (remote_addr (letter_request ls)) = Some CHR ''A''" for ls
    by (simp add: remote_ip_def letter_request_def letter_lib_def trim_brackets_def)
  have p: "in_prefix letter_lib CHR ''A''" "\<not> in_prefix letter_lib CHR ''y''" "in_prefix letter_lib CHR ''B''"
    "parse_chain letter_lib (split_commas [] ''y,B'') = Some [CHR ''y'', CHR ''B'']"
    "parse_chain letter_lib (split_commas [] ''y'') = Some [CHR ''y'']" by code_simp+
  have "\<not> isl (resolve letter_lib (letter_request [''x,y,B'']))" by code_simp
  then obtain info where i: "resolve letter_lib (letter_request [''x,y,B'']) = Inr info"
    by (cases "resolve letter_lib (letter_request [''x,y,B''])") auto
  have f: "forwarded_for (letter_request [''x,y,B'']) = ''x,'' @ ''y,B''" by (simp add: forwarded_for_def letter_request_def)
  from forwarded_addresses_cannot_be_forged [OF i remote, THEN conjunct2, THEN conjunct2, THEN conjunct2, THEN spec, THEN spec,
      THEN spec, THEN spec, THEN mp, of "''x,''" "''y,B''" "CHR ''y''" "''B''"] p f
  have "client_ip info = CHR ''y''" by simp
  with i show "\<exists>info. resolve letter_lib (letter_request [''x,y,B'']) = Inr info \<and> client_ip info = CHR ''y''" by blast
  have "\<not> isl (resolve letter_lib (letter_request [''y'']))" by code_simp
  then obtain info where i: "resolve letter_lib (letter_request [''y'']) = Inr info"
    by (cases "resolve letter_lib (letter_request [''y''])") auto
  have f: "forwarded_for (letter_request [''y'']) = [] @ ''y''" by (simp add: forwarded_for_def letter_request_def)
  from forwarded_addresses_cannot_be_forged [OF i remote, THEN conjunct2, THEN conjunct2, THEN conjunct2, THEN spec, THEN spec,
      THEN spec, THEN spec, THEN mp, of "[]" "''y''" "CHR ''y''" "[]"] p f
  have "client_ip info = CHR ''y''" by simp
  with i show "\<exists>info. resolve letter_lib (letter_request [''y'']) = Inr info \<and> client_ip info = CHR ''y''" by blast
qed

end
