(* ===== verification/Spec2Isabelle.thy ===== *)
theory Spec2Isabelle
  imports Finalize Jobs Settings Utf8 MessageLaws DeliveryLaws Listing Availability SignIn Maintenance ContentLocks
    Search Health Hub ClientAddress
begin

text \<open>
  \<^bold>\<open>RelayShelf, a model of its Go services\<close>

  RelayShelf moves texts and files between the devices of a household: messages that expire or stay, uploads that are
  resumed after an interruption and stored once per content, deliveries to other users, a trash, sensitive bodies that
  are encrypted, and accounts with sessions and a second factor. The services under \<^verbatim>\<open>internal/\<close> keep their
  state in PostgreSQL (\<^verbatim>\<open>sql/generated\<close>, \<^verbatim>\<open>migrations\<close>), in a staging directory for
  uploads under way and in an object store for the files that are complete. Background work is a table of jobs, a worker
  that drains it and a scheduler that runs a pass of maintenance every hour.

  \<^bold>\<open>How the parts interact.\<close> An upload (\<open>Uploads\<close>) collects parts in the staging directory
  (\<open>Staging\<close>); completing it hashes the data, reserves an object, copies the data to the store
  (\<open>Storage\<close>), makes the object READY and the session COMPLETED (\<open>Finalize\<close>). A message is created
  from the request of its owner or delivered by another user (\<open>Delivery\<close>), under an idempotency key
  (\<open>Idempotency\<close>), and takes over the completed uploads as attachments (\<open>Attachments\<close>), which
  also queues thumbnail jobs (\<open>Jobs\<close>). Its owner changes it under an optimistic lock (\<open>Messages\<close>),
  lists it (\<open>Listing\<close>) and downloads its files (\<open>Files\<close>). Objects without an attachment are marked
  and collected, and reconciled with the store (\<open>Files\<close>). All requests run on behalf of an authenticated
  session (\<open>Auth\<close>) of an account (\<open>Accounts\<close>). The scheduler (\<open>Scheduler\<close>) calls the
  clean-ups of all of them.

  \<^bold>\<open>State and effects.\<close> \<open>Schema\<close> has one record per table and the state \<open>world\<close>: the
  database, the staging directory, the object store, and one script of outcomes per kind of call that leaves the process.
  A call takes the next outcome of its script and succeeds, fails before its effect, or fails after it, so a theorem over
  all worlds is one over all patterns of failures. An operation is an \<open>act\<close> (\<open>Prelude\<close>): a function
  from the state to an error or a result and the state after it; every error of the code is a value of an error datatype.
  A transaction (\<open>in_tx\<close>) puts the database back unless its body commits. Integers of Go are \<open>int\<close> with
  \<open>wrap64\<close> written out where the code computes with them; identifiers are \<open>128 word\<close>, so that a random
  identifier and the order of PostgreSQL are those of the code; instants are numbers of nanoseconds.

  \<^bold>\<open>Theories and the code they model.\<close>
  \<^item> \<open>Prelude\<close>, \<open>Schema\<close>: actions, statements on row lists, rows, the state, and the rules that carry
    invariants through actions (\<open>keeps\<close>).
  \<^item> \<open>Blobs\<close>, \<open>Staging\<close> (\<^verbatim>\<open>platform/staging\<close>), \<open>Storage\<close>
    (\<^verbatim>\<open>storage/key.go\<close>, \<^verbatim>\<open>filesystem.go\<close>): directories of files; the locale
    \<open>blob_dir\<close> states that disjoint writes in any order put a file together.
  \<^item> \<open>Utf8\<close>: decoding of \<^verbatim>\<open>unicode/utf8\<close>, used by validation, previews and error summaries.
  \<^item> \<open>Jobs\<close> (\<^verbatim>\<open>jobs/repository.go\<close>, \<^verbatim>\<open>worker.go\<close>, \<^verbatim>\<open>backoff\<close>): claims,
    retries, recovery, the worker. The locale \<open>worker_repository\<close> is what the worker needs of its repository.
  \<^item> \<open>Settings\<close> (\<^verbatim>\<open>settings\<close>, \<^verbatim>\<open>audit\<close>): validated settings and the audit log.
  \<^item> \<open>Uploads\<close> (\<^verbatim>\<open>uploads/service.go\<close>, \<^verbatim>\<open>repository.go\<close>), \<open>Finalize\<close>
    (\<^verbatim>\<open>uploads/finalize.go\<close>), \<open>Locks\<close> (\<^verbatim>\<open>uploads/locks.go\<close>), \<open>ContentLocks\<close>
    (\<open>contentLockRegistry\<close>): the life of an upload; the two lock theories let threads interleave at every
    critical section and every operation on a mutex.
  \<^item> \<open>MessageModel\<close> (validation, preview, sealing of bodies, statements), \<open>Messages\<close>
    (\<^verbatim>\<open>messages/service.go\<close>), \<open>Attachments\<close> (\<^verbatim>\<open>attachments.go\<close>),
    \<open>Idempotency\<close> (\<^verbatim>\<open>idempotency.go\<close>), \<open>Delivery\<close>, and their theorems in
    \<open>MessageLaws\<close> and \<open>DeliveryLaws\<close>. The locales \<open>message_change\<close>,
    \<open>valid_change\<close> and \<open>repeatable\<close> hold what the eight changes of a message, and the three kinds of
    delivery, have in common.
  \<^item> \<open>Paging\<close>, \<open>Listing\<close>: pages and cursors, once as the locale \<open>cursor_pages\<close>.
  \<^item> \<open>Files\<close> (\<^verbatim>\<open>files/service.go\<close>), \<open>Availability\<close>: downloads, collection and
    reconciliation, and the step relation \<open>service_step\<close> of all service calls.
  \<^item> \<open>Base64\<close>, \<open>Base32\<close>, \<open>Totp\<close> (\<^verbatim>\<open>auth/totp.go\<close>,
    \<^verbatim>\<open>session.go\<close>, \<^verbatim>\<open>csrf.go\<close>), \<open>RateLimit\<close> (\<^verbatim>\<open>auth/ratelimit.go\<close>),
    \<open>Auth\<close> (\<^verbatim>\<open>auth/service.go\<close>, \<^verbatim>\<open>totp_service.go\<close>, \<^verbatim>\<open>repository.go\<close>),
    \<open>Accounts\<close> (\<^verbatim>\<open>users\<close>), \<open>AuthLaws\<close>, \<open>SignIn\<close>: codes, tokens, sessions,
    accounts. The locale \<open>identity_law\<close> carries a condition on the tables through every operation.
  \<^item> \<open>Scheduler\<close> (\<^verbatim>\<open>jobs/scheduler.go\<close>), \<open>Maintenance\<close>: the pass of
    maintenance; the locale \<open>batch_task\<close> is a task that works off a backlog in batches.
  \<^item> \<open>Tags\<close> (\<^verbatim>\<open>tags\<close>), \<open>TextMatch\<close>, \<open>Search\<close>
    (\<^verbatim>\<open>search\<close>): tags and their effect on messages; the tokens and patterns of a search, its query as a
    condition on rows, and its pages by the locale of \<open>Paging\<close>.
  \<^item> \<open>Health\<close> (\<^verbatim>\<open>storage/monitor.go\<close>, \<^verbatim>\<open>admin/status.go\<close>): the streak of failing
    probes, the status of the storage and the gate on second factors.
  \<^item> \<open>Hub\<close> (\<^verbatim>\<open>realtime/hub.go\<close>): the subscriptions to live events.
  \<^item> \<open>ClientAddress\<close> (\<^verbatim>\<open>platform/httpx/clientip.go\<close>): the client behind trusted proxies.

  \<^bold>\<open>What is shown.\<close> Data is not lost: a finalized upload is stored with its hash, the parts sent in any order
  are the file, and after any sequence of calls, failures and crashes the owner of a message can download its
  attachments. Requests take effect once: a job stays with the
  worker that claimed it until it ends or is recovered, retries of a creation or delivery add at most one
  message, an upload is bound to one message, of two updates of one version at most one is made. Nobody gets in: a request
  is authenticated only by a live session of an active user, a login needs the password and the second factor, whose
  codes and challenges are spent, guessing is throttled, and disabling, resetting and signing out are final. Nothing is
  forgotten: cursors list every message once, the maintenance clears its backlog, reconciliation ends, locks exclude what
  they should and never block for ever. A search lists exactly the messages that match, the deletion of a tag reaches the
  clients that hold its messages, live events arrive in order or their loss is announced, a failing store is reported
  after its streak, and an address in a forwarded header counts only as far as trusted proxies vouch for it. Bounds: the
  quota and the admission of uploads, the entries of the limiter.

  \<^bold>\<open>Bounds and fuel.\<close> Loops over rows and parts are structural. The drain of the job queue and \<open>persist\<close>
  recurse on the script of outcomes and on the looks at the context, which every round consumes. The paging of the
  reconciliation has fuel, the number of objects plus one, and \<open>reconciliation_ends\<close> shows that it never runs
  out. The passes of the scheduler are five batches of 200 by the code.

  \<^bold>\<open>Parameters.\<close> SHA-256, HMAC, AES-GCM, argon2id and the Unicode case mapping are arguments; what a theorem needs
  of them (an opened seal gives back the text, the right length) is a hypothesis, met by a concrete function in its
  witness.

  \<^bold>\<open>Simplifications.\<close>
  \<^item> Each service call is one step of \<open>service_step\<close>; inside, every database statement, file operation and
    identifier may fail. Row locks, advisory locks and the locks of the uploads make the transactions of one object
    sequential; that the in-process locks do so is shown in \<open>Locks\<close> and \<open>ContentLocks\<close>.
  \<^item> Of the foreign keys, the effects of deletions (messages, objects, users), the restriction of derivatives and those
    of the insertions of \<open>Auth\<close> are modelled. A failing query returns no rows. Text is ordered by bytes.
  \<^item> Failure hooks that only tests set are nil; the thumbnail ensurer and the wake channel are configured as in
    production. All files are regular. Each piece of a body that is written is one call.
  \<^item> Times are readings of the clock passed to the operation, one per call unless stated. Metadata of audit events
    and idempotency results are kept as values, not as JSON. The wire form of cursors is not modelled.
  \<^item> Mutexes are those of \<^verbatim>\<open>sync\<close>: a reader is admitted unless there is a writer; freedom of deadlock is
    shown also when readers wait for a writer that waits.

  \<^bold>\<open>Not modelled.\<close>
  \<^item> The HTTP layer (\<^verbatim>\<open>httpapi\<close>, the handlers, \<^verbatim>\<open>platform/httpx\<close>): generated types and the
    translation between HTTP and the services.
  \<^item> Saved searches (handlers that store a JSON text), the self-check of the storage, the probes and the rest of the
    status page (build, migrations, list of failed jobs), cookies.
  \<^item> Thumbnails and archives: image codecs and the zip writer are library code on streams; their rows and jobs are
    modelled with the job queue and the reconciliation.
  \<^item> argon2id, the older \<^verbatim>\<open>users.Service\<close>, which the program does not use, and the start of the process
    (\<^verbatim>\<open>cmd\<close>, configuration, migrations, embedded assets).
\<close>

end
